(* ===== verification/JsPrelude.thy ===== *)
theory JsPrelude
  imports Complex_Main "HOL-Library.Word" "HOL-Library.Log_Nat"
begin

text \<open>
  The shared part of the development: the JavaScript values the sources compute with, and the
  lemmas about them the components share.

  \<^item> A JavaScript string is a list of UTF-16 code units, so \<open>length\<close>, \<open>charCodeAt\<close>,
    \<open>slice\<close> and \<open>lastIndexOf\<close> mean what they mean in the source. \<open>lit ''abc''\<close>
    is the string of an ASCII literal; other code units are written by number.
  \<^item> The empty string is the falsy one: a source test \<open>if (s)\<close> is \<open>s \<noteq> []\<close>.
  \<^item> \<open>null\<close> and \<open>undefined\<close> are \<^const>\<open>None\<close>.
  \<^item> Sizes, counts and times are integers (\<open>nat\<close>); a quotient is a double, that is the exact
    quotient rounded to 53 bits by \<open>js_fl\<close>, so \<open>toFixed\<close> and \<open>Math.round\<close> see
    the value the browser sees.
  \<^item> Upper and lower case is modelled for ASCII letters; every other code unit is its own
    lower case.
\<close>

section \<open>Collections of facts\<close>

named_theorems js_eval \<open>definitions unfolded to evaluate the model on a closed term\<close>
named_theorems js_string \<open>facts about JavaScript string operations\<close>

section \<open>Strings\<close>

type_synonym jchar = "16 word"
type_synonym jstring = "jchar list"

definition lit :: "string \<Rightarrow> jstring" where
  [js_eval]: "lit s = map of_char s"

abbreviation slash :: jchar where "slash \<equiv> 47"
abbreviation dot :: jchar where "dot \<equiv> 46"
abbreviation quote :: jchar where "quote \<equiv> 34"
abbreviation comma :: jchar where "comma \<equiv> 44"
abbreviation pipe :: jchar where "pipe \<equiv> 124"
abbreviation backslash :: jchar where "backslash \<equiv> 92"
abbreviation colon :: jchar where "colon \<equiv> 58"
abbreviation dash :: jchar where "dash \<equiv> 45"
abbreviation space :: jchar where "space \<equiv> 32"
abbreviation nl :: jchar where "nl \<equiv> 10"
abbreviation cr :: jchar where "cr \<equiv> 13"
abbreviation tab_char :: jchar where "tab_char \<equiv> 9"

text \<open>\<open>s.startsWith(p)\<close>, \<open>s.endsWith(p)\<close>, \<open>s.includes(c)\<close> for one code unit.\<close>

definition starts_with :: "jstring \<Rightarrow> jstring \<Rightarrow> bool" where
  [js_eval]: "starts_with s p \<longleftrightarrow> take (length p) s = p"

definition ends_with :: "jstring \<Rightarrow> jstring \<Rightarrow> bool" where
  [js_eval]: "ends_with s p \<longleftrightarrow> length p \<le> length s \<and> drop (length s - length p) s = p"

text \<open>\<open>s.indexOf(c)\<close> and \<open>s.lastIndexOf(c)\<close>; \<^const>\<open>None\<close> stands for \<open>-1\<close>.\<close>

fun index_of :: "jchar \<Rightarrow> jstring \<Rightarrow> nat option" where
  "index_of c [] = None"
| "index_of c (x # xs) = (if x = c then Some 0 else map_option Suc (index_of c xs))"

fun last_index_of :: "jchar \<Rightarrow> jstring \<Rightarrow> nat option" where
  "last_index_of c [] = None"
| "last_index_of c (x # xs) =
     (case last_index_of c xs of
        Some i \<Rightarrow> Some (Suc i)
      | None \<Rightarrow> if x = c then Some 0 else None)"

text \<open>\<open>s.split(c)\<close> for a one-unit separator, and \<open>parts.join(sep)\<close>.\<close>

fun split_on :: "jchar \<Rightarrow> jstring \<Rightarrow> jstring list" where
  "split_on d [] = [[]]"
| "split_on d (c # cs) =
     (if c = d then [] # split_on d cs
      else (case split_on d cs of [] \<Rightarrow> [[c]] | x # xs \<Rightarrow> (c # x) # xs))"

fun join :: "jstring \<Rightarrow> jstring list \<Rightarrow> jstring" where
  "join sep [] = []"
| "join sep [x] = x"
| "join sep (x # y # ys) = x @ sep @ join sep (y # ys)"

text \<open>White space as \<open>trim\<close> and the class \<open>\s\<close> read it.\<close>

definition js_ws :: "jchar \<Rightarrow> bool" where
  [js_eval]: "js_ws c \<longleftrightarrow> c \<in> {9, 10, 11, 12, 13, 32, 0xA0, 0x1680, 0x2028, 0x2029, 0x202F, 0x205F, 0x3000, 0xFEFF}
     \<or> (0x2000 \<le> c \<and> c \<le> 0x200A)"

definition trim_start :: "jstring \<Rightarrow> jstring" where
  [js_eval]: "trim_start s = dropWhile js_ws s"

definition trim_end :: "jstring \<Rightarrow> jstring" where
  [js_eval]: "trim_end s = rev (dropWhile js_ws (rev s))"

definition trim :: "jstring \<Rightarrow> jstring" where
  [js_eval]: "trim s = trim_end (trim_start s)"

definition lower :: "jstring \<Rightarrow> jstring" where
  [js_eval]: "lower s = map (\<lambda>c. if 65 \<le> c \<and> c \<le> 90 then c + 32 else c) s"

definition js_digit :: "jchar \<Rightarrow> bool" where
  [js_eval]: "js_digit c \<longleftrightarrow> 48 \<le> c \<and> c \<le> 57"

text \<open>The decimal digits of a count, as a template literal prints it.\<close>

fun num_str :: "nat \<Rightarrow> jstring" where
  "num_str n = (if n < 10 then [of_nat (48 + n)] else num_str (n div 10) @ [of_nat (48 + n mod 10)])"

declare num_str.simps [simp del, js_eval]

section \<open>Doubles\<close>

text \<open>
  A positive double in the normal range is \<open>m * 2 ^ e\<close> with \<open>m < 2 ^ 53\<close>. \<open>js_fl\<close>
  rounds an exact non-negative rational to the nearest such number, ties to the even \<open>m\<close>.
\<close>

definition round_even :: "rat \<Rightarrow> int" where
  [js_eval]: "round_even x =
     (let f = \<lfloor>x\<rfloor>; d = x - of_int f
      in if d < 1 / 2 then f else if d > 1 / 2 then f + 1 else if even f then f else f + 1)"

definition ilog2 :: "rat \<Rightarrow> int" where
  [js_eval]: "ilog2 x =
     (let (p, q) = quotient_of x;
          k = int (floorlog 2 (nat p)) - int (floorlog 2 (nat q))
      in if power_int 2 k \<le> x then k else k - 1)"

definition js_fl :: "rat \<Rightarrow> rat" where
  [js_eval]: "js_fl x =
     (if x \<le> 0 then 0
      else (let u = power_int 2 (ilog2 x - 52) in of_int (round_even (x / u)) * u))"

definition js_div :: "rat \<Rightarrow> rat \<Rightarrow> rat" where
  [js_eval]: "js_div a b = js_fl (a / b)"

definition js_mul :: "rat \<Rightarrow> rat \<Rightarrow> rat" where
  [js_eval]: "js_mul a b = js_fl (a * b)"

definition js_add :: "rat \<Rightarrow> rat \<Rightarrow> rat" where
  [js_eval]: "js_add a b = js_fl (a + b)"

text \<open>\<open>Math.round\<close> rounds halves up; \<open>toFixed(1)\<close> takes the nearest tenth, the larger on a tie.\<close>

definition js_round :: "rat \<Rightarrow> int" where
  [js_eval]: "js_round x = \<lfloor>x + 1 / 2\<rfloor>"

definition to_fixed1 :: "rat \<Rightarrow> jstring" where
  [js_eval]: "to_fixed1 x =
     (let t = nat \<lfloor>x * 10 + 1 / 2\<rfloor> in num_str (t div 10) @ [dot] @ num_str (t mod 10))"

lemma round_even_nonneg [simp]: "0 \<le> x \<Longrightarrow> 0 \<le> round_even x"
  by (auto simp: round_even_def Let_def)

lemma js_fl_nonneg [simp]: "0 \<le> js_fl x"
  by (auto simp: js_fl_def Let_def intro!: mult_nonneg_nonneg)

lemma js_div_nonneg [simp]: "0 \<le> js_div a b"
  by (simp add: js_div_def)

lemma js_mul_nonneg [simp]: "0 \<le> js_mul a b"
  by (simp add: js_mul_def)

lemma js_add_nonneg [simp]: "0 \<le> js_add a b"
  by (simp add: js_add_def)

lemma js_round_mono: "x \<le> y \<Longrightarrow> js_round x \<le> js_round y"
  unfolding js_round_def by (intro floor_mono) simp

lemma js_round_of_nat [simp]: "js_round (of_nat n) = int n"
proof -
  have "\<lfloor>(of_nat n :: rat) + 1 / 2\<rfloor> = int n" by (rule floor_unique) auto
  then show ?thesis by (simp add: js_round_def)
qed

text \<open>A double is within a relative error of \<open>2 ^ -53\<close> of the number it stands for.\<close>

lemma round_even_error: "\<bar>of_int (round_even x) - x\<bar> \<le> 1 / 2"
proof -
  have "of_int \<lfloor>x\<rfloor> \<le> x" "x < of_int \<lfloor>x\<rfloor> + 1" by linarith+
  then show ?thesis by (auto simp: round_even_def Let_def abs_le_iff)
qed

lemma ilog2_le:
  assumes "0 < x"
  shows "power_int 2 (ilog2 x) \<le> x"
proof -
  obtain p q where pq: "quotient_of x = (p, q)" by force
  have q: "0 < q" using quotient_of_denom_pos [OF pq] .
  have x: "x = of_int p / of_int q" using quotient_of_div [OF pq] .
  then have p: "0 < p" using assms q by (simp add: zero_less_divide_iff)
  let ?a = "floorlog 2 (nat p)" and ?b = "floorlog 2 (nat q)"
  have "2 ^ (?a - 1) \<le> nat p" "0 < ?a" using floorlog_bounds [of "nat p" 2] p by (auto simp: floorlog_def)
  then have a: "(2 :: rat) ^ (?a - 1) \<le> of_int p" using p by (metis of_nat_le_iff of_nat_nat of_nat_numeral of_nat_power less_imp_le)
  have "nat q < 2 ^ ?b" using floorlog_bounds [of "nat q" 2] q by auto
  then have b: "of_int q < (2 :: rat) ^ ?b" using q by (metis of_nat_less_iff of_nat_nat of_nat_numeral of_nat_power less_imp_le)
  have "power_int 2 (int ?a - int ?b - 1) = (2 :: rat) ^ (?a - 1) / 2 ^ ?b"
    using \<open>0 < ?a\<close> by (simp add: power_int_diff of_nat_diff flip: power_int_of_nat)
  also have "\<dots> \<le> of_int p / of_int q" using a b p q by (intro frac_le) auto
  finally have "power_int 2 (int ?a - int ?b - 1) \<le> x" unfolding x .
  then show ?thesis by (simp add: ilog2_def pq Let_def)
qed

lemma js_fl_error:
  assumes "0 < x"
  shows "\<bar>js_fl x - x\<bar> \<le> x / 2 ^ 53"
proof -
  let ?u = "power_int (2 :: rat) (ilog2 x - 52)"
  have u: "0 < ?u" by simp
  have "js_fl x - x = (of_int (round_even (x / ?u)) - x / ?u) * ?u" using assms u by (simp add: js_fl_def Let_def left_diff_distrib)
  then have "\<bar>js_fl x - x\<bar> \<le> 1 / 2 * ?u"
    using mult_right_mono [OF round_even_error [of "x / ?u"], of ?u] u by (simp add: abs_mult)
  also have "?u = power_int 2 (ilog2 x) / 2 ^ 52" by (simp add: power_int_diff)
  finally show ?thesis using ilog2_le [OF assms] by simp
qed

lemma js_fl_bounds:
  assumes "0 < a" "a \<le> x" "x \<le> b"
  shows "a - a / 2 ^ 53 \<le> js_fl x" "js_fl x \<le> b + b / 2 ^ 53"
proof -
  have "0 < x" using assms by simp
  from js_fl_error [OF this] have e: "js_fl x - x \<le> x / 2 ^ 53" "x - js_fl x \<le> x / 2 ^ 53" unfolding abs_le_iff by linarith+
  then show "a - a / 2 ^ 53 \<le> js_fl x" "js_fl x \<le> b + b / 2 ^ 53" using assms by simp_all
qed

section \<open>Lemmas on strings\<close>

lemma unat_bound16: "unat (c :: jchar) < 65536"
  using unsigned_less [of c, where 'a = nat] by simp

lemma split_on_nonempty [simp]: "split_on d s \<noteq> []"
  by (induction s) (auto split: list.splits)

lemma join_Cons: "xs \<noteq> [] \<Longrightarrow> join sep (x # xs) = x @ sep @ join sep xs"
  by (cases xs) auto

lemma join_split_on [js_string]: "join [d] (split_on d s) = s"
proof (induction s)
  case Nil
  show ?case by simp
next
  case (Cons c cs)
  obtain x xs where xs: "split_on d cs = x # xs" by (cases "split_on d cs") auto
  with Cons show ?case by (cases xs) auto
qed

lemma split_on_no_sep: "x \<in> set (split_on d s) \<Longrightarrow> d \<notin> set x"
proof (induction s arbitrary: x)
  case Nil
  then show ?case by simp
next
  case (Cons c cs)
  obtain y ys where ys: "split_on d cs = y # ys" by (cases "split_on d cs") auto
  with Cons show ?case by (auto split: if_splits)
qed

lemma split_on_append_sep: "d \<notin> set x \<Longrightarrow> split_on d (x @ d # s) = x # split_on d s"
  by (induction x) auto

lemma split_on_plain: "d \<notin> set x \<Longrightarrow> split_on d x = [x]"
  by (induction x) auto

lemma split_on_join [js_string]:
  "xs \<noteq> [] \<Longrightarrow> (\<And>x. x \<in> set xs \<Longrightarrow> d \<notin> set x) \<Longrightarrow> split_on d (join [d] xs) = xs"
  by (induction xs rule: induct_list012) (auto simp: split_on_append_sep split_on_plain)

lemma last_index_of_None_iff: "last_index_of c s = None \<longleftrightarrow> c \<notin> set s"
  by (induction s) (auto split: option.splits)

lemma last_index_of_notin [simp]: "c \<notin> set s \<Longrightarrow> last_index_of c s = None"
  by (simp add: last_index_of_None_iff)

lemma last_index_of_append_notin:
  "c \<notin> set t \<Longrightarrow> last_index_of c (s @ c # t) = Some (length s)"
  by (induction s) auto

lemma last_index_of_Some:
  "last_index_of c s = Some i \<longleftrightarrow> i < length s \<and> s ! i = c \<and> c \<notin> set (drop (Suc i) s)"
proof (induction s arbitrary: i)
  case Nil
  then show ?case by simp
next
  case (Cons x xs)
  show ?case
  proof (cases "last_index_of c xs")
    case None
    then have "c \<notin> set xs" by (simp add: last_index_of_None_iff)
    with None show ?thesis by (cases i) (auto dest: nth_mem)
  next
    case (Some k)
    then have "c \<in> set xs" by (metis last_index_of_None_iff option.distinct(1))
    moreover have "k = j \<longleftrightarrow> j < length xs \<and> xs ! j = c \<and> c \<notin> set (drop (Suc j) xs)" for j
      using Cons.IH [of j] Some by simp
    ultimately show ?thesis using Some by (cases i) simp_all
  qed
qed

lemma starts_with_append [simp, js_string]: "starts_with (p @ s) p"
  by (simp add: starts_with_def)

lemma starts_with_iff [js_string]: "starts_with s p \<longleftrightarrow> (\<exists>t. s = p @ t)"
  unfolding starts_with_def by (metis append_eq_conv_conj append_take_drop_id)

lemma ends_with_iff [js_string]: "ends_with s p \<longleftrightarrow> (\<exists>t. s = t @ p)"
proof
  assume "ends_with s p"
  then have "s = take (length s - length p) s @ p"
    unfolding ends_with_def by (metis append_take_drop_id)
  then show "\<exists>t. s = t @ p" ..
qed (auto simp: ends_with_def)

lemma num_str_nonempty [simp]: "num_str n \<noteq> []"
  by (subst num_str.simps) simp

lemma length_trim_start: "length (trim_start s) \<le> length s"
  unfolding trim_start_def by (rule length_dropWhile_le)

lemma trim_end_id: "s = [] \<or> \<not> js_ws (last s) \<Longrightarrow> trim_end s = s"
  unfolding trim_end_def by (cases s rule: rev_cases) auto

lemma trim_start_id: "s = [] \<or> \<not> js_ws (hd s) \<Longrightarrow> trim_start s = s"
  unfolding trim_start_def by (cases s) auto

section \<open>Lemmas on lists\<close>

lemma list_all_filter [simp]: "list_all P (filter P xs)"
  by (induction xs) auto

lemma sum_list_le_pointwise:
  "(\<And>x. x \<in> set xs \<Longrightarrow> f x \<le> (g x :: nat)) \<Longrightarrow> sum_list (map f xs) \<le> sum_list (map g xs)"
  by (rule sum_list_mono)

lemma find_SomeD: "List.find P xs = Some x \<Longrightarrow> x \<in> set xs \<and> P x"
  by (auto simp: find_Some_iff)

end
