(* ===== verification/Paths.thy ===== *)
theory Paths
  imports JsPrelude
begin

text \<open>
  \<open>luna/web/src/lib/paths.js\<close>: relative drive paths, the trash and backups aliases, router
  addresses and human-readable sizes. \<open>encodeURIComponent\<close> of the language is modelled over
  UTF-16 code units, with the \<open>URIError\<close> of a lone surrogate as \<^const>\<open>None\<close>; the
  address builders that call it return an option for the same reason.
\<close>

section \<open>Percent encoding\<close>

fun code_points :: "jstring \<Rightarrow> nat list option" where
  "code_points [] = Some []"
| "code_points (c # cs) =
     (let u = unat c in
      if 0xD800 \<le> u \<and> u \<le> 0xDBFF then
        (case cs of
           [] \<Rightarrow> None
         | d # ds \<Rightarrow>
             (let v = unat d in
              if 0xDC00 \<le> v \<and> v \<le> 0xDFFF
              then map_option ((#) ((u - 0xD800) * 0x400 + (v - 0xDC00) + 0x10000)) (code_points ds)
              else None))
      else if 0xDC00 \<le> u \<and> u \<le> 0xDFFF then None
      else map_option ((#) u) (code_points cs))"

definition utf8 :: "nat \<Rightarrow> nat list" where
  [js_eval]: "utf8 p =
     (if p < 0x80 then [p]
      else if p < 0x800 then [0xC0 + p div 64, 0x80 + p mod 64]
      else if p < 0x10000 then [0xE0 + p div 4096, 0x80 + p div 64 mod 64, 0x80 + p mod 64]
      else [0xF0 + p div 262144, 0x80 + p div 4096 mod 64, 0x80 + p div 64 mod 64, 0x80 + p mod 64])"

definition uri_unreserved :: "nat \<Rightarrow> bool" where
  [js_eval]: "uri_unreserved p \<longleftrightarrow>
     (48 \<le> p \<and> p \<le> 57) \<or> (65 \<le> p \<and> p \<le> 90) \<or> (97 \<le> p \<and> p \<le> 122)
     \<or> p \<in> {45, 95, 46, 33, 126, 42, 39, 40, 41}"

definition hex_digit :: "nat \<Rightarrow> jchar" where
  [js_eval]: "hex_digit n = of_nat (if n < 10 then 48 + n else 55 + n)"

definition percent :: "nat \<Rightarrow> jstring" where
  [js_eval]: "percent b = [37, hex_digit (b div 16), hex_digit (b mod 16)]"

definition encode_point :: "nat \<Rightarrow> jstring" where
  [js_eval]: "encode_point p =
     (if uri_unreserved p then [of_nat p] else concat (map percent (utf8 p)))"

definition encodeURIComponent :: "jstring \<Rightarrow> jstring option" where
  [js_eval]: "encodeURIComponent s = map_option (\<lambda>ps. concat (map encode_point ps)) (code_points s)"

section \<open>Drive paths\<close>

definition TRASH_PATH :: jstring where
  [js_eval]: "TRASH_PATH = lit ''.luna-trash''"

definition BACKUPS_PATH :: jstring where
  [js_eval]: "BACKUPS_PATH = lit ''.luna-backups''"

definition isBackupsPath :: "jstring \<Rightarrow> bool" where
  [js_eval]: "isBackupsPath path \<longleftrightarrow> path = BACKUPS_PATH \<or> starts_with path (BACKUPS_PATH @ [slash])"

definition isTrashPath :: "jstring \<Rightarrow> bool" where
  [js_eval]: "isTrashPath path \<longleftrightarrow> path = TRASH_PATH \<or> starts_with path (TRASH_PATH @ [slash])"

definition joinPath :: "jstring \<Rightarrow> jstring \<Rightarrow> jstring" where
  [js_eval]: "joinPath base name = (if base \<noteq> [] then base @ [slash] @ name else name)"

definition parentPath :: "jstring \<Rightarrow> jstring option" where
  [js_eval]: "parentPath path =
     (if path = [] then None
      else (case last_index_of slash path of None \<Rightarrow> Some [] | Some idx \<Rightarrow> Some (take idx path)))"

definition pathBasename :: "jstring \<Rightarrow> jstring" where
  [js_eval]: "pathBasename path =
     (if path = [] then []
      else (case last_index_of slash path of None \<Rightarrow> path | Some idx \<Rightarrow> drop (Suc idx) path))"

text \<open>
  The nonce of a trashed name: the pattern \<open>^\d+-(\d+-)?(.+)$\<close>. A digit run is followed by the
  dash it must be followed by, so the match is unique up to the optional second group, which the
  pattern takes whenever something is left after it. \<open>.\<close> matches no line end.
\<close>

definition line_end :: "jchar \<Rightarrow> bool" where
  [js_eval]: "line_end c \<longleftrightarrow> c \<in> {10, 13, 0x2028, 0x2029}"

definition digits_dash :: "jstring \<Rightarrow> jstring option" where
  [js_eval]: "digits_dash s =
     (if takeWhile js_digit s \<noteq> [] then
        (case dropWhile js_digit s of c # r \<Rightarrow> if c = dash then Some r else None | [] \<Rightarrow> None)
      else None)"

definition dot_plus :: "jstring \<Rightarrow> bool" where
  [js_eval]: "dot_plus s \<longleftrightarrow> s \<noteq> [] \<and> list_all (\<lambda>c. \<not> line_end c) s"

definition strip_nonce :: "jstring \<Rightarrow> jstring option" where
  [js_eval]: "strip_nonce s =
     (case digits_dash s of
        None \<Rightarrow> None
      | Some r \<Rightarrow>
          (case digits_dash r of
             Some r' \<Rightarrow> if dot_plus r' then Some r' else if dot_plus r then Some r else None
           | None \<Rightarrow> if dot_plus r then Some r else None))"

definition trashDisplayName :: "jstring \<Rightarrow> jstring" where
  [js_eval]: "trashDisplayName path =
     (let base = pathBasename path in case strip_nonce base of Some name \<Rightarrow> name | None \<Rightarrow> base)"

section \<open>Addresses\<close>

definition folderHref :: "jstring \<Rightarrow> jstring \<Rightarrow> jstring option" where
  [js_eval]: "folderHref driveId folderPath =
     (if folderPath = [] then Some (lit ''/files/'' @ driveId)
      else map_option (\<lambda>e. lit ''/files/'' @ driveId @ lit ''?path='' @ e) (encodeURIComponent folderPath))"

definition with_param :: "jstring \<Rightarrow> jstring \<Rightarrow> jstring \<Rightarrow> jstring" where
  [js_eval]: "with_param base key e = base @ (if 63 \<in> set base then [38] else [63]) @ key @ e"

definition fileHref :: "jstring \<Rightarrow> jstring \<Rightarrow> jstring option" where
  [js_eval]: "fileHref driveId filePath =
     (let folder = (case parentPath filePath of None \<Rightarrow> [] | Some p \<Rightarrow> p);
          name = pathBasename filePath
      in case folderHref driveId folder of
           None \<Rightarrow> None
         | Some base \<Rightarrow>
             if name = [] then Some base
             else map_option (with_param base (lit ''file='')) (encodeURIComponent name))"

record search_item =
  si_drive :: jstring
  si_path :: jstring
  si_dir :: bool
  si_parent :: "jstring option"

definition searchResultHref :: "search_item \<Rightarrow> jstring option" where
  [js_eval]: "searchResultHref item =
     (if si_dir item then folderHref (si_drive item) (si_path item)
      else
        (let folder = (case si_parent item of
                         Some p \<Rightarrow> p
                       | None \<Rightarrow> (case parentPath (si_path item) of None \<Rightarrow> [] | Some p \<Rightarrow> p))
         in case folderHref (si_drive item) folder of
              None \<Rightarrow> None
            | Some base \<Rightarrow>
                if si_path item = [] then Some base
                else map_option (with_param base (lit ''select='')) (encodeURIComponent (si_path item))))"

definition contentHref :: "jstring \<Rightarrow> jstring \<Rightarrow> jstring option" where
  [js_eval]: "contentHref driveId filePath =
     map_option (\<lambda>e. lit ''/api/v1/drives/'' @ driveId @ lit ''/files/content?path='' @ e)
       (encodeURIComponent filePath)"

definition downloadHref :: "jstring \<Rightarrow> jstring \<Rightarrow> jstring option" where
  [js_eval]: "downloadHref driveId filePath =
     map_option (\<lambda>e. lit ''/api/v1/drives/'' @ driveId @ lit ''/files/content?path='' @ e @ lit ''&download=1'')
       (encodeURIComponent filePath)"

section \<open>Sizes\<close>

definition fmtSize :: "nat \<Rightarrow> jstring" where
  [js_eval]: "fmtSize n =
     (if n < 1000 then num_str n @ lit '' B''
      else if n < 1000 * 1000 then to_fixed1 (js_div (of_nat n) 1000) @ lit '' KB''
      else if n < 1000 * 1000 * 1000 then to_fixed1 (js_div (js_div (of_nat n) 1000) 1000) @ lit '' MB''
      else to_fixed1 (js_div (js_div (js_div (of_nat n) 1000) 1000) 1000) @ lit '' GB'')"

section \<open>Lemmas\<close>

lemma parentPath_joinPath:
  "slash \<notin> set name \<Longrightarrow> name \<noteq> [] \<Longrightarrow> parentPath (joinPath base name) = Some base"
  by (auto simp: joinPath_def parentPath_def last_index_of_append_notin)

lemma pathBasename_joinPath:
  "slash \<notin> set name \<Longrightarrow> pathBasename (joinPath base name) = name"
  by (auto simp: joinPath_def pathBasename_def last_index_of_append_notin)

lemma pathBasename_no_slash: "slash \<notin> set (pathBasename path)"
  by (auto simp: pathBasename_def last_index_of_Some last_index_of_None_iff split: option.splits)

lemma parentPath_shorter: "parentPath path = Some p \<Longrightarrow> length p < length path"
  by (auto simp: parentPath_def last_index_of_Some split: if_splits option.splits)

lemma joinPath_parent_base:
  assumes "parentPath path = Some p" and "p \<noteq> [] \<or> slash \<notin> set path"
  shows "joinPath p (pathBasename path) = path"
proof (cases "last_index_of slash path")
  case None
  with assms show ?thesis
    by (auto simp: parentPath_def pathBasename_def joinPath_def split: if_splits)
next
  case (Some i)
  then have "i < length path" and "path ! i = slash" by (auto simp: last_index_of_Some)
  then have "take i path @ [slash] @ drop (Suc i) path = path" by (metis append_Cons append_Nil id_take_nth_drop)
  moreover from Some assms(1) have "p = take i path"
    by (auto simp: parentPath_def split: if_splits)
  moreover from Some assms(2) \<open>path ! i = slash\<close> \<open>i < length path\<close> have "p \<noteq> []"
    by (auto dest: nth_mem)
  ultimately show ?thesis using Some by (auto simp: joinPath_def pathBasename_def)
qed

text \<open>The encoder's output holds no code unit that has a meaning in an address.\<close>

definition uri_safe :: "jchar \<Rightarrow> bool" where
  "uri_safe c \<longleftrightarrow> uri_unreserved (unat c) \<or> c = 37"

lemma utf8_byte: "p < 0x110000 \<Longrightarrow> b \<in> set (utf8 p) \<Longrightarrow> b < 256"
  by (auto simp: utf8_def split: if_splits)

lemma hex_digit_safe: "n < 16 \<Longrightarrow> uri_safe (hex_digit n)"
  by (auto simp: uri_safe_def hex_digit_def uri_unreserved_def unat_of_nat)

lemma percent_safe: "b < 256 \<Longrightarrow> c \<in> set (percent b) \<Longrightarrow> uri_safe c"
  by (auto simp: percent_def uri_safe_def [of 37] intro: hex_digit_safe)

lemma encode_point_safe:
  assumes "p < 0x110000" and "c \<in> set (encode_point p)"
  shows "uri_safe c"
proof (cases "uri_unreserved p")
  case True
  then have "p < 65536" by (auto simp: uri_unreserved_def)
  with True assms(2) show ?thesis
    by (simp add: encode_point_def uri_safe_def unat_of_nat)
next
  case False
  with assms show ?thesis
    by (auto simp: encode_point_def intro: percent_safe dest: utf8_byte)
qed

lemma code_points_bound: "code_points s = Some ps \<Longrightarrow> p \<in> set ps \<Longrightarrow> p < 0x110000"
proof (induction s arbitrary: ps rule: code_points.induct)
  case 1
  then show ?case by simp
next
  case (2 c cs)
  show ?case
  proof (cases "0xD800 \<le> unat c \<and> unat c \<le> 0xDBFF")
    case True
    with "2.prems" "2.IH"(1) [OF refl True] show ?thesis
      by (fastforce simp: Let_def split: if_splits list.splits)
  next
    case False
    have "unat c < 0x110000" using unat_bound16 [of c] by simp
    with False "2.prems" "2.IH"(2) [OF refl False] show ?thesis
      by (auto simp: Let_def split: if_splits)
  qed
qed

lemma encodeURIComponent_safe:
  "encodeURIComponent s = Some e \<Longrightarrow> c \<in> set e \<Longrightarrow> uri_safe c"
  by (auto simp: encodeURIComponent_def) (blast intro: encode_point_safe [OF code_points_bound])

end
