(* ===== verification/OpTypes.thy ===== *)
theory OpTypes
  imports Paths
begin

text \<open>
  The data of the file operation card (\<open>luna/web/src/lib/fileOps/store.js\<close>): the operation
  kinds, the states of items and operations, the decisions a person is asked for, and the records
  \<open>Item\<close> and \<open>Op\<close> with the fields of the source's type definitions.

  An operation record is generic in what its item list holds: the live objects of the store hold
  references to items (the runners share and mutate them), the published snapshots hold the items
  themselves.
\<close>

datatype op_kind =
  Upload | Gallery | Copy | Move | Trash | RestoreTrash | Purge | EmptyTrash | RestoreBackup | Zip

datatype item_state =
  Queued | Uploading | Finishing | Submitting | Running | Done | Skipped | NeedsDecision | Failed | Cancelled

datatype op_state =
  OpPreparing | OpRunning | OpWaiting | OpDone | OpPartial | OpFailed | OpCancelled

datatype choice = Replace | KeepBoth | Skip | Confirm

datatype entry_kind = FileEntry | DirEntry

datatype decision =
  Exists (existingKind: entry_kind) (options: "choice list")
| Broadens (broadens_message: jstring) (options: "choice list")

text \<open>
  A file source, reduced to what the store and the runners read of it: the token of a share link
  (\<^const>\<open>None\<close> for the person's own drives), whether it is a single-file link, and which of
  its optional calls it offers. The calls themselves are events of the environment.
\<close>

record source =
  src_share :: "jstring option"
  src_isFile :: bool
  src_stat :: bool
  src_completeUpload :: bool
  src_cancelUpload :: bool

text \<open>
  References to the browser objects an item carries: its \<open>File\<close>, its abort controller and
  the function a request item runs.
\<close>

type_synonym objref = nat
type_synonym time = nat

record item =
  it_id :: jstring
  it_name :: jstring
  it_relPath :: jstring
  it_destPath :: jstring
  it_size :: nat
  it_received :: nat
  it_state :: item_state
  it_error :: "jstring option"
  it_retryable :: bool
  it_decision :: "decision option"
  it_isDir :: bool
  it_foldersMade :: nat
  it_offline :: bool
  it_retrying :: bool
  it_waitingForQueue :: bool
  it_conflict :: "choice option"
  it_finalName :: "jstring option"
  it_file :: "objref option"
  it_uploadId :: "jstring option"
  it_jobId :: "jstring option"
  it_abort :: "objref option"
  it_completeOnly :: bool
  it_run :: "objref option"
  it_extra_keepBoth :: bool
  it_extra_confirm :: bool
  it_confirmBroaden :: bool

record 'i op =
  op_id :: jstring
  op_kind :: op_kind
  op_createdAt :: time
  op_endedAt :: "time option"
  op_source :: source
  op_driveId :: jstring
  op_destDriveId :: jstring
  op_destFolder :: jstring
  op_destLabel :: jstring
  op_title :: jstring
  op_state :: op_state
  op_walking :: bool
  op_bytesDone :: nat
  op_bytesTotal :: nat
  op_itemsDone :: nat
  op_itemsTotal :: "nat option"
  op_foldersDone :: nat
  op_policy :: "choice option"
  op_items :: "'i list"
  op_error :: "jstring option"
  op_successToast :: "jstring option"
  op_shown :: bool
  op_indeterminate :: bool
  op_rootFolder :: bool
  op_cancelled :: bool

definition UPLOAD_PARALLEL :: nat where [js_eval]: "UPLOAD_PARALLEL = 3"
definition JOB_PARALLEL :: nat where [js_eval]: "JOB_PARALLEL = 4"
definition SHOW_AFTER_MS :: nat where [js_eval]: "SHOW_AFTER_MS = 600"
definition AUTO_CLEAR_MS :: nat where [js_eval]: "AUTO_CLEAR_MS = 4000"
definition EMIT_MS :: nat where [js_eval]: "EMIT_MS = 100"
definition HAPTIC_GAP_MS :: nat where [js_eval]: "HAPTIC_GAP_MS = 2000"
definition INVALIDATE_GAP_MS :: nat where [js_eval]: "INVALIDATE_GAP_MS = 1000"

definition IMMEDIATE_KINDS :: "op_kind list" where
  [js_eval]: "IMMEDIATE_KINDS = [Upload, Gallery, Copy, Move, Zip]"

definition ACTIVE :: "item_state list" where
  [js_eval]: "ACTIVE = [Queued, Uploading, Finishing, Submitting, Running]"

definition isActiveItem :: "item \<Rightarrow> bool" where
  [js_eval]: "isActiveItem it \<longleftrightarrow> it_state it \<in> set ACTIVE"

text \<open>
  \<open>makeItem\<close> and \<open>makeOp\<close> with their defaults; a caller's own fields are record updates
  of the result, as the spread of \<open>fields\<close> over the defaults is. Only the name of an item and
  the kind of an operation have no default.
\<close>

definition makeItem :: "jstring \<Rightarrow> jstring \<Rightarrow> item" where
  [js_eval]: "makeItem ident name =
     \<lparr>it_id = ident, it_name = name, it_relPath = name, it_destPath = [], it_size = 0, it_received = 0,
      it_state = Queued, it_error = None, it_retryable = False, it_decision = None, it_isDir = False,
      it_foldersMade = 0, it_offline = False, it_retrying = False, it_waitingForQueue = False,
      it_conflict = None, it_finalName = None, it_file = None, it_uploadId = None, it_jobId = None,
      it_abort = None, it_completeOnly = False, it_run = None, it_extra_keepBoth = False,
      it_extra_confirm = False, it_confirmBroaden = False\<rparr>"

definition makeOp :: "jstring \<Rightarrow> time \<Rightarrow> source \<Rightarrow> op_kind \<Rightarrow> jstring \<Rightarrow> 'i op" where
  [js_eval]: "makeOp ident now src kind driveId =
     \<lparr>op_id = ident, op_kind = kind, op_createdAt = now, op_endedAt = None, op_source = src,
      op_driveId = driveId, op_destDriveId = driveId, op_destFolder = [], op_destLabel = [], op_title = [],
      op_state = OpPreparing, op_walking = False, op_bytesDone = 0, op_bytesTotal = 0, op_itemsDone = 0,
      op_itemsTotal = Some 0, op_foldersDone = 0, op_policy = None, op_items = [], op_error = None,
      op_successToast = None, op_shown = False, op_indeterminate = False, op_rootFolder = False,
      op_cancelled = False\<rparr>"

section \<open>Totals of an operation\<close>

text \<open>
  \<open>recompute\<close> walks the items once with five accumulators. A folder only counts the folders
  it made; a skipped or cancelled item counts nowhere.
\<close>

record totals =
  t_bytesTotal :: nat
  t_bytesDone :: nat
  t_total :: nat
  t_done :: nat
  t_folders :: nat

definition zero_totals :: totals where
  [js_eval]: "zero_totals = \<lparr>t_bytesTotal = 0, t_bytesDone = 0, t_total = 0, t_done = 0, t_folders = 0\<rparr>"

definition count_item :: "totals \<Rightarrow> item \<Rightarrow> totals" where
  [js_eval]: "count_item t it =
     (if it_isDir it then t\<lparr>t_folders := t_folders t + it_foldersMade it\<rparr>
      else if it_state it = Skipped \<or> it_state it = Cancelled then t
      else if it_state it = Done then
        t\<lparr>t_total := t_total t + 1, t_bytesTotal := t_bytesTotal t + it_size it,
          t_done := t_done t + 1, t_bytesDone := t_bytesDone t + it_size it\<rparr>
      else
        t\<lparr>t_total := t_total t + 1, t_bytesTotal := t_bytesTotal t + it_size it,
          t_bytesDone := t_bytesDone t + min (it_received it) (it_size it)\<rparr>)"

definition recompute :: "item list \<Rightarrow> 'i op \<Rightarrow> 'i op" where
  [js_eval]: "recompute its o0 =
     (let t = foldl count_item zero_totals its
      in o0\<lparr>op_bytesTotal := t_bytesTotal t, op_bytesDone := t_bytesDone t, op_itemsDone := t_done t,
            op_itemsTotal := (if op_indeterminate o0 then None else Some (t_total t)),
            op_foldersDone := t_folders t\<rparr>)"

text \<open>The accumulators in closed form: sums and counts over the items that take part.\<close>

definition counted :: "item \<Rightarrow> bool" where
  [js_eval]: "counted it \<longleftrightarrow> \<not> it_isDir it \<and> it_state it \<noteq> Skipped \<and> it_state it \<noteq> Cancelled"

definition item_done_bytes :: "item \<Rightarrow> nat" where
  [js_eval]: "item_done_bytes it = (if it_state it = Done then it_size it else min (it_received it) (it_size it))"

lemma foldl_count_item:
  "foldl count_item t its =
     \<lparr>t_bytesTotal = t_bytesTotal t + (\<Sum>it \<leftarrow> filter counted its. it_size it),
      t_bytesDone = t_bytesDone t + (\<Sum>it \<leftarrow> filter counted its. item_done_bytes it),
      t_total = t_total t + length (filter counted its),
      t_done = t_done t + length (filter (\<lambda>it. counted it \<and> it_state it = Done) its),
      t_folders = t_folders t + (\<Sum>it \<leftarrow> filter it_isDir its. it_foldersMade it)\<rparr>"
  by (induction its arbitrary: t)
    (auto simp: count_item_def counted_def item_done_bytes_def)

lemma recompute_fields:
  "op_bytesTotal (recompute its o0) = (\<Sum>it \<leftarrow> filter counted its. it_size it)"
  "op_bytesDone (recompute its o0) = (\<Sum>it \<leftarrow> filter counted its. item_done_bytes it)"
  "op_itemsDone (recompute its o0) = length (filter (\<lambda>it. counted it \<and> it_state it = Done) its)"
  "op_itemsTotal (recompute its o0) = (if op_indeterminate o0 then None else Some (length (filter counted its)))"
  "op_foldersDone (recompute its o0) = (\<Sum>it \<leftarrow> filter it_isDir its. it_foldersMade it)"
  by (simp_all add: recompute_def foldl_count_item zero_totals_def)

lemma recompute_frame [simp]:
  "op_items (recompute its o0) = op_items o0"
  "op_state (recompute its o0) = op_state o0"
  "op_endedAt (recompute its o0) = op_endedAt o0"
  "op_kind (recompute its o0) = op_kind o0"
  "op_id (recompute its o0) = op_id o0"
  "op_walking (recompute its o0) = op_walking o0"
  "op_error (recompute its o0) = op_error o0"
  "op_shown (recompute its o0) = op_shown o0"
  "op_cancelled (recompute its o0) = op_cancelled o0"
  "op_policy (recompute its o0) = op_policy o0"
  "op_indeterminate (recompute its o0) = op_indeterminate o0"
  "op_source (recompute its o0) = op_source o0"
  "op_destFolder (recompute its o0) = op_destFolder o0"
  "op_driveId (recompute its o0) = op_driveId o0"
  by (simp_all add: recompute_def Let_def)

lemma recompute_idem: "recompute its (recompute its o0) = recompute its o0"
  by (simp add: recompute_def Let_def)

text \<open>The progress numbers of a card never run past their totals.\<close>

lemma recompute_bounded:
  "op_bytesDone (recompute its o0) \<le> op_bytesTotal (recompute its o0)
   \<and> op_itemsDone (recompute its o0) \<le> length (filter counted its)
   \<and> op_itemsTotal (recompute its o0) = (if op_indeterminate o0 then None else Some (length (filter counted its)))"
proof -
  have "(\<Sum>it \<leftarrow> filter counted its. item_done_bytes it) \<le> (\<Sum>it \<leftarrow> filter counted its. it_size it)"
    by (rule sum_list_le_pointwise) (simp add: item_done_bytes_def)
  moreover have "length (filter (\<lambda>it. counted it \<and> it_state it = Done) its) \<le> length (filter counted its)"
    by (induction its) auto
  ultimately show ?thesis by (simp add: recompute_fields)
qed

end
