(* ===== verification/OpErrors.thy ===== *)
theory OpErrors
  imports OpTypes
begin

text \<open>
  \<open>luna/web/src/lib/fileOps/errors.js\<close> and the error wording of \<open>luna/web/src/lib/api.js\<close>:
  what a thrown value becomes on the card.

  A thrown value is a record of the properties the code reads; \<^const>\<open>None\<close> is a falsy one
  (a rejection with no reason). A thrown string is a value whose message is that string.
\<close>

record thrown =
  e_api :: bool
  e_abort :: bool
  e_status :: "nat option"
  e_code :: "jstring option"
  e_message :: jstring
  e_existing_kind :: "jstring option"
  e_completeOnly :: bool
  e_uploadId :: "jstring option"

type_synonym failure = "thrown option"

section \<open>Wording of a failed request (api.js)\<close>

definition contains :: "jstring \<Rightarrow> jstring \<Rightarrow> bool" where
  [js_eval]: "contains s p \<longleftrightarrow> list_ex (\<lambda>t. starts_with t p) (map (\<lambda>n. drop n s) [0 ..< Suc (length s)])"

definition isNetworkFailureMessage :: "jstring \<Rightarrow> bool" where
  [js_eval]: "isNetworkFailureMessage raw \<longleftrightarrow>
     list_ex (\<lambda>w. contains (lower raw) (lit w))
       [''networkerror'', ''failed to fetch'', ''load failed'', ''network request failed'',
        ''fetch failed'', ''aborted'', ''econnrefused'', ''econnreset'']"

definition unreachable_text :: jstring where
  [js_eval]: "unreachable_text = lit ''Couldn't reach Luna. Check this device's connection and try again.''"

text \<open>\<open>replace(/^Error:\s*/i, "")\<close>.\<close>

definition strip_error_prefix :: "jstring \<Rightarrow> jstring" where
  [js_eval]: "strip_error_prefix s =
     (if starts_with (lower s) (lit ''error:'') then dropWhile js_ws (drop 6 s) else s)"

definition apiErrorMessage :: "failure \<Rightarrow> jstring \<Rightarrow> jstring" where
  [js_eval]: "apiErrorMessage err fallback =
     (case err of
        None \<Rightarrow> fallback
      | Some e \<Rightarrow>
          if e_api e \<and> e_message e \<noteq> [] then
            (if e_status e = Some 0 \<or> isNetworkFailureMessage (e_message e) then unreachable_text
             else e_message e)
          else
            (let raw = strip_error_prefix (e_message e)
             in if isNetworkFailureMessage raw then unreachable_text
                else if raw \<noteq> [] then raw else fallback))"

section \<open>Fallback wording (copy.js)\<close>

fun failedText :: "op_kind \<Rightarrow> jstring" where
  "failedText Upload = lit ''Luna couldn't upload this file. Try again.''"
| "failedText Gallery = lit ''Luna couldn't upload this file. Try again.''"
| "failedText Copy = lit ''Luna couldn't copy this. Try again.''"
| "failedText Move = lit ''Luna couldn't move this. Try again.''"
| "failedText EmptyTrash = lit ''Luna couldn't empty the trash. Try again.''"
| "failedText Purge = lit ''Luna couldn't delete this permanently. Try again.''"
| "failedText RestoreBackup = lit ''Luna couldn't restore this from the backup. Try again.''"
| "failedText Trash = lit ''Luna couldn't move this to Trash. Try again.''"
| "failedText RestoreTrash = lit ''Luna couldn't put this back. Try again.''"
| "failedText Zip = lit ''Luna couldn't get this folder ready. Try again.''"

section \<open>Classification (errors.js)\<close>

record classified =
  c_message :: jstring
  c_retryable :: bool
  c_offline :: bool
  c_aborted :: bool
  c_queueFull :: bool
  c_decision :: "decision option"

definition RETRYABLE_STATUS :: "nat list" where
  [js_eval]: "RETRYABLE_STATUS = [0, 401, 408, 429, 502, 503, 504]"

definition isAbort :: "failure \<Rightarrow> bool" where
  [js_eval]: "isAbort err \<longleftrightarrow> (case err of None \<Rightarrow> False | Some e \<Rightarrow> e_abort e)"

definition existsDecision :: "entry_kind \<Rightarrow> bool \<Rightarrow> decision" where
  [js_eval]: "existsDecision kind sameFolder =
     (let canReplace = (kind = FileEntry \<and> \<not> sameFolder)
      in Exists kind (if canReplace then [Replace, KeepBoth, Skip] else [KeepBoth, Skip]))"

definition classifyError :: "failure \<Rightarrow> op_kind \<Rightarrow> entry_kind option \<Rightarrow> bool \<Rightarrow> classified" where
  [js_eval]: "classifyError err kind ctxKind sameFolder =
     (if isAbort err then
        \<lparr>c_message = [], c_retryable = False, c_offline = False, c_aborted = True,
         c_queueFull = False, c_decision = None\<rparr>
      else
        (let status = Option.bind err e_status;
             code = (case Option.bind err e_code of Some c \<Rightarrow> if c = [] then None else Some c | None \<Rightarrow> None);
             message = apiErrorMessage err (failedText kind);
             plain = \<lparr>c_message = message, c_retryable = False, c_offline = False, c_aborted = False,
                      c_queueFull = False, c_decision = None\<rparr>
         in if status = Some 503 \<and> code = Some (lit ''queue_full'') then
              plain\<lparr>c_retryable := True, c_queueFull := True\<rparr>
            else if status = Some 409 \<and> code = Some (lit ''broadens_access'') then
              plain\<lparr>c_decision := Some (Broadens message [Confirm, Skip])\<rparr>
            else if status = Some 409 \<and> code = Some (lit ''exists'') then
              (let existing = Option.bind err e_existing_kind;
                   existingKind =
                     (if existing = Some (lit ''dir'') then DirEntry
                      else if existing = Some (lit ''file'') then FileEntry
                      else (case ctxKind of Some k \<Rightarrow> k | None \<Rightarrow> FileEntry))
               in plain\<lparr>c_decision := Some (existsDecision existingKind sameFolder)\<rparr>)
            else
              (let offline = (status = Some 0)
               in plain\<lparr>c_message := (if offline then unreachable_text else message),
                        c_retryable := (case status of None \<Rightarrow> False | Some st \<Rightarrow> st \<in> set RETRYABLE_STATUS),
                        c_offline := offline\<rparr>)))"

section \<open>Lemmas\<close>

lemma existsDecision_dir: "options (existsDecision DirEntry sameFolder) = [KeepBoth, Skip]"
  by (simp add: existsDecision_def)

lemma existsDecision_options:
  "Skip \<in> set (options (existsDecision k sf))"
  "KeepBoth \<in> set (options (existsDecision k sf))"
  "Confirm \<notin> set (options (existsDecision k sf))"
  "Replace \<in> set (options (existsDecision k sf)) \<longleftrightarrow> k = FileEntry \<and> \<not> sf"
  by (auto simp: existsDecision_def Let_def)

lemma existsDecision_kind [simp]: "existingKind (existsDecision k sf) = k"
  by (simp add: existsDecision_def Let_def)

text \<open>
  The outcomes are exclusive: an abort says nothing, a full queue is retried, a decision is neither
  retried nor shown as an error, and only a status of 0 reads as offline.
\<close>

lemma classify_abort:
  "isAbort err \<Longrightarrow> classifyError err kind ck sf =
     \<lparr>c_message = [], c_retryable = False, c_offline = False, c_aborted = True, c_queueFull = False, c_decision = None\<rparr>"
  by (simp add: classifyError_def)

lemma classify_aborted_iff: "c_aborted (classifyError err kind ck sf) \<longleftrightarrow> isAbort err"
  by (simp add: classifyError_def Let_def)

lemma classify_decision_not_retryable:
  "c_decision (classifyError err kind ck sf) \<noteq> None \<Longrightarrow>
     \<not> c_retryable (classifyError err kind ck sf) \<and> \<not> c_offline (classifyError err kind ck sf)
     \<and> \<not> c_queueFull (classifyError err kind ck sf) \<and> \<not> c_aborted (classifyError err kind ck sf)"
  by (auto simp: classifyError_def Let_def split: if_splits)

lemma classify_queueFull:
  "c_queueFull (classifyError err kind ck sf) \<Longrightarrow>
     c_retryable (classifyError err kind ck sf) \<and> c_decision (classifyError err kind ck sf) = None
     \<and> \<not> c_offline (classifyError err kind ck sf)"
  by (auto simp: classifyError_def Let_def split: if_splits)

lemma classify_offline_retryable:
  "c_offline (classifyError err kind ck sf) \<Longrightarrow>
     c_retryable (classifyError err kind ck sf) \<and> c_message (classifyError err kind ck sf) = unreachable_text"
  by (auto simp: classifyError_def Let_def RETRYABLE_STATUS_def split: if_splits)

lemma classify_exists_options:
  assumes "c_decision (classifyError err kind ck sf) = Some (Exists k opts)"
  shows "opts = (if k = FileEntry \<and> \<not> sf then [Replace, KeepBoth, Skip] else [KeepBoth, Skip])"
  using assms by (auto simp: classifyError_def existsDecision_def Let_def split: if_splits)

lemma classify_exists_existsDecision:
  assumes "c_decision (classifyError err kind ck sf) = Some (Exists k opts)"
  shows "Exists k opts = existsDecision k sf"
  using classify_exists_options [OF assms] by (simp add: existsDecision_def)

end
