(* ===== verification/OpCopy.thy ===== *)
theory OpCopy
  imports OpErrors
begin

text \<open>
  \<open>luna/web/src/lib/fileOps/copy.js\<close>: every line of text the card shows, computed from an
  operation's published snapshot. A line that names a file, folder or drive is a list of segments,
  plain text or a pill; \<open>plain\<close> is the text a screen reader and a toast get.
\<close>

type_synonym op_view = "item op"

datatype part = Text jstring | Pill jstring

fun part_text :: "part \<Rightarrow> jstring" where
  "part_text (Text t) = t"
| "part_text (Pill t) = t"

definition plain :: "part list \<Rightarrow> jstring" where
  [js_eval]: "plain parts = concat (map part_text parts)"

definition plural :: "nat \<Rightarrow> jstring \<Rightarrow> jstring \<Rightarrow> jstring" where
  [js_eval]: "plural count one many = (if count = 1 then one else many)"

abbreviation ellipsis :: jstring where "ellipsis \<equiv> [0x2026]"
abbreviation middot :: jstring where "middot \<equiv> [32, 0xB7, 32]"

section \<open>Batch lines\<close>

definition NAMES_SHOWN :: nat where [js_eval]: "NAMES_SHOWN = 3"

text \<open>The names with \<open>", "\<close> between them and \<open>" and "\<close> before the last.\<close>

fun name_list :: "jstring list \<Rightarrow> part list" where
  "name_list [] = []"
| "name_list [x] = [Pill x]"
| "name_list [x, y] = [Pill x, Text (lit '' and ''), Pill y]"
| "name_list (x # y # z # zs) = Pill x # Text (lit '', '') # name_list (y # z # zs)"

definition batchLine :: "jstring \<Rightarrow> jstring \<Rightarrow> item list \<Rightarrow> part list" where
  [js_eval]: "batchLine before after items =
     (let names = filter (\<lambda>n. n \<noteq> []) (map it_name items); total = length items
      in if total = 0 then [Text (before @ lit ''these items'' @ after)]
         else if length names = total \<and> total \<le> NAMES_SHOWN
         then Text before # name_list names @ [Text after]
         else [Text (before @ num_str total @ lit '' '' @ plural total (lit ''item'') (lit ''items'') @ after)])"

definition waitingForQueue_text :: jstring where
  [js_eval]: "waitingForQueue_text = lit ''Waiting for Luna to finish other copies'' @ ellipsis"

definition starting_text :: jstring where
  [js_eval]: "starting_text = lit ''Starting'' @ ellipsis"

definition unreadable_text :: jstring where
  [js_eval]: "unreadable_text = lit ''Your browser couldn't read this file from your device.''"

definition singleFileLink_text :: jstring where
  [js_eval]: "singleFileLink_text = lit ''Choose one file to replace this file.''"

definition folderBlocked :: "jstring \<Rightarrow> jstring \<Rightarrow> jstring" where
  [js_eval]: "folderBlocked folder blocking =
     (if folder = blocking then lit ''couldn't be made: a file with that name is already there.''
      else lit ''couldn't be made: a file named '' @ blocking @ lit '' is already there.'')"

definition jobGone :: "op_kind \<Rightarrow> jstring" where
  [js_eval]: "jobGone kind =
     (if kind = Move
      then lit ''Luna has no record of this move any more. Check the destination folder to see if it finished.''
      else lit ''Luna has no record of this copy any more. Check the destination folder to see if it finished.'')"

section \<open>Dock header and summary\<close>

definition dockHeaderTitle :: "nat \<Rightarrow> nat \<Rightarrow> nat \<Rightarrow> nat \<Rightarrow> jstring" where
  [js_eval]: "dockHeaderTitle running problems finished cancelled =
     (if running > 0 then lit ''Working on your files''
      else if problems > 0 then lit ''Some files need you''
      else if finished > 0 then
        (if cancelled > 0 \<and> cancelled = finished then lit ''Stopped'' else lit ''Finished'')
      else lit ''Working on your files'')"

record summary_input =
  s_running :: nat
  s_problems :: nat
  s_finished :: nat
  s_finishedLabel :: jstring
  s_pct :: "rat option"
  s_singleUpload :: "nat option"

record summary_parts =
  sp_key :: jstring
  sp_lead :: jstring
  sp_count :: "nat option"
  sp_unit :: jstring
  sp_pct :: "rat option"
  sp_need :: nat

definition dockSummaryParts :: "summary_input \<Rightarrow> summary_parts" where
  [js_eval]: "dockSummaryParts s =
     (let need = s_problems s;
          mk = (\<lambda>key lead count un pct. \<lparr>sp_key = key, sp_lead = lead, sp_count = count, sp_unit = un,
                                          sp_pct = pct, sp_need = need\<rparr>)
      in if s_running s = 0 then
           (if s_problems s > 0 then
              mk (lit ''need'') [] (Some (s_problems s))
                 (lit '' '' @ plural (s_problems s) (lit ''needs'') (lit ''need'') @ lit '' you'') None
            else if s_finishedLabel s \<noteq> [] then
              mk (lit ''done:'' @ s_finishedLabel s) (s_finishedLabel s) None [] None
            else if s_finished s > 0 then mk (lit ''finished'') [] (Some (s_finished s)) (lit '' finished'') None
            else mk (lit ''idle'') [] None [] None)
         else
           (case s_singleUpload s of
              Some files \<Rightarrow>
                mk (lit ''uploading'') (lit ''Uploading '') (Some files)
                   (lit '' '' @ plural files (lit ''file'') (lit ''files'')) (s_pct s)
            | None \<Rightarrow> mk (lit ''running'') [] (Some (s_running s)) (lit '' running'') (s_pct s)))"

definition dockSummary :: "summary_input \<Rightarrow> jstring" where
  [js_eval]: "dockSummary s =
     (let pct = (case s_pct s of None \<Rightarrow> [] | Some p \<Rightarrow> middot @ num_str (nat (js_round p)) @ lit ''%'');
          need = (if s_problems s > 0 then middot @ num_str (s_problems s) @ lit '' need you'' else [])
      in if s_running s = 0 then
           (if s_problems s > 0 then
              num_str (s_problems s) @ lit '' '' @ plural (s_problems s) (lit ''needs'') (lit ''need'') @ lit '' you''
            else if s_finishedLabel s \<noteq> [] then s_finishedLabel s
            else if s_finished s > 0 then num_str (s_finished s) @ lit '' finished''
            else [])
         else
           (case s_singleUpload s of
              Some files \<Rightarrow>
                lit ''Uploading '' @ num_str files @ lit '' '' @ plural files (lit ''file'') (lit ''files'') @ pct @ need
            | None \<Rightarrow> num_str (s_running s) @ lit '' running'' @ pct @ need))"

section \<open>Status line of an operation\<close>

definition op_total :: "op_view \<Rightarrow> nat" where
  [js_eval]: "op_total v = (case op_itemsTotal v of Some t \<Rightarrow> t | None \<Rightarrow> length (op_items v))"

definition uploadStatus :: "op_view \<Rightarrow> part list" where
  [js_eval]: "uploadStatus v =
     (let st = op_state v; total = op_total v; done = op_itemsDone v; name = op_title v; folder = op_destLabel v;
          running = (st = OpPreparing \<or> st = OpRunning \<or> st = OpWaiting);
          partial = (st = OpPartial);
          folders = op_foldersDone v;
          foldersFailed = length (filter (\<lambda>i. it_isDir i \<and> it_state i = Failed) (op_items v))
      in if st = OpDone \<and> total = 0 \<and> folders > 0 then
           [Text (lit ''Made '' @ num_str folders @ lit '' '' @ plural folders (lit ''folder'') (lit ''folders'') @ lit '' in ''),
            Pill folder]
         else if partial \<and> foldersFailed > 0 \<and> done = total then
           [Text (lit ''Uploaded '' @ num_str done @ lit '' '' @ plural done (lit ''file'') (lit ''files'') @ lit '' in ''),
            Pill (if op_rootFolder v \<and> name \<noteq> [] then name else folder),
            Text (lit ''; '' @ num_str foldersFailed @ lit '' '' @ plural foldersFailed (lit ''folder'') (lit ''folders'')
                  @ lit '' couldn't be made'')]
         else if op_error v \<noteq> None \<and> op_error v \<noteq> Some [] \<and> total = 0 then
           [Text (lit ''Couldn't replace ''), Pill (if name \<noteq> [] then name else folder)]
         else if name \<noteq> [] \<and> (op_rootFolder v \<or> total \<le> 1) then
           (if running then [Text (lit ''Uploading ''), Pill name]
            else if st = OpDone then [Text (lit ''Uploaded ''), Pill name]
            else if partial then
              (if op_rootFolder v
               then [Text (lit ''Uploaded '' @ num_str done @ lit '' of '' @ num_str total @ lit '' files in ''), Pill name]
               else [Text (lit ''Uploaded ''), Pill name])
            else [Text (lit ''Couldn't upload ''), Pill name])
         else if running then [Text (lit ''Uploading '' @ num_str total @ lit '' files to ''), Pill folder]
         else if st = OpDone then [Text (lit ''Uploaded '' @ num_str total @ lit '' files to ''), Pill folder]
         else if partial then
           [Text (lit ''Uploaded '' @ num_str done @ lit '' of '' @ num_str total @ lit '' files to ''), Pill folder]
         else [Text (lit ''Couldn't upload '' @ num_str total @ lit '' files to ''), Pill folder])"

definition jobStatus :: "op_view \<Rightarrow> part list" where
  [js_eval]: "jobStatus v =
     (let st = op_state v; total = op_total v; done = op_itemsDone v; name = op_title v; folder = op_destLabel v;
          running = (st = OpPreparing \<or> st = OpRunning \<or> st = OpWaiting);
          verbing = (if op_kind v = Copy then lit ''Copying'' else lit ''Moving'');
          past = (if op_kind v = Copy then lit ''Copied'' else lit ''Moved'');
          base = (if op_kind v = Copy then lit ''copy'' else lit ''move'');
          subject = (if name \<noteq> [] \<and> total \<le> 1 then [Pill name] else [Text (num_str total @ lit '' items'')])
      in if running then Text (verbing @ lit '' '') # subject @ [Text (lit '' to ''), Pill folder]
         else if st = OpDone then Text (past @ lit '' '') # subject @ [Text (lit '' to ''), Pill folder]
         else if st = OpPartial then
           [Text (past @ lit '' '' @ num_str done @ lit '' of '' @ num_str total @ lit '' items to ''), Pill folder]
         else Text (lit ''Couldn't '' @ base @ lit '' '') # subject @ [Text (lit '' to ''), Pill folder])"

definition batchStatus :: "op_view \<Rightarrow> part list" where
  [js_eval]: "batchStatus v =
     (let st = op_state v; total = op_total v; done = op_itemsDone v; name = op_title v; folder = op_destLabel v;
          running = (st = OpPreparing \<or> st = OpRunning \<or> st = OpWaiting);
          items = op_items v
      in case op_kind v of
           Trash \<Rightarrow>
             (if running then batchLine (lit ''Moving '') (lit '' to Trash'') items
              else if st = OpDone then batchLine (lit ''Moved '') (lit '' to Trash'') items
              else if st = OpPartial then
                [Text (lit ''Moved '' @ num_str done @ lit '' of '' @ num_str total @ lit '' items to Trash'')]
              else [Text (lit ''Couldn't move '' @ num_str total @ lit '' items to Trash'')])
         | RestoreTrash \<Rightarrow>
             (if running then batchLine (lit ''Putting back '') [] items
              else if st = OpDone then batchLine (lit ''Put back '') [] items
              else if st = OpPartial then
                [Text (lit ''Put back '' @ num_str done @ lit '' of '' @ num_str total @ lit '' items'')]
              else [Text (lit ''Couldn't put back '' @ num_str total @ lit '' items'')])
         | Purge \<Rightarrow>
             (if running then
                (if total > 1 \<or> name = [] then batchLine (lit ''Deleting '') (lit '' permanently'') items
                 else [Text (lit ''Deleting ''), Pill name, Text (lit '' permanently'')])
              else if st = OpDone then
                (if total > 1 then batchLine (lit ''Deleted '') (lit '' permanently'') items
                 else [Text (lit ''Deleted permanently'')])
              else if st = OpPartial then
                [Text (lit ''Deleted '' @ num_str done @ lit '' of '' @ num_str total @ lit '' items permanently'')]
              else [Text (lit ''Couldn't delete permanently'')])
         | EmptyTrash \<Rightarrow>
             (if running then [Text (lit ''Emptying Trash on ''), Pill (if folder \<noteq> [] then folder else name)]
              else if st = OpDone then [Text (lit ''Trash emptied'')]
              else [Text (lit ''Couldn't empty the trash'')])
         | RestoreBackup \<Rightarrow>
             (if running then [Text (lit ''Restoring ''), Pill name, Text (lit '' from a backup'')]
              else if st = OpDone then [Text (lit ''Restored as ''), Pill name]
              else [Text (lit ''Couldn't restore ''), Pill name])
         | _ \<Rightarrow>
             (if running then [Text (lit ''Getting ''), Pill (name @ lit ''.zip''), Text (lit '' ready'')]
              else if st = OpDone then [Text (lit ''Download started'')]
              else [Text (lit ''Couldn't get ''), Pill (name @ lit ''.zip''), Text (lit '' ready'')]))"

definition opStatus :: "op_view \<Rightarrow> part list" where
  [js_eval]: "opStatus v =
     (if op_state v = OpCancelled then [Text (lit ''Cancelled'')]
      else (case op_kind v of
              Upload \<Rightarrow> uploadStatus v
            | Gallery \<Rightarrow> uploadStatus v
            | Copy \<Rightarrow> jobStatus v
            | Move \<Rightarrow> jobStatus v
            | _ \<Rightarrow> batchStatus v))"

section \<open>Meta line\<close>

text \<open>
  A size as the odometer draws it: the number, its decimals and the unit. The numbers of a meta
  line roll, its words stay put, so the line is a list of segments.
\<close>

datatype meta_part = MText jstring | MNumber nat jstring | MSize rat nat jstring

definition sizePart :: "nat \<Rightarrow> meta_part" where
  [js_eval]: "sizePart n =
     (if n < 1000 then MSize (of_nat n) 0 (lit '' B'')
      else if n < 1000 * 1000 then MSize (js_div (of_nat n) 1000) 1 (lit '' KB'')
      else if n < 1000 * 1000 * 1000 then MSize (js_div (js_div (of_nat n) 1000) 1000) 1 (lit '' MB'')
      else MSize (js_div (js_div (js_div (of_nat n) 1000) 1000) 1000) 1 (lit '' GB''))"

definition op_percent :: "op_view \<Rightarrow> nat" where
  [js_eval]: "op_percent v =
     nat (js_round (min 100 (js_mul (js_div (of_nat (op_bytesDone v)) (of_nat (op_bytesTotal v))) 100)))"

definition is_upload :: "op_kind \<Rightarrow> bool" where
  [js_eval]: "is_upload k \<longleftrightarrow> k = Upload \<or> k = Gallery"

definition is_job :: "op_kind \<Rightarrow> bool" where
  [js_eval]: "is_job k \<longleftrightarrow> k = Copy \<or> k = Move"

definition opMeta :: "op_view \<Rightarrow> jstring" where
  [js_eval]: "opMeta v =
     (if is_upload (op_kind v) then
        (let total = (case op_itemsTotal v of Some t \<Rightarrow> t | None \<Rightarrow> 0)
         in if op_walking v then lit ''Counting files'' @ ellipsis @ lit '' '' @ num_str total @ lit '' found''
            else if total = 0 \<and> op_bytesTotal v = 0 then
              (if op_foldersDone v > 0
               then num_str (op_foldersDone v) @ lit '' '' @ plural (op_foldersDone v) (lit ''folder'') (lit ''folders'') @ lit '' made''
               else [])
            else num_str (op_itemsDone v) @ lit '' of '' @ num_str total @ lit '' files'' @ middot
                 @ fmtSize (op_bytesDone v) @ lit '' of '' @ fmtSize (op_bytesTotal v))
      else if is_job (op_kind v) then
        (if list_ex it_waitingForQueue (op_items v) then waitingForQueue_text
         else if op_bytesTotal v = 0 then starting_text
         else num_str (op_percent v) @ lit ''%'' @ middot @ fmtSize (op_bytesDone v) @ lit '' of '' @ fmtSize (op_bytesTotal v))
      else
        (let batchTotal = op_total v
         in if batchTotal > 1 \<and> op_state v \<in> {OpRunning, OpPreparing, OpPartial}
            then num_str (op_itemsDone v) @ lit '' of '' @ num_str batchTotal @ lit '' done''
            else []))"

definition opMetaParts :: "op_view \<Rightarrow> meta_part list" where
  [js_eval]: "opMetaParts v =
     (if is_upload (op_kind v) then
        (let total = (case op_itemsTotal v of Some t \<Rightarrow> t | None \<Rightarrow> 0)
         in if op_walking v then [MText (lit ''Counting files'' @ ellipsis @ lit '' ''), MNumber total [], MText (lit '' found'')]
            else if total = 0 \<and> op_bytesTotal v = 0 then
              (if op_foldersDone v > 0
               then [MNumber (op_foldersDone v) [],
                     MText (lit '' '' @ plural (op_foldersDone v) (lit ''folder'') (lit ''folders'') @ lit '' made'')]
               else [])
            else [MNumber (op_itemsDone v) [], MText (lit '' of ''), MNumber total [], MText (lit '' files'' @ middot),
                  sizePart (op_bytesDone v), MText (lit '' of ''), sizePart (op_bytesTotal v)])
      else if is_job (op_kind v) then
        (if list_ex it_waitingForQueue (op_items v) then [MText waitingForQueue_text]
         else if op_bytesTotal v = 0 then [MText starting_text]
         else [MNumber (op_percent v) (lit ''%''), MText middot,
               sizePart (op_bytesDone v), MText (lit '' of ''), sizePart (op_bytesTotal v)])
      else
        (let batchTotal = op_total v
         in if batchTotal > 1 \<and> op_state v \<in> {OpRunning, OpPreparing, OpPartial}
            then [MNumber (op_itemsDone v) [], MText (lit '' of ''), MNumber batchTotal [], MText (lit '' done'')]
            else []))"

text \<open>
  What \<open>RollingNumbers\<close> of \<open>RollingText.jsx\<close> and \<open>RollingNumber\<close> of the shared
  components draw for a segment: the digits of \<open>toFixed\<close>, then the suffix or the unit.
\<close>

fun roll :: "meta_part \<Rightarrow> jstring" where
  "roll (MText t) = t"
| "roll (MNumber k suffix) = num_str k @ suffix"
| "roll (MSize x decimals un) = (if decimals = 0 then num_str (nat (js_round x)) else to_fixed1 x) @ un"

definition roll_line :: "meta_part list \<Rightarrow> jstring" where
  [js_eval]: "roll_line ps = concat (map roll ps)"

section \<open>Items and decisions\<close>

definition itemPercent :: "item \<Rightarrow> nat" where
  [js_eval]: "itemPercent it =
     (if it_size it = 0 then 0
      else nat (js_round (min 100 (js_mul (js_div (of_nat (it_received it)) (of_nat (it_size it))) 100))))"

definition splitName :: "jstring \<Rightarrow> jstring \<times> jstring" where
  [js_eval]: "splitName name =
     (case last_index_of dot name of
        None \<Rightarrow> (name, [])
      | Some i \<Rightarrow> if i = 0 then (name, []) else (take i name, drop i name))"

definition decisionText :: "op_view \<Rightarrow> item \<Rightarrow> part list" where
  [js_eval]: "decisionText v it =
     (case it_decision it of
        None \<Rightarrow> []
      | Some (Broadens m _) \<Rightarrow> [Text m]
      | Some (Exists k _) \<Rightarrow>
          [Text (lit ''A '' @ (if k = DirEntry then lit ''folder'' else lit ''file'') @ lit '' named ''),
           Pill (it_name it), Text (lit '' is already in ''), Pill (op_destLabel v), Text (lit ''.'')])"

record button =
  b_choice :: choice
  b_label :: jstring
  b_hint :: "jstring option"

definition choice_button :: "bool \<Rightarrow> entry_kind \<Rightarrow> jstring \<Rightarrow> choice \<Rightarrow> button" where
  [js_eval]: "choice_button isJob k name c =
     (case c of
        Replace \<Rightarrow>
          \<lparr>b_choice = c, b_label = lit ''Replace'',
           b_hint = Some (if isJob then lit ''The file that's there now goes to Trash.''
                          else lit ''The file that's there now is overwritten.'')\<rparr>
      | KeepBoth \<Rightarrow>
          \<lparr>b_choice = c, b_label = lit ''Keep both'',
           b_hint = Some (if k = DirEntry then
                            (if isJob then lit ''Luna doesn't merge folders.''
                             else lit ''Luna can't replace a folder with a file.'')
                          else lit ''The new one gets a number added, like '' @ fst (splitName name)
                               @ lit '' (1)'' @ snd (splitName name) @ lit ''.'')\<rparr>
      | _ \<Rightarrow> \<lparr>b_choice = c, b_label = lit ''Skip'', b_hint = None\<rparr>)"

definition decisionButtons :: "op_view \<Rightarrow> item \<Rightarrow> button list" where
  [js_eval]: "decisionButtons v it =
     (case it_decision it of
        None \<Rightarrow> []
      | Some (Broadens _ _) \<Rightarrow>
          [\<lparr>b_choice = Confirm,
            b_label = (if op_kind v = Copy then lit ''Copy anyway'' else lit ''Move anyway''), b_hint = None\<rparr>,
           \<lparr>b_choice = Skip, b_label = lit ''Skip'', b_hint = None\<rparr>]
      | Some (Exists k opts) \<Rightarrow> map (choice_button (is_job (op_kind v)) k (it_name it)) opts)"

definition moreProblems :: "nat \<Rightarrow> jstring" where
  [js_eval]: "moreProblems count = num_str count @ lit '' more '' @ plural count (lit ''problem'') (lit ''problems'')"

definition problemsTitle :: "op_kind \<Rightarrow> jstring" where
  [js_eval]: "problemsTitle kind =
     (if is_upload kind then lit ''Problems with this upload''
      else if kind = Copy then lit ''Problems with this copy''
      else if kind = Move then lit ''Problems with this move''
      else lit ''Problems with this task'')"

section \<open>What finished\<close>

definition folders_made :: "nat \<Rightarrow> jstring" where
  [js_eval]: "folders_made folders =
     num_str folders @ lit '' '' @ plural folders (lit ''folder'') (lit ''folders'')"

definition finishedText :: "op_view \<Rightarrow> jstring" where
  [js_eval]: "finishedText v =
     (let done = op_itemsDone v;
          total = (case op_itemsTotal v of Some t \<Rightarrow> t | None \<Rightarrow> 0);
          folders = op_foldersDone v; title = op_title v
      in case op_kind v of
           Upload \<Rightarrow>
             (if done = 0 \<and> folders > 0 then folders_made folders @ lit '' made''
              else num_str done @ lit '' '' @ plural done (lit ''file'') (lit ''files'') @ lit '' uploaded'')
         | Gallery \<Rightarrow>
             (if done = 0 \<and> folders > 0 then folders_made folders @ lit '' made''
              else num_str done @ lit '' '' @ plural done (lit ''photo'') (lit ''photos'') @ lit '' uploaded'')
         | Copy \<Rightarrow> if total = 1 \<and> title \<noteq> [] then lit ''Copied '' @ title else num_str done @ lit '' items copied''
         | Move \<Rightarrow> if total = 1 \<and> title \<noteq> [] then lit ''Moved '' @ title else num_str done @ lit '' items moved''
         | Trash \<Rightarrow> if total = 1 then lit ''Moved to Trash'' else num_str done @ lit '' items moved to Trash''
         | RestoreTrash \<Rightarrow> if total = 1 then lit ''Put back'' else num_str done @ lit '' items put back''
         | Purge \<Rightarrow> if total = 1 then lit ''Deleted permanently'' else num_str done @ lit '' items deleted permanently''
         | EmptyTrash \<Rightarrow> lit ''Trash emptied''
         | RestoreBackup \<Rightarrow> lit ''Restored '' @ (if title \<noteq> [] then title else lit ''the backup'')
         | Zip \<Rightarrow> (if title \<noteq> [] then title else lit ''The folder'') @ lit ''.zip ready'')"

definition successToast :: "'i op \<Rightarrow> nat \<Rightarrow> jstring option" where
  [js_eval]: "successToast v done =
     (let name = op_title v; dest = op_destLabel v
      in if done = 0 then
           (if op_foldersDone v > 0 \<and> is_upload (op_kind v) \<and> op_state v \<noteq> OpFailed
            then Some (lit ''Made '' @ folders_made (op_foldersDone v) @ lit ''.'') else None)
         else
           (case op_kind v of
              Upload \<Rightarrow> Some (num_str done @ lit '' '' @ plural done (lit ''file'') (lit ''files'') @ lit '' uploaded.'')
            | Gallery \<Rightarrow> Some (num_str done @ lit '' '' @ plural done (lit ''photo'') (lit ''photos'') @ lit '' uploaded.'')
            | Copy \<Rightarrow>
                Some (if done = 1 \<and> name \<noteq> [] then lit ''Copied '' @ name @ lit '' to '' @ dest @ lit ''.''
                      else lit ''Copied '' @ num_str done @ lit '' items to '' @ dest @ lit ''.'')
            | Move \<Rightarrow>
                Some (if done = 1 \<and> name \<noteq> [] then lit ''Moved '' @ name @ lit '' to '' @ dest @ lit ''.''
                      else lit ''Moved '' @ num_str done @ lit '' items to '' @ dest @ lit ''.'')
            | Trash \<Rightarrow> Some (if done = 1 then lit ''Moved to Trash.'' else lit ''Moved '' @ num_str done @ lit '' items to Trash.'')
            | RestoreTrash \<Rightarrow> Some (if done = 1 then lit ''Restored.'' else lit ''Restored '' @ num_str done @ lit '' items.'')
            | Purge \<Rightarrow>
                Some (if done = 1 then lit ''Deleted permanently.'' else lit ''Deleted '' @ num_str done @ lit '' items permanently.'')
            | EmptyTrash \<Rightarrow> Some (lit ''Trash emptied.'')
            | RestoreBackup \<Rightarrow> Some (lit ''Restored as '' @ name @ lit ''.'')
            | Zip \<Rightarrow> op_successToast v))"

section \<open>What the collapsed dock says (FileOpsDock.jsx)\<close>

text \<open>
  \<open>SummaryLine\<close> builds the sentence a screen reader gets and the visible line from the same
  parts.
\<close>

definition pct_text :: "rat option \<Rightarrow> jstring" where
  [js_eval]: "pct_text pct = (case pct of None \<Rightarrow> [] | Some p \<Rightarrow> middot @ num_str (nat (js_round p)) @ lit ''%'')"

definition count_text :: "nat option \<Rightarrow> jstring" where
  [js_eval]: "count_text c = (case c of None \<Rightarrow> [] | Some k \<Rightarrow> num_str k)"

definition need_text :: "nat \<Rightarrow> jstring" where
  [js_eval]: "need_text need = middot @ num_str need @ lit '' need you''"

definition spoken :: "summary_parts \<Rightarrow> jstring" where
  [js_eval]: "spoken p =
     sp_lead p @ count_text (sp_count p) @ sp_unit p @ pct_text (sp_pct p)
     @ (if sp_need p > 0 then need_text (sp_need p) else [])"

definition visibleLine :: "summary_parts \<Rightarrow> jstring" where
  [js_eval]: "visibleLine p =
     sp_lead p @ count_text (sp_count p) @ sp_unit p @ pct_text (sp_pct p)
     @ (if sp_need p > 0 \<and> sp_lead p = [] \<and> sp_count p = None then need_text (sp_need p) else [])"

section \<open>Lemmas\<close>

lemma roll_sizePart: "roll (sizePart n) = fmtSize n"
  by (simp add: sizePart_def fmtSize_def)

lemma plain_append: "plain (xs @ ys) = plain xs @ plain ys"
  by (simp add: plain_def)

lemma name_list_names: "map part_text (filter (\<lambda>p. \<exists>t. p = Pill t) (name_list xs)) = xs"
  by (induction xs rule: name_list.induct) auto

lemma splitName_join: "fst (splitName name) @ snd (splitName name) = name"
  by (simp add: splitName_def split: option.splits)

lemma min100_round: "nat (js_round (min 100 x)) \<le> 100"
proof -
  have "js_round (min 100 x) \<le> js_round 100" by (rule js_round_mono) simp
  also have "js_round 100 = 100" using js_round_of_nat [of 100] by simp
  finally show ?thesis by simp
qed

text \<open>The rolling meta line draws, segment by segment, the text of the plain meta line.\<close>

lemma meta_parts_text: "roll_line (opMetaParts v) = opMeta v"
  by (auto simp: opMeta_def opMetaParts_def roll_line_def roll_sizePart Let_def)

end
