(* ===== verification/OpSelectors.thy ===== *)
theory OpSelectors
  imports OpCopy
begin

text \<open>
  \<open>luna/web/src/lib/fileOps/selectors.js\<close>: what the dock reads from the published state.
  The memo of the source is keyed by object identity and every computed selector is a function of
  that object, so a selector is its computation; \<open>memo\<close> itself is modelled below with the
  proof that a filled cache answers what the computation would.
\<close>

definition isRunning :: "'i op \<Rightarrow> bool" where
  [js_eval]: "isRunning v \<longleftrightarrow> op_state v \<in> {OpPreparing, OpRunning}"

definition isProblem :: "item \<Rightarrow> bool" where
  [js_eval]: "isProblem it \<longleftrightarrow> it_state it = NeedsDecision \<or> it_state it = Failed"

definition visibleOps :: "op_view list \<Rightarrow> op_view list" where
  [js_eval]: "visibleOps vs = filter op_shown vs"

definition problemItems :: "op_view \<Rightarrow> item list" where
  [js_eval]: "problemItems v = filter isProblem (op_items v)"

definition opFailed :: "op_view \<Rightarrow> bool" where
  [js_eval]: "opFailed v \<longleftrightarrow> op_error v \<noteq> None \<and> op_error v \<noteq> Some [] \<and> op_items v = []"

definition inlineProblem :: "op_view \<Rightarrow> item option \<times> nat" where
  [js_eval]: "inlineProblem v =
     (case problemItems v of [] \<Rightarrow> (None, 0) | it # rest \<Rightarrow> (Some it, length rest))"

definition opProgress :: "op_view \<Rightarrow> rat option" where
  [js_eval]: "opProgress v =
     (if op_indeterminate v then None
      else if op_bytesTotal v > 0 then
        Some (min 100 (js_mul (js_div (of_nat (op_bytesDone v)) (of_nat (op_bytesTotal v))) 100))
      else
        (case op_itemsTotal v of
           Some t \<Rightarrow>
             if t > 0 then Some (min 100 (js_mul (js_div (of_nat (op_itemsDone v)) (of_nat t)) 100))
             else if is_upload (op_kind v) \<and> op_foldersDone v > 0 then None else Some 0
         | None \<Rightarrow> if is_upload (op_kind v) \<and> op_foldersDone v > 0 then None else Some 0))"

record dock_info =
  d_visible :: bool
  d_runningCount :: nat
  d_problemCount :: nat
  d_finishedCount :: nat
  d_cancelledCount :: nat
  d_pct :: "rat option"
  d_title :: jstring
  d_summary :: jstring
  d_hasProblems :: bool
  d_parts :: summary_parts

definition isFinished :: "op_view \<Rightarrow> bool" where
  [js_eval]: "isFinished v \<longleftrightarrow>
     \<not> isRunning v \<and> op_endedAt v \<noteq> None \<and> problemItems v = [] \<and> \<not> opFailed v"

definition problems_of :: "op_view \<Rightarrow> nat" where
  [js_eval]: "problems_of v = length (problemItems v) + (if opFailed v then 1 else 0)"

definition mean_progress :: "op_view list \<Rightarrow> rat option" where
  [js_eval]: "mean_progress known =
     (if known = [] then None
      else Some (js_div (foldl (\<lambda>s v. js_add s (case opProgress v of Some p \<Rightarrow> p | None \<Rightarrow> 0)) 0 known)
                  (of_nat (length known))))"

definition dock_input :: "op_view list \<Rightarrow> summary_input" where
  [js_eval]: "dock_input vs =
     (let shown = filter op_shown vs;
          running = filter isRunning shown;
          problems = sum_list (map problems_of shown);
          finished = filter isFinished shown;
          pct = mean_progress (filter (\<lambda>v. \<not> op_indeterminate v) running)
      in \<lparr>s_running = length running, s_problems = problems, s_finished = length finished,
          s_finishedLabel = (case finished of [v] \<Rightarrow> finishedText v | _ \<Rightarrow> []),
          s_pct = pct,
          s_singleUpload =
            (case (shown, running) of
               ([_], [v]) \<Rightarrow>
                 if is_upload (op_kind v) then Some (case op_itemsTotal v of Some t \<Rightarrow> t | None \<Rightarrow> 0) else None
             | _ \<Rightarrow> None)\<rparr>)"

definition dockInfo :: "op_view list \<Rightarrow> dock_info" where
  [js_eval]: "dockInfo vs =
     (let shown = filter op_shown vs; s = dock_input vs;
          cancelled = length (filter (\<lambda>v. op_state v = OpCancelled) (filter isFinished shown))
      in \<lparr>d_visible = (shown \<noteq> []), d_runningCount = s_running s, d_problemCount = s_problems s,
          d_finishedCount = s_finished s, d_cancelledCount = cancelled, d_pct = s_pct s,
          d_title = (if shown = [] then []
                     else dockHeaderTitle (s_running s) (s_problems s) (s_finished s) cancelled),
          d_summary = dockSummary s, d_hasProblems = (s_problems s > 0), d_parts = dockSummaryParts s\<rparr>)"

definition problemCount :: "op_view list \<Rightarrow> nat" where
  [js_eval]: "problemCount vs = d_problemCount (dockInfo vs)"

definition opById :: "op_view list \<Rightarrow> jstring \<Rightarrow> op_view option" where
  [js_eval]: "opById vs ident = List.find (\<lambda>v. op_id v = ident) vs"

text \<open>The single-slot memo over a weak map.\<close>

definition memo :: "('k \<rightharpoonup> 'v) \<Rightarrow> 'k \<Rightarrow> ('k \<Rightarrow> 'v) \<Rightarrow> 'v \<times> ('k \<rightharpoonup> 'v)" where
  [js_eval]: "memo cache key compute =
     (case cache key of
        Some v \<Rightarrow> (v, cache)
      | None \<Rightarrow> (let v = compute key in (v, cache(key \<mapsto> v))))"

section \<open>Lemmas\<close>

lemma memo_transparent:
  assumes "\<And>k v. cache k = Some v \<Longrightarrow> v = compute k"
  shows "fst (memo cache key compute) = compute key"
    and "snd (memo cache key compute) k = Some v \<Longrightarrow> v = compute k"
  using assms by (auto simp: memo_def Let_def split: option.splits if_splits)

lemma inlineProblem_count:
  "snd (inlineProblem v) = length (problemItems v) - 1
   \<and> fst (inlineProblem v) = (if problemItems v = [] then None else Some (hd (problemItems v)))"
  by (auto simp: inlineProblem_def split: list.splits)

lemma opProgress_cases:
  "opProgress v = Some p \<Longrightarrow> p = 0 \<or> (\<exists>x \<ge> 0. p = min 100 x)"
  by (auto simp: opProgress_def split: if_splits option.splits intro!: exI [of _ "js_mul _ _"])

text \<open>The bar of an operation is always between empty and full.\<close>

lemma opProgress_bounds: "case opProgress v of None \<Rightarrow> True | Some p \<Rightarrow> 0 \<le> p \<and> p \<le> 100"
  by (auto dest!: opProgress_cases split: option.splits)

lemma problems_of_zero: "problems_of v = 0 \<longleftrightarrow> problemItems v = [] \<and> \<not> opFailed v"
  by (simp add: problems_of_def)

lemma dock_problems_zero:
  "s_problems (dock_input vs) = 0 \<longleftrightarrow> (\<forall>v \<in> set vs. op_shown v \<longrightarrow> problemItems v = [] \<and> \<not> opFailed v)"
  by (auto simp: dock_input_def Let_def problems_of_zero)

lemma dock_running_zero:
  "s_running (dock_input vs) = 0 \<longleftrightarrow> (\<forall>v \<in> set vs. op_shown v \<longrightarrow> \<not> isRunning v)"
  by (auto simp: dock_input_def Let_def filter_empty_conv)

lemma lit_distinct_titles:
  "lit ''Working on your files'' \<noteq> lit ''Finished''" "lit ''Working on your files'' \<noteq> lit ''Stopped''"
  "lit ''Some files need you'' \<noteq> lit ''Finished''" "lit ''Some files need you'' \<noteq> lit ''Stopped''"
  "lit ''Stopped'' \<noteq> lit ''Finished''"
  by (simp_all add: lit_def)

text \<open>
  The header never claims more than happened. It reads \<open>Finished\<close> or
  \<open>Stopped\<close> exactly when something visible has ended, nothing visible is running, and no
  visible row is waiting for an answer, failed, or failed as a whole.
\<close>

lemma dock_title_finished_iff:
  "d_title (dockInfo vs) \<in> {lit ''Finished'', lit ''Stopped''} \<longleftrightarrow>
     list_ex (\<lambda>v. op_shown v \<and> isFinished v) vs
     \<and> \<not> list_ex (\<lambda>v. op_shown v \<and> (isRunning v \<or> 0 < problems_of v)) vs"
proof -
  have fin: "s_finished (dock_input vs) > 0 \<longleftrightarrow> (\<exists>v \<in> set vs. op_shown v \<and> isFinished v)"
    by (auto simp: dock_input_def Let_def filter_empty_conv)
  have shown: "filter op_shown vs \<noteq> [] \<longleftrightarrow> (\<exists>v \<in> set vs. op_shown v)"
    by (auto simp: filter_empty_conv)
  have "d_title (dockInfo vs) \<in> {lit ''Finished'', lit ''Stopped''} \<longleftrightarrow>
      filter op_shown vs \<noteq> [] \<and> s_running (dock_input vs) = 0 \<and> s_problems (dock_input vs) = 0
      \<and> s_finished (dock_input vs) > 0"
    using lit_distinct_titles
    by (auto simp: dockInfo_def dockHeaderTitle_def Let_def lit_def)
  then show ?thesis using fin shown dock_problems_zero [of vs] dock_running_zero [of vs]
    by (auto simp: list_ex_iff problems_of_zero simp flip: neq0_conv)
qed

text \<open>
  The sentence a screen reader gets for the collapsed dock is the plain summary,
  except that when nothing runs and something needs an answer the count is said twice
  ("2 need you" followed by " \<dots> 2 need you").
\<close>

lemma spoken_summary:
  "spoken (dockSummaryParts s) =
     dockSummary s @ (if s_running s = 0 \<and> s_problems s > 0 then need_text (s_problems s) else [])"
  by (auto simp: spoken_def dockSummaryParts_def dockSummary_def pct_text_def count_text_def need_text_def Let_def
      split: option.splits)

text \<open>
  The visible collapsed line is the plain summary less the part that says how many
  files need an answer while others run.
\<close>

lemma visible_summary:
  "visibleLine (dockSummaryParts s) @
     (if s_running s > 0 \<and> s_problems s > 0 then need_text (s_problems s) else []) = dockSummary s"
  by (auto simp: visibleLine_def dockSummaryParts_def dockSummary_def pct_text_def count_text_def need_text_def Let_def
      split: option.splits)

end
