(* ===== verification/OpStore.thy ===== *)
theory OpStore
  imports OpSelectors
begin

text \<open>
  \<open>luna/web/src/lib/fileOps/store.js\<close>: the store of file operations, its snapshots and emits,
  and the functions the runners share (\<open>env\<close>).

  The operations and items of the source are mutable objects that the store, the runners and
  suspended calls all hold. They live in a heap: \<open>st_op\<close> and \<open>st_item\<close> map a reference
  to the object, \<open>st_ops\<close> is the store's list, and an object removed from the list stays in
  the heap for whoever still holds it. The snapshot caches, the timers and the outside effects
  (query invalidation, toasts, haptics, requests sent and aborted) are part of the state, so a
  handler's whole effect is visible in the state it returns.
\<close>

section \<open>State\<close>

type_synonym oref = nat
type_synonym iref = nat
type_synonym query_key = "jstring list"
type_synonym name_map = "jstring \<rightharpoonup> entry_kind"

datatype buzz = Warning | Error

text \<open>Per-operation private data (\<open>rt(op)\<close>).\<close>

record runtime =
  r_toasted :: bool
  r_toastFn :: "(nat \<Rightarrow> nat \<Rightarrow> jstring) option"
  r_afterFinish :: bool
  r_invalidateKeys :: "query_key list"
  r_touched :: "jstring list"
  r_invTimer :: "nat option"
  r_clearTimer :: "nat option"
  r_showTimer :: "nat option"
  r_hapticAt :: "buzz \<Rightarrow> time option"
  r_nameMaps :: "jstring \<rightharpoonup> name_map option"
  r_walkAbort :: "objref option"

definition init_rt :: runtime where
  [js_eval]: "init_rt =
     \<lparr>r_toasted = False, r_toastFn = None, r_afterFinish = False, r_invalidateKeys = [], r_touched = [],
      r_invTimer = None, r_clearTimer = None, r_showTimer = None, r_hapticAt = (\<lambda>_. None),
      r_nameMaps = Map.empty, r_walkAbort = None\<rparr>"

datatype timer_act = TrailingEmit | ShowOp oref | FlushOp oref | ClearOp oref | PollJobs | RetryQueue

datatype effect =
  Emitted
| Invalidated query_key
| ToastShown jstring
| Buzzed buzz
| FollowUp oref
| AbortSignalled objref
| UploadSent oref iref
| CompleteSent oref iref
| SessionDropped jstring jstring
| MkdirSent oref iref jstring
| StatSent oref iref jstring
| JobPosted oref iref
| JobDeleted jstring
| RemoveSent oref iref jstring
| JobListAsked
| JobAsked jstring
| RequestRun oref iref bool

record store =
  st_op :: "oref \<rightharpoonup> iref op"
  st_item :: "iref \<rightharpoonup> item"
  st_rt :: "oref \<Rightarrow> runtime"
  st_ops :: "oref list"
  st_next :: nat
  st_seq :: nat
  st_tag :: jstring
  st_now :: time
  st_lastEmit :: "time option"
  st_trailing :: "nat option"
  st_destroyed :: bool
  st_dirty :: "oref list"
  st_opSnap :: "oref \<rightharpoonup> op_view"
  st_itemSnap :: "iref \<rightharpoonup> item"
  st_state :: "op_view list"
  st_timers :: "(nat \<times> time \<times> timer_act) list"
  st_log :: "effect list"

definition init_store :: "jstring \<Rightarrow> time \<Rightarrow> store" where
  [js_eval]: "init_store tag now =
     \<lparr>st_op = Map.empty, st_item = Map.empty, st_rt = (\<lambda>_. init_rt), st_ops = [], st_next = 0, st_seq = 0,
      st_tag = tag, st_now = now, st_lastEmit = None, st_trailing = None, st_destroyed = False, st_dirty = [],
      st_opSnap = Map.empty, st_itemSnap = Map.empty, st_state = [], st_timers = [], st_log = []\<rparr>"

section \<open>Heap, ids, timers\<close>

definition upd_op :: "oref \<Rightarrow> (iref op \<Rightarrow> iref op) \<Rightarrow> store \<Rightarrow> store" where
  [js_eval]: "upd_op oi f s = s\<lparr>st_op := (st_op s)(oi := map_option f (st_op s oi))\<rparr>"

definition upd_item :: "iref \<Rightarrow> (item \<Rightarrow> item) \<Rightarrow> store \<Rightarrow> store" where
  [js_eval]: "upd_item i f s = s\<lparr>st_item := (st_item s)(i := map_option f (st_item s i))\<rparr>"

definition upd_rt :: "oref \<Rightarrow> (runtime \<Rightarrow> runtime) \<Rightarrow> store \<Rightarrow> store" where
  [js_eval]: "upd_rt oi f s = s\<lparr>st_rt := (st_rt s)(oi := f (st_rt s oi))\<rparr>"

definition eff :: "effect \<Rightarrow> store \<Rightarrow> store" where
  [js_eval]: "eff e s = s\<lparr>st_log := st_log s @ [e]\<rparr>"

text \<open>The items of a live operation, in order.\<close>

definition op_item_list :: "store \<Rightarrow> oref \<Rightarrow> item list" where
  [js_eval]: "op_item_list s oi =
     (case st_op s oi of None \<Rightarrow> [] | Some p \<Rightarrow> List.map_filter (st_item s) (op_items p))"

definition item_st :: "store \<Rightarrow> iref \<Rightarrow> item_state option" where
  [js_eval]: "item_st s i = map_option it_state (st_item s i)"

definition newId :: "jstring \<Rightarrow> store \<Rightarrow> jstring \<times> store" where
  [js_eval]: "newId prefix s =
     (let n = Suc (st_seq s) in (prefix @ lit ''_'' @ st_tag s @ num_str n, s\<lparr>st_seq := n\<rparr>))"

definition new_ref :: "store \<Rightarrow> nat \<times> store" where
  [js_eval]: "new_ref s = (st_next s, s\<lparr>st_next := Suc (st_next s)\<rparr>)"

definition setTimer :: "timer_act \<Rightarrow> nat \<Rightarrow> store \<Rightarrow> nat \<times> store" where
  [js_eval]: "setTimer act ms s =
     (let t = st_next s
      in (t, s\<lparr>st_next := Suc t, st_timers := st_timers s @ [(t, st_now s + ms, act)]\<rparr>))"

definition clearTimer :: "nat \<Rightarrow> store \<Rightarrow> store" where
  [js_eval]: "clearTimer t s = s\<lparr>st_timers := filter (\<lambda>x. fst x \<noteq> t) (st_timers s)\<rparr>"

definition clear_opt :: "nat option \<Rightarrow> store \<Rightarrow> store" where
  [js_eval]: "clear_opt t s = (case t of None \<Rightarrow> s | Some x \<Rightarrow> clearTimer x s)"

definition add_set :: "'a \<Rightarrow> 'a list \<Rightarrow> 'a list" where
  [js_eval]: "add_set x xs = (if x \<in> set xs then xs else xs @ [x])"

section \<open>Snapshots and emits\<close>

definition touch :: "oref \<Rightarrow> iref option \<Rightarrow> store \<Rightarrow> store" where
  [js_eval]: "touch oi i s =
     (let s1 = (case i of None \<Rightarrow> s | Some k \<Rightarrow> s\<lparr>st_itemSnap := (st_itemSnap s)(k := None)\<rparr>)
      in s1\<lparr>st_opSnap := (st_opSnap s1)(oi := None), st_dirty := add_set oi (st_dirty s1)\<rparr>)"

definition with_items :: "'j list \<Rightarrow> 'i op \<Rightarrow> 'j op" where
  [js_eval]: "with_items its p =
     \<lparr>op_id = op_id p, op_kind = op_kind p, op_createdAt = op_createdAt p, op_endedAt = op_endedAt p,
      op_source = op_source p, op_driveId = op_driveId p, op_destDriveId = op_destDriveId p,
      op_destFolder = op_destFolder p, op_destLabel = op_destLabel p, op_title = op_title p,
      op_state = op_state p, op_walking = op_walking p, op_bytesDone = op_bytesDone p,
      op_bytesTotal = op_bytesTotal p, op_itemsDone = op_itemsDone p, op_itemsTotal = op_itemsTotal p,
      op_foldersDone = op_foldersDone p, op_policy = op_policy p, op_items = its, op_error = op_error p,
      op_successToast = op_successToast p, op_shown = op_shown p, op_indeterminate = op_indeterminate p,
      op_rootFolder = op_rootFolder p, op_cancelled = op_cancelled p\<rparr>"

definition snapItem :: "store \<Rightarrow> iref \<Rightarrow> item option" where
  [js_eval]: "snapItem s i = (case st_itemSnap s i of Some x \<Rightarrow> Some x | None \<Rightarrow> st_item s i)"

definition snapOp :: "store \<Rightarrow> oref \<Rightarrow> op_view option" where
  [js_eval]: "snapOp s oi =
     (case st_opSnap s oi of
        Some v \<Rightarrow> Some v
      | None \<Rightarrow> map_option (\<lambda>p. with_items (List.map_filter (snapItem s) (op_items p)) p) (st_op s oi))"

text \<open>What taking the snapshots of \<open>ops.map(snapOp)\<close> leaves in the two caches.\<close>

definition fill_caches :: "store \<Rightarrow> store" where
  [js_eval]: "fill_caches s =
     s\<lparr>st_itemSnap := (\<lambda>i. if list_ex (\<lambda>oi. st_opSnap s oi = None \<and>
                                  (case st_op s oi of None \<Rightarrow> False | Some p \<Rightarrow> i \<in> set (op_items p))) (st_ops s)
                           then snapItem s i else st_itemSnap s i),
       st_opSnap := (\<lambda>oi. if oi \<in> set (st_ops s) then snapOp s oi else st_opSnap s oi)\<rparr>"

definition recompute_op :: "oref \<Rightarrow> store \<Rightarrow> store" where
  [js_eval]: "recompute_op oi s = upd_op oi (recompute (op_item_list s oi)) s"

definition flush :: "store \<Rightarrow> store" where
  [js_eval]: "flush s =
     (let s1 = clear_opt (st_trailing s) s;
          s2 = s1\<lparr>st_trailing := None, st_lastEmit := Some (st_now s)\<rparr>;
          s3 = fold recompute_op (st_dirty s2) s2;
          s4 = s3\<lparr>st_opSnap := (\<lambda>oi. if oi \<in> set (st_dirty s2) then None else st_opSnap s3 oi), st_dirty := []\<rparr>;
          s5 = (fill_caches s4)\<lparr>st_state := List.map_filter (snapOp s4) (st_ops s4)\<rparr>
      in eff Emitted s5)"

definition emit :: "bool \<Rightarrow> store \<Rightarrow> store" where
  [js_eval]: "emit urgent s =
     (if st_destroyed s then s
      else if urgent then flush s
      else
        (case st_lastEmit s of
           None \<Rightarrow> flush s
         | Some prev \<Rightarrow>
             (let elapsed = st_now s - prev
              in if elapsed \<ge> EMIT_MS then flush s
                 else if st_trailing s = None then
                   (let (t, s1) = setTimer TrailingEmit (EMIT_MS - elapsed) s in s1\<lparr>st_trailing := Some t\<rparr>)
                 else s)))"

section \<open>Operations and items\<close>

definition alloc_op :: "iref op \<Rightarrow> store \<Rightarrow> oref \<times> store" where
  [js_eval]: "alloc_op p s = (let (r, s1) = new_ref s in (r, s1\<lparr>st_op := (st_op s1)(r \<mapsto> p)\<rparr>))"

definition alloc_item :: "item \<Rightarrow> store \<Rightarrow> iref \<times> store" where
  [js_eval]: "alloc_item x s = (let (r, s1) = new_ref s in (r, s1\<lparr>st_item := (st_item s1)(r \<mapsto> x)\<rparr>))"

definition addOp :: "oref \<Rightarrow> store \<Rightarrow> store" where
  [js_eval]: "addOp oi s =
     (case st_op s oi of
        None \<Rightarrow> s
      | Some p \<Rightarrow>
          (let s1 = s\<lparr>st_ops := st_ops s @ [oi]\<rparr>;
               s2 = (if op_kind p \<in> set IMMEDIATE_KINDS \<or> list_ex (\<lambda>i. it_state i = Done) (op_item_list s1 oi)
                     then upd_op oi (\<lambda>q. q\<lparr>op_shown := True\<rparr>) s1
                     else (let (t, s') = setTimer (ShowOp oi) SHOW_AFTER_MS s1
                           in upd_rt oi (\<lambda>r. r\<lparr>r_showTimer := Some t\<rparr>) s'))
           in emit True (touch oi None s2)))"

definition addItem :: "oref \<Rightarrow> iref \<Rightarrow> store \<Rightarrow> store" where
  [js_eval]: "addItem oi i s =
     emit False (touch oi (Some i) (upd_op oi (\<lambda>p. p\<lparr>op_items := op_items p @ [i]\<rparr>) s))"

definition patchItem_u :: "bool \<Rightarrow> oref \<Rightarrow> iref \<Rightarrow> (item \<Rightarrow> item) \<Rightarrow> store \<Rightarrow> store" where
  [js_eval]: "patchItem_u urgent oi i f s =
     (let stateChanged = (case st_item s i of None \<Rightarrow> False | Some x \<Rightarrow> it_state (f x) \<noteq> it_state x)
      in emit (urgent \<or> stateChanged) (touch oi (Some i) (upd_item i f s)))"

abbreviation patchItem :: "oref \<Rightarrow> iref \<Rightarrow> (item \<Rightarrow> item) \<Rightarrow> store \<Rightarrow> store" where
  "patchItem \<equiv> patchItem_u False"

definition patchOp :: "oref \<Rightarrow> (iref op \<Rightarrow> iref op) \<Rightarrow> store \<Rightarrow> store" where
  [js_eval]: "patchOp oi f s = emit True (touch oi None (upd_op oi f s))"

definition removeItem :: "oref \<Rightarrow> iref \<Rightarrow> store \<Rightarrow> store" where
  [js_eval]: "removeItem oi i s =
     (case st_op s oi of
        None \<Rightarrow> s
      | Some p \<Rightarrow>
          if i \<in> set (op_items p)
          then emit True (touch oi None (upd_op oi (\<lambda>q. q\<lparr>op_items := remove1 i (op_items q)\<rparr>) s))
          else s)"

definition clear_op_timers :: "oref \<Rightarrow> store \<Rightarrow> store" where
  [js_eval]: "clear_op_timers oi s =
     (let r = st_rt s oi
      in clear_opt (r_showTimer r) (clear_opt (r_clearTimer r) (clear_opt (r_invTimer r) s)))"

definition removeOp :: "oref \<Rightarrow> store \<Rightarrow> store" where
  [js_eval]: "removeOp oi s =
     (if oi \<in> set (st_ops s) then
        (let s1 = clear_op_timers oi s
         in emit True (s1\<lparr>st_ops := remove1 oi (st_ops s1), st_dirty := removeAll oi (st_dirty s1)\<rparr>))
      else s)"

section \<open>Side effects shared by the runners\<close>

text \<open>\<open>fileSourceScope\<close> and \<open>fileListKey\<close> of \<open>fileSource.jsx\<close>.\<close>

definition fileSourceScope :: "source \<Rightarrow> jstring \<Rightarrow> jstring" where
  [js_eval]: "fileSourceScope src driveId =
     (case src_share src of Some token \<Rightarrow> lit ''share:'' @ token | None \<Rightarrow> driveId)"

definition fileListKey :: "source \<Rightarrow> jstring \<Rightarrow> jstring \<Rightarrow> query_key" where
  [js_eval]: "fileListKey src driveId path = [lit ''files'', fileSourceScope src driveId, path]"

definition parent_or_root :: "jstring \<Rightarrow> jstring" where
  [js_eval]: "parent_or_root f = (case parentPath f of None \<Rightarrow> [] | Some p \<Rightarrow> p)"

text \<open>
  The folders \<open>noteFolder\<close> marks: the folder itself and its parents, up to the operation's
  destination or the root. The source's \<open>for (;;)\<close> loop ends because a parent is shorter.
\<close>

function noted_folders :: "jstring \<Rightarrow> jstring \<Rightarrow> jstring list" where
  "noted_folders dest f = f # (if f = [] \<or> f = dest then [] else noted_folders dest (parent_or_root f))"
  by pat_completeness auto
termination
proof (relation "measure (\<lambda>(dest, f). length f)")
  fix dest f :: jstring
  assume "\<not> (f = [] \<or> f = dest)"
  then show "((dest, parent_or_root f), (dest, f)) \<in> measure (\<lambda>(dest, f). length f)"
    by (auto simp: parent_or_root_def dest: parentPath_shorter split: option.splits)
qed simp

declare noted_folders.simps [simp del, js_eval]

definition flushFolders :: "oref \<Rightarrow> store \<Rightarrow> store" where
  [js_eval]: "flushFolders oi s =
     (case st_op s oi of
        None \<Rightarrow> s
      | Some p \<Rightarrow>
          upd_rt oi (\<lambda>r. r\<lparr>r_touched := []\<rparr>)
            (fold (\<lambda>f. eff (Invalidated (fileListKey (op_source p) (op_driveId p) f))) (r_touched (st_rt s oi)) s))"

definition noteFolder :: "oref \<Rightarrow> jstring \<Rightarrow> store \<Rightarrow> store" where
  [js_eval]: "noteFolder oi folder s =
     (case st_op s oi of
        None \<Rightarrow> s
      | Some p \<Rightarrow>
          (let s1 = upd_rt oi (\<lambda>r. r\<lparr>r_touched := fold add_set (noted_folders (op_destFolder p) folder) (r_touched r)\<rparr>) s
           in if r_invTimer (st_rt s1 oi) = None then
                (let (t, s2) = setTimer (FlushOp oi) INVALIDATE_GAP_MS s1
                 in upd_rt oi (\<lambda>r. r\<lparr>r_invTimer := Some t\<rparr>) s2)
              else s1))"

definition invalidate :: "query_key list \<Rightarrow> store \<Rightarrow> store" where
  [js_eval]: "invalidate keys s = fold (\<lambda>k. eff (Invalidated k)) keys s"

definition notify :: "oref \<Rightarrow> buzz \<Rightarrow> store \<Rightarrow> store" where
  [js_eval]: "notify oi kind s =
     (let now = st_now s; prev = r_hapticAt (st_rt s oi) kind
      in if (case prev of None \<Rightarrow> False | Some t \<Rightarrow> now - t < HAPTIC_GAP_MS) then s
         else eff (Buzzed kind) (upd_rt oi (\<lambda>r. r\<lparr>r_hapticAt := (r_hapticAt r)(kind := Some now)\<rparr>) s))"

section \<open>Settling and finishing\<close>

text \<open>The state an operation's items put it in, when nothing of it is active.\<close>

definition done_count :: "item list \<Rightarrow> nat" where
  [js_eval]: "done_count its = length (filter (\<lambda>i. it_state i = Done \<and> \<not> it_isDir i) its)"

definition truthy :: "jstring option \<Rightarrow> bool" where
  [js_eval]: "truthy x \<longleftrightarrow> x \<noteq> None \<and> x \<noteq> Some []"

definition end_state :: "'i op \<Rightarrow> item list \<Rightarrow> op_state" where
  [js_eval]: "end_state p its =
     (let failed = list_ex (\<lambda>i. it_state i = Failed) its;
          st = (if op_cancelled p then OpCancelled
                else if \<not> failed then OpDone
                else if done_count its > 0 then OpPartial else OpFailed)
      in if truthy (op_error p) then OpFailed else st)"

definition finish_toast :: "oref \<Rightarrow> nat \<Rightarrow> store \<Rightarrow> store" where
  [js_eval]: "finish_toast oi done s =
     (case st_op s oi of
        None \<Rightarrow> s
      | Some p \<Rightarrow>
          if \<not> r_toasted (st_rt s oi) \<and> done > 0 \<and> op_state p \<noteq> OpCancelled \<and> op_state p \<noteq> OpFailed then
            (let s1 = upd_rt oi (\<lambda>r. r\<lparr>r_toasted := True\<rparr>) s;
                 message = (case r_toastFn (st_rt s oi) of
                              Some f \<Rightarrow> Some (f done (case op_itemsTotal p of Some t \<Rightarrow> t | None \<Rightarrow> length (op_items p)))
                            | None \<Rightarrow> if truthy (op_successToast p) then op_successToast p else successToast p done)
             in case message of
                  Some m \<Rightarrow> if m \<noteq> [] then eff (ToastShown m) s1 else s1
                | None \<Rightarrow> s1)
          else s)"

definition arm_clear :: "oref \<Rightarrow> store \<Rightarrow> store" where
  [js_eval]: "arm_clear oi s =
     (case st_op s oi of
        None \<Rightarrow> s
      | Some p \<Rightarrow>
          if \<not> list_ex isProblem (op_item_list s oi) \<and> \<not> truthy (op_error p) \<and> op_state p \<noteq> OpFailed then
            (let (t, s1) = setTimer (ClearOp oi) AUTO_CLEAR_MS (clear_opt (r_clearTimer (st_rt s oi)) s)
             in upd_rt oi (\<lambda>r. r\<lparr>r_clearTimer := Some t\<rparr>) s1)
          else s)"

definition finish_prep :: "oref \<Rightarrow> op_kind \<Rightarrow> store \<Rightarrow> store" where
  [js_eval]: "finish_prep oi kind s =
     (let s1 = upd_op oi (\<lambda>q. q\<lparr>op_endedAt := Some (st_now s),
                                op_shown := op_shown q \<or> op_state q = OpPartial \<or> op_state q = OpFailed\<rparr>) s;
          r = st_rt s1 oi;
          s2 = upd_rt oi (\<lambda>x. x\<lparr>r_showTimer := None, r_invTimer := None\<rparr>)
                 (clear_opt (r_invTimer r) (clear_opt (r_showTimer r) s1));
          s3 = flushFolders oi s2;
          s4 = (if is_upload kind then invalidate [[lit ''recents'']] s3 else s3)
      in invalidate (r_invalidateKeys r) s4)"

definition finish :: "oref \<Rightarrow> nat \<Rightarrow> store \<Rightarrow> store" where
  [js_eval]: "finish oi done s =
     (case st_op s oi of
        None \<Rightarrow> s
      | Some p \<Rightarrow>
          (let s6 = finish_toast oi done (finish_prep oi (op_kind p) s);
               s7 = (if done > 0 \<and> r_afterFinish (st_rt s6 oi) then eff (FollowUp oi) s6 else s6)
           in arm_clear oi s7))"

definition reopen :: "oref \<Rightarrow> store \<Rightarrow> store" where
  [js_eval]: "reopen oi s =
     upd_rt oi (\<lambda>r. r\<lparr>r_toasted := False, r_clearTimer := None\<rparr>)
       (clear_opt (r_clearTimer (st_rt s oi)) (upd_op oi (\<lambda>q. q\<lparr>op_endedAt := None\<rparr>) s))"

definition settle :: "oref \<Rightarrow> store \<Rightarrow> store" where
  [js_eval]: "settle oi s =
     (if oi \<notin> set (st_ops s) then s
      else
        (case st_op s oi of
           None \<Rightarrow> s
         | Some p \<Rightarrow>
             (let its = op_item_list s oi;
                  active = list_ex isActiveItem its;
                  deciding = list_ex (\<lambda>i. it_state i = NeedsDecision) its;
                  wasEnded = (op_endedAt p \<noteq> None);
                  s1 = (if list_ex isProblem its then upd_op oi (\<lambda>q. q\<lparr>op_shown := True\<rparr>) s else s);
                  s2 = (if op_walking p \<or> active then
                          (let s' = upd_op oi (\<lambda>q. q\<lparr>op_state := (if its = [] then OpPreparing else OpRunning)\<rparr>) s1
                           in if wasEnded then reopen oi s' else s')
                        else if deciding then upd_op oi (\<lambda>q. q\<lparr>op_state := OpWaiting\<rparr>) s1
                        else
                          (let s' = upd_op oi (\<lambda>q. q\<lparr>op_state := end_state q its\<rparr>) s1
                           in if wasEnded then s' else finish oi (done_count its) s'))
              in emit True (touch oi None s2))))"

section \<open>Looking up\<close>

definition getOp :: "jstring \<Rightarrow> store \<Rightarrow> oref option" where
  [js_eval]: "getOp ident s = List.find (\<lambda>oi. map_option op_id (st_op s oi) = Some ident) (st_ops s)"

definition find_item :: "oref \<Rightarrow> jstring \<Rightarrow> store \<Rightarrow> iref option" where
  [js_eval]: "find_item oi ident s =
     (case st_op s oi of
        None \<Rightarrow> None
      | Some p \<Rightarrow> List.find (\<lambda>i. map_option it_id (st_item s i) = Some ident) (op_items p))"

definition isAlive :: "oref \<Rightarrow> store \<Rightarrow> bool" where
  [js_eval]: "isAlive oi s \<longleftrightarrow> \<not> st_destroyed s \<and> oi \<in> set (st_ops s)"


section \<open>What the store's functions leave alone\<close>

text \<open>
  An emit only re-derives the totals of the operations it publishes: every other part of the live
  objects is as it was. \<open>op_core\<close> is an operation without its totals.
\<close>

definition op_core :: "'i op \<Rightarrow> 'i op" where
  "op_core p = p\<lparr>op_bytesDone := 0, op_bytesTotal := 0, op_itemsDone := 0, op_itemsTotal := None, op_foldersDone := 0\<rparr>"

definition core_at :: "store \<Rightarrow> oref \<Rightarrow> iref op option" where
  "core_at s oi = map_option op_core (st_op s oi)"

lemma op_core_recompute [simp]: "op_core (recompute its p) = op_core p"
  by (simp add: op_core_def recompute_def Let_def)

lemma op_core_sel:
  assumes "op_core p = op_core q"
  shows "op_items p = op_items q" "op_state p = op_state q" "op_endedAt p = op_endedAt q" "op_kind p = op_kind q"
    "op_id p = op_id q" "op_walking p = op_walking q" "op_error p = op_error q" "op_shown p = op_shown q"
    "op_cancelled p = op_cancelled q" "op_policy p = op_policy q" "op_indeterminate p = op_indeterminate q"
    "op_source p = op_source q" "op_destFolder p = op_destFolder q" "op_driveId p = op_driveId q"
  using assms by (cases p; cases q; simp add: op_core_def)+

lemma op_core_fixed [simp]:
  "op_items (op_core p) = op_items p" "op_state (op_core p) = op_state p" "op_endedAt (op_core p) = op_endedAt p"
  "op_kind (op_core p) = op_kind p" "op_id (op_core p) = op_id p" "op_walking (op_core p) = op_walking p"
  "op_error (op_core p) = op_error p" "op_shown (op_core p) = op_shown p" "op_cancelled (op_core p) = op_cancelled p"
  "op_policy (op_core p) = op_policy p" "op_indeterminate (op_core p) = op_indeterminate p"
  "op_source (op_core p) = op_source p" "op_destFolder (op_core p) = op_destFolder p"
  "op_driveId (op_core p) = op_driveId p"
  by (simp_all add: op_core_def)

lemma core_at_SomeD:
  "core_at s oi = core_at t oi \<Longrightarrow> st_op s oi = Some p \<Longrightarrow> \<exists>q. st_op t oi = Some q \<and> op_core q = op_core p"
  by (auto simp: core_at_def split: option.splits) (metis option.map_disc_iff option.map_sel option.sel option.exhaust)

lemma core_at_None: "core_at s oi = core_at t oi \<Longrightarrow> st_op s oi = None \<longleftrightarrow> st_op t oi = None"
  by (simp add: core_at_def) (metis option.map_disc_iff)

text \<open>The parts of the store an emit, a timer or a log entry cannot change.\<close>

definition same_objs :: "store \<Rightarrow> store \<Rightarrow> bool" where
  "same_objs s t \<longleftrightarrow> st_item s = st_item t \<and> st_ops s = st_ops t \<and> st_destroyed s = st_destroyed t
     \<and> st_now s = st_now t \<and> st_seq s = st_seq t \<and> st_tag s = st_tag t \<and> (\<forall>oi. core_at s oi = core_at t oi)"

lemma same_objs_refl [simp, intro]: "same_objs s s"
  by (simp add: same_objs_def)

lemma same_objs_trans [trans]: "same_objs s t \<Longrightarrow> same_objs t u \<Longrightarrow> same_objs s u"
  by (simp add: same_objs_def)

lemma same_objs_fields:
  assumes "same_objs s t"
  shows "st_item s = st_item t" "st_ops s = st_ops t" "st_destroyed s = st_destroyed t" "st_now s = st_now t"
    "st_seq s = st_seq t" "st_tag s = st_tag t" "core_at s oi = core_at t oi"
  using assms by (simp_all add: same_objs_def)

lemma recompute_op_same: "same_objs (recompute_op oi s) s"
  by (auto simp: recompute_op_def upd_op_def same_objs_def core_at_def option.map_comp o_def)

lemma fold_recompute_same: "same_objs (fold recompute_op ois s) s"
proof (induction ois arbitrary: s)
  case (Cons oi ois)
  show ?case using same_objs_trans [OF Cons.IH recompute_op_same] by simp
qed simp

lemma recompute_op_frame [simp]:
  "st_item (recompute_op oi s) = st_item s" "st_ops (recompute_op oi s) = st_ops s"
  "st_opSnap (recompute_op oi s) = st_opSnap s" "st_itemSnap (recompute_op oi s) = st_itemSnap s"
  "st_rt (recompute_op oi s) = st_rt s" "st_next (recompute_op oi s) = st_next s"
  "st_timers (recompute_op oi s) = st_timers s" "st_log (recompute_op oi s) = st_log s"
  "st_dirty (recompute_op oi s) = st_dirty s" "st_lastEmit (recompute_op oi s) = st_lastEmit s"
  "st_trailing (recompute_op oi s) = st_trailing s" "st_now (recompute_op oi s) = st_now s"
  by (simp_all add: recompute_op_def upd_op_def)

lemma fold_recompute_frame [simp]:
  "st_item (fold recompute_op ois s) = st_item s" "st_ops (fold recompute_op ois s) = st_ops s"
  "st_opSnap (fold recompute_op ois s) = st_opSnap s" "st_itemSnap (fold recompute_op ois s) = st_itemSnap s"
  "st_rt (fold recompute_op ois s) = st_rt s" "st_next (fold recompute_op ois s) = st_next s"
  "st_timers (fold recompute_op ois s) = st_timers s" "st_log (fold recompute_op ois s) = st_log s"
  "st_dirty (fold recompute_op ois s) = st_dirty s" "st_lastEmit (fold recompute_op ois s) = st_lastEmit s"
  "st_trailing (fold recompute_op ois s) = st_trailing s" "st_now (fold recompute_op ois s) = st_now s"
  by (induction ois arbitrary: s; simp)+

lemma clear_opt_frame [simp]:
  "st_item (clear_opt t s) = st_item s" "st_ops (clear_opt t s) = st_ops s" "st_op (clear_opt t s) = st_op s"
  "st_opSnap (clear_opt t s) = st_opSnap s" "st_itemSnap (clear_opt t s) = st_itemSnap s"
  "st_rt (clear_opt t s) = st_rt s" "st_next (clear_opt t s) = st_next s" "st_log (clear_opt t s) = st_log s"
  "st_dirty (clear_opt t s) = st_dirty s" "st_destroyed (clear_opt t s) = st_destroyed s"
  "st_now (clear_opt t s) = st_now s" "st_seq (clear_opt t s) = st_seq s" "st_tag (clear_opt t s) = st_tag s"
  "st_lastEmit (clear_opt t s) = st_lastEmit s" "st_trailing (clear_opt t s) = st_trailing s"
  "st_state (clear_opt t s) = st_state s"
  by (simp_all add: clear_opt_def clearTimer_def split: option.splits)

lemma flush_same: "same_objs (flush s) s"
proof -
  let ?s2 = "(clear_opt (st_trailing s) s)\<lparr>st_trailing := None, st_lastEmit := Some (st_now s)\<rparr>"
  have "same_objs (flush s) (fold recompute_op (st_dirty ?s2) ?s2)"
    by (simp add: flush_def Let_def eff_def fill_caches_def same_objs_def core_at_def)
  also have "same_objs (fold recompute_op (st_dirty ?s2) ?s2) ?s2" by (rule fold_recompute_same)
  also have "same_objs ?s2 s" by (simp add: same_objs_def core_at_def)
  finally show ?thesis .
qed

lemma setTimer_same: "same_objs ((snd (setTimer act ms s))\<lparr>st_trailing := x\<rparr>) s"
  by (simp add: setTimer_def Let_def same_objs_def core_at_def)

lemma setTimer_fst: "fst (setTimer a ms s) = st_next s"
  by (simp add: setTimer_def Let_def)

lemma emit_alt:
  "emit urgent s = s \<or> emit urgent s = flush s
   \<or> (\<exists>ms. emit urgent s = (snd (setTimer TrailingEmit ms s))\<lparr>st_trailing := Some (st_next s)\<rparr>)"
  by (simp add: emit_def setTimer_fst Let_def split_beta split: option.splits) blast

lemma emit_cases:
  obtains "emit urgent s = s" | "emit urgent s = flush s"
  | ms where "emit urgent s = (snd (setTimer TrailingEmit ms s))\<lparr>st_trailing := Some (st_next s)\<rparr>"
  using emit_alt by blast

lemma emit_same: "same_objs (emit urgent s) s"
  by (rule emit_cases [of urgent s]) (simp_all add: flush_same setTimer_same)

lemma emit_frame [simp]:
  "st_item (emit urgent s) = st_item s" "st_ops (emit urgent s) = st_ops s"
  "st_destroyed (emit urgent s) = st_destroyed s" "st_now (emit urgent s) = st_now s"
  "st_seq (emit urgent s) = st_seq s" "st_tag (emit urgent s) = st_tag s" "core_at (emit urgent s) oi = core_at s oi"
  using same_objs_fields [OF emit_same] by auto

lemma emit_rt [simp]: "st_rt (emit urgent s) = st_rt s"
  by (rule emit_cases [of urgent s]) (simp_all add: flush_def fill_caches_def eff_def setTimer_def Let_def)

lemma touch_frame [simp]:
  "st_item (touch oi i s) = st_item s" "st_ops (touch oi i s) = st_ops s" "st_op (touch oi i s) = st_op s"
  "st_destroyed (touch oi i s) = st_destroyed s" "st_now (touch oi i s) = st_now s" "st_rt (touch oi i s) = st_rt s"
  "st_seq (touch oi i s) = st_seq s" "st_tag (touch oi i s) = st_tag s" "core_at (touch oi i s) oj = core_at s oj"
  by (simp_all add: touch_def Let_def core_at_def split: option.splits)

lemma upd_item_frame [simp]:
  "st_ops (upd_item i f s) = st_ops s" "st_op (upd_item i f s) = st_op s" "st_rt (upd_item i f s) = st_rt s"
  "st_destroyed (upd_item i f s) = st_destroyed s" "st_now (upd_item i f s) = st_now s"
  "st_itemSnap (upd_item i f s) = st_itemSnap s" "st_opSnap (upd_item i f s) = st_opSnap s"
  "st_item (upd_item i f s) = (st_item s)(i := map_option f (st_item s i))" "core_at (upd_item i f s) oj = core_at s oj"
  by (simp_all add: upd_item_def core_at_def)

lemma upd_op_frame [simp]:
  "st_ops (upd_op oi f s) = st_ops s" "st_item (upd_op oi f s) = st_item s" "st_rt (upd_op oi f s) = st_rt s"
  "st_destroyed (upd_op oi f s) = st_destroyed s" "st_now (upd_op oi f s) = st_now s"
  "st_itemSnap (upd_op oi f s) = st_itemSnap s" "st_opSnap (upd_op oi f s) = st_opSnap s"
  "st_op (upd_op oi f s) = (st_op s)(oi := map_option f (st_op s oi))"
  by (simp_all add: upd_op_def)

lemma upd_rt_frame [simp]:
  "st_ops (upd_rt oi f s) = st_ops s" "st_item (upd_rt oi f s) = st_item s" "st_op (upd_rt oi f s) = st_op s"
  "st_destroyed (upd_rt oi f s) = st_destroyed s" "st_now (upd_rt oi f s) = st_now s" "core_at (upd_rt oi f s) oj = core_at s oj"
  "st_log (upd_rt oi f s) = st_log s" "st_rt (upd_rt oi f s) = (st_rt s)(oi := f (st_rt s oi))"
  by (simp_all add: upd_rt_def core_at_def)

lemma eff_frame [simp]:
  "st_ops (eff e s) = st_ops s" "st_item (eff e s) = st_item s" "st_op (eff e s) = st_op s" "st_rt (eff e s) = st_rt s"
  "st_destroyed (eff e s) = st_destroyed s" "st_now (eff e s) = st_now s" "core_at (eff e s) oj = core_at s oj"
  "st_log (eff e s) = st_log s @ [e]"
  by (simp_all add: eff_def core_at_def)

lemma patchItem_frame [simp]:
  "st_ops (patchItem_u urgent oi i f s) = st_ops s" "st_rt (patchItem_u urgent oi i f s) = st_rt s"
  "st_destroyed (patchItem_u urgent oi i f s) = st_destroyed s" "st_now (patchItem_u urgent oi i f s) = st_now s"
  "st_item (patchItem_u urgent oi i f s) = (st_item s)(i := map_option f (st_item s i))"
  "core_at (patchItem_u urgent oi i f s) oj = core_at s oj"
  by (simp_all add: patchItem_u_def Let_def)

lemma notify_frame [simp]:
  "st_ops (notify oi k s) = st_ops s" "st_item (notify oi k s) = st_item s" "st_op (notify oi k s) = st_op s"
  "st_destroyed (notify oi k s) = st_destroyed s" "st_now (notify oi k s) = st_now s"
  "core_at (notify oi k s) oj = core_at s oj"
  by (auto simp: notify_def Let_def)

lemma fold_eff_frame [simp]:
  "st_ops (fold (\<lambda>x. eff (g x)) xs s) = st_ops s" "st_item (fold (\<lambda>x. eff (g x)) xs s) = st_item s"
  "st_op (fold (\<lambda>x. eff (g x)) xs s) = st_op s" "st_rt (fold (\<lambda>x. eff (g x)) xs s) = st_rt s"
  "st_destroyed (fold (\<lambda>x. eff (g x)) xs s) = st_destroyed s" "st_now (fold (\<lambda>x. eff (g x)) xs s) = st_now s"
  "core_at (fold (\<lambda>x. eff (g x)) xs s) oj = core_at s oj"
  "st_log (fold (\<lambda>x. eff (g x)) xs s) = st_log s @ map g xs"
  by (induction xs arbitrary: s; simp add: core_at_def)+

lemma setTimer_frame [simp]:
  "st_ops (snd (setTimer a ms s)) = st_ops s" "st_item (snd (setTimer a ms s)) = st_item s"
  "st_op (snd (setTimer a ms s)) = st_op s" "st_rt (snd (setTimer a ms s)) = st_rt s"
  "st_destroyed (snd (setTimer a ms s)) = st_destroyed s" "st_now (snd (setTimer a ms s)) = st_now s"
  "core_at (snd (setTimer a ms s)) oj = core_at s oj" "fst (setTimer a ms s) = st_next s"
  by (simp_all add: setTimer_def Let_def core_at_def)

lemma noteFolder_frame [simp]:
  "st_ops (noteFolder oi f s) = st_ops s" "st_item (noteFolder oi f s) = st_item s" "st_op (noteFolder oi f s) = st_op s"
  "st_destroyed (noteFolder oi f s) = st_destroyed s" "st_now (noteFolder oi f s) = st_now s"
  "core_at (noteFolder oi f s) oj = core_at s oj"
  by (auto simp: noteFolder_def Let_def split_beta split: option.splits)

lemma flushFolders_frame [simp]:
  "st_ops (flushFolders oi s) = st_ops s" "st_item (flushFolders oi s) = st_item s" "st_op (flushFolders oi s) = st_op s"
  "st_destroyed (flushFolders oi s) = st_destroyed s" "st_now (flushFolders oi s) = st_now s"
  by (auto simp: flushFolders_def split: option.splits)

lemma invalidate_frame [simp]:
  "st_ops (invalidate ks s) = st_ops s" "st_item (invalidate ks s) = st_item s" "st_op (invalidate ks s) = st_op s"
  "st_rt (invalidate ks s) = st_rt s" "st_destroyed (invalidate ks s) = st_destroyed s"
  "st_now (invalidate ks s) = st_now s" "core_at (invalidate ks s) oj = core_at s oj"
  by (simp_all add: invalidate_def)

lemma finish_toast_frame [simp]:
  "st_ops (finish_toast oi n s) = st_ops s" "st_item (finish_toast oi n s) = st_item s"
  "st_op (finish_toast oi n s) = st_op s" "st_destroyed (finish_toast oi n s) = st_destroyed s"
  "st_now (finish_toast oi n s) = st_now s"
  by (auto simp: finish_toast_def Let_def split: option.splits)

lemma arm_clear_frame [simp]:
  "st_ops (arm_clear oi s) = st_ops s" "st_item (arm_clear oi s) = st_item s" "st_op (arm_clear oi s) = st_op s"
  "st_destroyed (arm_clear oi s) = st_destroyed s" "st_now (arm_clear oi s) = st_now s"
  by (auto simp: arm_clear_def Let_def split_beta split: option.splits)

lemma finish_prep_frame [simp]:
  "st_ops (finish_prep oi k s) = st_ops s" "st_item (finish_prep oi k s) = st_item s"
  "st_destroyed (finish_prep oi k s) = st_destroyed s" "st_now (finish_prep oi k s) = st_now s"
  "st_op (finish_prep oi k s) = (st_op s)(oi := map_option (\<lambda>q. q\<lparr>op_endedAt := Some (st_now s),
       op_shown := op_shown q \<or> op_state q = OpPartial \<or> op_state q = OpFailed\<rparr>) (st_op s oi))"
  by (simp_all add: finish_prep_def Let_def)

lemma finish_frame [simp]:
  "st_ops (finish oi n s) = st_ops s" "st_item (finish oi n s) = st_item s"
  "st_destroyed (finish oi n s) = st_destroyed s" "st_now (finish oi n s) = st_now s"
  "st_op (finish oi n s) = (st_op s)(oi := map_option (\<lambda>q. q\<lparr>op_endedAt := Some (st_now s),
       op_shown := op_shown q \<or> op_state q = OpPartial \<or> op_state q = OpFailed\<rparr>) (st_op s oi))"
  by (auto simp: finish_def Let_def split: option.splits)

lemma reopen_frame [simp]:
  "st_ops (reopen oi s) = st_ops s" "st_item (reopen oi s) = st_item s" "st_destroyed (reopen oi s) = st_destroyed s"
  "st_now (reopen oi s) = st_now s"
  "st_op (reopen oi s) = (st_op s)(oi := map_option (\<lambda>q. q\<lparr>op_endedAt := None\<rparr>) (st_op s oi))"
  by (simp_all add: reopen_def)

lemma settle_frame [simp]:
  "st_ops (settle oi s) = st_ops s" "st_item (settle oi s) = st_item s" "st_destroyed (settle oi s) = st_destroyed s"
  "st_now (settle oi s) = st_now s" "oj \<noteq> oi \<Longrightarrow> core_at (settle oi s) oj = core_at s oj"
  by (auto simp: settle_def Let_def core_at_def [of "upd_op _ _ _"] core_at_def [of "finish _ _ _"]
      core_at_def [of "reopen _ _"] split: option.splits) (simp_all add: core_at_def)

section \<open>Settling re-derives the state of an operation from its items\<close>

text \<open>What \<open>settle\<close> makes of an operation, as a function of the operation and its items alone.\<close>

definition settled_op :: "time \<Rightarrow> item list \<Rightarrow> 'i op \<Rightarrow> 'i op" where
  [js_eval]: "settled_op now its p =
     (let p1 = (if list_ex isProblem its then p\<lparr>op_shown := True\<rparr> else p)
      in if op_walking p \<or> list_ex isActiveItem its then
           p1\<lparr>op_state := (if its = [] then OpPreparing else OpRunning), op_endedAt := None\<rparr>
         else if list_ex (\<lambda>i. it_state i = NeedsDecision) its then p1\<lparr>op_state := OpWaiting\<rparr>
         else
           (let p2 = p1\<lparr>op_state := end_state p its\<rparr>
            in if op_endedAt p \<noteq> None then p2
               else p2\<lparr>op_endedAt := Some now,
                       op_shown := op_shown p1 \<or> op_state p2 = OpPartial \<or> op_state p2 = OpFailed\<rparr>))"

lemma settle_core:
  assumes "oi \<in> set (st_ops s)" "st_op s oi = Some p"
  shows "core_at (settle oi s) oi = Some (op_core (settled_op (st_now s) (op_item_list s oi) p))"
proof -
  have st: "end_state (p\<lparr>op_shown := b\<rparr>) its = end_state p its" for b its
    by (simp add: end_state_def)
  show ?thesis using assms
    by (cases "op_endedAt p"; cases "op_walking p";
        simp add: settle_def settled_op_def Let_def core_at_def [of "upd_op _ _ _"] core_at_def [of "finish _ _ _"]
          core_at_def [of "reopen _ _"] st op_core_def)
qed

lemma settle_op:
  assumes "oi \<in> set (st_ops s)" "st_op s oi = Some p"
  obtains q where "st_op (settle oi s) oi = Some q"
    "op_core q = op_core (settled_op (st_now s) (op_item_list s oi) p)"
  using settle_core [OF assms] by (auto simp: core_at_def)

lemma settled_op_ended:
  "op_endedAt (settled_op now its p) = None \<longleftrightarrow>
     op_walking p \<or> list_ex isActiveItem its \<or> (op_endedAt p = None \<and> list_ex (\<lambda>i. it_state i = NeedsDecision) its)"
  by (simp add: settled_op_def Let_def)

lemma settled_op_state:
  "op_state (settled_op now its p) =
     (if op_walking p \<or> list_ex isActiveItem its then (if its = [] then OpPreparing else OpRunning)
      else if list_ex (\<lambda>i. it_state i = NeedsDecision) its then OpWaiting else end_state p its)"
  by (simp add: settled_op_def Let_def)

lemma settled_op_items [simp]:
  "op_items (settled_op now its p) = op_items p" "op_walking (settled_op now its p) = op_walking p"
  "op_kind (settled_op now its p) = op_kind p" "op_id (settled_op now its p) = op_id p"
  "op_policy (settled_op now its p) = op_policy p" "op_cancelled (settled_op now its p) = op_cancelled p"
  "op_source (settled_op now its p) = op_source p" "op_destFolder (settled_op now its p) = op_destFolder p"
  by (simp_all add: settled_op_def Let_def)

text \<open>
  Property C15: after \<open>settle\<close> the state of a listed operation is the one its items call for.
  It counts as running exactly while the walk goes on or an item is active, as waiting when only
  decisions are left, and otherwise as cancelled, failed, partly done or done; it carries an end time
  as soon as nothing is active, walking or waiting for an answer.
\<close>

theorem settle_sound:
  assumes "oi \<in> set (st_ops s)" "st_op s oi = Some p"
  shows "\<exists>q. st_op (settle oi s) oi = Some q
     \<and> op_state q =
         (if op_walking p \<or> list_ex isActiveItem (op_item_list s oi)
          then (if op_item_list s oi = [] then OpPreparing else OpRunning)
          else if list_ex (\<lambda>i. it_state i = NeedsDecision) (op_item_list s oi) then OpWaiting
          else if truthy (op_error p) then OpFailed
          else if op_cancelled p then OpCancelled
          else if \<not> list_ex (\<lambda>i. it_state i = Failed) (op_item_list s oi) then OpDone
          else if done_count (op_item_list s oi) > 0 then OpPartial else OpFailed)
     \<and> (op_endedAt q \<noteq> None \<longrightarrow> op_state q \<notin> {OpPreparing, OpRunning})
     \<and> (op_endedAt q = None \<longrightarrow> op_state q \<in> {OpPreparing, OpRunning, OpWaiting})
     \<and> op_items q = op_items p"
proof -
  obtain q where q: "st_op (settle oi s) oi = Some q"
    "op_core q = op_core (settled_op (st_now s) (op_item_list s oi) p)"
    by (rule settle_op [OF assms])
  then show ?thesis
    by (simp add: op_core_sel [OF q(2)] settled_op_state end_state_def Let_def)
      (auto simp: settled_op_def Let_def)
qed

definition demo_source :: source where
  [js_eval]: "demo_source =
     \<lparr>src_share = None, src_isFile = False, src_stat = True, src_completeUpload = True, src_cancelUpload = True\<rparr>"

text \<open>A store with one upload of one finished and one failed file.\<close>

definition demo_store :: store where
  [js_eval]: "demo_store =
     (init_store (lit ''t'') 5000)\<lparr>
        st_op := [0 \<mapsto> (makeOp (lit ''op_t1'') 10 demo_source Upload (lit ''d''))\<lparr>op_items := [1, 2]\<rparr>],
        st_item := [1 \<mapsto> (makeItem (lit ''it_t2'') (lit ''a''))\<lparr>it_state := Done, it_size := 7\<rparr>,
                    2 \<mapsto> (makeItem (lit ''it_t3'') (lit ''b''))\<lparr>it_state := Failed\<rparr>],
        st_ops := [0], st_next := 3, st_seq := 3\<rparr>"

lemma demo_store_parts:
  "0 \<in> set (st_ops demo_store)"
  "st_op demo_store 0 = Some ((makeOp (lit ''op_t1'') 10 demo_source Upload (lit ''d''))\<lparr>op_items := [1, 2]\<rparr>)"
  "op_item_list demo_store 0 = [(makeItem (lit ''it_t2'') (lit ''a''))\<lparr>it_state := Done, it_size := 7\<rparr>,
     (makeItem (lit ''it_t3'') (lit ''b''))\<lparr>it_state := Failed\<rparr>]"
  by (simp_all add: demo_store_def op_item_list_def List.map_filter_def makeOp_def)

theorem settle_sound_witness:
  "\<exists>q. st_op (settle 0 demo_store) 0 = Some q \<and> op_state q = OpPartial \<and> op_endedAt q \<noteq> None"
  using settle_sound [OF demo_store_parts(1) demo_store_parts(2)]
  by (auto simp: demo_store_parts(3) done_count_def isActiveItem_def ACTIVE_def makeOp_def truthy_def makeItem_def)

section \<open>Published snapshots\<close>

text \<open>
  The published state is built from cached snapshots. A cache entry is right when it shows the live
  object; \<open>touch\<close> drops the entries of what a change made stale.
\<close>

definition live_view :: "store \<Rightarrow> oref \<Rightarrow> op_view option" where
  "live_view s oi = map_option (\<lambda>p. with_items (List.map_filter (st_item s) (op_items p)) p) (st_op s oi)"

definition coherent :: "store \<Rightarrow> bool" where
  "coherent s \<longleftrightarrow>
     (\<forall>i x. st_itemSnap s i = Some x \<longrightarrow> st_item s i = Some x)
   \<and> (\<forall>oi v. st_opSnap s oi = Some v \<longrightarrow> live_view s oi = Some v)"

lemma init_coherent [simp]: "coherent (init_store tag now)"
  by (simp add: coherent_def init_store_def)

lemma snapItem_live: "coherent s \<Longrightarrow> snapItem s i = st_item s i"
  by (auto simp: coherent_def snapItem_def split: option.splits)

lemma snapOp_live: "coherent s \<Longrightarrow> snapOp s oi = live_view s oi"
proof -
  assume c: "coherent s"
  then have "snapItem s = st_item s" by (auto simp: snapItem_live)
  moreover have "st_opSnap s oi = Some v \<Longrightarrow> live_view s oi = Some v" for v using c by (simp add: coherent_def)
  ultimately show ?thesis by (cases "st_opSnap s oi") (auto simp: snapOp_def live_view_def)
qed

lemma fold_recompute_other: "oi \<notin> set ois \<Longrightarrow> st_op (fold recompute_op ois s) oi = st_op s oi"
  by (induction ois arbitrary: s) (auto simp: recompute_op_def)

lemma fill_caches_coherent: "coherent s \<Longrightarrow> coherent (fill_caches s)"
proof -
  assume c: "coherent s"
  have l: "live_view (fill_caches s) oi = live_view s oi" for oi
    by (simp add: live_view_def fill_caches_def)
  show ?thesis
    using c snapItem_live [OF c] snapOp_live [OF c]
    by (auto simp: coherent_def l split: if_splits) (auto simp: fill_caches_def split: if_splits)
qed

text \<open>The state from which \<open>flush\<close> takes its snapshots.\<close>

definition pre_snap :: "store \<Rightarrow> store" where
  "pre_snap s =
     (let s2 = (clear_opt (st_trailing s) s)\<lparr>st_trailing := None, st_lastEmit := Some (st_now s)\<rparr>;
          s3 = fold recompute_op (st_dirty s) s2
      in s3\<lparr>st_opSnap := (\<lambda>oi. if oi \<in> set (st_dirty s) then None else st_opSnap s oi), st_dirty := []\<rparr>)"

lemma flush_pre_snap:
  "flush s = eff Emitted ((fill_caches (pre_snap s))\<lparr>st_state := List.map_filter (snapOp (pre_snap s)) (st_ops s)\<rparr>)"
  by (simp add: flush_def pre_snap_def Let_def cong: if_cong)

lemma pre_snap_coherent: "coherent s \<Longrightarrow> coherent (pre_snap s)"
  by (auto simp: coherent_def pre_snap_def Let_def live_view_def fold_recompute_other)

lemma flush_live: "live_view (flush s) oi = live_view (pre_snap s) oi"
  by (simp add: flush_pre_snap live_view_def fill_caches_def)

lemma flush_coherent: "coherent s \<Longrightarrow> coherent (flush s)"
proof -
  assume "coherent s"
  then have "coherent (fill_caches (pre_snap s))" by (intro fill_caches_coherent pre_snap_coherent)
  then show ?thesis by (simp add: flush_pre_snap coherent_def live_view_def eff_def)
qed

lemma emit_coherent: "coherent s \<Longrightarrow> coherent (emit urgent s)"
  by (rule emit_cases [of urgent s]) (simp_all add: flush_coherent, simp add: coherent_def live_view_def setTimer_def Let_def)

lemma flush_publishes:
  assumes "coherent s"
  shows "st_state (flush s) = List.map_filter (live_view (flush s)) (st_ops (flush s))"
proof -
  have "live_view (flush s) = live_view (pre_snap s)" by (rule ext) (rule flush_live)
  moreover have "snapOp (pre_snap s) = live_view (pre_snap s)"
    by (rule ext) (rule snapOp_live [OF pre_snap_coherent [OF assms]])
  ultimately show ?thesis by (simp add: flush_pre_snap eff_def fill_caches_def same_objs_fields [OF flush_same])
      (simp add: pre_snap_def Let_def)
qed

text \<open>An item is shown by one operation only.\<close>

definition owned_by :: "store \<Rightarrow> oref \<Rightarrow> iref \<Rightarrow> bool" where
  "owned_by s oi i \<longleftrightarrow> (\<forall>oj p. oj \<noteq> oi \<longrightarrow> st_op s oj = Some p \<longrightarrow> i \<notin> set (op_items p))"

lemma map_filter_cong: "(\<And>x. x \<in> set xs \<Longrightarrow> f x = g x) \<Longrightarrow> List.map_filter f xs = List.map_filter g xs"
  by (induction xs) (auto simp: List.map_filter_def)

lemma touch_item_coherent:
  assumes "coherent s" "owned_by s oi i"
  shows "coherent (touch oi (Some i) (upd_item i f s))"
proof -
  have "live_view (touch oi (Some i) (upd_item i f s)) oj = live_view s oj" if "oj \<noteq> oi" for oj
    using assms(2) that
    by (auto simp: live_view_def owned_by_def intro!: arg_cong2 [where f = with_items] map_filter_cong
        split: option.splits simp: map_option_case)
  then show ?thesis using assms(1) by (auto simp: coherent_def touch_def Let_def split: if_splits)
qed

lemma touch_op_coherent:
  assumes "coherent s"
  shows "coherent (touch oi None (upd_op oi f s))"
  using assms by (auto simp: coherent_def touch_def Let_def live_view_def split: if_splits)

text \<open>
  A change of an item's state is published at once, and truthfully. When the caches are
  right and the item belongs to the operation, patching the item so that its state changes makes the
  published list equal to the live operations, patched item included, and leaves the caches right.
\<close>

theorem patchItem_publishes:
  assumes "coherent s" "owned_by s oi i" "\<not> st_destroyed s"
    and "st_item s i = Some x" "it_state (f x) \<noteq> it_state x"
  shows "st_state (patchItem oi i f s) = List.map_filter (live_view (patchItem oi i f s)) (st_ops s)
       \<and> st_item (patchItem oi i f s) i = Some (f x)
       \<and> coherent (patchItem oi i f s)"
proof -
  have e: "patchItem oi i f s = flush (touch oi (Some i) (upd_item i f s))"
    using assms(3-5) by (simp add: patchItem_u_def emit_def)
  show ?thesis
    using flush_publishes [OF touch_item_coherent [OF assms(1,2)]] flush_coherent [OF touch_item_coherent [OF assms(1,2)]] assms(4)
    by (simp add: e same_objs_fields [OF flush_same])
qed

lemma map_option_demo [simp]: "(if b then Some x else None) = Some y \<longleftrightarrow> b \<and> x = y"
  by simp

theorem patchItem_publishes_witness:
  "st_state (patchItem 0 2 (\<lambda>x. x\<lparr>it_state := Queued\<rparr>) demo_store)
     = List.map_filter (live_view (patchItem 0 2 (\<lambda>x. x\<lparr>it_state := Queued\<rparr>) demo_store)) [0]
   \<and> map_option it_state (st_item (patchItem 0 2 (\<lambda>x. x\<lparr>it_state := Queued\<rparr>) demo_store) 2) = Some Queued"
  using patchItem_publishes [of demo_store 0 2 "(makeItem (lit ''it_t3'') (lit ''b''))\<lparr>it_state := Failed\<rparr>"
      "\<lambda>x. x\<lparr>it_state := Queued\<rparr>"]
  by (simp add: coherent_def owned_by_def demo_store_def init_store_def)

lemma flush_trailing: "st_trailing (flush s) = None"
  by (simp add: flush_def Let_def eff_def fill_caches_def)

text \<open>
  Progress is throttled and never lost. A non-urgent emit on a live store either
  publishes at once, or a trailing emit is pending; one it arms is due exactly \<^const>\<open>EMIT_MS\<close>
  milliseconds after the last publication.
\<close>

theorem emit_throttle:
  assumes "\<not> st_destroyed s" "st_lastEmit s = Some prev" "prev \<le> st_now s"
  shows "if st_now s \<ge> prev + EMIT_MS then st_state (emit False s) = st_state (flush s) \<and> st_trailing (emit False s) = None
         else st_state (emit False s) = st_state s \<and> st_lastEmit (emit False s) = Some prev
           \<and> (if st_trailing s = None
              then \<exists>t. st_trailing (emit False s) = Some t \<and> (t, prev + EMIT_MS, TrailingEmit) \<in> set (st_timers (emit False s))
              else emit False s = s)"
  using assms by (auto simp: emit_def Let_def setTimer_def flush_trailing)

theorem emit_throttle_witness:
  "st_state (emit False (demo_store\<lparr>st_lastEmit := Some 4950\<rparr>)) = []
   \<and> (\<exists>t. (t, 5050, TrailingEmit) \<in> set (st_timers (emit False (demo_store\<lparr>st_lastEmit := Some 4950\<rparr>))))"
  using emit_throttle [of "demo_store\<lparr>st_lastEmit := Some 4950\<rparr>" 4950]
  by (auto simp: demo_store_def init_store_def EMIT_MS_def)

section \<open>Toasts and haptics\<close>

text \<open>
  The messages a state has shown, in order. Only \<open>finish\<close> shows one.
\<close>

definition toasts :: "store \<Rightarrow> jstring list" where
  "toasts s = List.map_filter (\<lambda>e. case e of ToastShown m \<Rightarrow> Some m | _ \<Rightarrow> None) (st_log s)"

definition buzzes :: "buzz \<Rightarrow> store \<Rightarrow> nat" where
  "buzzes k s = count_list (st_log s) (Buzzed k)"

lemma map_filter_append [simp]: "List.map_filter f (xs @ ys) = List.map_filter f xs @ List.map_filter f ys"
  by (induction xs) (auto simp: List.map_filter_def)

lemma toasts_eff [simp]: "toasts (eff e s) = toasts s @ (case e of ToastShown m \<Rightarrow> [m] | _ \<Rightarrow> [])"
  by (cases e) (simp_all add: toasts_def eff_def List.map_filter_def)

lemma toasts_same_log: "st_log s = st_log t \<Longrightarrow> toasts s = toasts t"
  by (simp add: toasts_def)

lemma toasts_emit [simp]: "toasts (emit urgent s) = toasts s"
  by (rule emit_cases [of urgent s])
    (simp_all add: flush_def Let_def fill_caches_def setTimer_def toasts_def eff_def List.map_filter_def)

lemma toasts_touch [simp]: "toasts (touch oi i s) = toasts s"
  by (rule toasts_same_log) (simp add: touch_def Let_def split: option.splits)

lemma toasts_upd [simp]:
  "toasts (upd_op oi f s) = toasts s" "toasts (upd_item i g s) = toasts s" "toasts (upd_rt oi h s) = toasts s"
  "toasts (clear_opt t s) = toasts s" "toasts (snd (setTimer a ms s)) = toasts s"
  by (rule toasts_same_log; simp add: upd_op_def upd_item_def upd_rt_def setTimer_def Let_def)+

lemma toasts_fold_invalidated [simp]: "toasts (fold (\<lambda>f. eff (Invalidated (g f))) xs s) = toasts s"
  by (induction xs arbitrary: s) simp_all

lemma toasts_flushFolders [simp]: "toasts (flushFolders oi s) = toasts s"
  by (simp add: flushFolders_def split: option.splits)

lemma toasts_invalidate [simp]: "toasts (invalidate ks s) = toasts s"
  using toasts_fold_invalidated [of "\<lambda>k. k"] by (simp add: invalidate_def)

lemma toasts_arm_clear [simp]: "toasts (arm_clear oi s) = toasts s"
  by (simp add: arm_clear_def Let_def split_beta split: option.splits)

lemma rt_toasted_kept [simp]:
  "r_toasted (st_rt (flushFolders oi s) oj) = r_toasted (st_rt s oj)"
  "r_toasted (st_rt (arm_clear oi s) oj) = r_toasted (st_rt s oj)"
  by (simp_all add: flushFolders_def arm_clear_def Let_def split_beta split: option.splits)

lemma finish_toast_once:
  assumes "st_op s oi = Some p"
  shows "toasts (finish_toast oi n s) = toasts s
    \<or> (\<exists>m. m \<noteq> [] \<and> toasts (finish_toast oi n s) = toasts s @ [m] \<and> \<not> r_toasted (st_rt s oi) \<and> n > 0
         \<and> op_state p \<noteq> OpCancelled \<and> op_state p \<noteq> OpFailed \<and> r_toasted (st_rt (finish_toast oi n s) oi))"
  using assms by (simp add: finish_toast_def Let_def split: option.splits)

lemma finish_prep_toasts [simp]:
  "toasts (finish_prep oi k s) = toasts s" "r_toasted (st_rt (finish_prep oi k s) oi) = r_toasted (st_rt s oi)"
  by (simp_all add: finish_prep_def Let_def)

lemma finish_once:
  assumes "st_op s oi = Some p"
  shows "toasts (finish oi n s) = toasts s
    \<or> (\<exists>m. m \<noteq> [] \<and> toasts (finish oi n s) = toasts s @ [m] \<and> \<not> r_toasted (st_rt s oi) \<and> n > 0
         \<and> op_state p \<noteq> OpCancelled \<and> op_state p \<noteq> OpFailed \<and> r_toasted (st_rt (finish oi n s) oi))"
proof -
  let ?p = "p\<lparr>op_endedAt := Some (st_now s), op_shown := op_shown p \<or> op_state p = OpPartial \<or> op_state p = OpFailed\<rparr>"
  have "st_op (finish_prep oi (op_kind p) s) oi = Some ?p" using assms by simp
  from finish_toast_once [OF this, of n] show ?thesis using assms by (auto simp: finish_def Let_def)
qed

text \<open>
  A finished operation is announced at most once, and never falsely. One call of
  \<open>settle\<close> shows at most one success message; when it does, at least one file was really done,
  the operation neither failed nor was cancelled, and no message had been shown since it last ran.
\<close>

theorem settle_toast_sound:
  assumes "st_op s oi = Some p"
  shows "toasts (settle oi s) = toasts s
    \<or> (\<exists>m. m \<noteq> [] \<and> toasts (settle oi s) = toasts s @ [m] \<and> \<not> r_toasted (st_rt s oi)
         \<and> done_count (op_item_list s oi) > 0 \<and> \<not> op_walking p \<and> \<not> list_ex isActiveItem (op_item_list s oi)
         \<and> \<not> op_cancelled p \<and> \<not> truthy (op_error p) \<and> op_endedAt p = None
         \<and> r_toasted (st_rt (settle oi s) oi))"
proof (cases "oi \<in> set (st_ops s) \<and> \<not> op_walking p \<and> \<not> list_ex isActiveItem (op_item_list s oi)
     \<and> \<not> list_ex (\<lambda>i. it_state i = NeedsDecision) (op_item_list s oi) \<and> op_endedAt p = None")
  case False
  then show ?thesis using assms by (auto simp: settle_def Let_def reopen_def)
next
  case True
  let ?its = "op_item_list s oi"
  let ?s1 = "if list_ex isProblem ?its then upd_op oi (\<lambda>q. q\<lparr>op_shown := True\<rparr>) s else s"
  let ?s2 = "upd_op oi (\<lambda>q. q\<lparr>op_state := end_state q ?its\<rparr>) ?s1"
  obtain q where q: "st_op ?s2 oi = Some q" "op_state q = end_state p ?its"
    using assms by (cases "list_ex isProblem ?its") (simp_all add: end_state_def)
  have st: "settle oi s = emit True (touch oi None (finish oi (done_count ?its) ?s2))"
    using True assms by (simp add: settle_def Let_def)
  have ts: "toasts ?s2 = toasts s" "st_rt ?s2 = st_rt s" by simp_all
  show ?thesis
    using finish_once [OF q(1), of "done_count ?its"] True q(2) unfolding st
    by (auto simp: ts end_state_def Let_def split: if_splits)
qed

theorem settle_toast_sound_witness:
  "length (toasts (settle 0 demo_store)) \<le> 1"
  using settle_toast_sound [OF demo_store_parts(2)] by (auto simp: toasts_def demo_store_def init_store_def)

text \<open>
  The phone buzzes at most once per operation, kind and gap. \<open>notify\<close> buzzes
  exactly when no buzz of that kind happened in the last \<^const>\<open>HAPTIC_GAP_MS\<close> milliseconds,
  and then remembers the time, so that another call before the gap is over stays silent.
\<close>

theorem notify_rate:
  assumes "st_now s \<le> st_now t" "st_now t < st_now s + HAPTIC_GAP_MS"
    and "r_hapticAt (st_rt t oi) k = r_hapticAt (st_rt (notify oi k s) oi) k"
    and "case r_hapticAt (st_rt s oi) k of None \<Rightarrow> True | Some b \<Rightarrow> st_now s \<ge> b + HAPTIC_GAP_MS"
  shows "buzzes k (notify oi k s) = Suc (buzzes k s) \<and> notify oi k t = t"
  using assms by (auto simp: notify_def Let_def buzzes_def split: option.splits)

theorem notify_rate_witness:
  "buzzes Error (notify 0 Error demo_store) = 1
   \<and> notify 0 Error ((notify 0 Error demo_store)\<lparr>st_now := 6999\<rparr>) = (notify 0 Error demo_store)\<lparr>st_now := 6999\<rparr>"
  using notify_rate [of demo_store "(notify 0 Error demo_store)\<lparr>st_now := 6999\<rparr>" 0 Error]
  by (simp add: demo_store_def init_store_def HAPTIC_GAP_MS_def init_rt_def buzzes_def)

section \<open>What no runner changes\<close>

text \<open>
  Most of what the runners do leaves the list of operations, the membership of items and the
  identity of every object alone. \<open>keeps s t\<close> says so of a step from \<open>s\<close> to \<open>t\<close>.
\<close>

definition op_static :: "'i op \<Rightarrow> jstring \<times> op_kind \<times> source \<times> jstring \<times> jstring \<times> jstring \<times> 'i list" where
  [js_eval]: "op_static p =
     (op_id p, op_kind p, op_source p, op_driveId p, op_destDriveId p, op_destFolder p, op_items p)"

definition item_static :: "item \<Rightarrow> jstring \<times> jstring \<times> jstring \<times> jstring \<times> objref option \<times> bool" where
  [js_eval]: "item_static x = (it_id x, it_name x, it_relPath x, it_destPath x, it_file x, it_isDir x)"

definition keeps :: "store \<Rightarrow> store \<Rightarrow> bool" where
  "keeps s t \<longleftrightarrow> st_ops t = st_ops s \<and> st_destroyed t = st_destroyed s \<and> st_now t = st_now s \<and> st_next s \<le> st_next t
     \<and> (\<forall>oi. map_option op_static (st_op t oi) = map_option op_static (st_op s oi))
     \<and> (\<forall>i. map_option item_static (st_item t i) = map_option item_static (st_item s i))"

lemma keeps_refl [simp, intro]: "keeps s s"
  by (simp add: keeps_def)

lemma keeps_trans [trans]: "keeps s t \<Longrightarrow> keeps t u \<Longrightarrow> keeps s u"
  by (simp add: keeps_def)

lemma op_static_core: "op_static (op_core p) = op_static p"
  by (simp add: op_static_def op_core_def)

lemma core_at_static: "core_at t oi = core_at s oi \<Longrightarrow> map_option op_static (st_op t oi) = map_option op_static (st_op s oi)"
  by (auto simp: core_at_def map_option_case split: option.splits) (metis op_static_core)

lemma keepsI:
  assumes "same_objs t s" "st_next s \<le> st_next t"
  shows "keeps s t"
proof -
  have "map_option op_static (st_op t oi) = map_option op_static (st_op s oi)" for oi
    by (rule core_at_static) (rule same_objs_fields(7) [OF assms(1)])
  then show ?thesis using assms by (simp add: keeps_def same_objs_def)
qed

lemma st_next_flush [simp]: "st_next (flush s) = st_next s"
  by (simp add: flush_def Let_def eff_def fill_caches_def)

lemma keeps_emit [simp, intro]: "keeps s (emit urgent s)"
  by (rule keepsI [OF emit_same]) (rule emit_cases [of urgent s]; simp add: setTimer_def Let_def)

lemma keeps_simple [simp, intro]:
  "keeps s (touch oi i s)" "keeps s (clear_opt t s)" "keeps s (eff e s)" "keeps s (upd_rt oi h s)"
  "keeps s (snd (setTimer a ms s))" "keeps s (snd (new_ref s))"
  by (auto simp: keeps_def touch_def Let_def clear_opt_def clearTimer_def eff_def upd_rt_def setTimer_def new_ref_def
      split: option.splits)

lemma keeps_upd_item [intro]: "(\<And>x. item_static (f x) = item_static x) \<Longrightarrow> keeps s (upd_item i f s)"
  by (auto simp: keeps_def upd_item_def option.map_comp o_def)

lemma keeps_upd_op [intro]: "(\<And>p. op_static (f p) = op_static p) \<Longrightarrow> keeps s (upd_op oi f s)"
  by (auto simp: keeps_def upd_op_def option.map_comp o_def)

lemma keeps_patchItem [intro]:
  assumes "\<And>x. item_static (f x) = item_static x"
  shows "keeps s (patchItem_u urgent oi i f s)"
proof -
  have "keeps s (upd_item i f s)" using assms by blast
  also have "keeps (upd_item i f s) (touch oi (Some i) (upd_item i f s))" by simp
  finally show ?thesis unfolding patchItem_u_def Let_def using keeps_trans keeps_emit by blast
qed

lemma keeps_patchOp [intro]: "(\<And>p. op_static (f p) = op_static p) \<Longrightarrow> keeps s (patchOp oi f s)"
  unfolding patchOp_def by (meson keeps_trans keeps_emit keeps_simple(1) keeps_upd_op)

lemma keeps_notify [simp, intro]: "keeps s (notify oi k s)"
  unfolding notify_def Let_def by (auto intro: keeps_trans [OF keeps_simple(4) keeps_simple(3)])

lemma keeps_fold_eff [simp, intro]: "keeps s (fold (\<lambda>x. eff (g x)) xs s)"
proof (induction xs arbitrary: s)
  case (Cons x xs)
  show ?case using keeps_trans [OF keeps_simple(3) Cons.IH] by simp
qed simp

lemma keeps_flushFolders [simp, intro]: "keeps s (flushFolders oi s)"
  unfolding flushFolders_def by (auto split: option.splits intro: keeps_trans [OF keeps_fold_eff keeps_simple(4)])

lemma keeps_invalidate [simp, intro]: "keeps s (invalidate ks s)"
  unfolding invalidate_def by (rule keeps_fold_eff)

lemma keeps_setTimer_rt: "keeps s (upd_rt oi h (snd (setTimer a ms s)))"
  by (rule keeps_trans [OF keeps_simple(5) keeps_simple(4)])

lemma keeps_noteFolder [simp, intro]: "keeps s (noteFolder oi f s)"
  unfolding noteFolder_def Let_def split_beta
  by (auto split: option.splits intro: keeps_trans [OF keeps_simple(4) keeps_setTimer_rt])

lemma keeps_finish_toast [simp, intro]: "keeps s (finish_toast oi n s)"
  unfolding finish_toast_def Let_def
  by (auto split: option.splits intro: keeps_trans [OF keeps_simple(4) keeps_simple(3)])

lemma keeps_arm_clear [simp, intro]: "keeps s (arm_clear oi s)"
  unfolding arm_clear_def Let_def split_beta
  by (auto split: option.splits intro: keeps_trans [OF keeps_simple(2) keeps_setTimer_rt])

lemma keeps_finish_prep [simp, intro]: "keeps s (finish_prep oi k s)"
proof -
  let ?s1 = "upd_op oi (\<lambda>q. q\<lparr>op_endedAt := Some (st_now s),
     op_shown := op_shown q \<or> op_state q = OpPartial \<or> op_state q = OpFailed\<rparr>) s"
  have "keeps s ?s1" by (rule keeps_upd_op) (simp add: op_static_def)
  moreover have "keeps ?s1 (finish_prep oi k s)"
    unfolding finish_prep_def Let_def
    by (cases "is_upload k") (simp_all, (meson keeps_trans keeps_invalidate keeps_flushFolders keeps_simple)+)
  ultimately show ?thesis by (rule keeps_trans)
qed

lemma keeps_finish [simp, intro]: "keeps s (finish oi n s)"
proof (cases "st_op s oi")
  case (Some p)
  have "keeps s (finish_toast oi n (finish_prep oi (op_kind p) s))"
    by (rule keeps_trans [OF keeps_finish_prep keeps_finish_toast])
  then show ?thesis using Some unfolding finish_def Let_def
    by (auto intro: keeps_trans [OF _ keeps_arm_clear] keeps_trans [OF _ keeps_trans [OF keeps_simple(3) keeps_arm_clear]])
qed (simp add: finish_def)

lemma keeps_reopen [simp, intro]: "keeps s (reopen oi s)"
  unfolding reopen_def
  by (rule keeps_trans [OF keeps_trans [OF keeps_upd_op keeps_simple(2)] keeps_simple(4)]) (simp add: op_static_def)

lemma keeps_upd_op_after: "keeps s t \<Longrightarrow> (\<And>p. op_static (f p) = op_static p) \<Longrightarrow> keeps s (upd_op oi f t)"
  by (rule keeps_trans) auto

lemma keeps_upd_item_after: "keeps s t \<Longrightarrow> (\<And>x. item_static (f x) = item_static x) \<Longrightarrow> keeps s (upd_item i f t)"
  by (rule keeps_trans) auto

lemma keeps_patchItem_after:
  "keeps s t \<Longrightarrow> (\<And>x. item_static (f x) = item_static x) \<Longrightarrow> keeps s (patchItem_u urgent oi i f t)"
  by (rule keeps_trans) auto

lemma keeps_patchOp_after: "keeps s t \<Longrightarrow> (\<And>p. op_static (f p) = op_static p) \<Longrightarrow> keeps s (patchOp oi f t)"
  by (rule keeps_trans) auto

lemma keeps_if: "(c \<Longrightarrow> keeps s a) \<Longrightarrow> (\<not> c \<Longrightarrow> keeps s b) \<Longrightarrow> keeps s (if c then a else b)"
  by simp

lemma keeps_settle [simp, intro]: "keeps s (settle oi s)"
proof (cases "oi \<in> set (st_ops s)")
  case True
  let ?its = "op_item_list s oi"
  let ?s1 = "if list_ex isProblem ?its then upd_op oi (\<lambda>q. q\<lparr>op_shown := True\<rparr>) s else s"
  have 1: "keeps s ?s1" by (auto intro!: keeps_upd_op simp: op_static_def)
  have 2: "keeps s (upd_op oi (\<lambda>q. q\<lparr>op_state := g q\<rparr>) ?s1)" for g :: "iref op \<Rightarrow> op_state"
    by (rule keeps_upd_op_after [OF 1]) (simp add: op_static_def)
  have 4: "keeps s t \<Longrightarrow> keeps s (emit True (touch oi None t))" for t
    by (meson keeps_trans keeps_simple(1) keeps_emit)
  show ?thesis
  proof (cases "st_op s oi")
    case (Some p)
    show ?thesis
      unfolding settle_def Let_def Some option.case
      by (intro keeps_if keeps_refl 4 2 keeps_trans [OF 2 keeps_reopen] keeps_trans [OF 2 keeps_finish])
  qed (simp add: settle_def)
qed (simp add: settle_def)

lemma keeps_after:
  assumes "keeps s t"
  shows "keeps s (settle oi t)" "keeps s (finish oi n t)" "keeps s (notify oi k t)" "keeps s (noteFolder oi f t)"
    "keeps s (invalidate ks t)" "keeps s (flushFolders oi t)" "keeps s (emit urgent t)" "keeps s (touch oi i t)"
    "keeps s (eff e t)" "keeps s (upd_rt oi h t)" "keeps s (clear_opt tm t)" "keeps s (snd (setTimer a ms t))"
    "keeps s (snd (new_ref t))"
  by (rule keeps_trans [OF assms], simp)+

text \<open>The rules that follow a handler's body from its last call to its first.\<close>

lemmas keeps_intros = keeps_after keeps_upd_op_after keeps_upd_item_after keeps_patchItem_after keeps_patchOp_after

lemma keeps_op: "keeps s t \<Longrightarrow> st_op t oi = None \<longleftrightarrow> st_op s oi = None"
  by (simp add: keeps_def) (metis option.map_disc_iff)

lemma keeps_op_Some:
  "keeps s t \<Longrightarrow> st_op s oi = Some p \<Longrightarrow> \<exists>q. st_op t oi = Some q \<and> op_static q = op_static p"
  by (simp add: keeps_def) (metis map_option_eq_Some)

lemma keeps_item: "keeps s t \<Longrightarrow> st_item t i = None \<longleftrightarrow> st_item s i = None"
  by (simp add: keeps_def) (metis option.map_disc_iff)

lemma keeps_item_Some:
  "keeps s t \<Longrightarrow> st_item s i = Some x \<Longrightarrow> \<exists>y. st_item t i = Some y \<and> item_static y = item_static x"
  by (simp add: keeps_def) (metis map_option_eq_Some)

end
