(* ===== verification/UploadRunner.thy ===== *)
theory UploadRunner
  imports OpStore
begin

text \<open>
  \<open>luna/web/src/lib/fileOps/uploadRunner.js\<close>: one pool of uploads for the whole tab, the name
  check before any bytes move, decisions on name clashes and the making of empty folders.

  The functions of the source are asynchronous. Each is cut at its \<open>await\<close>s: what runs without
  interruption is one function here, and what is still awaited is data of the runner's state
  (\<open>u_prep\<close>, \<open>u_mk\<close>, \<open>u_runs\<close>, \<open>u_walks\<close>), resumed by an event. What the
  source's calls answer (listings, uploads, new folders) is an argument of the event.
\<close>

section \<open>State\<close>

record file_obj =
  f_ref :: objref
  f_name :: jstring
  f_rel :: jstring
  f_size :: nat

record upload_input =
  in_entries :: "(jstring \<times> bool) list option"
  in_dropFiles :: "file_obj list"
  in_files :: "file_obj list option"

type_synonym dir_entry = "jstring \<times> bool"
type_synonym listing = "jstring \<Rightarrow> dir_entry list option"
type_synonym name_cache = "jstring \<rightharpoonup> name_map option"

datatype run_phase = Sending | RunEnded

record run_state =
  ru_id :: nat
  ru_op :: oref
  ru_item :: iref
  ru_size :: nat
  ru_phase :: run_phase

datatype mk_phase = MkWait | StatWait

record mk_state =
  mk_id :: nat
  mk_op :: oref
  mk_item :: iref
  mk_path :: jstring
  mk_part :: jstring
  mk_rest :: "jstring list"
  mk_made :: nat
  mk_phase :: mk_phase

record uploads =
  u_ready :: "(oref \<times> iref) list"
  u_active :: nat
  u_prep :: "(oref \<times> iref) list"
  u_mk :: "mk_state list"
  u_runs :: "run_state list"
  u_walks :: "(oref \<times> objref) list"

definition init_uploads :: uploads where
  [js_eval]: "init_uploads = \<lparr>u_ready = [], u_active = 0, u_prep = [], u_mk = [], u_runs = [], u_walks = []\<rparr>"

type_synonym ust = "store \<times> uploads"

section \<open>Names\<close>

text \<open>\<open>replace(/^\\/+/, "").split("/").filter(Boolean)\<close>: the leading slashes give empty parts only.\<close>

definition rel_parts :: "jstring \<Rightarrow> jstring list" where
  [js_eval]: "rel_parts relPath = filter (\<lambda>p. p \<noteq> []) (split_on slash (dropWhile (\<lambda>c. c = slash) relPath))"

definition splitRel :: "jstring \<Rightarrow> jstring \<times> jstring" where
  [js_eval]: "splitRel relPath =
     (let parts = rel_parts relPath
      in if parts = [] then ([], lit ''file'') else (join [slash] (butlast parts), last parts))"

definition dest_path :: "jstring \<Rightarrow> jstring \<Rightarrow> jstring" where
  [js_eval]: "dest_path destFolder dir = (if dir \<noteq> [] then joinPath destFolder dir else destFolder)"

definition list_names :: "dir_entry list option \<Rightarrow> name_map option" where
  [js_eval]: "list_names es =
     map_option (foldl (\<lambda>m (n, isDir). if n \<noteq> [] then m(n \<mapsto> (if isDir then DirEntry else FileEntry)) else m) Map.empty) es"

text \<open>
  \<open>knownNames\<close>, with the cache of promises as a cache of their values: a promise is asked for
  once, whoever awaits it later gets the same answer. \<open>ls\<close> is what \<open>listDir\<close> answers
  (\<^const>\<open>None\<close>: it throws). A path outside the operation's folder ends at the empty path, which
  is its own parent: there the source recurses until the engine's stack limit throws, and its
  \<open>catch\<close> gives null.
\<close>

function known_names :: "listing \<Rightarrow> jstring \<Rightarrow> jstring \<Rightarrow> name_cache \<Rightarrow> name_map option \<times> name_cache" where
  "known_names ls base dest c =
     (case c dest of
        Some v \<Rightarrow> (v, c)
      | None \<Rightarrow>
          (let (v, c1) =
             (if dest = base then (list_names (ls dest), c)
              else if dest = [] then (None, c)
              else
                (let parent = parent_or_root dest;
                     (names, c1) = known_names ls base parent c
                 in case names of
                      None \<Rightarrow> (None, c1)
                    | Some m \<Rightarrow>
                        if m (drop (if parent \<noteq> [] then length parent + 1 else 0) dest) \<noteq> Some DirEntry
                        then (Some Map.empty, c1)
                        else (list_names (ls dest), c1)))
           in (v, c1(dest \<mapsto> v))))"
  by pat_completeness auto
termination
proof (relation "measure (\<lambda>(ls, base, dest, c). length dest)")
  fix ls :: listing and base dest :: jstring and c :: name_cache and x
  assume "dest \<noteq> []" "x = parent_or_root dest"
  then show "((ls, base, x, c), (ls, base, dest, c)) \<in> measure (\<lambda>(ls, base, dest, c). length dest)"
    by (auto simp: parent_or_root_def dest: parentPath_shorter split: option.splits)
qed simp

declare known_names.simps [simp del, js_eval]

section \<open>Ending a chunked session\<close>

definition endSession :: "oref \<Rightarrow> iref \<Rightarrow> store \<Rightarrow> store" where
  [js_eval]: "endSession oi i s =
     (case (st_op s oi, st_item s i) of
        (Some p, Some x) \<Rightarrow>
          (let s1 = (case it_uploadId x of
                       Some uid \<Rightarrow>
                         if uid \<noteq> [] \<and> it_completeOnly x \<and> src_cancelUpload (op_source p)
                         then eff (SessionDropped (op_driveId p) uid) s else s
                     | None \<Rightarrow> s)
           in upd_item i (\<lambda>y. y\<lparr>it_uploadId := None, it_completeOnly := False\<rparr>) s1)
      | _ \<Rightarrow> s)"

section \<open>The pool\<close>

text \<open>The failed row of \<open>handleError\<close> (its last statement).\<close>

definition fail_upload :: "oref \<Rightarrow> iref \<Rightarrow> classified \<Rightarrow> store \<Rightarrow> store" where
  [js_eval]: "fail_upload oi i c s =
     notify oi Error (patchItem oi i (\<lambda>x. x\<lparr>it_state := Failed, it_abort := None, it_retrying := False,
       it_error := Some (c_message c), it_retryable := c_retryable c, it_offline := c_offline c\<rparr>) s)"

text \<open>\<open>new Error("This link can't finish an upload.")\<close>: no status, no code, not an abort.\<close>

definition no_complete_error :: failure where
  [js_eval]: "no_complete_error =
     Some \<lparr>e_api = False, e_abort = False, e_status = None, e_code = None,
           e_message = lit ''This link can't finish an upload.'', e_existing_kind = None,
           e_completeOnly = False, e_uploadId = None\<rparr>"

text \<open>
  \<open>run\<close> up to its \<open>await\<close>. A source without \<open>completeUpload\<close> makes it throw before
  that: the error goes to \<open>handleError\<close>, whose only branch for it is the failed row
  (lemma \<open>handleError_no_complete\<close>), and the run is over but for its \<open>finally\<close>.
\<close>

definition run :: "oref \<Rightarrow> iref \<Rightarrow> ust \<Rightarrow> ust" where
  [js_eval]: "run oi i su =
     (case (st_op (fst su) oi, st_item (fst su) i) of
        (Some p, Some x) \<Rightarrow>
          (let (ctl, s1) = new_ref (fst su);
               u = snd su;
               s2 = patchItem oi i (\<lambda>y. y\<lparr>it_state := (if it_completeOnly x then Finishing else Uploading),
                      it_abort := Some ctl, it_error := None, it_retrying := False\<rparr>) s1;
               r = \<lparr>ru_id = ctl, ru_op = oi, ru_item = i, ru_size = it_size x, ru_phase = Sending\<rparr>
           in if it_completeOnly x then
                (if src_completeUpload (op_source p) then (eff (CompleteSent oi i) s2, u\<lparr>u_runs := u_runs u @ [r]\<rparr>)
                 else (settle oi (fail_upload oi i (classifyError no_complete_error (op_kind p) None False) s2),
                       u\<lparr>u_runs := u_runs u @ [r\<lparr>ru_phase := RunEnded\<rparr>]\<rparr>))
              else (eff (UploadSent oi i) s2, u\<lparr>u_runs := u_runs u @ [r]\<rparr>))
      | _ \<Rightarrow> su)"

lemma run_u:
  "u_ready (snd (run oi i su)) = u_ready (snd su)" "u_active (snd (run oi i su)) = u_active (snd su)"
  "u_prep (snd (run oi i su)) = u_prep (snd su)" "u_mk (snd (run oi i su)) = u_mk (snd su)"
  "u_walks (snd (run oi i su)) = u_walks (snd su)"
  by (simp_all add: run_def Let_def split_beta split: option.splits)

definition startable :: "store \<Rightarrow> oref \<times> iref \<Rightarrow> bool" where
  [js_eval]: "startable s e \<longleftrightarrow> item_st s (snd e) = Some Queued \<and> isAlive (fst e) s"

function upload_pump :: "ust \<Rightarrow> ust" where
  "upload_pump su =
     (if u_active (snd su) < UPLOAD_PARALLEL \<and> u_ready (snd su) \<noteq> [] then
        (let e = hd (u_ready (snd su));
             u1 = (snd su)\<lparr>u_ready := tl (u_ready (snd su))\<rparr>
         in if startable (fst su) e
            then upload_pump (run (fst e) (snd e) (fst su, u1\<lparr>u_active := Suc (u_active u1)\<rparr>))
            else upload_pump (fst su, u1))
      else su)"
  by pat_completeness auto
termination
  by (relation "measure (\<lambda>su. length (u_ready (snd su)))") (auto simp: run_u)

declare upload_pump.simps [simp del, js_eval]

definition enqueue :: "oref \<Rightarrow> iref \<Rightarrow> ust \<Rightarrow> ust" where
  [js_eval]: "enqueue oi i su = upload_pump (fst su, (snd su)\<lparr>u_ready := u_ready (snd su) @ [(oi, i)]\<rparr>)"

section \<open>Clashes and decisions\<close>

definition apply_choice :: "oref \<Rightarrow> iref \<Rightarrow> choice \<Rightarrow> ust \<Rightarrow> ust" where
  [js_eval]: "apply_choice oi i ch su =
     (if ch = Skip then
        (settle oi (patchItem oi i (\<lambda>x. x\<lparr>it_state := Skipped, it_decision := None\<rparr>) (endSession oi i (fst su))), snd su)
      else
        enqueue oi i
          (patchItem oi i (\<lambda>x. x\<lparr>it_state := Queued, it_decision := None,
             it_conflict := Some (if ch = Replace then Replace else KeepBoth)\<rparr>) (fst su), snd su))"

text \<open>The two halves of \<open>clash\<close>: keep the chunked session, ask the person.\<close>

definition keep_session :: "iref \<Rightarrow> (jstring option) option \<Rightarrow> store \<Rightarrow> store" where
  [js_eval]: "keep_session i session s =
     (case session of
        Some uid \<Rightarrow> upd_item i (\<lambda>x. x\<lparr>it_completeOnly := True, it_uploadId := uid\<rparr>) s
      | None \<Rightarrow> s)"

definition ask_decision :: "oref \<Rightarrow> iref \<Rightarrow> decision \<Rightarrow> store \<Rightarrow> store" where
  [js_eval]: "ask_decision oi i d s =
     settle oi (notify oi Warning (patchItem oi i (\<lambda>x. x\<lparr>it_state := NeedsDecision,
       it_decision := Some d, it_error := None, it_retrying := False\<rparr>) s))"

definition clash :: "oref \<Rightarrow> iref \<Rightarrow> entry_kind \<Rightarrow> (jstring option) option \<Rightarrow> ust \<Rightarrow> ust" where
  [js_eval]: "clash oi i existing session su =
     (case st_op (fst su) oi of
        None \<Rightarrow> su
      | Some p \<Rightarrow>
          (let d = existsDecision existing False;
               s1 = keep_session i session (fst su)
           in case op_policy p of
                Some ch \<Rightarrow>
                  if ch \<in> set (options d) then apply_choice oi i ch (s1, snd su)
                  else (ask_decision oi i d s1, snd su)
              | None \<Rightarrow> (ask_decision oi i d s1, snd su)))"

definition handleError :: "oref \<Rightarrow> iref \<Rightarrow> failure \<Rightarrow> ust \<Rightarrow> ust" where
  [js_eval]: "handleError oi i err su =
     (case (st_op (fst su) oi, st_item (fst su) i) of
        (Some p, Some x) \<Rightarrow>
          if it_state x = Cancelled then su
          else if isAbort err then
            (patchItem oi i (\<lambda>y. y\<lparr>it_state := Cancelled, it_abort := None\<rparr>) (fst su), snd su)
          else
            (let c = classifyError err (op_kind p) None False
             in case c_decision c of
                  Some (Exists existing opts) \<Rightarrow>
                    if \<not> src_isFile (op_source p) then
                      clash oi i existing
                        (case err of Some e \<Rightarrow> if e_completeOnly e then Some (e_uploadId e) else None | None \<Rightarrow> None)
                        (patchItem oi i (\<lambda>y. y\<lparr>it_abort := None, it_retrying := False\<rparr>) (fst su), snd su)
                    else (fail_upload oi i c (fst su), snd su)
                | _ \<Rightarrow> (fail_upload oi i c (fst su), snd su))
      | _ \<Rightarrow> su)"

section \<open>Preparing a file\<close>

definition knownNames :: "listing \<Rightarrow> oref \<Rightarrow> jstring \<Rightarrow> store \<Rightarrow> store" where
  [js_eval]: "knownNames ls oi dest s =
     (case st_op s oi of
        None \<Rightarrow> s
      | Some p \<Rightarrow> upd_rt oi (\<lambda>r. r\<lparr>r_nameMaps := snd (known_names ls (op_destFolder p) dest (r_nameMaps r))\<rparr>) s)"

text \<open>\<open>prepare\<close> up to its \<open>await\<close>, and what follows it.\<close>

definition prepare :: "listing \<Rightarrow> oref \<Rightarrow> iref \<Rightarrow> ust \<Rightarrow> ust" where
  [js_eval]: "prepare ls oi i su =
     (case (st_op (fst su) oi, st_item (fst su) i) of
        (Some p, Some x) \<Rightarrow>
          if \<not> src_isFile (op_source p)
          then (knownNames ls oi (it_destPath x) (fst su), (snd su)\<lparr>u_prep := u_prep (snd su) @ [(oi, i)]\<rparr>)
          else enqueue oi i su
      | _ \<Rightarrow> su)"

definition names_hit :: "store \<Rightarrow> oref \<Rightarrow> item \<Rightarrow> entry_kind option" where
  [js_eval]: "names_hit s oi x =
     (case r_nameMaps (st_rt s oi) (it_destPath x) of
        Some (Some names) \<Rightarrow> names (it_name x)
      | _ \<Rightarrow> None)"

definition prepare_resume :: "oref \<Rightarrow> iref \<Rightarrow> ust \<Rightarrow> ust" where
  [js_eval]: "prepare_resume oi i su =
     (case st_item (fst su) i of
        None \<Rightarrow> su
      | Some x \<Rightarrow>
          (let su1 = (fst su, (snd su)\<lparr>u_prep := remove1 (oi, i) (u_prep (snd su))\<rparr>)
           in if it_state x \<noteq> Queued then su1
              else
                (case names_hit (fst su) oi x of
                   Some hit \<Rightarrow> clash oi i hit None su1
                 | None \<Rightarrow> enqueue oi i su1)))"

section \<open>Making empty folders\<close>

text \<open>\<open>stop\<close> of \<open>makeFolders\<close>.\<close>

definition mk_stop :: "oref \<Rightarrow> iref \<Rightarrow> nat \<Rightarrow> store \<Rightarrow> store" where
  [js_eval]: "mk_stop oi i made s =
     settle oi (patchItem oi i (\<lambda>x. x\<lparr>it_state := Cancelled, it_foldersMade := made\<rparr>) s)"

text \<open>
  One turn of the loop of \<open>makeFolders\<close>, up to the next \<open>mkdir\<close>, or the end of the
  function when no level is left.
\<close>

definition mk_next :: "nat \<Rightarrow> oref \<Rightarrow> iref \<Rightarrow> jstring \<Rightarrow> jstring list \<Rightarrow> nat \<Rightarrow> ust \<Rightarrow> ust" where
  [js_eval]: "mk_next k oi i path rest made su =
     (if item_st (fst su) i = Some Cancelled then (mk_stop oi i made (fst su), snd su)
      else
        (case rest of
           [] \<Rightarrow> (settle oi (patchItem oi i (\<lambda>x. x\<lparr>it_state := Done, it_foldersMade := made\<rparr>)
                    (noteFolder oi (parent_or_root path) (fst su))), snd su)
         | part # rest' \<Rightarrow>
             (let path' = joinPath path part
              in (eff (MkdirSent oi i path') (fst su),
                  (snd su)\<lparr>u_mk := u_mk (snd su) @ [\<lparr>mk_id = k, mk_op = oi, mk_item = i, mk_path = path',
                     mk_part = part, mk_rest = rest', mk_made = made, mk_phase = MkWait\<rparr>]\<rparr>))))"

definition makeFolders :: "oref \<Rightarrow> iref \<Rightarrow> jstring \<Rightarrow> ust \<Rightarrow> ust" where
  [js_eval]: "makeFolders oi i relPath su =
     (case st_op (fst su) oi of
        None \<Rightarrow> su
      | Some p \<Rightarrow>
          (let (k, s1) = new_ref (fst su)
           in mk_next k oi i (op_destFolder p) (filter (\<lambda>x. x \<noteq> []) (split_on slash relPath)) 0 (s1, snd su)))"

definition taken_error :: "failure \<Rightarrow> bool" where
  [js_eval]: "taken_error err \<longleftrightarrow>
     (case err of None \<Rightarrow> False
      | Some e \<Rightarrow> e_status e = Some 409 \<or> contains (lower (e_message e)) (lit ''already''))"

definition mk_fail :: "oref \<Rightarrow> iref \<Rightarrow> jstring \<Rightarrow> bool \<Rightarrow> bool \<Rightarrow> nat \<Rightarrow> store \<Rightarrow> store" where
  [js_eval]: "mk_fail oi i msg retryable offline made s =
     settle oi (notify oi Error (patchItem oi i (\<lambda>x. x\<lparr>it_state := Failed, it_error := Some msg,
       it_retryable := retryable, it_offline := offline, it_foldersMade := made\<rparr>) s))"

text \<open>What follows \<open>await kindAt(...)\<close>.\<close>

definition mk_after_stat :: "mk_state \<Rightarrow> entry_kind option \<Rightarrow> ust \<Rightarrow> ust" where
  [js_eval]: "mk_after_stat m kind su =
     (if kind = Some FileEntry then
        (case st_item (fst su) (mk_item m) of
           None \<Rightarrow> su
         | Some x \<Rightarrow>
             (mk_fail (mk_op m) (mk_item m) (folderBlocked (it_name x) (mk_part m)) True False (mk_made m) (fst su), snd su))
      else mk_next (mk_id m) (mk_op m) (mk_item m) (mk_path m) (mk_rest m) (mk_made m) su)"

text \<open>The answer of one \<open>mkdir\<close>: \<^term>\<open>Inr ()\<close>, or what it threw.\<close>

definition mkdir_result :: "mk_state \<Rightarrow> failure + unit \<Rightarrow> ust \<Rightarrow> ust" where
  [js_eval]: "mkdir_result m res su =
     (case st_op (fst su) (mk_op m) of
        None \<Rightarrow> su
      | Some p \<Rightarrow>
          (let su1 = (fst su, (snd su)\<lparr>u_mk := remove1 m (u_mk (snd su))\<rparr>)
           in case res of
                Inr _ \<Rightarrow> mk_next (mk_id m) (mk_op m) (mk_item m) (mk_path m) (mk_rest m) (Suc (mk_made m)) su1
              | Inl err \<Rightarrow>
                  if taken_error err then
                    (if src_stat (op_source p)
                     then (eff (StatSent (mk_op m) (mk_item m) (mk_path m)) (fst su1),
                           (snd su1)\<lparr>u_mk := u_mk (snd su1) @ [m\<lparr>mk_phase := StatWait\<rparr>]\<rparr>)
                     else mk_after_stat m None su1)
                  else if isAbort err \<or> item_st (fst su) (mk_item m) = Some Cancelled then
                    (mk_stop (mk_op m) (mk_item m) (mk_made m) (fst su1), snd su1)
                  else
                    (let c = classifyError err (op_kind p) None False
                     in (mk_fail (mk_op m) (mk_item m) (c_message c) (c_retryable c) (c_offline c) (mk_made m) (fst su1),
                         snd su1))))"

text \<open>The answer of \<open>kindAt\<close>: \<^const>\<open>None\<close> when the question failed.\<close>

definition stat_result :: "mk_state \<Rightarrow> entry_kind option \<Rightarrow> ust \<Rightarrow> ust" where
  [js_eval]: "stat_result m kind su =
     mk_after_stat m kind (fst su, (snd su)\<lparr>u_mk := remove1 m (u_mk (snd su))\<rparr>)"

section \<open>Adding files and folders\<close>

definition addFile :: "listing \<Rightarrow> oref \<Rightarrow> file_obj \<Rightarrow> jstring \<Rightarrow> jstring \<Rightarrow> jstring \<Rightarrow> ust \<Rightarrow> ust" where
  [js_eval]: "addFile ls oi file dir name relPath su =
     (case st_op (fst su) oi of
        None \<Rightarrow> su
      | Some p \<Rightarrow>
          (let (ident, s1) = newId (lit ''it'') (fst su);
               x = (makeItem ident name)\<lparr>it_relPath := relPath, it_destPath := dest_path (op_destFolder p) dir,
                      it_size := f_size file, it_file := Some (f_ref file)\<rparr>;
               (i, s2) = alloc_item x s1
           in prepare ls oi i (settle oi (addItem oi i s2), snd su)))"

definition addFolder :: "oref \<Rightarrow> jstring \<Rightarrow> ust \<Rightarrow> ust" where
  [js_eval]: "addFolder oi relPath su =
     (case st_op (fst su) oi of
        None \<Rightarrow> su
      | Some p \<Rightarrow>
          (let (dir, name) = splitRel relPath;
               (ident, s1) = newId (lit ''it'') (fst su);
               x = (makeItem ident name)\<lparr>it_relPath := relPath, it_destPath := dest_path (op_destFolder p) dir,
                      it_isDir := True, it_state := Running\<rparr>;
               (i, s2) = alloc_item x s1
           in makeFolders oi i relPath (settle oi (addItem oi i s2), snd su)))"

text \<open>\<open>onError\<close> of the walk.\<close>

definition addUnreadable :: "oref \<Rightarrow> jstring \<Rightarrow> ust \<Rightarrow> ust" where
  [js_eval]: "addUnreadable oi relPath su =
     (case st_op (fst su) oi of
        None \<Rightarrow> su
      | Some p \<Rightarrow>
          (let (dir, name) = splitRel relPath;
               (ident, s1) = newId (lit ''it'') (fst su);
               x = (makeItem ident name)\<lparr>it_relPath := relPath, it_destPath := dest_path (op_destFolder p) dir,
                      it_state := Failed, it_error := Some unreadable_text, it_retryable := False\<rparr>;
               (i, s2) = alloc_item x s1
           in (notify oi Error (addItem oi i s2), snd su)))"

text \<open>The file or folder the card is named after.\<close>

definition rel_or_name :: "file_obj \<Rightarrow> jstring" where
  [js_eval]: "rel_or_name f = (if f_rel f \<noteq> [] then f_rel f else f_name f)"

definition upload_title :: "upload_input \<Rightarrow> iref op \<Rightarrow> iref op" where
  [js_eval]: "upload_title inp p =
     (let entries = (case in_entries inp of Some es \<Rightarrow> es | None \<Rightarrow> []);
          dropFiles = (if in_entries inp = None then [] else in_dropFiles inp);
          files = (case in_files inp of Some fs \<Rightarrow> fs | None \<Rightarrow> [])
      in if files \<noteq> [] then
           (let segs = remdups (map (\<lambda>f. hd (split_on slash (f_rel f))) files);
                allNested = list_all (\<lambda>f. slash \<in> set (f_rel f)) files
            in if allNested \<and> length segs = 1 then p\<lparr>op_title := hd segs, op_rootFolder := True\<rparr>
               else if length files = 1 then p\<lparr>op_title := f_name (hd files)\<rparr> else p)
         else if length entries + length dropFiles = 1 then
           (if length entries = 1 then p\<lparr>op_title := fst (hd entries), op_rootFolder := snd (hd entries)\<rparr>
            else p\<lparr>op_title := f_name (hd dropFiles)\<rparr>)
         else p)"

definition input_count :: "upload_input \<Rightarrow> nat" where
  [js_eval]: "input_count inp =
     (case in_files inp of
        Some fs \<Rightarrow> length fs
      | None \<Rightarrow> (case in_entries inp of Some es \<Rightarrow> length es + length (in_dropFiles inp) | None \<Rightarrow> 0))"

definition dropped_folder :: "upload_input \<Rightarrow> bool" where
  [js_eval]: "dropped_folder inp \<longleftrightarrow> (case in_entries inp of Some es \<Rightarrow> list_ex snd es | None \<Rightarrow> False)"

definition add_files :: "listing \<Rightarrow> oref \<Rightarrow> file_obj list \<Rightarrow> ust \<Rightarrow> ust" where
  [js_eval]: "add_files ls oi files su =
     fold (\<lambda>f st. addFile ls oi f (fst (splitRel (rel_or_name f))) (snd (splitRel (rel_or_name f))) (rel_or_name f) st) files su"

definition upload_start :: "listing \<Rightarrow> oref \<Rightarrow> upload_input \<Rightarrow> ust \<Rightarrow> ust" where
  [js_eval]: "upload_start ls oi inp su =
     (case st_op (fst su) oi of
        None \<Rightarrow> su
      | Some p \<Rightarrow>
          (let s1 = upd_op oi (upload_title inp) (fst su)
           in if src_isFile (op_source p) \<and> (input_count inp > 1 \<or> dropped_folder inp) then
                (settle oi (patchOp oi (\<lambda>q. q\<lparr>op_error := Some singleFileLink_text, op_state := OpFailed\<rparr>) s1), snd su)
              else
                (case in_files inp of
                   Some files \<Rightarrow>
                     (let su1 = add_files ls oi files (s1, snd su) in (settle oi (fst su1), snd su1))
                 | None \<Rightarrow>
                     (let (ctl, s2) = new_ref s1;
                          s3 = upd_op oi (\<lambda>q. q\<lparr>op_walking := True\<rparr>) (upd_rt oi (\<lambda>r. r\<lparr>r_walkAbort := Some ctl\<rparr>) s2)
                      in (patchOp oi id s3, (snd su)\<lparr>u_walks := u_walks (snd su) @ [(oi, ctl)]\<rparr>)))))"

text \<open>The end of the walk.\<close>

definition walk_end :: "oref \<Rightarrow> objref \<Rightarrow> ust \<Rightarrow> ust" where
  [js_eval]: "walk_end oi ctl su =
     (settle oi (upd_op oi (\<lambda>q. q\<lparr>op_walking := False\<rparr>) (fst su)),
      (snd su)\<lparr>u_walks := remove1 (oi, ctl) (u_walks (snd su))\<rparr>)"

section \<open>What a running upload reports\<close>

definition run_progress :: "run_state \<Rightarrow> nat \<Rightarrow> ust \<Rightarrow> ust" where
  [js_eval]: "run_progress r loaded su =
     (let received = min loaded (ru_size r);
          finishing = (ru_size r > 0 \<and> received \<ge> ru_size r)
      in (patchItem (ru_op r) (ru_item r) (\<lambda>x. x\<lparr>it_received := received, it_retrying := False,
            it_state := (if finishing \<and> it_state x = Uploading then Finishing else it_state x)\<rparr>) (fst su), snd su))"

definition run_session :: "run_state \<Rightarrow> jstring \<Rightarrow> ust \<Rightarrow> ust" where
  [js_eval]: "run_session r uid su = (upd_item (ru_item r) (\<lambda>x. x\<lparr>it_uploadId := Some uid\<rparr>) (fst su), snd su)"

definition run_retrying :: "run_state \<Rightarrow> ust \<Rightarrow> ust" where
  [js_eval]: "run_retrying r su = (patchItem_u True (ru_op r) (ru_item r) (\<lambda>x. x\<lparr>it_retrying := True\<rparr>) (fst su), snd su)"

text \<open>
  The answer of \<open>uploadFile\<close> or \<open>completeUpload\<close>: the new entry's name when it has one, or
  what was thrown. The run is over but for its \<open>finally\<close>.
\<close>

definition run_ok :: "run_state \<Rightarrow> jstring option \<Rightarrow> store \<Rightarrow> store" where
  [js_eval]: "run_ok r entryName s =
     (case st_item s (ru_item r) of
        None \<Rightarrow> s
      | Some x \<Rightarrow>
          patchItem (ru_op r) (ru_item r) (\<lambda>y. y\<lparr>it_state := Done, it_received := ru_size r, it_abort := None,
            it_uploadId := None, it_completeOnly := False, it_retrying := False,
            it_finalName := Some (case entryName of Some n \<Rightarrow> n | None \<Rightarrow> it_name y)\<rparr>)
            (noteFolder (ru_op r) (it_destPath x) s))"

definition end_run :: "run_state \<Rightarrow> uploads \<Rightarrow> uploads" where
  [js_eval]: "end_run r u =
     u\<lparr>u_runs := map (\<lambda>q. if ru_id q = ru_id r then q\<lparr>ru_phase := RunEnded\<rparr> else q) (u_runs u)\<rparr>"

definition run_result :: "run_state \<Rightarrow> failure + jstring option \<Rightarrow> ust \<Rightarrow> ust" where
  [js_eval]: "run_result r res su =
     (let su1 = (fst su, end_run r (snd su));
          su2 = (case res of
                   Inr entryName \<Rightarrow> (run_ok r entryName (fst su1), snd su1)
                 | Inl err \<Rightarrow> handleError (ru_op r) (ru_item r) err su1)
      in (settle (ru_op r) (fst su2), snd su2))"

text \<open>The \<open>finally\<close> of \<open>pump\<close>: the slot is free again.\<close>

definition run_finally :: "run_state \<Rightarrow> ust \<Rightarrow> ust" where
  [js_eval]: "run_finally r su =
     upload_pump (fst su, (snd su)\<lparr>u_active := u_active (snd su) - 1,
                    u_runs := filter (\<lambda>q. ru_id q \<noteq> ru_id r) (u_runs (snd su))\<rparr>)"

section \<open>The store's actions\<close>

definition upload_decide :: "oref \<Rightarrow> iref \<Rightarrow> choice \<Rightarrow> ust \<Rightarrow> ust" where
  [js_eval]: "upload_decide = apply_choice"

definition retry_one :: "oref \<Rightarrow> iref \<Rightarrow> ust \<Rightarrow> ust" where
  [js_eval]: "retry_one oi i su =
     (case st_item (fst su) i of
        None \<Rightarrow> su
      | Some x \<Rightarrow>
          if it_isDir x then
            makeFolders oi i (it_relPath x)
              (patchItem oi i (\<lambda>y. y\<lparr>it_state := Running, it_error := None, it_offline := False\<rparr>) (fst su), snd su)
          else if it_file x = None then su
          else
            enqueue oi i
              (patchItem oi i (\<lambda>y. y\<lparr>it_state := Queued, it_error := None, it_offline := False, it_received := 0\<rparr>)
                 (upd_item i (\<lambda>y. y\<lparr>it_uploadId := None, it_completeOnly := False\<rparr>) (fst su)), snd su))"

definition upload_retry :: "oref \<Rightarrow> iref list \<Rightarrow> ust \<Rightarrow> ust" where
  [js_eval]: "upload_retry oi targets su =
     (let su1 = fold (retry_one oi) targets su in (settle oi (fst su1), snd su1))"

text \<open>\<open>controller?.abort()\<close>, and \<open>stop\<close> of \<open>cancel\<close>.\<close>

definition abort_opt :: "objref option \<Rightarrow> store \<Rightarrow> store" where
  [js_eval]: "abort_opt ctl s = (case ctl of Some c \<Rightarrow> eff (AbortSignalled c) s | None \<Rightarrow> s)"

definition stop_item :: "oref \<Rightarrow> iref \<Rightarrow> store \<Rightarrow> store" where
  [js_eval]: "stop_item oi i s =
     (case st_item s i of
        None \<Rightarrow> s
      | Some x \<Rightarrow>
          (let cancelled = patchItem oi i (\<lambda>y. y\<lparr>it_state := Cancelled\<rparr>) s
           in if it_state x = Uploading \<or> it_state x = Finishing then
                abort_opt (it_abort x) cancelled
              else if it_state x = Queued then cancelled
              else if it_state x = Running \<and> it_isDir x then cancelled
              else if it_state x = NeedsDecision then
                patchItem oi i (\<lambda>y. y\<lparr>it_state := Cancelled, it_decision := None\<rparr>) (endSession oi i s)
              else if it_state x = Failed then endSession oi i s
              else s))"

definition upload_cancel :: "oref \<Rightarrow> store \<Rightarrow> store" where
  [js_eval]: "upload_cancel oi s =
     (case st_op s oi of
        None \<Rightarrow> s
      | Some p \<Rightarrow>
          (let s1 = abort_opt (r_walkAbort (st_rt s oi)) s;
               s2 = upd_op oi (\<lambda>q. q\<lparr>op_walking := False\<rparr>) s1
           in fold (stop_item oi) (op_items p) s2))"

definition upload_hasWork :: "store \<Rightarrow> bool" where
  [js_eval]: "upload_hasWork s \<longleftrightarrow>
     list_ex (\<lambda>oi. case st_op s oi of None \<Rightarrow> False
        | Some p \<Rightarrow> is_upload (op_kind p) \<and>
            (op_walking p \<or>
             list_ex (\<lambda>i. it_state i \<in> set [Queued, Uploading, Finishing, NeedsDecision]) (op_item_list s oi))) (st_ops s)"

definition upload_sessions :: "store \<Rightarrow> (source \<times> jstring \<times> jstring) list" where
  [js_eval]: "upload_sessions s =
     concat (map (\<lambda>oi. case st_op s oi of
        None \<Rightarrow> []
      | Some p \<Rightarrow>
          if is_upload (op_kind p) then
            List.map_filter (\<lambda>x. case it_uploadId x of
                Some uid \<Rightarrow> if uid \<noteq> [] \<and> it_state x \<in> set [Uploading, Finishing, NeedsDecision]
                            then Some (op_source p, op_driveId p, uid) else None
              | None \<Rightarrow> None) (op_item_list s oi)
          else []) (st_ops s))"

end
