(* ===== verification/JobRunner.thy ===== *)
theory JobRunner
  imports OpStore
begin

text \<open>
  \<open>luna/web/src/lib/fileOps/jobRunner.js\<close>: copy and move jobs on Luna. At most four jobs of
  the tab are sent or accepted at a time; one poll a second asks how the accepted ones are doing; the
  accepted job ids are kept in the tab's session storage so that a reload picks them up again.

  As in the upload runner, an asynchronous function is cut at its \<open>await\<close>s, what is awaited
  is data of the state, and the answers of Luna are arguments of the events that resume it.
\<close>

section \<open>State\<close>

definition JOB_POLL_MS :: nat where [js_eval]: "JOB_POLL_MS = 1000"
definition QUEUE_RETRY_MS :: nat where [js_eval]: "QUEUE_RETRY_MS = 5000"

record stored_job =
  sj_opId :: jstring
  sj_itemId :: jstring
  sj_jobId :: jstring
  sj_kind :: op_kind
  sj_name :: jstring
  sj_path :: jstring
  sj_title :: jstring
  sj_fromDrive :: jstring
  sj_toDrive :: jstring
  sj_toPath :: jstring
  sj_toLabel :: jstring
  sj_createdAt :: time

text \<open>A job as Luna reports it.\<close>

record job =
  jb_id :: jstring
  jb_state :: jstring
  jb_total :: nat
  jb_progress :: nat
  jb_error :: jstring

type_synonym entry = "oref \<times> iref"

datatype poll_phase = PollList | PollGets "(jstring \<times> entry) list"

record jobs =
  j_queue :: "entry list"
  j_accepted :: "(jstring \<times> entry) list"
  j_inflight :: nat
  j_blockedUntil :: time
  j_pollTimer :: "nat option"
  j_retryTimer :: "nat option"
  j_stopped :: bool
  j_storage :: "stored_job list option"
  j_full :: bool
  j_submits :: "(nat \<times> entry) list"
  j_removes :: "(nat \<times> entry) list"
  j_polls :: "(nat \<times> poll_phase) list"

definition init_jobs :: "stored_job list option \<Rightarrow> jobs" where
  [js_eval]: "init_jobs storage =
     \<lparr>j_queue = [], j_accepted = [], j_inflight = 0, j_blockedUntil = 0, j_pollTimer = None, j_retryTimer = None,
      j_stopped = False, j_storage = storage, j_full = False, j_submits = [], j_removes = [], j_polls = []\<rparr>"

type_synonym jst = "store \<times> jobs"

section \<open>Session storage\<close>

text \<open>
  \<open>j_storage\<close> is what the storage key holds (\<^const>\<open>None\<close> when there is no storage to
  use; nothing stored is the empty list), \<open>j_full\<close> that \<open>setItem\<close> throws.
\<close>

definition readStoredJobs :: "jobs \<Rightarrow> stored_job list" where
  [js_eval]: "readStoredJobs j =
     (case j_storage j of
        None \<Rightarrow> []
      | Some js \<Rightarrow> filter (\<lambda>x. sj_jobId x \<noteq> [] \<and> sj_opId x \<noteq> []) js)"

definition writeStoredJobs :: "stored_job list \<Rightarrow> jobs \<Rightarrow> jobs" where
  [js_eval]: "writeStoredJobs js j =
     (case j_storage j of
        None \<Rightarrow> j
      | Some old \<Rightarrow>
          if js \<noteq> [] then (if j_full j then j else j\<lparr>j_storage := Some js\<rparr>)
          else j\<lparr>j_storage := Some []\<rparr>)"

definition saveJob :: "stored_job \<Rightarrow> jobs \<Rightarrow> jobs" where
  [js_eval]: "saveJob x j = writeStoredJobs (filter (\<lambda>y. sj_jobId y \<noteq> sj_jobId x) (readStoredJobs j) @ [x]) j"

definition dropJob :: "jstring \<Rightarrow> jobs \<Rightarrow> jobs" where
  [js_eval]: "dropJob jobId j = writeStoredJobs (filter (\<lambda>y. sj_jobId y \<noteq> jobId) (readStoredJobs j)) j"

definition dropOp :: "jstring \<Rightarrow> jobs \<Rightarrow> jobs" where
  [js_eval]: "dropOp opId j = writeStoredJobs (filter (\<lambda>y. sj_opId y \<noteq> opId) (readStoredJobs j)) j"

section \<open>Sending\<close>

definition slotsUsed :: "jobs \<Rightarrow> nat" where
  [js_eval]: "slotsUsed j = length (j_accepted j) + j_inflight j"

definition armRetry :: "jst \<Rightarrow> jst" where
  [js_eval]: "armRetry sj =
     (if j_retryTimer (snd sj) \<noteq> None \<or> j_stopped (snd sj) then sj
      else
        (let wait = j_blockedUntil (snd sj) - st_now (fst sj);
             (t, s1) = setTimer RetryQueue (if wait \<noteq> 0 then wait else QUEUE_RETRY_MS) (fst sj)
         in (s1, (snd sj)\<lparr>j_retryTimer := Some t\<rparr>)))"

text \<open>\<open>submit\<close> up to its \<open>await\<close>.\<close>

definition submit :: "entry \<Rightarrow> jst \<Rightarrow> jst" where
  [js_eval]: "submit e sj =
     (let (k, s1) = new_ref (fst sj);
          s2 = patchItem (fst e) (snd e) (\<lambda>x. x\<lparr>it_state := Submitting, it_waitingForQueue := False, it_error := None\<rparr>) s1
      in (eff (JobPosted (fst e) (snd e)) s2,
          (snd sj)\<lparr>j_inflight := Suc (j_inflight (snd sj)), j_submits := j_submits (snd sj) @ [(k, e)]\<rparr>))"

definition sendable :: "store \<Rightarrow> entry \<Rightarrow> bool" where
  [js_eval]: "sendable s e \<longleftrightarrow>
     (item_st s (snd e) = Some Queued \<or> item_st s (snd e) = Some Submitting) \<and> isAlive (fst e) s"

lemma submit_j:
  "j_queue (snd (submit e sj)) = j_queue (snd sj)" "j_accepted (snd (submit e sj)) = j_accepted (snd sj)"
  "j_inflight (snd (submit e sj)) = Suc (j_inflight (snd sj))" "j_storage (snd (submit e sj)) = j_storage (snd sj)"
  "j_stopped (snd (submit e sj)) = j_stopped (snd sj)" "length (j_submits (snd (submit e sj))) = Suc (length (j_submits (snd sj)))"
  by (simp_all add: submit_def Let_def split_beta)

function job_loop :: "jst \<Rightarrow> jst" where
  "job_loop sj =
     (if j_queue (snd sj) \<noteq> [] \<and> slotsUsed (snd sj) < JOB_PARALLEL then
        (let e = hd (j_queue (snd sj));
             j1 = (snd sj)\<lparr>j_queue := tl (j_queue (snd sj))\<rparr>
         in if sendable (fst sj) e then job_loop (submit e (fst sj, j1)) else job_loop (fst sj, j1))
      else sj)"
  by pat_completeness auto
termination
  by (relation "measure (\<lambda>sj. length (j_queue (snd sj)))") (auto simp: submit_j)

declare job_loop.simps [simp del, js_eval]

definition job_pump :: "jst \<Rightarrow> jst" where
  [js_eval]: "job_pump sj =
     (if j_stopped (snd sj) then sj
      else if st_now (fst sj) < j_blockedUntil (snd sj) then armRetry sj
      else job_loop sj)"

text \<open>The timer of \<open>armRetry\<close>.\<close>

definition retry_fired :: "jst \<Rightarrow> jst" where
  [js_eval]: "retry_fired sj = job_pump (fst sj, (snd sj)\<lparr>j_retryTimer := None, j_blockedUntil := 0\<rparr>)"

definition sameFolder :: "'i op \<Rightarrow> item \<Rightarrow> bool" where
  [js_eval]: "sameFolder p x \<longleftrightarrow>
     op_kind p = Copy \<and> op_driveId p = op_destDriveId p \<and> parent_or_root (it_relPath x) = op_destFolder p"

section \<open>Decisions\<close>

definition requeue :: "entry \<Rightarrow> (item \<Rightarrow> item) \<Rightarrow> jst \<Rightarrow> jst" where
  [js_eval]: "requeue e extra sj =
     job_pump
       (patchItem (fst e) (snd e) (\<lambda>x. extra (x\<lparr>it_state := Queued, it_decision := None, it_error := None\<rparr>)) (fst sj),
        (snd sj)\<lparr>j_queue := j_queue (snd sj) @ [e]\<rparr>)"

definition job_decide :: "entry \<Rightarrow> choice \<Rightarrow> jst \<Rightarrow> jst" where
  [js_eval]: "job_decide e ch sj =
     (case (st_op (fst sj) (fst e), st_item (fst sj) (snd e)) of
        (Some p, Some x) \<Rightarrow>
          (case ch of
             Skip \<Rightarrow>
               (settle (fst e) (patchItem (fst e) (snd e) (\<lambda>y. y\<lparr>it_state := Skipped, it_decision := None\<rparr>) (fst sj)), snd sj)
           | Confirm \<Rightarrow> requeue e (\<lambda>y. y\<lparr>it_extra_confirm := True\<rparr>) sj
           | KeepBoth \<Rightarrow> requeue e (\<lambda>y. y\<lparr>it_extra_keepBoth := True\<rparr>) sj
           | Replace \<Rightarrow>
               (let (k, s1) = new_ref (fst sj);
                    s2 = patchItem (fst e) (snd e) (\<lambda>y. y\<lparr>it_state := Submitting, it_decision := None, it_error := None\<rparr>) s1
                in (eff (RemoveSent (fst e) (snd e) (joinPath (op_destFolder p) (it_name x))) s2,
                    (snd sj)\<lparr>j_removes := j_removes (snd sj) @ [(k, e)]\<rparr>)))
      | _ \<Rightarrow> sj)"

text \<open>What follows the removal of the file that was there.\<close>

definition remove_result :: "nat \<times> entry \<Rightarrow> failure + unit \<Rightarrow> jst \<Rightarrow> jst" where
  [js_eval]: "remove_result r res sj =
     (let e = snd r;
          j1 = (snd sj)\<lparr>j_removes := remove1 r (j_removes (snd sj))\<rparr>
      in case res of
           Inr _ \<Rightarrow>
             job_pump (upd_item (snd e) (\<lambda>x. x\<lparr>it_extra_keepBoth := False, it_state := Queued\<rparr>) (fst sj),
                       j1\<lparr>j_queue := j_queue j1 @ [e]\<rparr>)
         | Inl err \<Rightarrow>
             (let c = classifyError err Trash None False
              in (settle (fst e) (notify (fst e) Error
                    (patchItem (fst e) (snd e)
                       (\<lambda>x. x\<lparr>it_state := Failed, it_error := Some (c_message c), it_retryable := False\<rparr>) (fst sj))), j1)))"

definition onSubmitError :: "entry \<Rightarrow> failure \<Rightarrow> jst \<Rightarrow> jst" where
  [js_eval]: "onSubmitError e err sj =
     (case (st_op (fst sj) (fst e), st_item (fst sj) (snd e)) of
        (Some p, Some x) \<Rightarrow>
          (let c = classifyError err (op_kind p) None (sameFolder p x)
           in if c_queueFull c then
                armRetry (patchItem (fst e) (snd e) (\<lambda>y. y\<lparr>it_state := Submitting, it_waitingForQueue := True\<rparr>) (fst sj),
                          (snd sj)\<lparr>j_queue := e # j_queue (snd sj), j_blockedUntil := st_now (fst sj) + QUEUE_RETRY_MS\<rparr>)
              else
                (case c_decision c of
                   Some d \<Rightarrow>
                     (case (op_policy p, d) of
                        (Some ch, Exists k opts) \<Rightarrow>
                          if ch \<in> set opts then job_decide e ch sj
                          else (notify (fst e) Warning (patchItem (fst e) (snd e)
                                  (\<lambda>y. y\<lparr>it_state := NeedsDecision, it_decision := Some d, it_error := None\<rparr>) (fst sj)), snd sj)
                      | _ \<Rightarrow>
                          (notify (fst e) Warning (patchItem (fst e) (snd e)
                             (\<lambda>y. y\<lparr>it_state := NeedsDecision, it_decision := Some d, it_error := None\<rparr>) (fst sj)), snd sj))
                 | None \<Rightarrow>
                     (notify (fst e) Error (patchItem (fst e) (snd e) (\<lambda>y. y\<lparr>it_state := Failed,
                        it_error := Some (if c_message c \<noteq> [] then c_message c else failedText (op_kind p)),
                        it_retryable := c_retryable c, it_offline := c_offline c\<rparr>) (fst sj)), snd sj)))
      | _ \<Rightarrow> sj)"

section \<open>Polling\<close>

definition schedulePoll :: "jst \<Rightarrow> jst" where
  [js_eval]: "schedulePoll sj =
     (if j_pollTimer (snd sj) \<noteq> None \<or> j_stopped (snd sj) \<or> j_accepted (snd sj) = [] then sj
      else
        (let (t, s1) = setTimer PollJobs JOB_POLL_MS (fst sj)
         in (s1, (snd sj)\<lparr>j_pollTimer := Some t\<rparr>)))"

text \<open>\<open>accepted.set\<close>: a key that is there keeps its place.\<close>

fun map_set :: "'k \<Rightarrow> 'v \<Rightarrow> ('k \<times> 'v) list \<Rightarrow> ('k \<times> 'v) list" where
  "map_set k v [] = [(k, v)]"
| "map_set k v (x # xs) = (if fst x = k then (k, v) # xs else x # map_set k v xs)"

definition map_delete :: "'k \<Rightarrow> ('k \<times> 'v) list \<Rightarrow> ('k \<times> 'v) list" where
  [js_eval]: "map_delete k xs = filter (\<lambda>x. fst x \<noteq> k) xs"

declare map_set.simps [js_eval]

definition stored_of :: "iref op \<Rightarrow> item \<Rightarrow> jstring \<Rightarrow> stored_job" where
  [js_eval]: "stored_of p x jobId =
     \<lparr>sj_opId = op_id p, sj_itemId = it_id x, sj_jobId = jobId, sj_kind = op_kind p, sj_name = it_name x,
      sj_path = it_relPath x, sj_title = op_title p, sj_fromDrive = op_driveId p, sj_toDrive = op_destDriveId p,
      sj_toPath = op_destFolder p, sj_toLabel = op_destLabel p, sj_createdAt = op_createdAt p\<rparr>"

text \<open>
  The answer to one job sent: the rest of \<open>submit\<close>. A job accepted for an item that was
  cancelled or dismissed meanwhile is deleted again.
\<close>

definition submit_try :: "entry \<Rightarrow> failure + job \<Rightarrow> jst \<Rightarrow> jst" where
  [js_eval]: "submit_try e res sj =
     (case (st_op (fst sj) (fst e), st_item (fst sj) (snd e)) of
        (Some p, Some x) \<Rightarrow>
          (case res of
             Inr b \<Rightarrow>
               if \<not> isAlive (fst e) (fst sj) \<or> it_state x = Cancelled then (eff (JobDeleted (jb_id b)) (fst sj), snd sj)
               else
                 schedulePoll
                   (patchItem (fst e) (snd e) (\<lambda>y. y\<lparr>it_state := Running, it_jobId := Some (jb_id b),
                      it_size := jb_total b, it_received := jb_progress b, it_decision := None\<rparr>) (fst sj),
                    saveJob (stored_of p x (jb_id b))
                      ((snd sj)\<lparr>j_accepted := map_set (jb_id b) e (j_accepted (snd sj))\<rparr>))
           | Inl err \<Rightarrow> if it_state x = Cancelled then sj else onSubmitError e err sj)
      | _ \<Rightarrow> sj)"

definition submit_result :: "nat \<times> entry \<Rightarrow> failure + job \<Rightarrow> jst \<Rightarrow> jst" where
  [js_eval]: "submit_result r res sj =
     (let sj1 = submit_try (snd r) res (fst sj, (snd sj)\<lparr>j_submits := remove1 r (j_submits (snd sj))\<rparr>)
      in job_pump (settle (fst (snd r)) (fst sj1), (snd sj1)\<lparr>j_inflight := j_inflight (snd sj1) - 1\<rparr>))"

definition gone :: "jstring \<Rightarrow> entry \<Rightarrow> jst \<Rightarrow> jst" where
  [js_eval]: "gone ident e sj =
     (case st_op (fst sj) (fst e) of
        None \<Rightarrow> sj
      | Some p \<Rightarrow>
          (let j1 = dropJob ident ((snd sj)\<lparr>j_accepted := map_delete ident (j_accepted (snd sj))\<rparr>);
               s1 = settle (fst e) (notify (fst e) Error (patchItem (fst e) (snd e)
                      (\<lambda>x. x\<lparr>it_state := Failed, it_error := Some (jobGone (op_kind p)), it_retryable := False\<rparr>) (fst sj)))
           in job_pump (s1, j1\<lparr>j_blockedUntil := 0\<rparr>)))"

definition END_STATES :: "jstring list" where
  [js_eval]: "END_STATES = [lit ''done'', lit ''error'', lit ''interrupted'', lit ''cancelled'']"

text \<open>What an ended job makes of its item and which lists it refreshes.\<close>

definition ended_item :: "iref op \<Rightarrow> entry \<Rightarrow> job \<Rightarrow> store \<Rightarrow> store" where
  [js_eval]: "ended_item p e b s =
     (let fs = lit ''files''; tr = lit ''trash''; js = lit ''jobs''; from = op_driveId p; dest = op_destDriveId p
      in if jb_state b = lit ''done'' then
           invalidate [[fs, from], [fs, dest], [tr, from], [tr, dest], [js]]
             (patchItem (fst e) (snd e) (\<lambda>x. x\<lparr>it_state := Done, it_size := jb_total b,
                it_received := (if jb_total b \<noteq> 0 then jb_total b else jb_progress b)\<rparr>) s)
         else if jb_state b = lit ''cancelled'' then
           invalidate [[fs, from], [fs, dest], [js]]
             (patchItem (fst e) (snd e) (\<lambda>x. x\<lparr>it_state := Cancelled, it_size := jb_total b, it_received := jb_progress b,
                it_error := (if jb_error b \<noteq> [] then Some (jb_error b) else None)\<rparr>) s)
         else
           invalidate [[fs, from], [fs, dest], [tr, from], [js]]
             (notify (fst e) Error
               (patchItem (fst e) (snd e) (\<lambda>x. x\<lparr>it_state := Failed, it_size := jb_total b, it_received := jb_progress b,
                  it_error := Some (if jb_error b \<noteq> [] then jb_error b else failedText (op_kind p)), it_retryable := True\<rparr>) s)))"

definition handleJob :: "jstring \<Rightarrow> entry \<Rightarrow> job \<Rightarrow> jst \<Rightarrow> jst" where
  [js_eval]: "handleJob ident e b sj =
     (case st_op (fst sj) (fst e) of
        None \<Rightarrow> sj
      | Some p \<Rightarrow>
          if jb_state b \<notin> set END_STATES then
            (patchItem (fst e) (snd e) (\<lambda>x. x\<lparr>it_size := jb_total b, it_received := jb_progress b\<rparr>) (fst sj), snd sj)
          else
            (let j1 = dropJob ident ((snd sj)\<lparr>j_accepted := map_delete ident (j_accepted (snd sj))\<rparr>)
             in job_pump (settle (fst e) (ended_item p e b (fst sj)), j1\<lparr>j_blockedUntil := 0\<rparr>)))"

text \<open>\<open>poll\<close>: asking for the list, its answer, and the answers about jobs that were not in it.\<close>

definition poll_fired :: "jst \<Rightarrow> jst" where
  [js_eval]: "poll_fired sj =
     (let j1 = (snd sj)\<lparr>j_pollTimer := None\<rparr>
      in if j_stopped j1 \<or> j_accepted j1 = [] then (fst sj, j1)
         else (let (k, s1) = new_ref (fst sj)
               in (eff JobListAsked s1, j1\<lparr>j_polls := j_polls j1 @ [(k, PollList)]\<rparr>)))"

definition job_in :: "job list \<Rightarrow> jstring \<Rightarrow> job option" where
  [js_eval]: "job_in bs ident = List.find (\<lambda>b. jb_id b = ident) (rev bs)"

fun poll_entries :: "job list \<Rightarrow> (jstring \<times> entry) list \<Rightarrow> jst \<Rightarrow> (jstring \<times> entry) list \<times> jst" where
  "poll_entries bs [] sj = ([], sj)"
| "poll_entries bs (x # xs) sj =
     (case job_in bs (fst x) of
        Some b \<Rightarrow> poll_entries bs xs (handleJob (fst x) (snd x) b sj)
      | None \<Rightarrow>
          (let (pend, sj1) = poll_entries bs xs (eff (JobAsked (fst x)) (fst sj), snd sj) in (x # pend, sj1)))"

declare poll_entries.simps [js_eval]

definition poll_list :: "nat \<Rightarrow> job list option \<Rightarrow> jst \<Rightarrow> jst" where
  [js_eval]: "poll_list k res sj =
     (let j1 = (snd sj)\<lparr>j_polls := filter (\<lambda>x. fst x \<noteq> k) (j_polls (snd sj))\<rparr>
      in case res of
           None \<Rightarrow> schedulePoll (fst sj, j1)
         | Some bs \<Rightarrow>
             (let (pend, sj1) = poll_entries bs (j_accepted j1) (fst sj, j1)
              in (fst sj1, (snd sj1)\<lparr>j_polls := j_polls (snd sj1) @ [(k, PollGets pend)]\<rparr>)))"

definition poll_get :: "nat \<Rightarrow> (jstring \<times> entry) list \<Rightarrow> jstring \<times> entry \<Rightarrow> failure + job option \<Rightarrow> jst \<Rightarrow> jst" where
  [js_eval]: "poll_get k pend x res sj =
     (let j1 = (snd sj)\<lparr>j_polls := map (\<lambda>y. if fst y = k then (k, PollGets (remove1 x pend)) else y) (j_polls (snd sj))\<rparr>;
          sj1 = (fst sj, j1)
      in case res of
           Inl err \<Rightarrow> if Option.bind err e_status = Some 404 then gone (fst x) (snd x) sj1 else sj1
         | Inr (Some b) \<Rightarrow> handleJob (fst x) (snd x) b sj1
         | Inr None \<Rightarrow> sj1)"

definition poll_done :: "nat \<Rightarrow> jst \<Rightarrow> jst" where
  [js_eval]: "poll_done k sj =
     schedulePoll (fst sj, (snd sj)\<lparr>j_polls := filter (\<lambda>x. fst x \<noteq> k) (j_polls (snd sj))\<rparr>)"

section \<open>The store's actions\<close>

definition job_start :: "oref \<Rightarrow> jst \<Rightarrow> jst" where
  [js_eval]: "job_start oi sj =
     (case st_op (fst sj) oi of
        None \<Rightarrow> sj
      | Some p \<Rightarrow> job_pump (fst sj, (snd sj)\<lparr>j_queue := j_queue (snd sj) @ map (\<lambda>i. (oi, i)) (op_items p)\<rparr>))"

definition retry_job :: "oref \<Rightarrow> iref \<Rightarrow> jst \<Rightarrow> jst" where
  [js_eval]: "retry_job oi i sj =
     (patchItem oi i (\<lambda>x. x\<lparr>it_state := Queued, it_error := None, it_offline := False, it_received := 0, it_jobId := None\<rparr>)
        (fst sj),
      (snd sj)\<lparr>j_queue := j_queue (snd sj) @ [(oi, i)]\<rparr>)"

definition job_retry :: "oref \<Rightarrow> iref list \<Rightarrow> jst \<Rightarrow> jst" where
  [js_eval]: "job_retry oi targets sj =
     (let sj1 = fold (retry_job oi) targets sj in job_pump (settle oi (fst sj1), snd sj1))"

definition cancelItem :: "oref \<Rightarrow> iref \<Rightarrow> store \<Rightarrow> store" where
  [js_eval]: "cancelItem oi i s =
     (case st_item s i of
        None \<Rightarrow> s
      | Some x \<Rightarrow>
          if it_state x = Running \<and> truthy (it_jobId x) then
            (case it_jobId x of Some jobId \<Rightarrow> eff (JobDeleted jobId) s | None \<Rightarrow> s)
          else if it_state x = Queued \<or> it_state x = Submitting \<or> it_state x = NeedsDecision then
            patchItem oi i (\<lambda>y. y\<lparr>it_state := Cancelled, it_decision := None, it_waitingForQueue := False\<rparr>) s
          else s)"

definition job_cancel :: "oref \<Rightarrow> store \<Rightarrow> store" where
  [js_eval]: "job_cancel oi s =
     (case st_op s oi of None \<Rightarrow> s | Some p \<Rightarrow> fold (cancelItem oi) (op_items p) s)"

definition job_hasWork :: "store \<Rightarrow> bool" where
  [js_eval]: "job_hasWork s \<longleftrightarrow>
     list_ex (\<lambda>oi. case st_op s oi of None \<Rightarrow> False
        | Some p \<Rightarrow> is_job (op_kind p) \<and>
            list_ex (\<lambda>x. it_state x = Queued \<or> it_state x = Submitting) (op_item_list s oi)) (st_ops s)"

definition forget :: "oref \<Rightarrow> jst \<Rightarrow> jst" where
  [js_eval]: "forget oi sj =
     (case st_op (fst sj) oi of
        None \<Rightarrow> sj
      | Some p \<Rightarrow>
          if \<not> is_job (op_kind p) then sj
          else (fst sj, dropOp (op_id p)
                  ((snd sj)\<lparr>j_accepted := filter (\<lambda>x. fst (snd x) \<noteq> oi) (j_accepted (snd sj))\<rparr>)))"

text \<open>\<open>restore\<close>: one operation per stored operation id, in the order the ids were stored.\<close>

definition first_uniq :: "'a list \<Rightarrow> 'a list" where
  [js_eval]: "first_uniq xs = rev (remdups (rev xs))"

definition job_groups :: "stored_job list \<Rightarrow> stored_job list list" where
  [js_eval]: "job_groups js = map (\<lambda>k. filter (\<lambda>x. sj_opId x = k) js) (first_uniq (map sj_opId js))"

definition restore_item :: "oref \<Rightarrow> stored_job \<Rightarrow> jst \<Rightarrow> jst" where
  [js_eval]: "restore_item oi x sj =
     (let s1 = snd (newId (lit ''it'') (fst sj));
          it = (makeItem (sj_itemId x) (sj_name x))\<lparr>it_relPath := sj_path x, it_destPath := sj_toPath x,
                 it_state := Running, it_jobId := Some (sj_jobId x)\<rparr>;
          (i, s2) = alloc_item it s1
      in (upd_op oi (\<lambda>p. p\<lparr>op_items := op_items p @ [i]\<rparr>) s2,
          (snd sj)\<lparr>j_accepted := map_set (sj_jobId x) (oi, i) (j_accepted (snd sj))\<rparr>))"

definition restore_group :: "source \<Rightarrow> stored_job list \<Rightarrow> jst \<Rightarrow> jst" where
  [js_eval]: "restore_group src xs sj =
     (case xs of
        [] \<Rightarrow> sj
      | first # _ \<Rightarrow>
          (let s0 = snd (newId (lit ''op'') (fst sj));
               p = (makeOp (sj_opId first) (if sj_createdAt first \<noteq> 0 then sj_createdAt first else st_now s0) src
                      (sj_kind first) (sj_fromDrive first))\<lparr>op_destDriveId := sj_toDrive first,
                      op_destFolder := sj_toPath first, op_destLabel := sj_toLabel first,
                      op_title := (if sj_title first \<noteq> [] then sj_title first
                                   else if length xs = 1 then sj_name first else []),
                      op_state := OpRunning, op_shown := True\<rparr>;
               (oi, s1) = alloc_op p s0;
               sj1 = fold (restore_item oi) xs (s1, snd sj)
           in (addOp oi (fst sj1), snd sj1)))"

definition restore :: "source \<Rightarrow> jst \<Rightarrow> jst" where
  [js_eval]: "restore src sj = schedulePoll (fold (restore_group src) (job_groups (readStoredJobs (snd sj))) sj)"

definition job_stop :: "jst \<Rightarrow> jst" where
  [js_eval]: "job_stop sj =
     (clear_opt (j_retryTimer (snd sj)) (clear_opt (j_pollTimer (snd sj)) (fst sj)), (snd sj)\<lparr>j_stopped := True\<rparr>)"

end
