(* ===== verification/RequestRunner.thy ===== *)
theory RequestRunner
  imports OpStore
begin

text \<open>
  \<open>luna/web/src/lib/fileOps/requestRunner.js\<close>: one-shot and batch requests. The items of an
  operation run one after another and the run continues past failures; at most one loop drives an
  operation at a time.
\<close>

record requests =
  q_driving :: "jstring list"
  q_controllers :: "jstring \<rightharpoonup> objref"
  q_drives :: "(oref \<times> iref \<times> objref) list"

definition init_requests :: requests where
  [js_eval]: "init_requests = \<lparr>q_driving = [], q_controllers = Map.empty, q_drives = []\<rparr>"

type_synonym qst = "store \<times> requests"

text \<open>The first queued item of an operation (\<open>op.items.find\<close>).\<close>

definition queued_refs :: "store \<Rightarrow> oref \<Rightarrow> iref list" where
  [js_eval]: "queued_refs s oi =
     (case st_op s oi of None \<Rightarrow> [] | Some p \<Rightarrow> filter (\<lambda>i. item_st s i = Some Queued) (op_items p))"

lemma map_option_core_items:
  "core_at s oi = core_at t oi \<Longrightarrow> map_option op_items (st_op s oi) = map_option op_items (st_op t oi)"
  by (auto simp: core_at_def map_option_case split: option.splits) (metis op_core_sel(1))

lemma queued_refs_cancel:
  assumes "queued_refs s oi = i # is"
  shows "length (queued_refs (patchItem oi i (\<lambda>x. x\<lparr>it_state := Cancelled\<rparr>) s) oi) < length (queued_refs s oi)"
proof -
  let ?t = "patchItem oi i (\<lambda>x. x\<lparr>it_state := Cancelled\<rparr>) s"
  obtain p where p: "st_op s oi = Some p" using assms by (cases "st_op s oi") (simp_all add: queued_refs_def)
  have "map_option op_items (st_op ?t oi) = Some (op_items p)"
    using map_option_core_items [of ?t oi s] p by simp
  then obtain q where q: "st_op ?t oi = Some q" "op_items q = op_items p" by auto
  have i: "i \<in> set (filter (\<lambda>j. item_st s j = Some Queued) (op_items p))"
    using assms p by (simp add: queued_refs_def)
  have st: "item_st ?t j = Some Queued \<longleftrightarrow> item_st s j = Some Queued \<and> j \<noteq> i" for j
    by (auto simp: item_st_def)
  have "filter (\<lambda>j. item_st ?t j = Some Queued) (op_items p) = filter (\<lambda>j. j \<noteq> i) (filter (\<lambda>j. item_st s j = Some Queued) (op_items p))"
    by (simp add: st conj_commute)
  moreover have "length (filter (\<lambda>j. j \<noteq> i) (filter (\<lambda>j. item_st s j = Some Queued) (op_items p)))
      < length (filter (\<lambda>j. item_st s j = Some Queued) (op_items p))"
    using i by (intro length_filter_less [of i]) auto
  ultimately show ?thesis using p q by (simp add: queued_refs_def)
qed

text \<open>
  The loop of \<open>drive\<close> up to its next \<open>await\<close>: a cancelled operation's queued items are
  cancelled one by one; otherwise the first queued item is sent. With nothing left the loop ends.
\<close>

definition drive_end :: "oref \<Rightarrow> qst \<Rightarrow> qst" where
  [js_eval]: "drive_end oi sq =
     (case st_op (fst sq) oi of
        None \<Rightarrow> sq
      | Some p \<Rightarrow>
          (settle oi (fst sq),
           (snd sq)\<lparr>q_driving := removeAll (op_id p) (q_driving (snd sq)),
                    q_controllers := (q_controllers (snd sq))(op_id p := None)\<rparr>))"

function drive_loop :: "oref \<Rightarrow> objref \<Rightarrow> qst \<Rightarrow> qst" where
  "drive_loop oi ctl sq =
     (if \<not> isAlive oi (fst sq) then drive_end oi sq
      else
        (case queued_refs (fst sq) oi of
           [] \<Rightarrow> drive_end oi sq
         | i # is \<Rightarrow>
             if map_option op_cancelled (st_op (fst sq) oi) = Some True then
               drive_loop oi ctl (patchItem oi i (\<lambda>x. x\<lparr>it_state := Cancelled\<rparr>) (fst sq), snd sq)
             else
               (let confirm = (case st_item (fst sq) i of Some x \<Rightarrow> it_confirmBroaden x | None \<Rightarrow> False);
                    s1 = patchItem oi i (\<lambda>x. x\<lparr>it_state := Running, it_error := None, it_decision := None\<rparr>) (fst sq)
                in (eff (RequestRun oi i confirm) s1, (snd sq)\<lparr>q_drives := q_drives (snd sq) @ [(oi, i, ctl)]\<rparr>))))"
  by pat_completeness auto
termination
  by (relation "measure (\<lambda>(oi, ctl, sq). length (queued_refs (fst sq) oi))")
    (use queued_refs_cancel in \<open>fastforce\<close>)+

declare drive_loop.simps [simp del, js_eval]

definition drive :: "oref \<Rightarrow> qst \<Rightarrow> qst" where
  [js_eval]: "drive oi sq =
     (case st_op (fst sq) oi of
        None \<Rightarrow> sq
      | Some p \<Rightarrow>
          if op_id p \<in> set (q_driving (snd sq)) then sq
          else
            (let (ctl, s1) = new_ref (fst sq)
             in drive_loop oi ctl (s1, (snd sq)\<lparr>q_driving := q_driving (snd sq) @ [op_id p],
                                           q_controllers := (q_controllers (snd sq))(op_id p \<mapsto> ctl)\<rparr>)))"

text \<open>What a request's outcome makes of its item.\<close>

definition request_outcome :: "iref op \<Rightarrow> oref \<Rightarrow> iref \<Rightarrow> failure + unit \<Rightarrow> store \<Rightarrow> store" where
  [js_eval]: "request_outcome p oi i res s =
     (case res of
        Inr _ \<Rightarrow> patchItem oi i (\<lambda>x. x\<lparr>it_state := Done\<rparr>) s
      | Inl err \<Rightarrow>
          (let c = classifyError err (op_kind p) None False
           in if c_aborted c then patchItem oi i (\<lambda>x. x\<lparr>it_state := Cancelled\<rparr>) s
              else
                (case c_decision c of
                   Some (Broadens msg opts) \<Rightarrow>
                     notify oi Warning (patchItem oi i (\<lambda>x. x\<lparr>it_state := NeedsDecision,
                       it_decision := Some (Broadens msg opts), it_error := None\<rparr>) s)
                 | _ \<Rightarrow>
                     notify oi Error (patchItem oi i (\<lambda>x. x\<lparr>it_state := Failed, it_error := Some (c_message c),
                       it_retryable := True, it_offline := c_offline c\<rparr>) s))))"

definition drive_result :: "oref \<times> iref \<times> objref \<Rightarrow> failure + unit \<Rightarrow> qst \<Rightarrow> qst" where
  [js_eval]: "drive_result d res sq =
     (case d of (oi, i, ctl) \<Rightarrow>
        case st_op (fst sq) oi of
          None \<Rightarrow> sq
        | Some p \<Rightarrow>
            drive_loop oi ctl (settle oi (request_outcome p oi i res (fst sq)),
                               (snd sq)\<lparr>q_drives := remove1 d (q_drives (snd sq))\<rparr>))"

section \<open>The store's actions\<close>

definition request_start :: "oref \<Rightarrow> qst \<Rightarrow> qst" where
  [js_eval]: "request_start = drive"

definition request_decide :: "oref \<Rightarrow> iref \<Rightarrow> choice \<Rightarrow> qst \<Rightarrow> qst" where
  [js_eval]: "request_decide oi i ch sq =
     (if ch = Confirm then
        drive oi (patchItem oi i (\<lambda>x. x\<lparr>it_state := Queued, it_decision := None, it_confirmBroaden := True\<rparr>) (fst sq), snd sq)
      else (settle oi (patchItem oi i (\<lambda>x. x\<lparr>it_state := Skipped, it_decision := None\<rparr>) (fst sq)), snd sq))"

definition request_retry :: "oref \<Rightarrow> iref list \<Rightarrow> qst \<Rightarrow> qst" where
  [js_eval]: "request_retry oi targets sq =
     (let s1 = fold (\<lambda>i. patchItem oi i (\<lambda>x. x\<lparr>it_state := Queued, it_error := None, it_offline := False\<rparr>)) targets (fst sq)
      in drive oi (settle oi s1, snd sq))"

definition request_cancel_item :: "oref \<Rightarrow> iref \<Rightarrow> store \<Rightarrow> store" where
  [js_eval]: "request_cancel_item oi i s =
     (if item_st s i = Some Queued then patchItem oi i (\<lambda>x. x\<lparr>it_state := Cancelled\<rparr>) s else s)"

definition request_cancel :: "oref \<Rightarrow> qst \<Rightarrow> qst" where
  [js_eval]: "request_cancel oi sq =
     (case st_op (fst sq) oi of
        None \<Rightarrow> sq
      | Some p \<Rightarrow>
          (let s1 = (case q_controllers (snd sq) (op_id p) of Some ctl \<Rightarrow> eff (AbortSignalled ctl) (fst sq) | None \<Rightarrow> fst sq)
           in (fold (\<lambda>i s. if item_st s i = Some Queued \<or> item_st s i = Some NeedsDecision
                           then patchItem oi i (\<lambda>x. x\<lparr>it_state := Cancelled, it_decision := None\<rparr>) s else s)
                 (op_items p) s1, snd sq)))"

definition request_hasWork :: "store \<Rightarrow> bool" where
  [js_eval]: "request_hasWork s \<longleftrightarrow>
     list_ex (\<lambda>oi. case st_op s oi of None \<Rightarrow> False
        | Some p \<Rightarrow> \<not> op_indeterminate p \<and> \<not> is_upload (op_kind p) \<and> \<not> is_job (op_kind p) \<and>
            list_ex (\<lambda>x. it_state x = Queued) (op_item_list s oi)) (st_ops s)"

end
