(* ===== verification/TabSystem.thy ===== *)
theory TabSystem
  imports UploadRunner JobRunner RequestRunner
begin

text \<open>
  The whole file operation store of one browser tab: the store of \<open>store.js\<close> with its three
  runners, the public actions the screens call, the timers, and every event the browser and Luna can
  deliver to it. One event is handled at a time, without interruption, as the browser's event loop does.
\<close>

record tab =
  tb_s :: store
  tb_u :: uploads
  tb_j :: jobs
  tb_q :: requests

definition on_s :: "(store \<Rightarrow> store) \<Rightarrow> tab \<Rightarrow> tab" where
  [js_eval]: "on_s f t = t\<lparr>tb_s := f (tb_s t)\<rparr>"

definition on_u :: "(ust \<Rightarrow> ust) \<Rightarrow> tab \<Rightarrow> tab" where
  [js_eval]: "on_u f t = (let r = f (tb_s t, tb_u t) in t\<lparr>tb_s := fst r, tb_u := snd r\<rparr>)"

definition on_j :: "(jst \<Rightarrow> jst) \<Rightarrow> tab \<Rightarrow> tab" where
  [js_eval]: "on_j f t = (let r = f (tb_s t, tb_j t) in t\<lparr>tb_s := fst r, tb_j := snd r\<rparr>)"

definition on_q :: "(qst \<Rightarrow> qst) \<Rightarrow> tab \<Rightarrow> tab" where
  [js_eval]: "on_q f t = (let r = f (tb_s t, tb_q t) in t\<lparr>tb_s := fst r, tb_q := snd r\<rparr>)"

section \<open>Starting an operation\<close>

definition label_or :: "jstring option \<Rightarrow> jstring \<Rightarrow> jstring" where
  [js_eval]: "label_or label path =
     (case label of Some l \<Rightarrow> l | None \<Rightarrow> if path \<noteq> [] then pathBasename path else [])"

record upload_args =
  ua_source :: source
  ua_drive :: jstring
  ua_folder :: jstring
  ua_label :: "jstring option"
  ua_kind :: op_kind
  ua_keys :: "query_key list"
  ua_after :: bool
  ua_input :: upload_input

definition startUpload :: "listing \<Rightarrow> upload_args \<Rightarrow> tab \<Rightarrow> tab" where
  [js_eval]: "startUpload ls a t =
     (let (ident, s1) = newId (lit ''op'') (tb_s t);
          p = (makeOp ident (st_now s1) (ua_source a) (ua_kind a) (ua_drive a))\<lparr>op_destFolder := ua_folder a,
                 op_destLabel := label_or (ua_label a) (ua_folder a)\<rparr>;
          (oi, s2) = alloc_op p s1;
          s3 = upd_rt oi (\<lambda>r. r\<lparr>r_invalidateKeys := ua_keys a, r_afterFinish := ua_after a\<rparr>) (addOp oi s2)
      in on_u (upload_start ls oi (ua_input a)) (t\<lparr>tb_s := s3\<rparr>))"

record job_args =
  ja_kind :: op_kind
  ja_from :: jstring
  ja_items :: "(jstring \<times> jstring) list"
  ja_to :: jstring
  ja_path :: jstring
  ja_label :: "jstring option"
  ja_source :: source

text \<open>An item is given by its path and its name (empty when the caller gave none).\<close>

definition path_name :: "jstring \<times> jstring \<Rightarrow> jstring" where
  [js_eval]: "path_name x = (if snd x \<noteq> [] then snd x else pathBasename (fst x))"

definition push_item :: "oref \<Rightarrow> (jstring \<Rightarrow> item) \<Rightarrow> store \<Rightarrow> store" where
  [js_eval]: "push_item oi mk s =
     (let (ident, s1) = newId (lit ''it'') s;
          (i, s2) = alloc_item (mk ident) s1
      in upd_op oi (\<lambda>p. p\<lparr>op_items := op_items p @ [i]\<rparr>) s2)"

definition startJobs :: "job_args \<Rightarrow> tab \<Rightarrow> tab" where
  [js_eval]: "startJobs a t =
     (let (ident, s1) = newId (lit ''op'') (tb_s t);
          p = (makeOp ident (st_now s1) (ja_source a) (ja_kind a) (ja_from a))\<lparr>op_destDriveId := ja_to a,
                 op_destFolder := ja_path a, op_destLabel := label_or (ja_label a) (ja_path a),
                 op_title := (if length (ja_items a) = 1 then path_name (hd (ja_items a)) else []),
                 op_state := OpRunning\<rparr>;
          (oi, s2) = alloc_op p s1;
          s3 = fold (\<lambda>x. push_item oi (\<lambda>ident. (makeItem ident (path_name x))\<lparr>it_relPath := fst x,
                  it_destPath := ja_path a\<rparr>)) (ja_items a) s2
      in on_j (job_start oi) (t\<lparr>tb_s := addOp oi s3\<rparr>))"

datatype toast_arg = NoToast | ToastText jstring | ToastFn "nat \<Rightarrow> nat \<Rightarrow> jstring"

record request_args =
  ra_kind :: op_kind
  ra_title :: jstring
  ra_label :: jstring
  ra_source :: source
  ra_drive :: jstring
  ra_items :: "(jstring \<times> objref) list"
  ra_run :: "objref option"
  ra_toast :: toast_arg
  ra_keys :: "query_key list"

definition request_list :: "request_args \<Rightarrow> (jstring \<times> objref option) list" where
  [js_eval]: "request_list a =
     (if ra_items a \<noteq> [] then map (\<lambda>x. (fst x, Some (snd x))) (ra_items a) else [(ra_title a, ra_run a)])"

definition startRequest :: "request_args \<Rightarrow> tab \<Rightarrow> tab" where
  [js_eval]: "startRequest a t =
     (let (ident, s1) = newId (lit ''op'') (tb_s t);
          list = request_list a;
          p = (makeOp ident (st_now s1) (ra_source a) (ra_kind a) (ra_drive a))\<lparr>op_destLabel := ra_label a,
                 op_title := (if ra_title a \<noteq> [] then ra_title a else if length list = 1 then fst (hd list) else []),
                 op_state := OpRunning, op_indeterminate := (ra_items a = []),
                 op_successToast := (case ra_toast a of ToastText m \<Rightarrow> Some m | _ \<Rightarrow> None)\<rparr>;
          (oi, s2) = alloc_op p s1;
          s3 = fold (\<lambda>x. push_item oi (\<lambda>ident. (makeItem ident (fst x))\<lparr>it_run := snd x\<rparr>)) list s2;
          s4 = upd_rt oi (\<lambda>r. r\<lparr>r_invalidateKeys := ra_keys a,
                 r_toastFn := (case ra_toast a of ToastFn f \<Rightarrow> Some f | _ \<Rightarrow> r_toastFn r)\<rparr>) s3
      in on_q (request_start oi) (t\<lparr>tb_s := addOp oi s4\<rparr>))"

section \<open>Actions on an operation\<close>

text \<open>\<open>runnerFor(op).decide\<close>, \<open>.retry\<close> and \<open>.cancel\<close>.\<close>

definition runner_decide :: "op_kind \<Rightarrow> oref \<Rightarrow> iref \<Rightarrow> choice \<Rightarrow> tab \<Rightarrow> tab" where
  [js_eval]: "runner_decide k oi i ch =
     (if is_upload k then on_u (upload_decide oi i ch)
      else if is_job k then on_j (job_decide (oi, i) ch)
      else on_q (request_decide oi i ch))"

definition runner_retry :: "op_kind \<Rightarrow> oref \<Rightarrow> iref list \<Rightarrow> tab \<Rightarrow> tab" where
  [js_eval]: "runner_retry k oi targets =
     (if is_upload k then on_u (upload_retry oi targets)
      else if is_job k then on_j (job_retry oi targets)
      else on_q (request_retry oi targets))"

definition runner_cancel :: "op_kind \<Rightarrow> oref \<Rightarrow> tab \<Rightarrow> tab" where
  [js_eval]: "runner_cancel k oi =
     (if is_upload k then on_s (upload_cancel oi)
      else if is_job k then on_s (job_cancel oi)
      else on_q (request_cancel oi))"

definition runner_cancel_item :: "op_kind \<Rightarrow> oref \<Rightarrow> iref \<Rightarrow> tab \<Rightarrow> tab" where
  [js_eval]: "runner_cancel_item k oi i =
     (if is_upload k then on_s (stop_item oi i)
      else if is_job k then on_s (cancelItem oi i)
      else on_s (request_cancel_item oi i))"

definition with_op :: "jstring \<Rightarrow> (oref \<Rightarrow> iref op \<Rightarrow> tab \<Rightarrow> tab) \<Rightarrow> tab \<Rightarrow> tab" where
  [js_eval]: "with_op opId f t =
     (case getOp opId (tb_s t) of
        None \<Rightarrow> t
      | Some oi \<Rightarrow> (case st_op (tb_s t) oi of None \<Rightarrow> t | Some p \<Rightarrow> f oi p t))"

definition decide :: "jstring \<Rightarrow> jstring \<Rightarrow> choice \<Rightarrow> tab \<Rightarrow> tab" where
  [js_eval]: "decide opId itemId ch =
     with_op opId (\<lambda>oi p t.
       case find_item oi itemId (tb_s t) of
         None \<Rightarrow> t
       | Some i \<Rightarrow> if item_st (tb_s t) i \<noteq> Some NeedsDecision then t else runner_decide (op_kind p) oi i ch t)"

definition allowed :: "decision \<Rightarrow> choice \<Rightarrow> bool" where
  [js_eval]: "allowed d ch \<longleftrightarrow> (case d of Broadens msg opts \<Rightarrow> ch = Skip | Exists k opts \<Rightarrow> ch \<in> set opts)"

definition decide_one :: "op_kind \<Rightarrow> oref \<Rightarrow> choice \<Rightarrow> iref \<Rightarrow> tab \<Rightarrow> tab" where
  [js_eval]: "decide_one k oi ch i t =
     (case st_item (tb_s t) i of
        None \<Rightarrow> t
      | Some x \<Rightarrow>
          if it_state x \<noteq> NeedsDecision then t
          else (case it_decision x of
                  None \<Rightarrow> t
                | Some d \<Rightarrow> if allowed d ch then runner_decide k oi i ch t else t))"

definition decideAll :: "jstring \<Rightarrow> choice \<Rightarrow> tab \<Rightarrow> tab" where
  [js_eval]: "decideAll opId ch =
     with_op opId (\<lambda>oi p t.
       fold (decide_one (op_kind p) oi ch) (op_items p) (on_s (patchOp oi (\<lambda>q. q\<lparr>op_policy := Some ch\<rparr>)) t))"

definition retry_targets :: "(item \<Rightarrow> bool) \<Rightarrow> iref op \<Rightarrow> store \<Rightarrow> iref list" where
  [js_eval]: "retry_targets f p s =
     filter (\<lambda>i. case st_item s i of None \<Rightarrow> False
                 | Some x \<Rightarrow> it_state x = Failed \<and> it_retryable x \<and> f x) (op_items p)"

definition retry :: "jstring \<Rightarrow> jstring option \<Rightarrow> tab \<Rightarrow> tab" where
  [js_eval]: "retry opId itemId =
     with_op opId (\<lambda>oi p t.
       (let targets = retry_targets (\<lambda>x. \<not> truthy itemId \<or> Some (it_id x) = itemId) p (tb_s t)
        in if targets = [] then t else runner_retry (op_kind p) oi targets t))"

definition retryOffline :: "tab \<Rightarrow> tab" where
  [js_eval]: "retryOffline t =
     fold (\<lambda>oi t. case st_op (tb_s t) oi of
             None \<Rightarrow> t
           | Some p \<Rightarrow>
               (let targets = retry_targets it_offline p (tb_s t)
                in if targets = [] then t else runner_retry (op_kind p) oi targets t)) (st_ops (tb_s t)) t"

definition cancel_all :: "oref \<Rightarrow> iref op \<Rightarrow> tab \<Rightarrow> tab" where
  [js_eval]: "cancel_all oi p t =
     on_s (settle oi) (runner_cancel (op_kind p) oi (on_s (upd_op oi (\<lambda>q. q\<lparr>op_cancelled := True\<rparr>)) t))"

definition cancel :: "jstring \<Rightarrow> jstring option \<Rightarrow> tab \<Rightarrow> tab" where
  [js_eval]: "cancel opId itemId =
     with_op opId (\<lambda>oi p t.
       case itemId of
         None \<Rightarrow> cancel_all oi p t
       | Some ident \<Rightarrow>
           if ident = [] then cancel_all oi p t
           else
             (case find_item oi ident (tb_s t) of
                None \<Rightarrow> t
              | Some i \<Rightarrow>
                  if item_st (tb_s t) i = Some Failed \<or> item_st (tb_s t) i = Some NeedsDecision
                  then on_s (settle oi) (on_s (removeItem oi i) (runner_cancel_item (op_kind p) oi i t))
                  else on_s (settle oi) (runner_cancel_item (op_kind p) oi i t)))"

definition clearFailed :: "jstring \<Rightarrow> tab \<Rightarrow> tab" where
  [js_eval]: "clearFailed opId =
     with_op opId (\<lambda>oi p t.
       on_s (\<lambda>s. settle oi (touch oi None (upd_op oi (\<lambda>q. q\<lparr>
         op_items := filter (\<lambda>i. item_st s i \<noteq> Some Failed) (op_items q), op_error := None\<rparr>) s))) t)"

text \<open>\<open>op.endedAt\<close> as a condition: set, and not zero.\<close>

definition ended :: "'i op \<Rightarrow> bool" where
  [js_eval]: "ended p \<longleftrightarrow> (case op_endedAt p of None \<Rightarrow> False | Some n \<Rightarrow> n \<noteq> 0)"

definition dismiss :: "jstring \<Rightarrow> tab \<Rightarrow> tab" where
  [js_eval]: "dismiss opId =
     with_op opId (\<lambda>oi p t.
       (let t1 = (if \<not> ended p
                  then runner_cancel (op_kind p) oi (on_s (upd_op oi (\<lambda>q. q\<lparr>op_cancelled := True\<rparr>)) t) else t)
        in on_s (removeOp oi) (on_j (forget oi) t1)))"

definition hasBrowserWork :: "tab \<Rightarrow> bool" where
  [js_eval]: "hasBrowserWork t \<longleftrightarrow> upload_hasWork (tb_s t) \<or> job_hasWork (tb_s t) \<or> request_hasWork (tb_s t)"

definition openUploadSessions :: "tab \<Rightarrow> (source \<times> jstring \<times> jstring) list" where
  [js_eval]: "openUploadSessions t = upload_sessions (tb_s t)"

definition destroy :: "tab \<Rightarrow> tab" where
  [js_eval]: "destroy t =
     (let t1 = on_j job_stop (on_s (\<lambda>s. s\<lparr>st_destroyed := True\<rparr>) t)
      in on_s (\<lambda>s. fold clear_op_timers (st_ops s) (clear_opt (st_trailing s) s)) t1)"

section \<open>Timers\<close>

definition show_op :: "oref \<Rightarrow> store \<Rightarrow> store" where
  [js_eval]: "show_op oi s =
     (let s1 = upd_rt oi (\<lambda>r. r\<lparr>r_showTimer := None\<rparr>) s
      in case st_op s oi of
           None \<Rightarrow> s1
         | Some p \<Rightarrow>
             if oi \<in> set (st_ops s) \<and> \<not> ended p
             then emit True (touch oi None (upd_op oi (\<lambda>q. q\<lparr>op_shown := True\<rparr>) s1)) else s1)"

definition clear_op :: "oref \<Rightarrow> tab \<Rightarrow> tab" where
  [js_eval]: "clear_op oi t =
     (let t1 = on_s (upd_rt oi (\<lambda>r. r\<lparr>r_clearTimer := None\<rparr>)) t
      in case st_op (tb_s t) oi of
           None \<Rightarrow> t1
         | Some p \<Rightarrow>
             if ended p \<and> \<not> list_ex isProblem (op_item_list (tb_s t) oi)
             then on_s (removeOp oi) (on_j (forget oi) t1) else t1)"

fun fire :: "timer_act \<Rightarrow> tab \<Rightarrow> tab" where
  "fire TrailingEmit t = on_s (\<lambda>s. flush (s\<lparr>st_trailing := None\<rparr>)) t"
| "fire (ShowOp oi) t = on_s (show_op oi) t"
| "fire (FlushOp oi) t = on_s (\<lambda>s. flushFolders oi (upd_rt oi (\<lambda>r. r\<lparr>r_invTimer := None\<rparr>) s)) t"
| "fire (ClearOp oi) t = clear_op oi t"
| "fire PollJobs t = on_j poll_fired t"
| "fire RetryQueue t = on_j retry_fired t"

declare fire.simps [js_eval]

section \<open>Events\<close>

datatype event =
  StartUpload upload_args listing
| StartJobs job_args
| StartRequest request_args
| Decide jstring jstring choice
| DecideAll jstring choice
| Retry jstring "jstring option"
| RetryOffline
| Cancel jstring "jstring option"
| ClearFailed jstring
| Dismiss jstring
| Destroy
| Tick nat
| TimerFires nat
| NamesKnown oref iref
| WalkFile oref objref file_obj jstring listing
| WalkDir oref objref jstring
| WalkError oref objref jstring
| WalkEnds oref objref
| MkdirDone mk_state "failure + unit"
| StatDone mk_state "entry_kind option"
| RunProgress run_state nat
| RunSession run_state jstring
| RunRetrying run_state
| RunDone run_state "failure + jstring option"
| RunFinally run_state
| SubmitDone "nat \<times> entry" "failure + job"
| RemoveDone "nat \<times> entry" "failure + unit"
| PollListDone nat "job list option"
| PollGetDone nat "(jstring \<times> entry) list" "jstring \<times> entry" "failure + job option"
| PollEnds nat
| StorageFull bool
| RequestDone "oref \<times> iref \<times> objref" "failure + unit"

definition given :: "bool \<Rightarrow> tab \<Rightarrow> tab option" where
  [js_eval]: "given b t = (if b then Some t else None)"

definition aborted :: "objref \<Rightarrow> store \<Rightarrow> bool" where
  [js_eval]: "aborted ctl s \<longleftrightarrow> AbortSignalled ctl \<in> set (st_log s)"

text \<open>
  One event. An event of the browser or of Luna needs the call it answers to be awaited. The walk of
  a drop reports nothing more to the upload queue once its signal is aborted, except what it could
  not read.
\<close>

fun tab_step :: "event \<Rightarrow> tab \<Rightarrow> tab option" where
  "tab_step (StartUpload a ls) t = given (is_upload (ua_kind a)) (startUpload ls a t)"
| "tab_step (StartJobs a) t = given (is_job (ja_kind a)) (startJobs a t)"
| "tab_step (StartRequest a) t = given (\<not> is_upload (ra_kind a) \<and> \<not> is_job (ra_kind a)) (startRequest a t)"
| "tab_step (Decide opId itemId ch) t = Some (decide opId itemId ch t)"
| "tab_step (DecideAll opId ch) t = given (ch \<noteq> Confirm) (decideAll opId ch t)"
| "tab_step (Retry opId itemId) t = Some (retry opId itemId t)"
| "tab_step RetryOffline t = Some (retryOffline t)"
| "tab_step (Cancel opId itemId) t = Some (cancel opId itemId t)"
| "tab_step (ClearFailed opId) t = Some (clearFailed opId t)"
| "tab_step (Dismiss opId) t = Some (dismiss opId t)"
| "tab_step Destroy t = Some (destroy t)"
| "tab_step (Tick ms) t = Some (on_s (\<lambda>s. s\<lparr>st_now := st_now s + ms\<rparr>) t)"
| "tab_step (TimerFires k) t =
     (case List.find (\<lambda>x. fst x = k) (st_timers (tb_s t)) of
        None \<Rightarrow> None
      | Some (_, due, act) \<Rightarrow> given (due \<le> st_now (tb_s t)) (fire act (on_s (clearTimer k) t)))"
| "tab_step (NamesKnown oi i) t = given ((oi, i) \<in> set (u_prep (tb_u t))) (on_u (prepare_resume oi i) t)"
| "tab_step (WalkFile oi ctl f rel ls) t =
     given ((oi, ctl) \<in> set (u_walks (tb_u t)) \<and> \<not> aborted ctl (tb_s t))
       (on_u (addFile ls oi f (fst (splitRel rel)) (snd (splitRel rel)) rel) t)"
| "tab_step (WalkDir oi ctl rel) t =
     given ((oi, ctl) \<in> set (u_walks (tb_u t)) \<and> \<not> aborted ctl (tb_s t)) (on_u (addFolder oi rel) t)"
| "tab_step (WalkError oi ctl rel) t = given ((oi, ctl) \<in> set (u_walks (tb_u t))) (on_u (addUnreadable oi rel) t)"
| "tab_step (WalkEnds oi ctl) t = given ((oi, ctl) \<in> set (u_walks (tb_u t))) (on_u (walk_end oi ctl) t)"
| "tab_step (MkdirDone m res) t =
     given (m \<in> set (u_mk (tb_u t)) \<and> mk_phase m = MkWait) (on_u (mkdir_result m res) t)"
| "tab_step (StatDone m k) t =
     given (m \<in> set (u_mk (tb_u t)) \<and> mk_phase m = StatWait) (on_u (stat_result m k) t)"
| "tab_step (RunProgress r n) t =
     given (r \<in> set (u_runs (tb_u t)) \<and> ru_phase r = Sending) (on_u (run_progress r n) t)"
| "tab_step (RunSession r uid) t =
     given (r \<in> set (u_runs (tb_u t)) \<and> ru_phase r = Sending) (on_u (run_session r uid) t)"
| "tab_step (RunRetrying r) t =
     given (r \<in> set (u_runs (tb_u t)) \<and> ru_phase r = Sending) (on_u (run_retrying r) t)"
| "tab_step (RunDone r res) t =
     given (r \<in> set (u_runs (tb_u t)) \<and> ru_phase r = Sending) (on_u (run_result r res) t)"
| "tab_step (RunFinally r) t =
     given (r \<in> set (u_runs (tb_u t)) \<and> ru_phase r = RunEnded) (on_u (run_finally r) t)"
| "tab_step (SubmitDone r res) t = given (r \<in> set (j_submits (tb_j t))) (on_j (submit_result r res) t)"
| "tab_step (RemoveDone r res) t = given (r \<in> set (j_removes (tb_j t))) (on_j (remove_result r res) t)"
| "tab_step (PollListDone k res) t = given ((k, PollList) \<in> set (j_polls (tb_j t))) (on_j (poll_list k res) t)"
| "tab_step (PollGetDone k pend x res) t =
     given ((k, PollGets pend) \<in> set (j_polls (tb_j t)) \<and> x \<in> set pend) (on_j (poll_get k pend x res) t)"
| "tab_step (PollEnds k) t = given ((k, PollGets []) \<in> set (j_polls (tb_j t))) (on_j (poll_done k) t)"
| "tab_step (StorageFull b) t = Some (t\<lparr>tb_j := (tb_j t)\<lparr>j_full := b\<rparr>\<rparr>)"
| "tab_step (RequestDone d res) t = given (d \<in> set (q_drives (tb_q t))) (on_q (drive_result d res) t)"

declare tab_step.simps [js_eval]

text \<open>
  A new store (\<open>createFileOpsStore\<close> without \<open>initialOps\<close>): the jobs stored by an earlier load
  of the tab are picked up, then the first state is published.
\<close>

definition createFileOpsStore :: "source \<Rightarrow> jstring \<Rightarrow> time \<Rightarrow> stored_job list option \<Rightarrow> tab" where
  [js_eval]: "createFileOpsStore src tag now storage =
     (let t0 = \<lparr>tb_s = init_store tag now, tb_u = init_uploads, tb_j = init_jobs storage, tb_q = init_requests\<rparr>
      in on_s flush (on_j (restore src) t0))"

text \<open>
  The tab starts with the jobs of an earlier load, however many: they are what the job runner stored, so
  they are copies and moves.
\<close>

definition tab_start :: "tab \<Rightarrow> bool" where
  "tab_start t \<longleftrightarrow> (\<exists>src tag now storage. t = createFileOpsStore src tag now storage
     \<and> list_all (\<lambda>x. is_job (sj_kind x)) (readStoredJobs (init_jobs storage)))"

inductive tab_reachable :: "tab \<Rightarrow> bool" where
  start: "tab_start t \<Longrightarrow> tab_reachable t"
| step: "tab_reachable s \<Longrightarrow> tab_step e s = Some t \<Longrightarrow> tab_reachable t"

text \<open>The states a given tab runs through.\<close>

inductive tab_run :: "tab \<Rightarrow> tab \<Rightarrow> bool" for t0 where
  here: "tab_run t0 t0"
| step: "tab_run t0 s \<Longrightarrow> tab_step e s = Some t \<Longrightarrow> tab_run t0 t"

end
