(* ===== verification/Interfaces.thy ===== *)
theory Interfaces
  imports JsPrelude
begin

text \<open>
  The contracts that several components share: a loop that starts queued work while a slot is free,
  an encoder with its decoder, and a system of events with its invariants. Each locale is
  interpreted in the theories of the components that meet the contract.
\<close>

section \<open>Pumps\<close>

text \<open>
  A pump takes entries off the front of a queue while a slot is free, starts the ones that are still
  wanted and drops the others. Both the upload pool and the job queue are pumps.
\<close>

locale pump_loop =
  fixes queue :: "'s \<Rightarrow> 'e list"
    and slots :: "'s \<Rightarrow> nat"
    and cap :: nat
    and pop :: "'s \<Rightarrow> 's"
    and fit :: "'s \<Rightarrow> 'e \<Rightarrow> bool"
    and start :: "'e \<Rightarrow> 's \<Rightarrow> 's"
    and pump :: "'s \<Rightarrow> 's"
  assumes pump_eq: "pump s =
      (if queue s \<noteq> [] \<and> slots s < cap then
         (if fit s (hd (queue s)) then pump (start (hd (queue s)) (pop s)) else pump (pop s))
       else s)"
    and queue_pop: "queue (pop s) = tl (queue s)"
    and slots_pop: "slots (pop s) = slots s"
    and queue_start: "queue (start e s) = queue s"
    and slots_start: "slots (start e s) = Suc (slots s)"
begin

lemma pump_invariant:
  assumes "P s"
    and "\<And>s. P s \<Longrightarrow> queue s \<noteq> [] \<Longrightarrow> slots s < cap \<Longrightarrow> fit s (hd (queue s)) \<Longrightarrow> P (start (hd (queue s)) (pop s))"
    and "\<And>s. P s \<Longrightarrow> queue s \<noteq> [] \<Longrightarrow> \<not> fit s (hd (queue s)) \<Longrightarrow> P (pop s)"
  shows "P (pump s)"
  using assms(1)
proof (induction "length (queue s)" arbitrary: s rule: less_induct)
  case less
  show ?case
  proof (cases "queue s \<noteq> [] \<and> slots s < cap")
    case True
    then have l: "length (tl (queue s)) < length (queue s)" by (cases "queue s") simp_all
    show ?thesis
    proof (cases "fit s (hd (queue s))")
      case fits: True
      have "P (pump (start (hd (queue s)) (pop s)))"
        using less.hyps l less.prems True fits assms(2) by (simp add: queue_start queue_pop)
      then show ?thesis using True fits by (subst pump_eq) simp
    next
      case unfit: False
      have "P (pump (pop s))"
        using less.hyps l less.prems True unfit assms(3) by (simp add: queue_pop)
      then show ?thesis using True unfit by (subst pump_eq) simp
    qed
  next
    case False
    then show ?thesis using less.prems by (subst pump_eq) auto
  qed
qed

lemma slots_pump: "slots s \<le> cap \<Longrightarrow> slots (pump s) \<le> cap"
  by (rule pump_invariant [of "\<lambda>s. slots s \<le> cap"]) (simp_all add: slots_start slots_pop)

lemma pump_fifo: "\<exists>n. queue (pump s) = drop n (queue s)"
  by (rule pump_invariant [of "\<lambda>t. \<exists>n. queue t = drop n (queue s)"])
    (auto simp: queue_start queue_pop tl_drop drop_Suc intro: exI [of _ 0] exI [of _ "Suc _"])

text \<open>No slot stays free while something waits.\<close>

lemma pump_work_conserving: "queue (pump s) = [] \<or> cap \<le> slots (pump s)"
proof (induction "length (queue s)" arbitrary: s rule: less_induct)
  case less
  show ?case
  proof (cases "queue s \<noteq> [] \<and> slots s < cap")
    case True
    then have l: "length (tl (queue s)) < length (queue s)" by (cases "queue s") simp_all
    have "queue (pump (start (hd (queue s)) (pop s))) = [] \<or> cap \<le> slots (pump (start (hd (queue s)) (pop s)))"
      using l by (intro less.hyps) (simp add: queue_start queue_pop)
    moreover have "queue (pump (pop s)) = [] \<or> cap \<le> slots (pump (pop s))"
      using l by (intro less.hyps) (simp add: queue_pop)
    ultimately show ?thesis using True by (subst (1 2) pump_eq) simp
  next
    case False
    then have "pump s = s" by (subst pump_eq) auto
    then show ?thesis using False by auto
  qed
qed

end

section \<open>Codecs\<close>

locale codec =
  fixes enc :: "'a \<Rightarrow> 'b"
    and dec :: "'b \<Rightarrow> 'a option"
    and valid :: "'a \<Rightarrow> bool"
  assumes dec_enc: "valid x \<Longrightarrow> dec (enc x) = Some x"
begin

lemma enc_inj: "valid x \<Longrightarrow> valid y \<Longrightarrow> enc x = enc y \<Longrightarrow> x = y"
  using dec_enc by (metis option.inject)

lemma enc_inj_on: "inj_on enc {x. valid x}"
  by (auto intro!: inj_onI dest: enc_inj)

end

section \<open>Systems of events\<close>

text \<open>
  A system takes one event at a time; an event that cannot happen in a state has no successor.
\<close>

locale event_system =
  fixes start_state :: "'s \<Rightarrow> bool"
    and step :: "'e \<Rightarrow> 's \<Rightarrow> 's option"
    and reachable :: "'s \<Rightarrow> bool"
  assumes reachable_start: "start_state s \<Longrightarrow> reachable s"
    and reachable_step: "reachable s \<Longrightarrow> step e s = Some t \<Longrightarrow> reachable t"
    and reachable_least: "reachable s \<Longrightarrow> (\<And>s. start_state s \<Longrightarrow> P s) \<Longrightarrow>
      (\<And>s e t. reachable s \<Longrightarrow> P s \<Longrightarrow> step e s = Some t \<Longrightarrow> P t) \<Longrightarrow> P s"
begin

fun run_events :: "'e list \<Rightarrow> 's \<Rightarrow> 's option" where
  "run_events [] s = Some s"
| "run_events (e # es) s = (case step e s of None \<Rightarrow> None | Some t \<Rightarrow> run_events es t)"

lemma run_events_reachable: "reachable s \<Longrightarrow> run_events es s = Some t \<Longrightarrow> reachable t"
  by (induction es arbitrary: s) (auto split: option.splits intro: reachable_step)

end

text \<open>An invariant holds at the start and is kept by every event in a reachable state.\<close>

locale invariant_system = event_system start_state step reachable
  for start_state :: "'s \<Rightarrow> bool" and step :: "'e \<Rightarrow> 's \<Rightarrow> 's option" and reachable :: "'s \<Rightarrow> bool" +
  fixes inv :: "'s \<Rightarrow> bool"
  assumes inv_start: "start_state s \<Longrightarrow> inv s"
    and inv_step: "reachable s \<Longrightarrow> inv s \<Longrightarrow> step e s = Some t \<Longrightarrow> inv t"
begin

lemma reachable_inv: "reachable s \<Longrightarrow> inv s"
  by (rule reachable_least [of s inv]) (auto intro: inv_start inv_step)

end

end
