(* ===== verification/UploadPool.thy ===== *)
theory UploadPool
  imports UploadRunner Interfaces
begin

text \<open>
  Correctness of the upload runner: the pool is a pump of three slots, every slot that is taken
  belongs to one request, and no file is sent twice at the same time.
\<close>

section \<open>The pool is a pump\<close>

definition pool_queue :: "ust \<Rightarrow> (oref \<times> iref) list" where
  "pool_queue su = u_ready (snd su)"

definition pool_slots :: "ust \<Rightarrow> nat" where
  "pool_slots su = u_active (snd su)"

definition pool_pop :: "ust \<Rightarrow> ust" where
  "pool_pop su = (fst su, (snd su)\<lparr>u_ready := tl (u_ready (snd su))\<rparr>)"

definition pool_start :: "oref \<times> iref \<Rightarrow> ust \<Rightarrow> ust" where
  "pool_start e su = run (fst e) (snd e) (fst su, (snd su)\<lparr>u_active := Suc (u_active (snd su))\<rparr>)"

interpretation pool: pump_loop pool_queue pool_slots UPLOAD_PARALLEL pool_pop "\<lambda>su. startable (fst su)" pool_start upload_pump
proof
  show "upload_pump su =
      (if pool_queue su \<noteq> [] \<and> pool_slots su < UPLOAD_PARALLEL then
         (if startable (fst su) (hd (pool_queue su)) then upload_pump (pool_start (hd (pool_queue su)) (pool_pop su))
          else upload_pump (pool_pop su))
       else su)" for su
    by (subst upload_pump.simps) (simp add: pool_queue_def pool_slots_def pool_pop_def pool_start_def Let_def conj_commute)
qed (simp_all add: pool_queue_def pool_slots_def pool_pop_def pool_start_def run_u)

lemma handleError_no_complete:
  assumes "st_op (fst su) oi = Some p" "st_item (fst su) i = Some x" "it_state x \<noteq> Cancelled"
  shows "handleError oi i no_complete_error su =
     (fail_upload oi i (classifyError no_complete_error (op_kind p) None False) (fst su), snd su)"
  using assms by (simp add: handleError_def no_complete_error_def isAbort_def classifyError_def Let_def)

section \<open>What the runner's functions keep\<close>

lemmas item_patch = item_static_def op_static_def

lemma keeps_endSession [simp, intro]: "keeps s (endSession oi i s)"
  by (auto simp: endSession_def item_patch split: option.splits intro!: keeps_intros)

lemma keeps_fail_upload: "keeps s t \<Longrightarrow> keeps s (fail_upload oi i c t)"
  unfolding fail_upload_def by (intro keeps_intros) (simp_all add: item_patch)

lemma keeps_run: "keeps (fst su) (fst (run oi i su))"
  by (auto simp: run_def Let_def split_beta item_patch split: option.splits intro!: keeps_intros keeps_fail_upload)

lemma keeps_upload_pump: "keeps (fst su) (fst (upload_pump su))"
  by (rule pool.pump_invariant [of "\<lambda>t. keeps (fst su) (fst t)"])
    (auto simp: pool_start_def pool_pop_def intro: keeps_trans [OF _ keeps_run [of "(_, _)", simplified]])

lemma keeps_enqueue: "keeps (fst su) (fst (enqueue oi i su))"
  using keeps_upload_pump [of "(fst su, _)"] by (simp add: enqueue_def)

lemma keeps_apply_choice: "keeps (fst su) (fst (apply_choice oi i ch su))"
proof (cases "ch = Skip")
  case True
  then show ?thesis
    by (auto simp: apply_choice_def item_patch intro!: keeps_intros)
next
  case False
  let ?f = "\<lambda>x. x\<lparr>it_state := Queued, it_decision := None, it_conflict := Some (if ch = Replace then Replace else KeepBoth)\<rparr>"
  have "keeps (fst su) (patchItem oi i ?f (fst su))" by (rule keeps_patchItem) (simp add: item_patch)
  then show ?thesis using False keeps_trans [OF _ keeps_enqueue [of "(patchItem oi i ?f (fst su), snd su)"]]
    by (simp add: apply_choice_def)
qed

lemma keeps_keep_session [simp, intro]: "keeps s (keep_session i session s)"
  by (auto simp: keep_session_def item_patch split: option.split intro!: keeps_intros)

lemma keeps_ask_decision: "keeps s t \<Longrightarrow> keeps s (ask_decision oi i d t)"
  unfolding ask_decision_def by (intro keeps_intros) (simp_all add: item_patch)

lemma keeps_clash: "keeps (fst su) (fst (clash oi i k session su))"
proof -
  have "keeps (fst su) (fst (apply_choice oi i ch (keep_session i session (fst su), snd su)))" for ch
    using keeps_trans [OF keeps_keep_session keeps_apply_choice [of "(_, snd su)", simplified]] by simp
  then show ?thesis by (simp add: clash_def Let_def keeps_ask_decision split: option.split)
qed

lemma keeps_handleError: "keeps (fst su) (fst (handleError oi i err su))"
proof -
  let ?s1 = "patchItem oi i (\<lambda>y. y\<lparr>it_abort := None, it_retrying := False\<rparr>) (fst su)"
  have 1: "keeps (fst su) ?s1" by (rule keeps_patchItem) (simp add: item_patch)
  have 2: "keeps (fst su) (fst (clash oi i k session (?s1, snd su)))" for k session
    using keeps_trans [OF 1] keeps_clash [of "(?s1, snd su)"] by simp
  have 3: "keeps (fst su) (fail_upload oi i c (fst su))" for c by (rule keeps_fail_upload) simp
  have 4: "keeps (fst su) (patchItem oi i (\<lambda>y. y\<lparr>it_state := Cancelled, it_abort := None\<rparr>) (fst su))"
    by (rule keeps_patchItem) (simp add: item_patch)
  show ?thesis using 2 3 4 by (simp add: handleError_def Let_def split: option.split decision.split)
qed

lemma keeps_prepare: "keeps (fst su) (fst (prepare ls oi i su))"
  using keeps_enqueue [of su] by (auto simp: prepare_def knownNames_def split: option.splits)

lemma keeps_prepare_resume: "keeps (fst su) (fst (prepare_resume oi i su))"
  using keeps_enqueue [of "(fst su, _)"] keeps_clash [of "(fst su, _)"]
  by (simp add: prepare_resume_def Let_def split: option.split)

lemma keeps_mk_next: "keeps (fst su) (fst (mk_next k oi i path rest made su))"
  by (auto simp: mk_next_def mk_stop_def Let_def item_patch split: list.splits intro!: keeps_intros)

lemma keeps_makeFolders: "keeps (fst su) (fst (makeFolders oi i rel su))"
proof (cases "st_op (fst su) oi")
  case (Some p)
  have "keeps (fst su) (snd (new_ref (fst su)))" by simp
  from keeps_trans [OF this keeps_mk_next [of "(snd (new_ref (fst su)), snd su)", simplified]]
  show ?thesis using Some by (simp add: makeFolders_def Let_def split_beta)
qed (simp add: makeFolders_def)

lemma keeps_mk_after_stat: "keeps (fst su) (fst (mk_after_stat m kind su))"
  using keeps_mk_next [of su]
  by (auto simp: mk_after_stat_def mk_fail_def item_patch split: option.split intro!: keeps_intros)

lemma keeps_mkdir_result: "keeps (fst su) (fst (mkdir_result m res su))"
  using keeps_mk_next [of "(fst su, _)"] keeps_mk_after_stat [of "(fst su, _)"]
  by (auto simp: mkdir_result_def mk_fail_def mk_stop_def Let_def item_patch split: option.split sum.split intro!: keeps_intros)

lemma keeps_stat_result: "keeps (fst su) (fst (stat_result m kind su))"
  using keeps_mk_after_stat [of "(fst su, _)"] by (simp add: stat_result_def)

lemma keeps_run_events:
  "keeps (fst su) (fst (run_progress r n su))" "keeps (fst su) (fst (run_session r uid su))"
  "keeps (fst su) (fst (run_retrying r su))"
  by (auto simp: run_progress_def run_session_def run_retrying_def Let_def item_patch intro!: keeps_intros)

lemma keeps_run_ok: "keeps s (run_ok r n s)"
  by (auto simp: run_ok_def item_patch split: option.split intro!: keeps_intros)

lemma keeps_run_result: "keeps (fst su) (fst (run_result r res su))"
  using keeps_run_ok [of "fst su" r] keeps_handleError [of "(fst su, end_run r (snd su))"]
  by (auto simp: run_result_def Let_def split: sum.split intro!: keeps_intros)

lemma keeps_run_finally: "keeps (fst su) (fst (run_finally r su))"
  using keeps_upload_pump [of "(fst su, _)"] by (simp add: run_finally_def)

lemma keeps_retry_one: "keeps (fst su) (fst (retry_one oi i su))"
proof (cases "st_item (fst su) i")
  case (Some x)
  let ?f = "\<lambda>y. y\<lparr>it_state := Running, it_error := None, it_offline := False\<rparr>"
  let ?g = "\<lambda>y. y\<lparr>it_state := Queued, it_error := None, it_offline := False, it_received := 0\<rparr>"
  let ?h = "\<lambda>y. y\<lparr>it_uploadId := None, it_completeOnly := False\<rparr>"
  have 1: "keeps (fst su) (patchItem oi i ?f (fst su))" "keeps (fst su) (patchItem oi i ?g (upd_item i ?h (fst su)))"
    by (auto simp: item_patch intro!: keeps_intros)
  show ?thesis
    using Some keeps_trans [OF 1(1) keeps_makeFolders [of "(_, snd su)", simplified]]
      keeps_trans [OF 1(2) keeps_enqueue [of "(_, snd su)", simplified]]
    by (simp add: retry_one_def)
qed (simp add: retry_one_def)

lemma keeps_fold_ust:
  assumes "\<And>x su. keeps (fst su) (fst (f x su))"
  shows "keeps (fst su) (fst (fold f xs su))"
proof (induction xs arbitrary: su)
  case (Cons x xs)
  show ?case using keeps_trans [OF assms Cons.IH] by simp
qed simp

lemma keeps_upload_retry: "keeps (fst su) (fst (upload_retry oi targets su))"
  using keeps_fold_ust [of "retry_one oi" su targets, OF keeps_retry_one] by (auto simp: upload_retry_def Let_def intro!: keeps_intros)

lemma keeps_abort_opt: "keeps s t \<Longrightarrow> keeps s (abort_opt ctl t)"
  by (auto simp: abort_opt_def split: option.split intro: keeps_intros)

lemma keeps_stop_item: "keeps s (stop_item oi i s)"
  by (auto simp: stop_item_def Let_def item_patch split: option.split
      intro!: keeps_intros keeps_endSession keeps_abort_opt)

lemma keeps_fold_store:
  assumes "\<And>x s. keeps s (f x s)"
  shows "keeps s (fold f xs s)"
proof (induction xs arbitrary: s)
  case (Cons x xs)
  show ?case using keeps_trans [OF assms Cons.IH] by simp
qed simp

lemma keeps_upload_cancel: "keeps s (upload_cancel oi s)"
proof -
  have "keeps s (upd_op oi (\<lambda>q. q\<lparr>op_walking := False\<rparr>) (abort_opt (r_walkAbort (st_rt s oi)) s))"
    by (auto simp: item_patch intro!: keeps_intros keeps_abort_opt)
  from keeps_trans [OF this keeps_fold_store [of "stop_item oi", OF keeps_stop_item]] show ?thesis
    by (simp add: upload_cancel_def Let_def split: option.split)
qed

section \<open>Slots and tokens\<close>

text \<open>
  A run that is still sending holds its item, and so does an entry of the queue or a name check that
  is still awaited. \<open>held\<close> counts the last two for an item, \<open>sending\<close> the first.
\<close>

definition held :: "uploads \<Rightarrow> iref \<Rightarrow> nat" where
  "held u i = count_list (map snd (u_ready u)) i + count_list (map snd (u_prep u)) i"

definition sending :: "uploads \<Rightarrow> iref \<Rightarrow> nat" where
  "sending u i = length (filter (\<lambda>r. ru_item r = i \<and> ru_phase r = Sending) (u_runs u))"

text \<open>Which holds go with which state of a file.\<close>

fun tok_ok :: "item_state \<Rightarrow> nat \<Rightarrow> nat \<Rightarrow> bool" where
  "tok_ok Queued w d \<longleftrightarrow> w \<le> 1 \<and> d = 0"
| "tok_ok Uploading w d \<longleftrightarrow> w = 0 \<and> d = 1"
| "tok_ok Finishing w d \<longleftrightarrow> w = 0 \<and> d = 1"
| "tok_ok Cancelled w d \<longleftrightarrow> w + d \<le> 1"
| "tok_ok _ w d \<longleftrightarrow> w = 0 \<and> d = 0"

text \<open>
  An item of an upload that is not a file (a folder, or a row for something unreadable) is held by
  nothing and is never asked about.
\<close>

definition up_item :: "store \<Rightarrow> iref \<Rightarrow> bool" where
  "up_item s i \<longleftrightarrow> (\<exists>oi p. st_op s oi = Some p \<and> is_upload (op_kind p) \<and> i \<in> set (op_items p))"

fun slot_ok :: "bool \<Rightarrow> item option \<Rightarrow> nat \<Rightarrow> nat \<Rightarrow> bool" where
  "slot_ok up None w d \<longleftrightarrow> w = 0 \<and> d = 0"
| "slot_ok up (Some x) w d \<longleftrightarrow>
     (if it_file x = None then w = 0 \<and> d = 0 \<and> (up \<longrightarrow> it_state x \<noteq> NeedsDecision) else tok_ok (it_state x) w d)"

definition item_tok :: "ust \<Rightarrow> iref \<Rightarrow> bool" where
  "item_tok su i \<longleftrightarrow> slot_ok (up_item (fst su) i) (st_item (fst su) i) (held (snd su) i) (sending (snd su) i)"

definition free_tok :: "ust \<Rightarrow> iref \<Rightarrow> bool" where
  "free_tok su i \<longleftrightarrow> held (snd su) i = 0 \<and> sending (snd su) i = 0"

definition is_file :: "store \<Rightarrow> iref \<Rightarrow> bool" where
  "is_file s i \<longleftrightarrow> (\<exists>x. st_item s i = Some x \<and> it_file x \<noteq> None)"

definition is_plain :: "store \<Rightarrow> iref \<Rightarrow> bool" where
  "is_plain s i \<longleftrightarrow> (\<exists>x. st_item s i = Some x \<and> it_file x = None)"

lemma is_plain_not_file: "is_plain s i \<Longrightarrow> \<not> is_file s i"
  by (auto simp: is_plain_def is_file_def)

text \<open>
  The heap: listed operations exist, references not yet given out are unused, and a folder is not a file.
\<close>

definition heap_ok :: "store \<Rightarrow> bool" where
  "heap_ok s \<longleftrightarrow> (\<forall>oi \<in> set (st_ops s). st_op s oi \<noteq> None)
     \<and> (\<forall>i \<ge> st_next s. st_item s i = None) \<and> (\<forall>oi \<ge> st_next s. st_op s oi = None)
     \<and> (\<forall>i x. st_item s i = Some x \<longrightarrow> it_isDir x \<longrightarrow> it_file x = None)"

definition runs_ok :: "ust \<Rightarrow> bool" where
  "runs_ok su \<longleftrightarrow> u_active (snd su) = length (u_runs (snd su)) \<and> u_active (snd su) \<le> UPLOAD_PARALLEL
     \<and> distinct (map ru_id (u_runs (snd su)))
     \<and> (\<forall>r \<in> set (u_runs (snd su)). ru_id r < st_next (fst su) \<and> st_op (fst su) (ru_op r) \<noteq> None
          \<and> st_item (fst su) (ru_item r) \<noteq> None)"

definition mk_ok :: "ust \<Rightarrow> bool" where
  "mk_ok su \<longleftrightarrow> (\<forall>m \<in> set (u_mk (snd su)). is_plain (fst su) (mk_item m))"

definition pool_ok :: "ust \<Rightarrow> bool" where
  "pool_ok su \<longleftrightarrow> heap_ok (fst su) \<and> runs_ok su \<and> mk_ok su"

lemma keeps_item_back:
  "keeps s t \<Longrightarrow> st_item t i = Some y \<Longrightarrow> \<exists>x. st_item s i = Some x \<and> item_static y = item_static x"
  by (simp add: keeps_def) (metis map_option_eq_Some)

lemma heap_ok_keeps:
  assumes h: "heap_ok s" and k: "keeps s t"
  shows "heap_ok t"
proof -
  have "st_ops t = st_ops s" "st_next s \<le> st_next t" using k by (simp_all add: keeps_def)
  moreover have "it_isDir y \<Longrightarrow> it_file y = None" if "st_item t i = Some y" for i y
    using keeps_item_back [OF k that] h by (auto simp: heap_ok_def item_static_def)
  ultimately show ?thesis using h keeps_op [OF k] keeps_item [OF k] by (auto simp: heap_ok_def)
qed

lemma runs_ok_keeps:
  assumes r: "runs_ok (s, u)" and k: "keeps s t"
  shows "runs_ok (t, u)"
proof -
  have "st_next s \<le> st_next t" using k by (simp add: keeps_def)
  then show ?thesis using r keeps_op [OF k] keeps_item [OF k] unfolding runs_ok_def fst_conv snd_conv
    by (meson order_less_le_trans)
qed

lemma is_file_keeps:
  assumes k: "keeps s t"
  shows "is_file t i \<longleftrightarrow> is_file s i"
proof -
  have "map_option it_file (st_item t i) = map_option it_file (st_item s i)"
    using keeps_item_Some [OF k, of i] keeps_item [OF k, of i]
    by (cases "st_item s i") (auto simp: item_static_def)
  then show ?thesis unfolding is_file_def by (cases "st_item s i"; cases "st_item t i") simp_all
qed

lemma up_item_keeps:
  assumes k: "keeps s t"
  shows "up_item t i \<longleftrightarrow> up_item s i"
proof -
  have "(\<exists>p. st_op t oi = Some p \<and> is_upload (op_kind p) \<and> i \<in> set (op_items p)) \<longleftrightarrow>
        (\<exists>p. st_op s oi = Some p \<and> is_upload (op_kind p) \<and> i \<in> set (op_items p))" for oi
    using keeps_op_Some [OF k, of oi] keeps_op [OF k, of oi]
    by (cases "st_op s oi") (auto simp: op_static_def)
  then show ?thesis by (simp add: up_item_def)
qed

lemma is_plain_keeps: "keeps s t \<Longrightarrow> is_plain t i \<longleftrightarrow> is_plain s i"
  using is_file_keeps [of s t i] keeps_item [of s t i]
  by (cases "st_item s i"; cases "st_item t i") (auto simp: is_plain_def is_file_def)

lemma mk_ok_keeps: "mk_ok (s, u) \<Longrightarrow> keeps s t \<Longrightarrow> mk_ok (t, u)"
  by (simp add: mk_ok_def is_plain_keeps)

lemma pool_ok_keeps: "pool_ok (s, u) \<Longrightarrow> keeps s t \<Longrightarrow> pool_ok (t, u)"
  by (auto simp: pool_ok_def intro: heap_ok_keeps runs_ok_keeps mk_ok_keeps)

lemma pool_ok_queue [simp]:
  "pool_ok (s, u\<lparr>u_ready := q\<rparr>) \<longleftrightarrow> pool_ok (s, u)" "pool_ok (s, u\<lparr>u_prep := pr\<rparr>) \<longleftrightarrow> pool_ok (s, u)"
  "pool_ok (s, u\<lparr>u_walks := ws\<rparr>) \<longleftrightarrow> pool_ok (s, u)"
  by (simp_all add: pool_ok_def runs_ok_def mk_ok_def)

lemma tok_ok_mono: "tok_ok st w d \<Longrightarrow> w' \<le> w \<Longrightarrow> tok_ok st w' d"
  by (cases st) auto

lemma slot_ok_mono: "slot_ok up x w d \<Longrightarrow> w' \<le> w \<Longrightarrow> slot_ok up x w' d"
  by (cases x) (auto split: if_splits intro: tok_ok_mono)

text \<open>What starting a run does: one more run, and the item is being sent (or failed at once).\<close>

definition run_fails :: "iref op \<Rightarrow> item \<Rightarrow> bool" where
  "run_fails p x \<longleftrightarrow> it_completeOnly x \<and> \<not> src_completeUpload (op_source p)"

lemma run_effect:
  assumes "st_op s oi = Some p" "st_item s i = Some x"
  shows "u_runs (snd (run oi i (s, u))) = u_runs u @ [\<lparr>ru_id = st_next s, ru_op = oi, ru_item = i,
           ru_size = it_size x, ru_phase = (if run_fails p x then RunEnded else Sending)\<rparr>]"
    and "\<exists>y. st_item (fst (run oi i (s, u))) = (st_item s)(i \<mapsto> y) \<and> it_file y = it_file x
           \<and> it_state y = (if run_fails p x then Failed else if it_completeOnly x then Finishing else Uploading)"
    and "keeps (s\<lparr>st_next := Suc (st_next s)\<rparr>) (fst (run oi i (s, u)))"
  using assms
  by (cases "it_completeOnly x"; cases "src_completeUpload (op_source p)";
      auto simp: run_def new_ref_def Let_def run_fails_def fail_upload_def item_patch intro!: keeps_intros)+

lemma run_pool_ok:
  assumes "pool_ok (s, u)" "u_active u < UPLOAD_PARALLEL" "startable s (oi, i)"
  shows "pool_ok (run oi i (s, u\<lparr>u_active := Suc (u_active u)\<rparr>))"
proof -
  let ?su = "(s, u\<lparr>u_active := Suc (u_active u)\<rparr>)"
  obtain p x where px: "st_op s oi = Some p" "st_item s i = Some x"
    using assms(1,3) by (auto simp: startable_def isAlive_def item_st_def pool_ok_def heap_ok_def)
  note e = run_effect [OF px, of "u\<lparr>u_active := Suc (u_active u)\<rparr>"]
  from e(3)
  have "st_next s < st_next (fst (run oi i ?su))" by (simp add: keeps_def)
  moreover have k: "keeps s (fst (run oi i ?su))" using keeps_run [of ?su] by simp
  ultimately have "runs_ok (run oi i ?su)"
    using assms(1,2) e(1) px keeps_op [OF k] keeps_item [OF k] by (auto simp: pool_ok_def runs_ok_def run_u)
  moreover have "mk_ok (run oi i ?su)"
    using assms(1) by (simp add: pool_ok_def mk_ok_def run_u is_plain_keeps [OF k])
  moreover have "heap_ok (fst (run oi i ?su))"
    using assms(1) by (intro heap_ok_keeps [OF _ keeps_run [of ?su, simplified]]) (simp add: pool_ok_def)
  ultimately show ?thesis by (simp add: pool_ok_def)
qed

lemma upload_pump_pool_ok:
  assumes "pool_ok su"
  shows "pool_ok (upload_pump su)"
proof (rule pool.pump_invariant [of pool_ok, OF assms])
  fix su assume a: "pool_ok su" "pool_queue su \<noteq> []" "pool_slots su < UPLOAD_PARALLEL"
    "startable (fst su) (hd (pool_queue su))"
  obtain oi i where e: "hd (pool_queue su) = (oi, i)" by (cases "hd (pool_queue su)")
  have "pool_ok (run oi i (fst su, (snd (pool_pop su))\<lparr>u_active := Suc (u_active (snd (pool_pop su)))\<rparr>))"
    using a e by (intro run_pool_ok) (simp_all add: pool_pop_def pool_slots_def)
  then show "pool_ok (pool_start (hd (pool_queue su)) (pool_pop su))"
    using e by (simp add: pool_start_def pool_pop_def)
qed (simp add: pool_pop_def)

lemma enqueue_pool_ok: "pool_ok su \<Longrightarrow> pool_ok (enqueue oi i su)"
  by (simp add: enqueue_def upload_pump_pool_ok)

section \<open>Every file is held by at most one thing\<close>

definition toks_ok :: "ust \<Rightarrow> bool" where
  "toks_ok su \<longleftrightarrow> (\<forall>i. item_tok su i)"

definition toks_but :: "iref \<Rightarrow> ust \<Rightarrow> bool" where
  "toks_but i su \<longleftrightarrow> (\<forall>j. j \<noteq> i \<longrightarrow> item_tok su j)"

definition upload_inv :: "ust \<Rightarrow> bool" where
  "upload_inv su \<longleftrightarrow> pool_ok su \<and> toks_ok su"

lemma held_u [simp]:
  "held (u\<lparr>u_active := a\<rparr>) i = held u i" "held (u\<lparr>u_mk := mk\<rparr>) i = held u i" "held (u\<lparr>u_walks := ws\<rparr>) i = held u i"
  "held (u\<lparr>u_runs := rs\<rparr>) i = held u i"
  by (simp_all add: held_def)

lemma sending_u [simp]:
  "sending (u\<lparr>u_active := a\<rparr>) i = sending u i" "sending (u\<lparr>u_mk := mk\<rparr>) i = sending u i"
  "sending (u\<lparr>u_walks := ws\<rparr>) i = sending u i" "sending (u\<lparr>u_ready := q\<rparr>) i = sending u i"
  "sending (u\<lparr>u_prep := pr\<rparr>) i = sending u i"
  by (simp_all add: sending_def)

lemma held_push [simp]:
  "held (u\<lparr>u_ready := u_ready u @ [(oi, i)]\<rparr>) j = held u j + (if j = i then 1 else 0)"
  "held (u\<lparr>u_prep := u_prep u @ [(oi, i)]\<rparr>) j = held u j + (if j = i then 1 else 0)"
  by (simp_all add: held_def)

lemma held_tl: "u_ready u = (oi, i) # q \<Longrightarrow> held u j = held (u\<lparr>u_ready := q\<rparr>) j + (if j = i then 1 else 0)"
  by (simp add: held_def)

lemma count_list_map_remove1:
  "x \<in> set xs \<Longrightarrow> count_list (map f xs) y = count_list (map f (remove1 x xs)) y + (if y = f x then 1 else 0)"
proof (induction xs)
  case (Cons a xs)
  show ?case
  proof (cases "a = x")
    case False
    then have "count_list (map f xs) y = count_list (map f (remove1 x xs)) y + (if y = f x then 1 else 0)"
      using Cons.prems by (intro Cons.IH) simp
    then show ?thesis using False by simp
  qed simp
qed simp

lemma held_prep_remove:
  assumes "(oi, i) \<in> set (u_prep u)"
  shows "held u j = held (u\<lparr>u_prep := remove1 (oi, i) (u_prep u)\<rparr>) j + (if j = i then 1 else 0)"
proof -
  have "count_list (map snd (u_prep u)) j = count_list (map snd (remove1 (oi, i) (u_prep u))) j + (if j = i then 1 else 0)"
    using count_list_map_remove1 [OF assms, of snd j] by simp
  then show ?thesis by (simp add: held_def)
qed

lemma run_u_all:
  "held (snd (run oi i su)) j = held (snd su) j"
  by (simp add: held_def run_u)

lemma run_toks:
  assumes "toks_but i (s, u)" "st_op s oi = Some p" "st_item s i = Some x" "it_file x \<noteq> None" "free_tok (s, u) i"
  shows "toks_ok (run oi i (s, u))"
  unfolding toks_ok_def
proof
  fix j
  note e = run_effect [OF assms(2,3), of u]
  obtain y where y: "st_item (fst (run oi i (s, u))) = (st_item s)(i \<mapsto> y)" "it_file y = it_file x"
    "it_state y = (if run_fails p x then Failed else if it_completeOnly x then Finishing else Uploading)"
    using e(2) by blast
  have d: "sending (snd (run oi i (s, u))) j = sending u j + (if j = i \<and> \<not> run_fails p x then 1 else 0)"
    using e(1) by (simp add: sending_def)
  show "item_tok (run oi i (s, u)) j"
  proof (cases "j = i")
    case True
    have "held u i = 0" "sending u i = 0" using assms(5) by (simp_all add: free_tok_def)
    then show ?thesis using True y d assms(4) by (simp add: item_tok_def run_u_all)
  next
    case False
    have "item_tok (s, u) j" using assms(1) False by (simp add: toks_but_def)
    then show ?thesis using False y(1) d up_item_keeps [OF keeps_run [of "(s, u)" oi i], of j]
      by (simp add: item_tok_def run_u_all)
  qed
qed

lemma startable_head:
  assumes "upload_inv (s, u)" "u_ready u = (oi, i) # q" "startable s (oi, i)"
  shows "\<exists>p x. st_op s oi = Some p \<and> st_item s i = Some x \<and> it_file x \<noteq> None
     \<and> free_tok (s, u\<lparr>u_ready := q\<rparr>) i \<and> toks_but i (s, u\<lparr>u_ready := q\<rparr>)"
proof -
  obtain p x where px: "st_op s oi = Some p" "st_item s i = Some x" "it_state x = Queued"
    using assms(1,3) by (auto simp: startable_def isAlive_def item_st_def upload_inv_def pool_ok_def heap_ok_def)
  have t: "item_tok (s, u) j" for j using assms(1) by (simp add: upload_inv_def toks_ok_def)
  have h: "held u i = Suc (held (u\<lparr>u_ready := q\<rparr>) i)" using held_tl [OF assms(2), of i] by simp
  then have f: "it_file x \<noteq> None" using t [of i] px by (simp add: item_tok_def split: if_splits)
  then have "free_tok (s, u\<lparr>u_ready := q\<rparr>) i" using t [of i] px h by (auto simp: item_tok_def free_tok_def)
  moreover have "toks_but i (s, u\<lparr>u_ready := q\<rparr>)"
    unfolding toks_but_def
  proof (intro allI impI)
    fix j assume "j \<noteq> i"
    then have "held u j = held (u\<lparr>u_ready := q\<rparr>) j" using held_tl [OF assms(2), of j] by simp
    then show "item_tok (s, u\<lparr>u_ready := q\<rparr>) j" using t [of j] by (simp add: item_tok_def)
  qed
  ultimately show ?thesis using px f by blast
qed

lemma upload_pump_inv:
  assumes "upload_inv su"
  shows "upload_inv (upload_pump su)"
proof (rule pool.pump_invariant [of upload_inv, OF assms])
  fix su assume a: "upload_inv su" "pool_queue su \<noteq> []" "pool_slots su < UPLOAD_PARALLEL"
    "startable (fst su) (hd (pool_queue su))"
  obtain s u where su: "su = (s, u)" by (cases su)
  obtain oi i q where q: "u_ready u = (oi, i) # q" using a(2) su by (cases "u_ready u") (auto simp: pool_queue_def)
  have st: "startable s (oi, i)" using a(4) su q by (simp add: pool_queue_def)
  obtain p x where px: "st_op s oi = Some p" "st_item s i = Some x" "it_file x \<noteq> None"
    "free_tok (s, u\<lparr>u_ready := q\<rparr>) i" "toks_but i (s, u\<lparr>u_ready := q\<rparr>)"
    using startable_head [OF a(1) [unfolded su] q st] by blast
  let ?u = "u\<lparr>u_ready := q, u_active := Suc (u_active u)\<rparr>"
  have "toks_ok (run oi i (s, ?u))"
    using px by (intro run_toks) (simp_all add: toks_but_def item_tok_def free_tok_def)
  moreover have "pool_ok (run oi i (s, ?u))"
    using run_pool_ok [of s "u\<lparr>u_ready := q\<rparr>" oi i] a(1,3) st su by (simp add: upload_inv_def pool_slots_def)
  ultimately show "upload_inv (pool_start (hd (pool_queue su)) (pool_pop su))"
    using su q by (simp add: pool_start_def pool_pop_def pool_queue_def upload_inv_def)
next
  fix su assume a: "upload_inv su" "pool_queue su \<noteq> []"
  obtain s u where su: "su = (s, u)" by (cases su)
  obtain oi i q where q: "u_ready u = (oi, i) # q" using a(2) su by (cases "u_ready u") (auto simp: pool_queue_def)
  have "item_tok (s, u) j \<Longrightarrow> item_tok (s, u\<lparr>u_ready := q\<rparr>) j" for j
    using held_tl [OF q, of j] by (auto simp: item_tok_def intro: slot_ok_mono split: if_splits)
  then show "upload_inv (pool_pop su)"
    using a(1) su q by (simp add: upload_inv_def toks_ok_def pool_pop_def)
qed

lemma enqueue_inv:
  assumes "pool_ok (s, u)" "toks_but i (s, u)" "free_tok (s, u) i"
    and "st_item s i = Some x" "it_file x \<noteq> None" "it_state x = Queued"
  shows "upload_inv (enqueue oi i (s, u))"
proof -
  have "item_tok (s, u\<lparr>u_ready := u_ready u @ [(oi, i)]\<rparr>) j" for j
    using assms(2-6) by (cases "j = i") (simp_all add: toks_but_def item_tok_def free_tok_def)
  then have "upload_inv (s, u\<lparr>u_ready := u_ready u @ [(oi, i)]\<rparr>)"
    using assms(1) by (simp add: upload_inv_def toks_ok_def)
  then show ?thesis by (simp add: enqueue_def upload_pump_inv)
qed

section \<open>Every handler keeps the invariant\<close>

lemma inv_store:
  assumes "pool_ok (s, u)" "keeps s t" "toks_but i (s, u)" "\<And>j. j \<noteq> i \<Longrightarrow> st_item t j = st_item s j"
    and "slot_ok (up_item s i) (st_item t i) (held u i) (sending u i)"
  shows "upload_inv (t, u)"
proof -
  have "item_tok (t, u) j" for j
    using assms(3-5) up_item_keeps [OF assms(2)] by (cases "j = i") (simp_all add: toks_but_def item_tok_def)
  then show ?thesis using pool_ok_keeps [OF assms(1,2)] by (simp add: upload_inv_def toks_ok_def)
qed

lemma inv_same_items:
  assumes "upload_inv (s, u)" "keeps s t" "st_item t = st_item s"
  shows "upload_inv (t, u)"
  using assms pool_ok_keeps [of s u t] up_item_keeps [OF assms(2)] by (simp add: upload_inv_def toks_ok_def item_tok_def)

lemma inv_settle: "upload_inv su \<Longrightarrow> upload_inv (settle oi (fst su), snd su)"
  using inv_same_items [of "fst su" "snd su" "settle oi (fst su)"] by simp

lemma inv_nonfile:
  assumes "upload_inv (s, u)" "keeps s t" "\<not> is_file s i" "\<And>j. j \<noteq> i \<Longrightarrow> st_item t j = st_item s j"
    and "\<And>y. up_item s i \<Longrightarrow> st_item t i = Some y \<Longrightarrow> it_state y \<noteq> NeedsDecision"
  shows "upload_inv (t, u)"
proof (rule inv_store [of s u t i])
  show "pool_ok (s, u)" "toks_but i (s, u)"
    using assms(1) by (simp_all add: upload_inv_def toks_ok_def toks_but_def)
  have n: "\<not> is_file t i" using assms(3) is_file_keeps [OF assms(2)] by simp
  have "item_tok (s, u) i" using assms(1) by (simp add: upload_inv_def toks_ok_def)
  then have "held u i = 0 \<and> sending u i = 0"
    using assms(3) by (cases "st_item s i") (auto simp: item_tok_def is_file_def)
  then show "slot_ok (up_item s i) (st_item t i) (held u i) (sending u i)"
    using n assms(5) by (cases "st_item t i") (auto simp: is_file_def)
qed (use assms in auto)

lemma tok_ok_idle: "tok_ok st 0 0 \<longleftrightarrow> st \<noteq> Uploading \<and> st \<noteq> Finishing"
  by (cases st) simp_all

lemma inv_idle:
  assumes "pool_ok (s, u)" "toks_but i (s, u)" "free_tok (s, u) i" "is_file s i" "keeps s t"
    and "\<And>j. j \<noteq> i \<Longrightarrow> st_item t j = st_item s j"
    and "\<And>y. st_item t i = Some y \<Longrightarrow> it_state y \<noteq> Uploading \<and> it_state y \<noteq> Finishing"
  shows "upload_inv (t, u)"
proof (rule inv_store [OF assms(1,5,2,6)])
  have "is_file t i" using assms(4) is_file_keeps [OF assms(5)] by simp
  then show "slot_ok (up_item s i) (st_item t i) (held u i) (sending u i)"
    using assms(3,7) by (auto simp: is_file_def free_tok_def tok_ok_idle)
qed

lemma endSession_item:
  "st_item (endSession oi i s) j = st_item s j \<or>
   (j = i \<and> st_item (endSession oi i s) j = map_option (\<lambda>y. y\<lparr>it_uploadId := None, it_completeOnly := False\<rparr>) (st_item s j))"
  by (auto simp: endSession_def split: option.splits)

lemma endSession_other [simp]: "j \<noteq> i \<Longrightarrow> st_item (endSession oi i s) j = st_item s j"
  using endSession_item [of oi i s j] by auto

lemma toks_but_patch:
  "toks_but i (s, u) \<Longrightarrow> keeps s t \<Longrightarrow> (\<And>j. j \<noteq> i \<Longrightarrow> st_item t j = st_item s j) \<Longrightarrow> toks_but i (t, u)"
  by (simp add: toks_but_def item_tok_def up_item_keeps)

lemma free_tok_store [simp]: "free_tok (t, u) i = free_tok (s, u) i"
  by (simp add: free_tok_def)

lemma apply_choice_inv:
  assumes "pool_ok (s, u)" "toks_but i (s, u)" "free_tok (s, u) i" "is_file s i"
  shows "upload_inv (apply_choice oi i ch (s, u))"
proof (cases "ch = Skip")
  case True
  let ?t = "settle oi (patchItem oi i (\<lambda>x. x\<lparr>it_state := Skipped, it_decision := None\<rparr>) (endSession oi i s))"
  have "upload_inv (?t, u)"
    by (rule inv_idle [OF assms(1-4)]) (auto simp: item_patch intro!: keeps_intros)
  then show ?thesis using True by (simp add: apply_choice_def)
next
  case False
  let ?f = "\<lambda>x. x\<lparr>it_state := Queued, it_decision := None, it_conflict := Some (if ch = Replace then Replace else KeepBoth)\<rparr>"
  let ?t = "patchItem oi i ?f s"
  obtain x where x: "st_item s i = Some x" "it_file x \<noteq> None" using assms(4) by (auto simp: is_file_def)
  have k: "keeps s ?t" by (rule keeps_patchItem) (simp add: item_patch)
  have "upload_inv (enqueue oi i (?t, u))"
    by (rule enqueue_inv [of ?t u i "?f x", OF pool_ok_keeps [OF assms(1) k] toks_but_patch [OF assms(2) k]])
      (use assms(3) x in \<open>simp_all add: free_tok_def\<close>)
  then show ?thesis using False by (simp add: apply_choice_def)
qed

lemma keep_session_other [simp]: "j \<noteq> i \<Longrightarrow> st_item (keep_session i session s) j = st_item s j"
  by (simp add: keep_session_def split: option.split)

lemma ask_decision_item [simp]:
  "st_item (ask_decision oi i d s) = (st_item s)(i := map_option (\<lambda>x. x\<lparr>it_state := NeedsDecision,
     it_decision := Some d, it_error := None, it_retrying := False\<rparr>) (st_item s i))"
  by (simp add: ask_decision_def)

lemma clash_inv:
  assumes "pool_ok (s, u)" "toks_but i (s, u)" "free_tok (s, u) i" "is_file s i" "st_op s oi = Some p"
  shows "upload_inv (clash oi i k session (s, u))"
proof -
  have 1: "upload_inv (ask_decision oi i d (keep_session i session s), u)" for d
    by (rule inv_idle [OF assms(1-4)]) (auto intro: keeps_ask_decision)
  have 2: "upload_inv (apply_choice oi i ch (keep_session i session s, u))" for ch
    by (rule apply_choice_inv [OF pool_ok_keeps [OF assms(1) keeps_keep_session] toks_but_patch [OF assms(2) keeps_keep_session]])
      (use assms(3,4) is_file_keeps [OF keeps_keep_session] in \<open>simp_all add: free_tok_def\<close>)
  show ?thesis using 1 2 assms(5) by (simp add: clash_def Let_def split: option.split)
qed

lemma handleError_inv:
  assumes "pool_ok (s, u)" "toks_but i (s, u)" "free_tok (s, u) i" "is_file s i" "st_op s oi = Some p"
  shows "upload_inv (handleError oi i err (s, u))"
proof -
  obtain x where x: "st_item s i = Some x" "it_file x \<noteq> None" using assms(4) by (auto simp: is_file_def)
  let ?s1 = "patchItem oi i (\<lambda>y. y\<lparr>it_abort := None, it_retrying := False\<rparr>) s"
  have k1: "keeps s ?s1" by (rule keeps_patchItem) (simp add: item_patch)
  obtain p1 where p1: "st_op ?s1 oi = Some p1" using keeps_op_Some [OF k1 assms(5)] by blast
  have 1: "upload_inv (clash oi i k session (?s1, u))" for k session
    by (rule clash_inv [OF pool_ok_keeps [OF assms(1) k1] toks_but_patch [OF assms(2) k1] _ _ p1])
      (use assms(3,4) is_file_keeps [OF k1] in \<open>simp_all add: free_tok_def\<close>)
  have 2: "upload_inv (fail_upload oi i c s, u)" for c
    by (rule inv_idle [OF assms(1-4)]) (auto simp: fail_upload_def item_patch intro!: keeps_intros)
  have 3: "upload_inv (patchItem oi i (\<lambda>y. y\<lparr>it_state := Cancelled, it_abort := None\<rparr>) s, u)"
    by (rule inv_idle [OF assms(1-4)]) (auto simp: item_patch intro!: keeps_intros)
  have 4: "it_state x = Cancelled \<Longrightarrow> upload_inv (s, u)"
    using x by (intro inv_idle [OF assms(1-4)]) auto
  show ?thesis using 1 2 3 4 x assms(5)
    by (simp add: handleError_def Let_def split: option.split decision.split)
qed

lemma inv_but: "upload_inv su \<Longrightarrow> toks_but i su"
  by (simp add: upload_inv_def toks_ok_def toks_but_def)

lemma inv_pool: "upload_inv su \<Longrightarrow> pool_ok su"
  by (simp add: upload_inv_def)

lemma inv_tok: "upload_inv su \<Longrightarrow> item_tok su i"
  by (simp add: upload_inv_def toks_ok_def)

lemma prepare_inv:
  assumes "upload_inv (s, u)" "free_tok (s, u) i" "st_item s i = Some x" "it_file x \<noteq> None" "it_state x = Queued"
  shows "upload_inv (prepare ls oi i (s, u))"
proof -
  let ?t = "knownNames ls oi (it_destPath x) s"
  have k: "keeps s ?t" "st_item ?t = st_item s"
    by (simp_all add: knownNames_def split: option.split)
  have i: "item_tok (s, u) j" for j using assms(1) by (rule inv_tok)
  have "item_tok (?t, u\<lparr>u_prep := u_prep u @ [(oi, i)]\<rparr>) j" for j
    using i [of j] assms(2-5) k(2) up_item_keeps [OF k(1)] by (cases "j = i") (simp_all add: item_tok_def free_tok_def)
  then have 1: "upload_inv (?t, u\<lparr>u_prep := u_prep u @ [(oi, i)]\<rparr>)"
    using pool_ok_keeps [OF inv_pool [OF assms(1)] k(1)] by (simp add: upload_inv_def toks_ok_def)
  have 2: "upload_inv (enqueue oi i (s, u))"
    by (rule enqueue_inv [OF inv_pool [OF assms(1)] inv_but [OF assms(1)] assms(2-5)])
  show ?thesis using 1 2 assms(1,3) by (simp add: prepare_def split: option.split)
qed

lemma prepare_resume_inv:
  assumes "upload_inv (s, u)" "(oi, i) \<in> set (u_prep u)"
  shows "upload_inv (prepare_resume oi i (s, u))"
proof -
  let ?u = "u\<lparr>u_prep := remove1 (oi, i) (u_prep u)\<rparr>"
  have h: "held u j = held ?u j + (if j = i then 1 else 0)" for j by (rule held_prep_remove [OF assms(2)])
  have i: "item_tok (s, u) j" for j using assms(1) by (rule inv_tok)
  have t: "item_tok (s, ?u) j" for j
    using i [of j] h [of j] by (auto simp: item_tok_def intro: slot_ok_mono split: if_splits)
  have inv: "upload_inv (s, ?u)" using inv_pool [OF assms(1)] t by (simp add: upload_inv_def toks_ok_def)
  obtain x where x: "st_item s i = Some x" "it_file x \<noteq> None"
    using i [of i] h [of i] by (cases "st_item s i") (auto simp: item_tok_def split: if_splits)
  have f: "free_tok (s, ?u) i" if "it_state x = Queued"
    using i [of i] h [of i] x that by (auto simp: item_tok_def free_tok_def)
  have 1: "upload_inv (clash oi i k None (s, ?u))" if "it_state x = Queued" for k
    using clash_inv [OF inv_pool [OF inv] inv_but [OF inv] f [OF that]] x inv
    by (cases "st_op s oi") (auto simp: is_file_def clash_def)
  have 2: "upload_inv (enqueue oi i (s, ?u))" if "it_state x = Queued"
    by (rule enqueue_inv [OF inv_pool [OF inv] inv_but [OF inv] f [OF that] x that])
  show ?thesis using 1 2 inv x(1) by (simp add: prepare_resume_def Let_def split: option.split)
qed

text \<open>Making folders never touches a file.\<close>

lemma inv_mk_push:
  assumes "upload_inv (s, u)" "is_plain s (mk_item m)"
  shows "upload_inv (s, u\<lparr>u_mk := mks @ [m]\<rparr>) \<longleftrightarrow> upload_inv (s, u\<lparr>u_mk := mks\<rparr>)"
  using assms by (simp add: upload_inv_def toks_ok_def item_tok_def pool_ok_def runs_ok_def mk_ok_def)

lemma inv_mk_drop: "upload_inv (s, u) \<Longrightarrow> upload_inv (s, u\<lparr>u_mk := remove1 m (u_mk u)\<rparr>)"
  using set_remove1_subset [of m "u_mk u"]
  by (auto simp: upload_inv_def toks_ok_def item_tok_def pool_ok_def runs_ok_def mk_ok_def)

lemma mk_stop_inv: "upload_inv (s, u) \<Longrightarrow> is_plain s i \<Longrightarrow> upload_inv (mk_stop oi i made s, u)"
  by (erule inv_nonfile [where i = i]) (auto simp: is_plain_not_file mk_stop_def item_patch intro!: keeps_intros)

lemma mk_fail_inv: "upload_inv (s, u) \<Longrightarrow> is_plain s i \<Longrightarrow> upload_inv (mk_fail oi i msg r offl made s, u)"
  by (erule inv_nonfile [where i = i]) (auto simp: is_plain_not_file mk_fail_def item_patch intro!: keeps_intros)

lemma eff_inv: "upload_inv (s, u) \<Longrightarrow> upload_inv (eff e s, u)"
  by (erule inv_same_items) simp_all

lemma mk_next_inv:
  assumes "upload_inv (s, u)" "is_plain s i"
  shows "upload_inv (mk_next k oi i path rest made (s, u))"
proof (cases "item_st s i = Some Cancelled \<or> rest = []")
  case True
  let ?t = "settle oi (patchItem oi i (\<lambda>x. x\<lparr>it_state := Done, it_foldersMade := made\<rparr>) (noteFolder oi (parent_or_root path) s))"
  have "upload_inv (?t, u)"
    by (rule inv_nonfile [OF assms(1) _ is_plain_not_file [OF assms(2)]]) (auto simp: item_patch intro!: keeps_intros)
  then show ?thesis using True mk_stop_inv [OF assms] by (auto simp: mk_next_def)
next
  case False
  then obtain part rest' where r: "rest = part # rest'" by (cases rest) auto
  have e: "upload_inv (eff ev s, u)" for ev by (rule eff_inv [OF assms(1)])
  have n: "is_plain (eff ev s) i" for ev using assms(2) by (simp add: is_plain_def)
  show ?thesis using False r inv_mk_push [OF e, of _ _ "u_mk u"] e n by (simp add: mk_next_def Let_def)
qed

lemma makeFolders_inv:
  assumes "upload_inv (s, u)" "is_plain s i"
  shows "upload_inv (makeFolders oi i rel (s, u))"
proof -
  have k: "keeps s (snd (new_ref s))" "st_item (snd (new_ref s)) = st_item s" by (simp, simp add: new_ref_def)
  have "upload_inv (mk_next a oi i b c d (snd (new_ref s), u))" for a b c d
    using inv_same_items [OF assms(1) k] assms(2) k(2) by (intro mk_next_inv) (simp_all add: is_plain_def)
  then show ?thesis using assms(1) by (simp add: makeFolders_def Let_def split_beta split: option.split)
qed

lemma mk_after_stat_inv:
  assumes "upload_inv (s, u)" "is_plain s (mk_item m)"
  shows "upload_inv (mk_after_stat m kind (s, u))"
  using mk_next_inv [OF assms] mk_fail_inv [OF assms] assms(1) by (simp add: mk_after_stat_def split: option.split)

lemma mk_entry_nonfile: "upload_inv (s, u) \<Longrightarrow> m \<in> set (u_mk u) \<Longrightarrow> is_plain s (mk_item m)"
  by (simp add: upload_inv_def pool_ok_def mk_ok_def)

lemma stat_result_inv:
  assumes "upload_inv (s, u)" "m \<in> set (u_mk u)"
  shows "upload_inv (stat_result m kind (s, u))"
  using mk_after_stat_inv [OF inv_mk_drop [OF assms(1)] mk_entry_nonfile [OF assms]] by (simp add: stat_result_def)

lemma mkdir_result_inv:
  assumes "upload_inv (s, u)" "m \<in> set (u_mk u)"
  shows "upload_inv (mkdir_result m res (s, u))"
proof -
  let ?u = "u\<lparr>u_mk := remove1 m (u_mk u)\<rparr>"
  have i: "upload_inv (s, ?u)" by (rule inv_mk_drop [OF assms(1)])
  have n: "is_plain s (mk_item m)" by (rule mk_entry_nonfile [OF assms])
  have e: "upload_inv (eff ev s, ?u)" for ev by (rule eff_inv [OF i])
  have "upload_inv (eff ev s, u\<lparr>u_mk := remove1 m (u_mk u) @ [m\<lparr>mk_phase := StatWait\<rparr>]\<rparr>)" for ev
    using inv_mk_push [OF e, of ev "m\<lparr>mk_phase := StatWait\<rparr>" "remove1 m (u_mk u)"] e n by (simp add: is_plain_def)
  then show ?thesis
    using mk_next_inv [OF i n] mk_after_stat_inv [OF i n] mk_stop_inv [OF i n] mk_fail_inv [OF i n] assms(1)
    by (simp add: mkdir_result_def Let_def split: option.split sum.split)
qed

lemma sending_end_run:
  assumes "distinct (map ru_id (u_runs u))" "r \<in> set (u_runs u)" "ru_phase r = Sending"
  shows "sending u j = sending (end_run r u) j + (if j = ru_item r then 1 else 0)"
proof -
  have "length (filter (\<lambda>q. ru_item q = j \<and> ru_phase q = Sending) rs) =
      length (filter (\<lambda>q. ru_item q = j \<and> ru_phase q = Sending)
        (map (\<lambda>q. if ru_id q = ru_id r then q\<lparr>ru_phase := RunEnded\<rparr> else q) rs))
      + (if j = ru_item r \<and> r \<in> set rs then 1 else 0)"
    if "distinct (map ru_id rs)" "\<And>q. q \<in> set rs \<Longrightarrow> ru_id q = ru_id r \<Longrightarrow> q = r" for rs
    using that
  proof (induction rs)
    case (Cons a rs)
    have ih: "length (filter (\<lambda>q. ru_item q = j \<and> ru_phase q = Sending) rs) =
      length (filter (\<lambda>q. ru_item q = j \<and> ru_phase q = Sending)
        (map (\<lambda>q. if ru_id q = ru_id r then q\<lparr>ru_phase := RunEnded\<rparr> else q) rs))
      + (if j = ru_item r \<and> r \<in> set rs then 1 else 0)"
      using Cons.prems by (intro Cons.IH) simp_all
    show ?case
    proof (cases "ru_id a = ru_id r")
      case True
      then have "a = r" "r \<notin> set rs" using Cons.prems by auto
      then show ?thesis using ih assms(3) by (cases "j = ru_item r") auto
    next
      case False
      then have "a \<noteq> r" by auto
      then show ?thesis using ih False by (cases "j = ru_item r"; cases "r \<in> set rs") auto
    qed
  qed simp
  moreover have "q = r" if "q \<in> set (u_runs u)" "ru_id q = ru_id r" for q
    using assms(1,2) that by (metis inj_onD distinct_map)
  ultimately show ?thesis using assms(1,2) by (simp add: sending_def end_run_def)
qed

lemma end_run_map:
  "map ru_id (u_runs (end_run r u)) = map ru_id (u_runs u)" "map ru_op (u_runs (end_run r u)) = map ru_op (u_runs u)"
  "map ru_item (u_runs (end_run r u)) = map ru_item (u_runs u)" "u_active (end_run r u) = u_active u"
  "u_mk (end_run r u) = u_mk u" "length (u_runs (end_run r u)) = length (u_runs u)"
  by (simp_all add: end_run_def)

lemma end_run_mem:
  "q \<in> set (u_runs (end_run r u)) \<Longrightarrow> \<exists>q' \<in> set (u_runs u). ru_id q = ru_id q' \<and> ru_op q = ru_op q' \<and> ru_item q = ru_item q'"
  unfolding end_run_def by (auto split: if_splits intro: bexI [rotated])

lemma end_run_pool_ok:
  assumes "pool_ok (s, u)"
  shows "pool_ok (s, end_run r u)"
proof -
  have "\<forall>q \<in> set (u_runs u). ru_id q < st_next s \<and> st_op s (ru_op q) \<noteq> None \<and> st_item s (ru_item q) \<noteq> None"
    using assms by (simp add: pool_ok_def runs_ok_def)
  then have "\<forall>q \<in> set (u_runs (end_run r u)). ru_id q < st_next s \<and> st_op s (ru_op q) \<noteq> None \<and> st_item s (ru_item q) \<noteq> None"
    using end_run_mem by metis
  then show ?thesis using assms by (simp add: pool_ok_def runs_ok_def mk_ok_def end_run_map)
qed

lemma run_tok:
  assumes "upload_inv (s, u)" "r \<in> set (u_runs u)" "ru_phase r = Sending"
  shows "is_file s (ru_item r) \<and> free_tok (s, end_run r u) (ru_item r) \<and> toks_but (ru_item r) (s, end_run r u)
    \<and> st_op s (ru_op r) \<noteq> None"
proof -
  have d: "distinct (map ru_id (u_runs u))" "st_op s (ru_op r) \<noteq> None"
    using assms(1,2) by (auto simp: upload_inv_def pool_ok_def runs_ok_def)
  note se = sending_end_run [OF d(1) assms(2,3)]
  have h: "held (end_run r u) j = held u j" for j by (simp add: end_run_def)
  have t: "item_tok (s, u) (ru_item r)" by (rule inv_tok [OF assms(1)])
  obtain x where x: "st_item s (ru_item r) = Some x" "it_file x \<noteq> None"
    using t se [of "ru_item r"] by (cases "st_item s (ru_item r)") (auto simp: item_tok_def split: if_splits)
  have "free_tok (s, end_run r u) (ru_item r)"
    using t x se [of "ru_item r"] h by (cases "it_state x") (auto simp: item_tok_def free_tok_def)
  moreover have "toks_but (ru_item r) (s, end_run r u)"
    unfolding toks_but_def
  proof (intro allI impI)
    fix j assume "j \<noteq> ru_item r"
    then have "sending u j = sending (end_run r u) j" using se [of j] by simp
    then show "item_tok (s, end_run r u) j" using inv_tok [OF assms(1), of j] h by (simp add: item_tok_def)
  qed
  ultimately show ?thesis using x d(2) by (auto simp: is_file_def)
qed

lemma run_ok_other: "j \<noteq> ru_item r \<Longrightarrow> st_item (run_ok r n s) j = st_item s j"
  by (simp add: run_ok_def split: option.split)

lemma run_ok_state: "st_item (run_ok r n s) (ru_item r) = Some y \<Longrightarrow> it_state y = Done"
  by (auto simp: run_ok_def split: option.splits)

lemma run_result_inv:
  assumes "upload_inv (s, u)" "r \<in> set (u_runs u)" "ru_phase r = Sending"
  shows "upload_inv (run_result r res (s, u))"
proof -
  note t = run_tok [OF assms]
  have p: "pool_ok (s, end_run r u)" by (rule end_run_pool_ok [OF inv_pool [OF assms(1)]])
  have 1: "upload_inv (run_ok r n s, end_run r u)" for n
    using t run_ok_other run_ok_state by (intro inv_idle [OF p _ _ _ keeps_run_ok]) force+
  have 2: "upload_inv (handleError (ru_op r) (ru_item r) err (s, end_run r u))" for err
    using t handleError_inv [OF p] by auto
  show ?thesis using inv_settle [OF 1] inv_settle [OF 2] by (simp add: run_result_def Let_def split: sum.split)
qed

lemma run_finally_inv:
  assumes "upload_inv (s, u)" "r \<in> set (u_runs u)" "ru_phase r = RunEnded"
  shows "upload_inv (run_finally r (s, u))"
proof -
  let ?rs = "filter (\<lambda>q. ru_id q \<noteq> ru_id r) (u_runs u)"
  let ?u = "u\<lparr>u_active := u_active u - 1, u_runs := ?rs\<rparr>"
  have ro: "runs_ok (s, u)" using assms(1) by (simp add: upload_inv_def pool_ok_def)
  have d: "distinct (map ru_id (u_runs u))" using ro by (simp add: runs_ok_def)
  have same: "q = r" if "q \<in> set (u_runs u)" "ru_id q = ru_id r" for q
    using d assms(2) that by (metis inj_onD distinct_map)
  have l: "length ?rs = length (u_runs u) - 1"
  proof -
    have "filter (\<lambda>q. ru_id q \<noteq> ru_id r) (u_runs u) = removeAll r (u_runs u)"
      unfolding removeAll_filter_not_eq using same by (intro filter_cong) auto
    also have "\<dots> = remove1 r (u_runs u)" using d by (simp add: distinct_map distinct_remove1_removeAll)
    finally show ?thesis using assms(2) by (simp add: length_remove1)
  qed
  have s: "sending ?u j = sending u j" for j
    unfolding sending_def using same assms(3)
    by (simp, intro arg_cong [where f = length] filter_cong) (auto, metis run_phase.distinct(1))
  have "pool_ok (s, ?u)"
    using assms(1) ro l by (auto simp: upload_inv_def pool_ok_def runs_ok_def mk_ok_def distinct_map inj_on_def)
  moreover have "item_tok (s, ?u) j" for j
    using inv_tok [OF assms(1), of j] s [of j] by (simp add: item_tok_def)
  ultimately have "upload_inv (s, ?u)" by (simp add: upload_inv_def toks_ok_def)
  then show ?thesis by (simp add: run_finally_def upload_pump_inv)
qed

text \<open>A step that only moves a file between two states with the same holds.\<close>

lemma inv_same_hold:
  assumes "upload_inv (s, u)" "keeps s t" "\<And>j. j \<noteq> i \<Longrightarrow> st_item t j = st_item s j"
    and "\<And>x y w d. st_item s i = Some x \<Longrightarrow> st_item t i = Some y \<Longrightarrow> tok_ok (it_state x) w d \<Longrightarrow> tok_ok (it_state y) w d"
    and "\<And>x y. st_item s i = Some x \<Longrightarrow> st_item t i = Some y \<Longrightarrow> it_state y = NeedsDecision \<Longrightarrow> it_state x = NeedsDecision"
  shows "upload_inv (t, u)"
proof (rule inv_store [OF inv_pool [OF assms(1)] assms(2) inv_but [OF assms(1)]])
  have t: "item_tok (s, u) i" by (rule inv_tok [OF assms(1)])
  have f: "is_file t i = is_file s i" by (rule is_file_keeps [OF assms(2)])
  have n: "st_item t i = None \<longleftrightarrow> st_item s i = None" by (rule keeps_item [OF assms(2)])
  show "slot_ok (up_item s i) (st_item t i) (held u i) (sending u i)"
  proof (cases "st_item s i")
    case None
    then show ?thesis using t n by (simp add: item_tok_def)
  next
    case (Some x)
    then obtain y where y: "st_item t i = Some y" using n by auto
    have "it_file y = None \<longleftrightarrow> it_file x = None" using f Some y by (cases "it_file y"; cases "it_file x") (simp_all add: is_file_def)
    then show ?thesis using t Some y assms(4) [OF Some y] assms(5) [OF Some y] by (auto simp: item_tok_def split: if_splits)
  qed
qed (use assms(3) in auto)

lemma run_events_inv:
  assumes "upload_inv (s, u)"
  shows "upload_inv (run_progress r n (s, u))" "upload_inv (run_session r uid (s, u))" "upload_inv (run_retrying r (s, u))"
proof -
  show "upload_inv (run_progress r n (s, u))"
    unfolding run_progress_def Let_def fst_conv snd_conv
    by (rule inv_same_hold [OF assms, of _ "ru_item r"]) (auto simp: item_patch intro!: keeps_intros split: if_splits)
  show "upload_inv (run_session r uid (s, u))"
    unfolding run_session_def fst_conv snd_conv
    by (rule inv_same_hold [OF assms, of _ "ru_item r"]) (auto simp: item_patch intro!: keeps_intros)
  show "upload_inv (run_retrying r (s, u))"
    unfolding run_retrying_def fst_conv snd_conv
    by (rule inv_same_hold [OF assms, of _ "ru_item r"]) (auto simp: item_patch intro!: keeps_intros)
qed

section \<open>Adding, retrying, cancelling\<close>

lemma newId_keeps: "keeps s (snd (newId pre s))" "st_item (snd (newId pre s)) = st_item s"
  "st_op (snd (newId pre s)) = st_op s" "st_next (snd (newId pre s)) = st_next s"
  by (simp_all add: newId_def Let_def keeps_def)

lemma alloc_item_inv:
  assumes "upload_inv (s, u)" "it_isDir x \<longrightarrow> it_file x = None" "it_state x \<noteq> Uploading" "it_state x \<noteq> Finishing"
    "it_state x \<noteq> NeedsDecision"
  shows "upload_inv (snd (alloc_item x s), u)" "free_tok (snd (alloc_item x s), u) (st_next s)"
proof -
  have h: "heap_ok s" "runs_ok (s, u)" "mk_ok (s, u)" using assms(1) by (simp_all add: upload_inv_def pool_ok_def)
  have n: "st_item s (st_next s) = None" using h(1) by (simp add: heap_ok_def)
  have f: "held u (st_next s) = 0" "sending u (st_next s) = 0"
    using inv_tok [OF assms(1), of "st_next s"] n by (simp_all add: item_tok_def)
  then show "free_tok (snd (alloc_item x s), u) (st_next s)" by (simp add: free_tok_def)
  have "heap_ok (snd (alloc_item x s))"
    using h(1) assms(2) by (simp add: heap_ok_def alloc_item_def new_ref_def Let_def)
  moreover have "runs_ok (snd (alloc_item x s), u)"
    using h(2) by (auto simp: runs_ok_def alloc_item_def new_ref_def Let_def dest: bspec)
  moreover have "mk_ok (snd (alloc_item x s), u)"
    using h(3) n by (auto simp: mk_ok_def is_plain_def alloc_item_def new_ref_def Let_def dest!: bspec)
  moreover have "item_tok (snd (alloc_item x s), u) j" for j
    using inv_tok [OF assms(1), of j] f assms(2-5)
    by (cases "j = st_next s") (simp_all add: item_tok_def up_item_def alloc_item_def new_ref_def Let_def tok_ok_idle)
  ultimately show "upload_inv (snd (alloc_item x s), u)"
    by (simp add: upload_inv_def pool_ok_def toks_ok_def)
qed


lemma upd_op_inv: "upload_inv (s, u) \<Longrightarrow> (\<And>p. op_static (f p) = op_static p) \<Longrightarrow> upload_inv (upd_op oi f s, u)"
  by (erule inv_same_items) auto

lemma addItem_inv:
  assumes "upload_inv (s, u)" "\<And>x. st_item s i = Some x \<Longrightarrow> it_state x \<noteq> NeedsDecision"
  shows "upload_inv (addItem oi i s, u)"
proof -
  let ?s1 = "upd_op oi (\<lambda>p. p\<lparr>op_items := op_items p @ [i]\<rparr>) s"
  have up: "up_item ?s1 j \<Longrightarrow> up_item s j \<or> j = i" for j
    unfolding up_item_def upd_op_def by (fastforce split: if_splits)
  have "item_tok (?s1, u) j" for j
    using inv_tok [OF assms(1), of j] assms(2) up [of j]
    by (cases "st_item s j") (auto simp: item_tok_def split: if_splits)
  then have "upload_inv (?s1, u)"
    using inv_pool [OF assms(1)]
    by (auto simp: upload_inv_def toks_ok_def pool_ok_def runs_ok_def mk_ok_def is_plain_def heap_ok_def upd_op_def)
  moreover have "keeps ?s1 (addItem oi i s)" unfolding addItem_def by (intro keeps_intros keeps_refl)
  ultimately show ?thesis by (rule inv_same_items) (simp add: addItem_def)
qed

lemma addItem_item [simp]: "st_item (addItem oi i s) = st_item s"
  by (simp add: addItem_def)

text \<open>A new item: an id, a reference, a place in its operation.\<close>

definition new_item :: "oref \<Rightarrow> item \<Rightarrow> store \<Rightarrow> store" where
  "new_item oi x s =
     (let s1 = snd (newId (lit ''it'') s) in addItem oi (st_next s1) (snd (alloc_item x s1)))"

lemma new_item_inv:
  assumes "upload_inv (s, u)" "it_isDir x \<longrightarrow> it_file x = None" "it_state x \<noteq> Uploading" "it_state x \<noteq> Finishing"
    "it_state x \<noteq> NeedsDecision"
  shows "upload_inv (new_item oi x s, u)" "st_item (new_item oi x s) (st_next s) = Some x"
    "free_tok (new_item oi x s, u) (st_next s)"
proof -
  let ?s1 = "snd (newId (lit ''it'') s)"
  have "upload_inv (?s1, u)" by (rule inv_same_items [OF assms(1)]) (simp_all add: newId_keeps)
  note a = alloc_item_inv [OF this assms(2-5)]
  have x: "st_item (snd (alloc_item x ?s1)) (st_next ?s1) = Some x" by (simp add: alloc_item_def new_ref_def Let_def)
  show "upload_inv (new_item oi x s, u)"
    unfolding new_item_def Let_def using assms(5) x by (intro addItem_inv [OF a(1)]) simp
  show "st_item (new_item oi x s) (st_next s) = Some x" using x by (simp add: new_item_def Let_def newId_keeps)
  show "free_tok (new_item oi x s, u) (st_next s)" using a(2) by (simp add: free_tok_def newId_keeps)
qed

lemma addFile_inv:
  assumes "upload_inv (s, u)"
  shows "upload_inv (addFile ls oi file dir name rel (s, u))"
proof (cases "st_op s oi")
  case (Some p)
  let ?x = "(makeItem (fst (newId (lit ''it'') s)) name)\<lparr>it_relPath := rel, it_destPath := dest_path (op_destFolder p) dir,
                      it_size := f_size file, it_file := Some (f_ref file)\<rparr>"
  note a = new_item_inv [OF assms, of ?x oi]
  have "upload_inv (settle oi (new_item oi ?x s), u)" using inv_settle [OF a(1)] by (simp add: makeItem_def)
  then have "upload_inv (prepare ls oi (st_next s) (settle oi (new_item oi ?x s), u))"
    by (rule prepare_inv [where x = ?x]) (use a(2,3) in \<open>simp_all add: makeItem_def free_tok_def\<close>)
  then show ?thesis using Some
    by (simp add: addFile_def Let_def split_beta new_item_def newId_keeps alloc_item_def new_ref_def)
qed (simp add: addFile_def assms)

lemma addFolder_inv:
  assumes "upload_inv (s, u)"
  shows "upload_inv (addFolder oi rel (s, u))"
proof (cases "st_op s oi")
  case (Some p)
  let ?x = "(makeItem (fst (newId (lit ''it'') s)) (snd (splitRel rel)))\<lparr>it_relPath := rel,
              it_destPath := dest_path (op_destFolder p) (fst (splitRel rel)), it_isDir := True, it_state := Running\<rparr>"
  note a = new_item_inv [OF assms, of ?x oi]
  have "upload_inv (settle oi (new_item oi ?x s), u)" using inv_settle [OF a(1)] by (simp add: makeItem_def)
  then have "upload_inv (makeFolders oi (st_next s) rel (settle oi (new_item oi ?x s), u))"
    by (rule makeFolders_inv) (use a(2) in \<open>simp add: makeItem_def is_plain_def\<close>)
  then show ?thesis using Some
    by (simp add: addFolder_def Let_def split_beta new_item_def newId_keeps alloc_item_def new_ref_def)
qed (simp add: addFolder_def assms)

lemma addUnreadable_inv:
  assumes "upload_inv (s, u)"
  shows "upload_inv (addUnreadable oi rel (s, u))"
proof (cases "st_op s oi")
  case (Some p)
  let ?x = "(makeItem (fst (newId (lit ''it'') s)) (snd (splitRel rel)))\<lparr>it_relPath := rel,
     it_destPath := dest_path (op_destFolder p) (fst (splitRel rel)), it_state := Failed,
     it_error := Some unreadable_text, it_retryable := False\<rparr>"
  have "upload_inv (new_item oi ?x s, u)" using new_item_inv(1) [OF assms, of ?x oi] by (simp add: makeItem_def)
  then have "upload_inv (notify oi Error (new_item oi ?x s), u)" by (rule inv_same_items) simp_all
  then show ?thesis using Some
    by (simp add: addUnreadable_def Let_def split_beta new_item_def newId_keeps alloc_item_def new_ref_def)
qed (simp add: addUnreadable_def assms)

lemma add_files_inv: "upload_inv su \<Longrightarrow> upload_inv (add_files ls oi files su)"
proof (induction files arbitrary: su)
  case (Cons f fs)
  then show ?case using addFile_inv [of "fst su" "snd su"] by (simp add: add_files_def)
qed (simp add: add_files_def)

lemma patchOp_inv: "upload_inv (s, u) \<Longrightarrow> (\<And>p. op_static (f p) = op_static p) \<Longrightarrow> upload_inv (patchOp oi f s, u)"
  by (erule inv_same_items) (auto, simp add: patchOp_def)

lemma inv_u_walks [simp]: "upload_inv (s, u\<lparr>u_walks := ws\<rparr>) \<longleftrightarrow> upload_inv (s, u)"
  by (simp add: upload_inv_def toks_ok_def item_tok_def)

lemma upload_start_inv:
  assumes "upload_inv (s, u)"
  shows "upload_inv (upload_start ls oi inp (s, u))"
proof (cases "st_op s oi")
  case (Some p)
  let ?s1 = "upd_op oi (upload_title inp) s"
  have 1: "upload_inv (?s1, u)"
    by (rule upd_op_inv [OF assms]) (simp add: upload_title_def op_static_def Let_def)
  have 2: "upload_inv (settle oi (patchOp oi (\<lambda>q. q\<lparr>op_error := e, op_state := st\<rparr>) ?s1), u)" for e st
    using inv_settle [OF patchOp_inv [OF 1]] by (simp add: op_static_def)
  have 3: "upload_inv (settle oi (fst (add_files ls oi fs (?s1, u))), snd (add_files ls oi fs (?s1, u)))" for fs
    using inv_settle [OF add_files_inv [OF 1]] .
  have "upload_inv (upd_rt oi g (snd (new_ref ?s1)), u)" for g
    by (rule inv_same_items [OF 1]) (intro keeps_intros keeps_refl, simp add: new_ref_def)
  then have 4: "upload_inv (patchOp oi id (upd_op oi (\<lambda>q. q\<lparr>op_walking := True\<rparr>) (upd_rt oi g (snd (new_ref ?s1)))), u)" for g
    by (intro patchOp_inv upd_op_inv) (simp_all add: op_static_def)
  show ?thesis using Some 2 3 4 by (simp add: upload_start_def Let_def split_beta split: option.split)
qed (simp add: upload_start_def assms)

lemma walk_end_inv: "upload_inv (s, u) \<Longrightarrow> upload_inv (walk_end oi ctl (s, u))"
  using inv_settle [OF upd_op_inv [of s u "\<lambda>q. q\<lparr>op_walking := False\<rparr>"]] by (simp add: walk_end_def op_static_def)

lemma run_hold_total: "st_op s oi = Some p \<Longrightarrow> st_item s i = Some x \<Longrightarrow>
   sending (snd (run oi i (s, u))) j \<le> sending u j + (if j = i then 1 else 0)"
  using run_effect(1) [of s oi p i x u] by (simp add: sending_def)

text \<open>The pump takes no hold of an item that had none.\<close>

lemma upload_pump_hold:
  "held (snd (upload_pump su)) j + sending (snd (upload_pump su)) j \<le> held (snd su) j + sending (snd su) j"
proof (rule pool.pump_invariant [of "\<lambda>t. held (snd t) j + sending (snd t) j \<le> held (snd su) j + sending (snd su) j"])
  fix t assume a: "held (snd t) j + sending (snd t) j \<le> held (snd su) j + sending (snd su) j" "pool_queue t \<noteq> []"
  obtain s u where t: "t = (s, u)" by (cases t)
  obtain oi i q where q: "u_ready u = (oi, i) # q" using a(2) t by (cases "u_ready u") (auto simp: pool_queue_def)
  note h = held_tl [OF q, of j]
  show "held (snd (pool_pop t)) j + sending (snd (pool_pop t)) j \<le> held (snd su) j + sending (snd su) j"
    using a(1) h t q by (simp add: pool_pop_def)
  let ?u = "u\<lparr>u_ready := q, u_active := Suc (u_active u)\<rparr>"
  have "sending (snd (run oi i (s, ?u))) j \<le> sending u j + (if j = i then 1 else 0)"
  proof (cases "st_op s oi = None \<or> st_item s i = None")
    case True
    then show ?thesis by (auto simp: run_def split: option.split)
  next
    case False
    then show ?thesis using run_hold_total [of s oi _ i _ ?u j] by auto
  qed
  then show "held (snd (pool_start (hd (pool_queue t)) (pool_pop t))) j + sending (snd (pool_start (hd (pool_queue t)) (pool_pop t))) j
      \<le> held (snd su) j + sending (snd su) j"
    using a(1) h t q by (simp add: pool_start_def pool_pop_def pool_queue_def run_u_all split: if_splits)
qed simp

lemma enqueue_free: "free_tok su j \<Longrightarrow> j \<noteq> i \<Longrightarrow> free_tok (enqueue oi i su) j"
  using upload_pump_hold [of "(fst su, (snd su)\<lparr>u_ready := u_ready (snd su) @ [(oi, i)]\<rparr>)" j]
  by (simp add: enqueue_def free_tok_def)

lemma mk_next_free: "free_tok (mk_next k oi i path rest made su) j = free_tok su j"
  by (simp add: mk_next_def free_tok_def Let_def split: list.split)

lemma makeFolders_free: "free_tok (makeFolders oi i rel su) j = free_tok su j"
  by (simp add: makeFolders_def Let_def split_beta mk_next_free split: option.split) (simp add: free_tok_def)

lemma retry_one_inv:
  assumes "upload_inv (s, u)" "free_tok (s, u) i"
  shows "upload_inv (retry_one oi i (s, u))"
proof (cases "st_item s i")
  case (Some x)
  let ?f = "\<lambda>y. y\<lparr>it_state := Running, it_error := None, it_offline := False\<rparr>"
  let ?g = "\<lambda>y. y\<lparr>it_state := Queued, it_error := None, it_offline := False, it_received := 0\<rparr>"
  let ?h = "\<lambda>y. y\<lparr>it_uploadId := None, it_completeOnly := False\<rparr>"
  have p: "is_plain s i" if "it_isDir x"
    using assms(1) that Some by (auto simp: upload_inv_def pool_ok_def heap_ok_def is_plain_def)
  have k: "keeps s (patchItem oi i ?f s)" "keeps s (patchItem oi i ?g (upd_item i ?h s))"
    by (auto simp: item_patch intro!: keeps_intros)
  have 1: "upload_inv (makeFolders oi i (it_relPath x) (patchItem oi i ?f s, u))" if "it_isDir x"
    by (rule makeFolders_inv [OF inv_nonfile [OF assms(1) k(1) is_plain_not_file [OF p [OF that]]]])
      (use is_plain_keeps [OF k(1)] p [OF that] in auto)
  have 2: "upload_inv (enqueue oi i (patchItem oi i ?g (upd_item i ?h s), u))" if "it_file x \<noteq> None"
    by (rule enqueue_inv [of _ u i "?g (?h x)", OF pool_ok_keeps [OF inv_pool [OF assms(1)] k(2)]
          toks_but_patch [OF inv_but [OF assms(1)] k(2)]])
      (use Some that assms(2) in \<open>simp_all add: free_tok_def\<close>)
  show ?thesis using 1 2 Some assms(1) by (simp add: retry_one_def)
qed (simp add: retry_one_def assms)

lemma retry_one_free:
  assumes "free_tok su j" "j \<noteq> i"
  shows "free_tok (retry_one oi i su) j"
  using assms by (auto simp: retry_one_def makeFolders_free free_tok_def [of "(_, snd su)"] free_tok_def [of su]
      split: option.split intro!: enqueue_free)

lemma upload_retry_inv:
  assumes "upload_inv su" "distinct targets" "\<And>i. i \<in> set targets \<Longrightarrow> free_tok su i"
  shows "upload_inv (upload_retry oi targets su)"
proof -
  have "upload_inv (fold (retry_one oi) targets su)"
    using assms
  proof (induction targets arbitrary: su)
    case (Cons i targets)
    have "upload_inv (retry_one oi i su)" using retry_one_inv [of "fst su" "snd su" i oi] Cons.prems by simp
    moreover have "free_tok (retry_one oi i su) j" if "j \<in> set targets" for j
      using Cons.prems that by (intro retry_one_free) auto
    ultimately show ?case using Cons.IH Cons.prems(2) by simp
  qed simp
  then show ?thesis using inv_settle by (simp add: upload_retry_def Let_def)
qed

lemma stop_item_other: "j \<noteq> i \<Longrightarrow> st_item (stop_item oi i s) j = st_item s j"
  by (simp add: stop_item_def Let_def abort_opt_def split: option.split)

lemma abort_opt_item [simp]: "st_item (abort_opt c s) = st_item s"
  by (simp add: abort_opt_def split: option.split)

lemma stop_item_inv:
  assumes "upload_inv (s, u)"
  shows "upload_inv (stop_item oi i s, u)"
proof (rule inv_same_hold [OF assms keeps_stop_item stop_item_other])
  fix x y w d assume a: "st_item s i = Some x" "st_item (stop_item oi i s) i = Some y" "tok_ok (it_state x) w d"
  show "tok_ok (it_state y) w d"
    using a endSession_item [of oi i s i]
    by (cases "it_state x") (auto simp: stop_item_def Let_def split: if_splits)
next
  fix x y assume a: "st_item s i = Some x" "st_item (stop_item oi i s) i = Some y" "it_state y = NeedsDecision"
  then show "it_state x = NeedsDecision"
    using endSession_item [of oi i s i]
    by (cases "it_state x") (auto simp: stop_item_def Let_def split: if_splits)
qed

lemma fold_stop_inv: "upload_inv (s, u) \<Longrightarrow> upload_inv (fold (stop_item oi) is s, u)"
  by (induction "is" arbitrary: s) (simp_all add: stop_item_inv)

lemma upload_cancel_inv:
  assumes "upload_inv (s, u)"
  shows "upload_inv (upload_cancel oi s, u)"
proof -
  have "upload_inv (abort_opt (r_walkAbort (st_rt s oi)) s, u)"
    by (rule inv_same_items [OF assms]) (simp_all add: keeps_abort_opt)
  then have "upload_inv (fold (stop_item oi) xs (upd_op oi (\<lambda>q. q\<lparr>op_walking := False\<rparr>) (abort_opt (r_walkAbort (st_rt s oi)) s)), u)" for xs
    by (intro fold_stop_inv upd_op_inv) (simp_all add: op_static_def)
  then show ?thesis using assms by (simp add: upload_cancel_def Let_def split: option.split)
qed

end
