(* ===== verification/JobPool.thy ===== *)
theory JobPool
  imports TabSystem UploadPool
begin

text \<open>
  Correctness of the job runner: the queue is a pump of four slots, and nothing the runner does
  touches an upload.
\<close>

section \<open>The job queue is a pump\<close>

definition jq_queue :: "jst \<Rightarrow> entry list" where
  "jq_queue sj = j_queue (snd sj)"

definition jq_slots :: "jst \<Rightarrow> nat" where
  "jq_slots sj = slotsUsed (snd sj)"

definition jq_pop :: "jst \<Rightarrow> jst" where
  "jq_pop sj = (fst sj, (snd sj)\<lparr>j_queue := tl (j_queue (snd sj))\<rparr>)"

interpretation jobq: pump_loop jq_queue jq_slots JOB_PARALLEL jq_pop "\<lambda>sj. sendable (fst sj)" submit job_loop
proof
  show "job_loop sj =
      (if jq_queue sj \<noteq> [] \<and> jq_slots sj < JOB_PARALLEL then
         (if sendable (fst sj) (hd (jq_queue sj)) then job_loop (submit (hd (jq_queue sj)) (jq_pop sj))
          else job_loop (jq_pop sj))
       else sj)" for sj
    by (subst job_loop.simps) (simp add: jq_queue_def jq_slots_def jq_pop_def Let_def)
qed (simp_all add: jq_queue_def jq_slots_def jq_pop_def submit_j slotsUsed_def)

section \<open>What the job runner holds\<close>

text \<open>An item a job may touch: not a file being uploaded, and not an item of an upload.\<close>

definition job_item :: "store \<Rightarrow> iref \<Rightarrow> bool" where
  "job_item s i \<longleftrightarrow> is_plain s i \<and> \<not> up_item s i"

fun poll_holds :: "poll_phase \<Rightarrow> iref set" where
  "poll_holds PollList = {}"
| "poll_holds (PollGets pend) = (\<lambda>x. snd (snd x)) ` set pend"

definition job_holds :: "jobs \<Rightarrow> iref set" where
  "job_holds j = snd ` set (j_queue j) \<union> (\<lambda>x. snd (snd x)) ` set (j_accepted j) \<union> (\<lambda>x. snd (snd x)) ` set (j_submits j)
     \<union> (\<lambda>x. snd (snd x)) ` set (j_removes j) \<union> (\<Union>x \<in> set (j_polls j). poll_holds (snd x))"

definition entries_ok :: "jst \<Rightarrow> bool" where
  "entries_ok sj \<longleftrightarrow> (\<forall>i \<in> job_holds (snd sj). job_item (fst sj) i)"

text \<open>
  The invariant of the runner, while \<open>n\<close> answers are being handled: every request that is under
  way takes a slot, and at most four slots are taken, or as many as the \<open>K\<close> jobs of an earlier load.
\<close>

definition job_inv :: "nat \<Rightarrow> nat \<Rightarrow> uploads \<Rightarrow> jst \<Rightarrow> bool" where
  "job_inv K n u sj \<longleftrightarrow> upload_inv (fst sj, u) \<and> entries_ok sj
     \<and> j_inflight (snd sj) = n + length (j_submits (snd sj)) \<and> slotsUsed (snd sj) \<le> max JOB_PARALLEL K"

lemma job_item_keeps: "keeps s t \<Longrightarrow> job_item t i \<longleftrightarrow> job_item s i"
  by (simp add: job_item_def is_plain_keeps up_item_keeps)

lemma entries_ok_keeps: "entries_ok (s, j) \<Longrightarrow> keeps s t \<Longrightarrow> entries_ok (t, j)"
  by (simp add: entries_ok_def job_item_keeps)

lemma job_inv_same: "job_inv K n u (s, j) \<Longrightarrow> keeps s t \<Longrightarrow> st_item t = st_item s \<Longrightarrow> job_inv K n u (t, j)"
  by (auto simp: job_inv_def intro: inv_same_items entries_ok_keeps)

lemma job_inv_patch:
  assumes "job_inv K n u (s, j)" "job_item s i" "keeps s t" "\<And>k. k \<noteq> i \<Longrightarrow> st_item t k = st_item s k"
  shows "job_inv K n u (t, j)"
proof -
  have "upload_inv (t, u)"
    using assms by (intro inv_nonfile [of s u t i]) (auto simp: job_inv_def job_item_def is_plain_not_file)
  then show ?thesis using assms(1) entries_ok_keeps [OF _ assms(3)] by (simp add: job_inv_def)
qed

lemma job_inv_holds:
  "job_inv K n u (s, j) \<Longrightarrow> job_holds j' \<subseteq> job_holds j \<union> I \<Longrightarrow> (\<And>i. i \<in> I \<Longrightarrow> job_item s i) \<Longrightarrow>
     j_inflight j' = m + length (j_submits j') \<Longrightarrow> slotsUsed j' \<le> max JOB_PARALLEL K \<Longrightarrow> job_inv K m u (s, j')"
  by (auto simp: job_inv_def entries_ok_def)

lemma job_holds_upd [simp]:
  "job_holds (j\<lparr>j_blockedUntil := b\<rparr>) = job_holds j" "job_holds (j\<lparr>j_pollTimer := pt\<rparr>) = job_holds j"
  "job_holds (j\<lparr>j_retryTimer := rt\<rparr>) = job_holds j" "job_holds (j\<lparr>j_storage := st\<rparr>) = job_holds j"
  "job_holds (j\<lparr>j_inflight := n\<rparr>) = job_holds j" "job_holds (j\<lparr>j_stopped := sp\<rparr>) = job_holds j"
  "job_holds (j\<lparr>j_full := fl\<rparr>) = job_holds j"
  "job_holds (j\<lparr>j_queue := j_queue j @ [e]\<rparr>) = insert (snd e) (job_holds j)"
  "job_holds (j\<lparr>j_queue := e # j_queue j\<rparr>) = insert (snd e) (job_holds j)"
  "job_holds (j\<lparr>j_removes := j_removes j @ [(k, e)]\<rparr>) = insert (snd e) (job_holds j)"
  "job_holds (j\<lparr>j_polls := j_polls j @ [(k, ph)]\<rparr>) = poll_holds ph \<union> job_holds j"
  by (auto simp: job_holds_def)

lemma slots_upd [simp]:
  "slotsUsed (j\<lparr>j_blockedUntil := b\<rparr>) = slotsUsed j" "slotsUsed (j\<lparr>j_pollTimer := pt\<rparr>) = slotsUsed j"
  "slotsUsed (j\<lparr>j_retryTimer := rt\<rparr>) = slotsUsed j" "slotsUsed (j\<lparr>j_storage := st\<rparr>) = slotsUsed j"
  "slotsUsed (j\<lparr>j_queue := q\<rparr>) = slotsUsed j" "slotsUsed (j\<lparr>j_removes := rs\<rparr>) = slotsUsed j"
  "slotsUsed (j\<lparr>j_polls := ps\<rparr>) = slotsUsed j" "slotsUsed (j\<lparr>j_submits := sb\<rparr>) = slotsUsed j"
  "slotsUsed (j\<lparr>j_stopped := sp\<rparr>) = slotsUsed j" "slotsUsed (j\<lparr>j_full := fl\<rparr>) = slotsUsed j"
  by (simp_all add: slotsUsed_def)

text \<open>Writing to the storage changes nothing else.\<close>

lemma writeStoredJobs_alt: "\<exists>x. writeStoredJobs js j = j\<lparr>j_storage := x\<rparr>"
  by (cases "j_storage j"; cases "js = []"; cases "j_full j")
    (auto simp: writeStoredJobs_def intro: exI [of _ "j_storage j"])

lemma storage_frame [simp]:
  "job_holds (writeStoredJobs js j) = job_holds j" "slotsUsed (writeStoredJobs js j) = slotsUsed j"
  "j_inflight (writeStoredJobs js j) = j_inflight j" "j_submits (writeStoredJobs js j) = j_submits j"
  "j_accepted (writeStoredJobs js j) = j_accepted j" "j_queue (writeStoredJobs js j) = j_queue j"
  "j_stopped (writeStoredJobs js j) = j_stopped j"
  using writeStoredJobs_alt [of js j] by auto

lemma job_inv_storage:
  "job_inv K n u (s, j) \<Longrightarrow> job_inv K n u (s, dropJob x j)" "job_inv K n u (s, j) \<Longrightarrow> job_inv K n u (s, dropOp y j)"
  "job_inv K n u (s, j) \<Longrightarrow> job_inv K n u (s, saveJob z j)"
  by (simp_all add: job_inv_def entries_ok_def dropJob_def dropOp_def saveJob_def)

section \<open>Every handler keeps the invariant\<close>

lemma armRetry_inv: "job_inv K n u sj \<Longrightarrow> job_inv K n u (armRetry sj)"
proof -
  assume i: "job_inv K n u sj"
  obtain s j where sj: "sj = (s, j)" by (cases sj)
  have "job_inv K n u (snd (setTimer RetryQueue ms s), j)" for ms
    by (rule job_inv_same [OF i [unfolded sj]]) simp_all
  then show ?thesis using i unfolding sj by (simp add: armRetry_def Let_def split_beta job_inv_def entries_ok_def)
qed

lemma schedulePoll_inv: "job_inv K n u sj \<Longrightarrow> job_inv K n u (schedulePoll sj)"
proof -
  assume i: "job_inv K n u sj"
  obtain s j where sj: "sj = (s, j)" by (cases sj)
  have "job_inv K n u (snd (setTimer PollJobs ms s), j)" for ms
    by (rule job_inv_same [OF i [unfolded sj]]) simp_all
  then show ?thesis using i unfolding sj by (simp add: schedulePoll_def Let_def split_beta job_inv_def entries_ok_def)
qed

lemma submit_inv:
  assumes "job_inv K n u (s, j)" "job_item s (snd e)" "slotsUsed j < JOB_PARALLEL"
  shows "job_inv K n u (submit e (s, j))"
proof -
  let ?t = "fst (submit e (s, j))" and ?j = "snd (submit e (s, j))"
  have "keeps s ?t"
    unfolding submit_def Let_def split_beta fst_conv by (intro keeps_intros keeps_refl) (simp add: item_patch)
  moreover have "st_item ?t k = st_item s k" if "k \<noteq> snd e" for k
    using that by (simp add: submit_def Let_def split_beta new_ref_def)
  ultimately have t: "job_inv K n u (?t, j)" "job_item ?t (snd e)"
    using assms by (auto intro: job_inv_patch simp: job_item_keeps)
  have "job_inv K n u (?t, ?j)"
  proof (rule job_inv_holds [OF t(1), of _ "{snd e}"])
    show "job_holds ?j \<subseteq> job_holds j \<union> {snd e}" by (auto simp: submit_def Let_def split_beta job_holds_def)
  qed (use t(2) assms(1,3) in \<open>auto simp: submit_j job_inv_def slotsUsed_def\<close>)
  then show ?thesis by simp
qed

lemma job_loop_inv:
  assumes "job_inv K n u sj"
  shows "job_inv K n u (job_loop sj)"
proof (rule jobq.pump_invariant [of "job_inv K n u", OF assms])
  fix sj assume a: "job_inv K n u sj" "jq_queue sj \<noteq> []" "jq_slots sj < JOB_PARALLEL"
  obtain s j where sj: "sj = (s, j)" by (cases sj)
  have "hd (j_queue j) \<in> set (j_queue j)" using a(2) sj by (simp add: jq_queue_def)
  then have "snd (hd (j_queue j)) \<in> job_holds j" by (auto simp: job_holds_def)
  then have e: "job_item s (snd (hd (j_queue j)))" using a(1) sj by (simp add: job_inv_def entries_ok_def)
  have h: "job_holds (j\<lparr>j_queue := tl (j_queue j)\<rparr>) \<subseteq> job_holds j"
    by (auto simp: job_holds_def dest: list.set_sel(2) [rotated])
      (metis image_eqI list.set_sel(2) snd_conv tl_Nil)
  have p: "job_inv K n u (jq_pop sj)"
    using job_inv_holds [of K n u s j "j\<lparr>j_queue := tl (j_queue j)\<rparr>" "{}" n] a(1) sj h
    by (simp add: jq_pop_def job_inv_def)
  then show "job_inv K n u (submit (hd (jq_queue sj)) (jq_pop sj))"
    using submit_inv [of K n u s "j\<lparr>j_queue := tl (j_queue j)\<rparr>" "hd (j_queue j)"] e a(3) sj
    by (simp add: jq_pop_def jq_queue_def jq_slots_def)
next
  fix sj assume a: "job_inv K n u sj" "jq_queue sj \<noteq> []"
  obtain s j where sj: "sj = (s, j)" by (cases sj)
  have h: "job_holds (j\<lparr>j_queue := tl (j_queue j)\<rparr>) \<subseteq> job_holds j"
    by (auto simp: job_holds_def dest: list.set_sel(2) [rotated])
      (metis image_eqI list.set_sel(2) snd_conv tl_Nil)
  show "job_inv K n u (jq_pop sj)"
    using job_inv_holds [of K n u s j "j\<lparr>j_queue := tl (j_queue j)\<rparr>" "{}" n] a(1) sj h
    by (simp add: jq_pop_def job_inv_def)
qed

lemma job_pump_inv: "job_inv K n u sj \<Longrightarrow> job_inv K n u (job_pump sj)"
  by (simp add: job_pump_def armRetry_inv job_loop_inv)

lemma job_inv_settle: "job_inv K n u (s, j) \<Longrightarrow> job_inv K n u (settle oi s, j)"
  by (erule job_inv_same) simp_all

lemma job_inv_eff: "job_inv K n u (s, j) \<Longrightarrow> job_inv K n u (eff e s, j)"
  by (erule job_inv_same) simp_all

lemma job_inv_notify: "job_inv K n u (s, j) \<Longrightarrow> job_inv K n u (notify oi k s, j)"
  by (erule job_inv_same) simp_all

lemma job_inv_invalidate: "job_inv K n u (s, j) \<Longrightarrow> job_inv K n u (invalidate ks s, j)"
  by (erule job_inv_same) simp_all

lemma job_inv_patchItem:
  assumes "job_inv K n u (s, j)" "job_item s i" "\<And>x. item_static (f x) = item_static x"
  shows "job_inv K n u (patchItem_u urgent oi i f s, j)"
  by (rule job_inv_patch [OF assms(1,2)]) (use assms(3) in auto)

lemma job_item_patchItem:
  "(\<And>x. item_static (f x) = item_static x) \<Longrightarrow> job_item (patchItem_u urgent oi k f s) i \<longleftrightarrow> job_item s i"
  by (rule job_item_keeps) auto

lemma job_item_simple [simp]:
  "job_item (eff ev s) i \<longleftrightarrow> job_item s i" "job_item (settle oi s) i \<longleftrightarrow> job_item s i"
  "job_item (notify oi k s) i \<longleftrightarrow> job_item s i" "job_item (snd (setTimer a ms s)) i \<longleftrightarrow> job_item s i"
  by (rule job_item_keeps, simp)+

lemma job_inv_enqueue:
  assumes "job_inv K n u (s, j)" "job_item s (snd e)"
  shows "job_inv K n u (s, j\<lparr>j_queue := j_queue j @ [e]\<rparr>)" "job_inv K n u (s, j\<lparr>j_queue := e # j_queue j\<rparr>)"
  using assms by (auto simp: job_inv_def entries_ok_def)

lemma requeue_inv:
  assumes "job_inv K n u (s, j)" "job_item s (snd e)" "\<And>x. item_static (f x) = item_static x"
  shows "job_inv K n u (requeue e f (s, j))"
proof -
  let ?t = "patchItem (fst e) (snd e) (\<lambda>x. f (x\<lparr>it_state := Queued, it_decision := None, it_error := None\<rparr>)) s"
  have "job_inv K n u (?t, j)" "job_item ?t (snd e)"
    using assms by (simp_all add: job_inv_patchItem job_item_patchItem item_patch)
  then show ?thesis unfolding requeue_def fst_conv snd_conv by (intro job_pump_inv job_inv_enqueue(1))
qed

lemma job_decide_inv:
  assumes "job_inv K n u (s, j)" "job_item s (snd e)"
  shows "job_inv K n u (job_decide e ch (s, j))"
proof -
  let ?s1 = "snd (new_ref s)"
  let ?r = "patchItem (fst e) (snd e) (\<lambda>y. y\<lparr>it_state := Submitting, it_decision := None, it_error := None\<rparr>) ?s1"
  have k: "keeps s ?s1" "st_item ?s1 = st_item s" by (simp, simp add: new_ref_def)
  have "job_inv K n u (?s1, j)" "job_item ?s1 (snd e)" using job_inv_same [OF assms(1) k] assms(2) job_item_keeps [OF k(1)] by simp_all
  then have "job_inv K n u (?r, j)" "job_item ?r (snd e)"
    by (simp_all add: job_inv_patchItem job_item_patchItem item_patch)
  then have 1: "job_inv K n u (eff ev ?r, j\<lparr>j_removes := j_removes j @ [(m, e)]\<rparr>)" for ev m
    using job_inv_eff [of K n u ?r j ev] by (auto simp: job_inv_def entries_ok_def job_item_keeps)
  have 2: "job_inv K n u (settle (fst e) (patchItem (fst e) (snd e) (\<lambda>y. y\<lparr>it_state := Skipped, it_decision := None\<rparr>) s), j)"
    using assms by (intro job_inv_settle job_inv_patchItem) (simp_all add: item_patch)
  have 3: "job_inv K n u (requeue e (\<lambda>y. y\<lparr>it_extra_confirm := True\<rparr>) (s, j))"
    "job_inv K n u (requeue e (\<lambda>y. y\<lparr>it_extra_keepBoth := True\<rparr>) (s, j))"
    using assms by (auto intro!: requeue_inv simp: item_patch)
  show ?thesis using 1 2 3 assms(1) by (simp add: job_decide_def Let_def split_beta split: option.split choice.split)
qed

lemma ask_job_inv:
  assumes "job_inv K n u (s, j)" "job_item s i"
  shows "job_inv K n u (notify oi k (patchItem oi i (\<lambda>y. y\<lparr>it_state := NeedsDecision, it_decision := d, it_error := None\<rparr>) s), j)"
  using assms by (intro job_inv_notify job_inv_patchItem) (simp_all add: item_patch)

lemma onSubmitError_inv:
  assumes "job_inv K n u (s, j)" "job_item s (snd e)"
  shows "job_inv K n u (onSubmitError e err (s, j))"
proof -
  let ?t = "patchItem (fst e) (snd e) (\<lambda>y. y\<lparr>it_state := Submitting, it_waitingForQueue := True\<rparr>) s"
  have "job_inv K n u (?t, j)" "job_item ?t (snd e)"
    using assms by (simp_all add: job_inv_patchItem job_item_patchItem item_patch)
  then have "job_inv K n u (?t, j\<lparr>j_queue := e # j_queue j, j_blockedUntil := b\<rparr>)" for b
    using job_inv_enqueue(2) [of K n u ?t j e] by (simp add: job_inv_def entries_ok_def)
  then have 1: "job_inv K n u (armRetry (?t, j\<lparr>j_queue := e # j_queue j, j_blockedUntil := b\<rparr>))" for b
    by (rule armRetry_inv)
  have 2: "job_inv K n u (notify (fst e) Error (patchItem (fst e) (snd e) (\<lambda>y. y\<lparr>it_state := Failed, it_error := er,
      it_retryable := rt, it_offline := ofl\<rparr>) s), j)" for er rt ofl
    using assms by (intro job_inv_notify job_inv_patchItem) (simp_all add: item_patch)
  note 3 = ask_job_inv [OF assms] job_decide_inv [OF assms]
  show ?thesis
    using 1 2 3 assms(1) by (simp add: onSubmitError_def Let_def split: option.split decision.split)
qed

lemma set_map_set: "set (map_set k v xs) \<subseteq> insert (k, v) (set xs)"
  by (induction xs) auto

lemma length_map_set: "length xs \<le> length (map_set k v xs)" "length (map_set k v xs) \<le> Suc (length xs)"
  by (induction xs) auto

lemma length_map_delete: "length (map_delete k xs) \<le> length xs"
  by (simp add: map_delete_def)

text \<open>
  The answer of a job that was sent. Its own slot is still counted while the answer is handled, so an
  accepted job may take its slot before the old one is given back.
\<close>

lemma submit_result_inv:
  assumes "job_inv K 0 u (s, j)" "r \<in> set (j_submits j)"
  shows "job_inv K 0 u (submit_result r res (s, j))"
proof -
  let ?j = "j\<lparr>j_submits := remove1 r (j_submits j)\<rparr>"
  let ?e = "snd r"
  have "snd ?e \<in> job_holds j" using assms(2) by (auto simp: job_holds_def)
  then have e: "job_item s (snd ?e)" using assms(1) by (simp add: job_inv_def entries_ok_def)
  have l: "Suc (length (remove1 r (j_submits j))) = length (j_submits j)"
    using assms(2) length_pos_if_in_set [OF assms(2)] by (simp add: length_remove1)
  have h: "job_holds ?j \<subseteq> job_holds j" using set_remove1_subset [of r "j_submits j"] by (auto simp: job_holds_def)
  have i: "job_inv K 1 u (s, ?j)"
    using job_inv_holds [OF assms(1), of ?j "{}" 1] h l assms(1) by (simp add: job_inv_def)
  let ?sj = "submit_try ?e res (s, ?j)"
  have fin: "job_inv K 0 u (job_pump (settle oi t, j'\<lparr>j_inflight := j_inflight j' - 1\<rparr>))"
    if t: "upload_inv (t, u)" "entries_ok (t, j')" "j_inflight j' = 1 + length (j_submits j')" "slotsUsed j' \<le> Suc (max JOB_PARALLEL K)"
    for oi t j'
  proof (rule job_pump_inv)
    have "upload_inv (settle oi t, u)" "entries_ok (settle oi t, j')"
      using inv_settle [OF t(1)] entries_ok_keeps [OF t(2)] by simp_all
    then show "job_inv K 0 u (settle oi t, j'\<lparr>j_inflight := j_inflight j' - 1\<rparr>)"
      using t(3,4) by (simp add: job_inv_def entries_ok_def slotsUsed_def)
  qed
  have "upload_inv (fst ?sj, u) \<and> entries_ok ?sj \<and> j_inflight (snd ?sj) = 1 + length (j_submits (snd ?sj))
      \<and> slotsUsed (snd ?sj) \<le> Suc (max JOB_PARALLEL K)"
  proof -
    have weak: "job_inv K 1 u sj \<Longrightarrow> upload_inv (fst sj, u) \<and> entries_ok sj \<and> j_inflight (snd sj) = 1 + length (j_submits (snd sj))
      \<and> slotsUsed (snd sj) \<le> Suc (max JOB_PARALLEL K)" for sj
      by (simp add: job_inv_def)
    have a: "upload_inv (fst sj, u) \<and> entries_ok sj \<and> j_inflight (snd sj) = 1 + length (j_submits (snd sj))
      \<and> slotsUsed (snd sj) \<le> Suc (max JOB_PARALLEL K)"
      if sj: "sj = schedulePoll (patchItem (fst ?e) (snd ?e) f s, saveJob sv (?j\<lparr>j_accepted := map_set k ?e (j_accepted ?j)\<rparr>))"
        "\<And>x. item_static (f x) = item_static x" for sj f sv k
    proof -
      let ?t = "patchItem (fst ?e) (snd ?e) f s" and ?j' = "?j\<lparr>j_accepted := map_set k ?e (j_accepted ?j)\<rparr>"
      have t: "job_inv K 1 u (?t, ?j)" "job_item ?t (snd ?e)"
        using i e sj(2) by (simp_all add: job_inv_patchItem job_item_patchItem)
      have "job_holds ?j' \<subseteq> job_holds ?j \<union> {snd ?e}"
        using set_map_set [of k ?e "j_accepted j"] by (auto simp: job_holds_def)
      then have "entries_ok (?t, ?j')" using t by (auto simp: job_inv_def entries_ok_def)
      moreover have "slotsUsed ?j' \<le> Suc (max JOB_PARALLEL K)"
        using i length_map_set(2) [of k ?e "j_accepted j"] by (simp add: job_inv_def slotsUsed_def)
      ultimately have "upload_inv (?t, u) \<and> entries_ok (?t, saveJob sv ?j') \<and> slotsUsed (saveJob sv ?j') \<le> Suc (max JOB_PARALLEL K)
          \<and> j_inflight (saveJob sv ?j') = 1 + length (j_submits (saveJob sv ?j'))"
        using t(1) by (simp add: job_inv_def entries_ok_def saveJob_def)
      then show ?thesis unfolding sj(1)
        by (simp add: schedulePoll_def Let_def split_beta entries_ok_def job_item_keeps)
          (auto intro: inv_same_items)
    qed
    show ?thesis
      using weak [OF i] weak [OF job_inv_eff [OF i]] weak [OF onSubmitError_inv [OF i e]] a [OF refl]
      by (simp add: submit_try_def item_patch split: option.split sum.split)
  qed
  then show ?thesis using fin [of "fst ?sj" "snd ?sj" "fst ?e"] by (simp add: submit_result_def Let_def)
qed

lemma remove_result_inv:
  assumes "job_inv K n u (s, j)" "r \<in> set (j_removes j)"
  shows "job_inv K n u (remove_result r res (s, j))"
proof -
  let ?j = "j\<lparr>j_removes := remove1 r (j_removes j)\<rparr>"
  let ?e = "snd r"
  have "snd ?e \<in> job_holds j" using assms(2) by (auto simp: job_holds_def)
  then have e: "job_item s (snd ?e)" using assms(1) by (simp add: job_inv_def entries_ok_def)
  have h: "job_holds ?j \<subseteq> job_holds j" using set_remove1_subset [of r "j_removes j"] by (auto simp: job_holds_def)
  have i: "job_inv K n u (s, ?j)" using job_inv_holds [OF assms(1), of ?j "{}" n] h assms(1) by (simp add: job_inv_def)
  let ?t = "upd_item (snd ?e) (\<lambda>x. x\<lparr>it_extra_keepBoth := False, it_state := Queued\<rparr>) s"
  have k: "keeps s ?t" by (rule keeps_upd_item) (simp add: item_patch)
  have "job_inv K n u (?t, ?j)" by (rule job_inv_patch [OF i e k]) simp
  then have 1: "job_inv K n u (job_pump (?t, ?j\<lparr>j_queue := j_queue ?j @ [?e]\<rparr>))"
    using e job_item_keeps [OF k] by (intro job_pump_inv job_inv_enqueue(1)) simp_all
  have 2: "job_inv K n u (settle oi (notify oi k (patchItem oi (snd ?e) (\<lambda>x. x\<lparr>it_state := Failed, it_error := er, it_retryable := rt\<rparr>) s)), ?j)"
    for oi k er rt
    using i e by (intro job_inv_settle job_inv_notify job_inv_patchItem) (simp_all add: item_patch)
  show ?thesis using 1 2 by (simp add: remove_result_def Let_def split: sum.split)
qed

lemma job_inv_drop_accepted:
  assumes "job_inv K n u (s, j)"
  shows "job_inv K n u (s, dropJob k (j\<lparr>j_accepted := map_delete k (j_accepted j)\<rparr>))"
proof (rule job_inv_storage(1), rule job_inv_holds [OF assms, of _ "{}"])
  show "job_holds (j\<lparr>j_accepted := map_delete k (j_accepted j)\<rparr>) \<subseteq> job_holds j \<union> {}"
    by (auto simp: job_holds_def map_delete_def)
qed (use assms length_map_delete [of k "j_accepted j"] in \<open>auto simp: job_inv_def slotsUsed_def\<close>)

lemma job_inv_unblock: "job_inv K n u (s, j) \<Longrightarrow> job_inv K n u (s, j\<lparr>j_blockedUntil := b\<rparr>)"
  by (simp add: job_inv_def entries_ok_def)

lemma gone_inv:
  assumes "job_inv K n u (s, j)" "job_item s (snd e)"
  shows "job_inv K n u (gone k e (s, j))"
proof (cases "st_op s (fst e)")
  case (Some p)
  show ?thesis using Some assms unfolding gone_def fst_conv snd_conv Some option.case Let_def
    by (intro job_pump_inv job_inv_unblock job_inv_settle job_inv_notify job_inv_patchItem job_inv_drop_accepted)
      (simp_all add: item_patch)
qed (simp add: gone_def assms)

lemma ended_item_inv:
  assumes "job_inv K n u (s, j)" "job_item s (snd e)"
  shows "job_inv K n u (ended_item p e b s, j)"
  unfolding ended_item_def Let_def
  using assms
  by (auto intro!: job_inv_invalidate job_inv_notify job_inv_patchItem simp: item_patch)

lemma handleJob_inv:
  assumes "job_inv K n u (s, j)" "job_item s (snd e)"
  shows "job_inv K n u (handleJob k e b (s, j))"
proof (cases "st_op s (fst e)")
  case (Some p)
  have 1: "job_inv K n u (patchItem (fst e) (snd e) (\<lambda>x. x\<lparr>it_size := jb_total b, it_received := jb_progress b\<rparr>) s, j)"
    using assms by (intro job_inv_patchItem) (simp_all add: item_patch)
  have 2: "job_inv K n u (job_pump (settle (fst e) (ended_item p e b s),
      (dropJob k (j\<lparr>j_accepted := map_delete k (j_accepted j)\<rparr>))\<lparr>j_blockedUntil := 0\<rparr>))"
    using assms by (intro job_pump_inv job_inv_unblock job_inv_settle job_inv_drop_accepted ended_item_inv)
  show ?thesis using 1 2 Some by (simp add: handleJob_def Let_def)
qed (simp add: handleJob_def assms)

lemma keeps_armRetry: "keeps (fst sj) (fst (armRetry sj))"
  by (simp add: armRetry_def Let_def split_beta)

lemma keeps_schedulePoll: "keeps (fst sj) (fst (schedulePoll sj))"
  by (simp add: schedulePoll_def Let_def split_beta)

lemma keeps_submit: "keeps (fst sj) (fst (submit e sj))"
  unfolding submit_def Let_def split_beta fst_conv by (intro keeps_intros keeps_refl) (simp add: item_patch)

lemma keeps_job_loop: "keeps (fst sj) (fst (job_loop sj))"
  by (rule jobq.pump_invariant [of "\<lambda>t. keeps (fst sj) (fst t)"])
    (auto simp: jq_pop_def intro: keeps_trans [OF _ keeps_submit [of "(_, _)", simplified]])

lemma keeps_job_pump: "keeps (fst sj) (fst (job_pump sj))"
  by (simp add: job_pump_def keeps_armRetry keeps_job_loop)

lemma keeps_ended_item: "keeps s (ended_item p e b s)"
  unfolding ended_item_def Let_def by (auto intro!: keeps_intros simp: item_patch)

lemma keeps_handleJob: "keeps (fst sj) (fst (handleJob k e b sj))"
proof (cases "st_op (fst sj) (fst e)")
  case (Some p)
  have 1: "keeps (fst sj) (patchItem (fst e) (snd e) (\<lambda>x. x\<lparr>it_size := jb_total b, it_received := jb_progress b\<rparr>) (fst sj))"
    by (rule keeps_patchItem) (simp add: item_patch)
  have "keeps (fst sj) (settle (fst e) (ended_item p e b (fst sj)))" by (intro keeps_intros keeps_ended_item)
  from keeps_trans [OF this keeps_job_pump [of "(_, _)", simplified]] 1 show ?thesis
    using Some by (simp add: handleJob_def Let_def)
qed (simp add: handleJob_def)

text \<open>The answer of a poll: every entry it was asked about is an item the runner may touch.\<close>

lemma poll_entries_inv:
  assumes "job_inv K n u (s, j)" "\<And>x. x \<in> set xs \<Longrightarrow> job_item s (snd (snd x))"
  shows "job_inv K n u (snd (poll_entries bs xs (s, j)))
     \<and> set (fst (poll_entries bs xs (s, j))) \<subseteq> set xs \<and> keeps s (fst (snd (poll_entries bs xs (s, j))))"
  using assms
proof (induction xs arbitrary: s j)
  case (Cons x xs)
  show ?case
  proof (cases "job_in bs (fst x)")
    case None
    have "job_inv K n u (eff (JobAsked (fst x)) s, j)" by (rule job_inv_eff [OF Cons.prems(1)])
    then have "job_inv K n u (snd (poll_entries bs xs (eff (JobAsked (fst x)) s, j)))
     \<and> set (fst (poll_entries bs xs (eff (JobAsked (fst x)) s, j))) \<subseteq> set xs
     \<and> keeps (eff (JobAsked (fst x)) s) (fst (snd (poll_entries bs xs (eff (JobAsked (fst x)) s, j))))"
      by (rule Cons.IH) (use Cons.prems(2) in simp)
    then show ?thesis using None keeps_trans [of s "eff (JobAsked (fst x)) s"] by (auto simp: Let_def split_beta)
  next
    case (Some b)
    obtain s1 j1 where h: "handleJob (fst x) (snd x) b (s, j) = (s1, j1)" by fastforce
    have k: "keeps s s1" using keeps_handleJob [of "(s, j)" "fst x" "snd x" b] h by simp
    have "job_inv K n u (s1, j1)" using handleJob_inv [OF Cons.prems(1), of "snd x" "fst x" b] Cons.prems(2) h by simp
    then have "job_inv K n u (snd (poll_entries bs xs (s1, j1)))
     \<and> set (fst (poll_entries bs xs (s1, j1))) \<subseteq> set xs \<and> keeps s1 (fst (snd (poll_entries bs xs (s1, j1))))"
      by (rule Cons.IH) (use Cons.prems(2) job_item_keeps [OF k] in simp)
    then show ?thesis using Some h keeps_trans [OF k] by auto
  qed
qed simp

lemma job_inv_polls:
  assumes "job_inv K n u (s, j)" "\<And>i. i \<in> I \<Longrightarrow> job_item s i"
    and "(\<Union>x \<in> set ps. poll_holds (snd x)) \<subseteq> (\<Union>x \<in> set (j_polls j). poll_holds (snd x)) \<union> I"
  shows "job_inv K n u (s, j\<lparr>j_polls := ps\<rparr>)"
proof (rule job_inv_holds [OF assms(1), of _ I])
  show "job_holds (j\<lparr>j_polls := ps\<rparr>) \<subseteq> job_holds j \<union> I" using assms(3) by (auto simp: job_holds_def)
qed (use assms(1,2) in \<open>auto simp: job_inv_def\<close>)

lemma poll_list_inv:
  assumes "job_inv K n u (s, j)"
  shows "job_inv K n u (poll_list k res (s, j))"
proof -
  let ?j = "j\<lparr>j_polls := filter (\<lambda>x. fst x \<noteq> k) (j_polls j)\<rparr>"
  have i: "job_inv K n u (s, ?j)" by (rule job_inv_polls [OF assms, of "{}"]) auto
  have acc: "job_item s (snd (snd x))" if "x \<in> set (j_accepted ?j)" for x
  proof -
    have "snd (snd x) \<in> job_holds j" using that by (auto simp: job_holds_def)
    then show ?thesis using assms by (simp add: job_inv_def entries_ok_def)
  qed
  have "job_inv K n u (fst (snd r), (snd (snd r))\<lparr>j_polls := j_polls (snd (snd r)) @ [(k, PollGets (fst r))]\<rparr>)"
    if "r = poll_entries bs (j_accepted ?j) (s, ?j)" for r bs
  proof -
    have p: "job_inv K n u (snd r)" "set (fst r) \<subseteq> set (j_accepted j)" "keeps s (fst (snd r))"
      using poll_entries_inv [OF i acc, where bs = bs and xs = "j_accepted ?j"] that by simp_all
    have "job_item (fst (snd r)) m" if "m \<in> (\<lambda>x. snd (snd x)) ` set (fst r)" for m
      using that p(2) acc job_item_keeps [OF p(3)] by auto
    then show ?thesis using p(1) by (intro job_inv_polls [of K n u _ _ "(\<lambda>x. snd (snd x)) ` set (fst r)"]) auto
  qed
  then show ?thesis using schedulePoll_inv [OF i] by (simp add: poll_list_def Let_def split_beta split: option.split)
qed

lemma poll_get_inv:
  assumes "job_inv K n u (s, j)" "(k, PollGets pend) \<in> set (j_polls j)" "x \<in> set pend"
  shows "job_inv K n u (poll_get k pend x res (s, j))"
proof -
  let ?ps = "map (\<lambda>y. if fst y = k then (k, PollGets (remove1 x pend)) else y) (j_polls j)"
  have "snd (snd x) \<in> job_holds j" using assms(2,3) by (force simp: job_holds_def)
  then have e: "job_item s (snd (snd x))" using assms(1) by (simp add: job_inv_def entries_ok_def)
  have sub: "poll_holds (PollGets (remove1 x pend)) \<subseteq> (\<Union>x \<in> set (j_polls j). poll_holds (snd x))"
    using assms(2) set_remove1_subset [of x pend] by force
  have i: "job_inv K n u (s, j\<lparr>j_polls := ?ps\<rparr>)"
    by (rule job_inv_polls [OF assms(1), of "{}"]) (use sub in \<open>auto split: if_splits\<close>)
  show ?thesis
    using i gone_inv [OF i e] handleJob_inv [OF i e]
    by (simp add: poll_get_def Let_def split: sum.split option.split)
qed

lemma poll_done_inv: "job_inv K n u (s, j) \<Longrightarrow> job_inv K n u (poll_done k (s, j))"
  unfolding poll_done_def fst_conv snd_conv
  by (intro schedulePoll_inv, erule job_inv_polls [where I = "{}"]) auto

lemma poll_fired_inv:
  assumes "job_inv K n u (s, j)"
  shows "job_inv K n u (poll_fired (s, j))"
proof -
  let ?j = "j\<lparr>j_pollTimer := None\<rparr>"
  have 1: "job_inv K n u (s, ?j)" using assms by (simp add: job_inv_def entries_ok_def)
  have k: "keeps s (eff JobListAsked (snd (new_ref s)))" by (intro keeps_intros keeps_refl)
  have "job_inv K n u (eff JobListAsked (snd (new_ref s)), ?j)"
    by (rule job_inv_same [OF 1 k]) (simp add: new_ref_def)
  then have "job_inv K n u (eff JobListAsked (snd (new_ref s)), ?j\<lparr>j_polls := j_polls ?j @ [(m, PollList)]\<rparr>)" for m
    by (rule job_inv_polls [of _ _ _ _ _ "{}"]) auto
  then show ?thesis using 1 by (simp add: poll_fired_def Let_def split_beta)
qed

lemma retry_fired_inv: "job_inv K n u (s, j) \<Longrightarrow> job_inv K n u (retry_fired (s, j))"
  unfolding retry_fired_def fst_conv snd_conv
  by (rule job_pump_inv) (simp add: job_inv_def entries_ok_def)

lemma job_start_inv:
  assumes "job_inv K n u (s, j)" "\<And>p i. st_op s oi = Some p \<Longrightarrow> i \<in> set (op_items p) \<Longrightarrow> job_item s i"
  shows "job_inv K n u (job_start oi (s, j))"
proof (cases "st_op s oi")
  case (Some p)
  have "job_inv K n u (s, j\<lparr>j_queue := j_queue j @ map (\<lambda>i. (oi, i)) (op_items p)\<rparr>)"
    by (rule job_inv_holds [OF assms(1), of _ "set (op_items p)"])
      (use assms Some in \<open>auto simp: job_holds_def job_inv_def\<close>)
  then show ?thesis using Some by (simp add: job_start_def job_pump_inv)
qed (simp add: job_start_def assms)

lemma job_retry_inv:
  assumes "job_inv K n u (s, j)" "\<And>i. i \<in> set targets \<Longrightarrow> job_item s i"
  shows "job_inv K n u (job_retry oi targets (s, j))"
proof -
  have "job_inv K n u (fold (retry_job oi) targets (s, j))"
    using assms
  proof (induction targets arbitrary: s j)
    case (Cons i k)
    let ?f = "\<lambda>x. x\<lparr>it_state := Queued, it_error := None, it_offline := False, it_received := 0, it_jobId := None\<rparr>"
    have f: "item_static (?f x) = item_static x" for x by (simp add: item_patch)
    have t: "job_inv K n u (patchItem oi i ?f s, j)" "\<And>k. job_item (patchItem oi i ?f s) k \<longleftrightarrow> job_item s k"
      using job_inv_patchItem [OF Cons.prems(1) _ f, of i] job_item_patchItem [OF f] Cons.prems(2) by simp_all
    have "job_inv K n u (retry_job oi i (s, j))"
      using job_inv_enqueue(1) [OF t(1), of "(oi, i)"] t(2) Cons.prems(2) by (simp add: retry_job_def)
    then show ?case using Cons.IH [of "patchItem oi i ?f s"] Cons.prems(2) t(2) by (simp add: retry_job_def)
  qed simp
  then show ?thesis
    using job_inv_settle [of K n u "fst (fold (retry_job oi) targets (s, j))"]
    by (simp add: job_retry_def Let_def job_pump_inv)
qed

lemma cancelItem_inv:
  assumes "job_inv K n u (s, j)" "job_item s i"
  shows "job_inv K n u (cancelItem oi i s, j)"
  using assms by (auto simp: cancelItem_def item_patch split: option.split intro!: job_inv_eff job_inv_patchItem)

lemma keeps_cancelItem: "keeps s (cancelItem oi i s)"
  by (auto simp: cancelItem_def item_patch split: option.split intro!: keeps_intros)

lemma fold_store_inv:
  assumes "job_inv K n u (s, j)" "\<And>i. i \<in> set is \<Longrightarrow> job_item s i"
    and "\<And>i s. job_inv K n u (s, j) \<Longrightarrow> job_item s i \<Longrightarrow> job_inv K n u (f i s, j)" "\<And>i s. keeps s (f i s)"
  shows "job_inv K n u (fold f is s, j)"
  using assms(1,2)
proof (induction "is" arbitrary: s)
  case (Cons i k)
  have "job_inv K n u (f i s, j)" using Cons.prems assms(3) by simp
  then show ?case using Cons.IH [of "f i s"] Cons.prems(2) job_item_keeps [OF assms(4)] by simp
qed simp

lemma job_cancel_inv:
  assumes "job_inv K n u (s, j)" "\<And>p i. st_op s oi = Some p \<Longrightarrow> i \<in> set (op_items p) \<Longrightarrow> job_item s i"
  shows "job_inv K n u (job_cancel oi s, j)"
  using assms by (auto simp: job_cancel_def split: option.split intro!: fold_store_inv cancelItem_inv keeps_cancelItem)

lemma forget_inv:
  assumes "job_inv K n u (s, j)"
  shows "job_inv K n u (forget oi (s, j))"
proof -
  let ?j = "j\<lparr>j_accepted := filter (\<lambda>x. fst (snd x) \<noteq> oi) (j_accepted j)\<rparr>"
  have "job_inv K n u (s, ?j)"
    using length_filter_le [of "\<lambda>x. fst (snd x) \<noteq> oi" "j_accepted j"] assms
    by (intro job_inv_holds [OF assms, of _ "{}"]) (auto simp: job_holds_def job_inv_def slotsUsed_def simp del: length_filter_le)
  then have "job_inv K n u (s, dropOp y ?j)" for y by (rule job_inv_storage(2))
  then show ?thesis using assms by (simp add: forget_def split: option.split)
qed

lemma job_stop_inv: "job_inv K n u (s, j) \<Longrightarrow> job_inv K n u (job_stop (s, j))"
proof -
  assume i: "job_inv K n u (s, j)"
  let ?t = "clear_opt (j_retryTimer j) (clear_opt (j_pollTimer j) s)"
  have "keeps s ?t" by (intro keeps_intros keeps_refl)
  then have "job_inv K n u (?t, j)" by (rule job_inv_same [OF i]) simp
  then show ?thesis by (simp add: job_stop_def job_inv_def entries_ok_def)
qed

section \<open>What the job runner keeps of the store\<close>

lemma keeps_pump_after: "keeps s t \<Longrightarrow> keeps s (fst (job_pump (t, j)))"
  using keeps_trans [OF _ keeps_job_pump [of "(t, j)"]] by simp

lemma keeps_requeue:
  assumes "\<And>x. item_static (f x) = item_static x"
  shows "keeps (fst sj) (fst (requeue e f sj))"
  unfolding requeue_def by (intro keeps_pump_after keeps_patchItem) (simp add: assms, simp add: item_patch)

lemma keeps_job_decide: "keeps (fst sj) (fst (job_decide e ch sj))"
proof -
  have "keeps (fst sj) (eff ev (patchItem (fst e) (snd e) (\<lambda>y. y\<lparr>it_state := Submitting, it_decision := None, it_error := None\<rparr>)
      (snd (new_ref (fst sj)))))" for ev
    by (intro keeps_intros keeps_refl) (simp add: item_patch)
  moreover have "keeps (fst sj) (settle (fst e) (patchItem (fst e) (snd e) (\<lambda>y. y\<lparr>it_state := Skipped, it_decision := None\<rparr>) (fst sj)))"
    by (intro keeps_intros keeps_refl) (simp add: item_patch)
  moreover have "keeps (fst sj) (fst (requeue e (\<lambda>y. y\<lparr>it_extra_confirm := True\<rparr>) sj))"
    "keeps (fst sj) (fst (requeue e (\<lambda>y. y\<lparr>it_extra_keepBoth := True\<rparr>) sj))"
    by (rule keeps_requeue, simp add: item_patch)+
  ultimately show ?thesis by (simp add: job_decide_def Let_def split_beta split: option.split choice.split)
qed

lemma keeps_remove_result: "keeps (fst sj) (fst (remove_result r res sj))"
proof -
  have "keeps (fst sj) (fst (job_pump (upd_item (snd (snd r)) (\<lambda>x. x\<lparr>it_extra_keepBoth := False, it_state := Queued\<rparr>) (fst sj), j)))" for j
    by (intro keeps_pump_after keeps_upd_item) (simp add: item_patch)
  moreover have "keeps (fst sj) (settle oi (notify oi k (patchItem oi i (\<lambda>x. x\<lparr>it_state := Failed, it_error := er, it_retryable := rt\<rparr>) (fst sj))))"
    for oi k i er rt
    by (intro keeps_intros keeps_refl) (simp add: item_patch)
  ultimately show ?thesis by (simp add: remove_result_def Let_def split: sum.split)
qed

lemma keeps_onSubmitError: "keeps (fst sj) (fst (onSubmitError e err sj))"
proof -
  have 1: "keeps (fst sj) (fst (armRetry (patchItem (fst e) (snd e) (\<lambda>y. y\<lparr>it_state := Submitting, it_waitingForQueue := True\<rparr>) (fst sj), j)))" for j
    using keeps_trans [OF keeps_patchItem keeps_armRetry [of "(_, j)", simplified]] by (simp add: item_patch)
  have 2: "keeps (fst sj) (notify oi k (patchItem oi i (\<lambda>y. y\<lparr>it_state := NeedsDecision, it_decision := d, it_error := None\<rparr>) (fst sj)))"
    for oi k i d
    by (intro keeps_intros keeps_refl) (simp add: item_patch)
  have 3: "keeps (fst sj) (notify oi k (patchItem oi i (\<lambda>y. y\<lparr>it_state := Failed, it_error := er, it_retryable := rt, it_offline := ofl\<rparr>) (fst sj)))"
    for oi k i er rt ofl
    by (intro keeps_intros keeps_refl) (simp add: item_patch)
  show ?thesis using 1 2 3 keeps_job_decide [of sj]
    by (simp add: onSubmitError_def Let_def split: option.split decision.split)
qed

lemma keeps_submit_try: "keeps (fst sj) (fst (submit_try e res sj))"
proof -
  have "keeps (fst sj) (fst (schedulePoll (patchItem (fst e) (snd e) f (fst sj), j)))" if "\<And>x. item_static (f x) = item_static x" for f j
    using keeps_trans [OF keeps_patchItem keeps_schedulePoll [of "(_, j)", simplified]] that by simp
  then show ?thesis using keeps_onSubmitError [of sj]
    by (simp add: submit_try_def item_patch split: option.split sum.split)
qed

lemma keeps_submit_result: "keeps (fst sj) (fst (submit_result r res sj))"
  using keeps_submit_try [of "(fst sj, _)"] unfolding submit_result_def Let_def
  by (intro keeps_pump_after keeps_intros) simp

lemma keeps_gone: "keeps (fst sj) (fst (gone k e sj))"
proof (cases "st_op (fst sj) (fst e)")
  case (Some p)
  then show ?thesis unfolding gone_def Some option.case Let_def
    by (intro keeps_pump_after keeps_intros keeps_refl) (simp add: item_patch)
qed (simp add: gone_def)

lemma keeps_poll_entries: "keeps (fst sj) (fst (snd (poll_entries bs xs sj)))"
proof (induction xs arbitrary: sj)
  case (Cons x xs)
  show ?case
    using keeps_trans [OF keeps_handleJob Cons.IH] keeps_trans [OF keeps_simple(3) Cons.IH [of "(_, snd sj)", simplified]]
    by (simp add: Let_def split_beta split: option.split)
qed simp

lemma keeps_poll_list: "keeps (fst sj) (fst (poll_list k res sj))"
  using keeps_schedulePoll [of "(fst sj, _)"] keeps_poll_entries [of "(fst sj, _)"]
  by (simp add: poll_list_def Let_def split_beta split: option.split)

lemma keeps_poll_get: "keeps (fst sj) (fst (poll_get k pend x res sj))"
  using keeps_gone [of "(fst sj, _)"] keeps_handleJob [of "(fst sj, _)"]
  by (simp add: poll_get_def Let_def split: sum.split option.split)

lemma keeps_poll_done: "keeps (fst sj) (fst (poll_done k sj))"
  using keeps_schedulePoll [of "(fst sj, _)"] by (simp add: poll_done_def)

lemma keeps_poll_fired: "keeps (fst sj) (fst (poll_fired sj))"
  unfolding poll_fired_def Let_def split_beta by (auto intro!: keeps_intros)

lemma keeps_retry_fired: "keeps (fst sj) (fst (retry_fired sj))"
  unfolding retry_fired_def by (intro keeps_pump_after) simp

lemma keeps_job_start: "keeps (fst sj) (fst (job_start oi sj))"
  by (simp add: job_start_def keeps_pump_after split: option.split)

lemma keeps_job_retry: "keeps (fst sj) (fst (job_retry oi targets sj))"
proof -
  have "keeps (fst sj) (fst (retry_job oi i sj))" for i sj
    unfolding retry_job_def fst_conv by (rule keeps_patchItem) (simp add: item_patch)
  then have "keeps (fst sj) (fst (fold (retry_job oi) targets sj))"
  proof (induction targets arbitrary: sj)
    case (Cons i k)
    show ?case using keeps_trans [OF Cons.prems Cons.IH [OF Cons.prems]] by simp
  qed simp
  then show ?thesis by (simp add: job_retry_def Let_def keeps_pump_after keeps_after)
qed

lemma keeps_job_cancel: "keeps s (job_cancel oi s)"
  by (simp add: job_cancel_def keeps_fold_store [of "cancelItem oi", OF keeps_cancelItem] split: option.split)

lemma forget_store [simp]: "fst (forget oi sj) = fst sj"
  by (simp add: forget_def split: option.split)

lemma keeps_job_stop: "keeps (fst sj) (fst (job_stop sj))"
  unfolding job_stop_def fst_conv by (intro keeps_intros keeps_refl)

end
