(* ===== verification/RequestQueue.thy ===== *)
theory RequestQueue
  imports JobPool "HOL-Library.Multiset"
begin

text \<open>
  Correctness of the request runner: a drive loop that waits for an answer is the only one of its
  operation, and nothing the runner does touches an upload.
\<close>

definition id_at :: "store \<Rightarrow> oref \<Rightarrow> jstring option" where
  "id_at s oi = map_option op_id (st_op s oi)"

text \<open>
  Between events every loop waits for exactly one request. \<open>extra\<close> are the operations whose
  loop is running right now.
\<close>

definition req_op :: "store \<Rightarrow> oref \<Rightarrow> bool" where
  "req_op s oi \<longleftrightarrow> (\<exists>p. st_op s oi = Some p \<and> \<not> is_upload (op_kind p))"

definition req_bal :: "jstring option multiset \<Rightarrow> qst \<Rightarrow> bool" where
  "req_bal extra sq \<longleftrightarrow> distinct (q_driving (snd sq))
     \<and> image_mset (id_at (fst sq) \<circ> fst) (mset (q_drives (snd sq))) + extra = mset (map Some (q_driving (snd sq)))
     \<and> (\<forall>d \<in> set (q_drives (snd sq)). job_item (fst sq) (fst (snd d)) \<and> req_op (fst sq) (fst d))"

definition op_items_ok :: "store \<Rightarrow> oref \<Rightarrow> bool" where
  "op_items_ok s oi \<longleftrightarrow> (\<forall>p. st_op s oi = Some p \<longrightarrow> \<not> is_upload (op_kind p) \<and> (\<forall>i \<in> set (op_items p). job_item s i))"

lemma id_at_keeps: "keeps s t \<Longrightarrow> id_at t oi = id_at s oi"
proof -
  assume k: "keeps s t"
  show ?thesis
    using keeps_op_Some [OF k, of oi] keeps_op [OF k, of oi]
    by (cases "st_op s oi") (auto simp: id_at_def op_static_def)
qed

lemma req_op_keeps: "keeps s t \<Longrightarrow> req_op t oi \<longleftrightarrow> req_op s oi"
  using keeps_op_Some [of s t oi] keeps_op [of s t oi]
  by (cases "st_op s oi"; cases "st_op t oi") (auto simp: req_op_def op_static_def)

lemma op_items_ok_keeps: "keeps s t \<Longrightarrow> op_items_ok s oi \<Longrightarrow> op_items_ok t oi"
proof -
  assume k: "keeps s t" and o: "op_items_ok s oi"
  have "\<exists>p. st_op s oi = Some p \<and> op_items q = op_items p \<and> op_kind q = op_kind p" if "st_op t oi = Some q" for q
    using keeps_op_Some [OF k, of oi] keeps_op [OF k, of oi] that by (cases "st_op s oi") (auto simp: op_static_def)
  then show ?thesis using o job_item_keeps [OF k] by (fastforce simp: op_items_ok_def)
qed

lemma req_bal_keeps:
  assumes "req_bal extra (s, q)" "keeps s t"
  shows "req_bal extra (t, q)"
proof -
  have "id_at t \<circ> fst = (id_at s \<circ> fst :: oref \<times> iref \<times> objref \<Rightarrow> _)"
    using id_at_keeps [OF assms(2)] by (auto simp: fun_eq_iff)
  then show ?thesis using assms(1) job_item_keeps [OF assms(2)] req_op_keeps [OF assms(2)] by (simp add: req_bal_def)
qed

lemma keeps_drive_end: "keeps (fst sq) (fst (drive_end oi sq))"
  by (simp add: drive_end_def split: option.split)

lemma drive_end_bal:
  assumes "req_bal {#id_at s oi#} (s, q)" "st_op s oi = Some p"
  shows "req_bal {#} (drive_end oi (s, q))"
proof -
  let ?q = "q\<lparr>q_driving := removeAll (op_id p) (q_driving q), q_controllers := (q_controllers q)(op_id p := None)\<rparr>"
  have d: "distinct (q_driving q)" and m: "add_mset (Some (op_id p)) (image_mset (id_at s \<circ> fst) (mset (q_drives q))) = mset (map Some (q_driving q))"
    using assms by (simp_all add: req_bal_def id_at_def)
  have "op_id p \<in> set (q_driving q)"
  proof -
    have "Some (op_id p) \<in># mset (map Some (q_driving q))" unfolding m [symmetric] by simp
    then show ?thesis by auto
  qed
  then have "mset (map Some (q_driving q)) = add_mset (Some (op_id p)) (mset (map Some (removeAll (op_id p) (q_driving q))))"
    using d by (simp add: distinct_remove1_removeAll [symmetric]) (metis image_mset_add_mset insert_DiffM set_mset_mset)
  then have "image_mset (id_at s \<circ> fst) (mset (q_drives q)) = mset (map Some (removeAll (op_id p) (q_driving q)))"
    using m by simp
  then have "req_bal {#} (s, ?q)"
    using assms(1) d by (simp add: req_bal_def distinct_removeAll)
  then have "req_bal {#} (settle oi s, ?q)" by (rule req_bal_keeps) simp
  then show ?thesis using assms(2) by (simp add: drive_end_def)
qed

lemma drive_end_job_inv: "job_inv K n u (fst sq, j) \<Longrightarrow> job_inv K n u (fst (drive_end oi sq), j)"
  by (simp add: drive_end_def job_inv_settle split: option.split)

lemma queued_refs_mem: "queued_refs s oi = i # k \<Longrightarrow> op_items_ok s oi \<Longrightarrow> job_item s i \<and> st_op s oi \<noteq> None"
proof -
  assume q: "queued_refs s oi = i # k" and o: "op_items_ok s oi"
  obtain p where p: "st_op s oi = Some p" using q by (cases "st_op s oi") (simp_all add: queued_refs_def)
  have "i \<in> set (filter (\<lambda>i. item_st s i = Some Queued) (op_items p))" using q p by (simp add: queued_refs_def)
  then show ?thesis using o p by (simp add: op_items_ok_def)
qed

lemma drive_loop_inv:
  assumes "req_bal {#id_at (fst sq) oi#} sq" "op_items_ok (fst sq) oi" "job_inv K n u (fst sq, j)" "req_op (fst sq) oi"
  shows "req_bal {#} (drive_loop oi ctl sq) \<and> job_inv K n u (fst (drive_loop oi ctl sq), j)
     \<and> keeps (fst sq) (fst (drive_loop oi ctl sq))"
  using assms
proof (induction oi ctl sq rule: drive_loop.induct)
  case (1 oi ctl sq)
  obtain s q where sq: "sq = (s, q)" by (cases sq)
  obtain p where p: "st_op s oi = Some p" "\<not> is_upload (op_kind p)" using "1.prems"(4) sq by (auto simp: req_op_def)
  have e: "req_bal {#} (drive_end oi sq)" "job_inv K n u (fst (drive_end oi sq), j)" "keeps s (fst (drive_end oi sq))"
    using drive_end_bal [of s oi q p] drive_end_job_inv [of K n u sq j oi] keeps_drive_end [of sq oi] "1.prems" sq p by simp_all
  show ?case
  proof (cases "isAlive oi s \<and> queued_refs s oi \<noteq> []")
    case False
    then show ?thesis using e sq by (subst (1 2 3) drive_loop.simps) (auto split: list.split)
  next
    case True
    then obtain i k where i: "queued_refs s oi = i # k" by (cases "queued_refs s oi") auto
    have ji: "job_item s i" using queued_refs_mem [OF i] "1.prems"(2) sq by simp
    let ?c = "patchItem oi i (\<lambda>x. x\<lparr>it_state := Cancelled\<rparr>) s"
    let ?r = "patchItem oi i (\<lambda>x. x\<lparr>it_state := Running, it_error := None, it_decision := None\<rparr>) s"
    have kc: "keeps s ?c" and kr: "keeps s (eff ev ?r)" for ev
      by (auto simp: item_patch intro!: keeps_intros)
    show ?thesis
    proof (cases "op_cancelled p")
      case c: True
      have "req_bal {#id_at ?c oi#} (?c, q)" using req_bal_keeps [OF _ kc] "1.prems"(1) sq id_at_keeps [OF kc] by simp
      moreover have "op_items_ok ?c oi" using op_items_ok_keeps [OF kc] "1.prems"(2) sq by simp
      moreover have "job_inv K n u (?c, j)"
        using "1.prems"(3) sq ji by (intro job_inv_patchItem) (simp_all add: item_patch)
      moreover have "req_op ?c oi" using req_op_keeps [OF kc] "1.prems"(4) sq by simp
      ultimately have "req_bal {#} (drive_loop oi ctl (?c, q)) \<and> job_inv K n u (fst (drive_loop oi ctl (?c, q)), j)
          \<and> keeps ?c (fst (drive_loop oi ctl (?c, q)))"
        using "1.IH" [of i k] True i c p sq by simp
      moreover have "drive_loop oi ctl sq = drive_loop oi ctl (?c, q)"
        using True i c p sq by (subst drive_loop.simps) simp
      ultimately show ?thesis using keeps_trans [OF kc] sq by simp
    next
      case c: False
      have "\<exists>b. drive_loop oi ctl sq = (eff (RequestRun oi i b) ?r, q\<lparr>q_drives := q_drives q @ [(oi, i, ctl)]\<rparr>)"
        using True i c p sq by (subst drive_loop.simps) (simp add: Let_def, blast)
      then obtain b where b: "drive_loop oi ctl sq = (eff (RequestRun oi i b) ?r, q\<lparr>q_drives := q_drives q @ [(oi, i, ctl)]\<rparr>)"
        by blast
      have "req_bal {#} (s, q\<lparr>q_drives := q_drives q @ [(oi, i, ctl)]\<rparr>)"
        using "1.prems"(1,4) ji sq by (simp add: req_bal_def)
      then have "req_bal {#} (eff (RequestRun oi i b) ?r, q\<lparr>q_drives := q_drives q @ [(oi, i, ctl)]\<rparr>)"
        by (rule req_bal_keeps) (rule kr)
      moreover have "job_inv K n u (eff (RequestRun oi i b) ?r, j)"
        using "1.prems"(3) sq ji by (intro job_inv_eff job_inv_patchItem) (simp_all add: item_patch)
      ultimately show ?thesis using b kr sq by simp
    qed
  qed
qed

lemma drive_inv:
  assumes "req_bal {#} (s, q)" "op_items_ok s oi" "job_inv K n u (s, j)"
  shows "req_bal {#} (drive oi (s, q)) \<and> job_inv K n u (fst (drive oi (s, q)), j) \<and> keeps s (fst (drive oi (s, q)))"
proof (cases "st_op s oi")
  case (Some p)
  let ?s1 = "snd (new_ref s)"
  let ?q = "q\<lparr>q_driving := q_driving q @ [op_id p], q_controllers := (q_controllers q)(op_id p \<mapsto> fst (new_ref s))\<rparr>"
  have k: "keeps s ?s1" "st_item ?s1 = st_item s" by (simp, simp add: new_ref_def)
  show ?thesis
  proof (cases "op_id p \<in> set (q_driving q)")
    case False
    have "req_bal {#id_at ?s1 oi#} (?s1, ?q)"
    proof (rule req_bal_keeps [OF _ k(1)])
      show "req_bal {#id_at ?s1 oi#} (s, ?q)"
        using assms(1) False Some id_at_keeps [OF k(1)] by (simp add: req_bal_def id_at_def)
    qed
    then have "req_bal {#} (drive_loop oi (fst (new_ref s)) (?s1, ?q)) \<and> job_inv K n u (fst (drive_loop oi (fst (new_ref s)) (?s1, ?q)), j)
       \<and> keeps (fst (?s1, ?q)) (fst (drive_loop oi (fst (new_ref s)) (?s1, ?q)))"
      by (intro drive_loop_inv)
        (use op_items_ok_keeps [OF k(1) assms(2)] job_inv_same [OF assms(3) k] req_op_keeps [OF k(1)] Some assms(2)
          in \<open>simp_all add: req_op_def op_items_ok_def\<close>)
    then show ?thesis using Some False keeps_trans [OF k(1)] by (simp add: drive_def Let_def split_beta)
  qed (use assms Some in \<open>simp add: drive_def\<close>)
qed (use assms in \<open>simp add: drive_def\<close>)

lemma request_outcome_inv:
  assumes "job_inv K n u (s, j)" "job_item s i"
  shows "job_inv K n u (request_outcome p oi i res s, j)" "keeps s (request_outcome p oi i res s)"
  using assms
  by (auto simp: request_outcome_def Let_def item_patch split: sum.split option.split decision.split
      intro!: job_inv_notify job_inv_patchItem keeps_intros)

lemma drive_result_inv:
  assumes "req_bal {#} (s, q)" "d \<in> set (q_drives q)" "op_items_ok s (fst d)" "job_inv K n u (s, j)"
  shows "req_bal {#} (drive_result d res (s, q)) \<and> job_inv K n u (fst (drive_result d res (s, q)), j)
     \<and> keeps s (fst (drive_result d res (s, q)))"
proof -
  obtain oi i ctl where d: "d = (oi, i, ctl)" by (cases d)
  have r: "req_op s oi" using assms(1,2) d by (fastforce simp: req_bal_def)
  then obtain p where p: "st_op s oi = Some p" by (auto simp: req_op_def)
  have ji: "job_item s i" using assms(1,2) d by (fastforce simp: req_bal_def)
  let ?t = "settle oi (request_outcome p oi i res s)"
  let ?q = "q\<lparr>q_drives := remove1 d (q_drives q)\<rparr>"
  have k: "keeps s ?t" by (intro keeps_intros request_outcome_inv(2) [OF assms(4) ji])
  have jt: "job_inv K n u (?t, j)" by (intro job_inv_settle request_outcome_inv(1) [OF assms(4) ji])
  have "image_mset (id_at s \<circ> fst) (mset (q_drives q)) = add_mset (id_at s oi) (image_mset (id_at s \<circ> fst) (mset (remove1 d (q_drives q))))"
    using assms(2) d by simp (metis comp_apply fst_conv image_mset_add_mset insert_DiffM set_mset_mset)
  then have "req_bal {#id_at s oi#} (s, ?q)"
    using assms(1) set_remove1_subset [of d "q_drives q"] by (auto simp: req_bal_def)
  then have "req_bal {#id_at ?t oi#} (?t, ?q)" using req_bal_keeps [OF _ k] id_at_keeps [OF k] by simp
  then have "req_bal {#} (drive_loop oi ctl (?t, ?q)) \<and> job_inv K n u (fst (drive_loop oi ctl (?t, ?q)), j)
      \<and> keeps (fst (?t, ?q)) (fst (drive_loop oi ctl (?t, ?q)))"
    by (intro drive_loop_inv)
      (use op_items_ok_keeps [OF k] assms(3) d jt req_op_keeps [OF k] r in simp_all)
  then show ?thesis using d p keeps_trans [OF k] by (simp add: drive_result_def)
qed

lemma request_decide_inv:
  assumes "req_bal {#} (s, q)" "op_items_ok s oi" "job_inv K n u (s, j)" "job_item s i"
  shows "req_bal {#} (request_decide oi i ch (s, q)) \<and> job_inv K n u (fst (request_decide oi i ch (s, q)), j)
     \<and> keeps s (fst (request_decide oi i ch (s, q)))"
proof -
  let ?c = "patchItem oi i (\<lambda>x. x\<lparr>it_state := Queued, it_decision := None, it_confirmBroaden := True\<rparr>) s"
  let ?k = "settle oi (patchItem oi i (\<lambda>x. x\<lparr>it_state := Skipped, it_decision := None\<rparr>) s)"
  have k: "keeps s ?c" "keeps s ?k" by (auto simp: item_patch intro!: keeps_intros)
  have j: "job_inv K n u (?c, j)" "job_inv K n u (?k, j)"
    using assms(3,4) by (auto intro!: job_inv_settle job_inv_patchItem simp: item_patch)
  have "req_bal {#} (drive oi (?c, q)) \<and> job_inv K n u (fst (drive oi (?c, q)), j) \<and> keeps ?c (fst (drive oi (?c, q)))"
    by (rule drive_inv [OF req_bal_keeps [OF assms(1) k(1)] op_items_ok_keeps [OF k(1) assms(2)] j(1)])
  then show ?thesis using keeps_trans [OF k(1)] k(2) j(2) req_bal_keeps [OF assms(1) k(2)]
    by (simp add: request_decide_def)
qed

lemma request_retry_inv:
  assumes "req_bal {#} (s, q)" "op_items_ok s oi" "job_inv K n u (s, j)" "\<And>i. i \<in> set targets \<Longrightarrow> job_item s i"
  shows "req_bal {#} (request_retry oi targets (s, q)) \<and> job_inv K n u (fst (request_retry oi targets (s, q)), j)
     \<and> keeps s (fst (request_retry oi targets (s, q)))"
proof -
  let ?f = "\<lambda>i. patchItem oi i (\<lambda>x. x\<lparr>it_state := Queued, it_error := None, it_offline := False\<rparr>)"
  let ?t = "settle oi (fold ?f targets s)"
  have "keeps s (fold ?f targets s)" by (rule keeps_fold_store) (auto simp: item_patch)
  then have k: "keeps s ?t" by (rule keeps_after)
  have "job_inv K n u (fold ?f targets s, j)"
    by (rule fold_store_inv [OF assms(3,4)]) (auto intro!: job_inv_patchItem keeps_patchItem simp: item_patch)
  then have j: "job_inv K n u (?t, j)" by (rule job_inv_settle)
  have "req_bal {#} (drive oi (?t, q)) \<and> job_inv K n u (fst (drive oi (?t, q)), j) \<and> keeps ?t (fst (drive oi (?t, q)))"
    by (rule drive_inv [OF req_bal_keeps [OF assms(1) k] op_items_ok_keeps [OF k assms(2)] j])
  then show ?thesis using keeps_trans [OF k] by (simp add: request_retry_def Let_def)
qed

lemma request_cancel_item_inv:
  assumes "job_inv K n u (s, j)" "job_item s i"
  shows "job_inv K n u (request_cancel_item oi i s, j)" "keeps s (request_cancel_item oi i s)"
  using assms by (auto simp: request_cancel_item_def item_patch intro!: job_inv_patchItem keeps_intros)

lemma request_cancel_inv:
  assumes "op_items_ok s oi" "job_inv K n u (s, j)"
  shows "job_inv K n u (fst (request_cancel oi (s, q)), j)" "keeps s (fst (request_cancel oi (s, q)))"
    "snd (request_cancel oi (s, q)) = q"
proof -
  let ?f = "\<lambda>i s. if item_st s i = Some Queued \<or> item_st s i = Some NeedsDecision
                  then patchItem oi i (\<lambda>x. x\<lparr>it_state := Cancelled, it_decision := None\<rparr>) s else s"
  have f: "keeps s (?f i s)" for i s by (auto simp: item_patch intro!: keeps_intros)
  have 1: "job_inv K n u (fold ?f (op_items p) t, j) \<and> keeps t (fold ?f (op_items p) t)"
    if "st_op s oi = Some p" "job_inv K n u (t, j)" "keeps s t" for p t
  proof
    show "job_inv K n u (fold ?f (op_items p) t, j)"
      by (rule fold_store_inv [OF that(2) _ _ f])
        (use assms(1) that job_item_keeps [OF that(3)] in \<open>auto simp: op_items_ok_def item_patch intro!: job_inv_patchItem\<close>)
  qed (rule keeps_fold_store [OF f])
  show "job_inv K n u (fst (request_cancel oi (s, q)), j)"
    using 1 [OF _ assms(2) keeps_refl] 1 [OF _ job_inv_eff [OF assms(2)] keeps_simple(3)] assms(2)
    by (simp add: request_cancel_def Let_def split: option.split)
  show "keeps s (fst (request_cancel oi (s, q)))"
    using keeps_fold_store [of ?f, OF f] keeps_trans [OF keeps_simple(3) keeps_fold_store [of ?f, OF f]]
    by (simp add: request_cancel_def Let_def split: option.split)
  show "snd (request_cancel oi (s, q)) = q" by (simp add: request_cancel_def Let_def split: option.split)
qed

end
