(* ===== verification/TabInv.thy ===== *)
theory TabInv
  imports RequestQueue
begin

text \<open>
  The invariant of a whole tab, and that every event keeps it: the pool of uploads, the slots of the
  job queue and the loops of the request runner stay within their bounds whatever the person, the
  browser and Luna do, in any order.
\<close>

section \<open>The invariant\<close>

definition ops_ok :: "store \<Rightarrow> bool" where
  "ops_ok s \<longleftrightarrow> (\<forall>oi p. st_op s oi = Some p \<longrightarrow> distinct (op_items p) \<and> (\<forall>i \<in> set (op_items p). st_item s i \<noteq> None)
     \<and> (\<not> is_upload (op_kind p) \<longrightarrow> op_items_ok s oi))"

definition upload_op :: "store \<Rightarrow> oref \<Rightarrow> bool" where
  "upload_op s oi \<longleftrightarrow> (\<exists>p. st_op s oi = Some p \<and> is_upload (op_kind p))"

definition tinv :: "nat \<Rightarrow> store \<Rightarrow> uploads \<Rightarrow> jobs \<Rightarrow> requests \<Rightarrow> bool" where
  "tinv K s u j q \<longleftrightarrow> job_inv K 0 u (s, j) \<and> req_bal {#} (s, q) \<and> ops_ok s \<and> (\<forall>w \<in> set (u_walks u). upload_op s (fst w))"

definition tab_inv :: "nat \<Rightarrow> tab \<Rightarrow> bool" where
  "tab_inv K t \<longleftrightarrow> tinv K (tb_s t) (tb_u t) (tb_j t) (tb_q t)"

lemma tinv_upload: "tinv K s u j q \<Longrightarrow> upload_inv (s, u)"
  by (simp add: tinv_def job_inv_def)

section \<open>Steps that keep the identity of every object\<close>

lemma keeps_op_back:
  assumes "keeps s t" "st_op t oi = Some q"
  obtains p where "st_op s oi = Some p" "op_static q = op_static p"
  using keeps_op_Some [OF assms(1), of oi] keeps_op [OF assms(1), of oi] assms(2) by (cases "st_op s oi") auto

lemma ops_ok_keeps:
  assumes o: "ops_ok s" and k: "keeps s t"
  shows "ops_ok t"
  unfolding ops_ok_def
proof (intro allI impI)
  fix oi q assume "st_op t oi = Some q"
  then obtain p where "st_op s oi = Some p" "op_static q = op_static p" by (rule keeps_op_back [OF k])
  then show "distinct (op_items q) \<and> (\<forall>i \<in> set (op_items q). st_item t i \<noteq> None) \<and> (\<not> is_upload (op_kind q) \<longrightarrow> op_items_ok t oi)"
    using o keeps_item [OF k] op_items_ok_keeps [OF k] by (simp add: ops_ok_def op_static_def)
qed

lemma upload_op_keeps: "keeps s t \<Longrightarrow> upload_op s oi \<Longrightarrow> upload_op t oi"
  using keeps_op_Some by (fastforce simp: upload_op_def op_static_def)

lemma tinv_job:
  assumes "tinv K s u j q" "job_inv K 0 u (s', j')" "keeps s s'"
  shows "tinv K s' u j' q"
  using assms ops_ok_keeps [OF _ assms(3)] req_bal_keeps [OF _ assms(3)] upload_op_keeps [OF assms(3)]
  by (auto simp: tinv_def)

lemma job_inv_upload:
  assumes "job_inv K n u (s, j)" "upload_inv (s', u')" "keeps s s'"
  shows "job_inv K n u' (s', j)"
  using assms entries_ok_keeps [OF _ assms(3)] by (simp add: job_inv_def)

lemma tinv_upload_step:
  assumes "tinv K s u j q" "upload_inv (s', u')" "keeps s s'" "set (u_walks u') \<subseteq> set (u_walks u)"
  shows "tinv K s' u' j q"
proof -
  have "upload_op s' (fst w)" if "w \<in> set (u_walks u')" for w
    using that assms(1,4) upload_op_keeps [OF assms(3)] by (auto simp: tinv_def)
  then show ?thesis
    using assms(1) job_inv_upload [OF _ assms(2,3)] ops_ok_keeps [OF _ assms(3)] req_bal_keeps [OF _ assms(3)]
    by (auto simp: tinv_def)
qed

lemma tinv_request:
  assumes "tinv K s u j q" "req_bal {#} (s', q') \<and> job_inv K 0 u (s', j) \<and> keeps s s'"
  shows "tinv K s' u j q'"
  using assms ops_ok_keeps [of s s'] upload_op_keeps [of s s'] by (auto simp: tinv_def)

lemma tinv_same: "tinv K s u j q \<Longrightarrow> keeps s s' \<Longrightarrow> st_item s' = st_item s \<Longrightarrow> tinv K s' u j q"
  by (rule tinv_upload_step) (auto intro: inv_same_items dest: tinv_upload)

section \<open>Steps that remove\<close>

definition op_shrinks :: "iref op \<Rightarrow> iref op \<Rightarrow> bool" where
  "op_shrinks p q \<longleftrightarrow> op_id q = op_id p \<and> op_kind q = op_kind p \<and> set (op_items q) \<subseteq> set (op_items p)
     \<and> (distinct (op_items p) \<longrightarrow> distinct (op_items q))"

definition shrinks :: "store \<Rightarrow> store \<Rightarrow> bool" where
  "shrinks s t \<longleftrightarrow> st_item t = st_item s \<and> st_next s \<le> st_next t \<and> set (st_ops t) \<subseteq> set (st_ops s)
     \<and> (\<forall>oi. rel_option op_shrinks (st_op s oi) (st_op t oi))"

lemma shrinks_op:
  assumes "shrinks s t" "st_op t oi = Some q"
  obtains p where "st_op s oi = Some p" "op_shrinks p q"
  using assms by (auto simp: shrinks_def option_rel_Some2 dest!: spec [of _ oi])

lemma shrinks_op_fwd:
  assumes "shrinks s t" "st_op s oi = Some p"
  obtains q where "st_op t oi = Some q" "op_shrinks p q"
  using assms by (auto simp: shrinks_def option_rel_Some1 dest!: spec [of _ oi])

lemma shrinks_None: "shrinks s t \<Longrightarrow> st_op t oi = None \<longleftrightarrow> st_op s oi = None"
  by (cases "st_op s oi"; cases "st_op t oi") (auto simp: shrinks_def dest!: spec [of _ oi])

lemma shrinks_up: "shrinks s t \<Longrightarrow> up_item t i \<Longrightarrow> up_item s i"
  unfolding up_item_def by (elim exE conjE) (erule shrinks_op, assumption, auto simp: op_shrinks_def)

lemma shrinks_plain: "shrinks s t \<Longrightarrow> is_plain t i \<longleftrightarrow> is_plain s i"
  by (simp add: shrinks_def is_plain_def)

lemma shrinks_job_item: "shrinks s t \<Longrightarrow> job_item s i \<Longrightarrow> job_item t i"
  using shrinks_up shrinks_plain by (auto simp: job_item_def)

lemma slot_ok_up: "slot_ok up x w d \<Longrightarrow> (up' \<longrightarrow> up) \<Longrightarrow> slot_ok up' x w d"
  by (cases x) (auto split: if_splits)

lemma shrinks_upload_inv:
  assumes "upload_inv (s, u)" "shrinks s t"
  shows "upload_inv (t, u)"
proof -
  have f: "st_item t = st_item s" "st_next s \<le> st_next t" "set (st_ops t) \<subseteq> set (st_ops s)"
    using assms(2) by (simp_all add: shrinks_def)
  note n = shrinks_None [OF assms(2)]
  have "item_tok (t, u) i" for i
    using inv_tok [OF assms(1), of i] shrinks_up [OF assms(2), of i]
    by (auto simp: item_tok_def f(1) intro: slot_ok_up)
  moreover have "heap_ok t" using assms(1) f n by (auto simp: upload_inv_def pool_ok_def heap_ok_def)
  moreover have "runs_ok (t, u)"
  proof -
    have "runs_ok (s, u)" using assms(1) by (simp add: upload_inv_def pool_ok_def)
    then show ?thesis using f(1,2) n by (simp add: runs_ok_def) (meson order_less_le_trans)
  qed
  moreover have "mk_ok (t, u)"
    using assms(1) shrinks_plain [OF assms(2)] by (simp add: upload_inv_def pool_ok_def mk_ok_def)
  ultimately show ?thesis by (simp add: upload_inv_def pool_ok_def toks_ok_def)
qed

lemma tinv_shrinks:
  assumes "tinv K s u j q" "shrinks s t"
  shows "tinv K t u j q"
proof -
  have ji: "job_inv K 0 u (s, j)" and rb: "req_bal {#} (s, q)" and oo: "ops_ok s"
    using assms(1) by (simp_all add: tinv_def)
  have "job_inv K 0 u (t, j)"
    using ji shrinks_upload_inv [OF _ assms(2)] shrinks_job_item [OF assms(2)] by (auto simp: job_inv_def entries_ok_def)
  moreover have "req_bal {#} (t, q)"
  proof -
    have "id_at t oi = id_at s oi" for oi
    proof (cases "st_op s oi")
      case (Some p)
      then show ?thesis using shrinks_op_fwd [OF assms(2) Some] by (auto simp: id_at_def op_shrinks_def)
    qed (use shrinks_None [OF assms(2)] in \<open>simp add: id_at_def\<close>)
    then have "id_at t = id_at s" by auto
    moreover have "req_op t oi" if "req_op s oi" for oi
      using that shrinks_op_fwd [OF assms(2)] unfolding req_op_def by (metis op_shrinks_def)
    ultimately show ?thesis using rb shrinks_job_item [OF assms(2)] by (simp add: req_bal_def)
  qed
  moreover have "ops_ok t"
    unfolding ops_ok_def op_items_ok_def
  proof (intro allI impI)
    fix oi q assume q: "st_op t oi = Some q"
    then obtain p where p: "st_op s oi = Some p" "op_shrinks p q" by (rule shrinks_op [OF assms(2)])
    have it: "st_item t = st_item s" using assms(2) by (simp add: shrinks_def)
    have o: "distinct (op_items p) \<and> (\<forall>i \<in> set (op_items p). st_item s i \<noteq> None) \<and> (\<not> is_upload (op_kind p) \<longrightarrow> op_items_ok s oi)"
      using oo p(1) by (simp add: ops_ok_def)
    show "distinct (op_items q) \<and> (\<forall>i \<in> set (op_items q). st_item t i \<noteq> None) \<and>
        (\<not> is_upload (op_kind q) \<longrightarrow> (\<forall>p. st_op t oi = Some p \<longrightarrow> \<not> is_upload (op_kind p) \<and> (\<forall>i \<in> set (op_items p). job_item t i)))"
      using o q p it shrinks_job_item [OF assms(2)] by (auto simp: op_shrinks_def op_items_ok_def)
  qed
  moreover have "upload_op t oi" if "upload_op s oi" for oi
    using that shrinks_op_fwd [OF assms(2)] unfolding upload_op_def by (metis op_shrinks_def)
  ultimately show ?thesis using assms(1) by (auto simp: tinv_def)
qed

lemma tinv_settle: "tinv K s u j q \<Longrightarrow> tinv K (settle oi s) u j q"
  by (erule tinv_same) simp_all

lemma removeItem_tinv: "tinv K s u j q \<Longrightarrow> tinv K (removeItem oi i s) u j q"
proof -
  assume t: "tinv K s u j q"
  let ?s1 = "upd_op oi (\<lambda>q. q\<lparr>op_items := remove1 i (op_items q)\<rparr>) s"
  have "shrinks s ?s1"
    by (auto simp: shrinks_def op_shrinks_def option.rel_map option.rel_refl upd_op_def dest: subsetD [OF set_remove1_subset] intro!: option.rel_refl)
  then have "tinv K ?s1 u j q" by (rule tinv_shrinks [OF t])
  moreover have "keeps ?s1 (emit True (touch oi None ?s1))" by (intro keeps_intros keeps_refl)
  ultimately have "tinv K (emit True (touch oi None ?s1)) u j q" by (rule tinv_same) simp
  then show ?thesis using t by (simp add: removeItem_def split: option.split)
qed

lemma removeOp_tinv: "tinv K s u j q \<Longrightarrow> tinv K (removeOp oi s) u j q"
proof -
  assume t: "tinv K s u j q"
  let ?s1 = "clear_op_timers oi s"
  let ?s2 = "?s1\<lparr>st_ops := remove1 oi (st_ops ?s1), st_dirty := removeAll oi (st_dirty ?s1)\<rparr>"
  have "keeps s ?s1" unfolding clear_op_timers_def Let_def by (intro keeps_intros keeps_refl)
  then have "tinv K ?s1 u j q" by (rule tinv_same [OF t]) (simp add: clear_op_timers_def Let_def)
  moreover have "shrinks ?s1 ?s2" using set_remove1_subset [of oi "st_ops ?s1"]
    by (auto simp: shrinks_def op_shrinks_def intro!: option.rel_refl)
  ultimately have "tinv K ?s2 u j q" by (rule tinv_shrinks)
  then have "tinv K (emit True ?s2) u j q" by (rule tinv_same) simp_all
  then show ?thesis using t by (simp add: removeOp_def Let_def)
qed

section \<open>Steps that add\<close>

text \<open>
  New objects have references nobody holds. \<open>ext s t\<close>: whatever was there in \<open>s\<close> is still
  what it was, and uploads gained only new items.
\<close>

definition ext :: "store \<Rightarrow> store \<Rightarrow> bool" where
  "ext s t \<longleftrightarrow> (\<forall>i. is_plain s i \<longrightarrow> is_plain t i) \<and> (\<forall>i. up_item t i \<longrightarrow> up_item s i \<or> st_item s i = None)
     \<and> (\<forall>oi. st_op s oi \<noteq> None \<longrightarrow> st_op t oi \<noteq> None \<and> id_at t oi = id_at s oi)
     \<and> (\<forall>oi. upload_op s oi \<longrightarrow> upload_op t oi) \<and> (\<forall>oi. req_op s oi \<longrightarrow> req_op t oi)"

lemma ext_job_item: "ext s t \<Longrightarrow> job_item s i \<Longrightarrow> job_item t i"
  by (auto simp: ext_def job_item_def is_plain_def)

lemma tinv_ext:
  assumes "tinv K s u j q" "ext s t" "upload_inv (t, u')" "ops_ok t" "\<And>w. w \<in> set (u_walks u') \<Longrightarrow> upload_op t (fst w)"
  shows "tinv K t u' j q"
proof -
  have "job_inv K 0 u' (t, j)"
    using assms(1,3) ext_job_item [OF assms(2)] by (auto simp: tinv_def job_inv_def entries_ok_def)
  moreover have "req_bal {#} (t, q)"
  proof -
    have rb: "req_bal {#} (s, q)" using assms(1) by (simp add: tinv_def)
    then have "id_at t (fst d) = id_at s (fst d)" if "d \<in> set (q_drives q)" for d
      using assms(2) that by (fastforce simp: req_bal_def req_op_def ext_def)
    then have "image_mset (id_at t \<circ> fst) (mset (q_drives q)) = image_mset (id_at s \<circ> fst) (mset (q_drives q))"
      by (intro image_mset_cong) simp
    then show ?thesis using rb ext_job_item [OF assms(2)] assms(2) by (auto simp: req_bal_def ext_def)
  qed
  ultimately show ?thesis using assms(4,5) by (simp add: tinv_def)
qed

lemma tinv_ext_same:
  assumes "tinv K s u j q" "ext s t" "upload_inv (t, u)" "ops_ok t"
  shows "tinv K t u j q"
  by (rule tinv_ext [OF assms]) (use assms(1,2) in \<open>auto simp: tinv_def ext_def\<close>)

lemma upload_inv_grow:
  assumes "upload_inv (s, u)" "st_item t = st_item s" "up_item t = up_item s" "st_next s \<le> st_next t" "heap_ok t"
    and "\<And>oi. st_op s oi \<noteq> None \<Longrightarrow> st_op t oi \<noteq> None"
  shows "upload_inv (t, u)"
proof -
  have "item_tok (t, u) i" for i using inv_tok [OF assms(1), of i] assms(2,3) by (simp add: item_tok_def)
  moreover have "mk_ok (t, u)"
    using assms(1,2) by (simp add: upload_inv_def pool_ok_def mk_ok_def is_plain_def)
  moreover have "runs_ok (t, u)"
  proof -
    have "runs_ok (s, u)" using assms(1) by (simp add: upload_inv_def pool_ok_def)
    then show ?thesis using assms(2,4,6) unfolding runs_ok_def fst_conv snd_conv by (metis order_less_le_trans)
  qed
  ultimately show ?thesis using assms(5) by (simp add: upload_inv_def pool_ok_def toks_ok_def)
qed

lemma inv_heap: "upload_inv (s, u) \<Longrightarrow> heap_ok s"
  by (simp add: upload_inv_def pool_ok_def)

text \<open>A new operation, still without items.\<close>

lemma alloc_op_tinv:
  assumes "tinv K s u j q" "op_items p = []"
  shows "tinv K (snd (alloc_op p s)) u j q" "st_op (snd (alloc_op p s)) (fst (alloc_op p s)) = Some p"
proof -
  let ?t = "snd (alloc_op p s)" and ?r = "st_next s"
  have t: "st_op ?t = (st_op s)(?r \<mapsto> p)" "st_item ?t = st_item s" "st_ops ?t = st_ops s" "st_next ?t = Suc ?r"
    "fst (alloc_op p s) = ?r"
    by (simp_all add: alloc_op_def new_ref_def Let_def)
  then show "st_op ?t (fst (alloc_op p s)) = Some p" by simp
  have ui: "upload_inv (s, u)" using assms(1) by (rule tinv_upload)
  then have n: "st_op s ?r = None" by (simp add: upload_inv_def pool_ok_def heap_ok_def)
  have up: "up_item ?t i \<longleftrightarrow> up_item s i" for i
    using n assms(2) by (auto simp: up_item_def t) (metis option.distinct(1))
  have pl: "is_plain ?t i \<longleftrightarrow> is_plain s i" for i by (simp add: is_plain_def t)
  have "heap_ok ?t" using inv_heap [OF ui] by (auto simp: heap_ok_def t)
  then have "upload_inv (?t, u)"
    by (intro upload_inv_grow [OF ui]) (use up in \<open>auto simp: t\<close>)
  moreover have "ext s ?t"
    using n up pl by (auto simp: ext_def id_at_def upload_op_def req_op_def t)
  moreover have "ops_ok ?t"
    using assms up pl by (auto simp: tinv_def ops_ok_def op_items_ok_def job_item_def t)
  ultimately show "tinv K ?t u j q" by (blast intro: tinv_ext_same [OF assms(1)])
qed

text \<open>A new item pushed on an operation that is not an upload.\<close>

lemma push_item_tinv:
  assumes "tinv K s u j q" "st_op s oi = Some p" "\<not> is_upload (op_kind p)"
    and "\<And>k. it_file (mk k) = None" "\<And>k. it_state (mk k) \<noteq> Uploading \<and> it_state (mk k) \<noteq> Finishing \<and> it_state (mk k) \<noteq> NeedsDecision"
  shows "tinv K (push_item oi mk s) u j q"
    "st_op (push_item oi mk s) oi = Some (p\<lparr>op_items := op_items p @ [st_next s]\<rparr>)"
    "job_item (push_item oi mk s) (st_next s)" "\<And>i. job_item s i \<Longrightarrow> job_item (push_item oi mk s) i"
proof -
  let ?x = "mk (fst (newId (lit ''it'') s))" and ?s1 = "snd (newId (lit ''it'') s)" and ?r = "st_next s"
  let ?s2 = "snd (alloc_item ?x ?s1)" and ?t = "push_item oi mk s"
  have t: "st_item ?t = (st_item s)(?r \<mapsto> ?x)" "st_ops ?t = st_ops s" "st_next ?t = Suc ?r"
    "st_op ?t = (st_op s)(oi \<mapsto> p\<lparr>op_items := op_items p @ [?r]\<rparr>)"
    using assms(2) by (simp_all add: push_item_def newId_def alloc_item_def new_ref_def Let_def upd_op_def)
  then show "st_op ?t oi = Some (p\<lparr>op_items := op_items p @ [st_next s]\<rparr>)" by simp
  have ui: "upload_inv (s, u)" using assms(1) by (rule tinv_upload)
  then have n: "st_item s ?r = None" by (simp add: upload_inv_def pool_ok_def heap_ok_def)
  have up: "up_item ?t i \<longleftrightarrow> up_item s i" for i
    using assms(2,3) by (auto simp: up_item_def t) (metis option.inject)+
  have oo: "ops_ok s" using assms(1) by (simp add: tinv_def)
  have nu: "\<not> up_item s ?r"
  proof
    assume "up_item s ?r"
    then obtain ok p0 where "st_op s ok = Some p0" "?r \<in> set (op_items p0)" by (auto simp: up_item_def)
    then have "st_item s ?r \<noteq> None" using oo unfolding ops_ok_def by blast
    then show False using n by simp
  qed
  have pl: "is_plain s i \<Longrightarrow> is_plain ?t i" for i using n assms(4) by (auto simp: is_plain_def t)
  then show jk: "job_item s i \<Longrightarrow> job_item ?t i" for i using up by (simp add: job_item_def)
  show jr: "job_item ?t ?r" using assms(4) up nu by (simp add: job_item_def is_plain_def t)
  have "upload_inv (?s1, u)" by (rule inv_same_items [OF ui]) (simp_all add: newId_keeps)
  then have u2: "upload_inv (?s2, u)" using alloc_item_inv(1) [of ?s1 u ?x] assms(4,5) by simp
  have s2: "st_item ?s2 = st_item ?t" "st_ops ?s2 = st_ops ?t" "st_next ?s2 = st_next ?t"
    "\<And>ok. st_op ?t ok = None \<longleftrightarrow> st_op ?s2 ok = None" "\<And>i. up_item ?s2 i = up_item s i"
    using assms(2) by (auto simp: t newId_def alloc_item_def new_ref_def Let_def up_item_def)
  have "upload_inv (?t, u)"
    by (rule upload_inv_grow [OF u2]) (use up s2 inv_heap [OF u2] in \<open>auto simp: heap_ok_def\<close>)
  moreover have e: "ext s ?t"
    using pl up assms(2,3) by (auto simp: ext_def id_at_def upload_op_def req_op_def t)
  moreover have "ops_ok ?t"
    unfolding ops_ok_def op_items_ok_def
  proof (intro allI impI)
    fix ok p' assume p': "st_op ?t ok = Some p'"
    have o: "st_op s ok = Some p0 \<Longrightarrow> distinct (op_items p0) \<and> (\<forall>i \<in> set (op_items p0). st_item s i \<noteq> None)
        \<and> (\<not> is_upload (op_kind p0) \<longrightarrow> (\<forall>i \<in> set (op_items p0). job_item s i))" for p0
      using oo by (auto simp: ops_ok_def op_items_ok_def)
    show "distinct (op_items p') \<and> (\<forall>i \<in> set (op_items p'). st_item ?t i \<noteq> None) \<and>
        (\<not> is_upload (op_kind p') \<longrightarrow> (\<forall>p. st_op ?t ok = Some p \<longrightarrow> \<not> is_upload (op_kind p) \<and> (\<forall>i \<in> set (op_items p). job_item ?t i)))"
    proof (cases "ok = oi")
      case True
      then have "p' = p\<lparr>op_items := op_items p @ [?r]\<rparr>" using p' by (simp add: t)
      moreover have "?r \<notin> set (op_items p)" using o [of p] assms(2) True n by auto
      ultimately show ?thesis using o [of p] True assms(2,3) jk jr p' by (auto simp: t)
    next
      case False
      then show ?thesis using o [of p'] p' jk by (auto simp: t)
    qed
  qed
  ultimately show "tinv K ?t u j q" by (blast intro: tinv_ext_same [OF assms(1)])
qed

lemma addOp_tinv:
  assumes "tinv K s u j q" "st_op s oi = Some p"
  shows "tinv K (addOp oi s) u j q" "\<exists>p'. st_op (addOp oi s) oi = Some p' \<and> op_static p' = op_static p"
proof -
  let ?s1 = "s\<lparr>st_ops := st_ops s @ [oi]\<rparr>"
  have eq: "up_item ?s1 = up_item s" "is_plain ?s1 = is_plain s" "id_at ?s1 = id_at s" "upload_op ?s1 = upload_op s"
    "req_op ?s1 = req_op s"
    by (simp_all add: fun_eq_iff up_item_def is_plain_def id_at_def upload_op_def req_op_def)
  have "upload_inv (?s1, u)"
    by (rule upload_inv_grow [OF tinv_upload [OF assms(1)]])
      (use inv_heap [OF tinv_upload [OF assms(1)]] assms(2) eq(1) in \<open>auto simp: heap_ok_def\<close>)
  moreover have "ext s ?s1" by (auto simp: ext_def eq)
  moreover have "ops_ok ?s1" using assms(1) by (simp add: tinv_def ops_ok_def op_items_ok_def job_item_def eq)
  ultimately have t1: "tinv K ?s1 u j q" by (blast intro: tinv_ext_same [OF assms(1)])
  have k: "keeps ?s1 (addOp oi s)"
  proof -
    have "keeps ?s1 (upd_op oi (\<lambda>q. q\<lparr>op_shown := True\<rparr>) ?s1)" by (rule keeps_upd_op) (simp add: op_static_def)
    moreover have "keeps ?s1 (upd_rt oi h (snd (setTimer a ms ?s1)))" for h a ms by (rule keeps_setTimer_rt)
    ultimately show ?thesis using assms(2) by (auto simp: addOp_def Let_def split_beta intro!: keeps_intros)
  qed
  moreover have "st_item (addOp oi s) = st_item ?s1" using assms(2) by (simp add: addOp_def Let_def split_beta)
  ultimately show "tinv K (addOp oi s) u j q" using tinv_same [OF t1] by blast
  show "\<exists>p'. st_op (addOp oi s) oi = Some p' \<and> op_static p' = op_static p"
    using keeps_op_Some [OF k, of oi p] assms(2) by simp
qed

lemma upd_rt_tinv: "tinv K s u j q \<Longrightarrow> tinv K (upd_rt oi h s) u j q"
  by (erule tinv_same) simp_all

lemma newId_tinv: "tinv K s u j q \<Longrightarrow> tinv K (snd (newId k s)) u j q"
  by (erule tinv_same) (simp_all add: newId_keeps)

section \<open>Uploads\<close>

text \<open>Only the start of a drop and the end of its walk change the list of walks.\<close>

lemma upload_pump_walks [simp]: "u_walks (snd (upload_pump su)) = u_walks (snd su)"
  by (rule pool.pump_invariant [of "\<lambda>t. u_walks (snd t) = u_walks (snd su)"])
    (simp_all add: pool_start_def pool_pop_def run_u)

lemma enqueue_walks [simp]: "u_walks (snd (enqueue oi i su)) = u_walks (snd su)"
  by (simp add: enqueue_def)

lemma apply_choice_walks [simp]: "u_walks (snd (apply_choice oi i ch su)) = u_walks (snd su)"
  by (simp add: apply_choice_def)

lemma clash_walks [simp]: "u_walks (snd (clash oi i k se su)) = u_walks (snd su)"
  by (simp add: clash_def Let_def split: option.split)

lemma handleError_walks [simp]: "u_walks (snd (handleError oi i err su)) = u_walks (snd su)"
  by (simp add: handleError_def Let_def split: option.split decision.split)

lemma prepare_walks [simp]:
  "u_walks (snd (prepare ls oi i su)) = u_walks (snd su)" "u_walks (snd (prepare_resume oi i su)) = u_walks (snd su)"
  by (simp_all add: prepare_def prepare_resume_def Let_def split: option.split)

lemma mk_next_walks [simp]: "u_walks (snd (mk_next k oi i path rest made su)) = u_walks (snd su)"
  by (simp add: mk_next_def Let_def split: list.split)

lemma makeFolders_walks [simp]: "u_walks (snd (makeFolders oi i rel su)) = u_walks (snd su)"
  by (simp add: makeFolders_def Let_def split_beta split: option.split)

lemma mk_walks [simp]:
  "u_walks (snd (mk_after_stat m k su)) = u_walks (snd su)" "u_walks (snd (stat_result m k su)) = u_walks (snd su)"
  "u_walks (snd (mkdir_result m res su)) = u_walks (snd su)"
  by (simp_all add: mk_after_stat_def stat_result_def mkdir_result_def Let_def split: option.split sum.split)

lemma run_walks [simp]:
  "u_walks (snd (run_result r res su)) = u_walks (snd su)" "u_walks (snd (run_finally r su)) = u_walks (snd su)"
  "u_walks (snd (run_progress r n su)) = u_walks (snd su)" "u_walks (snd (run_session r uid su)) = u_walks (snd su)"
  "u_walks (snd (run_retrying r su)) = u_walks (snd su)"
  by (simp_all add: run_result_def run_finally_def run_progress_def run_session_def run_retrying_def end_run_def Let_def
      split: sum.split)

lemma upload_retry_walks [simp]: "u_walks (snd (upload_retry oi targets su)) = u_walks (snd su)"
proof -
  have "u_walks (snd (retry_one oi i su)) = u_walks (snd su)" for i su
    by (simp add: retry_one_def split: option.split)
  then have "u_walks (snd (fold (retry_one oi) targets su)) = u_walks (snd su)"
    by (induction targets arbitrary: su) simp_all
  then show ?thesis by (simp add: upload_retry_def Let_def)
qed

lemma new_item_tinv:
  assumes "tinv K s u j q" "upload_op s oi" "it_isDir x \<longrightarrow> it_file x = None" "it_state x \<noteq> Uploading" "it_state x \<noteq> Finishing"
    "it_state x \<noteq> NeedsDecision"
  shows "tinv K (new_item oi x s) u j q"
proof -
  obtain p where p: "st_op s oi = Some p" "is_upload (op_kind p)" using assms(2) by (auto simp: upload_op_def)
  let ?r = "st_next s"
  let ?t = "push_item oi (\<lambda>_. x) s"
  have t: "st_item ?t = (st_item s)(?r \<mapsto> x)" "st_op ?t = (st_op s)(oi \<mapsto> p\<lparr>op_items := op_items p @ [?r]\<rparr>)"
    using p by (simp_all add: push_item_def newId_def alloc_item_def new_ref_def Let_def upd_op_def)
  have ne: "new_item oi x s = emit False (touch oi (Some ?r) ?t)"
    by (simp add: new_item_def addItem_def push_item_def Let_def split_beta newId_keeps alloc_item_def new_ref_def)
  have n: "st_item s ?r = None" using inv_heap [OF tinv_upload [OF assms(1)]] by (simp add: heap_ok_def)
  have oo: "ops_ok s" using assms(1) by (simp add: tinv_def)
  have up: "up_item ?t i \<Longrightarrow> up_item s i \<or> i = ?r" for i
    using p by (auto simp: up_item_def t split: if_splits)
  have ji: "job_item s i \<Longrightarrow> job_item ?t i" for i
    using n up by (auto simp: job_item_def is_plain_def t)
  have up': "up_item ?t i \<Longrightarrow> up_item s i \<or> st_item s i = None" for i using up [of i] n by auto
  have e: "ext s ?t"
    using n up' p by (auto simp: ext_def is_plain_def id_at_def upload_op_def req_op_def t)
  have o: "ops_ok ?t"
    unfolding ops_ok_def op_items_ok_def
  proof (intro allI impI)
    fix ok p' assume p': "st_op ?t ok = Some p'"
    have o: "st_op s ok = Some p0 \<Longrightarrow> distinct (op_items p0) \<and> (\<forall>i \<in> set (op_items p0). st_item s i \<noteq> None)
        \<and> (\<not> is_upload (op_kind p0) \<longrightarrow> (\<forall>i \<in> set (op_items p0). job_item s i))" for p0
      using oo by (auto simp: ops_ok_def op_items_ok_def)
    show "distinct (op_items p') \<and> (\<forall>i \<in> set (op_items p'). st_item ?t i \<noteq> None) \<and>
        (\<not> is_upload (op_kind p') \<longrightarrow> (\<forall>p. st_op ?t ok = Some p \<longrightarrow> \<not> is_upload (op_kind p) \<and> (\<forall>i \<in> set (op_items p). job_item ?t i)))"
    proof (cases "ok = oi")
      case True
      then have "p' = p\<lparr>op_items := op_items p @ [?r]\<rparr>" using p' by (simp add: t)
      moreover have "?r \<notin> set (op_items p)" using o [of p] p(1) True n by auto
      ultimately show ?thesis using o [of p] True p by (auto simp: t)
    next
      case False
      then show ?thesis using o [of p'] p' ji by (auto simp: t)
    qed
  qed
  have k: "keeps ?t (new_item oi x s)" unfolding ne by (intro keeps_intros keeps_refl)
  have i: "upload_inv (new_item oi x s, u)" by (rule new_item_inv(1) [OF tinv_upload [OF assms(1)] assms(3-6)])
  have "ext s (new_item oi x s)"
    using e up_item_keeps [OF k] is_plain_keeps [OF k] id_at_keeps [OF k] keeps_op [OF k] upload_op_keeps [OF k] req_op_keeps [OF k]
    by (auto simp: ext_def)
  then show ?thesis by (rule tinv_ext_same [OF assms(1) _ i ops_ok_keeps [OF o k]])
qed

lemma upload_op_new_item:
  assumes "upload_op s oi"
  shows "upload_op (new_item ok x s) oi"
proof -
  let ?t = "push_item ok (\<lambda>_. x) s"
  have "upload_op ?t oi"
    using assms by (auto simp: upload_op_def push_item_def newId_def alloc_item_def new_ref_def Let_def upd_op_def)
  moreover have "keeps ?t (new_item ok x s)"
    unfolding new_item_def addItem_def push_item_def Let_def split_beta
    by (simp add: newId_keeps alloc_item_def new_ref_def, intro keeps_intros keeps_refl)
  ultimately show ?thesis using upload_op_keeps by blast
qed

lemma addFile_tinv:
  assumes "tinv K s u j q" "upload_op s oi"
  shows "tinv K (fst (addFile ls oi f dir name rel (s, u))) (snd (addFile ls oi f dir name rel (s, u))) j q"
    "u_walks (snd (addFile ls oi f dir name rel (s, u))) = u_walks u"
    "upload_op (fst (addFile ls oi f dir name rel (s, u))) oi"
proof -
  obtain p where p: "st_op s oi = Some p" using assms(2) by (auto simp: upload_op_def)
  let ?x = "(makeItem (fst (newId (lit ''it'') s)) name)\<lparr>it_relPath := rel, it_destPath := dest_path (op_destFolder p) dir,
                      it_size := f_size f, it_file := Some (f_ref f)\<rparr>"
  let ?n = "new_item oi ?x s"
  have a: "addFile ls oi f dir name rel (s, u) = prepare ls oi (st_next s) (settle oi ?n, u)"
    using p by (simp add: addFile_def Let_def split_beta new_item_def newId_keeps alloc_item_def new_ref_def)
  have n: "tinv K ?n u j q" by (rule new_item_tinv [OF assms]) (simp_all add: makeItem_def)
  have k: "keeps ?n (fst (prepare ls oi (st_next s) (settle oi ?n, u)))"
    using keeps_trans [OF keeps_settle keeps_prepare [of "(settle oi ?n, u)", simplified]] by simp
  show "tinv K (fst (addFile ls oi f dir name rel (s, u))) (snd (addFile ls oi f dir name rel (s, u))) j q"
    using addFile_inv [OF tinv_upload [OF assms(1)], of ls oi f dir name rel] unfolding a
    by (intro tinv_upload_step [OF n _ k]) simp_all
  show "u_walks (snd (addFile ls oi f dir name rel (s, u))) = u_walks u" by (simp add: a)
  show "upload_op (fst (addFile ls oi f dir name rel (s, u))) oi"
    unfolding a by (rule upload_op_keeps [OF k upload_op_new_item [OF assms(2)]])
qed

lemma addFolder_tinv:
  assumes "tinv K s u j q" "upload_op s oi"
  shows "tinv K (fst (addFolder oi rel (s, u))) (snd (addFolder oi rel (s, u))) j q"
proof -
  obtain p where p: "st_op s oi = Some p" using assms(2) by (auto simp: upload_op_def)
  let ?x = "(makeItem (fst (newId (lit ''it'') s)) (snd (splitRel rel)))\<lparr>it_relPath := rel,
              it_destPath := dest_path (op_destFolder p) (fst (splitRel rel)), it_isDir := True, it_state := Running\<rparr>"
  let ?n = "new_item oi ?x s"
  have a: "addFolder oi rel (s, u) = makeFolders oi (st_next s) rel (settle oi ?n, u)"
    using p by (simp add: addFolder_def Let_def split_beta new_item_def newId_keeps alloc_item_def new_ref_def)
  have n: "tinv K ?n u j q" by (rule new_item_tinv [OF assms]) (simp_all add: makeItem_def)
  have k: "keeps ?n (fst (makeFolders oi (st_next s) rel (settle oi ?n, u)))"
    using keeps_trans [OF keeps_settle keeps_makeFolders [of "(settle oi ?n, u)", simplified]] by simp
  show ?thesis
    using addFolder_inv [OF tinv_upload [OF assms(1)], of oi rel] unfolding a
    by (intro tinv_upload_step [OF n _ k]) simp_all
qed

lemma addUnreadable_tinv:
  assumes "tinv K s u j q" "upload_op s oi"
  shows "tinv K (fst (addUnreadable oi rel (s, u))) (snd (addUnreadable oi rel (s, u))) j q"
proof -
  obtain p where p: "st_op s oi = Some p" using assms(2) by (auto simp: upload_op_def)
  let ?x = "(makeItem (fst (newId (lit ''it'') s)) (snd (splitRel rel)))\<lparr>it_relPath := rel,
     it_destPath := dest_path (op_destFolder p) (fst (splitRel rel)), it_state := Failed,
     it_error := Some unreadable_text, it_retryable := False\<rparr>"
  have "tinv K (new_item oi ?x s) u j q" by (rule new_item_tinv [OF assms]) (simp_all add: makeItem_def)
  then have "tinv K (notify oi Error (new_item oi ?x s)) u j q" by (rule tinv_same) simp_all
  then show ?thesis using p
    by (simp add: addUnreadable_def Let_def split_beta new_item_def newId_keeps alloc_item_def new_ref_def)
qed

lemma add_files_tinv:
  assumes "tinv K s u j q" "upload_op s oi"
  shows "tinv K (fst (add_files ls oi fs (s, u))) (snd (add_files ls oi fs (s, u))) j q"
  using assms
proof (induction fs arbitrary: s u)
  case (Cons f fs)
  let ?su = "addFile ls oi f (fst (splitRel (rel_or_name f))) (snd (splitRel (rel_or_name f))) (rel_or_name f) (s, u)"
  have "tinv K (fst ?su) (snd ?su) j q" "upload_op (fst ?su) oi" using addFile_tinv [OF Cons.prems] by blast+
  then show ?case using Cons.IH [of "fst ?su" "snd ?su"] by (simp add: add_files_def)
qed (simp add: add_files_def)

lemma upload_start_tinv:
  assumes "tinv K s u j q" "upload_op s oi"
  shows "tinv K (fst (upload_start ls oi inp (s, u))) (snd (upload_start ls oi inp (s, u))) j q"
proof -
  obtain p where p: "st_op s oi = Some p" using assms(2) by (auto simp: upload_op_def)
  let ?s1 = "upd_op oi (upload_title inp) s"
  have k1: "keeps s ?s1" by (rule keeps_upd_op) (simp add: upload_title_def op_static_def Let_def)
  have 1: "tinv K ?s1 u j q" by (rule tinv_same [OF assms(1) k1]) simp
  have u1: "upload_op ?s1 oi" by (rule upload_op_keeps [OF k1 assms(2)])
  have 2: "tinv K (settle oi (patchOp oi (\<lambda>q. q\<lparr>op_error := e, op_state := st\<rparr>) ?s1)) u j q" for e st
    by (rule tinv_same [OF 1]) (intro keeps_intros keeps_refl, simp_all add: op_static_def patchOp_def)
  have 3: "tinv K (settle oi (fst (add_files ls oi fs (?s1, u)))) (snd (add_files ls oi fs (?s1, u))) j q" for fs
    by (rule tinv_settle [OF add_files_tinv [OF 1 u1]])
  let ?w = "\<lambda>g. patchOp oi id (upd_op oi (\<lambda>q. q\<lparr>op_walking := True\<rparr>) (upd_rt oi g (snd (new_ref ?s1))))"
  have k4: "keeps ?s1 (?w g)" for g
    by (intro keeps_intros keeps_refl) (simp_all add: op_static_def)
  have "tinv K (?w g) u j q" for g by (rule tinv_same [OF 1 k4]) (simp add: patchOp_def new_ref_def)
  then have 4: "tinv K (?w g) (u\<lparr>u_walks := u_walks u @ [(oi, c)]\<rparr>) j q" for g c
    using upload_op_keeps [OF k4 u1, of g] by (auto simp: tinv_def job_inv_def)
  show ?thesis using p 2 3 4 by (simp add: upload_start_def Let_def split_beta split: option.split)
qed

lemma walk_end_tinv: "tinv K s u j q \<Longrightarrow> tinv K (fst (walk_end oi ctl (s, u))) (snd (walk_end oi ctl (s, u))) j q"
proof -
  assume t: "tinv K s u j q"
  have k: "keeps s (fst (walk_end oi ctl (s, u)))"
    unfolding walk_end_def fst_conv by (intro keeps_intros keeps_refl) (simp add: op_static_def)
  have i: "upload_inv (fst (walk_end oi ctl (s, u)), snd (walk_end oi ctl (s, u)))"
    using walk_end_inv [OF tinv_upload [OF t]] by simp
  show ?thesis using set_remove1_subset [of "(oi, ctl)" "u_walks u"]
    by (intro tinv_upload_step [OF t i k]) (simp add: walk_end_def)
qed

end
