(* ===== verification/TabSafety.thy ===== *)
theory TabSafety
  imports TabInv
begin

text \<open>
  Every action, timer and answer keeps the invariant of the tab, so it holds in every reachable
  state: the pool of uploads, the slots of the job queue and the loops of the request runner stay
  within their bounds whatever the person, the browser and Luna do, in any order.
\<close>

section \<open>Lifting to the tab\<close>

lemma on_tab_inv:
  "tab_inv K (on_s f t) \<longleftrightarrow> tinv K (f (tb_s t)) (tb_u t) (tb_j t) (tb_q t)"
  "tab_inv K (on_u g t) \<longleftrightarrow> tinv K (fst (g (tb_s t, tb_u t))) (snd (g (tb_s t, tb_u t))) (tb_j t) (tb_q t)"
  "tab_inv K (on_j h t) \<longleftrightarrow> tinv K (fst (h (tb_s t, tb_j t))) (tb_u t) (snd (h (tb_s t, tb_j t))) (tb_q t)"
  "tab_inv K (on_q k t) \<longleftrightarrow> tinv K (fst (k (tb_s t, tb_q t))) (tb_u t) (tb_j t) (snd (k (tb_s t, tb_q t)))"
  by (simp_all add: tab_inv_def on_s_def on_u_def on_j_def on_q_def Let_def)

lemma on_parts [simp]:
  "tb_s (on_s f t) = f (tb_s t)" "tb_u (on_s f t) = tb_u t" "tb_j (on_s f t) = tb_j t" "tb_q (on_s f t) = tb_q t"
  "tb_s (on_u g t) = fst (g (tb_s t, tb_u t))" "tb_u (on_u g t) = snd (g (tb_s t, tb_u t))"
  "tb_j (on_u g t) = tb_j t" "tb_q (on_u g t) = tb_q t"
  "tb_s (on_j h t) = fst (h (tb_s t, tb_j t))" "tb_u (on_j h t) = tb_u t"
  "tb_j (on_j h t) = snd (h (tb_s t, tb_j t))" "tb_q (on_j h t) = tb_q t"
  "tb_s (on_q k t) = fst (k (tb_s t, tb_q t))" "tb_u (on_q k t) = tb_u t"
  "tb_j (on_q k t) = tb_j t" "tb_q (on_q k t) = snd (k (tb_s t, tb_q t))"
  by (simp_all add: on_s_def on_u_def on_j_def on_q_def Let_def)

lemma on_s_same:
  assumes "tab_inv K t" "keeps (tb_s t) (f (tb_s t))" "st_item (f (tb_s t)) = st_item (tb_s t)"
  shows "tab_inv K (on_s f t)"
  using assms(1) unfolding tab_inv_def on_parts by (rule tinv_same) (use assms in simp_all)

lemma on_u_inv:
  assumes "tab_inv K t" "upload_inv (f (tb_s t, tb_u t))" "keeps (tb_s t) (fst (f (tb_s t, tb_u t)))"
    "u_walks (snd (f (tb_s t, tb_u t))) = u_walks (tb_u t)"
  shows "tab_inv K (on_u f t)"
  using assms(1) unfolding tab_inv_def on_parts
  by (rule tinv_upload_step) (use assms in simp_all)

lemma on_s_upload:
  assumes "tab_inv K t" "upload_inv (f (tb_s t), tb_u t)" "keeps (tb_s t) (f (tb_s t))"
  shows "tab_inv K (on_s f t)"
  using assms(1) unfolding tab_inv_def on_parts
  by (rule tinv_upload_step) (use assms in simp_all)

lemma on_j_inv:
  assumes "tab_inv K t" "job_inv K 0 (tb_u t) (f (tb_s t, tb_j t))" "keeps (tb_s t) (fst (f (tb_s t, tb_j t)))"
  shows "tab_inv K (on_j f t)"
  using assms(1) unfolding tab_inv_def on_parts
  by (rule tinv_job) (use assms in simp_all)

lemma on_s_job:
  assumes "tab_inv K t" "job_inv K 0 (tb_u t) (f (tb_s t), tb_j t)" "keeps (tb_s t) (f (tb_s t))"
  shows "tab_inv K (on_s f t)"
  using assms(1) unfolding tab_inv_def on_parts
  by (rule tinv_job) (use assms in simp_all)

lemma on_q_inv:
  assumes "tab_inv K t" "req_bal {#} (f (tb_s t, tb_q t)) \<and> job_inv K 0 (tb_u t) (fst (f (tb_s t, tb_q t)), tb_j t)
    \<and> keeps (tb_s t) (fst (f (tb_s t, tb_q t)))"
  shows "tab_inv K (on_q f t)"
  using assms(1) unfolding tab_inv_def on_parts
  by (rule tinv_request) (use assms in simp_all)

lemma tab_parts:
  assumes "tab_inv K t"
  shows "upload_inv (tb_s t, tb_u t)" "job_inv K 0 (tb_u t) (tb_s t, tb_j t)" "req_bal {#} (tb_s t, tb_q t)" "ops_ok (tb_s t)"
    "pool_ok (tb_s t, tb_u t)" "\<And>i. toks_but i (tb_s t, tb_u t)"
  using assms by (auto simp: tab_inv_def tinv_def job_inv_def upload_inv_def toks_ok_def toks_but_def)

lemma other_items_ok:
  assumes "tab_inv K t" "st_op (tb_s t) oi = Some p" "\<not> is_upload (op_kind p)"
  shows "op_items_ok (tb_s t) oi" "i \<in> set (op_items p) \<Longrightarrow> job_item (tb_s t) i"
  using tab_parts(4) [OF assms(1)] assms(2,3) by (auto simp: ops_ok_def op_items_ok_def)

lemma upload_item_idle:
  assumes "tab_inv K t" "st_op (tb_s t) oi = Some p" "is_upload (op_kind p)" "i \<in> set (op_items p)"
  shows "item_st (tb_s t) i = Some NeedsDecision \<Longrightarrow> is_file (tb_s t) i \<and> free_tok (tb_s t, tb_u t) i"
    and "item_st (tb_s t) i = Some Failed \<Longrightarrow> free_tok (tb_s t, tb_u t) i"
proof -
  have up: "up_item (tb_s t) i" using assms by (auto simp: up_item_def)
  have tok: "item_tok (tb_s t, tb_u t) i" by (rule inv_tok [OF tab_parts(1) [OF assms(1)]])
  show "item_st (tb_s t) i = Some NeedsDecision \<Longrightarrow> is_file (tb_s t) i \<and> free_tok (tb_s t, tb_u t) i"
    using tok up by (auto simp: item_tok_def item_st_def is_file_def free_tok_def split: if_splits)
  show "item_st (tb_s t) i = Some Failed \<Longrightarrow> free_tok (tb_s t, tb_u t) i"
    using tok up by (auto simp: item_tok_def item_st_def free_tok_def split: if_splits)
qed

section \<open>Answers, retries and cancelling\<close>

lemma runner_decide_inv:
  assumes "tab_inv K t" "st_op (tb_s t) oi = Some p" "i \<in> set (op_items p)" "item_st (tb_s t) i = Some NeedsDecision"
  shows "tab_inv K (runner_decide (op_kind p) oi i ch t)" "keeps (tb_s t) (tb_s (runner_decide (op_kind p) oi i ch t))"
proof -
  note k = keeps_apply_choice [of "(tb_s t, tb_u t)" oi i ch, simplified]
    keeps_job_decide [of "(tb_s t, tb_j t)" "(oi, i)" ch, simplified]
  show "tab_inv K (runner_decide (op_kind p) oi i ch t)" "keeps (tb_s t) (tb_s (runner_decide (op_kind p) oi i ch t))"
  proof -
    have u: "tab_inv K (on_u (upload_decide oi i ch) t)" if "is_upload (op_kind p)"
      using upload_item_idle(1) [OF assms(1,2) that assms(3,4)] tab_parts(5,6) [OF assms(1)] k(1)
      by (intro on_u_inv [OF assms(1)]) (auto simp: upload_decide_def intro: apply_choice_inv)
    have j: "tab_inv K (on_j (job_decide (oi, i) ch) t)" if "\<not> is_upload (op_kind p)"
      using other_items_ok(2) [OF assms(1,2) that assms(3)] k(2) tab_parts(2) [OF assms(1)]
      by (intro on_j_inv [OF assms(1)] job_decide_inv) simp_all
    have q: "tab_inv K (on_q (request_decide oi i ch) t)" "keeps (tb_s t) (fst (request_decide oi i ch (tb_s t, tb_q t)))"
      if "\<not> is_upload (op_kind p)"
      using request_decide_inv [OF tab_parts(3) [OF assms(1)] other_items_ok(1) [OF assms(1,2) that]
          tab_parts(2) [OF assms(1)] other_items_ok(2) [OF assms(1,2) that assms(3)], of ch]
      by (auto intro: on_q_inv [OF assms(1)])
    show "tab_inv K (runner_decide (op_kind p) oi i ch t)" using u j q(1) by (auto simp: runner_decide_def)
    show "keeps (tb_s t) (tb_s (runner_decide (op_kind p) oi i ch t))"
      using k q(2) by (auto simp: runner_decide_def upload_decide_def)
  qed
qed

lemma runner_retry_inv:
  assumes "tab_inv K t" "st_op (tb_s t) oi = Some p"
    and "\<And>i. i \<in> set targets \<Longrightarrow> i \<in> set (op_items p) \<and> item_st (tb_s t) i = Some Failed" "distinct targets"
  shows "tab_inv K (runner_retry (op_kind p) oi targets t)" "keeps (tb_s t) (tb_s (runner_retry (op_kind p) oi targets t))"
proof -
  note k = keeps_upload_retry [of "(tb_s t, tb_u t)" oi targets, simplified]
    keeps_job_retry [of "(tb_s t, tb_j t)" oi targets, simplified]
  have u: "tab_inv K (on_u (upload_retry oi targets) t)" if "is_upload (op_kind p)"
    using upload_item_idle(2) [OF assms(1,2) that] assms(3,4) tab_parts(1) [OF assms(1)] k(1)
    by (intro on_u_inv [OF assms(1)] upload_retry_inv) auto
  have j: "tab_inv K (on_j (job_retry oi targets) t)" if "\<not> is_upload (op_kind p)"
    using other_items_ok(2) [OF assms(1,2) that] assms(3) k(2) tab_parts(2) [OF assms(1)]
    by (intro on_j_inv [OF assms(1)] job_retry_inv) auto
  have q: "tab_inv K (on_q (request_retry oi targets) t)" "keeps (tb_s t) (fst (request_retry oi targets (tb_s t, tb_q t)))"
    if "\<not> is_upload (op_kind p)"
    using request_retry_inv [OF tab_parts(3) [OF assms(1)] other_items_ok(1) [OF assms(1,2) that]
        tab_parts(2) [OF assms(1)], of targets] other_items_ok(2) [OF assms(1,2) that] assms(3)
    by (auto intro: on_q_inv [OF assms(1)])
  show "tab_inv K (runner_retry (op_kind p) oi targets t)" using u j q(1) by (auto simp: runner_retry_def)
  show "keeps (tb_s t) (tb_s (runner_retry (op_kind p) oi targets t))" using k q(2) by (auto simp: runner_retry_def)
qed

lemma runner_cancel_inv:
  assumes "tab_inv K t" "st_op (tb_s t) oi = Some p"
  shows "tab_inv K (runner_cancel (op_kind p) oi t)" "keeps (tb_s t) (tb_s (runner_cancel (op_kind p) oi t))"
proof -
  have u: "tab_inv K (on_s (upload_cancel oi) t)"
    by (intro on_s_upload [OF assms(1)] upload_cancel_inv tab_parts(1) [OF assms(1)] keeps_upload_cancel)
  have j: "tab_inv K (on_s (job_cancel oi) t)" if "\<not> is_upload (op_kind p)"
    using other_items_ok(2) [OF assms that] assms(2) tab_parts(2) [OF assms(1)]
    by (intro on_s_job [OF assms(1)] job_cancel_inv keeps_job_cancel) auto
  have q: "tab_inv K (on_q (request_cancel oi) t)" "keeps (tb_s t) (fst (request_cancel oi (tb_s t, tb_q t)))"
    if "\<not> is_upload (op_kind p)"
  proof -
    note c = request_cancel_inv [OF other_items_ok(1) [OF assms that] tab_parts(2) [OF assms(1)], of "tb_q t"]
    have "request_cancel oi (tb_s t, tb_q t) = (fst (request_cancel oi (tb_s t, tb_q t)), tb_q t)"
      using c(3) by (simp add: prod_eq_iff)
    then have "req_bal {#} (request_cancel oi (tb_s t, tb_q t))"
      using req_bal_keeps [OF tab_parts(3) [OF assms(1)] c(2)] by simp
    then show "tab_inv K (on_q (request_cancel oi) t)" using c by (intro on_q_inv [OF assms(1)]) simp
    show "keeps (tb_s t) (fst (request_cancel oi (tb_s t, tb_q t)))" by (rule c(2))
  qed
  show "tab_inv K (runner_cancel (op_kind p) oi t)" using u j q(1) by (auto simp: runner_cancel_def)
  show "keeps (tb_s t) (tb_s (runner_cancel (op_kind p) oi t))"
    using keeps_upload_cancel keeps_job_cancel q(2) by (auto simp: runner_cancel_def)
qed

lemma runner_cancel_item_inv:
  assumes "tab_inv K t" "st_op (tb_s t) oi = Some p" "i \<in> set (op_items p)"
  shows "tab_inv K (runner_cancel_item (op_kind p) oi i t)"
proof -
  have u: "tab_inv K (on_s (stop_item oi i) t)"
    by (intro on_s_upload [OF assms(1)] stop_item_inv tab_parts(1) [OF assms(1)] keeps_stop_item)
  have j: "tab_inv K (on_s (cancelItem oi i) t)" "tab_inv K (on_s (request_cancel_item oi i) t)" if "\<not> is_upload (op_kind p)"
  proof -
    note ji = other_items_ok(2) [OF assms(1,2) that assms(3)] and jj = tab_parts(2) [OF assms(1)]
    show "tab_inv K (on_s (cancelItem oi i) t)" by (intro on_s_job [OF assms(1)] cancelItem_inv jj ji keeps_cancelItem)
    show "tab_inv K (on_s (request_cancel_item oi i) t)" by (intro on_s_job [OF assms(1)] request_cancel_item_inv [OF jj ji])
  qed
  show ?thesis using u j by (auto simp: runner_cancel_item_def)
qed

lemma with_op_inv:
  assumes "tab_inv K t" "\<And>oi p. st_op (tb_s t) oi = Some p \<Longrightarrow> tab_inv K (f oi p t)"
  shows "tab_inv K (with_op opId f t)"
  using assms by (simp add: with_op_def split: option.split)

lemma find_item_mem:
  assumes "find_item oi itemId s = Some i" "st_op s oi = Some p"
  shows "i \<in> set (op_items p)"
  using assms by (auto simp: find_item_def find_Some_iff)

lemma decide_inv: "tab_inv K t \<Longrightarrow> tab_inv K (decide opId itemId ch t)"
  unfolding decide_def
  by (rule with_op_inv) (auto split: option.split intro: runner_decide_inv(1) dest: find_item_mem)

lemma decide_one_inv:
  assumes "tab_inv K t" "st_op (tb_s t) oi = Some p" "i \<in> set (op_items p)"
  shows "tab_inv K (decide_one (op_kind p) oi ch i t)" "keeps (tb_s t) (tb_s (decide_one (op_kind p) oi ch i t))"
  using runner_decide_inv [OF assms] assms(1)
  by (auto simp: decide_one_def item_st_def split: option.split)

text \<open>A loop over the items of an operation, each pass of which keeps the identity of every object.\<close>

lemma fold_items_inv:
  assumes "tab_inv K t" "st_op (tb_s t) oi = Some p" "set is \<subseteq> set (op_items p)"
    and "\<And>i t q. tab_inv K t \<Longrightarrow> st_op (tb_s t) oi = Some q \<Longrightarrow> op_kind q = op_kind p \<Longrightarrow> i \<in> set (op_items q)
      \<Longrightarrow> tab_inv K (f i t) \<and> keeps (tb_s t) (tb_s (f i t))"
  shows "tab_inv K (fold f is t) \<and> keeps (tb_s t) (tb_s (fold f is t))"
proof -
  have "tab_inv K (fold f is t') \<and> keeps (tb_s t') (tb_s (fold f is t'))"
    if "tab_inv K t'" "keeps (tb_s t) (tb_s t')" for t'
    using that assms(3)
  proof (induction "is" arbitrary: t')
    case (Cons i js)
    obtain q where q: "st_op (tb_s t') oi = Some q" "op_static q = op_static p"
      using keeps_op_Some [OF Cons.prems(2) assms(2)] by blast
    then have st: "tab_inv K (f i t') \<and> keeps (tb_s t') (tb_s (f i t'))"
      using Cons.prems by (intro assms(4) [OF Cons.prems(1) q(1)]) (auto simp: op_static_def)
    then have "tab_inv K (fold f js (f i t')) \<and> keeps (tb_s (f i t')) (tb_s (fold f js (f i t')))"
      using Cons keeps_trans [OF Cons.prems(2)] by (intro Cons.IH) auto
    then show ?case using st keeps_trans by (auto intro: keeps_trans)
  qed simp
  then show ?thesis using assms(1) by blast
qed

lemma decideAll_inv: "tab_inv K t \<Longrightarrow> tab_inv K (decideAll opId ch t)"
  unfolding decideAll_def
proof (rule with_op_inv)
  fix oi p assume t: "tab_inv K t" and p: "st_op (tb_s t) oi = Some p"
  let ?t = "on_s (patchOp oi (\<lambda>q. q\<lparr>op_policy := Some ch\<rparr>)) t"
  have k: "keeps (tb_s t) (tb_s ?t)" by (simp, intro keeps_intros keeps_refl) (simp add: op_static_def)
  have t1: "tab_inv K ?t" by (rule on_s_same [OF t]) (use k in \<open>simp_all add: patchOp_def\<close>)
  obtain q where q: "st_op (tb_s ?t) oi = Some q" "op_static q = op_static p"
    using keeps_op_Some [OF k p] by blast
  have "tab_inv K (decide_one (op_kind p) oi ch i u) \<and> keeps (tb_s u) (tb_s (decide_one (op_kind p) oi ch i u))"
    if "tab_inv K u" "st_op (tb_s u) oi = Some r" "op_kind r = op_kind q" "i \<in> set (op_items r)" for i u r
    using decide_one_inv [OF that(1,2,4)] that(3) q(2) by (simp add: op_static_def)
  then show "tab_inv K (fold (decide_one (op_kind p) oi ch) (op_items p) ?t)"
    using fold_items_inv [OF t1 q(1)] q(2) by (simp add: op_static_def)
qed

lemma targets_ok:
  "i \<in> set (retry_targets f p s) \<Longrightarrow> i \<in> set (op_items p) \<and> item_st s i = Some Failed"
  by (auto simp: retry_targets_def item_st_def split: option.splits)

lemma retry_targets_inv:
  assumes "tab_inv K t" "st_op (tb_s t) oi = Some p"
  shows "tab_inv K (runner_retry (op_kind p) oi (retry_targets f p (tb_s t)) t)"
proof (rule runner_retry_inv(1) [OF assms targets_ok])
  have "distinct (op_items p)" using tab_parts(4) [OF assms(1)] assms(2) by (simp add: ops_ok_def)
  then show "distinct (retry_targets f p (tb_s t))" by (simp add: retry_targets_def)
qed

lemma retry_inv: "tab_inv K t \<Longrightarrow> tab_inv K (retry opId itemId t)"
  unfolding retry_def Let_def by (rule with_op_inv) (auto intro: retry_targets_inv)

lemma retryOffline_inv:
  assumes "tab_inv K t"
  shows "tab_inv K (retryOffline t)"
proof -
  have "tab_inv K (fold (\<lambda>oi t. case st_op (tb_s t) oi of None \<Rightarrow> t
         | Some p \<Rightarrow> let targets = retry_targets it_offline p (tb_s t)
                     in if targets = [] then t else runner_retry (op_kind p) oi targets t) ois t')"
    if "tab_inv K t'" for ois t'
    using that by (induction ois arbitrary: t') (auto simp: Let_def retry_targets_inv split: option.split)
  then show ?thesis using assms unfolding retryOffline_def .
qed

lemma on_s_settle: "tab_inv K t \<Longrightarrow> tab_inv K (on_s (settle oi) t)"
  unfolding tab_inv_def on_parts by (rule tinv_settle)

lemma flag_cancelled_inv:
  assumes "tab_inv K t" "st_op (tb_s t) oi = Some p"
  shows "tab_inv K (runner_cancel (op_kind p) oi (on_s (upd_op oi (\<lambda>q. q\<lparr>op_cancelled := True\<rparr>)) t))"
proof -
  let ?t = "on_s (upd_op oi (\<lambda>q. q\<lparr>op_cancelled := True\<rparr>)) t"
  have "tab_inv K ?t"
    by (rule on_s_same [OF assms(1)]) (simp_all add: keeps_upd_op op_static_def)
  moreover have "st_op (tb_s ?t) oi = Some (p\<lparr>op_cancelled := True\<rparr>)" using assms(2) by (simp add: upd_op_def)
  ultimately show ?thesis using runner_cancel_inv(1) by fastforce
qed

lemma cancel_all_inv:
  assumes "tab_inv K t" "st_op (tb_s t) oi = Some p"
  shows "tab_inv K (cancel_all oi p t)"
  unfolding cancel_all_def by (rule on_s_settle [OF flag_cancelled_inv [OF assms]])

lemma cancel_inv: "tab_inv K t \<Longrightarrow> tab_inv K (cancel opId itemId t)"
  unfolding cancel_def
proof (rule with_op_inv)
  fix oi p assume t: "tab_inv K t" and p: "st_op (tb_s t) oi = Some p"
  have i: "tab_inv K (on_s (settle oi) (runner_cancel_item (op_kind p) oi i t))"
    "tab_inv K (on_s (settle oi) (on_s (removeItem oi i) (runner_cancel_item (op_kind p) oi i t)))"
    if "find_item oi ident (tb_s t) = Some i" for i ident
  proof -
    note c = runner_cancel_item_inv [OF t p find_item_mem [OF that p]]
    show "tab_inv K (on_s (settle oi) (runner_cancel_item (op_kind p) oi i t))" by (rule on_s_settle [OF c])
    have "tab_inv K (on_s (removeItem oi i) (runner_cancel_item (op_kind p) oi i t))"
      using c unfolding tab_inv_def on_parts by (rule removeItem_tinv)
    then show "tab_inv K (on_s (settle oi) (on_s (removeItem oi i) (runner_cancel_item (op_kind p) oi i t)))"
      by (rule on_s_settle)
  qed
  show "tab_inv K (case itemId of None \<Rightarrow> cancel_all oi p t
       | Some ident \<Rightarrow>
           if ident = [] then cancel_all oi p t
           else (case find_item oi ident (tb_s t) of None \<Rightarrow> t
              | Some i \<Rightarrow>
                  if item_st (tb_s t) i = Some Failed \<or> item_st (tb_s t) i = Some NeedsDecision
                  then on_s (settle oi) (on_s (removeItem oi i) (runner_cancel_item (op_kind p) oi i t))
                  else on_s (settle oi) (runner_cancel_item (op_kind p) oi i t)))"
    using i t cancel_all_inv [OF t p] by (simp split: option.split)
qed

section \<open>Removing, timers and the end of the store\<close>

lemma clearFailed_inv: "tab_inv K t \<Longrightarrow> tab_inv K (clearFailed opId t)"
  unfolding clearFailed_def
proof (rule with_op_inv)
  fix oi p assume t: "tab_inv K t"
  let ?s = "tb_s t"
  let ?s1 = "upd_op oi (\<lambda>q. q\<lparr>op_items := filter (\<lambda>i. item_st ?s i \<noteq> Some Failed) (op_items q), op_error := None\<rparr>) ?s"
  have "shrinks ?s ?s1"
    by (auto simp: shrinks_def op_shrinks_def upd_op_def option.rel_map intro!: option.rel_refl)
  then have 1: "tinv K ?s1 (tb_u t) (tb_j t) (tb_q t)" using t unfolding tab_inv_def by (rule tinv_shrinks [rotated])
  have k: "keeps ?s1 (settle oi (touch oi None ?s1))" by (intro keeps_intros keeps_refl)
  show "tab_inv K (on_s (\<lambda>s. settle oi (touch oi None (upd_op oi (\<lambda>q. q\<lparr>
         op_items := filter (\<lambda>i. item_st s i \<noteq> Some Failed) (op_items q), op_error := None\<rparr>) s))) t)"
    unfolding tab_inv_def on_parts by (rule tinv_same [OF 1 k]) simp
qed

lemma forget_tab_inv: "tab_inv K t \<Longrightarrow> tab_inv K (on_j (forget oi) t)"
  by (rule on_j_inv) (simp_all add: forget_inv tab_parts(2))

lemma removeOp_tab_inv: "tab_inv K t \<Longrightarrow> tab_inv K (on_s (removeOp oi) t)"
  unfolding tab_inv_def on_parts by (rule removeOp_tinv)

lemma dismiss_inv: "tab_inv K t \<Longrightarrow> tab_inv K (dismiss opId t)"
  unfolding dismiss_def Let_def
  by (rule with_op_inv) (auto intro!: removeOp_tab_inv forget_tab_inv flag_cancelled_inv)

lemma tinv_quiet:
  assumes "tinv K s u j q" "st_item t = st_item s" "st_op t = st_op s" "st_ops t = st_ops s" "st_next t = st_next s"
  shows "tinv K t u j q"
  by (rule tinv_shrinks [OF assms(1)]) (auto simp: shrinks_def op_shrinks_def assms intro!: option.rel_refl)

lemma clear_op_timers_keeps:
  "keeps s (clear_op_timers oi s)" "st_item (clear_op_timers oi s) = st_item s"
  unfolding clear_op_timers_def Let_def by (intro keeps_intros keeps_refl) simp

lemma destroy_inv: "tab_inv K t \<Longrightarrow> tab_inv K (destroy t)"
proof -
  assume t: "tab_inv K t"
  let ?t1 = "on_j job_stop (on_s (\<lambda>s. s\<lparr>st_destroyed := True\<rparr>) t)"
  have "tab_inv K (on_s (\<lambda>s. s\<lparr>st_destroyed := True\<rparr>) t)"
    using t unfolding tab_inv_def on_parts by (rule tinv_quiet) simp_all
  then have 1: "tab_inv K ?t1"
    by (intro on_j_inv job_stop_inv keeps_job_stop [of "(_, _)", unfolded fst_conv] tab_parts(2))
  have f: "keeps s (fold clear_op_timers ois s) \<and> st_item (fold clear_op_timers ois s) = st_item s" for ois s
    by (induction ois arbitrary: s) (auto intro: keeps_trans clear_op_timers_keeps simp: clear_op_timers_keeps)
  have "keeps s (fold clear_op_timers (st_ops s) (clear_opt k s))" for k s
    using f keeps_trans by (meson keeps_intros keeps_refl)
  then show ?thesis
    unfolding destroy_def Let_def by (rule on_s_same [OF 1]) (simp add: f)
qed

lemma flush_keeps [simp]: "keeps s (flush s)" "st_item (flush s) = st_item s"
  by (rule keepsI [OF flush_same]) (simp_all add: same_objs_fields [OF flush_same])

lemma show_op_keeps: "keeps s (show_op oi s)" "st_item (show_op oi s) = st_item s"
proof -
  have "keeps s (emit True (touch oi None (upd_op oi (\<lambda>q. q\<lparr>op_shown := True\<rparr>) (upd_rt oi h s))))" for h
    by (intro keeps_intros keeps_refl) (simp add: op_static_def)
  then show "keeps s (show_op oi s)" by (auto simp: show_op_def Let_def intro!: keeps_intros split: option.split)
  show "st_item (show_op oi s) = st_item s" by (simp add: show_op_def Let_def split: option.split)
qed

lemma upd_rt_tab_inv: "tab_inv K t \<Longrightarrow> tab_inv K (on_s (upd_rt oi h) t)"
  unfolding tab_inv_def on_parts by (rule upd_rt_tinv)

lemma clear_op_inv: "tab_inv K t \<Longrightarrow> tab_inv K (clear_op oi t)"
  by (auto simp: clear_op_def Let_def intro!: removeOp_tab_inv forget_tab_inv upd_rt_tab_inv split: option.split)

lemma fire_inv: "tab_inv K t \<Longrightarrow> tab_inv K (fire a t)"
proof (induction a t rule: fire.induct)
  case (1 t)
  have "tab_inv K (on_s (\<lambda>s. s\<lparr>st_trailing := None\<rparr>) t)"
    using 1 unfolding tab_inv_def on_parts by (rule tinv_quiet) simp_all
  then have "tab_inv K (on_s flush (on_s (\<lambda>s. s\<lparr>st_trailing := None\<rparr>) t))"
    by (rule on_s_same) (simp_all only: on_parts flush_keeps)
  then show ?case by (simp add: on_s_def)
next
  case (2 oi t)
  then show ?case by (simp add: on_s_same show_op_keeps)
next
  case (3 oi t)
  have "keeps s (flushFolders oi (upd_rt oi h s))" for h s
    by (intro keeps_intros keeps_refl)
  then show ?case using 3 by (simp add: on_s_same)
next
  case (5 t)
  then show ?case using keeps_poll_fired [of "(tb_s t, tb_j t)"]
    by (auto intro!: on_j_inv poll_fired_inv tab_parts(2))
next
  case (6 t)
  then show ?case using keeps_retry_fired [of "(tb_s t, tb_j t)"]
    by (auto intro!: on_j_inv retry_fired_inv tab_parts(2))
qed (simp add: clear_op_inv)

section \<open>Starting operations\<close>

lemma split_let: "(let (a, b) = x in f a b) = f (fst x) (snd x)"
  by (simp add: split_beta)

text \<open>A new operation with the items pushed on it, not yet listed.\<close>

lemma push_items_tinv:
  assumes "tinv K s u j q" "st_op s oi = Some p" "\<not> is_upload (op_kind p)"
    and "\<And>x k. it_file (mk x k) = None"
    and "\<And>x k. it_state (mk x k) \<noteq> Uploading \<and> it_state (mk x k) \<noteq> Finishing \<and> it_state (mk x k) \<noteq> NeedsDecision"
  shows "tinv K (fold (\<lambda>x. push_item oi (mk x)) xs s) u j q
    \<and> (\<exists>p'. st_op (fold (\<lambda>x. push_item oi (mk x)) xs s) oi = Some p' \<and> op_kind p' = op_kind p)"
  using assms(1-3)
proof (induction xs arbitrary: s p)
  case (Cons x xs)
  note pi = push_item_tinv [OF Cons.prems, of "mk x", OF assms(4,5)]
  then show ?case using Cons.IH [of "push_item oi (mk x) s" "p\<lparr>op_items := op_items p @ [st_next s]\<rparr>"] Cons.prems(3) by simp
qed simp

lemma new_op_tinv:
  assumes "tinv K s u j q" "op_items p = []"
  shows "tinv K (snd (alloc_op p (snd (newId pre s)))) u j q"
    "st_op (snd (alloc_op p (snd (newId pre s)))) (fst (alloc_op p (snd (newId pre s)))) = Some p"
  by (rule alloc_op_tinv [OF newId_tinv [OF assms(1)] assms(2)])+

lemma startUpload_inv:
  assumes "tab_inv K t" "is_upload (ua_kind a)"
  shows "tab_inv K (startUpload ls a t)"
proof -
  let ?s1 = "snd (newId (lit ''op'') (tb_s t))"
  let ?p = "(makeOp (fst (newId (lit ''op'') (tb_s t))) (st_now ?s1) (ua_source a) (ua_kind a) (ua_drive a))\<lparr>op_destFolder := ua_folder a,
                 op_destLabel := label_or (ua_label a) (ua_folder a)\<rparr>"
  let ?oi = "fst (alloc_op ?p ?s1)" and ?s2 = "snd (alloc_op ?p ?s1)"
  let ?s3 = "upd_rt ?oi (\<lambda>r. r\<lparr>r_invalidateKeys := ua_keys a, r_afterFinish := ua_after a\<rparr>) (addOp ?oi ?s2)"
  have t: "tinv K (tb_s t) (tb_u t) (tb_j t) (tb_q t)" using assms(1) by (simp add: tab_inv_def)
  note n = new_op_tinv [OF t, of ?p "lit ''op''"]
  have e: "op_items ?p = []" by (simp add: makeOp_def)
  note ad = addOp_tinv [OF n(1) n(2), OF e e]
  have "tinv K ?s3 (tb_u t) (tb_j t) (tb_q t)" by (rule upd_rt_tinv [OF ad(1)])
  moreover have "upload_op ?s3 ?oi"
    using ad(2) assms(2) by (auto simp: upload_op_def op_static_def upd_rt_def makeOp_def)
  ultimately show ?thesis
    unfolding startUpload_def split_let Let_def tab_inv_def by (simp add: split_beta upload_start_tinv)
qed

text \<open>A new operation that is not an upload, with its items, listed.\<close>

lemma listed_op_tinv:
  assumes "tinv K s u j q" "op_items p = []" "\<not> is_upload (op_kind p)"
    and "\<And>x k. it_file (mk x k) = None"
    and "\<And>x k. it_state (mk x k) \<noteq> Uploading \<and> it_state (mk x k) \<noteq> Finishing \<and> it_state (mk x k) \<noteq> NeedsDecision"
    and "s3 = fold (\<lambda>x. push_item oi (mk x)) xs (snd (alloc_op p (snd (newId pre s))))"
    and "oi = fst (alloc_op p (snd (newId pre s)))" "s4 = s3 \<or> s4 = upd_rt oi h s3"
  shows "tinv K (addOp oi s4) u j q" "op_items_ok (addOp oi s4) oi"
proof -
  obtain p' where p': "tinv K s3 u j q" "st_op s3 oi = Some p'" "op_kind p' = op_kind p"
    using push_items_tinv [OF new_op_tinv [where pre = pre, OF assms(1,2)] assms(3), of mk, OF assms(4,5), where xs = xs] assms(6,7) by auto
  then have 4: "tinv K s4 u j q" "st_op s4 oi = Some p'" using assms(8) upd_rt_tinv by (auto simp: upd_rt_def)
  note ad = addOp_tinv [OF this]
  show "tinv K (addOp oi s4) u j q" by (rule ad(1))
  then show "op_items_ok (addOp oi s4) oi"
    using ad(2) p'(3) assms(3) by (auto simp: tinv_def ops_ok_def op_static_def)
qed

lemma startJobs_inv:
  assumes "tab_inv K t" "is_job (ja_kind a)"
  shows "tab_inv K (startJobs a t)"
proof -
  have t: "tinv K (tb_s t) (tb_u t) (tb_j t) (tb_q t)" using assms(1) by (simp add: tab_inv_def)
  have "\<not> is_upload (ja_kind a)" using assms(2) by (cases "ja_kind a") (simp_all add: is_upload_def is_job_def)
  note nu = this
  have l: "tinv K (addOp oi s3) (tb_u t) (tb_j t) (tb_q t)" "op_items_ok (addOp oi s3) oi"
    if "s3 = fold (\<lambda>x. push_item oi (\<lambda>ident. (makeItem ident (path_name x))\<lparr>it_relPath := fst x, it_destPath := ja_path a\<rparr>))
          (ja_items a) (snd (alloc_op p (snd (newId (lit ''op'') (tb_s t)))))"
      "oi = fst (alloc_op p (snd (newId (lit ''op'') (tb_s t))))" "op_items p = []" "op_kind p = ja_kind a" for s3 oi p
    by (rule listed_op_tinv [OF t that(3) _ _ _ that(1,2) disjI1 [OF refl]], simp_all add: makeItem_def that(4) nu)+
  have st: "tab_inv K (on_j (job_start oi) (t\<lparr>tb_s := s\<rparr>))"
    if "tinv K s (tb_u t) (tb_j t) (tb_q t)" "op_items_ok s oi" for s oi
    using that keeps_job_start [of "(s, tb_j t)" oi]
    by (intro on_j_inv job_start_inv) (auto simp: tab_inv_def tinv_def op_items_ok_def)
  show ?thesis
    unfolding startJobs_def split_let Let_def split_beta
    by (rule st; rule l [OF refl refl]; simp add: makeOp_def)
qed

lemma startRequest_inv:
  assumes "tab_inv K t" "\<not> is_upload (ra_kind a)"
  shows "tab_inv K (startRequest a t)"
proof -
  have t: "tinv K (tb_s t) (tb_u t) (tb_j t) (tb_q t)" using assms(1) by (simp add: tab_inv_def)
  have l: "tinv K (addOp oi (upd_rt oi h s3)) (tb_u t) (tb_j t) (tb_q t)" "op_items_ok (addOp oi (upd_rt oi h s3)) oi"
    if "s3 = fold (\<lambda>x. push_item oi (\<lambda>ident. (makeItem ident (fst x))\<lparr>it_run := snd x\<rparr>))
          (request_list a) (snd (alloc_op p (snd (newId (lit ''op'') (tb_s t)))))"
      "oi = fst (alloc_op p (snd (newId (lit ''op'') (tb_s t))))" "op_items p = []" "op_kind p = ra_kind a" for s3 oi p h
    by (rule listed_op_tinv [OF t that(3) _ _ _ that(1,2) disjI2 [OF refl]], simp_all add: makeItem_def that(4) assms(2))+
  have st: "tab_inv K (on_q (request_start oi) (t\<lparr>tb_s := s\<rparr>))"
    if "tinv K s (tb_u t) (tb_j t) (tb_q t)" "op_items_ok s oi" for s oi
    using that drive_inv [of s "tb_q t" oi K 0 "tb_u t" "tb_j t"]
    by (intro on_q_inv) (simp_all add: tab_inv_def tinv_def request_start_def)
  show ?thesis
    unfolding startRequest_def split_let Let_def split_beta
    by (rule st; rule l [OF refl refl]; simp add: makeOp_def)
qed

section \<open>Picking stored jobs back up\<close>

text \<open>One stored job: its row on the restored operation, and its slot.\<close>

lemma restore_item_tinv:
  assumes "tinv K s u j q" "st_op s oi = Some p" "\<not> is_upload (op_kind p)" "slotsUsed j < max JOB_PARALLEL K"
  shows "tinv K (fst (restore_item oi x (s, j))) u (snd (restore_item oi x (s, j))) q
    \<and> slotsUsed (snd (restore_item oi x (s, j))) \<le> Suc (slotsUsed j)
    \<and> (\<exists>p'. st_op (fst (restore_item oi x (s, j))) oi = Some p' \<and> op_kind p' = op_kind p)"
proof -
  let ?it = "(makeItem (sj_itemId x) (sj_name x))\<lparr>it_relPath := sj_path x, it_destPath := sj_toPath x,
                 it_state := Running, it_jobId := Some (sj_jobId x)\<rparr>"
  let ?t = "push_item oi (\<lambda>_. ?it) s"
  let ?j = "j\<lparr>j_accepted := map_set (sj_jobId x) (oi, st_next s) (j_accepted j)\<rparr>"
  have eq: "restore_item oi x (s, j) = (?t, ?j)"
    by (simp add: restore_item_def push_item_def Let_def split_beta alloc_item_def new_ref_def newId_keeps)
  have pi: "tinv K ?t u j q" "st_op ?t oi = Some (p\<lparr>op_items := op_items p @ [st_next s]\<rparr>)" "job_item ?t (st_next s)"
    using push_item_tinv [OF assms(1-3), of "\<lambda>_. ?it"] by (simp_all add: makeItem_def)
  have len: "length (map_set (sj_jobId x) (oi, st_next s) (j_accepted j)) \<le> Suc (length (j_accepted j))"
    by (rule length_map_set(2))
  have ji: "job_inv K 0 u (?t, j)" using pi(1) by (simp add: tinv_def)
  have "job_holds ?j \<subseteq> job_holds j \<union> {st_next s}"
    using set_map_set [of "sj_jobId x" "(oi, st_next s)" "j_accepted j"] by (auto simp: job_holds_def)
  then have "job_inv K 0 u (?t, ?j)"
    by (rule job_inv_holds [OF ji])
      (use pi(3) ji len assms(4) in \<open>auto simp: job_inv_def slotsUsed_def\<close>)
  then have "tinv K ?t u ?j q" using pi(1) by (simp add: tinv_def)
  then show ?thesis using pi(2) len by (simp add: eq slotsUsed_def)
qed

lemma restore_items_tinv:
  assumes "tinv K s u j q" "st_op s oi = Some p" "\<not> is_upload (op_kind p)" "slotsUsed j + length xs \<le> max JOB_PARALLEL K"
  shows "tinv K (fst (fold (restore_item oi) xs (s, j))) u (snd (fold (restore_item oi) xs (s, j))) q
    \<and> slotsUsed (snd (fold (restore_item oi) xs (s, j))) \<le> slotsUsed j + length xs
    \<and> (\<exists>p'. st_op (fst (fold (restore_item oi) xs (s, j))) oi = Some p')"
  using assms
proof (induction xs arbitrary: s j p)
  case (Cons x xs)
  obtain s' j' where r: "restore_item oi x (s, j) = (s', j')" by (cases "restore_item oi x (s, j)")
  obtain p' where "tinv K s' u j' q" "slotsUsed j' \<le> Suc (slotsUsed j)" "st_op s' oi = Some p'" "op_kind p' = op_kind p"
    using restore_item_tinv [OF Cons.prems(1-3), of x] Cons.prems(4) r by auto
  then show ?case using Cons.IH [of s' j' p'] Cons.prems(3,4) r by auto
qed simp

lemma restore_group_tinv:
  assumes "tinv K s u j q" "list_all (\<lambda>x. is_job (sj_kind x)) xs" "slotsUsed j + length xs \<le> max JOB_PARALLEL K"
  shows "tinv K (fst (restore_group src xs (s, j))) u (snd (restore_group src xs (s, j))) q
    \<and> slotsUsed (snd (restore_group src xs (s, j))) \<le> slotsUsed j + length xs"
proof (cases xs)
  case (Cons first rest)
  let ?s0 = "snd (newId (lit ''op'') s)"
  let ?p = "(makeOp (sj_opId first) (if sj_createdAt first \<noteq> 0 then sj_createdAt first else st_now ?s0) src
                      (sj_kind first) (sj_fromDrive first))\<lparr>op_destDriveId := sj_toDrive first,
                      op_destFolder := sj_toPath first, op_destLabel := sj_toLabel first,
                      op_title := (if sj_title first \<noteq> [] then sj_title first
                                   else if length xs = 1 then sj_name first else []),
                      op_state := OpRunning, op_shown := True\<rparr>"
  let ?oi = "fst (alloc_op ?p ?s0)"
  let ?sj = "fold (restore_item ?oi) xs (snd (alloc_op ?p ?s0), j)"
  have e: "op_items ?p = []" by (simp add: makeOp_def)
  have nu: "\<not> is_upload (op_kind ?p)"
    using assms(2) Cons by (cases "sj_kind first") (simp_all add: makeOp_def is_upload_def is_job_def)
  have r: "tinv K (fst ?sj) u (snd ?sj) q" "slotsUsed (snd ?sj) \<le> slotsUsed j + length xs" "\<exists>p'. st_op (fst ?sj) ?oi = Some p'"
    using restore_items_tinv [OF new_op_tinv [OF assms(1) e] nu assms(3), of "lit ''op''"] by blast+
  then have "tinv K (addOp ?oi (fst ?sj)) u (snd ?sj) q" using addOp_tinv(1) by blast
  moreover have "restore_group src xs (s, j) = (addOp ?oi (fst ?sj), snd ?sj)"
    unfolding restore_group_def Let_def by (subst Cons) (simp add: split_beta Cons)
  ultimately show ?thesis using r(2) by simp
qed (use assms in \<open>simp add: restore_group_def\<close>)

lemma groups_length: "sum_list (map length (job_groups js)) = length js"
proof -
  have "sum_list (map length (map (\<lambda>k. filter (\<lambda>x. sj_opId x = k) js) ks)) = length (filter (\<lambda>x. sj_opId x \<in> set ks) js)"
    if "distinct ks" for ks
    using that
  proof (induction ks)
    case (Cons k ks)
    have "length (filter (\<lambda>x. sj_opId x = k \<or> sj_opId x \<in> set ks) js)
        = length (filter (\<lambda>x. sj_opId x = k) js) + length (filter (\<lambda>x. sj_opId x \<in> set ks) js)"
      using Cons.prems by (induction js) auto
    then show ?case using Cons by simp
  qed simp
  from this [of "first_uniq (map sj_opId js)"] show ?thesis by (simp add: job_groups_def first_uniq_def)
qed

lemma restore_groups_tinv:
  assumes "tinv K s u j q" "\<And>g. g \<in> set gs \<Longrightarrow> list_all (\<lambda>x. is_job (sj_kind x)) g"
    "slotsUsed j + sum_list (map length gs) \<le> max JOB_PARALLEL K"
  shows "tinv K (fst (fold (restore_group src) gs (s, j))) u (snd (fold (restore_group src) gs (s, j))) q"
  using assms
proof (induction gs arbitrary: s j)
  case (Cons g gs)
  obtain s' j' where r: "restore_group src g (s, j) = (s', j')" by (cases "restore_group src g (s, j)")
  have "tinv K s' u j' q" "slotsUsed j' \<le> slotsUsed j + length g"
    using restore_group_tinv [OF Cons.prems(1), of g src] Cons.prems(2,3) r by auto
  then show ?case using Cons.IH [of s' j'] Cons.prems(2,3) r by simp
qed simp

lemma init_tinv: "tinv K (init_store tag now) init_uploads (init_jobs storage) init_requests"
  by (auto simp: tinv_def job_inv_def upload_inv_def pool_ok_def heap_ok_def runs_ok_def mk_ok_def toks_ok_def item_tok_def
      entries_ok_def job_holds_def req_bal_def ops_ok_def slotsUsed_def held_def sending_def
      init_store_def init_uploads_def init_jobs_def init_requests_def)

lemma createFileOpsStore_inv:
  assumes "length (readStoredJobs (init_jobs storage)) \<le> K"
    and "list_all (\<lambda>x. is_job (sj_kind x)) (readStoredJobs (init_jobs storage))"
  shows "tab_inv K (createFileOpsStore src tag now storage)"
proof -
  let ?t0 = "\<lparr>tb_s = init_store tag now, tb_u = init_uploads, tb_j = init_jobs storage, tb_q = init_requests\<rparr>"
  let ?gs = "job_groups (readStoredJobs (init_jobs storage))"
  let ?r = "fold (restore_group src) ?gs (init_store tag now, init_jobs storage)"
  have "slotsUsed (init_jobs storage) = 0" by (simp add: slotsUsed_def init_jobs_def)
  moreover have "list_all (\<lambda>x. is_job (sj_kind x)) g" if "g \<in> set ?gs" for g
    using that assms(2) by (auto simp: job_groups_def list_all_iff)
  ultimately have "tinv K (fst ?r) init_uploads (snd ?r) init_requests"
    using assms(1) by (intro restore_groups_tinv [OF init_tinv]) (simp_all add: groups_length)
  note 1 = this
  have "job_inv K 0 init_uploads (schedulePoll ?r)"
    using 1 by (intro schedulePoll_inv) (simp add: tinv_def)
  then have "tinv K (fst (schedulePoll ?r)) init_uploads (snd (schedulePoll ?r)) init_requests"
    by (intro tinv_job [OF 1] keeps_schedulePoll) simp
  then have "tab_inv K (on_j (restore src) ?t0)" by (simp add: tab_inv_def restore_def)
  then show ?thesis unfolding createFileOpsStore_def Let_def by (rule on_s_same) (rule flush_keeps)+
qed

section \<open>Every event\<close>

lemma given_inv: "given b t' = Some t \<Longrightarrow> (b \<Longrightarrow> tab_inv K t') \<Longrightarrow> tab_inv K t"
  by (simp add: given_def split: if_splits)

lemma walk_op: "tab_inv K t \<Longrightarrow> (oi, ctl) \<in> set (u_walks (tb_u t)) \<Longrightarrow> upload_op (tb_s t) oi"
  by (force simp: tab_inv_def tinv_def)

lemma walk_event_inv:
  assumes "tab_inv K t" "(oi, ctl) \<in> set (u_walks (tb_u t))"
  shows "tab_inv K (on_u (addFile ls oi f d n rel) t)" "tab_inv K (on_u (addFolder oi rel) t)"
    "tab_inv K (on_u (addUnreadable oi rel) t)" "tab_inv K (on_u (walk_end oi ctl) t)"
proof -
  note t = assms(1) [unfolded tab_inv_def] and w = walk_op [OF assms]
  show "tab_inv K (on_u (addFile ls oi f d n rel) t)" "tab_inv K (on_u (addFolder oi rel) t)"
    "tab_inv K (on_u (addUnreadable oi rel) t)" "tab_inv K (on_u (walk_end oi ctl) t)"
    by (simp_all add: tab_inv_def addFile_tinv(1) [OF t w] addFolder_tinv [OF t w] addUnreadable_tinv [OF t w]
        walk_end_tinv [OF t])
qed

text \<open>What an answer of Luna or of the browser to the upload queue does.\<close>

lemma upload_event_inv:
  assumes "tab_inv K t"
  shows "(oi, i) \<in> set (u_prep (tb_u t)) \<Longrightarrow> tab_inv K (on_u (prepare_resume oi i) t)"
    and "m \<in> set (u_mk (tb_u t)) \<Longrightarrow> tab_inv K (on_u (mkdir_result m res) t)"
    and "m \<in> set (u_mk (tb_u t)) \<Longrightarrow> tab_inv K (on_u (stat_result m k) t)"
    and "tab_inv K (on_u (run_progress r n) t)" "tab_inv K (on_u (run_session r uid) t)" "tab_inv K (on_u (run_retrying r) t)"
    and "r \<in> set (u_runs (tb_u t)) \<Longrightarrow> ru_phase r = Sending \<Longrightarrow> tab_inv K (on_u (run_result r ans) t)"
    and "r \<in> set (u_runs (tb_u t)) \<Longrightarrow> ru_phase r = RunEnded \<Longrightarrow> tab_inv K (on_u (run_finally r) t)"
proof -
  note u = tab_parts(1) [OF assms]
  note step = on_u_inv [OF assms]
  note ks = keeps_prepare_resume [of "(_, _)", unfolded fst_conv] keeps_mkdir_result [of "(_, _)", unfolded fst_conv]
    keeps_stat_result [of "(_, _)", unfolded fst_conv] keeps_run_events [of "(_, _)", unfolded fst_conv]
    keeps_run_result [of "(_, _)", unfolded fst_conv] keeps_run_finally [of "(_, _)", unfolded fst_conv]
  show "(oi, i) \<in> set (u_prep (tb_u t)) \<Longrightarrow> tab_inv K (on_u (prepare_resume oi i) t)"
    by (rule step) (simp_all add: prepare_resume_inv [OF u] ks)
  show "m \<in> set (u_mk (tb_u t)) \<Longrightarrow> tab_inv K (on_u (mkdir_result m res) t)"
    by (rule step) (simp_all add: mkdir_result_inv [OF u] ks)
  show "m \<in> set (u_mk (tb_u t)) \<Longrightarrow> tab_inv K (on_u (stat_result m k) t)"
    by (rule step) (simp_all add: stat_result_inv [OF u] ks)
  show "tab_inv K (on_u (run_progress r n) t)" "tab_inv K (on_u (run_session r uid) t)" "tab_inv K (on_u (run_retrying r) t)"
    by (rule step; simp add: run_events_inv [OF u] ks)+
  show "r \<in> set (u_runs (tb_u t)) \<Longrightarrow> ru_phase r = Sending \<Longrightarrow> tab_inv K (on_u (run_result r ans) t)"
    by (rule step) (simp_all add: run_result_inv [OF u] ks)
  show "r \<in> set (u_runs (tb_u t)) \<Longrightarrow> ru_phase r = RunEnded \<Longrightarrow> tab_inv K (on_u (run_finally r) t)"
    by (rule step) (simp_all add: run_finally_inv [OF u] ks)
qed

lemma job_event_inv:
  assumes "tab_inv K t"
  shows "r \<in> set (j_submits (tb_j t)) \<Longrightarrow> tab_inv K (on_j (submit_result r res) t)"
    and "r \<in> set (j_removes (tb_j t)) \<Longrightarrow> tab_inv K (on_j (remove_result r ans) t)"
    and "tab_inv K (on_j (poll_list k bs) t)"
    and "(k, PollGets pend) \<in> set (j_polls (tb_j t)) \<Longrightarrow> x \<in> set pend \<Longrightarrow> tab_inv K (on_j (poll_get k pend x b) t)"
    and "tab_inv K (on_j (poll_done k) t)"
proof -
  note j = tab_parts(2) [OF assms]
  note step = on_j_inv [OF assms]
  note ks = keeps_submit_result [of "(_, _)", unfolded fst_conv] keeps_remove_result [of "(_, _)", unfolded fst_conv]
    keeps_poll_list [of "(_, _)", unfolded fst_conv] keeps_poll_get [of "(_, _)", unfolded fst_conv]
    keeps_poll_done [of "(_, _)", unfolded fst_conv]
  show "r \<in> set (j_submits (tb_j t)) \<Longrightarrow> tab_inv K (on_j (submit_result r res) t)"
    by (rule step) (simp_all add: submit_result_inv [OF j] ks)
  show "r \<in> set (j_removes (tb_j t)) \<Longrightarrow> tab_inv K (on_j (remove_result r ans) t)"
    by (rule step) (simp_all add: remove_result_inv [OF j] ks)
  show "tab_inv K (on_j (poll_list k bs) t)" by (rule step) (simp_all add: poll_list_inv [OF j] ks)
  show "(k, PollGets pend) \<in> set (j_polls (tb_j t)) \<Longrightarrow> x \<in> set pend \<Longrightarrow> tab_inv K (on_j (poll_get k pend x b) t)"
    by (rule step) (simp_all add: poll_get_inv [OF j] ks)
  show "tab_inv K (on_j (poll_done k) t)" by (rule step) (simp_all add: poll_done_inv [OF j] ks)
qed

lemma request_event_inv:
  assumes "tab_inv K t" "d \<in> set (q_drives (tb_q t))"
  shows "tab_inv K (on_q (drive_result d res) t)"
proof -
  have "req_op (tb_s t) (fst d)" using tab_parts(3) [OF assms(1)] assms(2) by (simp add: req_bal_def)
  then have "op_items_ok (tb_s t) (fst d)" using other_items_ok(1) [OF assms(1)] by (auto simp: req_op_def)
  then show ?thesis
    using drive_result_inv [OF tab_parts(3) [OF assms(1)] assms(2) _ tab_parts(2) [OF assms(1)]]
    by (intro on_q_inv [OF assms(1)]) simp
qed

lemma timer_inv:
  assumes "tab_inv K t" "tab_step (TimerFires k) t = Some t'"
  shows "tab_inv K t'"
proof -
  have "tab_inv K (on_s (clearTimer k) t)"
    using assms(1) unfolding tab_inv_def on_parts by (rule tinv_quiet) (simp_all add: clearTimer_def)
  then show ?thesis using assms(2) fire_inv by (auto split: option.splits dest!: given_inv)
qed

lemma tab_step_inv:
  assumes "tab_inv K t" "tab_step e t = Some t'"
  shows "tab_inv K t'"
proof (cases e)
  case (Tick ms)
  have "tab_inv K (on_s (\<lambda>s. s\<lparr>st_now := st_now s + ms\<rparr>) t)"
    using assms(1) unfolding tab_inv_def on_parts by (rule tinv_quiet) simp_all
  then show ?thesis using assms(2) Tick by simp
next
  case (StorageFull b)
  have "job_holds ((tb_j t)\<lparr>j_full := b\<rparr>) = job_holds (tb_j t)" by (simp add: job_holds_def)
  moreover have "t' = t\<lparr>tb_j := (tb_j t)\<lparr>j_full := b\<rparr>\<rparr>" using assms(2) StorageFull by simp
  ultimately show ?thesis using assms(1) by (simp add: tab_inv_def tinv_def job_inv_def entries_ok_def slotsUsed_def)
next
  case (TimerFires k)
  then show ?thesis using timer_inv [OF assms(1)] assms(2) by simp
qed (use assms in \<open>auto dest!: given_inv
      intro: startUpload_inv startJobs_inv startRequest_inv decide_inv decideAll_inv retry_inv retryOffline_inv cancel_inv
        clearFailed_inv dismiss_inv destroy_inv walk_event_inv upload_event_inv job_event_inv request_event_inv\<close>)

text \<open>Whatever an earlier load left behind, the invariant holds for its number of jobs.\<close>

definition tab_ok :: "tab \<Rightarrow> bool" where
  "tab_ok t \<longleftrightarrow> (\<exists>K. tab_inv K t)"

lemma tab_ok_parts:
  assumes "tab_ok t"
  shows "upload_inv (tb_s t, tb_u t)" "req_bal {#} (tb_s t, tb_q t)" "ops_ok (tb_s t)" "pool_ok (tb_s t, tb_u t)" "toks_but i (tb_s t, tb_u t)"
  using assms tab_parts by (auto simp: tab_ok_def)

interpretation tab_sys: invariant_system tab_start tab_step tab_reachable tab_ok
proof
  show "tab_start s \<Longrightarrow> tab_reachable s" for s by (rule tab_reachable.start)
  show "tab_reachable s \<Longrightarrow> tab_step e s = Some t \<Longrightarrow> tab_reachable t" for s e t by (rule tab_reachable.step)
  show "P s" if "tab_reachable s" "\<And>s. tab_start s \<Longrightarrow> P s"
    "\<And>s e t. tab_reachable s \<Longrightarrow> P s \<Longrightarrow> tab_step e s = Some t \<Longrightarrow> P t" for s P
    using that(1) by induction (use that(2,3) in blast)+
  show "tab_start s \<Longrightarrow> tab_ok s" for s by (auto simp: tab_start_def tab_ok_def intro: createFileOpsStore_inv)
  show "tab_reachable s \<Longrightarrow> tab_ok s \<Longrightarrow> tab_step e s = Some t \<Longrightarrow> tab_ok t" for s e t by (auto simp: tab_ok_def intro: tab_step_inv)
qed

text \<open>From a tab that meets the invariant for \<open>K\<close> jobs, every run keeps it for \<open>K\<close>.\<close>

lemma tab_run_inv: "tab_run t0 t \<Longrightarrow> tab_inv K t0 \<Longrightarrow> tab_inv K t"
  by (induction rule: tab_run.induct) (auto intro: tab_step_inv)

end
