(* ===== verification/TabLive.thy ===== *)
theory TabLive
  imports TabSafety
begin

text \<open>
  No file waits while a slot is free, a single upload starts at once, and what becomes of the job
  queue when an operation is dismissed.
\<close>

section \<open>No idle slot\<close>

definition busy :: "uploads \<Rightarrow> bool" where
  "busy u \<longleftrightarrow> u_ready u = [] \<or> UPLOAD_PARALLEL \<le> u_active u"

lemma busy_upd [simp]:
  "busy (u\<lparr>u_prep := pr\<rparr>) = busy u" "busy (u\<lparr>u_mk := mk\<rparr>) = busy u" "busy (u\<lparr>u_runs := rs\<rparr>) = busy u"
  "busy (u\<lparr>u_walks := ws\<rparr>) = busy u"
  by (simp_all add: busy_def)

lemma upload_pump_busy [simp]: "busy (snd (upload_pump su))"
  using pool.pump_work_conserving [of su] by (simp add: busy_def pool_queue_def pool_slots_def)

lemma enqueue_busy [simp]: "busy (snd (enqueue oi i su))"
  by (simp add: enqueue_def)

lemma apply_choice_busy [simp]: "busy (snd su) \<Longrightarrow> busy (snd (apply_choice oi i ch su))"
  by (simp add: apply_choice_def)

lemma clash_busy [simp]: "busy (snd su) \<Longrightarrow> busy (snd (clash oi i k se su))"
  by (simp add: clash_def Let_def split: option.split)

lemma handleError_busy [simp]: "busy (snd su) \<Longrightarrow> busy (snd (handleError oi i err su))"
  by (simp add: handleError_def Let_def split: option.split decision.split)

lemma prepare_busy [simp]:
  "busy (snd su) \<Longrightarrow> busy (snd (prepare ls oi i su))" "busy (snd su) \<Longrightarrow> busy (snd (prepare_resume oi i su))"
  by (simp_all add: prepare_def prepare_resume_def Let_def split: option.split)

lemma mk_next_busy [simp]: "busy (snd su) \<Longrightarrow> busy (snd (mk_next k oi i path rest made su))"
  by (simp add: mk_next_def Let_def split: list.split)

lemma makeFolders_busy [simp]: "busy (snd su) \<Longrightarrow> busy (snd (makeFolders oi i rel su))"
  by (simp add: makeFolders_def Let_def split_beta split: option.split)

lemma mk_busy [simp]:
  "busy (snd su) \<Longrightarrow> busy (snd (mk_after_stat m k su))" "busy (snd su) \<Longrightarrow> busy (snd (stat_result m k su))"
  "busy (snd su) \<Longrightarrow> busy (snd (mkdir_result m res su))"
  by (simp_all add: mk_after_stat_def stat_result_def mkdir_result_def Let_def split: option.split sum.split)

lemma run_busy [simp]:
  "busy (snd su) \<Longrightarrow> busy (snd (run_result r res su))" "busy (snd (run_finally r su))"
  "busy (snd su) \<Longrightarrow> busy (snd (run_progress r n su))" "busy (snd su) \<Longrightarrow> busy (snd (run_session r uid su))"
  "busy (snd su) \<Longrightarrow> busy (snd (run_retrying r su))"
  by (simp_all add: run_result_def run_finally_def run_progress_def run_session_def run_retrying_def end_run_def Let_def
      split: sum.split)

lemma fold_busy: "(\<And>x su. busy (snd su) \<Longrightarrow> busy (snd (f x su))) \<Longrightarrow> busy (snd su) \<Longrightarrow> busy (snd (fold f xs su))"
  by (induction xs arbitrary: su) simp_all

lemma upload_retry_busy [simp]: "busy (snd su) \<Longrightarrow> busy (snd (upload_retry oi targets su))"
proof -
  assume b: "busy (snd su)"
  have "busy (snd (fold (retry_one oi) targets su))"
    by (rule fold_busy [OF _ b]) (simp add: retry_one_def split: option.split)
  then show ?thesis by (simp add: upload_retry_def Let_def)
qed

lemma add_busy [simp]:
  "busy (snd su) \<Longrightarrow> busy (snd (addFile ls oi f d n rel su))" "busy (snd su) \<Longrightarrow> busy (snd (addFolder oi rel su))"
  "busy (snd su) \<Longrightarrow> busy (snd (addUnreadable oi rel su))" "busy (snd su) \<Longrightarrow> busy (snd (walk_end oi ctl su))"
  by (simp_all add: addFile_def addFolder_def addUnreadable_def walk_end_def Let_def split_beta split: option.split)

lemma upload_start_busy [simp]: "busy (snd su) \<Longrightarrow> busy (snd (upload_start ls oi inp su))"
proof -
  assume b: "busy (snd su)"
  have "busy (snd (add_files ls oi fs su'))" if "busy (snd su')" for fs su'
    unfolding add_files_def by (rule fold_busy [OF _ that]) simp
  then show ?thesis using b by (simp add: upload_start_def Let_def split_beta split: option.split)
qed

definition tab_busy :: "tab \<Rightarrow> bool" where
  "tab_busy t \<longleftrightarrow> busy (tb_u t)"

lemma on_busy:
  "tab_busy (on_s f t) = tab_busy t" "tab_busy (on_j h t) = tab_busy t" "tab_busy (on_q k t) = tab_busy t"
  "tab_busy (t\<lparr>tb_s := s\<rparr>) = tab_busy t" "tab_busy (t\<lparr>tb_j := j\<rparr>) = tab_busy t"
  "tab_busy (on_u g t) = busy (snd (g (tb_s t, tb_u t)))"
  by (simp_all add: tab_busy_def)

lemma runner_busy [simp]:
  "tab_busy t \<Longrightarrow> tab_busy (runner_decide k oi i ch t)" "tab_busy t \<Longrightarrow> tab_busy (runner_retry k oi targets t)"
  "tab_busy t \<Longrightarrow> tab_busy (runner_cancel k oi t)" "tab_busy t \<Longrightarrow> tab_busy (runner_cancel_item k oi i t)"
  by (simp_all add: runner_decide_def runner_retry_def runner_cancel_def runner_cancel_item_def upload_decide_def on_busy)
    (simp_all add: tab_busy_def)

lemma fold_tab_busy: "(\<And>x t. tab_busy t \<Longrightarrow> tab_busy (f x t)) \<Longrightarrow> tab_busy t \<Longrightarrow> tab_busy (fold f xs t)"
  by (induction xs arbitrary: t) simp_all

lemma action_busy:
  assumes "tab_busy t"
  shows "tab_busy (decide opId itemId ch t)" "tab_busy (decideAll opId ch t)" "tab_busy (retry opId item t)"
    "tab_busy (retryOffline t)" "tab_busy (cancel opId item t)" "tab_busy (clearFailed opId t)" "tab_busy (dismiss opId t)"
    "tab_busy (destroy t)" "tab_busy (fire a t)"
proof -
  have w: "tab_busy (with_op opId f t)" if "\<And>oi p. tab_busy (f oi p t)" for f
    using that assms by (simp add: with_op_def split: option.split)
  have d: "tab_busy (decide_one k oi ch i t)" if "tab_busy t" for k oi i t
    using that by (simp add: decide_one_def split: option.split)
  show "tab_busy (decide opId itemId ch t)"
    unfolding decide_def by (rule w) (simp add: assms split: option.split)
  show "tab_busy (decideAll opId ch t)"
    unfolding decideAll_def by (rule w, rule fold_tab_busy [OF d]) (simp_all add: on_busy assms)
  show "tab_busy (retry opId item t)" unfolding retry_def by (rule w) (simp add: assms Let_def)
  show "tab_busy (retryOffline t)"
    unfolding retryOffline_def by (rule fold_tab_busy [OF _ assms]) (simp add: Let_def split: option.split)
  show "tab_busy (cancel opId item t)"
    unfolding cancel_def by (rule w) (simp add: assms cancel_all_def on_busy split: option.split)
  show "tab_busy (clearFailed opId t)" unfolding clearFailed_def by (rule w) (simp add: on_busy assms)
  show "tab_busy (dismiss opId t)" unfolding dismiss_def by (rule w) (simp add: on_busy assms Let_def)
  show "tab_busy (destroy t)" by (simp add: destroy_def Let_def on_busy assms)
  show "tab_busy (fire a t)"
    using assms by (cases a) (simp_all add: on_busy clear_op_def Let_def split: option.split)
qed

lemma start_busy:
  assumes "tab_busy t"
  shows "tab_busy (startUpload ls a t)" "tab_busy (startJobs ja t)" "tab_busy (startRequest ra t)"
  using assms by (simp_all add: startUpload_def startJobs_def startRequest_def Let_def split_beta on_busy) (simp add: tab_busy_def)

lemma given_busy: "given b t' = Some t \<Longrightarrow> tab_busy t' \<Longrightarrow> tab_busy t"
  by (simp add: given_def split: if_splits)

lemma tab_step_busy:
  assumes "tab_busy t" "tab_step e t = Some t'"
  shows "tab_busy t'"
proof -
  have b: "busy (tb_u t)" using assms(1) by (simp add: tab_busy_def)
  show ?thesis
    by (cases e) (use assms b in \<open>auto simp: on_busy start_busy action_busy split: option.splits dest!: given_busy\<close>)
qed

interpretation live_sys: invariant_system tab_start tab_step tab_reachable tab_busy
proof
  show "tab_start s \<Longrightarrow> tab_busy s" for s
    by (auto simp: tab_start_def createFileOpsStore_def Let_def on_busy tab_busy_def init_uploads_def busy_def)
  show "tab_reachable s \<Longrightarrow> tab_busy s \<Longrightarrow> tab_step e s = Some t \<Longrightarrow> tab_busy t" for s e t by (rule tab_step_busy)
qed

section \<open>A free slot is used at once\<close>

lemma enqueue_starts:
  assumes "startable s (oi, i)" "st_op s oi = Some p" "st_item s i = Some x" "\<not> it_completeOnly x"
    and "u_ready u = []" "u_active u < UPLOAD_PARALLEL"
  shows "u_runs (snd (enqueue oi i (s, u))) =
    u_runs u @ [\<lparr>ru_id = st_next s, ru_op = oi, ru_item = i, ru_size = it_size x, ru_phase = Sending\<rparr>]"
proof -
  let ?su = "(s, u\<lparr>u_ready := [(oi, i)]\<rparr>)"
  let ?st = "pool_start (oi, i) (pool_pop ?su)"
  have "upload_pump ?su = upload_pump ?st"
    using assms(1,6) by (subst pool.pump_eq) (simp add: pool_queue_def pool_slots_def)
  moreover have "upload_pump ?st = ?st"
    by (subst pool.pump_eq) (simp add: pool.queue_start pool.queue_pop, simp add: pool_queue_def)
  ultimately show ?thesis
    using run_effect(1) [OF assms(2,3)] assms(4,5)
    by (simp add: enqueue_def pool_start_def pool_pop_def run_fails_def)
qed

lemma addFile_starts:
  assumes "st_op s oi = Some p" "src_isFile (op_source p)" "isAlive oi s" "u_ready u = []" "u_active u < UPLOAD_PARALLEL"
  shows "\<exists>r. u_runs (snd (addFile ls oi f d n rel (s, u))) = u_runs u @ [r] \<and> ru_phase r = Sending \<and> ru_op r = oi"
proof -
  let ?x = "(makeItem (fst (newId (lit ''it'') s)) n)\<lparr>it_relPath := rel, it_destPath := dest_path (op_destFolder p) d,
                      it_size := f_size f, it_file := Some (f_ref f)\<rparr>"
  let ?t = "push_item oi (\<lambda>_. ?x) s" and ?n = "new_item oi ?x s"
  let ?s = "settle oi ?n"
  have a: "addFile ls oi f d n rel (s, u) = prepare ls oi (st_next s) (?s, u)"
    using assms(1) by (simp add: addFile_def Let_def split_beta new_item_def newId_keeps alloc_item_def new_ref_def)
  have t: "st_item ?t = (st_item s)(st_next s \<mapsto> ?x)" "st_op ?t oi = Some (p\<lparr>op_items := op_items p @ [st_next s]\<rparr>)"
    "st_ops ?t = st_ops s" "st_destroyed ?t = st_destroyed s"
    using assms(1) by (simp_all add: push_item_def newId_def alloc_item_def new_ref_def Let_def upd_op_def)
  have ne: "?n = emit False (touch oi (Some (st_next s)) ?t)"
    by (simp add: new_item_def addItem_def push_item_def Let_def split_beta newId_keeps alloc_item_def new_ref_def)
  then have it: "st_item ?s (st_next s) = Some ?x" using t(1) by simp
  have k: "keeps ?t ?s" unfolding ne by (intro keeps_intros keeps_refl)
  then obtain p' where p': "st_op ?s oi = Some p'" "op_source p' = op_source p"
    using keeps_op_Some [OF k t(2)] by (auto simp: op_static_def)
  have "isAlive oi ?s" using k assms(3) t(3,4) by (simp add: isAlive_def keeps_def)
  then have "startable ?s (oi, st_next s)" using it by (simp add: startable_def item_st_def makeItem_def)
  from enqueue_starts [OF this p'(1) it _ assms(4,5)] show ?thesis
    using p' assms(2) it by (simp add: a prepare_def makeItem_def)
qed

text \<open>One file for a single-file link, on a tab with a free slot and nothing waiting.\<close>

lemma startUpload_starts:
  assumes "tab_ok t" "is_upload (ua_kind a)" "src_isFile (ua_source a)" "in_files (ua_input a) = Some [f]"
    and "in_entries (ua_input a) = None" "\<not> st_destroyed (tb_s t)"
    and "u_ready (tb_u t) = []" "u_active (tb_u t) < UPLOAD_PARALLEL"
  shows "\<exists>r. u_runs (tb_u (startUpload ls a t)) = u_runs (tb_u t) @ [r] \<and> ru_phase r = Sending"
proof -
  let ?s1 = "snd (newId (lit ''op'') (tb_s t))"
  let ?p = "(makeOp (fst (newId (lit ''op'') (tb_s t))) (st_now ?s1) (ua_source a) (ua_kind a) (ua_drive a))\<lparr>op_destFolder := ua_folder a,
                 op_destLabel := label_or (ua_label a) (ua_folder a)\<rparr>"
  let ?oi = "fst (alloc_op ?p ?s1)" and ?s2 = "snd (alloc_op ?p ?s1)"
  let ?s3 = "upd_rt ?oi (\<lambda>r. r\<lparr>r_invalidateKeys := ua_keys a, r_afterFinish := ua_after a\<rparr>) (addOp ?oi ?s2)"
  let ?s4 = "upd_op ?oi (upload_title (ua_input a)) ?s3"
  have p2: "st_op ?s2 ?oi = Some ?p" by (simp add: alloc_op_def new_ref_def Let_def)
  let ?l = "?s2\<lparr>st_ops := st_ops ?s2 @ [?oi]\<rparr>"
  have "keeps ?l (addOp ?oi ?s2)"
  proof -
    have "keeps ?l (upd_op ?oi (\<lambda>q. q\<lparr>op_shown := True\<rparr>) ?l)" by (rule keeps_upd_op) (simp add: op_static_def)
    moreover have "keeps ?l (upd_rt ?oi h (snd (setTimer b ms ?l)))" for h b ms by (rule keeps_setTimer_rt)
    ultimately show ?thesis using p2 by (auto simp: addOp_def Let_def split_beta intro!: keeps_intros)
  qed
  then have k: "keeps ?l ?s4"
    by (intro keeps_intros) (simp_all add: upload_title_def op_static_def Let_def)
  have "st_op ?l ?oi = Some ?p" using p2 by simp
  then obtain p3 where p3: "st_op ?s4 ?oi = Some p3" "op_source p3 = ua_source a"
    using keeps_op_Some [OF k, of ?oi ?p] by (auto simp: op_static_def makeOp_def)
  have "st_destroyed ?l = st_destroyed (tb_s t)" by (simp add: alloc_op_def new_ref_def newId_def Let_def)
  then have al: "isAlive ?oi ?s4" using k assms(6) by (simp add: isAlive_def keeps_def)
  obtain p0 where p0: "st_op ?s3 ?oi = Some p0" using p3(1) by (cases "st_op ?s3 ?oi") (simp_all add: upd_op_def)
  have c: "\<not> (input_count (ua_input a) > 1 \<or> dropped_folder (ua_input a))"
    using assms(4,5) by (simp add: input_count_def dropped_folder_def)
  have "snd (upload_start ls ?oi (ua_input a) (?s3, tb_u t)) = snd (add_files ls ?oi [f] (?s4, tb_u t))"
    using p0 c assms(4) by (simp add: upload_start_def Let_def)
  moreover have "tb_u (startUpload ls a t) = snd (upload_start ls ?oi (ua_input a) (?s3, tb_u t))"
    by (simp add: startUpload_def Let_def split_beta)
  ultimately have e: "tb_u (startUpload ls a t) = snd (addFile ls ?oi f (fst (splitRel (rel_or_name f)))
      (snd (splitRel (rel_or_name f))) (rel_or_name f) (?s4, tb_u t))"
    by (simp add: add_files_def)
  have "src_isFile (op_source p3)" using p3(2) assms(3) by simp
  from addFile_starts [OF p3(1) this al assms(7,8)] show ?thesis unfolding e by blast
qed

section \<open>Reachable states\<close>

text \<open>A tab on which one upload to a single-file link is being sent.\<close>

definition demo_tab :: tab where
  "demo_tab = createFileOpsStore demo_source (lit ''t'') 5000 None"

definition demo_args :: upload_args where
  "demo_args = \<lparr>ua_source = demo_source\<lparr>src_isFile := True\<rparr>, ua_drive = lit ''d'', ua_folder = [], ua_label = None,
     ua_kind = Upload, ua_keys = [], ua_after = False,
     ua_input = \<lparr>in_entries = None, in_dropFiles = [],
       in_files = Some [\<lparr>f_ref = 7, f_name = lit ''a'', f_rel = [], f_size = 10\<rparr>]\<rparr>\<rparr>"

definition demo_sending :: tab where
  "demo_sending = startUpload (\<lambda>_. None) demo_args demo_tab"

lemma demo_tab_reachable: "tab_reachable demo_tab"
  unfolding demo_tab_def
  by (rule tab_reachable.start, unfold tab_start_def, rule exI, rule exI, rule exI, rule exI [of _ None])
    (auto simp: readStoredJobs_def init_jobs_def)

lemma demo_tab_parts: "tb_u demo_tab = init_uploads" "\<not> st_destroyed (tb_s demo_tab)"
proof -
  show "tb_u demo_tab = init_uploads" by (simp add: demo_tab_def createFileOpsStore_def Let_def)
  have "st_destroyed (flush s) = st_destroyed s" for s by (rule same_objs_fields(3) [OF flush_same])
  then show "\<not> st_destroyed (tb_s demo_tab)"
    by (simp add: demo_tab_def createFileOpsStore_def Let_def restore_def schedulePoll_def readStoredJobs_def init_jobs_def
        job_groups_def first_uniq_def init_store_def)
qed

lemma demo_sending_reachable: "tab_reachable demo_sending"
  by (rule tab_reachable.step [OF demo_tab_reachable, of "StartUpload demo_args (\<lambda>_. None)"])
    (simp add: demo_sending_def given_def demo_args_def is_upload_def)

lemma demo_sending_runs: "\<exists>r. u_runs (tb_u demo_sending) = [r] \<and> ru_phase r = Sending"
  unfolding demo_sending_def
  using startUpload_starts [OF tab_sys.reachable_inv [OF demo_tab_reachable], of demo_args _ "\<lambda>_. None"]
  by (simp add: demo_tab_parts demo_args_def is_upload_def init_uploads_def UPLOAD_PARALLEL_def)

lemma reach_pool: "tab_reachable t \<Longrightarrow> u_active (tb_u t) = length (u_runs (tb_u t)) \<and> u_active (tb_u t) \<le> UPLOAD_PARALLEL"
  by (drule tab_ok_parts(4) [OF tab_sys.reachable_inv]) (simp add: pool_ok_def runs_ok_def)

text \<open>
  Property C1: in every state the tab can reach, at most three uploads are in flight over all
  operations, and the counter the pool uses is the number of uploads in flight.
\<close>

theorem uploads_bounded:
  assumes "tab_reachable t"
  shows "length (u_runs (tb_u t)) \<le> 3 \<and> u_active (tb_u t) = length (u_runs (tb_u t))"
  using reach_pool [OF assms] by (simp add: UPLOAD_PARALLEL_def)

theorem uploads_bounded_witness:
  "length (u_runs (tb_u demo_sending)) = 1 \<and> u_active (tb_u demo_sending) = 1"
  using uploads_bounded [OF demo_sending_reachable] demo_sending_runs by auto

text \<open>
  Property C2: in every reachable state a file is sent at most once at a time. While its row says
  it is uploading or finishing exactly one request for it is under way and it waits nowhere; while
  its row says anything else but cancelled no request for it is under way.
\<close>

theorem file_sent_once:
  assumes "tab_reachable t" "st_item (tb_s t) i = Some x" "it_file x \<noteq> None"
  shows "held (tb_u t) i + sending (tb_u t) i \<le> 1
    \<and> (it_state x \<in> {Uploading, Finishing} \<longrightarrow> sending (tb_u t) i = 1)
    \<and> (sending (tb_u t) i = 1 \<longrightarrow> it_state x \<in> {Uploading, Finishing, Cancelled})"
  using inv_tok [OF tab_ok_parts(1) [OF tab_sys.reachable_inv [OF assms(1)]], of i] assms(2,3)
  by (cases "it_state x") (simp_all add: item_tok_def)

theorem file_sent_once_witness:
  "\<exists>i x. st_item (tb_s demo_sending) i = Some x \<and> sending (tb_u demo_sending) i = 1 \<and> held (tb_u demo_sending) i = 0
     \<and> it_state x \<in> {Uploading, Finishing, Cancelled}"
proof -
  obtain r where r: "u_runs (tb_u demo_sending) = [r]" "ru_phase r = Sending" using demo_sending_runs by blast
  then have d: "sending (tb_u demo_sending) (ru_item r) = 1" by (simp add: sending_def)
  then obtain x where x: "st_item (tb_s demo_sending) (ru_item r) = Some x" "it_file x \<noteq> None"
    using inv_tok [OF tab_ok_parts(1) [OF tab_sys.reachable_inv [OF demo_sending_reachable]], of "ru_item r"]
    by (cases "st_item (tb_s demo_sending) (ru_item r)") (auto simp: item_tok_def split: if_splits)
  show ?thesis using file_sent_once [OF demo_sending_reachable x] x(1) d by auto
qed

text \<open>Nothing is being sent when a tab starts.\<close>

lemma fold_snd: "(\<And>x sj. f (snd (g x sj)) = f (snd sj)) \<Longrightarrow> f (snd (fold g xs sj)) = f (snd sj)"
  by (induction xs arbitrary: sj) simp_all

lemma start_submits: "tab_start t \<Longrightarrow> j_submits (tb_j t) = []"
proof -
  have i: "j_submits (snd (restore_item oi x sj)) = j_submits (snd sj)" for oi x sj
    by (simp add: restore_item_def Let_def split_beta)
  have f: "j_submits (snd (fold (restore_item oi) xs sj)) = j_submits (snd sj)" for oi xs sj by (rule fold_snd) (rule i)
  have g: "j_submits (snd (restore_group src xs sj)) = j_submits (snd sj)" for src xs sj
    by (cases xs) (simp_all add: restore_group_def Let_def split_beta i f)
  have "j_submits (snd (fold (restore_group src) gs sj)) = j_submits (snd sj)" for src gs sj by (rule fold_snd) (rule g)
  moreover have "j_submits (snd (schedulePoll sj)) = j_submits (snd sj)" for sj by (simp add: schedulePoll_def split_beta Let_def)
  ultimately have "j_submits (snd (restore src sj)) = j_submits (snd sj)" for src sj by (simp add: restore_def)
  then show "tab_start t \<Longrightarrow> j_submits (tb_j t) = []" by (auto simp: tab_start_def createFileOpsStore_def Let_def init_jobs_def)
qed

lemma tab_inv_now: "tab_ok t \<Longrightarrow> tab_inv (slotsUsed (tb_j t)) t"
  by (auto simp: tab_ok_def tab_inv_def tinv_def job_inv_def)

text \<open>
  Property C3: while a tab runs, the jobs that are accepted or being sent to Luna are at most four, or at most as many as
  the tab picked up from an earlier load when those were more than four. The count of jobs being sent
  is the number of requests under way.
\<close>

theorem job_slots_bounded:
  assumes "tab_start t0" "tab_run t0 t"
  shows "length (j_accepted (tb_j t)) + length (j_submits (tb_j t)) \<le> max 4 (length (j_accepted (tb_j t0)))
    \<and> j_inflight (tb_j t) = length (j_submits (tb_j t))"
proof -
  have ok: "tab_ok t0" using assms(1) by (intro tab_sys.reachable_inv tab_reachable.start)
  then have "j_inflight (tb_j t0) = 0" using start_submits [OF assms(1)] by (auto simp: tab_ok_def tab_inv_def tinv_def job_inv_def)
  then have "slotsUsed (tb_j t0) = length (j_accepted (tb_j t0))" by (simp add: slotsUsed_def)
  then show ?thesis using tab_run_inv [OF assms(2) tab_inv_now [OF ok]]
    by (simp add: tab_inv_def tinv_def job_inv_def slotsUsed_def JOB_PARALLEL_def)
qed

text \<open>A tab that picked up a job of an earlier load.\<close>

definition demo_job :: stored_job where
  "demo_job = \<lparr>sj_opId = lit ''o'', sj_itemId = lit ''i'', sj_jobId = lit ''j'', sj_kind = Copy, sj_name = lit ''a'', sj_path = lit ''a'',
     sj_title = [], sj_fromDrive = lit ''d'', sj_toDrive = lit ''e'', sj_toPath = [], sj_toLabel = [], sj_createdAt = 4000\<rparr>"

definition demo_restored :: tab where
  "demo_restored = createFileOpsStore demo_source (lit ''t'') 5000 (Some [demo_job])"

lemma demo_restored_start: "tab_start demo_restored"
  unfolding demo_restored_def
  by (unfold tab_start_def, rule exI, rule exI, rule exI, rule exI [of _ "Some [demo_job]"])
    (auto simp: readStoredJobs_def init_jobs_def demo_job_def is_job_def)

lemma demo_restored_accepted: "length (j_accepted (tb_j demo_restored)) = 1"
proof -
  have "job_groups (readStoredJobs (init_jobs (Some [demo_job]))) = [[demo_job]]"
    by (simp add: job_groups_def first_uniq_def readStoredJobs_def init_jobs_def demo_job_def lit_def)
  then show ?thesis
    by (simp add: demo_restored_def createFileOpsStore_def Let_def restore_def schedulePoll_def restore_group_def
        restore_item_def split_beta init_jobs_def)
qed

theorem job_slots_bounded_witness:
  "length (j_accepted (tb_j demo_restored)) = 1 \<and> length (j_submits (tb_j demo_restored)) \<le> 3"
  using job_slots_bounded [OF demo_restored_start tab_run.here] demo_restored_accepted by simp

text \<open>
  Property C4: in every reachable state every request loop waits for exactly one request, and no
  operation has two loops.
\<close>

theorem one_request_loop:
  assumes "tab_reachable t"
  shows "distinct (map (\<lambda>d. id_at (tb_s t) (fst d)) (q_drives (tb_q t)))
    \<and> mset (map (\<lambda>d. id_at (tb_s t) (fst d)) (q_drives (tb_q t))) = mset (map Some (q_driving (tb_q t)))"
proof -
  have b: "distinct (q_driving (tb_q t))"
    "mset (map (\<lambda>d. id_at (tb_s t) (fst d)) (q_drives (tb_q t))) = mset (map Some (q_driving (tb_q t)))"
    using tab_ok_parts(2) [OF tab_sys.reachable_inv [OF assms]] by (simp_all add: req_bal_def o_def)
  have "distinct (map Some (q_driving (tb_q t)))" using b(1) by (simp add: distinct_map)
  then show ?thesis using b(2) mset_eq_imp_distinct_iff by blast
qed

text \<open>A request with one item sends it at once.\<close>

lemma drive_loop_starts:
  assumes "isAlive oi s" "queued_refs s oi = i # is" "st_op s oi = Some p" "\<not> op_cancelled p"
  shows "q_drives (snd (drive_loop oi ctl (s, q))) = q_drives q @ [(oi, i, ctl)]"
  using assms by (subst drive_loop.simps) (simp add: Let_def)

lemma drive_starts:
  assumes "isAlive oi s" "queued_refs s oi = i # is" "st_op s oi = Some p" "\<not> op_cancelled p" "op_id p \<notin> set (q_driving q)"
  shows "length (q_drives (snd (drive oi (s, q)))) = Suc (length (q_drives q))"
proof -
  have "queued_refs (snd (new_ref s)) oi = i # is" "isAlive oi (snd (new_ref s))" "st_op (snd (new_ref s)) oi = Some p"
    using assms(1-3) by (simp_all add: queued_refs_def isAlive_def item_st_def new_ref_def cong: option.case_cong)
  from drive_loop_starts [OF this(2,1,3) assms(4)] show ?thesis
    using assms(3,5) by (simp add: drive_def Let_def split_beta)
qed

lemma addOp_op:
  assumes "st_op s oi = Some p"
  shows "\<exists>q. st_op (addOp oi s) oi = Some q \<and> op_items q = op_items p \<and> op_cancelled q = op_cancelled p \<and> op_id q = op_id p"
proof -
  have "\<exists>b. core_at (addOp oi s) oi = Some (op_core (p\<lparr>op_shown := b\<rparr>))"
  proof (cases "op_kind p \<in> set IMMEDIATE_KINDS \<or> list_ex (\<lambda>i. it_state i = Done) (op_item_list (s\<lparr>st_ops := st_ops s @ [oi]\<rparr>) oi)")
    case True
    then show ?thesis using assms
      by (intro exI [of _ True]) (simp add: addOp_def Let_def, simp add: core_at_def upd_op_def)
  next
    case False
    then show ?thesis using assms
      by (intro exI [of _ "op_shown p"])
        (simp add: addOp_def Let_def split_beta, simp add: core_at_def upd_rt_def setTimer_def)
  qed
  then obtain b q where "st_op (addOp oi s) oi = Some q" "op_core q = op_core (p\<lparr>op_shown := b\<rparr>)"
    by (auto simp: core_at_def)
  then show ?thesis by (cases q; cases p) (simp add: op_core_def)
qed

lemma request_op_starts:
  assumes "st_op s oi = Some p" "op_items p = []" "\<not> op_cancelled p" "\<not> st_destroyed s" "op_id p \<notin> set (q_driving q)"
    and "\<And>k. it_state (mk k) = Queued"
  shows "length (q_drives (snd (drive oi (addOp oi (upd_rt oi h (push_item oi mk s)), q)))) = Suc (length (q_drives q))"
proof -
  let ?u = "upd_rt oi h (push_item oi mk s)" and ?i = "st_next s"
  have u: "st_op ?u oi = Some (p\<lparr>op_items := [?i]\<rparr>)" "item_st ?u ?i = Some Queued" "\<not> st_destroyed ?u"
    using assms by (simp_all add: push_item_def newId_def alloc_item_def new_ref_def Let_def upd_op_def upd_rt_def item_st_def)
  obtain p' where p': "st_op (addOp oi ?u) oi = Some p'" "op_items p' = [?i]" "\<not> op_cancelled p'" "op_id p' = op_id p"
    using addOp_op [OF u(1)] assms(3) by auto
  have a: "st_item (addOp oi ?u) = st_item ?u" "st_ops (addOp oi ?u) = st_ops ?u @ [oi]" "st_destroyed (addOp oi ?u) = st_destroyed ?u"
    using u(1) by (simp_all add: addOp_def Let_def split_beta setTimer_def)
  then have "queued_refs (addOp oi ?u) oi = [?i]" using p' u(2) by (simp add: queued_refs_def item_st_def)
  moreover have "isAlive oi (addOp oi ?u)" using a u(3) by (simp add: isAlive_def)
  ultimately show ?thesis using drive_starts p' assms(5) by metis
qed

definition demo_request :: request_args where
  "demo_request = \<lparr>ra_kind = EmptyTrash, ra_title = lit ''t'', ra_label = [], ra_source = demo_source, ra_drive = lit ''d'',
     ra_items = [], ra_run = Some 3, ra_toast = NoToast, ra_keys = []\<rparr>"

definition demo_requesting :: tab where
  "demo_requesting = startRequest demo_request demo_tab"

lemma demo_requesting_reachable: "tab_reachable demo_requesting"
  by (rule tab_reachable.step [OF demo_tab_reachable, of "StartRequest demo_request"])
    (simp add: demo_requesting_def given_def demo_request_def is_upload_def is_job_def)

lemma demo_requesting_drives: "length (q_drives (tb_q demo_requesting)) = 1"
proof -
  have rl: "request_list demo_request = [(lit ''t'', Some 3)]" by (simp add: request_list_def demo_request_def)
  have q: "tb_q demo_tab = init_requests" by (simp add: demo_tab_def createFileOpsStore_def Let_def)
  have title: "ra_title demo_request \<noteq> []" by (simp add: demo_request_def lit_def)
  have d: "\<not> st_destroyed (snd (newId pre (tb_s demo_tab)))" for pre
    using demo_tab_parts(2) by (simp add: newId_def Let_def)
  show ?thesis
    unfolding demo_requesting_def startRequest_def rl Let_def split_beta on_parts request_start_def
    by (simp add: q title, subst request_op_starts)
      ((simp_all add: d makeOp_def makeItem_def init_requests_def alloc_op_def new_ref_def Let_def)+)
qed

theorem one_request_loop_witness: "length (q_driving (tb_q demo_requesting)) = 1"
  using one_request_loop [OF demo_requesting_reachable] demo_requesting_drives by (metis length_map size_mset)

text \<open>
  Property C5: in every reachable state no file waits while a slot of the upload pool is free.
\<close>

theorem no_idle_slot:
  assumes "tab_reachable t"
  shows "u_ready (tb_u t) = [] \<or> length (u_runs (tb_u t)) = 3"
  using live_sys.reachable_inv [OF assms] reach_pool [OF assms] by (auto simp: tab_busy_def busy_def UPLOAD_PARALLEL_def)

theorem no_idle_slot_witness:
  "u_ready (tb_u demo_sending) = [] \<and> length (u_runs (tb_u demo_sending)) = 1"
  using no_idle_slot [OF demo_sending_reachable] demo_sending_runs by auto

section \<open>Two flaws of the job queue\<close>

text \<open>
  Property C37: dismissing the only copy or move that has jobs on Luna strands the jobs that wait
  behind it. Afterwards every slot is free, but the queue was not pumped, and the poll timer, which
  would pump it when a job ends, asks nothing, sends nothing and is not set again.
\<close>

theorem dismiss_strands_queue:
  assumes "getOp opId (tb_s t) = Some oi" "st_op (tb_s t) oi = Some p" "is_job (op_kind p)"
    and "list_all (\<lambda>x. fst (snd x) = oi) (j_accepted (tb_j t))" "j_inflight (tb_j t) = 0"
  shows "slotsUsed (tb_j (dismiss opId t)) = 0
    \<and> j_queue (tb_j (dismiss opId t)) = j_queue (tb_j t)
    \<and> j_submits (tb_j (dismiss opId t)) = j_submits (tb_j t)
    \<and> j_retryTimer (tb_j (dismiss opId t)) = j_retryTimer (tb_j t)
    \<and> fire PollJobs (dismiss opId t) = dismiss opId t\<lparr>tb_j := tb_j (dismiss opId t)\<lparr>j_pollTimer := None\<rparr>\<rparr>"
proof -
  let ?t1 = "if \<not> ended p then runner_cancel (op_kind p) oi (on_s (upd_op oi (\<lambda>q. q\<lparr>op_cancelled := True\<rparr>)) t) else t"
  have nu: "\<not> is_upload (op_kind p)" using assms(3) by (cases "op_kind p") (simp_all add: is_upload_def is_job_def)
  have j1: "tb_j ?t1 = tb_j t" using nu assms(3) by (simp add: runner_cancel_def)
  have "keeps (tb_s t) (upd_op oi (\<lambda>q. q\<lparr>op_cancelled := True\<rparr>) (tb_s t))" by (rule keeps_upd_op) (simp add: op_static_def)
  then have "keeps (tb_s t) (tb_s ?t1)"
    using nu assms(3) keeps_trans [OF _ keeps_job_cancel] by (simp add: runner_cancel_def)
  then obtain q where q: "st_op (tb_s ?t1) oi = Some q" "op_kind q = op_kind p" "op_id q = op_id p"
    using keeps_op_Some [OF _ assms(2)] by (auto simp: op_static_def)
  have d: "dismiss opId t = on_s (removeOp oi) (on_j (forget oi) ?t1)"
    using assms(1,2) by (simp add: dismiss_def with_op_def Let_def)
  have "filter (\<lambda>x. fst (snd x) \<noteq> oi) (j_accepted (tb_j t)) = []"
    using assms(4) by (induction "j_accepted (tb_j t)") (auto simp: list_all_iff filter_empty_conv)
  then have f: "snd (forget oi (tb_s ?t1, tb_j t)) = dropOp (op_id p) ((tb_j t)\<lparr>j_accepted := []\<rparr>)"
    using q assms(3) by (simp add: forget_def)
  have j: "tb_j (dismiss opId t) = dropOp (op_id p) ((tb_j t)\<lparr>j_accepted := []\<rparr>)"
    unfolding d by (simp add: j1 f del: forget_store)
  have w: "j_accepted (dropOp x y) = j_accepted y" "j_inflight (dropOp x y) = j_inflight y" "j_queue (dropOp x y) = j_queue y"
    "j_submits (dropOp x y) = j_submits y" "j_retryTimer (dropOp x y) = j_retryTimer y" for x y
    by (simp_all add: dropOp_def writeStoredJobs_def split: option.split)
  then have "j_accepted (tb_j (dismiss opId t)) = []" by (simp add: j)
  then have "fire PollJobs (dismiss opId t) = dismiss opId t\<lparr>tb_j := tb_j (dismiss opId t)\<lparr>j_pollTimer := None\<rparr>\<rparr>"
    by (simp add: on_j_def poll_fired_def Let_def)
  then show ?thesis using assms(5) by (simp add: j w slotsUsed_def)
qed

text \<open>A tab with a copy of one accepted job, and a job of another operation behind it.\<close>

definition demo_jobs :: tab where
  "demo_jobs = \<lparr>tb_s = (init_store (lit ''t'') 5000)\<lparr>
       st_op := [0 \<mapsto> (makeOp (lit ''o'') 10 demo_source Copy (lit ''d''))\<lparr>op_items := [1]\<rparr>,
                 2 \<mapsto> (makeOp (lit ''p'') 10 demo_source Copy (lit ''d''))\<lparr>op_items := [3]\<rparr>],
       st_item := [1 \<mapsto> (makeItem (lit ''i'') (lit ''a''))\<lparr>it_state := Running\<rparr>, 3 \<mapsto> makeItem (lit ''k'') (lit ''b'')],
       st_ops := [0, 2], st_next := 4\<rparr>,
     tb_u = init_uploads, tb_j = (init_jobs None)\<lparr>j_accepted := [(lit ''j'', 0, 1)], j_queue := [(2, 3)]\<rparr>, tb_q = init_requests\<rparr>"

theorem dismiss_strands_queue_witness:
  "j_queue (tb_j (dismiss (lit ''o'') demo_jobs)) = [(2, 3)] \<and> slotsUsed (tb_j (dismiss (lit ''o'') demo_jobs)) = 0"
  using dismiss_strands_queue [of "lit ''o''" demo_jobs 0 "(makeOp (lit ''o'') 10 demo_source Copy (lit ''d''))\<lparr>op_items := [1]\<rparr>"]
  by (simp add: demo_jobs_def getOp_def makeOp_def is_job_def init_jobs_def)

text \<open>Deciding on a replacement leaves the removal pending, and cancelling the item does not touch it.\<close>

lemma keeps_find:
  assumes "keeps s t"
  shows "getOp opId t = getOp opId s" "find_item oi itemId t = find_item oi itemId s" "isAlive oi t = isAlive oi s"
proof -
  have po: "map_option op_id m = map_option fst (map_option op_static m)"
    "map_option op_items m = map_option (snd \<circ> snd \<circ> snd \<circ> snd \<circ> snd \<circ> snd) (map_option op_static m)" for m :: "iref op option"
    by (simp_all add: option.map_comp o_def op_static_def)
  have pi: "map_option it_id m = map_option fst (map_option item_static m)" for m
    by (simp add: option.map_comp o_def item_static_def)
  have st: "map_option op_static (st_op t oj) = map_option op_static (st_op s oj)"
    "map_option item_static (st_item t k) = map_option item_static (st_item s k)" for oj k
    using assms by (simp_all add: keeps_def)
  have o: "map_option op_id (st_op t oj) = map_option op_id (st_op s oj)"
    "map_option op_items (st_op t oj) = map_option op_items (st_op s oj)" for oj
    by (simp_all only: po st)
  have i: "map_option it_id (st_item t k) = map_option it_id (st_item s k)" for k by (simp only: pi st)
  have k: "st_ops t = st_ops s" "st_destroyed t = st_destroyed s" using assms by (simp_all add: keeps_def)
  show "getOp opId t = getOp opId s" by (simp add: getOp_def o k)
  show "isAlive oi t = isAlive oi s" by (simp add: isAlive_def k)
  show "find_item oi itemId t = find_item oi itemId s"
    using o(2) [of oi] by (cases "st_op s oi"; cases "st_op t oi") (simp_all add: find_item_def i)
qed

lemma replace_removal:
  assumes "getOp opId (tb_s t) = Some oi" "st_op (tb_s t) oi = Some p" "is_job (op_kind p)"
    and "find_item oi itemId (tb_s t) = Some i" "item_st (tb_s t) i = Some NeedsDecision"
  shows "keeps (tb_s t) (tb_s (decide opId itemId Replace t))
    \<and> item_st (tb_s (decide opId itemId Replace t)) i = Some Submitting
    \<and> tb_j (decide opId itemId Replace t) = (tb_j t)\<lparr>j_removes := j_removes (tb_j t) @ [(st_next (tb_s t), oi, i)]\<rparr>"
proof -
  have nu: "\<not> is_upload (op_kind p)" using assms(3) by (cases "op_kind p") (simp_all add: is_upload_def is_job_def)
  obtain x where x: "st_item (tb_s t) i = Some x" using assms(5) by (auto simp: item_st_def)
  have d: "decide opId itemId Replace t = on_j (job_decide (oi, i) Replace) t"
    using assms nu by (simp add: decide_def with_op_def runner_decide_def)
  show ?thesis
    using keeps_job_decide [of "(tb_s t, tb_j t)" "(oi, i)" Replace] assms(2) x
    by (simp add: d on_j_def Let_def job_decide_def split_beta new_ref_def item_st_def)
qed

lemma cancel_pending:
  assumes "getOp opId (tb_s t) = Some oi" "st_op (tb_s t) oi = Some p" "is_job (op_kind p)" "itemId \<noteq> []"
    and "find_item oi itemId (tb_s t) = Some i" "item_st (tb_s t) i = Some Submitting"
  shows "keeps (tb_s t) (tb_s (cancel opId (Some itemId) t))
    \<and> item_st (tb_s (cancel opId (Some itemId) t)) i = Some Cancelled \<and> tb_j (cancel opId (Some itemId) t) = tb_j t"
proof -
  have nu: "\<not> is_upload (op_kind p)" using assms(3) by (cases "op_kind p") (simp_all add: is_upload_def is_job_def)
  have d: "cancel opId (Some itemId) t = on_s (settle oi) (on_s (cancelItem oi i) t)"
    using assms nu by (simp add: cancel_def with_op_def runner_cancel_item_def)
  have "item_st (cancelItem oi i (tb_s t)) i = Some Cancelled"
    using assms(6) by (auto simp: cancelItem_def item_st_def)
  moreover have "keeps (tb_s t) (settle oi (cancelItem oi i (tb_s t)))" using keeps_trans [OF keeps_cancelItem keeps_settle] .
  ultimately show ?thesis by (simp add: d on_s_def item_st_def)
qed

lemma removal_answered:
  assumes "item_st s i = Some Cancelled" "isAlive oi s" "j_queue j = []" "slotsUsed j < JOB_PARALLEL"
    and "\<not> j_stopped j" "j_blockedUntil j \<le> st_now s"
  shows "item_st (fst (remove_result (k, oi, i) (Inr ()) (s, j))) i = Some Submitting
    \<and> (\<exists>n. j_submits (snd (remove_result (k, oi, i) (Inr ()) (s, j))) = j_submits j @ [(n, oi, i)])"
proof -
  let ?s = "upd_item i (\<lambda>x. x\<lparr>it_extra_keepBoth := False, it_state := Queued\<rparr>) s"
  let ?j = "j\<lparr>j_removes := remove1 (k, oi, i) (j_removes j)\<rparr>"
  have se: "sendable ?s (oi, i)" using assms(1,2) by (auto simp: sendable_def item_st_def upd_item_def isAlive_def)
  have "job_loop (?s, ?j\<lparr>j_queue := [(oi, i)]\<rparr>) = submit (oi, i) (?s, ?j\<lparr>j_queue := []\<rparr>)"
    using se assms(4) by (subst job_loop.simps) (simp add: slotsUsed_def Let_def, subst job_loop.simps, simp add: submit_j)
  then have "remove_result (k, oi, i) (Inr ()) (s, j) = submit (oi, i) (?s, ?j\<lparr>j_queue := []\<rparr>)"
    using assms(3,5,6) by (simp add: remove_result_def job_pump_def Let_def upd_item_def)
  then show ?thesis using assms(1) by (auto simp: submit_def Let_def split_beta item_st_def upd_item_def new_ref_def)
qed

text \<open>
  Property C38: when the user answers a clash of a copy or move with Replace and cancels the item
  while the file in the way is being moved to the trash, the item is shown as cancelled, and yet the
  answer of the trash puts it back to being sent and posts the job. (Nothing else is queued, a slot is
  free, and the queue is neither stopped nor waiting for Luna's queue, so that the job goes out at once.)
\<close>

theorem cancelled_replace_is_sent:
  assumes "getOp opId (tb_s t) = Some oi" "st_op (tb_s t) oi = Some p" "is_job (op_kind p)" "itemId \<noteq> []"
    and "find_item oi itemId (tb_s t) = Some i" "item_st (tb_s t) i = Some NeedsDecision"
    and "\<not> st_destroyed (tb_s t)" "j_queue (tb_j t) = []" "slotsUsed (tb_j t) < JOB_PARALLEL"
    and "\<not> j_stopped (tb_j t)" "j_blockedUntil (tb_j t) \<le> st_now (tb_s t)"
  shows "item_st (tb_s (cancel opId (Some itemId) (decide opId itemId Replace t))) i = Some Cancelled
    \<and> (\<exists>t' n. tab_step (RemoveDone (st_next (tb_s t), oi, i) (Inr ()))
              (cancel opId (Some itemId) (decide opId itemId Replace t)) = Some t'
          \<and> item_st (tb_s t') i = Some Submitting
          \<and> j_submits (tb_j t') = j_submits (tb_j t) @ [(n, oi, i)])"
proof -
  let ?t1 = "decide opId itemId Replace t" and ?k = "st_next (tb_s t)"
  let ?t2 = "cancel opId (Some itemId) ?t1"
  note r = replace_removal [OF assms(1,2,3,5,6)]
  obtain q where q: "st_op (tb_s ?t1) oi = Some q" "op_kind q = op_kind p"
    using keeps_op_Some [OF _ assms(2)] r by (auto simp: op_static_def)
  note f = keeps_find [OF conjunct1 [OF r]]
  have c: "keeps (tb_s ?t1) (tb_s ?t2)" "item_st (tb_s ?t2) i = Some Cancelled" "tb_j ?t2 = tb_j ?t1"
    using cancel_pending [of opId ?t1 oi q itemId i] assms(1,3,4,5) q r f by simp_all
  have k: "keeps (tb_s t) (tb_s ?t2)" using keeps_trans [OF conjunct1 [OF r] c(1)] .
  have al: "isAlive oi (tb_s ?t2)"
    using keeps_find(3) [OF k] assms(1,7) by (auto simp: isAlive_def getOp_def find_Some_iff)
  have j: "tb_j ?t2 = (tb_j t)\<lparr>j_removes := j_removes (tb_j t) @ [(?k, oi, i)]\<rparr>" using c(3) r by simp
  have now: "st_now (tb_s ?t2) = st_now (tb_s t)" using k by (simp add: keeps_def)
  obtain n where n: "item_st (fst (remove_result (?k, oi, i) (Inr ()) (tb_s ?t2, tb_j ?t2))) i = Some Submitting"
      "j_submits (snd (remove_result (?k, oi, i) (Inr ()) (tb_s ?t2, tb_j ?t2))) = j_submits (tb_j t) @ [(n, oi, i)]"
    using removal_answered [OF c(2) al, of "tb_j ?t2" ?k] assms(8-11) j now by (auto simp: slotsUsed_def)
  show ?thesis
    by (intro conjI c(2) exI [of _ "on_j (remove_result (?k, oi, i) (Inr ())) ?t2"] exI [of _ n])
      (use n in \<open>simp_all add: given_def on_j_def Let_def j\<close>)
qed

text \<open>A tab with a copy whose only item asks what to do about the file in its way.\<close>

definition demo_clash :: tab where
  "demo_clash = demo_jobs\<lparr>tb_s := (tb_s demo_jobs)\<lparr>
     st_item := [1 \<mapsto> (makeItem (lit ''i'') (lit ''a''))\<lparr>it_state := NeedsDecision\<rparr>], st_ops := [0]\<rparr>,
     tb_j := init_jobs None\<rparr>"

theorem cancelled_replace_is_sent_witness:
  "item_st (tb_s (cancel (lit ''o'') (Some (lit ''i'')) (decide (lit ''o'') (lit ''i'') Replace demo_clash))) 1 = Some Cancelled
   \<and> (\<exists>t' n. tab_step (RemoveDone (4, 0, 1) (Inr ()))
          (cancel (lit ''o'') (Some (lit ''i'')) (decide (lit ''o'') (lit ''i'') Replace demo_clash)) = Some t'
        \<and> item_st (tb_s t') 1 = Some Submitting \<and> j_submits (tb_j t') = [(n, 0, 1)])"
  using cancelled_replace_is_sent [of "lit ''o''" demo_clash 0 "(makeOp (lit ''o'') 10 demo_source Copy (lit ''d''))\<lparr>op_items := [1]\<rparr>" "lit ''i''" 1]
  by (simp add: demo_clash_def demo_jobs_def getOp_def find_item_def item_st_def makeOp_def makeItem_def is_job_def init_jobs_def
      init_store_def slotsUsed_def JOB_PARALLEL_def lit_def)
end
