(* ===== verification/Access.thy ===== *)
theory Access
  imports Paths Interfaces
begin

unbundle bit_operations_syntax

text \<open>
  \<open>luna/web/src/lib/access.js\<close>: the capability vocabulary of every shareable subject. A
  capability set travels as a string (\<open>"view+upload"\<close>, \<open>"full+share"\<close>) and is compared as
  bits. The bit operators of the language work on 32-bit integers, so a set is a \<open>32 word\<close>.

  \<open>subjectQuery\<close> builds an address with the browser's \<open>URLSearchParams\<close> and is left out.
\<close>

section \<open>Capability sets\<close>

definition CAP_VIEW :: "32 word" where [js_eval]: "CAP_VIEW = 1"
definition CAP_UPLOAD :: "32 word" where [js_eval]: "CAP_UPLOAD = 2"
definition CAP_EDIT :: "32 word" where [js_eval]: "CAP_EDIT = 4"
definition CAP_RESPOND :: "32 word" where [js_eval]: "CAP_RESPOND = 8"
definition CAP_SHARE :: "32 word" where [js_eval]: "CAP_SHARE = 16"
definition CAP_FULL :: "32 word" where [js_eval]: "CAP_FULL = CAP_VIEW OR CAP_UPLOAD OR CAP_EDIT"
definition CAP_MANAGE :: "32 word" where [js_eval]: "CAP_MANAGE = CAP_FULL OR CAP_SHARE"

lemmas cap_defs = CAP_VIEW_def CAP_UPLOAD_def CAP_EDIT_def CAP_RESPOND_def CAP_SHARE_def CAP_FULL_def CAP_MANAGE_def

text \<open>A caps value is a number or a string; \<open>null\<close> and \<open>undefined\<close> read as the empty string.\<close>

datatype caps = CapsNum "32 word" | CapsText jstring

text \<open>The loop over the parts of a sum; a part that is no capability makes the whole set empty.\<close>

fun caps_parts :: "jstring list \<Rightarrow> 32 word \<Rightarrow> 32 word" where
  "caps_parts [] bits = bits"
| "caps_parts (part # parts) bits =
     (if part = lit ''view'' \<or> part = lit ''read'' then caps_parts parts (bits OR CAP_VIEW)
      else if part = lit ''upload'' then caps_parts parts (bits OR CAP_UPLOAD)
      else if part = lit ''share'' then caps_parts parts (bits OR CAP_SHARE)
      else if part = [] then caps_parts parts bits
      else 0)"

declare caps_parts.simps [js_eval]

definition plus_char :: jchar where [js_eval]: "plus_char = 43"

definition caps_text_bits :: "jstring \<Rightarrow> 32 word" where
  [js_eval]: "caps_text_bits s =
     (if s = lit ''read_write'' \<or> s = lit ''write'' then CAP_VIEW OR CAP_UPLOAD
      else if s = lit ''full'' \<or> s = lit ''edit'' then CAP_FULL
      else if s = lit ''full+share'' \<or> s = lit ''edit+share'' then CAP_MANAGE
      else if s = lit ''respond'' then CAP_RESPOND
      else if s = lit ''none'' \<or> s = [] then 0
      else caps_parts (split_on plus_char s) 0)"

fun capsBits :: "caps \<Rightarrow> 32 word" where
  "capsBits (CapsNum n) = n"
| "capsBits (CapsText s) = caps_text_bits (lower (trim s))"

declare capsBits.simps [js_eval]

definition content_name :: "32 word \<Rightarrow> jstring" where
  [js_eval]: "content_name content =
     (if content = CAP_FULL then lit ''full''
      else if content = CAP_RESPOND then lit ''respond''
      else if content = CAP_VIEW OR CAP_UPLOAD then lit ''view+upload''
      else if content = CAP_UPLOAD then lit ''upload''
      else if content = CAP_VIEW then lit ''view''
      else [])"

definition splitShareCaps :: "caps \<Rightarrow> jstring \<times> bool" where
  [js_eval]: "splitShareCaps c =
     (let bits = capsBits c in (content_name (bits AND NOT CAP_SHARE), bits AND CAP_SHARE \<noteq> 0))"

definition joinShareCaps :: "jstring \<Rightarrow> bool \<Rightarrow> jstring" where
  [js_eval]: "joinShareCaps content share =
     (if share then (if content \<noteq> [] then content else lit ''view'') @ lit ''+share'' else content)"

definition capsCover :: "caps \<Rightarrow> caps \<Rightarrow> bool" where
  [js_eval]: "capsCover mine want \<longleftrightarrow> (let m = capsBits mine; w = capsBits want in w \<noteq> 0 \<and> m AND w = w)"

definition hasCap :: "caps \<Rightarrow> 32 word \<Rightarrow> bool" where
  [js_eval]: "hasCap c b \<longleftrightarrow> capsBits c AND b \<noteq> 0"

section \<open>Subjects\<close>

record subject =
  sb_album :: bool
  sb_driveId :: jstring
  sb_path :: jstring
  sb_albumId :: jstring
  sb_isFile :: bool
  sb_isForm :: bool
  sb_name :: jstring

definition KIND_PATH :: jstring where [js_eval]: "KIND_PATH = lit ''path''"
definition KIND_ALBUM :: jstring where [js_eval]: "KIND_ALBUM = lit ''album''"

definition subjectKey :: "subject \<Rightarrow> jstring list" where
  [js_eval]: "subjectKey s = [if sb_album s then KIND_ALBUM else KIND_PATH, sb_driveId s, sb_path s, sb_albumId s]"

definition option_labels :: "subject \<Rightarrow> (jstring \<times> jstring) list" where
  [js_eval]: "option_labels s =
     (if sb_album s then [(lit ''view'', lit ''Can view''), (lit ''view+upload'', lit ''Can view + add photos'')]
      else if sb_isFile s then [(lit ''view'', lit ''Can view''), (lit ''full'', lit ''Can view + edit'')]
      else [(lit ''view'', lit ''Can view''), (lit ''upload'', lit ''Upload only''),
            (lit ''view+upload'', lit ''Can view + upload''), (lit ''full'', lit ''Can view + edit'')])"

definition capsOptions :: "subject \<Rightarrow> caps \<Rightarrow> bool \<Rightarrow> (jstring \<times> jstring) list" where
  [js_eval]: "capsOptions s myCaps forLink =
     (let mine = capsBits myCaps
      in (if forLink \<and> sb_isForm s \<and> mine AND (CAP_UPLOAD OR CAP_EDIT) \<noteq> 0
          then [(lit ''respond'', lit ''Collect answers'')] else [])
         @ filter (\<lambda>x. capsCover (CapsNum mine) (CapsText (fst x))) (option_labels s))"

definition capsLabel :: "caps \<Rightarrow> bool \<Rightarrow> jstring" where
  [js_eval]: "capsLabel c album =
     (let (content, share) = splitShareCaps c;
          base = (if content = lit ''view'' then lit ''Can view''
                  else if content = lit ''upload'' then lit ''Upload only''
                  else if content = lit ''view+upload''
                    then (if album then lit ''Can view + add photos'' else lit ''Can view + upload'')
                  else if content = lit ''full'' then lit ''Can view + edit''
                  else if content = lit ''respond'' then lit ''Collect answers''
                  else if share then lit ''Can share'' else lit ''No access'')
      in if share then base @ lit '' + share'' else base)"

definition emdash :: jchar where [js_eval]: "emdash = 0x2014"

definition capsHint :: "caps \<Rightarrow> bool \<Rightarrow> bool \<Rightarrow> bool \<Rightarrow> jstring" where
  [js_eval]: "capsHint c album isfile form =
     (let (content, share) = splitShareCaps c;
          base = (if content = lit ''view'' then
                    (if form then lit ''Opens the form and its responses.''
                     else if album then lit ''Opens the album.''
                     else if isfile then lit ''Opens and downloads the file.''
                     else lit ''Opens and downloads files.'')
                  else if content = lit ''upload'' then lit ''Uploads files without seeing anything already here.''
                  else if content = lit ''view+upload'' then
                    (if album then lit ''Opens the album and adds their own photos.''
                     else lit ''Opens files and adds new ones, but can't delete or rename.'')
                  else if content = lit ''full'' then
                    (if form then lit ''Edits the form and reads its responses.''
                     else if isfile then lit ''Opens, edits, and replaces this file.''
                     else lit ''Opens, edits, uploads, renames, moves, and deletes files.'')
                  else if content = lit ''respond'' then
                    lit ''People fill in the form '' @ [emdash] @ lit '' they never see other answers or the file itself.''
                  else []);
          tail = lit ''They can also share this with other people.''
      in if \<not> share then base else if base \<noteq> [] then base @ [space] @ tail else tail)"

section \<open>Shared rows\<close>

text \<open>A row of \<open>/me/access\<close>. The drive may be under either of two names.\<close>

record access_row =
  ar_album :: bool
  ar_drive_id :: jstring
  ar_driveId :: jstring
  ar_path :: jstring
  ar_album_id :: jstring
  ar_is_file :: bool
  ar_name :: jstring
  ar_caps :: caps

definition sharedItemHref :: "access_row \<Rightarrow> jstring option" where
  [js_eval]: "sharedItemHref row =
     (if ar_album row then
        (case encodeURIComponent (ar_drive_id row) of
           None \<Rightarrow> None
         | Some d \<Rightarrow> map_option (\<lambda>a. lit ''/gallery#albums/'' @ d @ [slash] @ a) (encodeURIComponent (ar_album_id row)))
      else folderHref (ar_drive_id row) (ar_path row))"

definition sharedItemAction :: "access_row \<Rightarrow> jstring" where
  [js_eval]: "sharedItemAction row =
     (if ar_album row then lit ''View album'' else if ar_is_file row then lit ''Open'' else lit ''Browse files'')"

definition shareSubjectFromRow :: "access_row \<Rightarrow> subject" where
  [js_eval]: "shareSubjectFromRow row =
     \<lparr>sb_album = ar_album row, sb_driveId = ar_drive_id row, sb_path = ar_path row, sb_albumId = ar_album_id row,
      sb_isFile = ar_is_file row, sb_isForm = False, sb_name = ar_name row\<rparr>"

text \<open>
  The session storage: \<^const>\<open>None\<close> when every access throws (private mode), else its entries and
  whether a write still fits.
\<close>

record session_store =
  se_items :: "jstring \<rightharpoonup> jstring"
  se_full :: bool

definition LINK_SESSION_PREFIX :: jstring where [js_eval]: "LINK_SESSION_PREFIX = lit ''luna-link-''"

definition rememberLinkUrl :: "jstring \<Rightarrow> jstring \<Rightarrow> session_store option \<Rightarrow> session_store option" where
  [js_eval]: "rememberLinkUrl linkId url st =
     (case st of
        None \<Rightarrow> None
      | Some s \<Rightarrow> if se_full s then Some s
                  else Some (s\<lparr>se_items := (se_items s)(LINK_SESSION_PREFIX @ linkId \<mapsto> url)\<rparr>))"

definition rememberedLinkUrl :: "jstring \<Rightarrow> session_store option \<Rightarrow> jstring option" where
  [js_eval]: "rememberedLinkUrl linkId st = (case st of None \<Rightarrow> None | Some s \<Rightarrow> se_items s (LINK_SESSION_PREFIX @ linkId))"

section \<open>Lemmas\<close>

lemma bits_cover_trans:
  fixes a b c :: "32 word"
  assumes "a AND b = b" "b AND c = c"
  shows "a AND c = c"
  using assms by (metis and.assoc)

lemma capsCover_trans: "capsCover a b \<Longrightarrow> capsCover b c \<Longrightarrow> capsCover a c"
  unfolding capsCover_def Let_def using bits_cover_trans by blast

lemma capsCover_refl: "capsBits c \<noteq> 0 \<Longrightarrow> capsCover c c"
  by (simp add: capsCover_def)

text \<open>The content sets that can carry the share bit, and the ones that can go without.\<close>

definition wire_caps :: "jstring \<times> bool \<Rightarrow> bool" where
  "wire_caps x \<longleftrightarrow> fst x \<in> set (map lit [''view'', ''upload'', ''view+upload'', ''full''])
     \<or> \<not> snd x \<and> fst x \<in> {lit ''respond'', []}"

lemma split_join_text:
  "splitShareCaps (CapsText (joinShareCaps (lit ''view'') True)) = (lit ''view'', True)"
  "splitShareCaps (CapsText (joinShareCaps (lit ''upload'') True)) = (lit ''upload'', True)"
  "splitShareCaps (CapsText (joinShareCaps (lit ''view+upload'') True)) = (lit ''view+upload'', True)"
  "splitShareCaps (CapsText (joinShareCaps (lit ''full'') True)) = (lit ''full'', True)"
  "splitShareCaps (CapsText (joinShareCaps (lit ''view'') False)) = (lit ''view'', False)"
  "splitShareCaps (CapsText (joinShareCaps (lit ''upload'') False)) = (lit ''upload'', False)"
  "splitShareCaps (CapsText (joinShareCaps (lit ''view+upload'') False)) = (lit ''view+upload'', False)"
  "splitShareCaps (CapsText (joinShareCaps (lit ''full'') False)) = (lit ''full'', False)"
  "splitShareCaps (CapsText (joinShareCaps (lit ''respond'') False)) = (lit ''respond'', False)"
  "splitShareCaps (CapsText (joinShareCaps [] False)) = ([], False)"
  by code_simp+

lemma split_join_caps:
  assumes "wire_caps x"
  shows "splitShareCaps (CapsText (joinShareCaps (fst x) (snd x))) = x"
  using assms by (cases x; cases "snd x") (auto simp: wire_caps_def split_join_text)

interpretation share_codec: codec "\<lambda>x. joinShareCaps (fst x) (snd x)" "\<lambda>s. Some (splitShareCaps (CapsText s))" wire_caps
  by unfold_locales (simp add: split_join_caps)

text \<open>
  A capability set survives the wire. Splitting the string that \<open>joinShareCaps\<close>
  builds gives the content and the share mark back, so no two sets share a string.
\<close>

theorem share_caps_roundtrip:
  assumes "wire_caps x" "wire_caps y"
  shows "splitShareCaps (CapsText (joinShareCaps (fst x) (snd x))) = x
    \<and> (joinShareCaps (fst x) (snd x) = joinShareCaps (fst y) (snd y) \<longrightarrow> x = y)"
  using split_join_caps [OF assms(1)] share_codec.enc_inj [OF assms] by blast

theorem share_caps_roundtrip_witness:
  "splitShareCaps (CapsText (joinShareCaps (lit ''full'') True)) = (lit ''full'', True)
   \<and> joinShareCaps (lit ''full'') True \<noteq> joinShareCaps (lit ''view'') True"
  using share_caps_roundtrip [of "(lit ''full'', True)" "(lit ''view'', True)"] by (simp add: wire_caps_def lit_def)

lemma label_text:
  "capsLabel (CapsText (lit ''respond'')) al = lit ''Collect answers''"
  "capsLabel (CapsText (lit ''view'')) al = lit ''Can view''"
  "capsLabel (CapsText (lit ''upload'')) al = lit ''Upload only''"
  "capsLabel (CapsText (lit ''full'')) al = lit ''Can view + edit''"
  "capsLabel (CapsText (lit ''view+upload'')) al = (if al then lit ''Can view + add photos'' else lit ''Can view + upload'')"
  using split_join_text(5-9) by (simp_all add: capsLabel_def joinShareCaps_def) (simp_all add: lit_def)

lemma option_bits:
  "capsBits (CapsText (lit ''view'')) = 1" "capsBits (CapsText (lit ''upload'')) = 2"
  "capsBits (CapsText (lit ''view+upload'')) = 3" "capsBits (CapsText (lit ''full'')) = 7"
  "capsBits (CapsText (lit ''respond'')) = 8"
  by code_simp+

text \<open>
  The choices a person is offered obey the subset rule. Each is offered under the label
  the rest of the screen uses for it, none carries the share right, an offer to collect answers is
  made on links to forms only, and every other one gives no more than the person holds.
\<close>

theorem capsOptions_subset_rule:
  assumes "(v, l) \<in> set (capsOptions s myCaps forLink)"
  shows "l = capsLabel (CapsText v) (sb_album s) \<and> capsBits (CapsText v) AND CAP_SHARE = 0
    \<and> (if v = lit ''respond'' then forLink \<and> sb_isForm s else capsCover myCaps (CapsText v))"
proof -
  have ne: "lit ''view'' \<noteq> lit ''respond''" "lit ''upload'' \<noteq> lit ''respond''" "lit ''view+upload'' \<noteq> lit ''respond''"
    "lit ''full'' \<noteq> lit ''respond''"
    by (simp_all add: lit_def)
  show ?thesis
    using assms ne
    by (auto simp: capsOptions_def option_labels_def Let_def label_text option_bits CAP_SHARE_def capsCover_def
        simp del: capsBits.simps(2) split: if_splits)
qed

definition demo_folder :: subject where
  "demo_folder = \<lparr>sb_album = False, sb_driveId = lit ''d'', sb_path = lit ''a'', sb_albumId = [], sb_isFile = False,
     sb_isForm = False, sb_name = []\<rparr>"

theorem capsOptions_subset_rule_witness:
  "(lit ''view+upload'', lit ''Can view + upload'') \<in> set (capsOptions demo_folder (CapsNum 3) False)
   \<and> capsCover (CapsNum 3) (CapsText (lit ''view+upload''))"
proof -
  have m: "(lit ''view+upload'', lit ''Can view + upload'') \<in> set (capsOptions demo_folder (CapsNum 3) False)"
    by (simp add: capsOptions_def option_labels_def demo_folder_def capsCover_def option_bits del: capsBits.simps(2))
  show ?thesis using capsOptions_subset_rule [OF m] m by (simp add: lit_def del: capsBits.simps(2) split: if_splits)
qed

lemma remembered_link: "\<not> se_full s \<Longrightarrow> rememberedLinkUrl k (rememberLinkUrl n url (Some s)) =
    (if k = n then Some url else rememberedLinkUrl k (Some s))"
  by (simp add: rememberedLinkUrl_def rememberLinkUrl_def)

end
