(* ===== verification/ShareTree.thy ===== *)
theory ShareTree
  imports Access
begin

unbundle bit_operations_syntax

text \<open>
  \<open>luna/web/src/lib/shareTree.js\<close>: what a member's access rows give on a path of a drive. Rows
  are the objects parsed from one answer of Luna, so two entries of a list are the same object only
  at the same index.
\<close>

section \<open>Paths as keys\<close>

definition strip_slashes :: "jstring \<Rightarrow> jstring" where
  [js_eval]: "strip_slashes s = rev (dropWhile (\<lambda>c. c = slash) (rev (dropWhile (\<lambda>c. c = slash) s)))"

definition pathKey :: "jstring \<Rightarrow> jstring" where
  [js_eval]: "pathKey s = strip_slashes (map (\<lambda>c. if c = backslash then slash else c) s)"

definition pathContains :: "jstring \<Rightarrow> jstring \<Rightarrow> bool" where
  [js_eval]: "pathContains ancestor descendant \<longleftrightarrow>
     (let parent = pathKey ancestor; child = pathKey descendant
      in parent = child \<or> parent = [] \<or> starts_with child (parent @ [slash]))"

definition driveIdOf :: "access_row \<Rightarrow> jstring" where
  [js_eval]: "driveIdOf row = (if ar_drive_id row \<noteq> [] then ar_drive_id row else ar_driveId row)"

definition capsGe :: "caps \<Rightarrow> caps \<Rightarrow> bool" where
  [js_eval]: "capsGe parent child \<longleftrightarrow> (let p = capsBits parent; c = capsBits child in c \<noteq> 0 \<and> p AND c = c)"

section \<open>Roots of a member\<close>

text \<open>\<open>rowCovers\<close> for two different objects; the source's first test is the index test of \<open>memberAccessRoots\<close>.\<close>

definition rowCovers :: "access_row \<Rightarrow> access_row \<Rightarrow> bool" where
  [js_eval]: "rowCovers parent row \<longleftrightarrow>
     driveIdOf parent = driveIdOf row \<and> capsGe (ar_caps parent) (ar_caps row)
     \<and> (if ar_album row \<or> ar_album parent
        then ar_album row \<and> ar_album parent \<and> ar_album_id row = ar_album_id parent
        else pathContains (ar_path parent) (ar_path row))"

definition is_root :: "access_row list \<Rightarrow> nat \<Rightarrow> bool" where
  [js_eval]: "is_root rows i \<longleftrightarrow> \<not> list_ex (\<lambda>k. k \<noteq> i \<and> rowCovers (rows ! k) (rows ! i)) [0 ..< length rows]"

definition memberAccessRoots :: "access_row list \<Rightarrow> access_row list" where
  [js_eval]: "memberAccessRoots rows = map (\<lambda>i. rows ! i) (filter (is_root rows) [0 ..< length rows])"

section \<open>Rights on a path\<close>

definition capsOnPath :: "access_row list \<Rightarrow> jstring \<Rightarrow> jstring \<Rightarrow> 32 word" where
  [js_eval]: "capsOnPath rows driveId path =
     foldl (\<lambda>bits row. if \<not> ar_album row \<and> driveIdOf row = driveId \<and> pathContains (ar_path row) (pathKey path)
                     then bits OR capsBits (ar_caps row) else bits) 0 rows"

definition hasCapOnDrive :: "access_row list \<Rightarrow> jstring \<Rightarrow> 32 word \<Rightarrow> bool" where
  [js_eval]: "hasCapOnDrive rows driveId b \<longleftrightarrow>
     list_ex (\<lambda>row. \<not> ar_album row \<and> driveIdOf row = driveId \<and> capsBits (ar_caps row) AND b \<noteq> 0) rows"

definition segmentCount :: "jstring \<Rightarrow> nat" where
  [js_eval]: "segmentCount path = (if path \<noteq> [] then length (split_on slash path) else 0)"

text \<open>The loop of \<open>memberPathFloor\<close> carries the best grant so far and whether the drive has a row at all.\<close>

definition floor_row :: "jstring \<Rightarrow> access_row \<Rightarrow> bool" where
  [js_eval]: "floor_row driveId row \<longleftrightarrow> \<not> ar_album row \<and> driveIdOf row = driveId \<and> capsBits (ar_caps row) \<noteq> 0"

definition floor_step :: "jstring \<Rightarrow> jstring \<Rightarrow> jstring option \<times> bool \<Rightarrow> access_row \<Rightarrow> jstring option \<times> bool" where
  [js_eval]: "floor_step driveId target st row =
     (if \<not> floor_row driveId row then st
      else
        (let grant = pathKey (ar_path row)
         in if \<not> pathContains grant target then (fst st, True)
            else (case fst st of
                    None \<Rightarrow> (Some grant, True)
                  | Some f \<Rightarrow> (Some (if segmentCount grant < segmentCount f then grant else f), True))))"

definition memberPathFloor :: "access_row list \<Rightarrow> jstring \<Rightarrow> jstring \<Rightarrow> jstring" where
  [js_eval]: "memberPathFloor rows driveId path =
     (let target = pathKey path; st = foldl (floor_step driveId target) (None, False) rows
      in case fst st of Some f \<Rightarrow> f | None \<Rightarrow> if snd st then target else [])"

section \<open>Destinations\<close>

record writable_root =
  wr_drive :: jstring
  wr_path :: jstring
  wr_label :: jstring

definition writable_row :: "(jstring \<Rightarrow> bool) \<Rightarrow> access_row \<Rightarrow> bool" where
  [js_eval]: "writable_row isPresent row \<longleftrightarrow> \<not> ar_album row \<and> \<not> ar_is_file row
     \<and> driveIdOf row \<noteq> [] \<and> isPresent (driveIdOf row) \<and> capsBits (ar_caps row) AND (CAP_UPLOAD OR CAP_EDIT) \<noteq> 0"

definition root_key :: "access_row \<Rightarrow> jstring" where
  [js_eval]: "root_key row = driveIdOf row @ [colon] @ pathKey (ar_path row)"

definition root_label :: "(jstring \<Rightarrow> jstring) \<Rightarrow> access_row \<Rightarrow> jstring" where
  [js_eval]: "root_label driveLabel row =
     (let path = pathKey (ar_path row)
      in if ar_name row \<noteq> [] then ar_name row
         else if path \<noteq> [] \<and> last (split_on slash path) \<noteq> [] then last (split_on slash path)
         else if driveLabel (driveIdOf row) \<noteq> [] then driveLabel (driveIdOf row)
         else lit ''Shared folder'')"

fun writable_loop :: "(jstring \<Rightarrow> bool) \<Rightarrow> (jstring \<Rightarrow> jstring) \<Rightarrow> jstring list \<Rightarrow> access_row list \<Rightarrow> writable_root list" where
  "writable_loop isPresent driveLabel seen [] = []"
| "writable_loop isPresent driveLabel seen (row # rows) =
     (if writable_row isPresent row \<and> root_key row \<notin> set seen
      then \<lparr>wr_drive = driveIdOf row, wr_path = pathKey (ar_path row), wr_label = root_label driveLabel row\<rparr>
             # writable_loop isPresent driveLabel (root_key row # seen) rows
      else writable_loop isPresent driveLabel seen rows)"

declare writable_loop.simps [js_eval]

definition memberWritableRoots :: "access_row list \<Rightarrow> (jstring \<Rightarrow> bool) \<Rightarrow> (jstring \<Rightarrow> jstring) \<Rightarrow> writable_root list" where
  [js_eval]: "memberWritableRoots rows isPresent driveLabel = writable_loop isPresent driveLabel [] rows"

section \<open>Addresses\<close>

definition memberFileHref :: "access_row list \<Rightarrow> jstring \<Rightarrow> jstring \<Rightarrow> jstring option" where
  [js_eval]: "memberFileHref rows driveId filePath =
     (let parent = (case parentPath filePath of None \<Rightarrow> [] | Some p \<Rightarrow> p)
      in if capsOnPath rows driveId parent AND CAP_VIEW \<noteq> 0 then fileHref driveId filePath
         else (case folderHref driveId filePath of
                 None \<Rightarrow> None
               | Some h \<Rightarrow> map_option (\<lambda>e. h @ lit ''&file='' @ e) (encodeURIComponent filePath)))"

definition memberSearchHref :: "access_row list \<Rightarrow> search_item \<Rightarrow> jstring option" where
  [js_eval]: "memberSearchHref rows item =
     (if si_dir item then searchResultHref item
      else
        (let parent = (case si_parent item of
                         Some p \<Rightarrow> p
                       | None \<Rightarrow> (case parentPath (si_path item) of None \<Rightarrow> [] | Some p \<Rightarrow> p))
         in if capsOnPath rows (si_drive item) parent AND CAP_VIEW \<noteq> 0 then searchResultHref item
            else memberFileHref rows (si_drive item) (si_path item)))"

section \<open>Path keys\<close>

definition clean_path :: "jstring \<Rightarrow> bool" where
  "clean_path s \<longleftrightarrow> backslash \<notin> set s \<and> (s = [] \<or> hd s \<noteq> slash \<and> last s \<noteq> slash)"

lemma strip_slashes_ends: "strip_slashes s = [] \<or> hd (strip_slashes s) \<noteq> slash \<and> last (strip_slashes s) \<noteq> slash"
proof -
  let ?P = "\<lambda>c. c = slash"
  let ?d = "dropWhile ?P s"
  show ?thesis
  proof (cases "strip_slashes s = []")
    case False
    have l: "last (strip_slashes s) \<noteq> slash"
      using False hd_dropWhile [of ?P "rev ?d"] by (simp add: strip_slashes_def last_rev del: dropWhile_eq_Nil_conv)
    have "?d \<noteq> []" using False by (metis dropWhile.simps(1) rev.simps(1) strip_slashes_def)
    then have h: "hd ?d \<noteq> slash" using hd_dropWhile [of ?P s] by (metis dropWhile_eq_Nil_conv)
    have "?d = strip_slashes s @ rev (takeWhile ?P (rev ?d))"
      unfolding strip_slashes_def by (metis rev_append rev_rev_ident takeWhile_dropWhile_id)
    then have "hd (strip_slashes s) = hd ?d" using False by (metis hd_append2)
    then show ?thesis using h l by simp
  qed simp
qed

lemma strip_slashes_id: "s = [] \<or> hd s \<noteq> slash \<and> last s \<noteq> slash \<Longrightarrow> strip_slashes s = s"
proof -
  assume s: "s = [] \<or> hd s \<noteq> slash \<and> last s \<noteq> slash"
  have "dropWhile (\<lambda>c. c = slash) s = s" using s by (cases s) auto
  moreover have "dropWhile (\<lambda>c. c = slash) (rev s) = rev s" using s by (cases s rule: rev_cases) auto
  ultimately show ?thesis by (simp add: strip_slashes_def)
qed

lemma pathKey_clean: "clean_path (pathKey s)"
proof -
  have "set (strip_slashes t) \<subseteq> set t" for t
    unfolding strip_slashes_def by (auto dest!: set_dropWhileD)
  moreover have "backslash \<notin> set (map (\<lambda>c. if c = backslash then slash else c) s)" by auto
  ultimately have "backslash \<notin> set (pathKey s)" unfolding pathKey_def by blast
  then show ?thesis using strip_slashes_ends by (simp add: clean_path_def pathKey_def)
qed

lemma pathKey_id: "clean_path s \<Longrightarrow> pathKey s = s"
proof -
  assume c: "clean_path s"
  then have "map (\<lambda>c. if c = backslash then slash else c) s = s" by (intro map_idI) (auto simp: clean_path_def)
  then show ?thesis using c by (simp add: pathKey_def clean_path_def strip_slashes_id)
qed

lemma pathKey_idem [simp]: "pathKey (pathKey s) = pathKey s"
  by (rule pathKey_id [OF pathKey_clean])

lemma pathContains_key [simp]: "pathContains (pathKey a) b = pathContains a b" "pathContains a (pathKey b) = pathContains a b"
  by (simp_all add: pathContains_def)

lemma pathContains_refl [simp]: "pathContains a a"
  by (simp add: pathContains_def)

lemma pathContains_trans: "pathContains a b \<Longrightarrow> pathContains b c \<Longrightarrow> pathContains a c"
  by (auto simp: pathContains_def Let_def starts_with_iff) metis

lemma pathContains_antisym: "pathContains a b \<Longrightarrow> pathContains b a \<Longrightarrow> pathKey a = pathKey b"
  by (auto simp: pathContains_def Let_def starts_with_iff)

section \<open>Covering rows\<close>

lemma capsGe_trans: "capsGe a b \<Longrightarrow> capsGe b c \<Longrightarrow> capsGe a c"
  unfolding capsGe_def Let_def using bits_cover_trans by blast

lemma rowCovers_trans: "rowCovers a b \<Longrightarrow> rowCovers b c \<Longrightarrow> rowCovers a c"
  unfolding rowCovers_def using capsGe_trans pathContains_trans by (metis (no_types, lifting))

definition coverers :: "access_row list \<Rightarrow> nat \<Rightarrow> nat set" where
  "coverers rows i = {k. k < length rows \<and> k \<noteq> i \<and> rowCovers (rows ! k) (rows ! i)}"

lemma is_root_iff: "is_root rows i \<longleftrightarrow> coverers rows i = {}"
  by (auto simp: is_root_def coverers_def list_ex_iff)

definition no_mutual :: "access_row list \<Rightarrow> bool" where
  "no_mutual rows \<longleftrightarrow> (\<forall>i < length rows. \<forall>k < length rows. rowCovers (rows ! i) (rows ! k) \<longrightarrow> rowCovers (rows ! k) (rows ! i) \<longrightarrow> i = k)"

lemma coverers_shrink:
  assumes "no_mutual rows" "i < length rows" "k \<in> coverers rows i"
  shows "coverers rows k \<subset> coverers rows i"
proof -
  have k: "k < length rows" "k \<noteq> i" "rowCovers (rows ! k) (rows ! i)" using assms(3) by (auto simp: coverers_def)
  have "m \<in> coverers rows i" if "m \<in> coverers rows k" for m
  proof -
    have m: "m < length rows" "m \<noteq> k" "rowCovers (rows ! m) (rows ! k)" using that by (auto simp: coverers_def)
    have "m \<noteq> i" using assms(1,2) k m by (auto simp: no_mutual_def)
    then show ?thesis using m k rowCovers_trans [OF m(3) k(3)] by (simp add: coverers_def)
  qed
  moreover have "k \<notin> coverers rows k" by (simp add: coverers_def)
  ultimately show ?thesis using assms(3) by blast
qed

lemma root_above:
  assumes "no_mutual rows" "i < length rows"
  shows "\<exists>r < length rows. is_root rows r \<and> (r = i \<or> rowCovers (rows ! r) (rows ! i))"
  using assms(2)
proof (induction "card (coverers rows i)" arbitrary: i rule: less_induct)
  case less
  show ?case
  proof (cases "coverers rows i = {}")
    case True
    then show ?thesis using less.prems by (auto simp: is_root_iff)
  next
    case False
    then obtain k where k: "k \<in> coverers rows i" by blast
    have fin: "finite (coverers rows i)" by (rule finite_subset [of _ "{..< length rows}"]) (auto simp: coverers_def)
    have "card (coverers rows k) < card (coverers rows i)"
      by (rule psubset_card_mono [OF fin coverers_shrink [OF assms(1) less.prems k]])
    then obtain r where r: "r < length rows" "is_root rows r" "r = k \<or> rowCovers (rows ! r) (rows ! k)"
      using less.hyps k by (auto simp: coverers_def)
    then show ?thesis using k rowCovers_trans by (auto simp: coverers_def)
  qed
qed

text \<open>
  The roots shown to a member lose nothing. When no two rows cover each other, every
  row is a root or is covered, with all its rights, by a root.
\<close>

theorem member_roots_cover:
  assumes "no_mutual rows" "row \<in> set rows"
  shows "\<exists>r. r \<in> set (memberAccessRoots rows) \<and> (r = row \<or> rowCovers r row)"
proof -
  obtain i where i: "i < length rows" "row = rows ! i" using assms(2) by (auto simp: in_set_conv_nth)
  then obtain r where "r < length rows" "is_root rows r" "r = i \<or> rowCovers (rows ! r) (rows ! i)"
    using root_above [OF assms(1)] by blast
  then show ?thesis using i by (intro exI [of _ "rows ! r"]) (auto simp: memberAccessRoots_def)
qed

definition demo_row :: "jstring \<Rightarrow> 32 word \<Rightarrow> access_row" where
  "demo_row path n = \<lparr>ar_album = False, ar_drive_id = lit ''d'', ar_driveId = [], ar_path = path, ar_album_id = [],
     ar_is_file = False, ar_name = [], ar_caps = CapsNum n\<rparr>"

theorem member_roots_cover_witness:
  "\<exists>r. r \<in> set (memberAccessRoots [demo_row (lit ''a'') 7, demo_row (lit ''a/b'') 1])
     \<and> (r = demo_row (lit ''a/b'') 1 \<or> rowCovers r (demo_row (lit ''a/b'') 1))"
proof -
  have "rowCovers (demo_row (lit ''a/b'') 1) (demo_row (lit ''a'') 7) = False" by code_simp
  then have "no_mutual [demo_row (lit ''a'') 7, demo_row (lit ''a/b'') 1]"
    by (auto simp: no_mutual_def less_Suc_eq nth_Cons')
  from member_roots_cover [OF this, of "demo_row (lit ''a/b'') 1"] show ?thesis by simp
qed

text \<open>
  Two rows that give the same rights on the same folder cover each other, and then
  neither is shown.
\<close>

theorem mutual_rows_vanish:
  assumes "rowCovers a b" "rowCovers b a"
  shows "memberAccessRoots [a, b] = []"
  using assms by (simp add: memberAccessRoots_def is_root_def)

theorem mutual_rows_vanish_witness:
  "memberAccessRoots [demo_row (lit ''a'') 1, demo_row (lit ''/a/'') 1] = []"
proof -
  have "rowCovers (demo_row (lit ''a'') 1) (demo_row (lit ''/a/'') 1)" "rowCovers (demo_row (lit ''/a/'') 1) (demo_row (lit ''a'') 1)"
    by code_simp+
  then show ?thesis by (rule mutual_rows_vanish)
qed

section \<open>Inherited rights\<close>

definition row_applies :: "jstring \<Rightarrow> jstring \<Rightarrow> access_row \<Rightarrow> bool" where
  "row_applies driveId path row \<longleftrightarrow> \<not> ar_album row \<and> driveIdOf row = driveId \<and> pathContains (ar_path row) path"

lemma fold_or_bit:
  "bit (foldl (\<lambda>b row. if P row then b OR capsBits (ar_caps row) else b) z rows) n \<longleftrightarrow>
     bit z n \<or> (\<exists>row \<in> set rows. P row \<and> bit (capsBits (ar_caps row)) n)"
  by (induction rows arbitrary: z) (auto simp: bit_or_iff)

lemma capsOnPath_bit:
  "bit (capsOnPath rows d p) n \<longleftrightarrow> (\<exists>row \<in> set rows. row_applies d p row \<and> bit (capsBits (ar_caps row)) n)"
  unfolding capsOnPath_def by (subst fold_or_bit) (simp add: row_applies_def)

text \<open>
  Rights are inherited. What a member may do on a folder they may do on everything in
  it, and a right on a path comes from a row on that path or above it.
\<close>

theorem caps_inherited:
  assumes "pathContains p q"
  shows "capsOnPath rows d p AND capsOnPath rows d q = capsOnPath rows d p"
proof (rule bit_eqI)
  fix n
  have "row_applies d q row" if "row_applies d p row" for row
    using that pathContains_trans [OF _ assms] by (auto simp: row_applies_def)
  then show "bit (capsOnPath rows d p AND capsOnPath rows d q) n = bit (capsOnPath rows d p) n"
    by (auto simp: bit_and_iff capsOnPath_bit)
qed

theorem caps_inherited_witness:
  "capsOnPath [demo_row (lit ''a'') 3] (lit ''d'') (lit ''a'') AND capsOnPath [demo_row (lit ''a'') 3] (lit ''d'') (lit ''a/b'') = 3"
proof -
  have "pathContains (lit ''a'') (lit ''a/b'')" "capsOnPath [demo_row (lit ''a'') 3] (lit ''d'') (lit ''a'') = 3" by code_simp+
  then show ?thesis using caps_inherited [of "lit ''a''" "lit ''a/b''" "[demo_row (lit ''a'') 3]" "lit ''d''"] by simp
qed

section \<open>The top of a member's world\<close>

lemma length_split_on: "length (split_on d s) = Suc (count_list s d)"
proof (induction s)
  case (Cons c cs)
  obtain x xs where "split_on d cs = x # xs" by (cases "split_on d cs") auto
  then show ?case using Cons by auto
qed simp

lemma segmentCount_child: "segmentCount p < segmentCount (p @ slash # u)"
  by (auto simp: segmentCount_def length_split_on)

lemma boundary_prefixes:
  assumes "p @ slash # u = q @ slash # w"
  shows "p = q \<or> (\<exists>v. q = p @ slash # v) \<or> (\<exists>v. p = q @ slash # v)"
proof -
  obtain r where r: "(p = q @ r \<and> r @ slash # u = slash # w) \<or> (p @ r = q \<and> slash # u = r @ slash # w)"
    using assms unfolding append_eq_append_conv2 by blast
  show ?thesis using r by (cases r) auto
qed

text \<open>Two folders that contain the same path: the one with fewer segments contains the other.\<close>

lemma shallower_contains:
  assumes "pathContains p t" "pathContains q t" "segmentCount (pathKey p) \<le> segmentCount (pathKey q)"
  shows "pathContains p q"
proof -
  let ?p = "pathKey p" and ?q = "pathKey q" and ?t = "pathKey t"
  have c: "?p = ?t \<or> ?p = [] \<or> (\<exists>u. ?t = ?p @ slash # u)" "?q = ?t \<or> ?q = [] \<or> (\<exists>u. ?t = ?q @ slash # u)"
    using assms(1,2) by (auto simp: pathContains_def Let_def starts_with_iff)
  have "?p = ?q \<or> ?p = [] \<or> (\<exists>u. ?q = ?p @ slash # u) \<or> (\<exists>u. ?p = ?q @ slash # u) \<or> ?q = []"
    using c boundary_prefixes [of ?p _ ?q] by metis
  then show ?thesis
  proof (elim disjE exE)
    fix u assume "?p = ?q @ slash # u"
    then show ?thesis using segmentCount_child [of ?q u] assms(3) by simp
  next
    assume q: "?q = []"
    then have "segmentCount ?p = 0" using assms(3) by (simp add: segmentCount_def)
    then have "?p = []" by (simp add: segmentCount_def split: if_splits)
    then show ?thesis by (simp add: pathContains_def)
  qed (auto simp: pathContains_def Let_def starts_with_iff)
qed

definition floor_grants :: "access_row list \<Rightarrow> jstring \<Rightarrow> jstring \<Rightarrow> jstring list" where
  "floor_grants rows driveId path =
     map (\<lambda>row. pathKey (ar_path row)) (filter (\<lambda>row. floor_row driveId row \<and> pathContains (ar_path row) path) rows)"

lemma floor_loop:
  assumes "fst st = None \<or> (\<exists>f. fst st = Some f)"
  shows "case fst (foldl (floor_step d (pathKey path)) st rows) of
      None \<Rightarrow> fst st = None \<and> floor_grants rows d path = []
    | Some f \<Rightarrow> (f \<in> set (floor_grants rows d path) \<or> fst st = Some f)
        \<and> (\<forall>g. g \<in> set (floor_grants rows d path) \<or> fst st = Some g \<longrightarrow> segmentCount f \<le> segmentCount g)"
  using assms
proof (induction rows arbitrary: st)
  case Nil
  then show ?case by (auto simp: floor_grants_def split: option.split)
next
  case (Cons row rows)
  let ?st = "floor_step d (pathKey path) st row"
  let ?r = "fst (foldl (floor_step d (pathKey path)) ?st rows)"
  have IH: "case ?r of
      None \<Rightarrow> fst ?st = None \<and> floor_grants rows d path = []
    | Some f \<Rightarrow> (f \<in> set (floor_grants rows d path) \<or> fst ?st = Some f)
        \<and> (\<forall>g. g \<in> set (floor_grants rows d path) \<or> fst ?st = Some g \<longrightarrow> segmentCount f \<le> segmentCount g)"
    by (rule Cons.IH) auto
  let ?g = "pathKey (ar_path row)"
  have g: "floor_grants (row # rows) d path =
      (if floor_row d row \<and> pathContains (ar_path row) path then ?g # floor_grants rows d path else floor_grants rows d path)"
    by (simp add: floor_grants_def)
  show ?case
  proof (cases "floor_row d row \<and> pathContains (ar_path row) path")
    case False
    then have "fst ?st = fst st" by (auto simp: floor_step_def Let_def)
    then show ?thesis using IH g False by (auto split: option.splits)
  next
    case True
    then have st: "fst ?st = Some (case fst st of None \<Rightarrow> ?g | Some f \<Rightarrow> if segmentCount ?g < segmentCount f then ?g else f)"
      by (auto simp: floor_step_def Let_def split: option.split)
    obtain f where f: "?r = Some f" using IH st by (cases ?r) auto
    let ?m = "case fst st of None \<Rightarrow> ?g | Some f \<Rightarrow> if segmentCount ?g < segmentCount f then ?g else f"
    have m: "segmentCount ?m \<le> segmentCount ?g" "fst st = Some h \<Longrightarrow> segmentCount ?m \<le> segmentCount h"
      "?m = ?g \<or> fst st = Some ?m" for h
      by (auto split: option.split)
    have fm: "segmentCount f \<le> segmentCount ?m" and
      fs: "f \<in> set (floor_grants rows d path) \<or> f = ?m" and
      fg: "g \<in> set (floor_grants rows d path) \<Longrightarrow> segmentCount f \<le> segmentCount g" for g
      using IH f st by auto
    have "f \<in> set (floor_grants (row # rows) d path) \<or> fst st = Some f" using fs m(3) True g by auto
    moreover have "segmentCount f \<le> segmentCount h" if "h \<in> set (floor_grants (row # rows) d path) \<or> fst st = Some h" for h
      using that fg fm m(1,2) True g by fastforce
    ultimately show ?thesis using f by auto
  qed
qed

text \<open>
  Property C21: the virtual root of a member is the highest grant that reaches the path: it is one of
  their grants, it contains the path, and every other grant that contains the path lies inside it.
\<close>

theorem path_floor_highest:
  assumes "g \<in> set (floor_grants rows d path)"
  shows "memberPathFloor rows d path \<in> set (floor_grants rows d path)
    \<and> pathContains (memberPathFloor rows d path) path \<and> pathContains (memberPathFloor rows d path) g"
proof -
  let ?r = "fst (foldl (floor_step d (pathKey path)) (None, False) rows)"
  have l: "case ?r of None \<Rightarrow> floor_grants rows d path = []
    | Some f \<Rightarrow> f \<in> set (floor_grants rows d path) \<and> (\<forall>g. g \<in> set (floor_grants rows d path) \<longrightarrow> segmentCount f \<le> segmentCount g)"
    using floor_loop [where st = "(None, False)" and d = d and path = path and rows = rows] by (auto split: option.splits)
  then obtain f where f: "?r = Some f" using assms by (cases ?r) auto
  then have m: "memberPathFloor rows d path = f" by (simp add: memberPathFloor_def Let_def)
  have c: "pathContains h path" "pathKey h = h" if "h \<in> set (floor_grants rows d path)" for h
    using that by (auto simp: floor_grants_def)
  have "f \<in> set (floor_grants rows d path)" "segmentCount f \<le> segmentCount g" using l f assms by auto
  then show ?thesis using m c [OF assms] c shallower_contains [of f path g] by simp
qed

theorem path_floor_highest_witness:
  "memberPathFloor [demo_row (lit ''a/b'') 1, demo_row (lit ''a'') 1] (lit ''d'') (lit ''a/b/c'') = lit ''a''
   \<and> pathContains (memberPathFloor [demo_row (lit ''a/b'') 1, demo_row (lit ''a'') 1] (lit ''d'') (lit ''a/b/c'')) (lit ''a/b'')"
proof -
  have g: "lit ''a/b'' \<in> set (floor_grants [demo_row (lit ''a/b'') 1, demo_row (lit ''a'') 1] (lit ''d'') (lit ''a/b/c''))"
    and m: "memberPathFloor [demo_row (lit ''a/b'') 1, demo_row (lit ''a'') 1] (lit ''d'') (lit ''a/b/c'') = lit ''a''"
    by code_simp+
  show ?thesis using path_floor_highest [OF g] m by simp
qed

section \<open>Destinations\<close>

definition wr_key :: "writable_root \<Rightarrow> jstring" where
  "wr_key w = wr_drive w @ [colon] @ wr_path w"

text \<open>
  The destinations a member is offered are exactly the folders they may write to on a
  present drive, each once.
\<close>

theorem writable_roots_exact:
  "distinct (map wr_key (memberWritableRoots rows isPresent driveLabel))
   \<and> set (map wr_key (memberWritableRoots rows isPresent driveLabel)) = root_key ` set (filter (writable_row isPresent) rows)"
proof -
  have "distinct (map wr_key (writable_loop isPresent driveLabel seen rows))
     \<and> set (map wr_key (writable_loop isPresent driveLabel seen rows)) = root_key ` set (filter (writable_row isPresent) rows) - set seen" for seen
    by (induction rows arbitrary: seen) (auto simp: wr_key_def root_key_def)
  then show ?thesis by (simp add: memberWritableRoots_def)
qed

end
