(* ===== verification/JsValues.thy ===== *)
theory JsValues
  imports JsPrelude
begin

text \<open>
  Values that come out of \<open>JSON.parse\<close>, and what the sources do with them: reading and setting a
  property, \<open>Number(v)\<close>, and the time stamp of \<open>Date.prototype.toISOString\<close>.

  \<^item> A number is a double: a rational, an infinity (a literal such as \<open>1e999\<close> parses to one) or
    \<open>NaN\<close>. The two zeros are not told apart, and numbers below the normal range keep 53 bits.
  \<^item> An object is its list of own properties in order, with distinct keys; setting a property
    changes it in place or appends it.
  \<^item> A missing property is \<^const>\<open>None\<close>, that is \<open>undefined\<close>.
\<close>

section \<open>Numbers\<close>

datatype jnum = Fin rat | PosInf | NegInf | NaN

definition neg_num :: "jnum \<Rightarrow> jnum" where
  [js_eval]: "neg_num n = (case n of Fin x \<Rightarrow> Fin (- x) | PosInf \<Rightarrow> NegInf | NegInf \<Rightarrow> PosInf | NaN \<Rightarrow> NaN)"

definition is_finite :: "jnum \<Rightarrow> bool" where
  [js_eval]: "is_finite n = (case n of Fin x \<Rightarrow> True | _ \<Rightarrow> False)"

text \<open>An exact value as the nearest double; from \<open>2 ^ 1024\<close> on it is infinite.\<close>

definition to_double :: "rat \<Rightarrow> jnum" where
  [js_eval]: "to_double x =
     (let y = (if x < 0 then - js_fl (- x) else js_fl x)
      in if 2 ^ 1024 \<le> y then PosInf else if y \<le> - (2 ^ 1024) then NegInf else Fin y)"

definition times_num :: "jnum \<Rightarrow> rat \<Rightarrow> jnum" where
  [js_eval]: "times_num n k = (case n of Fin x \<Rightarrow> to_double (x * k) | m \<Rightarrow> m)"

definition digits_value :: "nat \<Rightarrow> jstring \<Rightarrow> nat" where
  [js_eval]: "digits_value base s =
     foldl (\<lambda>n c. base * n + (if js_digit c then unat c - 48 else (unat c mod 32) + 9)) 0 s"

text \<open>The exponent part of a decimal literal, possibly empty; \<^const>\<open>None\<close> when it is malformed.\<close>

definition exponent :: "jstring \<Rightarrow> int option" where
  [js_eval]: "exponent s =
     (case s of
        [] \<Rightarrow> Some 0
      | e # r \<Rightarrow>
          if e = 101 \<or> e = 69 then
            (let neg = (r \<noteq> [] \<and> hd r = dash); ds = (if r \<noteq> [] \<and> (hd r = dash \<or> hd r = 43) then tl r else r)
             in if ds \<noteq> [] \<and> list_all js_digit ds
                then Some (if neg then - int (digits_value 10 ds) else int (digits_value 10 ds)) else None)
          else None)"

definition decimal :: "jstring \<Rightarrow> jnum" where
  [js_eval]: "decimal s =
     (let ip = takeWhile js_digit s; r = dropWhile js_digit s;
          fp = (if r \<noteq> [] \<and> hd r = dot then takeWhile js_digit (tl r) else []);
          r' = (if r \<noteq> [] \<and> hd r = dot then dropWhile js_digit (tl r) else r)
      in if ip @ fp = [] then NaN
         else (case exponent r' of
                 None \<Rightarrow> NaN
               | Some e \<Rightarrow> to_double (of_nat (digits_value 10 (ip @ fp)) * power_int 10 (e - int (length fp)))))"

definition base_digit :: "nat \<Rightarrow> jchar \<Rightarrow> bool" where
  [js_eval]: "base_digit base c \<longleftrightarrow> (js_digit c \<and> unat c - 48 < base)
     \<or> (base = 16 \<and> ((65 \<le> c \<and> c \<le> 70) \<or> (97 \<le> c \<and> c \<le> 102)))"

definition prefixed :: "jstring \<Rightarrow> nat option" where
  [js_eval]: "prefixed s =
     (let p = lower (take 2 s)
      in if p = lit ''0x'' then Some 16 else if p = lit ''0o'' then Some 8 else if p = lit ''0b'' then Some 2 else None)"

text \<open>\<open>Number(s)\<close> for a string.\<close>

definition str_number :: "jstring \<Rightarrow> jnum" where
  [js_eval]: "str_number str =
     (let s = trim str;
          body = (if s \<noteq> [] \<and> (hd s = dash \<or> hd s = 43) then tl s else s);
          sign = (if s \<noteq> [] \<and> hd s = dash then neg_num else (\<lambda>n. n))
      in if s = [] then Fin 0
         else (case prefixed s of
                 Some b \<Rightarrow> (if drop 2 s \<noteq> [] \<and> list_all (base_digit b) (drop 2 s)
                            then to_double (of_nat (digits_value b (drop 2 s))) else NaN)
               | None \<Rightarrow> if body = lit ''Infinity'' then sign PosInf else sign (decimal body)))"

section \<open>Values\<close>

datatype json =
    JNull
  | JBool bool
  | JNum jnum
  | JStr jstring
  | JArr "json list"
  | JObj "(jstring \<times> json) list"

type_synonym jobject = "(jstring \<times> json) list"

definition isObject :: "json \<Rightarrow> bool" where
  [js_eval]: "isObject v = (case v of JObj _ \<Rightarrow> True | _ \<Rightarrow> False)"

definition is_string :: "json option \<Rightarrow> bool" where
  [js_eval]: "is_string v = (case v of Some (JStr _) \<Rightarrow> True | _ \<Rightarrow> False)"

text \<open>\<open>v.key\<close> for a value that is not \<open>null\<close>; only objects have the properties the sources read.\<close>

definition get_prop :: "json \<Rightarrow> jstring \<Rightarrow> json option" where
  [js_eval]: "get_prop v key = (case v of JObj ps \<Rightarrow> map_of ps key | _ \<Rightarrow> None)"

fun obj_set :: "jstring \<Rightarrow> json \<Rightarrow> jobject \<Rightarrow> jobject" where
  "obj_set key v [] = [(key, v)]"
| "obj_set key v ((k, w) # ps) = (if k = key then (key, v) # ps else (k, w) # obj_set key v ps)"

declare obj_set.simps [js_eval]

text \<open>
  \<open>Number(v)\<close>. An array is first joined to a string: one element is read as that element prints, and
  two or more leave a comma, which no number has.
\<close>

fun js_number :: "json \<Rightarrow> jnum" where
  "js_number JNull = Fin 0"
| "js_number (JBool b) = Fin (if b then 1 else 0)"
| "js_number (JNum n) = n"
| "js_number (JStr s) = str_number s"
| "js_number (JObj ps) = NaN"
| "js_number (JArr []) = Fin 0"
| "js_number (JArr [JNull]) = Fin 0"
| "js_number (JArr [JBool b]) = NaN"
| "js_number (JArr [JNum n]) = n"
| "js_number (JArr [JStr s]) = str_number s"
| "js_number (JArr [JObj ps]) = NaN"
| "js_number (JArr [JArr vs]) = js_number (JArr vs)"
| "js_number (JArr (v # w # vs)) = NaN"

declare js_number.simps [js_eval]

definition opt_number :: "json option \<Rightarrow> jnum" where
  [js_eval]: "opt_number v = (case v of None \<Rightarrow> NaN | Some w \<Rightarrow> js_number w)"

section \<open>Properties of an object\<close>

lemma map_of_obj_set: "map_of (obj_set key v ps) = (map_of ps)(key \<mapsto> v)"
  by (induction ps) auto

lemma obj_set_keys: "fst ` set (obj_set key v ps) = insert key (fst ` set ps)"
  by (induction key v ps rule: obj_set.induct) (simp_all add: insert_commute)

lemma obj_set_distinct: "distinct (map fst (obj_set key v ps)) = distinct (map fst ps)"
  by (induction key v ps rule: obj_set.induct) (simp_all add: obj_set_keys)

lemma obj_set_same: "map_of ps key = Some v \<Longrightarrow> obj_set key v ps = ps"
  by (induction ps) (auto split: if_splits)

section \<open>Time stamps\<close>

text \<open>
  A day number counts from 1970-01-01. Years are grouped in eras of 400 from the first of March of
  the year 0, so that the leap day is the last day of its year.
\<close>

definition civil_date :: "int \<Rightarrow> int \<times> int \<times> int" where
  [js_eval]: "civil_date days =
     (let z = days + 719468;
          era = z div 146097;
          doe = z - era * 146097;
          yoe = (doe - doe div 1460 + doe div 36524 - doe div 146096) div 365;
          doy = doe - (365 * yoe + yoe div 4 - yoe div 100);
          mp = (5 * doy + 2) div 153;
          d = doy - (153 * mp + 2) div 5 + 1;
          m = (if mp < 10 then mp + 3 else mp - 9);
          y = yoe + era * 400 + (if m \<le> 2 then 1 else 0)
      in (y, m, d))"

definition pad_num :: "nat \<Rightarrow> int \<Rightarrow> jstring" where
  [js_eval]: "pad_num w n = (let s = num_str (nat n) in replicate (w - length s) 48 @ s)"

definition year_text :: "int \<Rightarrow> jstring" where
  [js_eval]: "year_text y =
     (if 0 \<le> y \<and> y \<le> 9999 then pad_num 4 y
      else if y < 0 then [dash] @ pad_num 6 (- y) else [43] @ pad_num 6 y)"

text \<open>\<open>new Date(ms).toISOString()\<close>: \<^const>\<open>None\<close> is the RangeError of an invalid date.\<close>

definition iso_text :: "int \<Rightarrow> jstring" where
  [js_eval]: "iso_text ms =
     (let (y, m, d) = civil_date (ms div 86400000); t = ms mod 86400000
      in year_text y @ [dash] @ pad_num 2 m @ [dash] @ pad_num 2 d @ lit ''T''
         @ pad_num 2 (t div 3600000) @ [colon] @ pad_num 2 (t div 60000 mod 60) @ [colon]
         @ pad_num 2 (t div 1000 mod 60) @ [dot] @ pad_num 3 (t mod 1000) @ lit ''Z'')"

definition to_iso :: "jnum \<Rightarrow> jstring option" where
  [js_eval]: "to_iso ms =
     (case ms of
        Fin x \<Rightarrow> (if \<bar>x\<bar> \<le> 8640000000000000 then Some (iso_text (if x < 0 then - \<lfloor>- x\<rfloor> else \<lfloor>x\<rfloor>)) else None)
      | _ \<Rightarrow> None)"

end
