(* ===== verification/Delimited.thy ===== *)
theory Delimited
  imports Interfaces
begin

text \<open>
  The reader of delimited text behind the table preview, \<open>lib/delimited.js\<close>: the guess of the
  delimiter and the one-pass parser with its quoting rules. A JavaScript string of one code unit is
  a list of length one, so the comparison \<open>ch === d\<close> fails for every longer or empty delimiter.

  Shown here: the guess is a delimiter that divides every sampled line alike and no candidate divides
  them more finely; without quotes the parser is the plain split into lines and cells; and the two
  lemmas on quoted and unquoted cells from which the export of form answers is read back.
\<close>

section \<open>Guessing the delimiter\<close>

definition bom :: jchar where [js_eval]: "bom = 0xFEFF"

text \<open>\<open>text.split(/\r\n|\r|\n/)\<close>.\<close>

fun split_lines :: "jstring \<Rightarrow> jstring list" where
  "split_lines [] = [[]]"
| "split_lines (c # cs) =
     (if c = cr \<and> cs \<noteq> [] \<and> hd cs = nl then [] # split_lines (tl cs)
      else if c = cr \<or> c = nl then [] # split_lines cs
      else (case split_lines cs of [] \<Rightarrow> [[c]] | x # xs \<Rightarrow> (c # x) # xs))"

fun count_loop :: "jchar \<Rightarrow> bool \<Rightarrow> jstring \<Rightarrow> nat" where
  "count_loop d quoted [] = 0"
| "count_loop d quoted (c # cs) =
     (if c = quote then
        (if quoted \<and> cs \<noteq> [] \<and> hd cs = quote then count_loop d quoted (tl cs) else count_loop d (\<not> quoted) cs)
      else (if \<not> quoted \<and> c = d then 1 else 0) + count_loop d quoted cs)"

definition countOutsideQuotes :: "jstring \<Rightarrow> jchar \<Rightarrow> nat" where
  [js_eval]: "countOutsideQuotes line d = count_loop d False line"

definition SNIFF_CANDIDATES :: "jchar list" where
  [js_eval]: "SNIFF_CANDIDATES = [comma, tab_char, 59, pipe]"

definition sniff_lines :: "jstring \<Rightarrow> jstring list" where
  [js_eval]: "sniff_lines text = take 10 (filter (\<lambda>l. trim l \<noteq> []) (split_lines text))"

definition sniff_step :: "jstring list \<Rightarrow> jchar \<times> nat \<Rightarrow> jchar \<Rightarrow> jchar \<times> nat" where
  [js_eval]: "sniff_step lines b d =
     (let count = countOutsideQuotes (hd lines) d
      in if count = 0 then b
         else if list_all (\<lambda>l. countOutsideQuotes l d = count) lines \<and> snd b < count then (d, count) else b)"

definition sniffDelimiter :: "jstring \<Rightarrow> jchar" where
  [js_eval]: "sniffDelimiter text =
     (let lines = sniff_lines text
      in if lines = [] then comma else fst (foldl (sniff_step lines) (comma, 0) SNIFF_CANDIDATES))"

section \<open>The parser\<close>

record pd_state =
  pd_rows :: "jstring list list"
  pd_row :: "jstring list"
  pd_field :: jstring
  pd_quoted :: bool
  pd_start :: bool

definition pd_init :: pd_state where
  [js_eval]: "pd_init = \<lparr>pd_rows = [], pd_row = [], pd_field = [], pd_quoted = False, pd_start = True\<rparr>"

definition endField :: "pd_state \<Rightarrow> pd_state" where
  [js_eval]: "endField st = st\<lparr>pd_row := pd_row st @ [pd_field st], pd_field := [], pd_start := True\<rparr>"

definition endRow :: "pd_state \<Rightarrow> pd_state" where
  [js_eval]: "endRow st = (let e = endField st in e\<lparr>pd_rows := pd_rows e @ [pd_row e], pd_row := []\<rparr>)"

definition add_char :: "jchar \<Rightarrow> pd_state \<Rightarrow> pd_state" where
  [js_eval]: "add_char c st = st\<lparr>pd_field := pd_field st @ [c]\<rparr>"

fun pd_loop :: "jstring \<Rightarrow> pd_state \<Rightarrow> jstring \<Rightarrow> pd_state" where
  "pd_loop d st [] = st"
| "pd_loop d st (c # cs) =
     (if pd_quoted st then
        (if c = quote then
           (if cs \<noteq> [] \<and> hd cs = quote then pd_loop d (add_char quote st) (tl cs)
            else pd_loop d (st\<lparr>pd_quoted := False\<rparr>) cs)
         else pd_loop d (add_char c st) cs)
      else if c = quote \<and> pd_start st then pd_loop d (st\<lparr>pd_quoted := True, pd_start := False\<rparr>) cs
      else if [c] = d then pd_loop d (endField st) cs
      else if c = cr \<and> cs \<noteq> [] \<and> hd cs = nl then pd_loop d (endRow st) (tl cs)
      else if c = cr \<or> c = nl then pd_loop d (endRow st) cs
      else pd_loop d ((add_char c st)\<lparr>pd_start := False\<rparr>) cs)"

definition drop_blank_rows :: "jstring list list \<Rightarrow> jstring list list" where
  [js_eval]: "drop_blank_rows rows = rev (dropWhile (list_all (\<lambda>c. c = [])) (rev rows))"

definition strip_bom :: "jstring \<Rightarrow> jstring" where
  [js_eval]: "strip_bom text = (if text \<noteq> [] \<and> hd text = bom then tl text else text)"

definition parseDelimited :: "jstring \<Rightarrow> jstring option \<Rightarrow> jstring list list" where
  [js_eval]: "parseDelimited text delimiter =
     (let src = strip_bom text;
          d = (case delimiter of Some d \<Rightarrow> d | None \<Rightarrow> [sniffDelimiter src]);
          st = pd_loop d pd_init src;
          st' = (if pd_field st \<noteq> [] \<or> pd_row st \<noteq> [] then endRow st else st)
      in drop_blank_rows (pd_rows st'))"

declare split_lines.simps [js_eval] count_loop.simps [js_eval] pd_loop.simps [js_eval]

section \<open>The guess\<close>

text \<open>A delimiter divides the lines evenly when it occurs equally often, and at all, outside quotes on each.\<close>

definition divides_evenly :: "jstring list \<Rightarrow> jchar \<Rightarrow> nat \<Rightarrow> bool" where
  "divides_evenly lines d n \<longleftrightarrow> 0 < n \<and> list_all (\<lambda>l. countOutsideQuotes l d = n) lines"

lemma sniff_fold:
  assumes "lines \<noteq> []" "snd b = 0 \<or> divides_evenly lines (fst b) (snd b)"
  shows "let r = foldl (sniff_step lines) b ds in
      (snd r = 0 \<or> divides_evenly lines (fst r) (snd r)) \<and> snd b \<le> snd r \<and> (fst r = fst b \<or> fst r \<in> set ds)
      \<and> (\<forall>d\<in>set ds. \<forall>n. divides_evenly lines d n \<longrightarrow> n \<le> snd r)"
  using assms(2)
proof (induction ds arbitrary: b)
  case Nil
  then show ?case by (simp add: Let_def)
next
  case (Cons d ds)
  let ?c = "countOutsideQuotes (hd lines) d"
  have even: "divides_evenly lines d n \<Longrightarrow> n = ?c" for n
    using assms(1) by (cases lines) (auto simp: divides_evenly_def)
  have s: "sniff_step lines b d = (if divides_evenly lines d ?c \<and> snd b < ?c then (d, ?c) else b)"
    by (auto simp: sniff_step_def divides_evenly_def Let_def)
  have "snd (sniff_step lines b d) = 0 \<or> divides_evenly lines (fst (sniff_step lines b d)) (snd (sniff_step lines b d))"
    using s Cons.prems by auto
  then have IH: "let r = foldl (sniff_step lines) (sniff_step lines b d) ds in
      (snd r = 0 \<or> divides_evenly lines (fst r) (snd r)) \<and> snd (sniff_step lines b d) \<le> snd r
      \<and> (fst r = fst (sniff_step lines b d) \<or> fst r \<in> set ds)
      \<and> (\<forall>d\<in>set ds. \<forall>n. divides_evenly lines d n \<longrightarrow> n \<le> snd r)" by (rule Cons.IH)
  have le: "snd b \<le> snd (sniff_step lines b d)" "divides_evenly lines d n \<Longrightarrow> n \<le> snd (sniff_step lines b d)" for n
    using s even [of n] by auto
  have f: "fst (sniff_step lines b d) = fst b \<or> fst (sniff_step lines b d) = d" using s by auto
  show ?case using IH le f unfolding foldl_Cons Let_def by (auto intro: order_trans)
qed

text \<open>
  The guessed delimiter is one of the four candidates; if some candidate divides the
  sampled lines evenly, then so does the guess, into at least as many cells.
\<close>

theorem sniff_best:
  assumes "d \<in> set SNIFF_CANDIDATES" "divides_evenly (sniff_lines text) d n" "sniff_lines text \<noteq> []"
  shows "sniffDelimiter text \<in> set SNIFF_CANDIDATES
    \<and> (\<exists>m\<ge>n. divides_evenly (sniff_lines text) (sniffDelimiter text) m)"
proof -
  let ?r = "foldl (sniff_step (sniff_lines text)) (comma, 0) SNIFF_CANDIDATES"
  have r: "sniffDelimiter text = fst ?r" using assms(3) by (simp add: sniffDelimiter_def Let_def)
  have "(snd ?r = 0 \<or> divides_evenly (sniff_lines text) (fst ?r) (snd ?r))
      \<and> (fst ?r = comma \<or> fst ?r \<in> set SNIFF_CANDIDATES) \<and> n \<le> snd ?r"
    using sniff_fold [OF assms(3), of "(comma, 0)" SNIFF_CANDIDATES] assms(1,2) by (auto simp: Let_def)
  moreover have "0 < n" using assms(2) by (simp add: divides_evenly_def)
  moreover have "comma \<in> set SNIFF_CANDIDATES" by (simp add: SNIFF_CANDIDATES_def)
  ultimately show ?thesis using r by auto
qed

definition demo_table :: jstring where
  "demo_table = lit ''a;b'' @ [nl] @ lit ''1;2''"

theorem sniff_best_witness: "sniffDelimiter demo_table \<in> set SNIFF_CANDIDATES \<and> sniffDelimiter demo_table = 59"
proof -
  have "59 \<in> set SNIFF_CANDIDATES" "divides_evenly (sniff_lines demo_table) 59 1" "sniff_lines demo_table \<noteq> []"
    "sniffDelimiter demo_table = 59" by code_simp+
  then show ?thesis using sniff_best [of 59 demo_table 1] by simp
qed

section \<open>Cells\<close>

lemma pd_plain:
  assumes "\<not> pd_quoted st" "\<And>c. c \<in> set t \<Longrightarrow> c \<noteq> quote \<and> [c] \<noteq> d \<and> c \<noteq> cr \<and> c \<noteq> nl"
  shows "pd_loop d st (t @ rest) = pd_loop d (st\<lparr>pd_field := pd_field st @ t, pd_start := (pd_start st \<and> t = [])\<rparr>) rest"
  using assms
proof (induction t arbitrary: st)
  case (Cons c t)
  let ?s = "(add_char c st)\<lparr>pd_start := False\<rparr>"
  have "pd_loop d st ((c # t) @ rest) = pd_loop d ?s (t @ rest)" using Cons.prems(1) Cons.prems(2) [of c] by simp
  also have "\<dots> = pd_loop d (?s\<lparr>pd_field := pd_field ?s @ t, pd_start := (pd_start ?s \<and> t = [])\<rparr>) rest"
    using Cons.prems by (intro Cons.IH) (auto simp: add_char_def)
  finally show ?case by (simp add: add_char_def)
qed simp

text \<open>\<open>text.replace(/"/g, '""')\<close>.\<close>

definition double_quotes :: "jstring \<Rightarrow> jstring" where
  [js_eval]: "double_quotes t = concat (map (\<lambda>c. if c = quote then [quote, quote] else [c]) t)"

lemma double_quotes_simps [simp]:
  "double_quotes [] = []"
  "double_quotes (c # t) = (if c = quote then [quote, quote] else [c]) @ double_quotes t"
  by (simp_all add: double_quotes_def)

lemma pd_quoted:
  assumes "pd_quoted st" "rest = [] \<or> hd rest \<noteq> quote"
  shows "pd_loop d st (double_quotes t @ quote # rest) = pd_loop d (st\<lparr>pd_field := pd_field st @ t, pd_quoted := False\<rparr>) rest"
  using assms(1)
proof (induction t arbitrary: st)
  case Nil
  then show ?case using assms(2) by auto
next
  case (Cons c t)
  let ?s = "add_char c st"
  have "pd_loop d st (double_quotes (c # t) @ quote # rest) = pd_loop d ?s (double_quotes t @ quote # rest)"
    using Cons.prems by simp
  also have "\<dots> = pd_loop d (?s\<lparr>pd_field := pd_field ?s @ t, pd_quoted := False\<rparr>) rest"
    using Cons.prems by (intro Cons.IH) (simp add: add_char_def)
  finally show ?case by (simp add: add_char_def)
qed

lemma in_tl_in: "x \<in> set (tl xs) \<Longrightarrow> x \<in> set xs"
  by (cases xs) auto

section \<open>Text without quotes\<close>

lemma split_lines_nonempty [simp]: "split_lines s \<noteq> []"
  by (induction s rule: split_lines.induct) (auto split: list.splits)

definition pd_cells :: "pd_state \<Rightarrow> jstring list list" where
  "pd_cells st = pd_rows st @ [pd_row st @ [pd_field st]]"

text \<open>What is read when the loop ends, the open row counted as a row.\<close>

lemma pd_cells_plain:
  assumes "quote \<notin> set s" "d \<noteq> cr" "d \<noteq> nl" "\<not> pd_quoted st"
  shows "pd_cells (pd_loop [d] st s) =
    (case split_lines s of [] \<Rightarrow> [] | l # ls \<Rightarrow>
       (case split_on d l of [] \<Rightarrow> [] | f # fs \<Rightarrow>
          pd_rows st @ ((pd_row st @ (pd_field st @ f) # fs) # map (split_on d) ls)))"
  using assms(1,4)
proof (induction s arbitrary: st rule: split_lines.induct)
  case 1
  then show ?case by (simp add: pd_cells_def)
next
  case (2 c cs)
  have q: "c \<noteq> quote" "quote \<notin> set cs" "quote \<notin> set (tl cs)" using "2.prems"(1) by (auto dest: in_tl_in)
  obtain l ls where l: "split_lines cs = l # ls" by (cases "split_lines cs") auto
  obtain f fs where f: "split_on d l = f # fs" by (cases "split_on d l") auto
  have rowed: "\<not> pd_quoted (endRow st)" "pd_rows (endRow st) = pd_rows st @ [pd_row st @ [pd_field st]]"
    "pd_row (endRow st) = []" "pd_field (endRow st) = []"
    using "2.prems"(2) by (simp_all add: endRow_def endField_def Let_def)
  consider "c = cr \<and> cs \<noteq> [] \<and> hd cs = nl" | "\<not> (c = cr \<and> cs \<noteq> [] \<and> hd cs = nl)" "c = cr \<or> c = nl"
    | "c = d" "c \<noteq> cr" "c \<noteq> nl" | "c \<noteq> d" "c \<noteq> cr" "c \<noteq> nl" by blast
  then show ?case
  proof cases
    case 1
    obtain m ms where m: "split_lines (tl cs) = m # ms" by (cases "split_lines (tl cs)") auto
    obtain g gs where g: "split_on d m = g # gs" by (cases "split_on d m") auto
    show ?thesis using "2.IH"(1) [OF 1 q(3) rowed(1)] 1 "2.prems"(2) assms(2,3) m g rowed by (auto split: if_splits)
  next
    case two: 2
    then have "pd_loop [d] st (c # cs) = pd_loop [d] (endRow st) cs"
      using q(1) "2.prems"(2) assms(2,3) by auto
    then show ?thesis using "2.IH"(2) [OF two q(2) rowed(1)] two l f rowed by (auto split: if_splits)
  next
    case 3
    have "\<not> pd_quoted (endField st)" using "2.prems"(2) by (simp add: endField_def)
    moreover have "pd_loop [d] st (c # cs) = pd_loop [d] (endField st) cs" using 3 q(1) "2.prems"(2) by simp
    ultimately show ?thesis using "2.IH"(3) [of "endField st"] 3 q(2) l f by (auto simp: endField_def)
  next
    case 4
    let ?s = "(add_char c st)\<lparr>pd_start := False\<rparr>"
    have "\<not> pd_quoted ?s" using "2.prems"(2) by (simp add: add_char_def)
    moreover have "pd_loop [d] st (c # cs) = pd_loop [d] ?s cs" using 4 q(1) "2.prems"(2) by simp
    ultimately show ?thesis using "2.IH"(3) [of ?s] 4 q(2) l f by (auto simp: add_char_def)
  qed
qed

lemma drop_blank_rows_snoc: "drop_blank_rows (rows @ [r]) = (if list_all (\<lambda>c. c = []) r then drop_blank_rows rows else rows @ [r])"
  by (simp add: drop_blank_rows_def)

text \<open>Whether the open row is pushed or not, the rows read are the same once blank rows at the end are dropped.\<close>

lemma parseDelimited_cells:
  "parseDelimited text (Some d) = drop_blank_rows (pd_cells (pd_loop d pd_init (strip_bom text)))"
proof -
  let ?st = "pd_loop d pd_init (strip_bom text)"
  have "pd_rows (endRow ?st) = pd_cells ?st" by (simp add: endRow_def endField_def pd_cells_def Let_def)
  then show ?thesis
    by (auto simp: parseDelimited_def Let_def pd_cells_def drop_blank_rows_snoc)
qed

text \<open>
  On text without quotes the parser is the split into lines and then into cells, less
  the blank rows at the end.
\<close>

theorem parse_is_split:
  assumes "quote \<notin> set text" "d \<noteq> cr" "d \<noteq> nl"
  shows "parseDelimited text (Some [d]) = drop_blank_rows (map (split_on d) (split_lines (strip_bom text)))"
proof -
  let ?s = "strip_bom text"
  obtain l ls where l: "split_lines ?s = l # ls" by (cases "split_lines ?s") auto
  obtain f fs where f: "split_on d l = f # fs" by (cases "split_on d l") auto
  have "quote \<notin> set ?s" using assms(1) by (auto simp: strip_bom_def dest: in_tl_in)
  then show ?thesis using pd_cells_plain [of ?s d pd_init] assms(2,3) l f
    by (simp add: parseDelimited_cells pd_init_def)
qed

theorem parse_is_split_witness:
  "parseDelimited demo_table (Some [59]) = [[lit ''a'', lit ''b''], [lit ''1'', lit ''2'']]"
proof -
  have "quote \<notin> set demo_table" "(59 :: jchar) \<noteq> cr" "(59 :: jchar) \<noteq> nl"
    "drop_blank_rows (map (split_on 59) (split_lines (strip_bom demo_table))) = [[lit ''a'', lit ''b''], [lit ''1'', lit ''2'']]"
    by code_simp+
  then show ?thesis using parse_is_split [of demo_table 59] by simp
qed

lemma pd_one_column:
  "pd_row st = [] \<Longrightarrow> list_all (\<lambda>r. length r = 1) (pd_rows st) \<Longrightarrow>
   pd_row (pd_loop [] st s) = [] \<and> list_all (\<lambda>r. length r = 1) (pd_rows (pd_loop [] st s))"
  by (induction "[] :: jstring" st s rule: pd_loop.induct) (auto simp: endRow_def endField_def add_char_def Let_def)

lemma list_all_drop_blank: "list_all P rows \<Longrightarrow> list_all P (drop_blank_rows rows)"
  by (auto simp: drop_blank_rows_def list_all_iff dest: set_dropWhileD)

text \<open>
  Only a missing delimiter is guessed. An empty one is taken as it is and matches no code
  unit, so every row read with it has one cell, whatever the text.
\<close>

theorem empty_delimiter_one_column: "list_all (\<lambda>row. length row = 1) (parseDelimited text (Some []))"
  using pd_one_column [of pd_init "strip_bom text"]
  by (auto simp: parseDelimited_def Let_def pd_init_def endRow_def endField_def intro!: list_all_drop_blank)

end
