(* ===== verification/FormDocument.thy ===== *)
theory FormDocument
  imports JsValues Delimited
begin

text \<open>
  Forms and their answers, \<open>lib/formDocument.js\<close>: reading and normalising a \<open>.lunaform\<close> file,
  the log of answers next to it, and the export of answers as delimited text.

  \<open>JSON.parse\<close> is an argument \<open>json_parse\<close> of the readers (\<^const>\<open>None\<close> is its SyntaxError)
  and \<open>JSON.stringify(doc, null, 2)\<close> the argument \<open>json_text\<close> of the writer; what is shown of
  them holds for every such function, or names the one law it needs. Random bytes are arguments too.
  Browser storage is a map from keys to texts, or \<^const>\<open>None\<close> where the browser blocks it.
\<close>

section \<open>Names\<close>

definition FORM_DOC_VERSION :: rat where [js_eval]: "FORM_DOC_VERSION = 1"
definition FORM_FILE_SUFFIX :: jstring where [js_eval]: "FORM_FILE_SUFFIX = lit ''.lunaform''"
definition RESPONSES_SUFFIX :: jstring where [js_eval]: "RESPONSES_SUFFIX = lit ''.lunaform.responses''"

definition responsesSiblingPath :: "jstring \<Rightarrow> jstring" where
  [js_eval]: "responsesSiblingPath path =
     (if ends_with (lower path) FORM_FILE_SUFFIX
      then take (length path - length FORM_FILE_SUFFIX) path @ RESPONSES_SUFFIX
      else path @ RESPONSES_SUFFIX)"

section \<open>Documents\<close>

definition SETTING_DEFAULTS :: jobject where
  [js_eval]: "SETTING_DEFAULTS =
     [(lit ''responseLimit'', JStr (lit ''unlimited'')), (lit ''allowEdits'', JBool True),
      (lit ''collecting'', JBool True), (lit ''thankYou'', JStr []), (lit ''closeOn'', JStr []),
      (lit ''maxResponses'', JNull)]"

definition blankFormDocument :: "jstring \<Rightarrow> jobject" where
  [js_eval]: "blankFormDocument title =
     [(lit ''version'', JNum (Fin FORM_DOC_VERSION)), (lit ''title'', JStr title), (lit ''description'', JStr []),
      (lit ''settings'', JObj SETTING_DEFAULTS), (lit ''questions'', JArr [])]"

definition known_settings :: "jstring list" where
  [js_eval]: "known_settings = map fst SETTING_DEFAULTS"

text \<open>
  Assigning to the key \<open>__proto__\<close> of a fresh object sets its prototype and makes no property, so
  that key is not among the extras that are spread.
\<close>

definition proto_key :: jstring where [js_eval]: "proto_key = lit ''__proto__''"

definition setting_extras :: "jobject \<Rightarrow> jobject" where
  [js_eval]: "setting_extras src = filter (\<lambda>(key, value). key \<notin> set known_settings \<and> key \<noteq> proto_key) src"

definition max_responses :: "json option \<Rightarrow> json" where
  [js_eval]: "max_responses v =
     (case v of
        Some (JNum (Fin x)) \<Rightarrow> if 0 < x then JNum (Fin (of_int \<lfloor>x\<rfloor>)) else JNull
      | _ \<Rightarrow> JNull)"

definition text_or_empty :: "json option \<Rightarrow> json" where
  [js_eval]: "text_or_empty v = (case v of Some (JStr s) \<Rightarrow> JStr s | _ \<Rightarrow> JStr [])"

definition canonicalSettings :: "json option \<Rightarrow> jobject" where
  [js_eval]: "canonicalSettings raw =
     (let src = (case raw of Some (JObj ps) \<Rightarrow> ps | _ \<Rightarrow> [])
      in setting_extras src @
         [(lit ''responseLimit'', JStr (if map_of src (lit ''responseLimit'') = Some (JStr (lit ''one'')) then lit ''one'' else lit ''unlimited'')),
          (lit ''allowEdits'', JBool (map_of src (lit ''allowEdits'') \<noteq> Some (JBool False))),
          (lit ''collecting'', JBool (map_of src (lit ''collecting'') \<noteq> Some (JBool False))),
          (lit ''thankYou'', text_or_empty (map_of src (lit ''thankYou''))),
          (lit ''closeOn'', text_or_empty (map_of src (lit ''closeOn''))),
          (lit ''maxResponses'', max_responses (map_of src (lit ''maxResponses'')))])"

datatype form_result = FormOk jobject | FormError jstring

definition broken_form :: form_result where
  [js_eval]: "broken_form = FormError (lit ''This file isn'' @ [39] @ lit ''t a working Luna form. Open it as text to see what'' @ [39] @ lit ''s inside.'')"

definition newer_form :: form_result where
  [js_eval]: "newer_form = FormError (lit ''This form was made with a newer version of Luna. Update Luna to open it.'')"

definition form_version :: "jobject \<Rightarrow> jnum" where
  [js_eval]: "form_version raw =
     (case map_of raw (lit ''version'') of None \<Rightarrow> Fin 1 | Some JNull \<Rightarrow> Fin 1 | Some v \<Rightarrow> js_number v)"

definition default_text :: "jstring \<Rightarrow> jobject \<Rightarrow> jobject" where
  [js_eval]: "default_text key doc = (if is_string (map_of doc key) then doc else obj_set key (JStr []) doc)"

definition form_questions :: "json option \<Rightarrow> json" where
  [js_eval]: "form_questions v = (case v of Some (JArr qs) \<Rightarrow> JArr (filter isObject qs) | _ \<Rightarrow> JArr [])"

definition form_fields :: "jobject \<Rightarrow> jnum \<Rightarrow> jobject" where
  [js_eval]: "form_fields raw version =
     obj_set (lit ''questions'') (form_questions (map_of raw (lit ''questions'')))
      (obj_set (lit ''settings'') (JObj (canonicalSettings (map_of raw (lit ''settings''))))
        (default_text (lit ''description'') (default_text (lit ''title'')
          (obj_set (lit ''version'') (JNum version) raw))))"

definition parseFormDocument :: "(jstring \<Rightarrow> json option) \<Rightarrow> jstring \<Rightarrow> form_result" where
  [js_eval]: "parseFormDocument json_parse text =
     (let trimmed = trim text
      in if trimmed = [] then FormOk (blankFormDocument (lit ''Untitled form''))
         else (case json_parse trimmed of
                 Some (JObj raw) \<Rightarrow>
                   (case form_version raw of
                      Fin v \<Rightarrow> if FORM_DOC_VERSION < v then newer_form else FormOk (form_fields raw (Fin v))
                    | _ \<Rightarrow> newer_form)
               | _ \<Rightarrow> broken_form))"

definition serializeFormDocument :: "(json \<Rightarrow> jstring) \<Rightarrow> jobject \<Rightarrow> jstring" where
  [js_eval]: "serializeFormDocument json_text doc = json_text (JObj doc) @ [nl]"

section \<open>The badge of new answers\<close>

definition seenKey :: "jstring \<Rightarrow> jstring \<Rightarrow> jstring" where
  [js_eval]: "seenKey scope path = lit ''lunaform_seen:'' @ scope @ [colon] @ path"

type_synonym browser_storage = "(jstring \<rightharpoonup> jstring) option"

definition readFormSeen :: "browser_storage \<Rightarrow> jstring \<Rightarrow> jstring \<Rightarrow> rat" where
  [js_eval]: "readFormSeen storage scope path =
     (case storage of
        None \<Rightarrow> 0
      | Some m \<Rightarrow>
          (case (case m (seenKey scope path) of None \<Rightarrow> Fin 0 | Some s \<Rightarrow> str_number s) of
             Fin n \<Rightarrow> if 0 \<le> n then n else 0
           | _ \<Rightarrow> 0))"

text \<open>A write that does not fit throws, and the exception is swallowed.\<close>

definition writeFormSeen :: "bool \<Rightarrow> browser_storage \<Rightarrow> jstring \<Rightarrow> jstring \<Rightarrow> nat \<Rightarrow> browser_storage" where
  [js_eval]: "writeFormSeen full storage scope path count =
     (if full then storage else map_option (\<lambda>m. m(seenKey scope path \<mapsto> num_str count)) storage)"

section \<open>Identifiers\<close>

definition hex_digit :: "nat \<Rightarrow> jchar" where
  [js_eval]: "hex_digit n = (if n < 10 then of_nat (48 + n) else of_nat (87 + n))"

definition randomHex :: "8 word list \<Rightarrow> jstring" where
  [js_eval]: "randomHex buf = concat (map (\<lambda>b. [hex_digit (unat b div 16), hex_digit (unat b mod 16)]) buf)"

definition newQuestionId :: "8 word list \<Rightarrow> jstring" where
  [js_eval]: "newQuestionId buf = lit ''q_'' @ randomHex buf"

definition b64_alphabet :: jstring where
  [js_eval]: "b64_alphabet = lit ''ABCDEFGHIJKLMNOPQRSTUVWXYZabcdefghijklmnopqrstuvwxyz0123456789+/''"

text \<open>\<open>btoa\<close> on the bytes of a binary string: three bytes are four digits, and the end is padded.\<close>

fun btoa :: "8 word list \<Rightarrow> jstring" where
  "btoa [] = []"
| "btoa [a] = (let n = unat a * 16 in [b64_alphabet ! (n div 64), b64_alphabet ! (n mod 64), 61, 61])"
| "btoa [a, b] =
     (let n = (unat a * 256 + unat b) * 4
      in [b64_alphabet ! (n div 4096), b64_alphabet ! (n div 64 mod 64), b64_alphabet ! (n mod 64), 61])"
| "btoa (a # b # c # bs) =
     (let n = (unat a * 256 + unat b) * 256 + unat c
      in [b64_alphabet ! (n div 262144), b64_alphabet ! (n div 4096 mod 64),
          b64_alphabet ! (n div 64 mod 64), b64_alphabet ! (n mod 64)]) @ btoa bs"

declare btoa.simps [js_eval]

definition url_safe :: "jstring \<Rightarrow> jstring" where
  [js_eval]: "url_safe s =
     rev (dropWhile (\<lambda>c. c = 61) (rev (map (\<lambda>c. if c = 43 then dash else if c = slash then 95 else c) s)))"

definition newEditToken :: "8 word list \<Rightarrow> jstring" where
  [js_eval]: "newEditToken buf = url_safe (btoa buf)"

section \<open>The log of answers\<close>

definition rec_id :: "json \<Rightarrow> jstring option" where
  [js_eval]: "rec_id r = (case get_prop r (lit ''id'') of Some (JStr s) \<Rightarrow> Some s | _ \<Rightarrow> None)"

definition rec_deleted :: "json \<Rightarrow> bool" where
  [js_eval]: "rec_deleted r \<longleftrightarrow> get_prop r (lit ''deleted'') = Some (JBool True)"

definition parseResponsesJsonl :: "(jstring \<Rightarrow> json option) \<Rightarrow> jstring \<Rightarrow> json list" where
  [js_eval]: "parseResponsesJsonl json_parse text =
     filter (\<lambda>r. isObject r \<and> rec_id r \<noteq> None \<and> rec_id r \<noteq> Some [])
       (List.map_filter json_parse (filter (\<lambda>l. l \<noteq> []) (map trim (split_on nl text))))"

text \<open>The loop of \<open>latestResponses\<close>: the ids in the order of their first live line, and the live record of each.\<close>

definition latest_step :: "jstring list \<times> (jstring \<rightharpoonup> json) \<Rightarrow> json \<Rightarrow> jstring list \<times> (jstring \<rightharpoonup> json)" where
  [js_eval]: "latest_step st r =
     (case rec_id r of
        None \<Rightarrow> st
      | Some i \<Rightarrow>
          if rec_deleted r then (fst st, (snd st)(i := None))
          else (if i \<in> set (fst st) then fst st else fst st @ [i], (snd st)(i \<mapsto> r)))"

definition latestResponses :: "json list \<Rightarrow> json list" where
  [js_eval]: "latestResponses records =
     (let st = foldl latest_step ([], Map.empty) records in List.map_filter (snd st) (fst st))"

definition responseSentAt :: "json \<Rightarrow> jnum" where
  [js_eval]: "responseSentAt r =
     (case opt_number (get_prop r (lit ''sent_at'')) of
        Fin s \<Rightarrow> if 0 < s then Fin s else (case opt_number (get_prop r (lit ''at'')) of NaN \<Rightarrow> Fin 0 | n \<Rightarrow> n)
      | _ \<Rightarrow> (case opt_number (get_prop r (lit ''at'')) of NaN \<Rightarrow> Fin 0 | n \<Rightarrow> n))"

definition countResponses :: "(jstring \<Rightarrow> json option) \<Rightarrow> jstring \<Rightarrow> nat" where
  [js_eval]: "countResponses json_parse text = length (latestResponses (parseResponsesJsonl json_parse text))"

section \<open>Export\<close>

definition formula_start :: "jstring \<Rightarrow> bool" where
  [js_eval]: "formula_start t \<longleftrightarrow> t \<noteq> [] \<and> hd t \<in> {61, 43, 45, 64, tab_char, cr}"

definition guard_cell :: "jstring \<Rightarrow> jstring" where
  [js_eval]: "guard_cell t = (if formula_start t then 39 # t else t)"

definition csvCell :: "jstring \<Rightarrow> jstring" where
  [js_eval]: "csvCell value =
     (let text = guard_cell value
      in if list_ex (\<lambda>c. c \<in> {quote, comma, nl, cr}) text then [quote] @ double_quotes text @ [quote] else text)"

record column =
  col_id :: jstring
  col_label :: jstring

definition sent_text :: "json \<Rightarrow> jstring option" where
  [js_eval]: "sent_text r =
     (let sent = responseSentAt r in if sent = Fin 0 then Some [] else to_iso (times_num sent 1000))"

text \<open>
  \<open>answers[col.id]\<close>: an own property, a name that every object inherits (its value is a function or
  an object of the language, given here by the name), or nothing.
\<close>

datatype answer_value = Given json | Inherited jstring | Missing

definition OBJECT_NAMES :: "jstring list" where
  [js_eval]: "OBJECT_NAMES = map lit [''constructor'', ''hasOwnProperty'', ''isPrototypeOf'', ''propertyIsEnumerable'', ''toLocaleString'',
     ''toString'', ''valueOf'', ''__defineGetter__'', ''__defineSetter__'', ''__lookupGetter__'', ''__lookupSetter__'', ''__proto__'']"

definition answer_at :: "jobject \<Rightarrow> jstring \<Rightarrow> answer_value" where
  [js_eval]: "answer_at answers key =
     (case map_of answers key of
        Some v \<Rightarrow> Given v
      | None \<Rightarrow> if key \<in> set OBJECT_NAMES then Inherited key else Missing)"

definition answer_cells :: "column list \<Rightarrow> (column \<Rightarrow> answer_value \<Rightarrow> jstring) \<Rightarrow> json \<Rightarrow> jstring list" where
  [js_eval]: "answer_cells columns formatValue r =
     (let answers = (case get_prop r (lit ''answers'') of Some (JObj ps) \<Rightarrow> ps | _ \<Rightarrow> [])
      in map (\<lambda>col. formatValue col (answer_at answers (col_id col))) columns)"

fun csv_rows :: "column list \<Rightarrow> (column \<Rightarrow> answer_value \<Rightarrow> jstring) \<Rightarrow> json list \<Rightarrow> jstring list list option" where
  "csv_rows columns formatValue [] = Some []"
| "csv_rows columns formatValue (r # rs) =
     (case sent_text r of
        None \<Rightarrow> None
      | Some sent \<Rightarrow> map_option ((#) (sent # answer_cells columns formatValue r)) (csv_rows columns formatValue rs))"

declare csv_rows.simps [js_eval]

definition csv_table :: "column list \<Rightarrow> json list \<Rightarrow> (column \<Rightarrow> answer_value \<Rightarrow> jstring) \<Rightarrow> jstring list list option" where
  [js_eval]: "csv_table columns responses formatValue =
     map_option ((#) (lit ''Submitted'' # map col_label columns)) (csv_rows columns formatValue responses)"

definition csv_line :: "jstring list \<Rightarrow> jstring" where
  [js_eval]: "csv_line cells = join [comma] (map csvCell cells)"

definition responsesToCsv :: "column list \<Rightarrow> json list \<Rightarrow> (column \<Rightarrow> answer_value \<Rightarrow> jstring) \<Rightarrow> jstring option" where
  [js_eval]: "responsesToCsv columns responses formatValue =
     map_option (\<lambda>table. join [nl] (map csv_line table) @ [nl]) (csv_table columns responses formatValue)"

section \<open>Reading the export back\<close>

lemma guard_cell_safe [simp]: "\<not> formula_start (guard_cell t)"
  by (auto simp: guard_cell_def formula_start_def)

lemma csv_cell_read:
  assumes "\<not> pd_quoted st" "pd_start st" "pd_field st = []" "rest = [] \<or> hd rest \<noteq> quote"
  shows "pd_loop [comma] st (csvCell t @ rest) =
    pd_loop [comma] (st\<lparr>pd_field := guard_cell t, pd_start := (guard_cell t = [])\<rparr>) rest"
proof (cases "list_ex (\<lambda>c. c \<in> {quote, comma, nl, cr}) (guard_cell t)")
  case True
  let ?s = "st\<lparr>pd_quoted := True, pd_start := False\<rparr>"
  have ne: "guard_cell t \<noteq> []" using True by auto
  have "pd_loop [comma] st (csvCell t @ rest) = pd_loop [comma] ?s (double_quotes (guard_cell t) @ quote # rest)"
    using True assms(1,2) by (simp add: csvCell_def)
  also have "\<dots> = pd_loop [comma] (?s\<lparr>pd_field := pd_field ?s @ guard_cell t, pd_quoted := False\<rparr>) rest"
    using assms(4) by (intro pd_quoted) auto
  also have "?s\<lparr>pd_field := pd_field ?s @ guard_cell t, pd_quoted := False\<rparr> = st\<lparr>pd_field := guard_cell t, pd_start := (guard_cell t = [])\<rparr>"
    using ne assms(1,3) by simp
  finally show ?thesis .
next
  case False
  then have "csvCell t = guard_cell t" by (simp add: csvCell_def)
  moreover have "\<And>c. c \<in> set (guard_cell t) \<Longrightarrow> c \<noteq> quote \<and> [c] \<noteq> [comma] \<and> c \<noteq> cr \<and> c \<noteq> nl"
    using False by (auto simp: list_ex_iff)
  ultimately show ?thesis using pd_plain [of st "guard_cell t" "[comma]" rest] assms(1-3) by simp
qed

definition between_cells :: "pd_state \<Rightarrow> bool" where
  "between_cells st \<longleftrightarrow> \<not> pd_quoted st \<and> pd_start st \<and> pd_field st = []"

lemma csv_line_read:
  assumes "cells \<noteq> []" "between_cells st"
  shows "pd_loop [comma] st (csv_line cells @ nl # rest) =
    pd_loop [comma] (st\<lparr>pd_rows := pd_rows st @ [pd_row st @ map guard_cell cells], pd_row := []\<rparr>) rest"
  using assms
proof (induction cells arbitrary: st)
  case (Cons t cells)
  have st: "\<not> pd_quoted st" "pd_start st" "pd_field st = []" using Cons.prems(2) by (auto simp: between_cells_def)
  let ?s = "st\<lparr>pd_field := guard_cell t, pd_start := (guard_cell t = [])\<rparr>"
  show ?case
  proof (cases "cells = []")
    case True
    have "pd_loop [comma] st (csvCell t @ nl # rest) = pd_loop [comma] ?s (nl # rest)"
      using st by (intro csv_cell_read) auto
    also have "\<dots> = pd_loop [comma] (endRow ?s) rest" using st by simp
    also have "endRow ?s = st\<lparr>pd_rows := pd_rows st @ [pd_row st @ [guard_cell t]], pd_row := []\<rparr>"
      using st by (simp add: endRow_def endField_def Let_def)
    finally show ?thesis using True by (simp add: csv_line_def)
  next
    case False
    let ?n = "st\<lparr>pd_row := pd_row st @ [guard_cell t]\<rparr>"
    have "csv_line (t # cells) = csvCell t @ comma # csv_line cells"
      using False by (simp add: csv_line_def join_Cons)
    then have "pd_loop [comma] st (csv_line (t # cells) @ nl # rest) = pd_loop [comma] st (csvCell t @ comma # csv_line cells @ nl # rest)"
      by simp
    also have "\<dots> = pd_loop [comma] ?s (comma # csv_line cells @ nl # rest)"
      using st by (intro csv_cell_read) auto
    also have "\<dots> = pd_loop [comma] (endField ?s) (csv_line cells @ nl # rest)" using st by simp
    also have "endField ?s = ?n" using st by (simp add: endField_def)
    also have "pd_loop [comma] ?n (csv_line cells @ nl # rest) =
        pd_loop [comma] (?n\<lparr>pd_rows := pd_rows ?n @ [pd_row ?n @ map guard_cell cells], pd_row := []\<rparr>) rest"
      using False Cons.prems(2) by (intro Cons.IH) (auto simp: between_cells_def)
    finally show ?thesis by simp
  qed
qed simp

lemma csv_table_read:
  assumes "table \<noteq> []" "list_all (\<lambda>r. r \<noteq> []) table" "between_cells st" "pd_row st = []"
  shows "pd_loop [comma] st (join [nl] (map csv_line table) @ [nl]) = st\<lparr>pd_rows := pd_rows st @ map (map guard_cell) table\<rparr>"
  using assms
proof (induction table arbitrary: st)
  case (Cons r table)
  let ?n = "st\<lparr>pd_rows := pd_rows st @ [map guard_cell r], pd_row := []\<rparr>"
  have r: "r \<noteq> []" using Cons.prems(2) by simp
  show ?case
  proof (cases "table = []")
    case True
    then show ?thesis using csv_line_read [OF r Cons.prems(3), of "[]"] Cons.prems(4) by simp
  next
    case False
    have "join [nl] (map csv_line (r # table)) @ [nl] = csv_line r @ nl # join [nl] (map csv_line table) @ [nl]"
      using False by (simp add: join_Cons)
    then have "pd_loop [comma] st (join [nl] (map csv_line (r # table)) @ [nl]) = pd_loop [comma] ?n (join [nl] (map csv_line table) @ [nl])"
      using csv_line_read [OF r Cons.prems(3), of "join [nl] (map csv_line table) @ [nl]"] Cons.prems(4) by simp
    also have "\<dots> = ?n\<lparr>pd_rows := pd_rows ?n @ map (map guard_cell) table\<rparr>"
      using False Cons.prems by (intro Cons.IH) (auto simp: between_cells_def)
    also have "\<dots> = st\<lparr>pd_rows := pd_rows st @ map (map guard_cell) (r # table)\<rparr>"
      using Cons.prems(4) by (cases st) simp
    finally show ?thesis .
  qed
qed simp

text \<open>A table that reads back as it was written: no formulas, no byte order mark in front, a last row with text.\<close>

definition csv_valid :: "jstring list list \<Rightarrow> bool" where
  "csv_valid table \<longleftrightarrow> table \<noteq> [] \<and> list_all (\<lambda>r. r \<noteq> [] \<and> list_all (\<lambda>c. \<not> formula_start c) r) table
     \<and> \<not> list_all (\<lambda>c. c = []) (last table) \<and> strip_bom (csv_line (hd table)) = csv_line (hd table)"

definition csv_text :: "jstring list list \<Rightarrow> jstring" where
  "csv_text table = join [nl] (map csv_line table) @ [nl]"

lemma csv_text_bom: "table \<noteq> [] \<Longrightarrow> strip_bom (csv_line (hd table)) = csv_line (hd table) \<Longrightarrow> strip_bom (csv_text table) = csv_text table"
proof (cases table)
  case (Cons r t)
  assume a: "strip_bom (csv_line (hd table)) = csv_line (hd table)"
  have "csv_text table = csv_line r @ nl # (if t = [] then [] else csv_text t)"
    using Cons by (auto simp: csv_text_def join_Cons)
  moreover have "csv_line r = [] \<or> hd (csv_line r) \<noteq> bom" 
    using a Cons by (cases "csv_line r") (auto simp: strip_bom_def split: if_splits)
  ultimately show ?thesis by (cases "csv_line r") (auto simp: strip_bom_def bom_def)
qed simp

lemma csv_text_read:
  assumes "table \<noteq> []" "list_all (\<lambda>r. r \<noteq> []) table" "strip_bom (csv_line (hd table)) = csv_line (hd table)"
  shows "parseDelimited (csv_text table) (Some [comma]) = drop_blank_rows (map (map guard_cell) table)"
proof -
  have "pd_loop [comma] pd_init (csv_text table) = pd_init\<lparr>pd_rows := map (map guard_cell) table\<rparr>"
    using csv_table_read [OF assms(1,2), of pd_init] by (simp add: csv_text_def between_cells_def pd_init_def)
  then show ?thesis using csv_text_bom [OF assms(1,3)]
    by (simp add: parseDelimited_def Let_def pd_init_def)
qed

lemma guard_cell_id: "\<not> formula_start c \<Longrightarrow> guard_cell c = c"
  by (simp add: guard_cell_def)

interpretation csv_codec: codec csv_text "\<lambda>t. Some (parseDelimited t (Some [comma]))" csv_valid
proof unfold_locales
  fix table assume v: "csv_valid table"
  then have "map (map guard_cell) table = table"
    by (auto simp: csv_valid_def list_all_iff guard_cell_id intro!: map_idI)
  moreover have "drop_blank_rows table = table"
    using v by (cases table rule: rev_cases) (auto simp: csv_valid_def drop_blank_rows_snoc)
  ultimately show "Some (parseDelimited (csv_text table) (Some [comma])) = Some table"
    using v csv_text_read [of table] by (auto simp: csv_valid_def list_all_iff)
qed

lemma csv_rows_nonempty: "csv_rows columns fmt rs = Some rows \<Longrightarrow> list_all (\<lambda>r. r \<noteq> []) rows"
  by (induction rs arbitrary: rows) (auto split: option.splits)

lemma csv_table_shape:
  assumes "csv_table columns responses fmt = Some table"
  shows "table \<noteq> []" "list_all (\<lambda>r. r \<noteq> []) table" "hd table = lit ''Submitted'' # map col_label columns"
    "strip_bom (csv_line (hd table)) = csv_line (hd table)"
proof -
  show t: "table \<noteq> []" "list_all (\<lambda>r. r \<noteq> []) table" "hd table = lit ''Submitted'' # map col_label columns"
    using assms by (auto simp: csv_table_def dest: csv_rows_nonempty)
  have "csvCell (lit ''Submitted'') = lit ''Submitted''" by code_simp
  moreover have "lit ''Submitted'' \<noteq> []" "hd (lit ''Submitted'') \<noteq> bom" by (code_simp, code_simp)
  ultimately have "csv_line (hd table) \<noteq> [] \<and> hd (csv_line (hd table)) \<noteq> bom"
    using t(3) by (cases columns) (auto simp: csv_line_def)
  then show "strip_bom (csv_line (hd table)) = csv_line (hd table)" by (simp add: strip_bom_def)
qed

section \<open>Guessing the delimiter of an export\<close>

text \<open>
  The preview of a \<open>.csv\<close> file passes no delimiter, so it is guessed. The first sampled line of an
  export is a prefix of its header line.
\<close>

lemma split_lines_hd: "hd (split_lines t) = takeWhile (\<lambda>c. c \<noteq> cr \<and> c \<noteq> nl) t"
proof (induction t rule: split_lines.induct)
  case (2 c cs)
  then show ?case using split_lines_nonempty [of cs] by (cases "split_lines cs") auto
qed simp

lemma count_loop_absent: "d \<notin> set line \<Longrightarrow> count_loop d quoted line = 0"
proof (induction d quoted line rule: count_loop.induct)
  case (2 d quoted c cs)
  then show ?case by (cases cs) auto
qed simp

lemma trim_visible: "l \<noteq> [] \<Longrightarrow> \<not> js_ws (hd l) \<Longrightarrow> trim l \<noteq> []"
  by (auto simp: trim_def trim_start_id trim_end_def)

lemma sniff_comma:
  assumes "trim (hd (split_lines t)) \<noteq> []" "set (hd (split_lines t)) \<inter> {tab_char, 59, pipe} = {}"
  shows "sniffDelimiter t = comma"
proof -
  obtain l ls where l: "split_lines t = l # ls" using split_lines_nonempty by (cases "split_lines t") blast+
  then have h: "sniff_lines t \<noteq> []" "hd (sniff_lines t) = l" using assms(1) by (simp_all add: sniff_lines_def)
  have "countOutsideQuotes l d = 0" if "d \<in> {tab_char, 59, pipe}" for d
    using that assms(2) l by (auto simp: countOutsideQuotes_def intro!: count_loop_absent)
  then have "sniff_step (sniff_lines t) b d = b" if "d \<in> {tab_char, 59, pipe}" for b d
    using that h(2) by (simp add: sniff_step_def)
  moreover have "fst (sniff_step (sniff_lines t) (comma, 0) comma) = comma" by (simp add: sniff_step_def Let_def)
  ultimately show ?thesis using h(1) by (simp add: sniffDelimiter_def SNIFF_CANDIDATES_def)
qed

lemma csvCell_set: "set (csvCell c) \<subseteq> insert quote (insert 39 (set c))"
proof -
  have d: "set (double_quotes xs) \<subseteq> insert quote (set xs)" for xs by (induction xs) (auto simp: double_quotes_def)
  then show ?thesis by (auto simp: csvCell_def guard_cell_def Let_def split: if_splits)
qed

lemma csv_line_set: "set (csv_line r) \<subseteq> {comma, quote, 39} \<union> (\<Union>c\<in>set r. set c)"
proof (induction r)
  case (Cons c r)
  then show ?case using csvCell_set [of c] by (cases r) (auto simp: csv_line_def join_Cons)
qed (simp add: csv_line_def)

definition plain_label :: "jstring \<Rightarrow> bool" where
  "plain_label l \<longleftrightarrow> list_all (\<lambda>c. c \<noteq> tab_char \<and> c \<noteq> 59 \<and> c \<noteq> pipe) l"

lemma export_sniffed:
  assumes "csv_table columns responses fmt = Some table" "list_all (\<lambda>c. plain_label (col_label c)) columns"
  shows "sniffDelimiter (csv_text table) = comma"
proof (rule sniff_comma)
  have t: "table \<noteq> []" "hd table = lit ''Submitted'' # map col_label columns" using csv_table_shape [OF assms(1)] by simp_all
  have "csv_text (r # t) = csv_line r @ nl # (if t = [] then [] else csv_text t)" for r t by (simp add: csv_text_def join_Cons)
  then obtain rest where c: "csv_text table = csv_line (hd table) @ nl # rest" using t(1) by (metis list.collapse)
  let ?l = "takeWhile (\<lambda>c. c \<noteq> cr \<and> c \<noteq> nl) (csv_text table)"
  have l: "hd (split_lines (csv_text table)) = ?l" by (rule split_lines_hd)
  have "takeWhile P (xs @ y # ys) = takeWhile P xs" if "\<not> P y" for P :: "jchar \<Rightarrow> bool" and xs y ys
    using that by (induction xs) simp_all
  then have "?l = takeWhile (\<lambda>c. c \<noteq> cr \<and> c \<noteq> nl) (csv_line (hd table))" by (simp add: c)
  then have "set ?l \<subseteq> set (csv_line (hd table))" by (simp add: subset_iff) (blast dest: set_takeWhileD)
  moreover have "set (csv_line (hd table)) \<inter> {tab_char, 59, pipe} = {}"
  proof -
    have "set (lit ''Submitted'') \<inter> {tab_char, 59, pipe} = {}" by code_simp
    moreover have "set (col_label c) \<inter> {tab_char, 59, pipe} = {}" if "c \<in> set columns" for c
      using assms(2) that by (auto simp: list_all_iff plain_label_def)
    moreover have "{comma, quote, 39} \<inter> {tab_char, 59, pipe} = ({} :: jchar set)" by code_simp
    ultimately show ?thesis using csv_line_set [of "hd table"] unfolding t(2) by fastforce
  qed
  ultimately show "set (hd (split_lines (csv_text table))) \<inter> {tab_char, 59, pipe} = {}" unfolding l by blast
  have "csvCell (lit ''Submitted'') = lit ''Submitted''" by code_simp
  then obtain xs where "csv_line (hd table) = lit ''Submitted'' @ xs" unfolding t(2) by (cases columns) (simp_all add: csv_line_def join_Cons)
  moreover have "lit ''Submitted'' = 83 # tl (lit ''Submitted'')" by code_simp
  ultimately obtain ys where "csv_text table = 83 # ys" using c by (metis append_Cons)
  then have "hd ?l = 83" "?l \<noteq> []" by simp_all
  moreover have "\<not> js_ws 83" by code_simp
  ultimately show "trim (hd (split_lines (csv_text table))) \<noteq> []" unfolding l by (intro trim_visible) simp_all
qed

text \<open>
  Property C16: an export of answers is read back cell by cell, quotes, delimiters and line breaks
  included; the only differences are the apostrophe in front of a formula and the blank rows at the
  end. That holds when the comma is given, and when the delimiter is guessed, as the preview of a
  \<open>.csv\<close> file does, if no question label has a tab, a semicolon or a bar in it.
\<close>

theorem csv_export_read_back:
  assumes "csv_table columns responses fmt = Some table" "responsesToCsv columns responses fmt = Some text"
    and "delimiter = Some [comma] \<or> delimiter = None \<and> list_all (\<lambda>c. plain_label (col_label c)) columns"
  shows "parseDelimited text delimiter = drop_blank_rows (map (map guard_cell) table)"
proof -
  have t: "text = csv_text table" using assms by (simp add: responsesToCsv_def csv_text_def)
  have c: "parseDelimited text (Some [comma]) = drop_blank_rows (map (map guard_cell) table)"
    using csv_text_read csv_table_shape [OF assms(1)] t by simp
  have "parseDelimited text None = parseDelimited text (Some [comma])" if "list_all (\<lambda>c. plain_label (col_label c)) columns"
    using export_sniffed [OF assms(1) that] csv_text_bom csv_table_shape [OF assms(1)] t by (simp add: parseDelimited_def Let_def)
  then show ?thesis using c assms(3) by auto
qed

definition demo_columns :: "column list" where
  "demo_columns = [\<lparr>col_id = lit ''q1'', col_label = lit ''Name''\<rparr>]"

definition demo_answer :: json where
  "demo_answer = JObj [(lit ''id'', JStr (lit ''r1'')), (lit ''at'', JNum (Fin 0)),
     (lit ''answers'', JObj [(lit ''q1'', JStr (lit ''=1,2''))])]"

definition demo_format :: "column \<Rightarrow> answer_value \<Rightarrow> jstring" where
  "demo_format col v = (case v of Given (JStr s) \<Rightarrow> s | _ \<Rightarrow> [])"

definition demo_csv :: jstring where
  "demo_csv = lit ''Submitted,Name'' @ [nl, comma, quote, 39] @ lit ''=1,2'' @ [quote, nl]"

lemma demo_csv_made:
  "csv_table demo_columns [demo_answer] demo_format = Some [[lit ''Submitted'', lit ''Name''], [[], lit ''=1,2'']]"
  "responsesToCsv demo_columns [demo_answer] demo_format = Some demo_csv"
  by code_simp+

theorem csv_export_read_back_witness:
  "parseDelimited demo_csv None = [[lit ''Submitted'', lit ''Name''], [[], [39] @ lit ''=1,2'']]"
proof -
  have "drop_blank_rows (map (map guard_cell) [[lit ''Submitted'', lit ''Name''], [[], lit ''=1,2'']])
      = [[lit ''Submitted'', lit ''Name''], [[], [39] @ lit ''=1,2'']]" by code_simp
  moreover have "list_all (\<lambda>c. plain_label (col_label c)) demo_columns" by code_simp
  ultimately show ?thesis using csv_export_read_back [OF demo_csv_made, of None] by simp
qed

text \<open>
  An export whose labels have semicolons in them can be misread. With the label
  \<open>A;B;C\<close> and the answer \<open>x;y;z\<close> the semicolon divides every line more finely than the comma
  does, so the preview guesses it, and the rows it shows are not those of the export.
\<close>

definition semicolon_columns :: "column list" where
  "semicolon_columns = [\<lparr>col_id = lit ''q1'', col_label = lit ''A;B;C''\<rparr>]"

definition semicolon_answer :: json where
  "semicolon_answer = JObj [(lit ''id'', JStr (lit ''r1'')), (lit ''at'', JNum (Fin 0)),
     (lit ''answers'', JObj [(lit ''q1'', JStr (lit ''x;y;z''))])]"

theorem csv_export_misread:
  "csv_table semicolon_columns [semicolon_answer] demo_format = Some [[lit ''Submitted'', lit ''A;B;C''], [[], lit ''x;y;z'']]
   \<and> map_option (\<lambda>text. parseDelimited text None) (responsesToCsv semicolon_columns [semicolon_answer] demo_format)
     = Some [[lit ''Submitted,A'', lit ''B'', lit ''C''], [lit '',x'', lit ''y'', lit ''z'']]"
  by code_simp

text \<open>
  No cell of an export starts with a character that a spreadsheet runs as a formula,
  whatever a stranger typed.
\<close>

theorem csv_no_formula:
  assumes "responsesToCsv columns responses fmt = Some text"
  shows "list_all (list_all (\<lambda>cell. \<not> formula_start cell)) (parseDelimited text (Some [comma]))"
proof -
  obtain table where t: "csv_table columns responses fmt = Some table" "text = csv_text table"
    using assms by (auto simp: responsesToCsv_def csv_text_def)
  have "parseDelimited text (Some [comma]) = drop_blank_rows (map (map guard_cell) table)"
    using csv_text_read csv_table_shape [OF t(1)] t(2) by simp
  moreover have "list_all (list_all (\<lambda>cell. \<not> formula_start cell)) (map (map guard_cell) table)"
    by (auto simp: list_all_iff)
  ultimately show ?thesis using list_all_drop_blank by simp
qed

theorem csv_no_formula_witness:
  "list_all (list_all (\<lambda>cell. \<not> formula_start cell)) (parseDelimited demo_csv (Some [comma]))"
  by (rule csv_no_formula [OF demo_csv_made(2)])

text \<open>
  The export fails exactly when some answer has a time stamp outside the range of dates;
  one such line of the log makes the whole export fail.
\<close>

theorem csv_export_fails_iff:
  "responsesToCsv columns responses fmt = None \<longleftrightarrow> list_ex (\<lambda>r. sent_text r = None) responses"
proof -
  have "csv_rows columns fmt rs = None \<longleftrightarrow> list_ex (\<lambda>r. sent_text r = None) rs" for rs
    by (induction rs) (auto split: option.splits)
  then show ?thesis by (simp add: responsesToCsv_def csv_table_def)
qed

section \<open>The log keeps the last line of each answer\<close>

text \<open>The last line with an id, and whether it is live.\<close>

definition last_line :: "json list \<Rightarrow> jstring \<Rightarrow> json option" where
  "last_line rs i = (let ms = filter (\<lambda>r. rec_id r = Some i) rs in if ms = [] then None else Some (last ms))"

definition live_line :: "json list \<Rightarrow> jstring \<Rightarrow> json option" where
  "live_line rs i = (case last_line rs i of None \<Rightarrow> None | Some r \<Rightarrow> if rec_deleted r then None else Some r)"

lemma last_line_snoc: "last_line (rs @ [r]) i = (if rec_id r = Some i then Some r else last_line rs i)"
  by (simp add: last_line_def Let_def)

lemma live_line_snoc:
  "live_line (rs @ [r]) i = (if rec_id r = Some i then (if rec_deleted r then None else Some r) else live_line rs i)"
  by (simp add: live_line_def last_line_snoc)

lemma live_line_id: "live_line rs i = Some r \<Longrightarrow> rec_id r = Some i \<and> \<not> rec_deleted r \<and> r \<in> set rs"
  by (induction rs rule: rev_induct) (auto simp: live_line_snoc live_line_def last_line_def split: if_splits)

lemma latest_fold:
  "let st = foldl latest_step ([], Map.empty) rs in
     snd st = live_line rs \<and> distinct (fst st) \<and> set (fst st) = {i. \<exists>r\<in>set rs. rec_id r = Some i \<and> \<not> rec_deleted r}"
proof (induction rs rule: rev_induct)
  case Nil
  then show ?case by (auto simp: live_line_def last_line_def)
next
  case (snoc r rs)
  then show ?case
    by (cases "rec_id r") (auto simp: Let_def latest_step_def live_line_snoc fun_eq_iff)
qed

definition response_order :: "json list \<Rightarrow> jstring list" where
  "response_order rs = fst (foldl latest_step ([], Map.empty) rs)"

lemma latestResponses_alt: "latestResponses rs = List.map_filter (live_line rs) (response_order rs)"
  using latest_fold [of rs] by (simp add: latestResponses_def response_order_def Let_def)

lemma response_order:
  "distinct (response_order rs)" "set (response_order rs) = {i. \<exists>r\<in>set rs. rec_id r = Some i \<and> \<not> rec_deleted r}"
  using latest_fold [of rs] by (auto simp: response_order_def Let_def)

lemma latest_ids:
  "map rec_id (latestResponses rs) = map Some (filter (\<lambda>i. live_line rs i \<noteq> None) (response_order rs))"
proof -
  have "map rec_id (List.map_filter (live_line rs) is) = map Some (filter (\<lambda>i. live_line rs i \<noteq> None) is)" for "is"
    by (induction "is") (auto simp: map_filter_simps live_line_id split: option.splits)
  then show ?thesis by (simp add: latestResponses_alt)
qed

text \<open>
  The answers shown are exactly the last lines that are live: a line of the log is shown
  if and only if no later line has its id and it is no tombstone; every id is shown once.
\<close>

theorem latest_responses_exact:
  "set (latestResponses records) = {r. \<exists>i. live_line records i = Some r} \<and> distinct (map rec_id (latestResponses records))"
proof
  have "i \<in> set (response_order records)" if "live_line records i = Some r" for i r
    using live_line_id [OF that] response_order(2) [of records] by auto
  then show "set (latestResponses records) = {r. \<exists>i. live_line records i = Some r}"
    by (auto simp: latestResponses_alt map_filter_def image_iff) (metis option.sel)
  show "distinct (map rec_id (latestResponses records))"
    unfolding latest_ids using response_order(1) by (simp add: distinct_map)
qed

lemma latest_fixed:
  assumes "list_all (\<lambda>r. rec_id r \<noteq> None \<and> \<not> rec_deleted r) rs" "distinct (map rec_id rs)"
  shows "latestResponses rs = rs \<and> response_order rs = map (the \<circ> rec_id) rs"
  using assms
proof (induction rs rule: rev_induct)
  case Nil
  then show ?case by (simp add: latestResponses_alt response_order_def map_filter_simps)
next
  case (snoc r rs)
  then have IH: "latestResponses rs = rs" "response_order rs = map (the \<circ> rec_id) rs" by auto
  obtain i where i: "rec_id r = Some i" "\<not> rec_deleted r" using snoc.prems(1) by auto
  then have n: "i \<notin> set (response_order rs)" using snoc.prems(2) IH(2) snoc.prems(1)
    by (auto simp: list_all_iff image_iff)
  then have o: "response_order (rs @ [r]) = response_order rs @ [i]" using i
    by (simp add: response_order_def latest_step_def)
  have "List.map_filter (live_line (rs @ [r])) (response_order rs) = List.map_filter (live_line rs) (response_order rs)"
    using n i by (auto simp: map_filter_def live_line_snoc intro!: arg_cong2 [where f = map] filter_cong map_cong)
  then have "latestResponses (rs @ [r]) = latestResponses rs @ [r]"
    using o i by (simp add: latestResponses_alt live_line_snoc map_filter_def)
  then show ?case using IH o i by simp
qed

text \<open>
  Running the fold again over its own result changes nothing, as the comment claims: the
  server and the browser may both do it.
\<close>

theorem latest_responses_idempotent: "latestResponses (latestResponses records) = latestResponses records"
proof -
  have "\<exists>i. live_line records i = Some r" if "r \<in> set (latestResponses records)" for r
    using that by (auto simp: latestResponses_alt map_filter_def)
  then have "list_all (\<lambda>r. rec_id r \<noteq> None \<and> \<not> rec_deleted r) (latestResponses records)"
    using live_line_id by (force simp: list_all_iff)
  moreover have "distinct (map rec_id (latestResponses records))"
    unfolding latest_ids using response_order(1) by (simp add: distinct_map)
  ultimately show ?thesis using latest_fixed by blast
qed

section \<open>Opening, saving and opening again\<close>

definition setting :: "json option \<Rightarrow> jstring \<Rightarrow> json option" where
  "setting raw key = (case raw of Some v \<Rightarrow> get_prop v key | None \<Rightarrow> None)"

definition known_values :: "json option \<Rightarrow> jobject" where
  "known_values raw =
     [(lit ''responseLimit'', JStr (if setting raw (lit ''responseLimit'') = Some (JStr (lit ''one'')) then lit ''one'' else lit ''unlimited'')),
      (lit ''allowEdits'', JBool (setting raw (lit ''allowEdits'') \<noteq> Some (JBool False))),
      (lit ''collecting'', JBool (setting raw (lit ''collecting'') \<noteq> Some (JBool False))),
      (lit ''thankYou'', text_or_empty (setting raw (lit ''thankYou''))),
      (lit ''closeOn'', text_or_empty (setting raw (lit ''closeOn''))),
      (lit ''maxResponses'', max_responses (setting raw (lit ''maxResponses'')))]"

definition raw_extras :: "json option \<Rightarrow> jobject" where
  "raw_extras raw = (case raw of Some (JObj ps) \<Rightarrow> setting_extras ps | _ \<Rightarrow> [])"

lemma canonicalSettings_alt: "canonicalSettings raw = raw_extras raw @ known_values raw"
  by (simp add: canonicalSettings_def known_values_def raw_extras_def setting_def get_prop_def setting_extras_def
      split: option.split json.split)

lemma known_keys: "known_settings = [lit ''responseLimit'', lit ''allowEdits'', lit ''collecting'', lit ''thankYou'', lit ''closeOn'', lit ''maxResponses'']"
  "distinct known_settings" "proto_key \<notin> set known_settings" "map fst (known_values raw) = known_settings"
proof -
  show k: "known_settings = [lit ''responseLimit'', lit ''allowEdits'', lit ''collecting'', lit ''thankYou'', lit ''closeOn'', lit ''maxResponses'']"
    by (simp add: known_settings_def SETTING_DEFAULTS_def)
  show "distinct known_settings" "proto_key \<notin> set known_settings" by code_simp+
  show "map fst (known_values raw) = known_settings" by (simp add: known_values_def k)
qed

lemma extras_unknown: "key \<in> set known_settings \<Longrightarrow> map_of (raw_extras raw) key = None"
  by (auto simp: raw_extras_def setting_extras_def map_of_eq_None_iff split: option.split json.split)

lemma extras_again: "setting_extras (raw_extras raw @ known_values raw) = raw_extras raw"
proof -
  have "setting_extras (known_values raw) = []"
  proof -
    have "fst kv \<in> set known_settings" if "kv \<in> set (known_values raw)" for kv
      using that known_keys(4) [of raw] by (metis in_set_conv_nth length_map nth_map nth_mem)
    then show ?thesis by (auto simp: setting_extras_def filter_empty_conv)
  qed
  moreover have "setting_extras (raw_extras raw) = raw_extras raw"
    by (auto simp: raw_extras_def setting_extras_def filter_filter split: option.split json.split)
  ultimately show ?thesis by (simp add: setting_extras_def)
qed

lemma setting_again:
  assumes "i < length known_settings"
  shows "setting (Some (JObj (canonicalSettings raw))) (known_settings ! i) = Some (snd (known_values raw ! i))"
proof -
  have l: "length (known_values raw) = length known_settings" using known_keys(4) [of raw] by (metis length_map)
  have "(known_settings ! i, snd (known_values raw ! i)) = known_values raw ! i"
    using known_keys(4) [of raw] assms l by (metis nth_map prod.collapse)
  then have "(known_settings ! i, snd (known_values raw ! i)) \<in> set (known_values raw)" using assms l by (metis nth_mem)
  then have "map_of (known_values raw) (known_settings ! i) = Some (snd (known_values raw ! i))"
    using known_keys(2,4) by (intro map_of_is_SomeI) simp_all
  moreover have "map_of (raw_extras raw) (known_settings ! i) = None" using assms by (intro extras_unknown) simp
  ultimately show ?thesis
    by (simp add: setting_def get_prop_def canonicalSettings_alt map_add_def)
qed

lemma max_responses_again:
  "max_responses (Some (max_responses v)) = max_responses v \<longleftrightarrow> (\<nexists>x. v = Some (JNum (Fin x)) \<and> 0 < x \<and> x < 1)"
proof (cases "\<exists>x. v = Some (JNum (Fin x)) \<and> 0 < x")
  case True
  then obtain x where x: "v = Some (JNum (Fin x))" "0 < x" by auto
  then have "max_responses v = JNum (Fin (of_int \<lfloor>x\<rfloor>))" by (simp add: max_responses_def)
  moreover have "0 < (of_int \<lfloor>x\<rfloor> :: rat) \<longleftrightarrow> \<not> x < 1" using x(2) by (simp add: zero_less_floor not_less)
  ultimately show ?thesis using x by (simp add: max_responses_def)
next
  case False
  then have "max_responses v = JNull" by (auto simp: max_responses_def split: option.split json.split jnum.split)
  moreover have "max_responses (Some JNull) = JNull" by (simp add: max_responses_def)
  ultimately show ?thesis using False by auto
qed

lemma known_again:
  "known_values (Some (JObj (canonicalSettings raw))) = known_values raw \<longleftrightarrow>
   max_responses (Some (max_responses (setting raw (lit ''maxResponses'')))) = max_responses (setting raw (lit ''maxResponses''))"
proof -
  let ?c = "Some (JObj (canonicalSettings raw))"
  have a: "setting ?c (lit ''responseLimit'') = Some (snd (known_values raw ! 0))"
    "setting ?c (lit ''allowEdits'') = Some (snd (known_values raw ! 1))"
    "setting ?c (lit ''collecting'') = Some (snd (known_values raw ! 2))"
    "setting ?c (lit ''thankYou'') = Some (snd (known_values raw ! 3))"
    "setting ?c (lit ''closeOn'') = Some (snd (known_values raw ! 4))"
    "setting ?c (lit ''maxResponses'') = Some (snd (known_values raw ! 5))"
    using setting_again [of 0 raw] setting_again [of 1 raw] setting_again [of 2 raw] setting_again [of 3 raw]
      setting_again [of 4 raw] setting_again [of 5 raw] by (simp_all add: known_keys(1))
  have n: "lit ''one'' \<noteq> lit ''unlimited''" by code_simp
  have t: "text_or_empty (Some (text_or_empty v)) = text_or_empty v" for v
    by (simp add: text_or_empty_def split: option.split json.split)
  show ?thesis unfolding known_values_def [of ?c] a
    by (simp add: known_values_def t n)
qed

text \<open>
  Settings are canonical after one pass, unknown keys in place and first, with one
  exception: a limit strictly between 0 and 1 becomes 0 on the first pass and no limit on the second.
\<close>

theorem canonical_settings_idempotent_iff:
  "canonicalSettings (Some (JObj (canonicalSettings raw))) = canonicalSettings raw \<longleftrightarrow>
   (\<nexists>x. setting raw (lit ''maxResponses'') = Some (JNum (Fin x)) \<and> 0 < x \<and> x < 1)"
proof -
  have "raw_extras (Some (JObj (canonicalSettings raw))) = raw_extras raw"
    by (simp add: raw_extras_def [of "Some _"] canonicalSettings_alt extras_again)
  then have "canonicalSettings (Some (JObj (canonicalSettings raw))) = canonicalSettings raw
      \<longleftrightarrow> known_values (Some (JObj (canonicalSettings raw))) = known_values raw"
    by (metis canonicalSettings_alt same_append_eq)
  then show ?thesis using known_again max_responses_again by simp
qed

text \<open>What an opened form looks like.\<close>

definition form_wf :: "jobject \<Rightarrow> bool" where
  "form_wf doc \<longleftrightarrow>
     (\<exists>v. map_of doc (lit ''version'') = Some (JNum (Fin v)) \<and> v \<le> FORM_DOC_VERSION)
     \<and> is_string (map_of doc (lit ''title'')) \<and> is_string (map_of doc (lit ''description''))
     \<and> (\<exists>raw. map_of doc (lit ''settings'') = Some (JObj (canonicalSettings raw)))
     \<and> (\<exists>qs. map_of doc (lit ''questions'') = Some (JArr qs) \<and> list_all isObject qs)"

lemma field_keys:
  "lit ''version'' \<noteq> lit ''title''" "lit ''version'' \<noteq> lit ''description''" "lit ''version'' \<noteq> lit ''settings''"
  "lit ''version'' \<noteq> lit ''questions''" "lit ''title'' \<noteq> lit ''description''" "lit ''title'' \<noteq> lit ''settings''"
  "lit ''title'' \<noteq> lit ''questions''" "lit ''description'' \<noteq> lit ''settings''" "lit ''description'' \<noteq> lit ''questions''"
  "lit ''settings'' \<noteq> lit ''questions''"
  by code_simp+

lemma map_of_default_text:
  "map_of (default_text key doc) k = (if k = key \<and> \<not> is_string (map_of doc key) then Some (JStr []) else map_of doc k)"
  by (simp add: default_text_def map_of_obj_set)

lemma form_fields_wf:
  assumes "v \<le> FORM_DOC_VERSION"
  shows "form_wf (form_fields raw (Fin v))"
proof -
  let ?d = "form_fields raw (Fin v)"
  have "map_of ?d (lit ''version'') = Some (JNum (Fin v))"
    "map_of ?d (lit ''settings'') = Some (JObj (canonicalSettings (map_of raw (lit ''settings''))))"
    "map_of ?d (lit ''questions'') = Some (form_questions (map_of raw (lit ''questions'')))"
    "is_string (map_of ?d (lit ''title''))" "is_string (map_of ?d (lit ''description''))"
    using field_keys field_keys [symmetric]
    by (simp_all add: form_fields_def map_of_obj_set map_of_default_text is_string_def split: option.split json.split)
  moreover have "\<exists>qs. form_questions v = JArr qs \<and> list_all isObject qs" for v
    by (simp add: form_questions_def split: option.split json.split)
  ultimately show ?thesis using assms unfolding form_wf_def by (metis option.inject)
qed

lemma blank_form_wf: "form_wf (blankFormDocument t)"
proof -
  have "SETTING_DEFAULTS = canonicalSettings None"
    by (simp add: SETTING_DEFAULTS_def canonicalSettings_def setting_extras_def text_or_empty_def max_responses_def)
  moreover have "map_of (blankFormDocument t) (lit ''version'') = Some (JNum (Fin FORM_DOC_VERSION))"
    "map_of (blankFormDocument t) (lit ''title'') = Some (JStr t)"
    "map_of (blankFormDocument t) (lit ''description'') = Some (JStr [])"
    "map_of (blankFormDocument t) (lit ''settings'') = Some (JObj SETTING_DEFAULTS)"
    "map_of (blankFormDocument t) (lit ''questions'') = Some (JArr [])"
    using field_keys field_keys [symmetric] by (simp_all add: blankFormDocument_def)
  ultimately show ?thesis by (auto simp: form_wf_def is_string_def)
qed

lemma parsed_form: "parseFormDocument json_parse text = FormOk doc \<Longrightarrow> form_wf doc"
  by (auto simp: parseFormDocument_def Let_def broken_form_def newer_form_def not_less
      intro: blank_form_wf form_fields_wf split: if_splits option.splits json.splits jnum.splits)

text \<open>
  Property C39: a form that opens has the fields the builder reads: a version this Luna knows, texts for
  title and description, canonical settings, and questions that are objects, whatever the file holds.
\<close>

theorem opened_form_wf:
  assumes "parseFormDocument json_parse text = FormOk doc"
  shows "form_wf doc"
  using assms by (rule parsed_form)

definition demo_parse :: "jstring \<Rightarrow> json option" where
  "demo_parse s = (if s = lit ''{}'' then Some (JObj (blankFormDocument (lit ''RSVP''))) else None)"

lemma form_fields_same:
  assumes "form_wf doc" "map_of doc (lit ''version'') = Some (JNum (Fin v))"
    and "setting (map_of doc (lit ''settings'')) (lit ''maxResponses'') \<noteq> Some (JNum (Fin 0))"
  shows "form_fields doc (Fin v) = doc"
proof -
  obtain raw where raw: "map_of doc (lit ''settings'') = Some (JObj (canonicalSettings raw))" using assms(1) by (auto simp: form_wf_def)
  obtain qs where qs: "map_of doc (lit ''questions'') = Some (JArr qs)" "list_all isObject qs" using assms(1) by (auto simp: form_wf_def)
  have "setting (map_of doc (lit ''settings'')) (lit ''maxResponses'') = Some (max_responses (setting raw (lit ''maxResponses'')))"
    using setting_again [of 5 raw] raw by (simp add: known_keys(1) known_values_def)
  then have "\<nexists>x. setting raw (lit ''maxResponses'') = Some (JNum (Fin x)) \<and> 0 < x \<and> x < 1"
    using assms(3) by (auto simp: max_responses_def floor_eq_iff)
  then have "known_values (Some (JObj (canonicalSettings raw))) = known_values raw"
    using known_again max_responses_again by simp
  then have c: "canonicalSettings (map_of doc (lit ''settings'')) = canonicalSettings raw"
    by (simp add: raw canonicalSettings_alt [of "Some _"] raw_extras_def [of "Some _"])
      (simp add: canonicalSettings_alt extras_again)
  have "filter isObject qs = qs" using qs(2) by (simp add: list_all_iff)
  then have "form_questions (map_of doc (lit ''questions'')) = JArr qs" by (simp add: form_questions_def qs)
  moreover have "is_string (map_of doc (lit ''title''))" "is_string (map_of doc (lit ''description''))"
    using assms(1) by (auto simp: form_wf_def)
  ultimately show ?thesis using c assms(2) raw qs by (simp add: form_fields_def default_text_def obj_set_same)
qed

lemma form_fields_again:
  assumes "form_wf doc" "map_of doc (lit ''version'') = Some (JNum (Fin v))"
  shows "form_fields doc (Fin v) = doc \<longleftrightarrow> setting (map_of doc (lit ''settings'')) (lit ''maxResponses'') \<noteq> Some (JNum (Fin 0))"
proof
  assume e: "form_fields doc (Fin v) = doc"
  have "map_of (form_fields doc (Fin v)) (lit ''settings'') = Some (JObj (canonicalSettings (map_of doc (lit ''settings''))))"
    using field_keys by (simp add: form_fields_def map_of_obj_set)
  then have "setting (map_of doc (lit ''settings'')) (lit ''maxResponses'')
      = Some (max_responses (setting (map_of doc (lit ''settings'')) (lit ''maxResponses'')))"
    using setting_again [of 5 "map_of doc (lit ''settings'')"] by (simp add: e known_keys(1) known_values_def)
  then show "setting (map_of doc (lit ''settings'')) (lit ''maxResponses'') \<noteq> Some (JNum (Fin 0))"
    by (auto simp: max_responses_def)
qed (rule form_fields_same [OF assms])

text \<open>
  Property C17: a form that was opened and saved opens as the same document, extra fields and
  their order included, exactly when its limit of answers is not 0, given that JSON reads back what it
  wrote. (Opening leaves a limit of 0 only where the file had one between 0 and 1.)
\<close>

theorem form_reopens:
  assumes "parseFormDocument json_parse text = FormOk doc"
    and "json_parse (trim (serializeFormDocument json_text doc)) = Some (JObj doc)"
    and "trim (serializeFormDocument json_text doc) \<noteq> []"
  shows "parseFormDocument json_parse (serializeFormDocument json_text doc) = FormOk doc
    \<longleftrightarrow> setting (map_of doc (lit ''settings'')) (lit ''maxResponses'') \<noteq> Some (JNum (Fin 0))"
proof -
  have wf: "form_wf doc" using assms(1) by (rule parsed_form)
  then obtain v where v: "map_of doc (lit ''version'') = Some (JNum (Fin v))" "v \<le> FORM_DOC_VERSION" by (auto simp: form_wf_def)
  then have "form_version doc = Fin v" by (simp add: form_version_def)
  then show ?thesis using assms(2,3) v form_fields_again [OF wf v(1)] by (simp add: parseFormDocument_def Let_def)
qed

lemma demo_form:
  "trim (lit ''{}'') = lit ''{}''" "trim (serializeFormDocument (\<lambda>v. lit ''{}'') (blankFormDocument (lit ''RSVP''))) = lit ''{}''"
  "lit ''{}'' \<noteq> []"
  "setting (map_of (blankFormDocument (lit ''RSVP'')) (lit ''settings'')) (lit ''maxResponses'') = Some JNull"
  "form_version (blankFormDocument (lit ''RSVP'')) = Fin 1"
  "map_of (blankFormDocument (lit ''RSVP'')) (lit ''version'') = Some (JNum (Fin 1))"
  by code_simp+

lemma demo_form_opens: "parseFormDocument demo_parse (lit ''{}'') = FormOk (blankFormDocument (lit ''RSVP''))"
proof -
  have "form_fields (blankFormDocument (lit ''RSVP'')) (Fin 1) = blankFormDocument (lit ''RSVP'')"
    by (rule form_fields_same [OF blank_form_wf]) (simp_all add: demo_form)
  then show ?thesis by (simp add: parseFormDocument_def demo_form Let_def demo_parse_def FORM_DOC_VERSION_def)
qed

theorem opened_form_wf_witness: "form_wf (blankFormDocument (lit ''RSVP''))"
  using opened_form_wf [OF demo_form_opens] .

theorem form_reopens_witness:
  "parseFormDocument demo_parse (serializeFormDocument (\<lambda>v. lit ''{}'') (blankFormDocument (lit ''RSVP'')))
   = FormOk (blankFormDocument (lit ''RSVP''))"
  using form_reopens [OF demo_form_opens, of "\<lambda>v. lit ''{}''"] by (simp add: demo_form demo_parse_def)

section \<open>Edit tokens\<close>

definition token_alphabet :: jstring where
  "token_alphabet = lit ''ABCDEFGHIJKLMNOPQRSTUVWXYZabcdefghijklmnopqrstuvwxyz0123456789-_''"

definition url_char :: "jchar \<Rightarrow> jchar" where
  "url_char c = (if c = 43 then dash else if c = slash then 95 else c)"

lemma token_alphabet: "length b64_alphabet = 64" "length token_alphabet = 64" "distinct token_alphabet" "61 \<notin> set token_alphabet"
  "map url_char b64_alphabet = token_alphabet"
  by code_simp+

lemma url_char_nth [simp]: "n < 64 \<Longrightarrow> url_char (b64_alphabet ! n) = token_alphabet ! n"
  using token_alphabet(1,5) nth_map [of n b64_alphabet url_char] by simp

lemma token_nth_eq: "i < 64 \<Longrightarrow> j < 64 \<Longrightarrow> token_alphabet ! i = token_alphabet ! j \<longleftrightarrow> i = j"
  using token_alphabet(2,3) by (simp add: nth_eq_iff_index_eq)

definition triple :: "8 word \<Rightarrow> 8 word \<Rightarrow> 8 word \<Rightarrow> nat" where
  "triple a b c = (unat a * 256 + unat b) * 256 + unat c"

lemma unat_byte: "unat (a :: 8 word) < 256"
  using unsigned_less [of a, where 'a = nat] by simp

lemma triple_less: "triple a b c < 16777216"
  using unat_byte [of a] unat_byte [of b] unat_byte [of c] by (simp add: triple_def)

lemma base256_eq:
  assumes "c < 256" "z < 256"
  shows "m * 256 + c = n * 256 + (z :: nat) \<longleftrightarrow> m = n \<and> c = z"
proof
  assume e: "m * 256 + c = n * 256 + z"
  have "(m * 256 + c) div 256 = m" "(n * 256 + z) div 256 = n" using assms by simp_all
  then show "m = n \<and> c = z" using e by auto
qed simp

lemma triple_eq: "triple a b c = triple x y z \<longleftrightarrow> a = x \<and> b = y \<and> c = z"
  unfolding triple_def by (simp add: base256_eq unat_byte word_unat_eq_iff del: distrib_right_numeral)

definition quad :: "nat \<Rightarrow> jstring" where
  "quad n = [token_alphabet ! (n div 262144), token_alphabet ! (n div 4096 mod 64),
     token_alphabet ! (n div 64 mod 64), token_alphabet ! (n mod 64)]"

lemma quad_eq: "m < 16777216 \<Longrightarrow> n < 16777216 \<Longrightarrow> quad m = quad n \<longleftrightarrow> m = n"
proof
  assume b: "m < 16777216" "n < 16777216" and q: "quad m = quad n"
  have "m div 262144 < 64" "n div 262144 < 64" using b by (auto simp: less_mult_imp_div_less)
  then have d: "m div 262144 = n div 262144" "m div 4096 mod 64 = n div 4096 mod 64"
    "m div 64 mod 64 = n div 64 mod 64" "m mod 64 = n mod 64"
    using q by (simp_all add: quad_def token_nth_eq)
  have e: "k = (k div 262144) * 262144 + (k div 4096 mod 64) * 4096 + (k div 64 mod 64) * 64 + k mod 64" for k :: nat
  proof -
    have "k div 64 div 64 = k div 4096" "k div 4096 div 64 = k div 262144"
      by (simp_all add: div_mult2_eq [symmetric])
    then show ?thesis
      using div_mult_mod_eq [of k 64] div_mult_mod_eq [of "k div 64" 64] div_mult_mod_eq [of "k div 4096" 64] by linarith
  qed
  show "m = n" using e [of m] e [of n] d by metis
qed simp

lemma quad_set: "n < 16777216 \<Longrightarrow> set (quad n) \<subseteq> set token_alphabet"
  using token_alphabet(2) by (auto simp: quad_def less_mult_imp_div_less)

lemma btoa_quads: "map url_char (btoa (a # b # c # bs)) = quad (triple a b c) @ map url_char (btoa bs)"
  using triple_less [of a b c] by (simp add: quad_def triple_def Let_def less_mult_imp_div_less)

lemma token_of_triples:
  "length buf = 3 * k \<Longrightarrow> length (map url_char (btoa buf)) = 4 * k \<and> set (map url_char (btoa buf)) \<subseteq> set token_alphabet"
proof (induction k arbitrary: buf)
  case (Suc k)
  then obtain a b c bs where "buf = a # b # c # bs" "length bs = 3 * k"
    by (auto simp: length_Suc_conv numeral_3_eq_3)
  then show ?case using Suc.IH [of bs] quad_set [OF triple_less, of a b c] btoa_quads [of a b c bs] by (simp add: quad_def)
qed simp

lemma token_inj:
  "length buf = 3 * k \<Longrightarrow> length buf' = 3 * k \<Longrightarrow> map url_char (btoa buf) = map url_char (btoa buf') \<Longrightarrow> buf = buf'"
proof (induction k arbitrary: buf buf')
  case (Suc k)
  obtain a b c bs where b: "buf = a # b # c # bs" "length bs = 3 * k"
    using Suc.prems(1) by (auto simp: length_Suc_conv numeral_3_eq_3)
  obtain x y z bs' where b': "buf' = x # y # z # bs'" "length bs' = 3 * k"
    using Suc.prems(2) by (auto simp: length_Suc_conv numeral_3_eq_3)
  have "quad (triple a b c) @ map url_char (btoa bs) = quad (triple x y z) @ map url_char (btoa bs')"
    using Suc.prems(3) b b' btoa_quads by simp
  then have "quad (triple a b c) = quad (triple x y z)" "map url_char (btoa bs) = map url_char (btoa bs')"
    by (simp_all add: quad_def)
  then show ?case using Suc.IH b b' by (simp add: quad_eq triple_less triple_eq)
qed simp

lemma newEditToken_chars:
  assumes "length buf = 18"
  shows "newEditToken buf = map url_char (btoa buf)"
proof -
  have "61 \<notin> set (map url_char (btoa buf))" using token_of_triples [of buf 6] assms token_alphabet(4) by auto
  then have "dropWhile (\<lambda>c. c = 61) (rev (map url_char (btoa buf))) = rev (map url_char (btoa buf))"
    unfolding dropWhile_eq_self_iff by (metis hd_in_set set_rev)
  then show ?thesis by (simp add: newEditToken_def url_safe_def url_char_def [abs_def])
qed

text \<open>
  An edit token is 24 characters that need no escaping in an address or a cookie, and no
  two draws of 18 random bytes give the same token: no entropy is lost.
\<close>

theorem edit_token_injective:
  assumes "length buf = 18" "length buf' = 18" "newEditToken buf = newEditToken buf'"
  shows "buf = buf' \<and> length (newEditToken buf) = 24 \<and> set (newEditToken buf) \<subseteq> set token_alphabet"
  using assms token_inj [of buf 6 buf'] token_of_triples [of buf 6] by (simp add: newEditToken_chars)

theorem edit_token_injective_witness:
  "length (newEditToken (replicate 18 255)) = 24 \<and> set (newEditToken (replicate 18 255)) \<subseteq> set token_alphabet"
  using edit_token_injective [of "replicate 18 255" "replicate 18 255"] by simp

end
