(* ===== verification/JsSort.thy ===== *)
theory JsSort
  imports JsPrelude "HOL-Library.Multiset"
begin

text \<open>
  \<open>Array.prototype.sort\<close> with a comparison function. The standard leaves the algorithm open but asks
  for a stable sort when the comparison is consistent, which determines the result; it is given here
  by insertion, and shown to be a stable permutation into order.
\<close>

fun insert_by :: "('a \<Rightarrow> 'a \<Rightarrow> int) \<Rightarrow> 'a \<Rightarrow> 'a list \<Rightarrow> 'a list" where
  "insert_by f x [] = [x]"
| "insert_by f x (y # ys) = (if f x y \<le> 0 then x # y # ys else y # insert_by f x ys)"

declare insert_by.simps [js_eval]

definition sort_by :: "('a \<Rightarrow> 'a \<Rightarrow> int) \<Rightarrow> 'a list \<Rightarrow> 'a list" where
  [js_eval]: "sort_by f xs = foldr (insert_by f) xs []"

lemma sort_by_simps [simp]: "sort_by f [] = []" "sort_by f (x # xs) = insert_by f x (sort_by f xs)"
  by (simp_all add: sort_by_def)

lemma set_insert_by [simp]: "set (insert_by f x xs) = insert x (set xs)"
  by (induction xs) auto

lemma mset_insert_by [simp]: "mset (insert_by f x xs) = add_mset x (mset xs)"
  by (induction xs) auto

lemma mset_sort_by [simp]: "mset (sort_by f xs) = mset xs"
  by (induction xs) simp_all

lemma set_sort_by [simp]: "set (sort_by f xs) = set xs"
  by (induction xs) simp_all

lemma length_sort_by [simp]: "length (sort_by f xs) = length xs"
  by (metis mset_sort_by size_mset)

text \<open>A consistent comparison is a total preorder.\<close>

definition consistent :: "('a \<Rightarrow> 'a \<Rightarrow> int) \<Rightarrow> bool" where
  "consistent f \<longleftrightarrow> (\<forall>x y. f x y \<le> 0 \<or> f y x \<le> 0) \<and> (\<forall>x y z. f x y \<le> 0 \<and> f y z \<le> 0 \<longrightarrow> f x z \<le> 0)"

lemma sort_by_sorted:
  assumes "consistent f"
  shows "sorted_wrt (\<lambda>x y. f x y \<le> 0) (sort_by f xs)"
proof -
  have tot: "f x y \<le> 0 \<or> f y x \<le> 0" and tr: "f x y \<le> 0 \<Longrightarrow> f y z \<le> 0 \<Longrightarrow> f x z \<le> 0" for x y z
    using assms unfolding consistent_def by blast+
  have ins: "sorted_wrt (\<lambda>x y. f x y \<le> 0) (insert_by f x ys)" if "sorted_wrt (\<lambda>x y. f x y \<le> 0) ys" for x ys
    using that
  proof (induction ys)
    case (Cons y ys)
    then show ?case using tot [of x y] tr [of x y] by auto
  qed simp
  show ?thesis by (induction xs) (simp_all add: ins)
qed

text \<open>Elements that the comparison does not tell apart keep their order.\<close>

lemma sort_by_stable:
  assumes "\<And>x y. P x \<Longrightarrow> P y \<Longrightarrow> f x y \<le> 0"
  shows "filter P (sort_by f xs) = filter P xs"
proof -
  have "filter P (insert_by f x ys) = (if P x then x # filter P ys else filter P ys)" for x ys
    using assms by (induction ys) auto
  then show ?thesis by (induction xs) auto
qed

end
