(* ===== verification/TableModel.thy ===== *)
theory TableModel
  imports Interfaces JsSort
begin

text \<open>
  The pipe-table model behind the Markdown table editor, \<open>components/files/markdownTableModel.js\<close>:
  cells and their escapes, splitting a line into source spans, parsing and printing a table, and the
  structure operations of the table menus.

  The GFM parser of the package \<open>@lezer/markdown\<close> is the argument \<open>gfm\<close>: the top-level nodes
  it finds in a source. \<open>Intl.Collator.compare\<close> is the argument \<open>collate\<close> of the sort. An
  alignment is one of the four strings the source uses, as a datatype.
\<close>

section \<open>Cells\<close>

definition isEscaped :: "jstring \<Rightarrow> nat \<Rightarrow> bool" where
  [js_eval]: "isEscaped s i \<longleftrightarrow> odd (length (takeWhile (\<lambda>c. c = backslash) (rev (take i s))))"

definition decodeTableCell :: "jstring \<Rightarrow> jstring" where
  [js_eval]: "decodeTableCell raw = trim raw"

text \<open>\<open>replace(/\r\n|\r|\n/g, " ")\<close>.\<close>

fun flatten_breaks :: "jstring \<Rightarrow> jstring" where
  "flatten_breaks [] = []"
| "flatten_breaks (c # cs) =
     (if c = cr \<and> cs \<noteq> [] \<and> hd cs = nl then space # flatten_breaks (tl cs)
      else if c = cr \<or> c = nl then space # flatten_breaks cs
      else c # flatten_breaks cs)"

definition encodeTableCell :: "jstring \<Rightarrow> jstring" where
  [js_eval]: "encodeTableCell value =
     (let s = flatten_breaks value
      in concat (map (\<lambda>i. (if s ! i = pipe \<and> \<not> isEscaped s i then [backslash] else []) @ [s ! i]) [0..<length s]))"

section \<open>Lines\<close>

record span =
  sp_from :: nat
  sp_to :: nat
  sp_raw :: jstring

definition slice :: "jstring \<Rightarrow> nat \<Rightarrow> nat \<Rightarrow> jstring" where
  [js_eval]: "slice s a b = drop a (take b s)"

definition line_delims :: "jstring \<Rightarrow> nat \<Rightarrow> nat \<Rightarrow> nat list" where
  [js_eval]: "line_delims line lead e = filter (\<lambda>i. line ! i = pipe \<and> \<not> isEscaped line i) [lead..<e]"

fun span_loop :: "jstring \<Rightarrow> nat \<Rightarrow> nat list \<Rightarrow> nat \<Rightarrow> span list" where
  "span_loop line segStart [] lastEnd = [\<lparr>sp_from = segStart, sp_to = lastEnd, sp_raw = slice line segStart lastEnd\<rparr>]"
| "span_loop line segStart (d # ds) lastEnd =
     \<lparr>sp_from = segStart, sp_to = d, sp_raw = slice line segStart d\<rparr> # span_loop line (d + 1) ds lastEnd"

definition splitLineSpans :: "jstring \<Rightarrow> span list" where
  [js_eval]: "splitLineSpans line =
     (let lead = length (takeWhile js_ws line);
          e = length line - length (takeWhile js_ws (rev line));
          delims = line_delims line lead e;
          open_at = (if delims \<noteq> [] \<and> hd delims = lead then Some (hd delims) else None);
          close_at = (if delims \<noteq> [] \<and> last delims + 1 = e \<and> Some (last delims) \<noteq> open_at then Some (last delims) else None)
      in span_loop line (case open_at of Some p \<Rightarrow> p + 1 | None \<Rightarrow> 0)
           (filter (\<lambda>d. Some d \<noteq> open_at \<and> Some d \<noteq> close_at) delims)
           (case close_at of Some p \<Rightarrow> p | None \<Rightarrow> e))"

definition splitTableLine :: "jstring \<Rightarrow> jstring list" where
  [js_eval]: "splitTableLine line = map (\<lambda>c. decodeTableCell (sp_raw c)) (splitLineSpans line)"

datatype align = AlignNone | AlignLeft | AlignCenter | AlignRight

definition alignmentOf :: "jstring \<Rightarrow> align" where
  [js_eval]: "alignmentOf cell =
     (let left = starts_with cell [colon]; right = ends_with cell [colon]
      in if left \<and> right then AlignCenter else if right then AlignRight else if left then AlignLeft else AlignNone)"

text \<open>\<open>/^:?-+:?$/\<close>.\<close>

definition MIN_CELL_DASHES :: "jstring \<Rightarrow> bool" where
  [js_eval]: "MIN_CELL_DASHES t =
     (let r = (if t \<noteq> [] \<and> hd t = colon then tl t else t); m = dropWhile (\<lambda>c. c = dash) r
      in r \<noteq> [] \<and> hd r = dash \<and> (m = [] \<or> m = [colon]))"

section \<open>Parsing\<close>

record syntax_node =
  nd_table :: bool
  nd_from :: nat
  nd_to :: nat

fun sole_loop :: "jstring \<Rightarrow> syntax_node option \<Rightarrow> syntax_node list \<Rightarrow> syntax_node option" where
  "sole_loop source found [] = found"
| "sole_loop source found (n # ns) =
     (if nd_table n then (if found \<noteq> None then None else sole_loop source (Some n) ns)
      else if trim (slice source (nd_from n) (nd_to n)) \<noteq> [] then None
      else sole_loop source found ns)"

definition soleTableNode :: "(jstring \<Rightarrow> syntax_node list) \<Rightarrow> jstring \<Rightarrow> syntax_node option" where
  [js_eval]: "soleTableNode gfm source = sole_loop source None (gfm source)"

text \<open>\<open>replace(/\r\n?/g, "\n")\<close>.\<close>

fun unix_breaks :: "jstring \<Rightarrow> jstring" where
  "unix_breaks [] = []"
| "unix_breaks (c # cs) =
     (if c = cr then nl # (if cs \<noteq> [] \<and> hd cs = nl then unix_breaks (tl cs) else unix_breaks cs)
      else c # unix_breaks cs)"

record line_rec =
  lr_line :: jstring
  lr_start :: nat

fun line_recs :: "nat \<Rightarrow> jstring list \<Rightarrow> line_rec list" where
  "line_recs off [] = []"
| "line_recs off (l # ls) = \<lparr>lr_line = l, lr_start = off\<rparr> # line_recs (off + length l + 1) ls"

record table_cell =
  tc_from :: nat
  tc_to :: nat
  tc_raw :: jstring
  tc_missing :: bool

record table_model =
  tm_header :: "jstring list"
  tm_align :: "align list"
  tm_body :: "jstring list list"

record table_doc =
  td_model :: table_model
  td_cells :: "table_cell list list"
  td_delim_from :: nat
  td_delim_to :: nat

definition pad_cells :: "nat \<Rightarrow> span list \<Rightarrow> line_rec \<Rightarrow> table_cell list" where
  [js_eval]: "pad_cells cols spans r =
     map (\<lambda>c. if c < length spans
              then \<lparr>tc_from = lr_start r + sp_from (spans ! c), tc_to = lr_start r + sp_to (spans ! c),
                    tc_raw = sp_raw (spans ! c), tc_missing = False\<rparr>
              else (let e = lr_start r + length (lr_line r)
                    in \<lparr>tc_from = e, tc_to = e, tc_raw = [], tc_missing = True\<rparr>))
       [0..<cols]"

definition pad_to :: "nat \<Rightarrow> 'a \<Rightarrow> 'a list \<Rightarrow> 'a list" where
  [js_eval]: "pad_to cols z xs = xs @ replicate (cols - length xs) z"

definition table_lines :: "(jstring \<Rightarrow> syntax_node list) \<Rightarrow> jstring \<Rightarrow> line_rec list option" where
  [js_eval]: "table_lines gfm source =
     (case soleTableNode gfm source of
        None \<Rightarrow> None
      | Some node \<Rightarrow>
          (let inTable = filter (\<lambda>r. trim (lr_line r) \<noteq> [] \<and> nd_from node \<le> lr_start r \<and> lr_start r < nd_to node)
                 (line_recs 0 (split_on nl source))
           in if length inTable < 2 then None else Some inTable))"

definition delimiter_align :: "span list \<Rightarrow> align list option" where
  [js_eval]: "delimiter_align spans =
     (let ts = map (\<lambda>s. trim (sp_raw s)) spans
      in if list_all MIN_CELL_DASHES ts then Some (map alignmentOf ts) else None)"

definition strict_ok :: "line_rec \<Rightarrow> line_rec \<Rightarrow> bool" where
  [js_eval]: "strict_ok headerRec delimRec \<longleftrightarrow>
     length (splitLineSpans (lr_line headerRec)) = length (splitLineSpans (lr_line delimRec))
     \<and> (pipe \<in> set (lr_line headerRec) \<or> pipe \<in> set (lr_line delimRec))"

definition table_cols :: "line_rec list \<Rightarrow> align list \<Rightarrow> nat" where
  [js_eval]: "table_cols inTable al =
     Max (set (length (splitLineSpans (lr_line (inTable ! 0))) # length al
       # map (\<lambda>r. length (splitLineSpans (lr_line r))) (drop 2 inTable)))"

definition build_table :: "line_rec list \<Rightarrow> align list \<Rightarrow> table_doc" where
  [js_eval]: "build_table inTable al =
     (let headerRec = inTable ! 0; delimRec = inTable ! 1; bodyRecs = drop 2 inTable;
          headerSpans = splitLineSpans (lr_line headerRec);
          bodySpans = map (\<lambda>r. splitLineSpans (lr_line r)) bodyRecs;
          cols = table_cols inTable al;
          cell_text = (\<lambda>s. decodeTableCell (sp_raw s))
      in \<lparr>td_model =
             \<lparr>tm_header = pad_to cols [] (map cell_text headerSpans),
              tm_align = pad_to cols AlignNone al,
              tm_body = map (\<lambda>row. pad_to cols [] (map cell_text row)) bodySpans\<rparr>,
           td_cells = pad_cells cols headerSpans headerRec # map (\<lambda>r. pad_cells cols (splitLineSpans (lr_line r)) r) bodyRecs,
           td_delim_from = lr_start delimRec,
           td_delim_to = lr_start delimRec + length (lr_line delimRec)\<rparr>)"

definition parseTableDocument :: "(jstring \<Rightarrow> syntax_node list) \<Rightarrow> jstring \<Rightarrow> bool \<Rightarrow> table_doc option" where
  [js_eval]: "parseTableDocument gfm text strict =
     (case table_lines gfm (unix_breaks text) of
        None \<Rightarrow> None
      | Some inTable \<Rightarrow>
          if splitLineSpans (lr_line (inTable ! 0)) = [] \<or> splitLineSpans (lr_line (inTable ! 1)) = [] then None
          else (case delimiter_align (splitLineSpans (lr_line (inTable ! 1))) of
             None \<Rightarrow> None
           | Some al \<Rightarrow>
               if strict \<and> \<not> strict_ok (inTable ! 0) (inTable ! 1) then None else Some (build_table inTable al)))"

definition parseMarkdownTable :: "(jstring \<Rightarrow> syntax_node list) \<Rightarrow> jstring \<Rightarrow> table_model option" where
  [js_eval]: "parseMarkdownTable gfm text = map_option td_model (parseTableDocument gfm text False)"

section \<open>Printing\<close>

definition delim_text :: "align \<Rightarrow> jstring" where
  [js_eval]: "delim_text a =
     (case a of AlignCenter \<Rightarrow> lit '':---:'' | AlignRight \<Rightarrow> lit ''---:'' | AlignLeft \<Rightarrow> lit '':---'' | AlignNone \<Rightarrow> lit ''---'')"

definition nth_or :: "'a \<Rightarrow> 'a list \<Rightarrow> nat \<Rightarrow> 'a" where
  [js_eval]: "nth_or z xs i = (if i < length xs then xs ! i else z)"

definition print_row :: "jstring list \<Rightarrow> jstring" where
  [js_eval]: "print_row cells = lit ''| '' @ join (lit '' | '') cells @ lit '' |''"

definition pad_row :: "nat \<Rightarrow> jstring list \<Rightarrow> jstring list" where
  [js_eval]: "pad_row cols r = map (\<lambda>i. trim (encodeTableCell (nth_or [] r i))) [0..<cols]"

definition serializeMarkdownTable :: "table_model \<Rightarrow> jstring" where
  [js_eval]: "serializeMarkdownTable m =
     (let cols = max (length (tm_header m)) 1;
          delims = map (\<lambda>i. delim_text (nth_or AlignNone (tm_align m) i)) [0..<cols]
      in join [nl] (print_row (pad_row cols (tm_header m)) # print_row delims
           # map (\<lambda>r. print_row (pad_row cols r)) (tm_body m)))"

section \<open>Structure operations\<close>

text \<open>A copy of a model is the model: records and lists are values.\<close>

definition cloneTableModel :: "table_model \<Rightarrow> table_model" where
  [js_eval]: "cloneTableModel m = \<lparr>tm_header = tm_header m, tm_align = tm_align m, tm_body = tm_body m\<rparr>"

definition tableCellValue :: "table_model \<Rightarrow> nat \<Rightarrow> nat \<Rightarrow> jstring" where
  [js_eval]: "tableCellValue m r c =
     (if r = 0 then nth_or [] (tm_header m) c else nth_or [] (nth_or [] (tm_body m) (r - 1)) c)"

definition emptyRow :: "nat \<Rightarrow> jstring list" where
  [js_eval]: "emptyRow cols = replicate cols []"

text \<open>\<open>xs.splice(at, 0, x)\<close> and \<open>xs.splice(at, 1)\<close> for an index within the list.\<close>

definition splice_in :: "nat \<Rightarrow> 'a \<Rightarrow> 'a list \<Rightarrow> 'a list" where
  [js_eval]: "splice_in i x xs = take i xs @ x # drop i xs"

definition splice_out :: "nat \<Rightarrow> 'a list \<Rightarrow> 'a list" where
  [js_eval]: "splice_out i xs = take i xs @ drop (Suc i) xs"

definition insertTableRow :: "table_model \<Rightarrow> int \<Rightarrow> table_model" where
  [js_eval]: "insertTableRow m atR =
     (let next = cloneTableModel m; i = min (max atR 1) (int (length (tm_body next)) + 1)
      in next\<lparr>tm_body := splice_in (nat (i - 1)) (emptyRow (length (tm_header next))) (tm_body next)\<rparr>)"

definition deleteTableRow :: "table_model \<Rightarrow> int \<Rightarrow> table_model option" where
  [js_eval]: "deleteTableRow m r =
     (if r < 1 \<or> int (length (tm_body m)) < r then None
      else (let next = cloneTableModel m in Some (next\<lparr>tm_body := splice_out (nat (r - 1)) (tm_body next)\<rparr>)))"

definition insertTableCol :: "table_model \<Rightarrow> int \<Rightarrow> table_model" where
  [js_eval]: "insertTableCol m atC =
     (let next = cloneTableModel m; i = nat (min (max atC 0) (int (length (tm_header next))))
      in \<lparr>tm_header = splice_in i [] (tm_header next), tm_align = splice_in i AlignNone (tm_align next),
          tm_body = map (splice_in i []) (tm_body next)\<rparr>)"

definition deleteTableCol :: "table_model \<Rightarrow> int \<Rightarrow> table_model option" where
  [js_eval]: "deleteTableCol m c =
     (if c < 0 \<or> int (length (tm_header m)) \<le> c \<or> length (tm_header m) \<le> 1 then None
      else
        (let next = cloneTableModel m; i = nat c
         in Some \<lparr>tm_header = splice_out i (tm_header next), tm_align = splice_out i (tm_align next),
                   tm_body = map (splice_out i) (tm_body next)\<rparr>))"

definition setTableAlign :: "table_model \<Rightarrow> int \<Rightarrow> align \<Rightarrow> table_model" where
  [js_eval]: "setTableAlign m c al =
     (let next = cloneTableModel m
      in if 0 \<le> c \<and> c < int (length (tm_align next)) then next\<lparr>tm_align := (tm_align next)[nat c := al]\<rparr> else next)"

text \<open>
  The comparison of two keyed rows: empty cells last, then the collator in the direction asked for,
  then the old position.
\<close>

definition row_compare :: "(jstring \<Rightarrow> jstring \<Rightarrow> int) \<Rightarrow> nat \<Rightarrow> int \<Rightarrow> nat \<times> jstring list \<Rightarrow> nat \<times> jstring list \<Rightarrow> int" where
  [js_eval]: "row_compare collate c dir a b =
     (let av = nth_or [] (snd a) c; bv = nth_or [] (snd b) c
      in if av = [] \<and> bv = [] then int (fst a) - int (fst b)
         else if av = [] then 1
         else if bv = [] then - 1
         else (let cmp = collate av bv in if cmp \<noteq> 0 then cmp * dir else int (fst a) - int (fst b)))"

definition sortTableRows :: "(jstring \<Rightarrow> jstring \<Rightarrow> int) \<Rightarrow> table_model \<Rightarrow> nat \<Rightarrow> int \<Rightarrow> table_model" where
  [js_eval]: "sortTableRows collate m c dir =
     (let next = cloneTableModel m; keyed = zip [0..<length (tm_body next)] (tm_body next)
      in next\<lparr>tm_body := map snd (sort_by (row_compare collate c dir) keyed)\<rparr>)"

declare flatten_breaks.simps [js_eval] span_loop.simps [js_eval] sole_loop.simps [js_eval]
  unix_breaks.simps [js_eval] line_recs.simps [js_eval]

section \<open>Tables stay rectangular\<close>

text \<open>Every row has as many cells as the header, every column has an alignment, and there is a column.\<close>

definition rect :: "table_model \<Rightarrow> bool" where
  "rect m \<longleftrightarrow> tm_header m \<noteq> [] \<and> length (tm_align m) = length (tm_header m)
     \<and> list_all (\<lambda>r. length r = length (tm_header m)) (tm_body m)"

lemma length_splice_in [simp]: "length (splice_in i x xs) = Suc (length xs)"
  by (simp add: splice_in_def)

lemma length_splice_out [simp]: "i < length xs \<Longrightarrow> length (splice_out i xs) = length xs - 1"
  by (simp add: splice_out_def)

lemma list_all_splice_in: "list_all P (splice_in i x xs) \<longleftrightarrow> P x \<and> list_all P xs"
proof -
  have "list_all P xs \<longleftrightarrow> list_all P (take i xs @ drop i xs)" by simp
  then show ?thesis unfolding splice_in_def by (simp del: append_take_drop_id) blast
qed

lemma list_all_splice_out: "list_all P xs \<Longrightarrow> list_all P (splice_out i xs)"
  by (auto simp: splice_out_def list_all_iff dest: in_set_takeD in_set_dropD)

lemma mset_sorted_rows: "mset (tm_body (sortTableRows collate m c dir)) = mset (tm_body m)"
proof -
  let ?z = "zip [0..<length (tm_body m)] (tm_body m)"
  have "mset (map snd (sort_by f ?z)) = mset (map snd ?z)" for f by (simp only: mset_map mset_sort_by)
  moreover have "map snd ?z = tm_body m" by simp
  ultimately show ?thesis by (simp only: sortTableRows_def cloneTableModel_def Let_def table_model.simps)
qed

lemma insertTableRow_rect: "rect m \<Longrightarrow> rect (insertTableRow m r)"
  by (simp add: rect_def insertTableRow_def cloneTableModel_def emptyRow_def Let_def list_all_splice_in)

lemma deleteTableRow_rect: "rect m \<Longrightarrow> deleteTableRow m r = Some n \<Longrightarrow> rect n"
  by (auto simp: rect_def deleteTableRow_def cloneTableModel_def Let_def list_all_splice_out split: if_splits)

lemma insertTableCol_rect: "rect m \<Longrightarrow> rect (insertTableCol m c)"
  by (auto simp: rect_def insertTableCol_def cloneTableModel_def Let_def list_all_iff splice_in_def)

lemma deleteTableCol_rect: "rect m \<Longrightarrow> deleteTableCol m c = Some n \<Longrightarrow> rect n"
proof -
  assume r: "rect m" and d: "deleteTableCol m c = Some n"
  let ?i = "nat c"
  have i: "?i < length (tm_header m)" "1 < length (tm_header m)"
    and n: "n = \<lparr>tm_header = splice_out ?i (tm_header m), tm_align = splice_out ?i (tm_align m),
      tm_body = map (splice_out ?i) (tm_body m)\<rparr>"
    using d by (auto simp: deleteTableCol_def cloneTableModel_def Let_def split: if_splits)
  have "splice_out ?i (tm_header m) \<noteq> []" using i by (metis length_splice_out length_0_conv zero_less_diff less_irrefl)
  then show "rect n" using r i n by (auto simp: rect_def list_all_iff)
qed

lemma setTableAlign_rect: "rect m \<Longrightarrow> rect (setTableAlign m c al)"
  by (simp add: rect_def setTableAlign_def cloneTableModel_def Let_def)

lemma sortTableRows_rect: "rect m \<Longrightarrow> rect (sortTableRows collate m c dir)"
proof -
  assume r: "rect m"
  have "set (tm_body (sortTableRows collate m c dir)) = set (tm_body m)"
    using mset_sorted_rows by (metis set_mset_mset)
  moreover have "tm_header (sortTableRows collate m c dir) = tm_header m" "tm_align (sortTableRows collate m c dir) = tm_align m"
    by (simp_all add: sortTableRows_def cloneTableModel_def Let_def)
  ultimately show ?thesis using r by (simp add: rect_def list_all_iff)
qed

lemma length_pad_to: "length xs \<le> cols \<Longrightarrow> length (pad_to cols z xs) = cols"
  by (simp add: pad_to_def)

lemma span_loop_nonempty [simp]: "span_loop line a ds e \<noteq> []"
  by (cases ds) simp_all

lemma splitLineSpans_nonempty [simp]: "splitLineSpans line \<noteq> []"
  by (simp add: splitLineSpans_def Let_def)

lemma Max_list_ge: "x \<in> set xs \<Longrightarrow> x \<le> Max (set xs)"
  by (rule Max_ge) auto

lemma table_cols:
  "length (splitLineSpans (lr_line (recs ! 0))) \<le> table_cols recs al" "length al \<le> table_cols recs al"
  "r \<in> set (drop 2 recs) \<Longrightarrow> length (splitLineSpans (lr_line r)) \<le> table_cols recs al" "table_cols recs al \<noteq> 0"
proof -
  show h: "length (splitLineSpans (lr_line (recs ! 0))) \<le> table_cols recs al" "length al \<le> table_cols recs al"
    "r \<in> set (drop 2 recs) \<Longrightarrow> length (splitLineSpans (lr_line r)) \<le> table_cols recs al"
    unfolding table_cols_def by (rule Max_list_ge, simp)+
  show "table_cols recs al \<noteq> 0" using h(1) splitLineSpans_nonempty [of "lr_line (recs ! 0)"] by (metis le_zero_eq length_0_conv)
qed

lemma build_table_rect: "rect (td_model (build_table recs al))"
proof -
  let ?m = "td_model (build_table recs al)"
  have h: "length (tm_header ?m) = table_cols recs al" "length (tm_align ?m) = table_cols recs al"
    "list_all (\<lambda>r. length r = table_cols recs al) (tm_body ?m)"
    by (simp_all add: build_table_def Let_def length_pad_to table_cols list_all_iff)
  moreover have "tm_header ?m \<noteq> []" using h(1) table_cols(4) by (metis length_0_conv)
  ultimately show ?thesis by (simp add: rect_def)
qed

text \<open>The operations of the table menus, as the editor applies them to its model.\<close>

datatype table_op =
    InsertRow int
  | DeleteRow int
  | InsertCol int
  | DeleteCol int
  | SetAlign int align
  | SortRows "jstring \<Rightarrow> jstring \<Rightarrow> int" nat int

fun table_step :: "table_op \<Rightarrow> table_model \<Rightarrow> table_model option" where
  "table_step (InsertRow r) m = Some (insertTableRow m r)"
| "table_step (DeleteRow r) m = deleteTableRow m r"
| "table_step (InsertCol c) m = Some (insertTableCol m c)"
| "table_step (DeleteCol c) m = deleteTableCol m c"
| "table_step (SetAlign c al) m = Some (setTableAlign m c al)"
| "table_step (SortRows collate c dir) m = Some (sortTableRows collate m c dir)"

definition table_opened :: "table_model \<Rightarrow> bool" where
  "table_opened m \<longleftrightarrow> (\<exists>gfm text strict d. parseTableDocument gfm text strict = Some d \<and> m = td_model d)"

inductive table_reachable :: "table_model \<Rightarrow> bool" where
  opened: "table_opened m \<Longrightarrow> table_reachable m"
| edited: "table_reachable m \<Longrightarrow> table_step e m = Some n \<Longrightarrow> table_reachable n"

lemma table_step_rect: "rect m \<Longrightarrow> table_step e m = Some n \<Longrightarrow> rect n"
  by (cases e) (auto intro: insertTableRow_rect deleteTableRow_rect insertTableCol_rect deleteTableCol_rect
      setTableAlign_rect sortTableRows_rect)

lemma parseTableDocument_Some:
  assumes "parseTableDocument gfm text strict = Some d"
  obtains recs al where "table_lines gfm (unix_breaks text) = Some recs"
    "delimiter_align (splitLineSpans (lr_line (recs ! 1))) = Some al" "d = build_table recs al"
    "strict \<Longrightarrow> strict_ok (recs ! 0) (recs ! 1)"
  using assms unfolding parseTableDocument_def
  by (cases "table_lines gfm (unix_breaks text)";
      cases "delimiter_align (splitLineSpans (lr_line (the (table_lines gfm (unix_breaks text)) ! 1)))") (auto split: if_splits)

lemma table_opened_rect: "table_opened m \<Longrightarrow> rect m"
  by (auto simp: table_opened_def build_table_rect elim!: parseTableDocument_Some)

interpretation table_sys: invariant_system table_opened table_step table_reachable rect
proof unfold_locales
  show "table_reachable s" if "table_opened s" for s using that by (rule opened)
  show "table_reachable t" if "table_reachable s" "table_step e s = Some t" for s e t using that by (rule edited)
  show "P s" if "table_reachable s" "\<And>s. table_opened s \<Longrightarrow> P s"
    "\<And>s e t. table_reachable s \<Longrightarrow> P s \<Longrightarrow> table_step e s = Some t \<Longrightarrow> P t" for P s
    using that(1)
  proof induction
    case (edited m e n)
    show ?case using edited(1,3,2) by (rule that(3))
  qed (rule that(2))
  show "rect s" if "table_opened s" for s using that by (rule table_opened_rect)
  show "rect t" if "rect s" "table_step e s = Some t" for s e t using that by (rule table_step_rect)
qed

text \<open>
  Property C40: whatever source a table is opened from and whatever the menus do to it, it stays
  rectangular: every row as long as the header, an alignment for every column, at least one column.
\<close>

theorem table_stays_rectangular:
  assumes "table_reachable m"
  shows "rect m"
  using assms by (rule table_sys.reachable_inv)

definition demo_source :: jstring where
  "demo_source = lit ''a|b'' @ [nl] @ lit ''-|-''"

definition demo_gfm :: "jstring \<Rightarrow> syntax_node list" where
  "demo_gfm s = [\<lparr>nd_table = True, nd_from = 0, nd_to = length s\<rparr>]"

definition demo_model :: table_model where
  "demo_model = \<lparr>tm_header = [lit ''a'', lit ''b''], tm_align = [AlignNone, AlignNone], tm_body = []\<rparr>"

lemma demo_opened: "table_opened demo_model"
proof -
  have "parseMarkdownTable demo_gfm demo_source = Some demo_model" by code_simp
  then obtain d where "parseTableDocument demo_gfm demo_source False = Some d" "demo_model = td_model d"
    by (auto simp: parseMarkdownTable_def)
  then show ?thesis unfolding table_opened_def by blast
qed

theorem table_stays_rectangular_witness: "rect (insertTableCol demo_model 1)"
  using table_stays_rectangular [OF edited [OF opened [OF demo_opened], of "InsertCol 1"]] by simp

section \<open>Insert and delete\<close>

lemma splice_out_in: "i \<le> length xs \<Longrightarrow> splice_out i (splice_in i x xs) = xs"
  by (simp add: splice_out_def splice_in_def)

text \<open>
  Deleting the row or column that was just inserted gives the table back.
\<close>

theorem insert_delete_inverse:
  assumes "rect m" "1 \<le> r" "r \<le> int (length (tm_body m)) + 1" "0 \<le> c" "c \<le> int (length (tm_header m))"
  shows "deleteTableRow (insertTableRow m r) r = Some m \<and> deleteTableCol (insertTableCol m c) c = Some m"
proof
  have e: "cloneTableModel n = n" for n by (simp add: cloneTableModel_def)
  show "deleteTableRow (insertTableRow m r) r = Some m"
    using assms(2,3) by (auto simp: deleteTableRow_def insertTableRow_def e Let_def splice_out_in)
  have "splice_out (nat c) (splice_in (nat c) [] row) = row" if "row \<in> set (tm_body m)" for row
    using that assms(1,4,5) by (intro splice_out_in) (auto simp: rect_def list_all_iff)
  then have "map (splice_out (nat c)) (map (splice_in (nat c) []) (tm_body m)) = tm_body m"
    by (simp add: map_idI)
  moreover have "length (tm_header m) > 0" using assms(1) by (simp add: rect_def)
  ultimately show "deleteTableCol (insertTableCol m c) c = Some m"
    using assms(1,4,5) by (auto simp: deleteTableCol_def insertTableCol_def e Let_def splice_out_in rect_def)
qed

theorem insert_delete_inverse_witness:
  "deleteTableRow (insertTableRow demo_model 1) 1 = Some demo_model \<and> deleteTableCol (insertTableCol demo_model 2) 2 = Some demo_model"
proof -
  have "rect demo_model" "length (tm_body demo_model) = 0" "length (tm_header demo_model) = 2" by code_simp+
  then show ?thesis using insert_delete_inverse [of demo_model 1 2] by simp
qed

section \<open>Sorting\<close>

text \<open>What is documented of a collator: a total preorder, its sign turned around with its arguments.\<close>

definition collation :: "(jstring \<Rightarrow> jstring \<Rightarrow> int) \<Rightarrow> bool" where
  "collation f \<longleftrightarrow> (\<forall>x y. f x y < 0 \<longleftrightarrow> 0 < f y x) \<and> (\<forall>x y z. f x y \<le> 0 \<and> f y z \<le> 0 \<longrightarrow> f x z \<le> 0)"

lemma collation_facts:
  assumes "collation g"
  shows "g x y \<le> 0 \<or> g y x \<le> 0" "g x y \<le> 0 \<Longrightarrow> g y z \<le> 0 \<Longrightarrow> g x z \<le> 0" "g x y = 0 \<longleftrightarrow> g y x = 0"
    "0 < g x y \<longleftrightarrow> g y x < 0" "0 \<le> g x y \<longleftrightarrow> g y x \<le> 0"
proof -
  have s: "g x y < 0 \<longleftrightarrow> 0 < g y x" "g y x < 0 \<longleftrightarrow> 0 < g x y" using assms by (auto simp: collation_def)
  show "g x y \<le> 0 \<or> g y x \<le> 0" "g x y = 0 \<longleftrightarrow> g y x = 0" "0 < g x y \<longleftrightarrow> g y x < 0" "0 \<le> g x y \<longleftrightarrow> g y x \<le> 0"
    using s by linarith+
  show "g x y \<le> 0 \<Longrightarrow> g y z \<le> 0 \<Longrightarrow> g x z \<le> 0" using assms unfolding collation_def by blast
qed

lemma collation_turn:
  assumes "collation f" "dir = 1 \<or> dir = - 1"
  shows "collation (\<lambda>x y. f x y * dir)"
  using assms(2)
proof
  assume d: "dir = - 1"
  have "0 \<le> f x z" if "0 \<le> f x y" "0 \<le> f y z" for x y z
    using that collation_facts(2) [OF assms(1), of z y x] collation_facts(5) [OF assms(1)] by blast
  then show ?thesis using d assms(1) by (simp add: collation_def) blast
qed (use assms(1) in simp)

definition keyed_le :: "(jstring \<Rightarrow> jstring \<Rightarrow> int) \<Rightarrow> nat \<Rightarrow> nat \<times> jstring list \<Rightarrow> nat \<times> jstring list \<Rightarrow> bool" where
  "keyed_le g c a b \<longleftrightarrow>
     (let av = nth_or [] (snd a) c; bv = nth_or [] (snd b) c
      in if av = [] then bv = [] \<and> fst a \<le> fst b
         else bv = [] \<or> g av bv < 0 \<or> (g av bv = 0 \<and> fst a \<le> fst b))"

lemma row_compare_le: "dir = 1 \<or> dir = - 1 \<Longrightarrow> row_compare f c dir a b \<le> 0 \<longleftrightarrow> keyed_le (\<lambda>x y. f x y * dir) c a b"
  by (auto simp: row_compare_def keyed_le_def Let_def)

lemma keyed_le_trans:
  assumes "collation g" "keyed_le g c a b" "keyed_le g c b d"
  shows "keyed_le g c a d"
proof -
  let ?a = "nth_or [] (snd a) c" and ?b = "nth_or [] (snd b) c" and ?d = "nth_or [] (snd d) c"
  note F = collation_facts [OF assms(1)]
  show ?thesis
  proof (cases "?a = [] \<or> ?d = []")
    case True
    then show ?thesis using assms(2,3) by (auto simp: keyed_le_def Let_def split: if_splits)
  next
    case False
    then have b: "?b \<noteq> []" using assms(3) by (auto simp: keyed_le_def Let_def)
    have le: "g ?a ?b \<le> 0" "g ?b ?d \<le> 0" using assms(2,3) False b by (auto simp: keyed_le_def Let_def)
    then have ad: "g ?a ?d \<le> 0" by (rule F(2))
    have "g ?a ?b = 0 \<and> g ?b ?d = 0" if z: "g ?a ?d = 0"
    proof -
      have "g ?d ?a \<le> 0" using z F(3) [of ?a ?d] by simp
      then have "g ?d ?b \<le> 0" "g ?b ?a \<le> 0" using le F(2) by blast+
      then show ?thesis using le F(4) [of ?b ?a] F(4) [of ?d ?b] F(3) by (metis less_le not_less)
    qed
    then show ?thesis using ad assms(2,3) False b by (auto simp: keyed_le_def Let_def)
  qed
qed

lemma keyed_le_total: "collation g \<Longrightarrow> keyed_le g c a b \<or> keyed_le g c b a"
  using collation_facts(1,3,4) [of g "nth_or [] (snd a) c" "nth_or [] (snd b) c"]
  by (auto simp: keyed_le_def Let_def)

lemma keyed_sorted:
  assumes "collation f" "dir = 1 \<or> dir = - 1"
  shows "sorted_wrt (keyed_le (\<lambda>x y. f x y * dir) c) (sort_by (row_compare f c dir) xs)"
proof -
  note g = collation_turn [OF assms]
  have "sorted_wrt (\<lambda>x y. row_compare f c dir x y \<le> 0) (sort_by (row_compare f c dir) xs)"
    using keyed_le_total [OF g, of c] keyed_le_trans [OF g, of c]
    by (intro sort_by_sorted) (auto simp: consistent_def row_compare_le assms(2) simp del: split_paired_All)
  then show ?thesis by (simp add: row_compare_le assms(2))
qed

text \<open>Row before row: empty cells last, the others in the order of the collator.\<close>

definition in_order :: "(jstring \<Rightarrow> jstring \<Rightarrow> int) \<Rightarrow> nat \<Rightarrow> int \<Rightarrow> jstring list \<Rightarrow> jstring list \<Rightarrow> bool" where
  "in_order collate c dir r s \<longleftrightarrow>
     (let av = nth_or [] r c; bv = nth_or [] s c in bv = [] \<or> (av \<noteq> [] \<and> collate av bv * dir \<le> 0))"

lemma keyed_stable:
  assumes "collation f" "dir = 1 \<or> dir = - 1"
  shows "filter (\<lambda>r. nth_or [] r c = v) (map snd (sort_by (row_compare f c dir) (zip [0..<length rows] rows)))
    = filter (\<lambda>r. nth_or [] r c = v) rows"
proof -
  let ?z = "zip [0..<length rows] rows" and ?P = "\<lambda>k. nth_or [] (snd k) c = v"
  let ?s = "sort_by (row_compare f c dir) ?z"
  have g: "f v v * dir = 0" using collation_facts(3,4) [OF collation_turn [OF assms], of v v] by fastforce
  have "sorted_wrt (\<lambda>a b. fst a \<le> fst b) (filter ?P ?s)"
    using sorted_wrt_filter [OF keyed_sorted [OF assms, of c ?z], of ?P] g
    by (rule_tac sorted_wrt_mono_rel) (auto simp: keyed_le_def Let_def split: if_splits)
  then have "sorted (map fst (filter ?P ?s))" by (simp add: sorted_map)
  moreover have m: "mset (filter ?P ?s) = mset (filter ?P ?z)" by simp
  ultimately have "sort (map fst (filter ?P ?z)) = map fst (filter ?P ?s)"
    by (intro properties_for_sort) (simp_all only: mset_map)
  moreover have "sorted (map fst (filter ?P ?z))" by (rule sorted_filter) simp
  ultimately have e: "map fst (filter ?P ?s) = map fst (filter ?P ?z)" by (simp add: sorted_sort_id)
  have k: "k \<in> set ?z \<Longrightarrow> snd k = rows ! fst k" for k by (auto simp: set_zip)
  have d: "set ks \<subseteq> set ?z \<Longrightarrow> map snd ks = map (\<lambda>i. rows ! i) (map fst ks)" for ks
    by (induction ks) (simp_all add: k)
  have "set (filter ?P ?s) = set (filter ?P ?z)" using m by (rule mset_eq_setD)
  then have s: "set (filter ?P ?s) \<subseteq> set ?z" by auto
  have "map snd (filter ?P ?s) = map snd (filter ?P ?z)" using d [OF s] d [of "filter ?P ?z"] e by (metis filter_is_subset)
  moreover have "filter (\<lambda>r. nth_or [] r c = v) (map snd ks) = map snd (filter ?P ks)" for ks :: "(nat \<times> jstring list) list"
    by (simp add: filter_map o_def)
  moreover have "map snd ?z = rows" by simp
  ultimately show ?thesis by metis
qed

text \<open>
  Sorting the rows on a column is a stable permutation that puts empty cells last in
  either direction and the others in the collator's order.
\<close>

theorem sort_rows_correct:
  assumes "collation collate" "dir = 1 \<or> dir = - 1"
  shows "let n = sortTableRows collate m c dir in
      mset (tm_body n) = mset (tm_body m) \<and> sorted_wrt (in_order collate c dir) (tm_body n)
      \<and> filter (\<lambda>r. nth_or [] r c = v) (tm_body n) = filter (\<lambda>r. nth_or [] r c = v) (tm_body m)
      \<and> tm_header n = tm_header m \<and> tm_align n = tm_align m"
proof -
  let ?s = "sort_by (row_compare collate c dir) (zip [0..<length (tm_body m)] (tm_body m))"
  have n: "tm_body (sortTableRows collate m c dir) = map snd ?s"
    by (simp add: sortTableRows_def cloneTableModel_def Let_def)
  have "sorted_wrt (\<lambda>a b. in_order collate c dir (snd a) (snd b)) ?s"
    using keyed_sorted [OF assms, of c] by (rule sorted_wrt_mono_rel [rotated]) (auto simp: keyed_le_def in_order_def Let_def split: if_splits)
  then have "sorted_wrt (in_order collate c dir) (map snd ?s)" by (simp add: sorted_wrt_map)
  then show ?thesis using mset_sorted_rows [of collate m c dir] keyed_stable [OF assms, of c v "tm_body m"] n
    by (simp add: sortTableRows_def cloneTableModel_def Let_def)
qed

definition demo_collate :: "jstring \<Rightarrow> jstring \<Rightarrow> int" where
  "demo_collate x y = int (length x) - int (length y)"

definition demo_rows :: table_model where
  "demo_rows = demo_model\<lparr>tm_body := [[[], lit ''x''], [lit ''bb'', []], [lit ''a'', []]]\<rparr>"

theorem sort_rows_correct_witness:
  "tm_body (sortTableRows demo_collate demo_rows 0 1) = [[lit ''a'', []], [lit ''bb'', []], [[], lit ''x'']]
   \<and> sorted_wrt (in_order demo_collate 0 1) (tm_body (sortTableRows demo_collate demo_rows 0 1))"
proof
  show "tm_body (sortTableRows demo_collate demo_rows 0 1) = [[lit ''a'', []], [lit ''bb'', []], [[], lit ''x'']]" by code_simp
  have "collation demo_collate" by (auto simp: collation_def demo_collate_def)
  then show "sorted_wrt (in_order demo_collate 0 1) (tm_body (sortTableRows demo_collate demo_rows 0 1))"
    using sort_rows_correct [of demo_collate 1 demo_rows 0] by (simp add: Let_def)
qed

section \<open>Escapes\<close>

text \<open>Whether the next code unit is escaped after a prefix, and the positions of the unescaped pipes.\<close>

definition esc :: "jstring \<Rightarrow> bool" where
  "esc p \<longleftrightarrow> odd (length (takeWhile (\<lambda>c. c = backslash) (rev p)))"

fun upipes :: "bool \<Rightarrow> nat \<Rightarrow> jstring \<Rightarrow> nat list" where
  "upipes e k [] = []"
| "upipes e k (c # cs) =
     (if c = pipe \<and> \<not> e then [k] else []) @ upipes (c = backslash \<and> \<not> e) (Suc k) cs"

lemma esc_Nil [simp]: "\<not> esc []"
  by (simp add: esc_def)

lemma esc_snoc [simp]: "esc (p @ [c]) \<longleftrightarrow> c = backslash \<and> \<not> esc p"
  by (simp add: esc_def)

lemma isEscaped_append [simp]: "isEscaped (p @ q) (length p) = esc p"
  by (simp add: isEscaped_def esc_def)

lemma upt_from: "[n..<n + Suc m] = n # [Suc n..<Suc n + m]"
  by (simp add: upt_conv_Cons)

lemma delims_upipes:
  "filter (\<lambda>i. (p @ q @ r) ! i = pipe \<and> \<not> isEscaped (p @ q @ r) i) [length p..<length p + length q] = upipes (esc p) (length p) q"
proof (induction q arbitrary: p)
  case (Cons c q)
  have u: "[length p..<length p + length (c # q)] = length p # [length (p @ [c])..<length (p @ [c]) + length q]"
    using upt_from [of "length p" "length q"] by (simp del: upt_Suc)
  have "(p @ (c # q) @ r) ! length p = c" by simp
  then show ?case using Cons.IH [of "p @ [c]"] unfolding u by (auto simp del: upt_Suc)
qed simp

lemma line_delims_all: "line_delims s 0 (length s) = upipes False 0 s"
  using delims_upipes [of "[]" s "[]"] by (simp add: line_delims_def)

lemma upipes_append: "upipes e k (s @ t) = upipes e k s @ upipes (foldl (\<lambda>e c. c = backslash \<and> \<not> e) e s) (k + length s) t"
  by (induction s arbitrary: e k) auto

fun pipe_free :: "bool \<Rightarrow> jstring \<Rightarrow> bool" where
  "pipe_free e [] = True"
| "pipe_free e (c # cs) = (\<not> (c = pipe \<and> \<not> e) \<and> pipe_free (c = backslash \<and> \<not> e) cs)"

lemma pipe_free_upipes: "pipe_free e s \<Longrightarrow> upipes e k s = []"
  by (induction s arbitrary: e k) auto

text \<open>A cell that can stand between two pipes.\<close>

definition cell_ok :: "jstring \<Rightarrow> bool" where
  "cell_ok c \<longleftrightarrow> trim c = c \<and> cr \<notin> set c \<and> nl \<notin> set c \<and> pipe_free False c"

fun enc :: "bool \<Rightarrow> jstring \<Rightarrow> jstring" where
  "enc e [] = []"
| "enc e (c # cs) = (if c = pipe \<and> \<not> e then [backslash] else []) @ [c] @ enc (c = backslash \<and> \<not> e) cs"

lemma enc_of_map:
  "concat (map (\<lambda>i. (if (p @ q) ! i = pipe \<and> \<not> isEscaped (p @ q) i then [backslash] else []) @ [(p @ q) ! i])
     [length p..<length p + length q]) = enc (esc p) q"
proof (induction q arbitrary: p)
  case (Cons c q)
  have u: "[length p..<length p + length (c # q)] = length p # [length (p @ [c])..<length (p @ [c]) + length q]"
    using upt_from [of "length p" "length q"] by (simp del: upt_Suc)
  show ?case using Cons.IH [of "p @ [c]"] unfolding u by (simp del: upt_Suc)
qed simp

lemma encodeTableCell_enc: "encodeTableCell v = enc False (flatten_breaks v)"
  using enc_of_map [of "[]" "flatten_breaks v"] by (simp add: encodeTableCell_def Let_def)

lemma pipe_free_enc: "pipe_free e (enc e s)"
  by (induction s arbitrary: e) auto

lemma enc_id: "pipe_free e s \<Longrightarrow> enc e s = s"
  by (induction s arbitrary: e) auto

lemma set_enc: "x \<in> set (enc e s) \<Longrightarrow> x = backslash \<or> x \<in> set s"
  by (induction s arbitrary: e) (auto split: if_splits)

lemma flatten_breaks_set: "cr \<notin> set (flatten_breaks v) \<and> nl \<notin> set (flatten_breaks v)"
  by (induction v rule: flatten_breaks.induct) auto

lemma flatten_breaks_id: "cr \<notin> set v \<Longrightarrow> nl \<notin> set v \<Longrightarrow> flatten_breaks v = v"
  by (induction v rule: flatten_breaks.induct) auto

section \<open>Printed rows split into their cells\<close>

lemma dropWhile_snoc_ws: "js_ws y \<Longrightarrow> dropWhile js_ws (s @ [y]) = (if list_all js_ws s then [] else dropWhile js_ws s @ [y])"
  by (induction s) auto

lemma trim_all_ws: "list_all js_ws s \<Longrightarrow> trim s = []"
  by (simp add: trim_def trim_start_def trim_end_def list_all_iff dropWhile_eq_Nil_conv [THEN iffD2])

lemma trim_pad: "js_ws x \<Longrightarrow> js_ws y \<Longrightarrow> trim (x # s @ [y]) = trim s"
  by (cases "list_all js_ws s") (simp_all add: trim_all_ws, simp add: trim_def trim_start_def trim_end_def dropWhile_snoc_ws)

lemma trim_decomp:
  obtains a b where "s = a @ trim s @ b" "list_all js_ws a" "list_all js_ws b"
proof -
  let ?t = "dropWhile js_ws s"
  have "s = takeWhile js_ws s @ ?t" by simp
  moreover have "?t = trim_end ?t @ rev (takeWhile js_ws (rev ?t))"
    unfolding trim_end_def by (metis rev_append rev_rev_ident takeWhile_dropWhile_id)
  ultimately have "s = takeWhile js_ws s @ trim s @ rev (takeWhile js_ws (rev ?t))"
    by (simp add: trim_def trim_start_def)
  then show ?thesis by (rule that) (auto simp: list_all_iff dest: set_takeWhileD)
qed

lemma trim_trim [simp]: "trim (trim s) = trim s"
proof -
  let ?t = "dropWhile js_ws s"
  have "trim s = [] \<or> \<not> js_ws (last (trim s))"
    using hd_dropWhile [of js_ws "rev ?t"] by (cases "dropWhile js_ws (rev ?t) = []") (simp_all add: trim_def trim_end_def trim_start_def last_rev)
  moreover have "trim s = [] \<or> \<not> js_ws (hd (trim s))"
  proof (cases "trim s = []")
    case False
    have "?t = trim_end ?t @ rev (takeWhile js_ws (rev ?t))"
      unfolding trim_end_def by (metis rev_append rev_rev_ident takeWhile_dropWhile_id)
    then have "hd ?t = hd (trim s)" "?t \<noteq> []" using False by (metis hd_append2 trim_def trim_start_def, metis False append_is_Nil_conv trim_def trim_start_def)
    then show ?thesis using hd_dropWhile [of js_ws s] by auto
  qed simp
  ultimately show ?thesis unfolding trim_def [of "trim s"] using trim_start_id trim_end_id by metis
qed

lemma pipe_free_prefix: "pipe_free e (s @ t) \<Longrightarrow> pipe_free e s"
  by (induction s arbitrary: e) auto

lemma js_ws_plain: "js_ws c \<Longrightarrow> c \<noteq> pipe \<and> c \<noteq> backslash"
  by (auto simp: js_ws_def)

lemma pipe_free_drop_ws: "list_all js_ws w \<Longrightarrow> pipe_free False (w @ t) \<Longrightarrow> pipe_free False t"
  by (induction w) (auto dest: js_ws_plain)

lemma encoded_cell_ok: "cell_ok (trim (encodeTableCell v))"
proof -
  let ?s = "encodeTableCell v"
  obtain a b where d: "?s = a @ trim ?s @ b" "list_all js_ws a" by (rule trim_decomp [of ?s])
  have "pipe_free False (a @ trim ?s @ b)" using d(1) pipe_free_enc by (metis encodeTableCell_enc)
  then have "pipe_free False (trim ?s)" using d(2) by (metis pipe_free_drop_ws pipe_free_prefix)
  moreover have "set (trim ?s) \<subseteq> set ?s" using d(1) by (metis Un_upper1 Un_upper2 set_append subset_trans)
  moreover have "cr \<notin> set ?s" "nl \<notin> set ?s"
    using set_enc [of _ False "flatten_breaks v"] flatten_breaks_set [of v] unfolding encodeTableCell_enc by fastforce+
  ultimately show ?thesis by (auto simp: cell_ok_def)
qed

lemma cell_ok_again: "cell_ok c \<Longrightarrow> trim (encodeTableCell c) = c"
  by (simp add: cell_ok_def encodeTableCell_enc flatten_breaks_id enc_id)

definition row_tail :: "jstring list \<Rightarrow> jstring" where
  "row_tail cs = concat (map (\<lambda>c. space # c @ [space, pipe]) cs)"

fun cell_ends :: "nat \<Rightarrow> jstring list \<Rightarrow> nat list" where
  "cell_ends k [] = []"
| "cell_ends k (c # cs) = (k + length c + 2) # cell_ends (k + length c + 3) cs"

lemma cell_ends_Nil [simp]: "cell_ends k cs = [] \<longleftrightarrow> cs = []"
  by (cases cs) simp_all

lemma print_row_tail: "cs \<noteq> [] \<Longrightarrow> print_row cs = pipe # row_tail cs"
proof -
  have l: "lit ''| '' = [pipe, space]" "lit '' | '' = [space, pipe, space]" "lit '' |'' = [space, pipe]" by code_simp+
  have "join [space, pipe, space] cs @ [space, pipe] = tl (row_tail cs)" if "cs \<noteq> []" for cs
    using that
  proof (induction cs)
    case (Cons c cs)
    then show ?case by (cases "cs = []") (auto simp: row_tail_def join_Cons neq_Nil_conv)
  qed simp
  moreover assume "cs \<noteq> []"
  ultimately show ?thesis by (cases cs) (auto simp: print_row_def l row_tail_def)
qed

lemma upipes_row_tail: "list_all (pipe_free False) cs \<Longrightarrow> upipes False k (row_tail cs) = cell_ends k cs"
proof (induction cs arbitrary: k)
  case (Cons c cs)
  have "upipes False k (row_tail (c # cs)) = upipes False (Suc k) (c @ (space # pipe # row_tail cs))" by (simp add: row_tail_def)
  also have "\<dots> = upipes (foldl (\<lambda>e c. c = backslash \<and> \<not> e) False c) (Suc k + length c) (space # pipe # row_tail cs)"
    using Cons.prems pipe_free_upipes [of False c "Suc k"] by (simp only: upipes_append) simp
  also have "\<dots> = (k + length c + 2) # upipes False (k + length c + 3) (row_tail cs)" by (simp add: numeral_3_eq_3)
  finally show ?case using Cons by simp
qed (simp add: row_tail_def)

lemma last_cell_ends: "cs \<noteq> [] \<Longrightarrow> last (cell_ends k cs) + 1 = k + length (row_tail cs)"
proof (induction cs arbitrary: k)
  case (Cons c cs)
  then show ?case using Cons.IH [of "k + length c + 3"] by (cases "cs = []") (simp_all add: row_tail_def)
qed simp

lemma spans_row_tail:
  "cs \<noteq> [] \<Longrightarrow> map sp_raw (span_loop (pre @ row_tail cs) (length pre) (butlast (cell_ends (length pre) cs)) (last (cell_ends (length pre) cs)))
     = map (\<lambda>c. space # c @ [space]) cs"
proof (induction cs arbitrary: pre)
  case (Cons c cs)
  let ?p = "pre @ space # c @ [space, pipe]"
  have line: "pre @ row_tail (c # cs) = ?p @ row_tail cs" by (simp add: row_tail_def)
  have s: "slice (?p @ row_tail cs) (length pre) (length pre + length c + 2) = space # c @ [space]"
    by (simp add: slice_def)
  show ?case
  proof (cases "cs = []")
    case True
    then show ?thesis using line s by (simp add: row_tail_def)
  next
    case False
    then have ne: "cell_ends (length ?p) cs \<noteq> []" by (cases cs) auto
    have "cell_ends (length pre) (c # cs) = (length pre + length c + 2) # cell_ends (length ?p) cs"
      by (simp add: numeral_3_eq_3)
    then show ?thesis using Cons.IH [OF False, of ?p] ne line s by simp
  qed
qed simp

lemma filter_ends:
  "distinct (a # xs) \<Longrightarrow> xs \<noteq> [] \<Longrightarrow> filter (\<lambda>d. Some d \<noteq> Some a \<and> Some d \<noteq> Some (last xs)) (a # xs) = butlast xs"
  by (induction xs rule: rev_induct) (auto intro!: filter_True)

lemma pipe_plain: "\<not> js_ws pipe"
  by (simp add: js_ws_def)

lemma splitLineSpans_closed:
  assumes "takeWhile js_ws line = []" "takeWhile js_ws (rev line) = []" "line_delims line 0 (length line) = 0 # xs"
    and "xs \<noteq> []" "last xs + 1 = length line" "distinct (0 # xs)"
  shows "splitLineSpans line = span_loop line 1 (butlast xs) (last xs)"
proof -
  have "last xs \<noteq> 0" using assms(4,6) by (metis distinct.simps(2) last_in_set)
  then show ?thesis unfolding splitLineSpans_def Let_def assms(1,2) list.size diff_zero assms(3)
    using filter_ends [OF assms(6,4)] assms(4,5) by simp
qed

lemma split_printed:
  assumes "cs \<noteq> []" "list_all cell_ok cs"
  shows "map sp_raw (splitLineSpans (print_row cs)) = map (\<lambda>c. space # c @ [space]) cs"
proof -
  let ?line = "pipe # row_tail cs" and ?ends = "cell_ends 1 cs"
  have free: "list_all (pipe_free False) cs" using assms(2) by (auto simp: list_all_iff cell_ok_def)
  have ne: "?ends \<noteq> []" using assms(1) by simp
  have lastc: "last ?line = pipe" using assms(1) by (cases cs rule: rev_cases) (auto simp: row_tail_def)
  have lead: "takeWhile js_ws ?line = []" using pipe_plain by simp
  have "rev ?line = pipe # tl (rev ?line)" using lastc by (metis hd_rev list.collapse list.distinct(1) rev_is_Nil_conv)
  then have trail: "takeWhile js_ws (rev ?line) = []" using pipe_plain by (metis takeWhile.simps(2))
  have d: "line_delims ?line 0 (length ?line) = 0 # ?ends"
    using upipes_row_tail [OF free, of 1] unfolding line_delims_all by simp
  moreover have "distinct (line_delims ?line 0 (length ?line))" unfolding line_delims_def by (intro distinct_filter distinct_upt)
  ultimately have dist: "distinct (0 # ?ends)" by simp
  have last: "last ?ends + 1 = length ?line" using last_cell_ends [OF assms(1), of 1] by simp
  have "splitLineSpans ?line = span_loop ?line 1 (butlast ?ends) (last ?ends)"
    by (rule splitLineSpans_closed [OF lead trail d ne last dist])
  then show ?thesis using spans_row_tail [OF assms(1), of "[pipe]"] print_row_tail [OF assms(1)] by simp
qed

lemma printed_cells:
  assumes "cs \<noteq> []" "list_all cell_ok cs"
  shows "map (\<lambda>s. trim (sp_raw s)) (splitLineSpans (print_row cs)) = cs"
proof -
  have "js_ws space" by (simp add: js_ws_def)
  then have "map trim (map (\<lambda>c. space # c @ [space]) cs) = cs"
    using assms(2) by (auto simp: trim_pad cell_ok_def list_all_iff intro!: map_idI)
  then have "map trim (map sp_raw (splitLineSpans (print_row cs))) = cs" by (simp only: split_printed [OF assms])
  then show ?thesis by (simp add: o_def)
qed

lemma pad_row_ok: "list_all cell_ok (pad_row n r)"
  by (simp add: pad_row_def list_all_iff encoded_cell_ok)

text \<open>
  Whatever is typed into the cells of a row, the printed row splits into exactly these
  cells, line breaks flattened, unescaped pipes escaped and outer white space trimmed; and printing
  the result again changes nothing, so escapes never pile up.
\<close>

theorem row_round_trip:
  assumes "0 < n"
  shows "splitTableLine (print_row (pad_row n r)) = pad_row n r \<and> pad_row n (pad_row n r) = pad_row n r"
proof
  have "pad_row n r \<noteq> []" using assms by (simp add: pad_row_def)
  then show "splitTableLine (print_row (pad_row n r)) = pad_row n r"
    using printed_cells [OF _ pad_row_ok] by (simp add: splitTableLine_def decodeTableCell_def)
  show "pad_row n (pad_row n r) = pad_row n r"
    by (rule nth_equalityI) (auto simp: pad_row_def nth_or_def cell_ok_again encoded_cell_ok)
qed

theorem row_round_trip_witness:
  "splitTableLine (print_row (pad_row 2 [lit ''a|b'', [backslash, pipe]])) = [lit ''a'' @ [backslash] @ lit ''|b'', [backslash, pipe]]"
proof -
  have "pad_row 2 [lit ''a|b'', [backslash, pipe]] = [lit ''a'' @ [backslash] @ lit ''|b'', [backslash, pipe]]" by code_simp
  then show ?thesis using row_round_trip [of 2 "[lit ''a|b'', [backslash, pipe]]"] by simp
qed

section \<open>Printed tables parse to the same model\<close>

lemma unix_breaks_id: "cr \<notin> set s \<Longrightarrow> unix_breaks s = s"
  by (induction s) auto

lemma trim_nonempty: "c \<in> set s \<Longrightarrow> \<not> js_ws c \<Longrightarrow> trim s \<noteq> []"
proof
  assume c: "c \<in> set s" "\<not> js_ws c" and e: "trim s = []"
  obtain a b where "s = a @ trim s @ b" "list_all js_ws a" "list_all js_ws b" by (rule trim_decomp)
  then have "list_all js_ws s" using e by (metis append_Nil list_all_append)
  then show False using c by (simp add: list_all_iff)
qed

lemma set_row_tail: "set (row_tail cs) \<subseteq> {space, pipe} \<union> \<Union> (set ` set cs)"
  by (auto simp: row_tail_def)

lemma printed_line:
  assumes "cs \<noteq> []" "list_all cell_ok cs"
  shows "pipe \<in> set (print_row cs)" "nl \<notin> set (print_row cs)" "cr \<notin> set (print_row cs)" "print_row cs \<noteq> []" "trim (print_row cs) \<noteq> []"
proof -
  note p = print_row_tail [OF assms(1)]
  show i: "pipe \<in> set (print_row cs)" "print_row cs \<noteq> []" using p by simp_all
  show "nl \<notin> set (print_row cs)" "cr \<notin> set (print_row cs)"
    using p set_row_tail [of cs] assms(2) by (auto simp: list_all_iff cell_ok_def)
  show "trim (print_row cs) \<noteq> []" using i(1) pipe_plain by (rule trim_nonempty)
qed

lemma line_recs_bound: "r \<in> set (line_recs off ls) \<Longrightarrow> lr_start r + length (lr_line r) \<le> off + length (join [nl] ls)"
proof (induction ls arbitrary: off)
  case (Cons l ls)
  then show ?case
  proof (cases "ls = []")
    case False
    then show ?thesis using Cons.prems Cons.IH [of "off + length l + 1"] by (auto simp: join_Cons)
  qed auto
qed simp

lemma map_line_recs [simp]: "map lr_line (line_recs off ls) = ls"
  by (induction ls arbitrary: off) auto

lemma length_line_recs [simp]: "length (line_recs off ls) = length ls"
  by (induction ls arbitrary: off) auto

text \<open>The lines of a table that the parser takes for one table: all of them.\<close>

lemma table_lines_all:
  assumes "gfm (join [nl] ls) = [\<lparr>nd_table = True, nd_from = 0, nd_to = length (join [nl] ls)\<rparr>]"
    and "2 \<le> length ls" "\<And>l. l \<in> set ls \<Longrightarrow> nl \<notin> set l \<and> trim l \<noteq> [] \<and> l \<noteq> []"
  shows "table_lines gfm (join [nl] ls) = Some (line_recs 0 ls)"
proof -
  have ne: "ls \<noteq> []" using assms(2) by auto
  have sp: "split_on nl (join [nl] ls) = ls" using split_on_join [OF ne] assms(3) by blast
  have "trim (lr_line r) \<noteq> [] \<and> lr_start r < length (join [nl] ls)" if "r \<in> set (line_recs 0 ls)" for r
  proof -
    have "lr_line r \<in> set ls" using that map_line_recs [of 0 ls] by (metis image_eqI set_map)
    then have "trim (lr_line r) \<noteq> []" "lr_line r \<noteq> []" using assms(3) by auto
    then show ?thesis using line_recs_bound [OF that] by (cases "lr_line r") auto
  qed
  then have "filter (\<lambda>r. trim (lr_line r) \<noteq> [] \<and> 0 \<le> lr_start r \<and> lr_start r < length (join [nl] ls)) (line_recs 0 ls) = line_recs 0 ls"
    by (intro filter_True) auto
  then show ?thesis using assms(1,2) by (simp add: table_lines_def soleTableNode_def sp Let_def)
qed

definition delim_fine :: "align \<Rightarrow> bool" where
  "delim_fine a \<longleftrightarrow> cell_ok (delim_text a) \<and> MIN_CELL_DASHES (delim_text a) \<and> alignmentOf (delim_text a) = a"

lemma delim_fine_all: "list_all delim_fine [AlignNone, AlignLeft, AlignCenter, AlignRight]"
  by code_simp

lemma delim_text:
  "cell_ok (delim_text a)" "MIN_CELL_DASHES (delim_text a)" "alignmentOf (delim_text a) = a"
  using delim_fine_all by (cases a, simp_all add: delim_fine_def)+

definition normal_table :: "table_model \<Rightarrow> table_model" where
  "normal_table m =
     (let cols = length (tm_header m)
      in \<lparr>tm_header = pad_row cols (tm_header m), tm_align = tm_align m, tm_body = map (pad_row cols) (tm_body m)\<rparr>)"

lemma build_printed:
  assumes "length al = length h" "h \<noteq> []" "list_all cell_ok h" "list_all (\<lambda>r. length r = length h \<and> list_all cell_ok r) b"
    and "map lr_line recs = print_row h # dl # map print_row b"
  shows "td_model (build_table recs al) = \<lparr>tm_header = h, tm_align = al, tm_body = b\<rparr>"
proof -
  have l: "length recs = length b + 2" using arg_cong [OF assms(5), of length] by simp
  have h: "lr_line (recs ! 0) = print_row h" using arg_cong [OF assms(5), of "\<lambda>x. x ! 0"] l by simp
  have d: "map lr_line (drop 2 recs) = map print_row b" using arg_cong [OF assms(5), of "drop 2"] by (simp add: drop_map)
  have ch: "map (\<lambda>s. trim (sp_raw s)) (splitLineSpans (print_row h)) = h" by (rule printed_cells [OF assms(2,3)])
  have cb: "map (\<lambda>s. trim (sp_raw s)) (splitLineSpans (print_row r)) = r" if "r \<in> set b" for r
    using that assms(2,4) by (intro printed_cells) (auto simp: list_all_iff)
  have lh: "length (splitLineSpans (print_row h)) = length h" using arg_cong [OF ch, of length] by simp
  have lb: "length (splitLineSpans (print_row r)) = length h" if "r \<in> set b" for r
    using arg_cong [OF cb [OF that], of length] assms(4) that by (simp add: list_all_iff)
  have "map (\<lambda>r. length (splitLineSpans (lr_line r))) (drop 2 recs) = map (\<lambda>x. length (splitLineSpans x)) (map lr_line (drop 2 recs))" by simp
  then have "set (length (splitLineSpans (lr_line (recs ! 0))) # length al # map (\<lambda>r. length (splitLineSpans (lr_line r))) (drop 2 recs)) = {length h}"
    unfolding d h lh assms(1) using lb by auto
  then have cols: "table_cols recs al = length h" unfolding table_cols_def by (simp only: Max_singleton)
  have "map (\<lambda>row. pad_to (length h) [] (map (\<lambda>s. trim (sp_raw s)) row)) (map (\<lambda>r. splitLineSpans (lr_line r)) (drop 2 recs))
      = map (\<lambda>x. pad_to (length h) [] (map (\<lambda>s. trim (sp_raw s)) (splitLineSpans x))) (map lr_line (drop 2 recs))" by simp
  also have "\<dots> = b" unfolding d using cb lb by (auto simp: pad_to_def intro!: map_idI)
  finally have "tm_body (td_model (build_table recs al)) = b"
    by (simp add: build_table_def Let_def cols decodeTableCell_def)
  then show ?thesis using ch lh assms(1) h by (simp add: build_table_def Let_def cols decodeTableCell_def pad_to_def)
qed

text \<open>
  Property C18: a rectangular table that is printed and parsed again, strictly, is the same model with
  its cells in normal form, given that the Markdown parser sees one table in the printed text.
\<close>

theorem table_round_trip:
  assumes "rect m"
    and "gfm (serializeMarkdownTable m) = [\<lparr>nd_table = True, nd_from = 0, nd_to = length (serializeMarkdownTable m)\<rparr>]"
  shows "map_option td_model (parseTableDocument gfm (serializeMarkdownTable m) True) = Some (normal_table m)"
proof -
  let ?n = "length (tm_header m)"
  let ?h = "pad_row ?n (tm_header m)" and ?b = "map (pad_row ?n) (tm_body m)" and ?d = "map delim_text (tm_align m)"
  let ?ls = "print_row ?h # print_row ?d # map print_row ?b"
  have n: "0 < ?n" "max ?n 1 = ?n" "length (tm_align m) = ?n" using assms(1) by (cases "tm_header m", auto simp: rect_def)+
  have "map (\<lambda>i. delim_text (nth_or AlignNone (tm_align m) i)) [0..<?n] = ?d"
    using n(3) by (intro nth_equalityI) (auto simp: nth_or_def)
  then have printed: "serializeMarkdownTable m = join [nl] ?ls"
    unfolding serializeMarkdownTable_def Let_def n(2) by (simp only: map_map o_def)
  have rows: "cs \<noteq> []" "list_all cell_ok cs" if "cs \<in> {?h, ?d} \<union> set ?b" for cs
    using that n by (auto simp: pad_row_ok list_all_iff delim_text(1) pad_row_def encoded_cell_ok)
  have line: "nl \<notin> set l \<and> cr \<notin> set l \<and> trim l \<noteq> [] \<and> l \<noteq> []" if l: "l \<in> set ?ls" for l
  proof -
    obtain cs where c: "l = print_row cs" "cs \<in> {?h, ?d} \<union> set ?b" using l by auto
    show ?thesis unfolding c(1) using printed_line(2-5) [OF rows [OF c(2)]] by simp
  qed
  have "cr \<notin> set (join [nl] ls)" if "\<And>l. l \<in> set ls \<Longrightarrow> cr \<notin> set l" for ls
    using that by (induction ls rule: induct_list012) auto
  then have "unix_breaks (join [nl] ?ls) = join [nl] ?ls" using line by (intro unix_breaks_id) blast
  moreover have "table_lines gfm (join [nl] ?ls) = Some (line_recs 0 ?ls)"
    using assms(2) line unfolding printed by (intro table_lines_all) auto
  moreover have delim: "map (\<lambda>s. trim (sp_raw s)) (splitLineSpans (print_row ?d)) = ?d"
    using n by (intro printed_cells) (auto simp: list_all_iff delim_text)
  then have "delimiter_align (splitLineSpans (print_row ?d)) = Some (tm_align m)"
    by (simp add: delimiter_align_def delim_text list_all_iff map_idI o_def)
  moreover have head: "map (\<lambda>s. trim (sp_raw s)) (splitLineSpans (print_row ?h)) = ?h"
    using n by (intro printed_cells pad_row_ok) (auto simp: pad_row_def)
  have "length (splitLineSpans (print_row ?h)) = length (splitLineSpans (print_row ?d))"
    using arg_cong [OF head, of length] arg_cong [OF delim, of length] n(3) by (simp add: pad_row_def)
  moreover have "pipe \<in> set (print_row ?h)" using n by (intro printed_line(1) pad_row_ok) (auto simp: pad_row_def)
  moreover have "td_model (build_table (line_recs 0 ?ls) (tm_align m)) = normal_table m"
    unfolding normal_table_def Let_def
    using n by (intro build_printed) (auto simp: pad_row_ok list_all_iff encoded_cell_ok pad_row_def)
  ultimately show ?thesis unfolding printed by (simp add: parseTableDocument_def strict_ok_def)
qed

theorem table_round_trip_witness:
  "map_option td_model (parseTableDocument demo_gfm (serializeMarkdownTable demo_rows) True) = Some (normal_table demo_rows)"
proof -
  have "rect demo_rows" by code_simp
  then show ?thesis by (rule table_round_trip) (simp add: demo_gfm_def)
qed

section \<open>Source spans\<close>

lemma span_loop_raw:
  assumes "s \<in> set (span_loop line st ds e)" "\<forall>d\<in>set ds. d \<le> length line" "e \<le> length line"
  shows "sp_raw s = slice line (sp_from s) (sp_to s) \<and> sp_to s \<le> length line"
  using assms by (induction ds arbitrary: st) auto

lemma split_spans_raw:
  assumes "s \<in> set (splitLineSpans line)"
  shows "sp_raw s = slice line (sp_from s) (sp_to s) \<and> sp_to s \<le> length line"
proof -
  let ?e = "length line - length (takeWhile js_ws (rev line))" and ?a = "length (takeWhile js_ws line)"
  have d: "d < ?e" if "d \<in> set (line_delims line ?a ?e)" for d using that by (auto simp: line_delims_def)
  then have "last (line_delims line ?a ?e) < ?e" if "line_delims line ?a ?e \<noteq> []" using that by simp
  then show ?thesis using d assms unfolding splitLineSpans_def Let_def
    by (elim span_loop_raw) (auto split: option.splits if_splits simp: less_imp_le_nat intro: less_imp_le_nat order.trans dest!: d)
qed

lemma line_recs_split:
  assumes "r \<in> set (line_recs off ls)"
  obtains pre post where "join [nl] ls = pre @ lr_line r @ post" "lr_start r = off + length pre"
  using assms
proof (induction ls arbitrary: off thesis)
  case (Cons l ls)
  show ?case
  proof (cases "r = \<lparr>lr_line = l, lr_start = off\<rparr>")
    case True
    then show ?thesis using Cons.prems(1) [of "[]" "drop (length l) (join [nl] (l # ls))"]
      by (cases "ls = []") (auto simp: join_Cons)
  next
    case False
    then have r: "r \<in> set (line_recs (off + length l + 1) ls)" "ls \<noteq> []" using Cons.prems(2) by auto
    obtain pre post where "join [nl] ls = pre @ lr_line r @ post" "lr_start r = off + length l + 1 + length pre"
      using Cons.IH [OF _ r(1)] by blast
    then show ?thesis using Cons.prems(1) [of "l @ nl # pre" post] r(2) by (simp add: join_Cons)
  qed
qed simp

lemma pad_cells_present:
  assumes "cell \<in> set (pad_cells n spans r)" "\<not> tc_missing cell"
  shows "\<exists>s\<in>set spans. tc_from cell = lr_start r + sp_from s \<and> tc_to cell = lr_start r + sp_to s \<and> tc_raw cell = sp_raw s"
proof -
  obtain c where "c < length spans" "cell = \<lparr>tc_from = lr_start r + sp_from (spans ! c), tc_to = lr_start r + sp_to (spans ! c),
      tc_raw = sp_raw (spans ! c), tc_missing = False\<rparr>"
    using assms by (auto simp: pad_cells_def Let_def split: if_splits)
  then show ?thesis by (intro bexI [of _ "spans ! c"]) simp_all
qed

lemma slice_shift: "b \<le> length l \<Longrightarrow> slice (pre @ l @ post) (length pre + a) (length pre + b) = slice l a b"
  by (simp add: slice_def)

text \<open>
  The span of every cell the source has selects exactly the raw text of the cell in the
  source with normalised line breaks, so that replacing the span rewrites that cell and nothing else.
\<close>

theorem cell_spans_exact:
  assumes "parseTableDocument gfm src strict = Some d" "row \<in> set (td_cells d)" "cell \<in> set row" "\<not> tc_missing cell"
  shows "slice (unix_breaks src) (tc_from cell) (tc_to cell) = tc_raw cell"
proof -
  obtain recs al where p: "table_lines gfm (unix_breaks src) = Some recs" "d = build_table recs al"
    using assms(1) by (elim parseTableDocument_Some)
  have recs: "set recs \<subseteq> set (line_recs 0 (split_on nl (unix_breaks src)))" "2 \<le> length recs"
    using p(1) by (auto simp: table_lines_def Let_def split: option.splits if_splits)
  have "recs ! 0 \<in> set recs" using recs(2) by (intro nth_mem) linarith
  moreover obtain r n where "row = pad_cells n (splitLineSpans (lr_line r)) r" "r = recs ! 0 \<or> r \<in> set (drop 2 recs)"
    using assms(2) p(2) by (auto simp: build_table_def Let_def)
  ultimately have r: "row = pad_cells n (splitLineSpans (lr_line r)) r" "r \<in> set (line_recs 0 (split_on nl (unix_breaks src)))"
    using recs(1) by (auto dest: in_set_dropD)
  then obtain s where s: "s \<in> set (splitLineSpans (lr_line r))" "tc_from cell = lr_start r + sp_from s"
    "tc_to cell = lr_start r + sp_to s" "tc_raw cell = sp_raw s"
    using pad_cells_present [of cell n "splitLineSpans (lr_line r)" r] assms(3,4) by auto
  obtain pre post where "unix_breaks src = pre @ lr_line r @ post" "lr_start r = length pre"
    using r(2) by (elim line_recs_split) (simp add: join_split_on)
  then show ?thesis using split_spans_raw [OF s(1)] s(2-4) slice_shift [of "sp_to s" "lr_line r" pre post "sp_from s"] by simp
qed

theorem cell_spans_exact_witness: "slice (unix_breaks demo_source) 2 3 = lit ''b''"
proof -
  let ?c = "\<lambda>a b r. \<lparr>tc_from = a, tc_to = b, tc_raw = r, tc_missing = False\<rparr> :: table_cell"
  have m: "map_option td_cells (parseTableDocument demo_gfm demo_source True) = Some [[?c 0 1 (lit ''a''), ?c 2 3 (lit ''b'')]]" by code_simp
  then obtain d where d: "parseTableDocument demo_gfm demo_source True = Some d" "td_cells d = [[?c 0 1 (lit ''a''), ?c 2 3 (lit ''b'')]]" by auto
  show ?thesis using cell_spans_exact [OF d(1), of _ "?c 2 3 (lit ''b'')"] d(2) by simp
qed

end
