(* ===== verification/DropWalk.thy ===== *)
theory DropWalk
  imports UploadRunner
begin

text \<open>
  Collecting what a drop or a picker holds, \<open>lib/collectUploadFiles.js\<close>: the synchronous part that
  takes the entries out of the event, the walk that reports files as it goes, and the older collectors.

  An entry of the browser's file system is a tree. A file entry gives its file or rejects; a directory
  reader gives its batches one after the other and then either an empty batch or an error. The abort
  signal is observed only where the code polls it: \<open>wk_polls\<close> is the number of polls that still
  see it unset, \<^const>\<open>None\<close> when it never fires. The handlers are given by what they are called
  with: the list of reports. A handler that throws is left out: inside the \<open>try\<close> of an entry the code
  would report the entry to \<open>onError\<close> as well, but those of the upload runner, the only caller, do not throw.
\<close>

section \<open>Entries\<close>

datatype fs_entry =
    FsFile jstring "file_obj option"
  | FsDir jstring "fs_entry list list" bool
  | FsOther jstring

fun fs_name :: "fs_entry \<Rightarrow> jstring" where
  "fs_name (FsFile n f) = n"
| "fs_name (FsDir n bs bad) = n"
| "fs_name (FsOther n) = n"

definition rel_path :: "jstring \<Rightarrow> jstring \<Rightarrow> jstring" where
  [js_eval]: "rel_path prefix name = (if prefix \<noteq> [] then prefix @ [slash] @ name else name)"

section \<open>Taking a drop apart\<close>

datatype drop_item = DropText | DropEntry fs_entry | DropFile "file_obj option"

record data_transfer =
  dt_items :: "drop_item list"
  dt_files :: "file_obj list"

fun drop_entries :: "drop_item list \<Rightarrow> fs_entry list" where
  "drop_entries [] = []"
| "drop_entries (DropEntry e # is) = e # drop_entries is"
| "drop_entries (_ # is) = drop_entries is"

fun drop_files :: "drop_item list \<Rightarrow> file_obj list" where
  "drop_files [] = []"
| "drop_files (DropFile (Some f) # is) = f # drop_files is"
| "drop_files (_ # is) = drop_files is"

definition filesFromFileList :: "file_obj list \<Rightarrow> file_obj list" where
  [js_eval]: "filesFromFileList fs = fs"

definition takeDropped :: "data_transfer option \<Rightarrow> fs_entry list \<times> file_obj list" where
  [js_eval]: "takeDropped dt =
     (case dt of
        None \<Rightarrow> ([], [])
      | Some d \<Rightarrow>
          (let entries = drop_entries (dt_items d); files = drop_files (dt_items d)
           in (entries, if entries = [] \<and> files = [] then filesFromFileList (dt_files d) else files)))"

section \<open>The walk\<close>

datatype report = OnFile file_obj jstring | OnDir jstring | OnError jstring

record walk_state =
  wk_polls :: "nat option"
  wk_log :: "report list"

text \<open>One look at \<open>signal?.aborted\<close>.\<close>

definition poll :: "walk_state \<Rightarrow> bool \<times> walk_state" where
  [js_eval]: "poll s =
     (case wk_polls s of
        None \<Rightarrow> (False, s)
      | Some 0 \<Rightarrow> (True, s)
      | Some (Suc n) \<Rightarrow> (False, s\<lparr>wk_polls := Some n\<rparr>))"

definition report :: "report \<Rightarrow> walk_state \<Rightarrow> walk_state" where
  [js_eval]: "report r s = s\<lparr>wk_log := wk_log s @ [r]\<rparr>"

text \<open>
  \<open>walk\<close> with the loop over the batches of a directory and the loop over the children of a batch.
  The batch loop returns whether the walk of the directory was left by an early return, broke off with
  an error, or ran to the empty batch with a count.
\<close>

datatype batch_end = Left | Failed | Drained nat

function walk :: "fs_entry \<Rightarrow> jstring \<Rightarrow> walk_state \<Rightarrow> walk_state"
  and walk_batches :: "fs_entry list list \<Rightarrow> bool \<Rightarrow> jstring \<Rightarrow> nat \<Rightarrow> walk_state \<Rightarrow> batch_end \<times> walk_state"
  and walk_children :: "fs_entry list \<Rightarrow> jstring \<Rightarrow> walk_state \<Rightarrow> walk_state"
where
  "walk e prefix s =
     (let rel = rel_path prefix (fs_name e); (aborted, s1) = poll s
      in if aborted then s1
         else (case e of
                 FsFile n None \<Rightarrow> report (OnError rel) s1
               | FsFile n (Some f) \<Rightarrow> (let (aborted, s2) = poll s1 in if aborted then s2 else report (OnFile f rel) s2)
               | FsDir n batches bad \<Rightarrow>
                   (case walk_batches batches bad rel 0 s1 of
                      (Left, s2) \<Rightarrow> s2
                    | (Failed, s2) \<Rightarrow> report (OnError rel) s2
                    | (Drained count, s2) \<Rightarrow> if count = 0 then report (OnDir rel) s2 else s2)
               | FsOther n \<Rightarrow> s1))"
| "walk_batches batches bad rel count s =
     (let (aborted, s1) = poll s
      in if aborted then (Left, s1)
         else if batches = [] \<and> bad then (Failed, s1)
         else (let (aborted, s2) = poll s1
               in if aborted then (Left, s2)
                  else (case batches of
                          [] \<Rightarrow> (Drained count, s2)
                        | b # bs \<Rightarrow> if b = [] then (Drained count, s2)
                                     else walk_batches bs bad rel (count + length b) (walk_children b rel s2))))"
| "walk_children es rel s = (case es of [] \<Rightarrow> s | e # es' \<Rightarrow> walk_children es' rel (walk e rel s))"
  by pat_completeness auto

termination
  by (relation "measure (\<lambda>x. case x of
      Inl (e, _, _) \<Rightarrow> 3 * size e
    | Inr (Inl (bs, _, _, _, _)) \<Rightarrow> 3 * size_list (size_list size) bs + 1
    | Inr (Inr (es, _, _)) \<Rightarrow> 3 * size_list size es + 1)") (auto split: fs_entry.splits)

declare walk.simps [simp del, js_eval] walk_batches.simps [simp del, js_eval] walk_children.simps [simp del, js_eval]

text \<open>Plain files first, each with its own poll, then the entries. An early return ends the whole walk.\<close>

fun walk_files :: "file_obj list \<Rightarrow> walk_state \<Rightarrow> bool \<times> walk_state" where
  "walk_files [] s = (False, s)"
| "walk_files (f # fs) s =
     (let (aborted, s1) = poll s
      in if aborted then (True, s1)
         else walk_files fs (report (OnFile f (if f_rel f \<noteq> [] then f_rel f else f_name f)) s1))"

declare walk_files.simps [js_eval]

definition walkDropped :: "fs_entry list \<times> file_obj list \<Rightarrow> walk_state \<Rightarrow> walk_state" where
  [js_eval]: "walkDropped dropped s =
     (case walk_files (snd dropped) s of
        (True, s1) \<Rightarrow> s1
      | (False, s1) \<Rightarrow> walk_children (fst dropped) [] s1)"

section \<open>Where an upload goes\<close>

definition drop_slashes :: "jstring \<Rightarrow> jstring" where
  [js_eval]: "drop_slashes s = dropWhile (\<lambda>c. c = slash) s"

definition path_parts :: "jstring \<Rightarrow> jstring list" where
  [js_eval]: "path_parts s = filter (\<lambda>p. p \<noteq> []) (split_on slash s)"

definition uploadDestForFile :: "jstring \<Rightarrow> file_obj \<Rightarrow> jstring \<times> jstring" where
  [js_eval]: "uploadDestForFile destFolder file =
     (let parts = path_parts (drop_slashes (if f_rel file \<noteq> [] then f_rel file else f_name file));
          name = (if parts \<noteq> [] then last parts else if f_name file \<noteq> [] then f_name file else lit ''file'');
          nested = join [slash] (butlast parts)
      in (if nested \<noteq> [] then (if destFolder \<noteq> [] then destFolder @ [slash] @ nested else nested) else destFolder, name))"

section \<open>The older collectors\<close>

text \<open>
  A promise ends resolved or rejected, or stays pending for good. \<open>Promise.all\<close> rejects when any of
  its arguments does, and gives the results in the order of the arguments.
\<close>

datatype 'a promise = Resolved 'a | Rejected | Pending

definition promise_all :: "'a promise list \<Rightarrow> 'a list promise" where
  [js_eval]: "promise_all ps =
     (if Rejected \<in> set ps then Rejected else if Pending \<in> set ps then Pending
      else Resolved (List.map_filter (\<lambda>p. case p of Resolved x \<Rightarrow> Some x | _ \<Rightarrow> None) ps))"

definition flat_promise :: "'a list list promise \<Rightarrow> 'a list promise" where
  [js_eval]: "flat_promise p = (case p of Resolved xs \<Rightarrow> Resolved (concat xs) | Rejected \<Rightarrow> Rejected | Pending \<Rightarrow> Pending)"

text \<open>
  The promise of a directory is rejected by its reader only. What its batches reject with is thrown
  inside the asynchronous callback of the last, empty batch, where nobody waits for it; the promise of
  the directory then never settles. A file takes the relative path it is given.
\<close>

function readEntry :: "fs_entry \<Rightarrow> jstring \<Rightarrow> file_obj list promise"
  and readEntries :: "fs_entry list \<Rightarrow> jstring \<Rightarrow> file_obj list promise list"
  and readBatches :: "fs_entry list list \<Rightarrow> jstring \<Rightarrow> file_obj list promise list"
where
  "readEntry (FsFile n f) prefix =
     (case f of None \<Rightarrow> Rejected | Some g \<Rightarrow> Resolved [g\<lparr>f_rel := rel_path prefix (f_name g)\<rparr>])"
| "readEntry (FsOther n) prefix = Resolved []"
| "readEntry (FsDir n bs bad) prefix =
     (if bad \<and> [] \<notin> set bs then Rejected
      else (case promise_all (readBatches bs (rel_path prefix n)) of
              Resolved parts \<Rightarrow> Resolved (concat parts)
            | _ \<Rightarrow> Pending))"
| "readEntries [] prefix = []"
| "readEntries (e # es) prefix = readEntry e prefix # readEntries es prefix"
| "readBatches [] prefix = []"
| "readBatches (b # bs) prefix =
     (if b = [] then [] else flat_promise (promise_all (readEntries b prefix)) # readBatches bs prefix)"
  by pat_completeness auto
termination
  by (relation "measure (\<lambda>x. case x of
      Inl (e, _) \<Rightarrow> 3 * size e
    | Inr (Inl (es, _)) \<Rightarrow> 3 * size_list size es + 1
    | Inr (Inr (bs, _)) \<Rightarrow> 3 * size_list (size_list size) bs + 1)") auto

fun drop_jobs :: "drop_item list \<Rightarrow> file_obj list promise list" where
  "drop_jobs [] = []"
| "drop_jobs (DropText # is) = drop_jobs is"
| "drop_jobs (DropEntry e # is) = readEntry e [] # drop_jobs is"
| "drop_jobs (DropFile (Some f) # is) = Resolved [f] # drop_jobs is"
| "drop_jobs (DropFile None # is) = drop_jobs is"

definition filesFromDataTransfer :: "data_transfer option \<Rightarrow> file_obj list promise" where
  [js_eval]: "filesFromDataTransfer dt =
     (case dt of
        None \<Rightarrow> Resolved []
      | Some d \<Rightarrow>
          (case flat_promise (promise_all (drop_jobs (dt_items d))) of
             Resolved nested \<Rightarrow> if nested \<noteq> [] then Resolved nested else Resolved (filesFromFileList (dt_files d))
           | p \<Rightarrow> p))"

declare readEntry.simps [js_eval] readEntries.simps [js_eval] readBatches.simps [js_eval]
  drop_jobs.simps [js_eval] drop_entries.simps [js_eval] drop_files.simps [js_eval]

section \<open>What a walk reports\<close>

text \<open>The reports of an entry when nothing is aborted, in order.\<close>

function events :: "fs_entry \<Rightarrow> jstring \<Rightarrow> report list"
  and batch_events :: "fs_entry list list \<Rightarrow> bool \<Rightarrow> jstring \<Rightarrow> bool \<Rightarrow> report list"
  and child_events :: "fs_entry list \<Rightarrow> jstring \<Rightarrow> report list"
where
  "events (FsFile n None) prefix = [OnError (rel_path prefix n)]"
| "events (FsFile n (Some f)) prefix = [OnFile f (rel_path prefix n)]"
| "events (FsOther n) prefix = []"
| "events (FsDir n bs bad) prefix = batch_events bs bad (rel_path prefix n) True"
| "batch_events [] bad rel fresh = (if bad then [OnError rel] else if fresh then [OnDir rel] else [])"
| "batch_events (b # bs) bad rel fresh =
     (if b = [] then if fresh then [OnDir rel] else [] else child_events b rel @ batch_events bs bad rel False)"
| "child_events [] rel = []"
| "child_events (e # es) rel = events e rel @ child_events es rel"
  by pat_completeness auto
termination
  by (relation "measure (\<lambda>x. case x of
      Inl (e, _) \<Rightarrow> 3 * size e
    | Inr (Inl (bs, _, _, _)) \<Rightarrow> 3 * size_list (size_list size) bs + 1
    | Inr (Inr (es, _)) \<Rightarrow> 3 * size_list size es + 1)") auto

text \<open>
  A piece of the walk either makes all its reports or is cut short by the signal after some of them;
  it stops when the signal has fired if it polls before it reports.
\<close>

definition cut :: "walk_state \<Rightarrow> walk_state \<Rightarrow> report list \<Rightarrow> bool" where
  "cut s t evs \<longleftrightarrow>
     (wk_log t = wk_log s @ evs \<and> (wk_polls t = None \<longleftrightarrow> wk_polls s = None))
     \<or> (wk_polls s \<noteq> None \<and> wk_polls t = Some 0 \<and> (\<exists>a b. evs = a @ b \<and> wk_log t = wk_log s @ a))"

definition reports :: "(walk_state \<Rightarrow> walk_state) \<Rightarrow> report list \<Rightarrow> bool" where
  "reports f evs \<longleftrightarrow> (\<forall>s. cut s (f s) evs)"

definition stops :: "(walk_state \<Rightarrow> walk_state) \<Rightarrow> bool" where
  "stops f \<longleftrightarrow> (\<forall>s. wk_polls s = Some 0 \<longrightarrow> f s = s)"

definition guarded :: "(walk_state \<Rightarrow> walk_state) \<Rightarrow> walk_state \<Rightarrow> walk_state" where
  "guarded f s = (let (aborted, s1) = poll s in if aborted then s1 else f s1)"

lemma reports_report: "reports (report r) [r]"
  by (simp add: reports_def cut_def report_def)

lemma reports_id: "reports (\<lambda>s. s) []"
  by (simp add: reports_def cut_def)

lemma stops_guarded: "stops (guarded f)"
  by (simp add: stops_def guarded_def poll_def)

lemma reports_guarded:
  assumes "reports f evs"
  shows "reports (guarded f) evs"
  unfolding reports_def
proof
  fix s
  show "cut s (guarded f s) evs"
  proof (cases "wk_polls s")
    case None
    then show ?thesis using assms by (simp add: guarded_def poll_def reports_def)
  next
    case (Some n)
    show ?thesis
    proof (cases n)
      case 0
      then show ?thesis using Some by (auto simp: guarded_def poll_def cut_def)
    next
      case (Suc k)
      have "cut (s\<lparr>wk_polls := Some k\<rparr>) (f (s\<lparr>wk_polls := Some k\<rparr>)) evs" using assms by (simp add: reports_def)
      then show ?thesis using Some Suc by (auto simp: guarded_def poll_def cut_def)
    qed
  qed
qed

lemma reports_seq:
  assumes "reports f a" "reports g b" "stops g"
  shows "reports (\<lambda>s. g (f s)) (a @ b)"
  unfolding reports_def
proof
  fix s
  have f: "cut s (f s) a" and g: "cut (f s) (g (f s)) b" using assms by (auto simp: reports_def)
  show "cut s (g (f s)) (a @ b)"
  proof (cases "wk_polls (f s) = Some 0")
    case True
    then have "g (f s) = f s" using assms(3) by (simp add: stops_def)
    then show ?thesis using f True by (auto simp: cut_def)
  next
    case False
    then have "wk_log (f s) = wk_log s @ a" "wk_polls (f s) = None \<longleftrightarrow> wk_polls s = None" using f by (auto simp: cut_def)
    then show ?thesis using g by (auto simp: cut_def)
  qed
qed

definition batch_finish :: "jstring \<Rightarrow> batch_end \<times> walk_state \<Rightarrow> walk_state" where
  "batch_finish rel r =
     (case r of (Left, s) \<Rightarrow> s | (Failed, s) \<Rightarrow> report (OnError rel) s
      | (Drained count, s) \<Rightarrow> if count = 0 then report (OnDir rel) s else s)"

lemma walk_guarded:
  "walk (FsFile n None) prefix = guarded (report (OnError (rel_path prefix n)))"
  "walk (FsFile n (Some f)) prefix = guarded (guarded (report (OnFile f (rel_path prefix n))))"
  "walk (FsOther n) prefix = guarded (\<lambda>s. s)"
  "walk (FsDir n bs bad) prefix = guarded (\<lambda>s. batch_finish (rel_path prefix n) (walk_batches bs bad (rel_path prefix n) 0 s))"
  by (auto simp: fun_eq_iff walk.simps [of "FsFile n None"] walk.simps [of "FsFile n (Some f)"] walk.simps [of "FsOther n"]
      walk.simps [of "FsDir n bs bad"] guarded_def batch_finish_def Let_def split: prod.split)

lemma batches_guarded:
  "batch_finish rel (walk_batches [] True rel c s) = guarded (report (OnError rel)) s"
  "batch_finish rel (walk_batches [] False rel c s) = guarded (guarded (if c = 0 then report (OnDir rel) else (\<lambda>s. s))) s"
  "batch_finish rel (walk_batches ([] # bs) bad rel c s) = guarded (guarded (if c = 0 then report (OnDir rel) else (\<lambda>s. s))) s"
  "batch_finish rel (walk_batches ((e # es) # bs) bad rel c s) =
     guarded (guarded (\<lambda>s. batch_finish rel (walk_batches bs bad rel (c + Suc (length es)) (walk_children (e # es) rel s)))) s"
  by (auto simp: walk_batches.simps [of "[]"] walk_batches.simps [of "[] # bs"] walk_batches.simps [of "(e # es) # bs"]
      guarded_def batch_finish_def Let_def split: prod.split)

lemma walk_reports:
  "reports (walk e p) (events e p) \<and> stops (walk e p)"
  "(c = 0 \<longleftrightarrow> fresh) \<Longrightarrow> reports (\<lambda>s. batch_finish rel (walk_batches bs bad rel c s)) (batch_events bs bad rel fresh)
     \<and> stops (\<lambda>s. batch_finish rel (walk_batches bs bad rel c s))"
  "reports (walk_children es rel) (child_events es rel) \<and> stops (walk_children es rel)"
proof (induction e p and bs bad rel fresh and es rel arbitrary: and c rule: events_batch_events_child_events.induct)
  case (6 b bs bad rel fresh)
  show ?case
  proof (cases b)
    case Nil
    then show ?thesis using 6(3)
      by (auto simp: batches_guarded [abs_def] stops_guarded intro!: reports_guarded reports_report reports_id)
  next
    case (Cons e es)
    have "reports (\<lambda>s. batch_finish rel (walk_batches bs bad rel (c + Suc (length es)) (walk_children b rel s)))
        (child_events b rel @ batch_events bs bad rel False)"
      using 6(1) 6(2) [of "c + Suc (length es)"] Cons by (intro reports_seq) auto
    then show ?thesis using Cons by (auto simp: batches_guarded [abs_def] stops_guarded intro!: reports_guarded)
  qed
next
  case (5 bad rel fresh)
  then show ?case
    by (cases bad) (auto simp: batches_guarded [abs_def] stops_guarded intro!: reports_guarded reports_report reports_id)
next
  case (8 e es rel)
  have "walk_children (e # es) rel = (\<lambda>s. walk_children es rel (walk e rel s))"
    by (simp add: fun_eq_iff walk_children.simps [of "e # es"])
  then show ?case using 8 reports_seq [of "walk e rel" "events e rel" "walk_children es rel" "child_events es rel"]
    by (auto simp: stops_def)
next
  case (7 rel)
  have "walk_children [] rel = (\<lambda>s. s)" by (simp add: fun_eq_iff walk_children.simps)
  then show ?case by (simp add: reports_id stops_def)
qed (auto simp: walk_guarded stops_guarded intro!: reports_guarded reports_report reports_id)

definition file_events :: "file_obj list \<Rightarrow> report list" where
  "file_events fs = map (\<lambda>f. OnFile f (if f_rel f \<noteq> [] then f_rel f else f_name f)) fs"

lemma walkDropped_reports:
  "reports (\<lambda>s. walkDropped (es, fs) s) (file_events fs @ child_events es []) \<and> stops (\<lambda>s. walkDropped (es, fs) s)"
proof (induction fs)
  case Nil
  have "(\<lambda>s. walkDropped (es, []) s) = walk_children es []" by (simp add: fun_eq_iff walkDropped_def)
  then show ?case using walk_reports(3) by (simp add: file_events_def)
next
  case (Cons f fs)
  let ?r = "OnFile f (if f_rel f \<noteq> [] then f_rel f else f_name f)"
  have "(\<lambda>s. walkDropped (es, f # fs) s) = guarded (\<lambda>s. walkDropped (es, fs) (report ?r s))"
    by (auto simp: fun_eq_iff walkDropped_def guarded_def Let_def split: prod.split bool.split)
  moreover have "reports (\<lambda>s. walkDropped (es, fs) (report ?r s)) ([?r] @ file_events fs @ child_events es [])"
    using reports_seq [OF reports_report [of ?r], of "\<lambda>s. walkDropped (es, fs) s"] Cons by blast
  ultimately show ?case by (simp add: file_events_def reports_guarded stops_guarded)
qed

lemma walkDropped_cut: "cut s (walkDropped (es, fs) s) (file_events fs @ child_events es [])"
  using walkDropped_reports by (simp add: reports_def)

lemma walkDropped_all:
  "wk_log (walkDropped (es, fs) \<lparr>wk_polls = None, wk_log = []\<rparr>) = file_events fs @ child_events es []"
  using walkDropped_cut [of "\<lparr>wk_polls = None, wk_log = []\<rparr>" es fs] by (simp add: cut_def)

text \<open>
  The files a drop holds, as a predicate on the trees: a file the browser can read, at the path under
  the dropped folder's own name. A directory reader is read up to its first empty batch.
\<close>

inductive holds_file :: "fs_entry \<Rightarrow> jstring \<Rightarrow> file_obj \<Rightarrow> jstring \<Rightarrow> bool" where
  here: "holds_file (FsFile n (Some f)) prefix f (rel_path prefix n)"
| below: "b \<in> set (takeWhile (\<lambda>b. b \<noteq> []) bs) \<Longrightarrow> e \<in> set b \<Longrightarrow> holds_file e (rel_path prefix n) f r \<Longrightarrow>
    holds_file (FsDir n bs bad) prefix f r"

inductive_cases holds_fileE [elim!]: "holds_file (FsFile n g) prefix f r" "holds_file (FsOther n) prefix f r"
  "holds_file (FsDir n bs bad) prefix f r"

lemma events_files:
  "OnFile f r \<in> set (events e p) \<longleftrightarrow> holds_file e p f r"
  "OnFile f r \<in> set (batch_events bs bad rel fresh) \<longleftrightarrow>
     (\<exists>b\<in>set (takeWhile (\<lambda>b. b \<noteq> []) bs). \<exists>e\<in>set b. holds_file e rel f r)"
  "OnFile f r \<in> set (child_events es rel) \<longleftrightarrow> (\<exists>e\<in>set es. holds_file e rel f r)"
  by (induction e p and bs bad rel fresh and es rel rule: events_batch_events_child_events.induct)
    (auto intro: here below)

text \<open>
  Property C19: a walk that is not aborted hands over every readable file of the drop, at its path, and
  nothing else: an entry that fails is reported and never stops the others.
\<close>

theorem walk_finds_every_file:
  "OnFile f r \<in> set (wk_log (walkDropped (es, fs) \<lparr>wk_polls = None, wk_log = []\<rparr>)) \<longleftrightarrow>
   (\<exists>e\<in>set es. holds_file e [] f r) \<or> (f \<in> set fs \<and> r = (if f_rel f \<noteq> [] then f_rel f else f_name f))"
  unfolding walkDropped_all by (auto simp: events_files file_events_def)

section \<open>Upload destinations\<close>

lemma path_parts_nonempty: "p \<in> set (path_parts s) \<Longrightarrow> p \<noteq> [] \<and> slash \<notin> set p"
  by (auto simp: path_parts_def dest: split_on_no_sep)

text \<open>
  The folder and the name an upload goes to spell the path of the file under the chosen
  folder, and the name is never empty; it holds no slash when the path has a segment.
\<close>

theorem upload_dest_spells_path:
  assumes "path_parts (drop_slashes (if f_rel file \<noteq> [] then f_rel file else f_name file)) = parts" "parts \<noteq> []"
  shows "let (destPath, name) = uploadDestForFile dest file in
    rel_path destPath name = rel_path dest (join [slash] parts) \<and> name \<noteq> [] \<and> slash \<notin> set name"
proof -
  have l: "last parts \<noteq> []" "slash \<notin> set (last parts)" using path_parts_nonempty assms by (metis last_in_set)+
  have "join [slash] parts = (if butlast parts = [] then last parts else join [slash] (butlast parts) @ [slash] @ last parts)"
    using assms(2)
  proof (induction parts)
    case (Cons p ps)
    then show ?case by (cases ps) (auto simp: join_Cons)
  qed simp
  moreover have "join [slash] ps = [] \<longleftrightarrow> ps = []" if "\<And>p. p \<in> set ps \<Longrightarrow> p \<noteq> []" for ps :: "jstring list"
    using that by (cases ps) (auto simp: join_Cons, metis append_is_Nil_conv join.simps(2) join_Cons)
  then have "join [slash] (butlast parts) = [] \<longleftrightarrow> butlast parts = []"
    using path_parts_nonempty assms(1) in_set_butlastD by metis
  ultimately show ?thesis using assms l by (auto simp: uploadDestForFile_def Let_def rel_path_def)
qed

definition demo_file :: file_obj where
  "demo_file = \<lparr>f_ref = 0, f_name = lit ''a.jpg'', f_rel = lit ''Photos/a.jpg'', f_size = 1\<rparr>"

theorem upload_dest_spells_path_witness:
  "uploadDestForFile (lit ''in'') demo_file = (lit ''in/Photos'', lit ''a.jpg'')
   \<and> rel_path (lit ''in/Photos'') (lit ''a.jpg'') = rel_path (lit ''in'') (join [slash] [lit ''Photos'', lit ''a.jpg''])"
proof -
  have u: "uploadDestForFile (lit ''in'') demo_file = (lit ''in/Photos'', lit ''a.jpg'')"
    and p: "path_parts (drop_slashes (if f_rel demo_file \<noteq> [] then f_rel demo_file else f_name demo_file)) = [lit ''Photos'', lit ''a.jpg'']"
    by code_simp+
  show ?thesis using upload_dest_spells_path [OF p, of "lit ''in''"] u by (simp add: Let_def)
qed

section \<open>Unreadable files in the older collector\<close>

lemma promise_all_settled: "Rejected \<notin> set ps \<Longrightarrow> Pending \<notin> set ps \<Longrightarrow> \<exists>xs. promise_all ps = Resolved xs"
  by (simp add: promise_all_def)

lemma promise_all_Resolved: "promise_all ps = Resolved xs \<Longrightarrow> Rejected \<notin> set ps \<and> Pending \<notin> set ps"
  by (simp add: promise_all_def split: if_splits)

text \<open>
  A dropped folder whose listing can be read, but which directly holds a file that cannot
  be read, leaves the older collector waiting for ever: it neither gives the other files nor fails.
\<close>

theorem read_folder_never_settles:
  assumes "FsFile m None \<in> set b" "DropEntry (FsDir n (b # bs) False) \<in> set items"
    and "\<And>e p. DropEntry e \<in> set items \<Longrightarrow> readEntry e p \<noteq> Rejected"
  shows "filesFromDataTransfer (Some \<lparr>dt_items = items, dt_files = fs\<rparr>) = Pending"
proof -
  have b: "b \<noteq> []" using assms(1) by auto
  have "Rejected \<in> set (readEntries b p)" for p using assms(1) by (induction b) auto
  then have "flat_promise (promise_all (readEntries b p)) = Rejected" for p by (simp add: promise_all_def flat_promise_def)
  then have "readEntry (FsDir n (b # bs) False) [] = Pending"
    using b by (simp add: promise_all_def)
  then have "Pending \<in> set (drop_jobs items)" using assms(2) by (induction items rule: drop_jobs.induct) auto
  moreover have "Rejected \<notin> set (drop_jobs items)" using assms(3) by (induction items rule: drop_jobs.induct) (auto dest!: sym [of Rejected])
  ultimately show ?thesis by (simp add: filesFromDataTransfer_def promise_all_def flat_promise_def)
qed

theorem read_folder_never_settles_witness:
  "filesFromDataTransfer (Some \<lparr>dt_items = [DropEntry (FsDir (lit ''d'') [[FsFile (lit ''f'') None]] False)], dt_files = []\<rparr>) = Pending"
  by (rule read_folder_never_settles [where m = "lit ''f''" and b = "[FsFile (lit ''f'') None]" and n = "lit ''d''" and bs = "[]"])
    (auto simp: promise_all_def flat_promise_def)

section \<open>An aborted walk falls silent\<close>

text \<open>
  Every report uses up at least one look at the signal that found it unset: the looks left and the
  reports made never add up to more than before.
\<close>

definition paced :: "(walk_state \<Rightarrow> walk_state) \<Rightarrow> nat \<Rightarrow> bool" where
  "paced f k \<longleftrightarrow> (\<forall>s n. wk_polls s = Some n \<longrightarrow>
     (\<exists>m. wk_polls (f s) = Some m \<and> length (wk_log (f s)) + m \<le> length (wk_log s) + n + k))"

lemma paced_report: "paced (report r) 1"
  by (simp add: paced_def report_def)

lemma paced_id: "paced (\<lambda>s. s) k"
  by (auto simp: paced_def)

lemma paced_guarded: "paced f (Suc k) \<Longrightarrow> paced (guarded f) k"
  unfolding paced_def
proof (intro allI impI)
  fix s :: walk_state and n
  assume f: "\<forall>s n. wk_polls s = Some n \<longrightarrow> (\<exists>m. wk_polls (f s) = Some m \<and> length (wk_log (f s)) + m \<le> length (wk_log s) + n + Suc k)"
    and p: "wk_polls s = Some n"
  show "\<exists>m. wk_polls (guarded f s) = Some m \<and> length (wk_log (guarded f s)) + m \<le> length (wk_log s) + n + k"
  proof (cases n)
    case (Suc j)
    then show ?thesis using f [rule_format, of "s\<lparr>wk_polls := Some j\<rparr>" j] p by (simp add: guarded_def poll_def)
  qed (use p in \<open>simp add: guarded_def poll_def\<close>)
qed

lemma paced_weaken: "paced f 0 \<Longrightarrow> paced f k"
  unfolding paced_def by (metis (no_types, lifting) add.right_neutral trans_le_add1)

lemma paced_again: "paced f 0 \<Longrightarrow> paced (guarded f) 0"
  by (rule paced_guarded [OF paced_weaken])

lemma paced_seq:
  assumes "paced f k" "paced g 0"
  shows "paced (\<lambda>s. g (f s)) k"
  unfolding paced_def
proof (intro allI impI)
  fix s :: walk_state and n
  assume "wk_polls s = Some n"
  then obtain m where m: "wk_polls (f s) = Some m" "length (wk_log (f s)) + m \<le> length (wk_log s) + n + k"
    using assms(1) unfolding paced_def by blast
  then obtain j where "wk_polls (g (f s)) = Some j" "length (wk_log (g (f s))) + j \<le> length (wk_log (f s)) + m + 0"
    using assms(2) unfolding paced_def by blast
  then show "\<exists>j. wk_polls (g (f s)) = Some j \<and> length (wk_log (g (f s))) + j \<le> length (wk_log s) + n + k" using m(2) by auto
qed

lemma paced_reported: "paced (guarded (report r)) 0" "paced (guarded (guarded (report r))) 0" "paced (guarded (\<lambda>s. s)) 0"
  "paced (guarded (guarded (if c then report r else (\<lambda>s. s)))) 0"
proof -
  show r: "paced (guarded (report r)) 0" using paced_report by (intro paced_guarded) simp
  show g: "paced (guarded (guarded (report r))) 0" by (rule paced_again [OF r])
  show i: "paced (guarded (\<lambda>s. s)) 0" by (rule paced_again [OF paced_id])
  show "paced (guarded (guarded (if c then report r else (\<lambda>s. s)))) 0" using g paced_again [OF i] by (cases c) simp_all
qed

lemma walk_paced:
  "paced (walk e p) 0"
  "(c = 0 \<longleftrightarrow> fresh) \<Longrightarrow> paced (\<lambda>s. batch_finish rel (walk_batches bs bad rel c s)) 0"
  "paced (walk_children es rel) 0"
proof (induction e p and bs bad rel fresh and es rel arbitrary: and c rule: events_batch_events_child_events.induct)
  case (6 b bs bad rel fresh)
  show ?case
  proof (cases b)
    case Nil
    then show ?thesis using paced_reported(4) by (simp add: batches_guarded [abs_def])
  next
    case (Cons e es)
    have b: "b \<noteq> []" and c: "c + Suc (length es) = 0 \<longleftrightarrow> False" using Cons by simp_all
    note paced_seq [OF 6(1) [OF b] 6(2) [OF b c]]
    then show ?thesis using Cons paced_again [OF paced_again] by (simp add: batches_guarded [abs_def])
  qed
next
  case (5 bad rel fresh)
  then show ?case using paced_reported by (cases bad) (simp_all add: batches_guarded [abs_def])
next
  case (8 e es rel)
  have "walk_children (e # es) rel = (\<lambda>s. walk_children es rel (walk e rel s))"
    by (simp add: fun_eq_iff walk_children.simps [of "e # es"])
  then show ?case using paced_seq [OF 8] by simp
next
  case (7 rel)
  have "walk_children [] rel = (\<lambda>s. s)" by (simp add: fun_eq_iff walk_children.simps)
  then show ?case by (simp add: paced_id)
next
  case (4 n bs bad prefix)
  then show ?case using paced_again by (simp add: walk_guarded)
qed (simp_all add: walk_guarded paced_reported)

lemma walkDropped_paced: "paced (\<lambda>s. walkDropped (es, fs) s) 0"
proof (induction fs)
  case Nil
  have "(\<lambda>s. walkDropped (es, []) s) = walk_children es []" by (simp add: fun_eq_iff walkDropped_def)
  then show ?case using walk_paced(3) by simp
next
  case (Cons f fs)
  let ?r = "OnFile f (if f_rel f \<noteq> [] then f_rel f else f_name f)"
  have "(\<lambda>s. walkDropped (es, f # fs) s) = guarded (\<lambda>s. walkDropped (es, fs) (report ?r s))"
    by (auto simp: fun_eq_iff walkDropped_def guarded_def Let_def split: prod.split bool.split)
  moreover have "paced (\<lambda>s. walkDropped (es, fs) (report ?r s)) 1" by (rule paced_seq [OF paced_report Cons])
  ultimately show ?case by (simp add: paced_guarded)
qed

text \<open>
  Property C20: an abort silences the walk. When the signal fires after it was seen unset \<open>n\<close> times, at most
  \<open>n\<close> reports are made (none at all when it fires before the walk begins), and they are the first ones of
  the walk that is not aborted, in the same order.
\<close>

theorem walk_abort_silences:
  "(\<exists>rest. wk_log (walkDropped dropped \<lparr>wk_polls = None, wk_log = []\<rparr>)
      = wk_log (walkDropped dropped \<lparr>wk_polls = Some n, wk_log = []\<rparr>) @ rest)
   \<and> length (wk_log (walkDropped dropped \<lparr>wk_polls = Some n, wk_log = []\<rparr>)) \<le> n"
proof -
  obtain es fs where d: "dropped = (es, fs)" by (cases dropped)
  have "length (wk_log (walkDropped (es, fs) \<lparr>wk_polls = Some n, wk_log = []\<rparr>)) \<le> n"
    using walkDropped_paced [of es fs, unfolded paced_def, rule_format, of "\<lparr>wk_polls = Some n, wk_log = []\<rparr>" n] by auto
  then show ?thesis using walkDropped_cut [of "\<lparr>wk_polls = Some n, wk_log = []\<rparr>" es fs]
    unfolding d walkDropped_all by (auto simp: cut_def)
qed

end
