(* ===== verification/BackupRows.thy ===== *)
theory BackupRows
  imports JsSort Interfaces
begin

text \<open>
  The backups of the dashboard: \<open>lib/backupRows.js\<close>, and the relative time stamps of
  \<open>lib/recentItems.js\<close> that it words them with.

  A row holds the fields the code reads; a missing or falsy time is 0, a missing text is empty, and a
  flag stands for the truth of its value. \<open>Date.toLocaleDateString\<close> and \<open>String.localeCompare\<close>
  are the arguments \<open>locale_date\<close> and \<open>locale_compare\<close>.
\<close>

section \<open>Rows\<close>

datatype backup_kind = DriveBackup | CloudBackup

record backup_row =
  b_id :: jstring
  b_kind :: backup_kind
  b_private :: bool
  b_source_path :: jstring
  b_target_name :: jstring
  b_destination :: jstring
  b_status :: jstring
  b_state :: jstring
  b_last_ok_at :: nat
  b_created_by :: jstring
  b_last_checked_at :: nat
  b_check_problem :: bool
  b_source_missing :: bool
  b_hard :: bool

text \<open>Hard errors first, then the oldest good copy.\<close>

definition urgency :: "backup_row \<Rightarrow> backup_row \<Rightarrow> int" where
  [js_eval]: "urgency a b =
     (let d = (if b_hard b then 1 else 0) - (if b_hard a then 1 else 0 :: int)
      in if d \<noteq> 0 then d else int (b_last_ok_at a) - int (b_last_ok_at b))"

definition sortByUrgency :: "backup_row list \<Rightarrow> backup_row list" where
  [js_eval]: "sortByUrgency rows = sort_by urgency rows"

definition buildBackupRows :: "backup_row list \<Rightarrow> backup_row list \<Rightarrow> backup_row list" where
  [js_eval]: "buildBackupRows driveList cloudList =
     sortByUrgency (map (\<lambda>b. b\<lparr>b_kind := DriveBackup, b_destination := b_target_name b\<rparr>) driveList
       @ map (\<lambda>b. b\<lparr>b_kind := CloudBackup, b_destination := lit ''Cloud''\<rparr>) cloudList)"

definition needsALook :: "backup_row \<Rightarrow> bool" where
  [js_eval]: "needsALook b \<longleftrightarrow>
     (if b_status b \<noteq> lit ''active'' then False
      else if b_state b = lit ''failing'' \<or> b_state b = lit ''stale'' then True
      else b_kind b = CloudBackup \<and> (b_check_problem b \<or> b_source_missing b))"

section \<open>Time stamps\<close>

definition formatRecentAgo :: "(nat \<Rightarrow> jstring) \<Rightarrow> nat \<Rightarrow> nat \<Rightarrow> jstring" where
  [js_eval]: "formatRecentAgo locale_date t now =
     (let diff = now - t; mins = diff div 60000; hours = mins div 60; days = hours div 24
      in if mins < 1 then lit ''Just now''
         else if mins < 60 then num_str mins @ lit '' min ago''
         else if hours < 24 then num_str hours @ lit '' h ago''
         else if days < 7 then num_str days @ lit '' day'' @ (if days = 1 then [] else lit ''s'') @ lit '' ago''
         else locale_date t)"

definition lastBackedUpLine :: "(nat \<Rightarrow> jstring) \<Rightarrow> nat \<Rightarrow> nat \<Rightarrow> jstring" where
  [js_eval]: "lastBackedUpLine locale_date lastOkAt now =
     (if lastOkAt = 0 then lit ''Not backed up yet.''
      else (let ago = formatRecentAgo locale_date (lastOkAt * 1000) now
            in if ago = lit ''Just now'' then lit ''Last backed up just now.''
               else if ends_with ago (lit ''ago'') then lit ''Last backed up '' @ ago @ lit ''.''
               else lit ''Last backed up on '' @ ago @ lit ''.''))"

definition lastCopyLine :: "(nat \<Rightarrow> jstring) \<Rightarrow> backup_row \<Rightarrow> nat \<Rightarrow> jstring" where
  [js_eval]: "lastCopyLine locale_date b now = lastBackedUpLine locale_date (b_last_ok_at b) now"

section \<open>Words\<close>

datatype pill = PillSuccess | PillWarning | PillError | PillDefault

definition backupStatus :: "(nat \<Rightarrow> jstring) \<Rightarrow> backup_row \<Rightarrow> nat \<Rightarrow> jstring \<times> pill" where
  [js_eval]: "backupStatus locale_date b now =
     (if b_status b = lit ''stopped'' then (lit ''Stopped'', PillDefault)
      else if b_status b = lit ''source_gone'' then (lit ''Original is gone'', PillDefault)
      else if b_kind b = CloudBackup \<and> b_status b = lit ''active'' \<and> b_source_missing b then (lit ''Original is missing'', PillWarning)
      else if b_state b = lit ''failing'' then (lit ''Last copy failed'', PillError)
      else if b_state b = lit ''stale'' then (lastBackedUpLine locale_date (b_last_ok_at b) now, PillWarning)
      else if b_kind b = CloudBackup \<and> b_check_problem b then (lit ''Check failed'', PillWarning)
      else if b_last_ok_at b = 0 then (lit ''No copy yet'', PillDefault)
      else (lit ''Backup successful'', PillSuccess))"

definition backupKindLabel :: "backup_row \<Rightarrow> jstring" where
  [js_eval]: "backupKindLabel b =
     (if b_kind b = CloudBackup then lit ''Cloud backup''
      else if b_source_path b \<noteq> [] then lit ''Folder backup'' else lit ''Drive backup'')"

definition backupHeadline :: "backup_row list \<Rightarrow> jstring" where
  [js_eval]: "backupHeadline rows =
     (if rows = [] then lit ''No backups yet''
      else (let count = length (filter needsALook rows)
            in if count = 0 then lit ''All backed up''
               else if count = 1 then lit ''1 backup needs a look''
               else num_str count @ lit '' backups need a look''))"

definition lastTestedLine :: "(nat \<Rightarrow> jstring) \<Rightarrow> backup_row list \<Rightarrow> nat \<Rightarrow> jstring option" where
  [js_eval]: "lastTestedLine locale_date rows now =
     (let checks = map b_last_checked_at (filter (\<lambda>r. b_kind r = CloudBackup \<and> b_last_checked_at r \<noteq> 0) rows)
      in if checks = [] then None
         else (let ago = formatRecentAgo locale_date (Max (set checks) * 1000) now;
                   when = (if ago = lit ''Just now'' then lit ''just now'' else ago)
               in Some (lit ''Copies last tested '' @ when)))"

section \<open>Creators\<close>

record user =
  u_id :: jstring
  u_display_name :: jstring
  u_username :: jstring

definition someone :: jstring where [js_eval]: "someone = lit ''Someone''"

definition creatorName :: "jstring \<Rightarrow> user list \<Rightarrow> jstring" where
  [js_eval]: "creatorName userId users =
     (case List.find (\<lambda>x. u_id x = userId) users of
        None \<Rightarrow> someone
      | Some u \<Rightarrow> if u_display_name u \<noteq> [] then u_display_name u else u_username u)"

text \<open>The map from names to rows, in the order of insertion.\<close>

fun add_group :: "jstring \<Rightarrow> 'r \<Rightarrow> (jstring \<times> 'r list) list \<Rightarrow> (jstring \<times> 'r list) list" where
  "add_group name b [] = [(name, [b])]"
| "add_group name b ((n, bs) # gs) = (if n = name then (n, bs @ [b]) # gs else (n, bs) # add_group name b gs)"

declare add_group.simps [js_eval]

definition group_order :: "(jstring \<Rightarrow> jstring \<Rightarrow> int) \<Rightarrow> jstring \<times> 'r \<Rightarrow> jstring \<times> 'r \<Rightarrow> int" where
  [js_eval]: "group_order locale_compare a b =
     (let d = (if fst a = someone then 1 else 0) - (if fst b = someone then 1 else 0 :: int)
      in if d \<noteq> 0 then d else locale_compare (fst a) (fst b))"

definition groupByCreator :: "(jstring \<Rightarrow> jstring \<Rightarrow> int) \<Rightarrow> backup_row list \<Rightarrow> user list \<Rightarrow> (jstring \<times> backup_row list) list" where
  [js_eval]: "groupByCreator locale_compare rows users =
     map (\<lambda>(name, items). (name, sortByUrgency items))
       (sort_by (group_order locale_compare)
         (foldl (\<lambda>gs b. add_group (creatorName (b_created_by b) users) b gs) [] rows))"

record private_owner =
  po_id :: jstring
  po_deleted :: bool
  po_name :: jstring
  po_backups :: "nat option"
  po_needs_look :: bool

record private_group =
  pg_ownerId :: jstring
  pg_name :: jstring
  pg_deleted :: bool
  pg_backups :: nat
  pg_needsLook :: nat

definition privateGroups :: "private_owner list option \<Rightarrow> user list \<Rightarrow> private_group list" where
  [js_eval]: "privateGroups owners users =
     map (\<lambda>ow. \<lparr>pg_ownerId = po_id ow,
          pg_name = (if po_deleted ow then lit ''Deleted user'' else if po_name ow \<noteq> [] then po_name ow else creatorName (po_id ow) users),
          pg_deleted = po_deleted ow,
          pg_backups = (case po_backups ow of None \<Rightarrow> 0 | Some n \<Rightarrow> n),
          pg_needsLook = (if po_needs_look ow then 1 else 0)\<rparr>)
       (case owners of None \<Rightarrow> [] | Some os \<Rightarrow> os)"

section \<open>Urgency\<close>

lemma urgency_le: "urgency a b \<le> 0 \<longleftrightarrow> (b_hard a \<and> \<not> b_hard b) \<or> (b_hard a = b_hard b \<and> b_last_ok_at a \<le> b_last_ok_at b)"
  by (simp add: urgency_def Let_def)

lemma consistent_urgency: "consistent urgency"
  unfolding consistent_def urgency_le by auto

text \<open>
  The dashboard lists every backup it was given, hard errors before the others and, within
  each, the oldest good copy first; rows that tie keep the order of the answers.
\<close>

theorem backups_most_urgent_first:
  "let rows = buildBackupRows driveList cloudList in
     length rows = length driveList + length cloudList
     \<and> sorted_wrt (\<lambda>a b. (b_hard a \<and> \<not> b_hard b) \<or> (b_hard a = b_hard b \<and> b_last_ok_at a \<le> b_last_ok_at b)) rows
     \<and> filter (\<lambda>b. b_hard b = h \<and> b_last_ok_at b = t) rows
       = map (\<lambda>b. b\<lparr>b_kind := DriveBackup, b_destination := b_target_name b\<rparr>) (filter (\<lambda>b. b_hard b = h \<and> b_last_ok_at b = t) driveList)
         @ map (\<lambda>b. b\<lparr>b_kind := CloudBackup, b_destination := lit ''Cloud''\<rparr>) (filter (\<lambda>b. b_hard b = h \<and> b_last_ok_at b = t) cloudList)"
proof -
  let ?P = "\<lambda>b :: backup_row. b_hard b = h \<and> b_last_ok_at b = t"
  have "filter ?P (sort_by urgency xs) = filter ?P xs" for xs
    by (rule sort_by_stable) (simp add: urgency_le)
  then show ?thesis using sort_by_sorted [OF consistent_urgency]
    by (simp add: buildBackupRows_def sortByUrgency_def Let_def urgency_le filter_map o_def)
qed

section \<open>The pill and the headline agree\<close>

lemma status_words: "lit ''active'' \<noteq> lit ''stopped''" "lit ''active'' \<noteq> lit ''source_gone''"
  "lit ''stale'' \<noteq> lit ''failing''"
  by code_simp+

text \<open>
  A backup that counts as needing a look never wears the pill of success or the neutral
  one: the headline and the pills cannot disagree about it.
\<close>

theorem needs_look_pill:
  assumes "needsALook b"
  shows "snd (backupStatus locale_date b now) \<in> {PillWarning, PillError}"
  using assms status_words by (auto simp: needsALook_def backupStatus_def split: if_splits)

definition demo_backup :: backup_row where
  "demo_backup = \<lparr>b_id = lit ''b'', b_kind = CloudBackup, b_private = False, b_source_path = [], b_target_name = [],
     b_destination = lit ''Cloud'', b_status = lit ''active'', b_state = lit ''ok'', b_last_ok_at = 5,
     b_created_by = lit ''u'', b_last_checked_at = 0, b_check_problem = True, b_source_missing = False, b_hard = False\<rparr>"

theorem needs_look_pill_witness: "snd (backupStatus (\<lambda>_. []) demo_backup 0) \<in> {PillWarning, PillError}"
proof -
  have "needsALook demo_backup" by code_simp
  then show ?thesis by (rule needs_look_pill)
qed

section \<open>Groups\<close>

lemma add_group_rows: "mset (concat (map snd (add_group n b gs))) = add_mset b (mset (concat (map snd gs)))"
  by (induction n b gs rule: add_group.induct) auto

lemma add_group_names: "map fst (add_group n b gs) = (if n \<in> set (map fst gs) then map fst gs else map fst gs @ [n])"
  by (induction n b gs rule: add_group.induct) auto

lemma add_group_keyed:
  "list_all (\<lambda>(m, bs). \<forall>x\<in>set bs. key x = m) gs \<Longrightarrow> key b = n \<Longrightarrow> list_all (\<lambda>(m, bs). \<forall>x\<in>set bs. key x = m) (add_group n b gs)"
  by (induction n b gs rule: add_group.induct) auto

lemma groups_fold:
  fixes key :: "'r \<Rightarrow> jstring"
  defines "step \<equiv> \<lambda>gs b. add_group (key b) b gs"
  shows "mset (concat (map snd (foldl step gs rows))) = mset (concat (map snd gs)) + mset rows"
    "distinct (map fst gs) \<Longrightarrow> distinct (map fst (foldl step gs rows))"
    "list_all (\<lambda>(m, bs). \<forall>x\<in>set bs. key x = m) gs \<Longrightarrow> list_all (\<lambda>(m, bs). \<forall>x\<in>set bs. key x = m) (foldl step gs rows)"
  by (induction rows arbitrary: gs) (simp_all add: step_def add_group_rows add_group_names add_group_keyed)

text \<open>
  Grouping by creator is a partition: every backup is in exactly one group, the group of
  its creator's name; each name has one group.
\<close>

theorem groups_partition:
  "let gs = groupByCreator locale_compare rows users in
     mset (concat (map snd gs)) = mset rows \<and> distinct (map fst gs)
     \<and> list_all (\<lambda>(name, items). list_all (\<lambda>b. creatorName (b_created_by b) users = name) items) gs"
proof -
  let ?key = "\<lambda>b. creatorName (b_created_by b) users"
  let ?f = "foldl (\<lambda>gs b. add_group (?key b) b gs) [] rows"
  let ?s = "sort_by (group_order locale_compare) ?f"
  have f: "mset (concat (map snd ?f)) = mset rows" "distinct (map fst ?f)" "list_all (\<lambda>(m, bs). \<forall>x\<in>set bs. ?key x = m) ?f"
    using groups_fold [where key = ?key and gs = "[]" and rows = rows] by simp_all
  have s: "mset ?s = mset ?f" by simp
  have c: "mset (concat (map g xs)) = sum_mset (image_mset (\<lambda>x. mset (g x)) (mset xs))" for g :: "jstring \<times> backup_row list \<Rightarrow> backup_row list" and xs
    by (induction xs) auto
  have "mset (concat (map snd (groupByCreator locale_compare rows users))) = mset (concat (map (\<lambda>x. sortByUrgency (snd x)) ?s))"
    by (simp add: groupByCreator_def case_prod_beta o_def)
  also have "\<dots> = mset (concat (map snd ?f))" unfolding c s by (simp add: sortByUrgency_def)
  finally have "mset (concat (map snd (groupByCreator locale_compare rows users))) = mset rows" using f(1) by simp
  moreover have "map fst (groupByCreator locale_compare rows users) = map fst ?s"
    by (simp add: groupByCreator_def case_prod_beta o_def)
  moreover have "distinct (map fst ?s)"
  proof -
    have "mset (map fst ?s) = mset (map fst ?f)" by (simp only: mset_map s)
    then show ?thesis using f(2) mset_eq_imp_distinct_iff by blast
  qed
  moreover have "list_all (\<lambda>(name, items). list_all (\<lambda>b. ?key b = name) items) (groupByCreator locale_compare rows users)"
    using f(3) by (auto simp: groupByCreator_def list_all_iff sortByUrgency_def)
  ultimately show ?thesis by (simp add: Let_def)
qed

end
