(* ===== verification/JsText.thy ===== *)
theory JsText
  imports JsValues
begin

text \<open>
  Numbers and values out of \<open>JSON.parse\<close> as text: what \<open>String(v)\<close> and a template literal print.
\<close>

section \<open>Numbers as text\<close>

text \<open>
  \<open>String(n)\<close>: the fewest digits that read back as the same double, with the point or the exponent where
  the standard puts it. For a natural number below \<open>2 ^ 53\<close> that is its decimal notation. \<open>10 ^ e\<close> is the
  least power of ten above the number.
\<close>

fun least_digits :: "rat \<Rightarrow> int \<Rightarrow> nat \<Rightarrow> nat \<Rightarrow> nat \<times> nat" where
  "least_digits v e k 0 = (nat (js_round (v / power_int 10 (e - int k))), k)"
| "least_digits v e k (Suc left) =
     (let n = nat (js_round (v / power_int 10 (e - int k)))
      in if js_fl (of_nat n * power_int 10 (e - int k)) = v then (n, k) else least_digits v e (Suc k) left)"

fun small_power :: "rat \<Rightarrow> nat \<Rightarrow> nat \<Rightarrow> nat" where
  "small_power v z 0 = z"
| "small_power v z (Suc left) = (if 1 \<le> v * 10 ^ Suc z then z else small_power v (Suc z) left)"

definition point_text :: "jstring \<Rightarrow> nat \<Rightarrow> int \<Rightarrow> jstring" where
  "point_text ds k e =
     (if int k \<le> e \<and> e \<le> 21 then ds @ replicate (nat e - k) 48
      else if 0 < e \<and> e \<le> 21 then take (nat e) ds @ [dot] @ drop (nat e) ds
      else if - 6 < e \<and> e \<le> 0 then lit ''0.'' @ replicate (nat (- e)) 48 @ ds
      else (if k = 1 then ds else take 1 ds @ [dot] @ drop 1 ds) @ lit ''e'' @ (if 0 < e then lit ''+'' else [dash]) @ num_str (nat \<bar>e - 1\<bar>))"

definition positive_text :: "rat \<Rightarrow> jstring" where
  "positive_text q =
     (if of_int \<lfloor>q\<rfloor> = q \<and> q < 2 ^ 53 then num_str (nat \<lfloor>q\<rfloor>)
      else let e = (if 1 \<le> q then int (length (num_str (nat \<lfloor>q\<rfloor>))) else - int (small_power q 0 324));
               (n, k) = least_digits q e 1 16
           in point_text (num_str n) k e)"

definition num_text :: "jnum \<Rightarrow> jstring" where
  "num_text v =
     (case v of
        Fin q \<Rightarrow> if q < 0 then [dash] @ positive_text (- q) else positive_text q
      | PosInf \<Rightarrow> lit ''Infinity''
      | NegInf \<Rightarrow> lit ''-Infinity''
      | NaN \<Rightarrow> lit ''NaN'')"

section \<open>Values as text\<close>

text \<open>An array prints its elements with commas between them, a missing or \<open>null\<close> one as nothing.\<close>

fun js_text :: "json \<Rightarrow> jstring" where
  "js_text JNull = lit ''null''"
| "js_text (JBool b) = (if b then lit ''true'' else lit ''false'')"
| "js_text (JNum n) = num_text n"
| "js_text (JStr s) = s"
| "js_text (JArr vs) = join [comma] (map (\<lambda>v. if v = JNull then [] else js_text v) vs)"
| "js_text (JObj ps) = lit ''[object Object]''"

definition opt_text :: "json option \<Rightarrow> jstring" where
  "opt_text v = (case v of None \<Rightarrow> lit ''undefined'' | Some w \<Rightarrow> js_text w)"

end
