(* ===== verification/RecentItems.thy ===== *)
theory RecentItems
  imports JsText Access
begin

text \<open>
  The list of recent files, folders and drives, \<open>lib/recentItems.js\<close>: reading it from the browser's
  storage, pushing and removing items, and how an item is shown. An item is the JSON object that the
  storage holds, extra fields included. \<open>JSON.parse\<close> and \<open>JSON.stringify\<close> are the arguments
  \<open>json_parse\<close> and \<open>json_text\<close>; the storage is that of \<open>Access\<close>, which may be blocked or full.
\<close>

section \<open>The list\<close>

definition RECENT_ITEMS_LIMIT :: nat where [js_eval]: "RECENT_ITEMS_LIMIT = 10"
definition STORAGE_PREFIX :: jstring where [js_eval]: "STORAGE_PREFIX = lit ''luna.recentItems.''"

definition storageKey :: "jstring \<Rightarrow> jstring" where
  [js_eval]: "storageKey username = STORAGE_PREFIX @ (if username \<noteq> [] then username else lit ''guest'')"

definition str_prop :: "json \<Rightarrow> jstring \<Rightarrow> jstring" where
  [js_eval]: "str_prop v key = (case get_prop v key of Some (JStr s) \<Rightarrow> s | _ \<Rightarrow> [])"

definition itemKey :: "json \<Rightarrow> jstring" where
  [js_eval]: "itemKey item =
     opt_text (get_prop item (lit ''kind'')) @ [pipe] @ opt_text (get_prop item (lit ''driveId'')) @ [pipe] @ opt_text (get_prop item (lit ''path''))"

definition recent_kinds :: "jstring list" where
  [js_eval]: "recent_kinds = [lit ''file'', lit ''folder'', lit ''drive'']"

definition isValidItem :: "json \<Rightarrow> bool" where
  [js_eval]: "isValidItem item \<longleftrightarrow>
     (case get_prop item (lit ''kind'') of Some (JStr k) \<Rightarrow> k \<in> set recent_kinds | _ \<Rightarrow> False)
     \<and> (case get_prop item (lit ''driveId'') of Some (JStr d) \<Rightarrow> d \<noteq> [] | _ \<Rightarrow> False)
     \<and> is_string (get_prop item (lit ''path''))
     \<and> (case get_prop item (lit ''at'') of Some (JNum n) \<Rightarrow> is_finite n | _ \<Rightarrow> False)"

definition stored_list :: "(jstring \<Rightarrow> json option) \<Rightarrow> jstring option \<Rightarrow> json list" where
  [js_eval]: "stored_list json_parse raw =
     (case raw of
        None \<Rightarrow> []
      | Some text \<Rightarrow>
          if text = [] then []
          else (case json_parse text of
                  Some (JArr items) \<Rightarrow> take RECENT_ITEMS_LIMIT (filter isValidItem items)
                | _ \<Rightarrow> []))"

definition readRecentItems :: "(jstring \<Rightarrow> json option) \<Rightarrow> session_store option \<Rightarrow> jstring \<Rightarrow> json list" where
  [js_eval]: "readRecentItems json_parse store username =
     (case store of None \<Rightarrow> [] | Some st \<Rightarrow> stored_list json_parse (se_items st (storageKey username)))"

definition save_items :: "(json \<Rightarrow> jstring) \<Rightarrow> session_store option \<Rightarrow> jstring \<Rightarrow> json list \<Rightarrow> session_store option" where
  [js_eval]: "save_items json_text store username items =
     (case store of
        None \<Rightarrow> None
      | Some st \<Rightarrow> if se_full st then Some st
                   else Some (st\<lparr>se_items := (se_items st)(storageKey username \<mapsto> json_text (JArr items))\<rparr>))"

definition recordRecentItem :: "(jstring \<Rightarrow> json option) \<Rightarrow> (json \<Rightarrow> jstring) \<Rightarrow> session_store option \<Rightarrow> jstring \<Rightarrow> jobject \<Rightarrow> nat
    \<Rightarrow> json list \<times> session_store option" where
  [js_eval]: "recordRecentItem json_parse json_text store username item now =
     (let entry = JObj (obj_set (lit ''at'') (JNum (Fin (of_nat now))) item);
          key = itemKey entry;
          next = take RECENT_ITEMS_LIMIT
            (entry # filter (\<lambda>existing. itemKey existing \<noteq> key) (readRecentItems json_parse store username))
      in (next, save_items json_text store username next))"

definition removeRecentItem :: "(jstring \<Rightarrow> json option) \<Rightarrow> (json \<Rightarrow> jstring) \<Rightarrow> session_store option \<Rightarrow> jstring \<Rightarrow> jstring \<Rightarrow> jstring
    \<Rightarrow> json list \<times> session_store option" where
  [js_eval]: "removeRecentItem json_parse json_text store username driveId path =
     (let next = filter (\<lambda>existing. \<not> (str_prop existing (lit ''driveId'') = driveId \<and> str_prop existing (lit ''path'') = path))
            (readRecentItems json_parse store username)
      in (next, save_items json_text store username next))"

section \<open>Display\<close>

definition recentItemHref :: "json \<Rightarrow> jstring option" where
  [js_eval]: "recentItemHref item =
     (if str_prop item (lit ''kind'') = lit ''file'' then fileHref (str_prop item (lit ''driveId'')) (str_prop item (lit ''path''))
      else folderHref (str_prop item (lit ''driveId''))
        (if str_prop item (lit ''kind'') = lit ''folder'' then str_prop item (lit ''path'') else []))"

definition drive_label :: "json \<Rightarrow> jstring \<Rightarrow> jstring" where
  [js_eval]: "drive_label item driveLabel =
     (if driveLabel \<noteq> [] then driveLabel
      else if str_prop item (lit ''driveLabel'') \<noteq> [] then str_prop item (lit ''driveLabel'')
      else lit ''Drive'')"

definition recentItemName :: "json \<Rightarrow> jstring \<Rightarrow> jstring" where
  [js_eval]: "recentItemName item driveLabel =
     (let base = pathBasename (str_prop item (lit ''path''))
      in if base \<noteq> [] then base else drive_label item driveLabel)"

definition recentItemLocationLine :: "json \<Rightarrow> jstring \<Rightarrow> jstring option" where
  [js_eval]: "recentItemLocationLine item driveLabel =
     (if str_prop item (lit ''kind'') = lit ''drive'' then None
      else (let label = drive_label item driveLabel
            in case parentPath (str_prop item (lit ''path'')) of
                 Some parent \<Rightarrow> if parent \<noteq> [] then Some (label @ [space, 0xB7, space] @ parent) else Some label
               | None \<Rightarrow> Some label))"

definition entry_of :: "jobject \<Rightarrow> nat \<Rightarrow> json" where
  "entry_of item now = JObj (obj_set (lit ''at'') (JNum (Fin (of_nat now))) item)"

lemma record_next:
  "fst (recordRecentItem json_parse json_text store username item now) =
   take RECENT_ITEMS_LIMIT (entry_of item now
     # filter (\<lambda>x. itemKey x \<noteq> itemKey (entry_of item now)) (readRecentItems json_parse store username))"
  by (simp add: recordRecentItem_def entry_of_def Let_def)

lemma limit_pos: "RECENT_ITEMS_LIMIT = Suc 9"
  by (simp add: RECENT_ITEMS_LIMIT_def)

definition demo_recent :: jobject where
  "demo_recent = [(lit ''kind'', JStr (lit ''drive'')), (lit ''driveId'', JStr (lit ''d'')), (lit ''path'', JStr [])]"

section \<open>Reading back\<close>

lemma stored_valid: "x \<in> set (readRecentItems json_parse store username) \<Longrightarrow> isValidItem x"
proof -
  have t: "isValidItem x" if "x \<in> set (take RECENT_ITEMS_LIMIT (filter isValidItem items))" for items
    using in_set_takeD [OF that] by simp
  have "x \<in> set (stored_list json_parse raw) \<Longrightarrow> isValidItem x" for raw
  proof (cases raw)
    case (Some s)
    assume x: "x \<in> set (stored_list json_parse raw)"
    show ?thesis
    proof (cases "json_parse s")
      case p: (Some v)
      show ?thesis using x t Some p by (cases v) (auto simp: stored_list_def split: if_split_asm)
    qed (use x Some in \<open>auto simp: stored_list_def split: if_split_asm\<close>)
  qed (simp add: stored_list_def)
  then show "x \<in> set (readRecentItems json_parse store username) \<Longrightarrow> isValidItem x"
    unfolding readRecentItems_def by (cases store) auto
qed

text \<open>
  What is recorded is what the dashboard reads back, given that the storage takes the write
  and that JSON reads back what it wrote.
\<close>

theorem recorded_reads_back:
  assumes "recordRecentItem json_parse json_text (Some st) username item now = (next, store')" "\<not> se_full st"
    and "isValidItem (entry_of item now)" "json_text (JArr next) \<noteq> []" "json_parse (json_text (JArr next)) = Some (JArr next)"
  shows "readRecentItems json_parse store' username = next"
proof -
  have n: "next = take RECENT_ITEMS_LIMIT (entry_of item now
     # filter (\<lambda>x. itemKey x \<noteq> itemKey (entry_of item now)) (readRecentItems json_parse (Some st) username))"
    using record_next [of json_parse json_text "Some st" username item now] assms(1) by simp
  have "isValidItem x" if "x \<in> set next" for x
    using that assms(3) stored_valid unfolding n by (auto dest!: in_set_takeD)
  then have "filter isValidItem next = next" by (simp add: filter_id_conv)
  moreover have "take RECENT_ITEMS_LIMIT next = next" unfolding n by simp
  moreover have "store' = Some (st\<lparr>se_items := (se_items st)(storageKey username \<mapsto> json_text (JArr next))\<rparr>)"
    using assms(1,2) by (auto simp: recordRecentItem_def save_items_def Let_def)
  ultimately show ?thesis using assms(4,5) by (simp add: readRecentItems_def stored_list_def)
qed

theorem recorded_reads_back_witness:
  "readRecentItems (\<lambda>s. if s = lit ''x'' then Some (JArr [entry_of demo_recent 7]) else None)
     (Some \<lparr>se_items = [storageKey [] \<mapsto> lit ''x''], se_full = False\<rparr>) [] = [entry_of demo_recent 7]"
proof -
  let ?p = "\<lambda>s. if s = lit ''x'' then Some (JArr [entry_of demo_recent 7]) else None" and ?t = "\<lambda>v. lit ''x''"
  let ?st = "\<lparr>se_items = Map.empty, se_full = False\<rparr>"
  have v: "isValidItem (entry_of demo_recent 7)" "lit ''x'' \<noteq> []" by code_simp+
  have "recordRecentItem ?p ?t (Some ?st) [] demo_recent 7 =
      ([entry_of demo_recent 7], Some \<lparr>se_items = [storageKey [] \<mapsto> lit ''x''], se_full = False\<rparr>)"
    by (simp add: recordRecentItem_def entry_of_def readRecentItems_def stored_list_def save_items_def Let_def limit_pos)
  then show ?thesis by (rule recorded_reads_back) (use v in simp_all)
qed

section \<open>The list of a history of visits\<close>

text \<open>
  The visits are recorded one after the other. What the list should hold is said of the history alone:
  \<^const>\<open>remdups\<close> keeps the last visit of each place, the reversal puts the newest first.
\<close>

definition record_all :: "(jstring \<Rightarrow> json option) \<Rightarrow> (json \<Rightarrow> jstring) \<Rightarrow> jstring \<Rightarrow> (jobject \<times> nat) list
    \<Rightarrow> session_store option \<Rightarrow> session_store option" where
  "record_all json_parse json_text username visits store =
     foldl (\<lambda>store (item, now). snd (recordRecentItem json_parse json_text store username item now)) store visits"

definition entries_of :: "(jobject \<times> nat) list \<Rightarrow> json list" where
  "entries_of visits = map (\<lambda>(item, now). entry_of item now) visits"

lemma take_filter_distinct:
  "distinct xs \<Longrightarrow> take n (filter (\<lambda>x. x \<noteq> k) (take (Suc n) xs)) = take n (filter (\<lambda>x. x \<noteq> k) xs)"
proof (induction xs arbitrary: n)
  case (Cons x xs)
  show ?case
  proof (cases "x = k")
    case True
    then have "filter (\<lambda>x. x \<noteq> k) xs = xs" "filter (\<lambda>x. x \<noteq> k) (take n xs) = take n xs"
      using Cons.prems by (auto simp: filter_id_conv dest: in_set_takeD)
    then show ?thesis using True by simp
  next
    case False
    then show ?thesis using Cons by (cases n) simp_all
  qed
qed simp

lemma newest_first_step:
  "take (Suc n) (k # filter (\<lambda>x. x \<noteq> k) (take (Suc n) (rev (remdups ks)))) = take (Suc n) (rev (remdups (ks @ [k])))"
proof -
  have "remdups (ks @ [k]) = filter (\<lambda>x. x \<noteq> k) (remdups ks) @ [k]" by (induction ks) auto
  then show ?thesis using take_filter_distinct [of "rev (remdups ks)" n k] by (simp add: rev_filter)
qed

text \<open>What holds of the storage after a history.\<close>

definition history_kept :: "(jstring \<Rightarrow> json option) \<Rightarrow> jstring \<Rightarrow> json list \<Rightarrow> session_store option \<Rightarrow> bool" where
  "history_kept json_parse username entries store \<longleftrightarrow>
     (\<exists>st. store = Some st \<and> \<not> se_full st) \<and>
     map itemKey (readRecentItems json_parse store username) = take RECENT_ITEMS_LIMIT (rev (remdups (map itemKey entries))) \<and>
     (\<forall>x\<in>set (readRecentItems json_parse store username). List.find (\<lambda>e. itemKey e = itemKey x) (rev entries) = Some x)"

lemma history_step:
  assumes "history_kept json_parse username es store" "isValidItem (entry_of item now)"
    and "\<And>items. set items \<subseteq> insert (entry_of item now) (set es) \<Longrightarrow>
      json_text (JArr items) \<noteq> [] \<and> json_parse (json_text (JArr items)) = Some (JArr items)"
  shows "history_kept json_parse username (es @ [entry_of item now]) (snd (recordRecentItem json_parse json_text store username item now))"
proof -
  let ?e = "entry_of item now" and ?old = "readRecentItems json_parse store username"
  obtain st where st: "store = Some st" "\<not> se_full st" using assms(1) by (auto simp: history_kept_def)
  obtain new store' where r: "recordRecentItem json_parse json_text (Some st) username item now = (new, store')" by (metis surj_pair)
  have n: "new = take RECENT_ITEMS_LIMIT (?e # filter (\<lambda>x. itemKey x \<noteq> itemKey ?e) ?old)"
    using record_next [of json_parse json_text "Some st" username item now] r st by simp
  have old: "x \<in> set es" "List.find (\<lambda>e. itemKey e = itemKey x) (rev es) = Some x" if "x \<in> set ?old" for x
    using assms(1) that by (auto simp: history_kept_def find_Some_iff) (metis length_rev nth_mem set_rev)
  have "set new \<subseteq> insert ?e (set es)" unfolding n using old(1) by (auto dest!: in_set_takeD)
  then have read: "readRecentItems json_parse store' username = new"
    using recorded_reads_back [OF r st(2) assms(2)] assms(3) by blast
  have "\<exists>st'. store' = Some st' \<and> \<not> se_full st'" using r st(2) by (auto simp: recordRecentItem_def save_items_def Let_def)
  moreover have "map itemKey new = take RECENT_ITEMS_LIMIT (rev (remdups (map itemKey (es @ [?e]))))"
  proof -
    have "map itemKey new = take RECENT_ITEMS_LIMIT (itemKey ?e # filter (\<lambda>x. x \<noteq> itemKey ?e) (map itemKey ?old))"
      unfolding n by (simp add: take_map [symmetric] filter_map o_def)
    also have "\<dots> = take (Suc 9) (itemKey ?e # filter (\<lambda>x. x \<noteq> itemKey ?e) (take (Suc 9) (rev (remdups (map itemKey es)))))"
      using assms(1) unfolding history_kept_def limit_pos by presburger
    also have "\<dots> = take (Suc 9) (rev (remdups (map itemKey es @ [itemKey ?e])))" by (rule newest_first_step)
    finally show ?thesis unfolding limit_pos by simp
  qed
  moreover have "List.find (\<lambda>e. itemKey e = itemKey x) (rev (es @ [?e])) = Some x" if "x \<in> set new" for x
  proof -
    have "x = ?e \<or> x \<in> set ?old \<and> itemKey x \<noteq> itemKey ?e" using that unfolding n by (auto dest!: in_set_takeD)
    then show ?thesis using old(2) by auto
  qed
  ultimately show ?thesis using r read by (simp add: history_kept_def st(1))
qed

lemma history_recorded:
  assumes "se_items st (storageKey username) = None" "\<not> se_full st"
    and "list_all isValidItem (entries_of visits)"
    and "\<And>items. set items \<subseteq> set (entries_of visits) \<Longrightarrow>
      json_text (JArr items) \<noteq> [] \<and> json_parse (json_text (JArr items)) = Some (JArr items)"
  shows "history_kept json_parse username (entries_of visits) (record_all json_parse json_text username visits (Some st))"
  using assms(3,4)
proof (induction visits rule: rev_induct)
  case Nil
  then show ?case using assms(1,2) by (simp add: history_kept_def record_all_def entries_of_def readRecentItems_def stored_list_def)
next
  case (snoc v vs)
  obtain item now where v: "v = (item, now)" by (metis surj_pair)
  have e: "entries_of (vs @ [v]) = entries_of vs @ [entry_of item now]" by (simp add: entries_of_def v)
  have "history_kept json_parse username (entries_of vs) (record_all json_parse json_text username vs (Some st))"
    by (rule snoc.IH) (use snoc.prems in \<open>auto simp: e\<close>)
  then have "history_kept json_parse username (entries_of vs @ [entry_of item now])
      (snd (recordRecentItem json_parse json_text (record_all json_parse json_text username vs (Some st)) username item now))"
    by (rule history_step) (use snoc.prems in \<open>simp_all add: e\<close>)
  then show ?case unfolding e by (simp add: record_all_def v)
qed

text \<open>
  Property C22: after any history of visits recorded in a storage that takes every write, the stored list has the
  ten places visited last, each once, the newest first, and each with the details of its last visit.
\<close>

theorem recent_items_of_history:
  assumes "se_items st (storageKey username) = None" "\<not> se_full st"
    and "list_all isValidItem (entries_of visits)"
    and "\<And>items. set items \<subseteq> set (entries_of visits) \<Longrightarrow>
      json_text (JArr items) \<noteq> [] \<and> json_parse (json_text (JArr items)) = Some (JArr items)"
  shows "let shown = readRecentItems json_parse (record_all json_parse json_text username visits (Some st)) username
    in map itemKey shown = take RECENT_ITEMS_LIMIT (rev (remdups (map itemKey (entries_of visits)))) \<and>
       (\<forall>x\<in>set shown. List.find (\<lambda>e. itemKey e = itemKey x) (rev (entries_of visits)) = Some x)"
  using history_recorded [OF assms] by (simp add: history_kept_def Let_def)

text \<open>A drive, then another, then the first again.\<close>

definition demo_other :: jobject where
  "demo_other = [(lit ''kind'', JStr (lit ''drive'')), (lit ''driveId'', JStr (lit ''e'')), (lit ''path'', JStr [])]"

definition demo_visits :: "(jobject \<times> nat) list" where
  "demo_visits = [(demo_recent, 7), (demo_other, 8), (demo_recent, 9)]"

definition demo_write :: "json \<Rightarrow> jstring" where
  "demo_write v = (case v of JArr items \<Rightarrow> 0 # map (\<lambda>e. if e = entry_of demo_recent 7 then 1 else if e = entry_of demo_other 8 then 2 else 3) items | _ \<Rightarrow> [])"

definition demo_read :: "jstring \<Rightarrow> json option" where
  "demo_read s = Some (JArr (map (\<lambda>c. if c = 1 then entry_of demo_recent 7 else if c = 2 then entry_of demo_other 8 else entry_of demo_recent 9) (tl s)))"

theorem recent_items_of_history_witness:
  "map itemKey (readRecentItems demo_read (record_all demo_read demo_write [] demo_visits (Some \<lparr>se_items = Map.empty, se_full = False\<rparr>)) [])
     = [lit ''drive|d|'', lit ''drive|e|'']"
proof -
  have e: "entries_of demo_visits = [entry_of demo_recent 7, entry_of demo_other 8, entry_of demo_recent 9]"
    by (simp add: entries_of_def demo_visits_def)
  have k: "take RECENT_ITEMS_LIMIT (rev (remdups (map itemKey (entries_of demo_visits)))) = [lit ''drive|d|'', lit ''drive|e|'']" by code_simp
  have v: "list_all isValidItem (entries_of demo_visits)" by code_simp
  have d: "entry_of demo_other 8 \<noteq> entry_of demo_recent 7" "entry_of demo_recent 9 \<noteq> entry_of demo_recent 7"
    "entry_of demo_recent 9 \<noteq> entry_of demo_other 8" by code_simp+
  have "demo_write (JArr items) \<noteq> [] \<and> demo_read (demo_write (JArr items)) = Some (JArr items)"
    if "set items \<subseteq> set (entries_of demo_visits)" for items
    using that d unfolding e by (auto simp: demo_write_def demo_read_def intro!: map_idI)
  then show ?thesis
    using recent_items_of_history [OF _ _ v, of "\<lparr>se_items = Map.empty, se_full = False\<rparr>" "[]" demo_write demo_read] k
    by (simp add: Let_def)
qed

end
