(* ===== verification/Bytes.thy ===== *)
theory Bytes
  imports Interfaces
begin

text \<open>
  Byte arrays as the cloud readers use them: slices, the integer fields of a \<open>DataView\<close> in both byte
  orders, and results that may be an error thrown by the code or by a library.
\<close>

type_synonym byte = "8 word"
type_synonym bytes = "byte list"

named_theorems byte_simps \<open>lengths and inverses of the byte encodings\<close>

section \<open>Results\<close>

text \<open>\<open>Thrown m\<close> is \<open>new Error(m)\<close>, \<open>MissingKey\<close> the class of its own, \<open>LibError\<close> an error of a library.\<close>

datatype jerror = Thrown jstring | MissingKey | LibError

type_synonym 'a result = "jerror + 'a"

definition bind_r :: "'a result \<Rightarrow> ('a \<Rightarrow> 'b result) \<Rightarrow> 'b result" where
  [js_eval]: "bind_r m f = (case m of Inl e \<Rightarrow> Inl e | Inr x \<Rightarrow> f x)"

definition of_lib :: "'a option \<Rightarrow> 'a result" where
  [js_eval]: "of_lib v = (case v of None \<Rightarrow> Inl LibError | Some x \<Rightarrow> Inr x)"

text \<open>\<open>try { m } catch { throw e }\<close>, and a check that throws.\<close>

definition rethrow :: "jerror \<Rightarrow> 'a result \<Rightarrow> 'a result" where
  [js_eval]: "rethrow e m = (case m of Inl _ \<Rightarrow> Inl e | Inr x \<Rightarrow> Inr x)"

definition check_r :: "bool \<Rightarrow> jerror \<Rightarrow> unit result" where
  [js_eval]: "check_r ok e = (if ok then Inr () else Inl e)"

definition opt_of :: "'a result \<Rightarrow> 'a option" where
  [js_eval]: "opt_of m = (case m of Inl _ \<Rightarrow> None | Inr x \<Rightarrow> Some x)"

lemma bind_r_simps [simp]: "bind_r (Inl e) f = Inl e" "bind_r (Inr x) f = f x"
  by (simp_all add: bind_r_def)

lemma bind_r_Inr_iff: "bind_r m f = Inr y \<longleftrightarrow> (\<exists>x. m = Inr x \<and> f x = Inr y)"
  by (cases m) simp_all

lemma of_lib_simps [simp]: "of_lib None = Inl LibError" "of_lib (Some x) = Inr x"
  by (simp_all add: of_lib_def)

lemma of_lib_Inr_iff: "of_lib v = Inr x \<longleftrightarrow> v = Some x"
  by (cases v) simp_all

lemma rethrow_simps [simp]: "rethrow e (Inl d) = Inl e" "rethrow e (Inr x) = Inr x"
  by (simp_all add: rethrow_def)

lemma rethrow_Inr_iff: "rethrow e m = Inr x \<longleftrightarrow> m = Inr x"
  by (cases m) simp_all

lemma rethrow_Inl_iff: "rethrow e m = Inl d \<longleftrightarrow> d = e \<and> (\<exists>c. m = Inl c)"
  by (cases m) auto

lemma check_r_simps [simp]: "check_r True e = Inr ()" "check_r False e = Inl e"
  by (simp_all add: check_r_def)

lemma check_r_Inr_iff: "check_r ok e = Inr u \<longleftrightarrow> ok"
  by (cases ok) simp_all

lemma opt_of_simps [simp]: "opt_of (Inl e) = None" "opt_of (Inr x) = Some x"
  by (simp_all add: opt_of_def)

lemma opt_of_Some_iff: "opt_of m = Some x \<longleftrightarrow> m = Inr x"
  by (cases m) simp_all

lemmas result_iffs = bind_r_Inr_iff of_lib_Inr_iff rethrow_Inr_iff check_r_Inr_iff opt_of_Some_iff

text \<open>\<open>xs.map(f)\<close> where \<open>f\<close> may throw: the first error ends it.\<close>

fun map_r :: "('a \<Rightarrow> 'b result) \<Rightarrow> 'a list \<Rightarrow> 'b list result" where
  "map_r f [] = Inr []"
| "map_r f (x # xs) = bind_r (f x) (\<lambda>y. bind_r (map_r f xs) (\<lambda>ys. Inr (y # ys)))"

declare map_r.simps [js_eval]

lemma map_r_Inr_iff: "map_r f xs = Inr ys \<longleftrightarrow> list_all2 (\<lambda>x y. f x = Inr y) xs ys"
  by (induction xs arbitrary: ys) (auto simp: bind_r_Inr_iff list_all2_Cons1)

lemma map_r_all: "map_r f xs = Inr ys \<Longrightarrow> (\<And>x y. f x = Inr y \<Longrightarrow> P y) \<Longrightarrow> list_all P ys"
  by (induction xs arbitrary: ys) (auto simp: bind_r_Inr_iff)

lemma map_r_Inl_iff: "(\<exists>e. map_r f xs = Inl e) \<longleftrightarrow> (\<exists>x\<in>set xs. \<exists>e. f x = Inl e)"
proof (induction xs)
  case (Cons x xs)
  then show ?case by (cases "f x"; cases "map_r f xs") auto
qed simp

section \<open>Slices and comparison\<close>

definition slice :: "'a list \<Rightarrow> nat \<Rightarrow> nat \<Rightarrow> 'a list" where
  [js_eval]: "slice bs a b = take (b - a) (drop a bs)"

lemma length_slice [byte_simps]: "length (slice bs a b) = min b (length bs) - a"
  by (auto simp: slice_def min_def)

lemma slice_at [byte_simps]: "length xs = a \<Longrightarrow> b = a + length ys \<Longrightarrow> slice (xs @ ys @ zs) a b = ys"
  by (simp add: slice_def)

lemma slice_split: "a \<le> b \<Longrightarrow> b \<le> length bs \<Longrightarrow> bs = take a bs @ slice bs a b @ drop b bs"
  by (metis append_take_drop_id drop_drop le_add_diff_inverse2 slice_def)

section \<open>Integer fields\<close>

text \<open>A field of \<open>k\<close> bytes holds a number modulo \<open>256 ^ k\<close>, as the setters of a \<open>DataView\<close> store it.\<close>

fun le_bytes :: "nat \<Rightarrow> nat \<Rightarrow> bytes" where
  "le_bytes 0 n = []"
| "le_bytes (Suc k) n = of_nat n # le_bytes k (n div 256)"

fun le_nat :: "bytes \<Rightarrow> nat" where
  "le_nat [] = 0"
| "le_nat (b # bs) = unat b + 256 * le_nat bs"

definition be_bytes :: "nat \<Rightarrow> nat \<Rightarrow> bytes" where
  [js_eval]: "be_bytes k n = rev (le_bytes k n)"

definition be_nat :: "bytes \<Rightarrow> nat" where
  [js_eval]: "be_nat bs = le_nat (rev bs)"

declare le_bytes.simps [js_eval] le_nat.simps [js_eval]

lemma length_le_bytes [simp, byte_simps]: "length (le_bytes k n) = k"
  by (induction k n rule: le_bytes.induct) simp_all

lemma length_be_bytes [simp, byte_simps]: "length (be_bytes k n) = k"
  by (simp add: be_bytes_def)

lemma be_bytes_Nil_iff [simp]: "be_bytes k n = [] \<longleftrightarrow> k = 0"
  by (metis length_0_conv length_be_bytes)

lemma unat_of_byte: "unat (of_nat n :: byte) = n mod 256"
  by (simp add: unat_of_nat)

lemma unat_byte_less: "unat (b :: byte) < 256"
  using unsigned_less [of b, where 'a = nat] by simp

lemma le_nat_le_bytes [byte_simps]: "le_nat (le_bytes k n) = n mod 256 ^ k"
proof (induction k n rule: le_bytes.induct)
  case (2 k n)
  then show ?case by (simp add: unat_of_byte mod_mult2_eq)
qed simp

lemma be_nat_be_bytes [byte_simps]: "be_nat (be_bytes k n) = n mod 256 ^ k"
  by (simp add: be_nat_def be_bytes_def le_nat_le_bytes)

lemma le_nat_bound: "le_nat bs < 256 ^ length bs"
proof (induction bs)
  case (Cons b bs)
  have "unat b < 256" by (rule unat_byte_less)
  then show ?case using Cons by simp
qed simp

lemma be_nat_bound: "be_nat bs < 256 ^ length bs"
  using le_nat_bound [of "rev bs"] by (simp add: be_nat_def)

lemma le_bytes_le_nat: "le_bytes (length bs) (le_nat bs) = bs"
proof (induction bs)
  case (Cons b bs)
  have "unat b < 256" by (rule unat_byte_less)
  then have "(unat b + 256 * le_nat bs) div 256 = le_nat bs" by simp
  moreover have "unat (of_nat (unat b + 256 * le_nat bs) :: byte) = unat b"
    using \<open>unat b < 256\<close> by (simp only: unat_of_byte) simp
  then have "(of_nat (unat b + 256 * le_nat bs) :: byte) = b" by (rule unsigned_word_eqI)
  ultimately show ?case using Cons by (simp del: of_nat_add)
qed simp

lemma le_bytes_inj: "n mod 256 ^ k = m mod 256 ^ k \<longleftrightarrow> le_bytes k n = le_bytes k m"
proof
  show "n mod 256 ^ k = m mod 256 ^ k" if "le_bytes k n = le_bytes k m"
    using that by (metis le_nat_le_bytes)
  show "le_bytes k n = le_bytes k m" if "n mod 256 ^ k = m mod 256 ^ k"
    using that le_bytes_le_nat [of "le_bytes k n"] le_bytes_le_nat [of "le_bytes k m"]
    by (simp add: le_nat_le_bytes)
qed

lemma be_bytes_inj: "be_bytes k n = be_bytes k m \<longleftrightarrow> n mod 256 ^ k = m mod 256 ^ k"
  by (simp add: be_bytes_def le_bytes_inj)

lemma be_bytes_eq: "n < 256 ^ k \<Longrightarrow> m < 256 ^ k \<Longrightarrow> be_bytes k n = be_bytes k m \<longleftrightarrow> n = m"
  by (simp add: be_bytes_inj)

lemma be4_eq: "n < 2 ^ 32 \<Longrightarrow> m < 2 ^ 32 \<Longrightarrow> be_bytes 4 n = be_bytes 4 m \<longleftrightarrow> n = m"
  by (simp add: be_bytes_eq)

lemma be8_eq: "n < 2 ^ 64 \<Longrightarrow> m < 2 ^ 64 \<Longrightarrow> be_bytes 8 n = be_bytes 8 m \<longleftrightarrow> n = m"
  by (simp add: be_bytes_eq)

text \<open>The fields of four bytes are a codec for 32-bit numbers, in both orders.\<close>

interpretation u32_be: codec "be_bytes 4" "\<lambda>bs. if length bs = 4 then Some (be_nat bs) else None" "\<lambda>n. n < 2 ^ 32"
  by unfold_locales (simp add: byte_simps)

interpretation u32_le: codec "le_bytes 4" "\<lambda>bs. if length bs = 4 then Some (le_nat bs) else None" "\<lambda>n. n < 2 ^ 32"
  by unfold_locales (simp add: byte_simps)

end
