(* ===== verification/BackupCrypto.thy ===== *)
theory BackupCrypto
  imports Bytes
begin

unbundle bit_operations_syntax

text \<open>
  The cloud backup cryptography of the browser (\<open>shared/ui/lib/cloud/backupCrypto.js\<close>): key derivation,
  hybrid sealing, encryption, hybrid signatures, the canonical encoding of signed data and recovery
  phrases. The primitives come from third-party packages (\<open>@noble\<close>, \<open>@scure/bip39\<close>) and are the fields
  of a record that every operation takes; \<^const>\<open>None\<close> is an error they throw. What the proofs rely on
  is stated below as laws of these primitives. Overwriting secrets with zeros after use does not change
  any result, since every returned array is a copy, and is left out.
\<close>

section \<open>The packages\<close>

record noble =
  concatBytes :: "bytes list \<Rightarrow> bytes"
  utf8ToBytes :: "jstring \<Rightarrow> bytes"
  bytesToHex :: "bytes \<Rightarrow> jstring"
  hexToBytes :: "jstring \<Rightarrow> bytes option"
  sha256 :: "bytes \<Rightarrow> bytes"
  hmac :: "bytes \<Rightarrow> bytes \<Rightarrow> bytes"
  hkdf :: "bytes \<Rightarrow> bytes option \<Rightarrow> bytes \<Rightarrow> nat \<Rightarrow> bytes"
  xchacha_encrypt :: "bytes \<Rightarrow> bytes \<Rightarrow> bytes \<Rightarrow> bytes \<Rightarrow> bytes option"
  xchacha_decrypt :: "bytes \<Rightarrow> bytes \<Rightarrow> bytes \<Rightarrow> bytes \<Rightarrow> bytes option"
  x25519_public :: "bytes \<Rightarrow> bytes option"
  x25519_shared :: "bytes \<Rightarrow> bytes \<Rightarrow> bytes option"
  kem_keygen :: "bytes \<Rightarrow> (bytes \<times> bytes) option"
  kem_encapsulate :: "bytes \<Rightarrow> bytes \<Rightarrow> (bytes \<times> bytes) option"
  kem_decapsulate :: "bytes \<Rightarrow> bytes \<Rightarrow> bytes option"
  ed_public :: "bytes \<Rightarrow> bytes option"
  ed_sign :: "bytes \<Rightarrow> bytes \<Rightarrow> bytes option"
  ed_verify :: "bytes \<Rightarrow> bytes \<Rightarrow> bytes \<Rightarrow> bool option"
  dsa_keygen :: "bytes \<Rightarrow> (bytes \<times> bytes) option"
  dsa_sign :: "bytes \<Rightarrow> bytes \<Rightarrow> bytes option"
  dsa_verify :: "bytes \<Rightarrow> bytes \<Rightarrow> bytes \<Rightarrow> bool option"
  entropyToMnemonic :: "bytes \<Rightarrow> jstring option"
  mnemonicToEntropy :: "jstring \<Rightarrow> bytes option"
  wordlist :: "jstring list"

section \<open>Constants\<close>

definition DERIVE_SALT :: "noble \<Rightarrow> bytes" where
  "DERIVE_SALT N = utf8ToBytes N (lit ''luna-backup-v1'')"

definition SIG_PREFIX :: "noble \<Rightarrow> bytes" where
  "SIG_PREFIX N = utf8ToBytes N (lit ''luna-sig-v2'' @ [0])"

definition MLDSA_SEED_INFO :: "noble \<Rightarrow> bytes" where
  "MLDSA_SEED_INFO N = utf8ToBytes N (lit ''luna-mldsa-v1'')"

definition ED_PUBLIC_LEN :: nat where [js_eval]: "ED_PUBLIC_LEN = 32"
definition MLDSA_PUBLIC_LEN :: nat where [js_eval]: "MLDSA_PUBLIC_LEN = 1952"
definition ED_SIG_LEN :: nat where [js_eval]: "ED_SIG_LEN = 64"
definition MLDSA_SIG_LEN :: nat where [js_eval]: "MLDSA_SIG_LEN = 3309"
definition SIG_PUBLIC_LEN :: nat where [js_eval]: "SIG_PUBLIC_LEN = ED_PUBLIC_LEN + MLDSA_PUBLIC_LEN"
definition SIG_LEN :: nat where [js_eval]: "SIG_LEN = ED_SIG_LEN + MLDSA_SIG_LEN"

definition SEAL_INFO :: "noble \<Rightarrow> bytes" where
  "SEAL_INFO N = utf8ToBytes N (lit ''luna-seal-v2'')"

definition NONCE_LEN :: nat where [js_eval]: "NONCE_LEN = 24"
definition TAG_LEN :: nat where [js_eval]: "TAG_LEN = 16"
definition X25519_LEN :: nat where [js_eval]: "X25519_LEN = 32"
definition MLKEM_PUBLIC_LEN :: nat where [js_eval]: "MLKEM_PUBLIC_LEN = 1184"
definition MLKEM_CT_LEN :: nat where [js_eval]: "MLKEM_CT_LEN = 1088"
definition MLKEM_SEED_LEN :: nat where [js_eval]: "MLKEM_SEED_LEN = 64"
definition SEAL_PUBLIC_LEN :: nat where [js_eval]: "SEAL_PUBLIC_LEN = X25519_LEN + MLKEM_PUBLIC_LEN"
definition SEAL_SECRET_LEN :: nat where [js_eval]: "SEAL_SECRET_LEN = X25519_LEN + MLKEM_SEED_LEN"

lemmas crypto_lens = ED_PUBLIC_LEN_def MLDSA_PUBLIC_LEN_def ED_SIG_LEN_def MLDSA_SIG_LEN_def SIG_PUBLIC_LEN_def
  SIG_LEN_def NONCE_LEN_def TAG_LEN_def X25519_LEN_def MLKEM_PUBLIC_LEN_def MLKEM_CT_LEN_def MLKEM_SEED_LEN_def
  SEAL_PUBLIC_LEN_def SEAL_SECRET_LEN_def

section \<open>Keys from a recovery phrase\<close>

record user_keys =
  sealSecret :: bytes
  sealPublic :: bytes
  selfKey :: bytes
  authSecret :: bytes
  authPublic :: bytes

definition deriveInfo :: "noble \<Rightarrow> bytes \<Rightarrow> jstring \<Rightarrow> bytes" where
  "deriveInfo N label lunaId = concatBytes N [label, [0], utf8ToBytes N lunaId]"

definition hkdf32 :: "noble \<Rightarrow> bytes \<Rightarrow> bytes option \<Rightarrow> bytes \<Rightarrow> bytes" where
  "hkdf32 N ikm salt info = hkdf N ikm salt info 32"

definition mlkemKeys :: "noble \<Rightarrow> bytes \<Rightarrow> (bytes \<times> bytes) result" where
  "mlkemKeys N seed = of_lib (kem_keygen N seed)"

definition mldsaKeys :: "noble \<Rightarrow> bytes \<Rightarrow> (bytes \<times> bytes) result" where
  "mldsaKeys N seed = of_lib (dsa_keygen N (hkdf32 N seed None (MLDSA_SEED_INFO N)))"

definition signerPublic :: "noble \<Rightarrow> bytes \<Rightarrow> bytes result" where
  "signerPublic N seed =
     bind_r (of_lib (ed_public N seed)) (\<lambda>ed.
     bind_r (mldsaKeys N seed) (\<lambda>(dsa, _).
       Inr (concatBytes N [ed, dsa])))"

text \<open>The X25519 secret is clamped; an assignment outside a typed array has no effect.\<close>

definition clamp :: "bytes \<Rightarrow> bytes" where
  [js_eval]: "clamp s = (let a = s[0 := s ! 0 AND 248]; b = a[31 := a ! 31 AND 127] in b[31 := b ! 31 OR 64])"

definition sealPairFrom :: "noble \<Rightarrow> bytes \<Rightarrow> bytes \<Rightarrow> (bytes \<times> bytes) result" where
  "sealPairFrom N x25519Secret mlkemSeed =
     (let secret = clamp x25519Secret;
          sealSecret = concatBytes N [secret, mlkemSeed]
      in bind_r (of_lib (x25519_public N secret)) (\<lambda>xp.
         bind_r (mlkemKeys N mlkemSeed) (\<lambda>(kp, _).
           Inr (sealSecret, concatBytes N [xp, kp]))))"

definition derive :: "noble \<Rightarrow> bytes \<Rightarrow> jstring \<Rightarrow> user_keys result" where
  "derive N entropy lunaId =
     (if length entropy \<noteq> 16 \<and> length entropy \<noteq> 32 then Inl (Thrown (lit ''Recovery phrase entropy must be 16 or 32 bytes.''))
      else
        let info = (\<lambda>l. deriveInfo N (utf8ToBytes N (lit l)) lunaId);
            x25519Secret = hkdf32 N entropy (Some (DERIVE_SALT N)) (info ''x25519'');
            mlkemSeed = hkdf N entropy (Some (DERIVE_SALT N)) (info ''mlkem'') MLKEM_SEED_LEN
        in bind_r (sealPairFrom N x25519Secret mlkemSeed) (\<lambda>(sec, pub).
           let self = hkdf32 N entropy (Some (DERIVE_SALT N)) (info ''self'');
               auth = hkdf32 N entropy (Some (DERIVE_SALT N)) (info ''auth'')
           in bind_r (signerPublic N auth) (\<lambda>authPub.
              Inr \<lparr>sealSecret = sec, sealPublic = pub, selfKey = self, authSecret = auth, authPublic = authPub\<rparr>)))"

definition SCOPE_X25519_INFO :: "noble \<Rightarrow> bytes" where
  "SCOPE_X25519_INFO N = utf8ToBytes N (lit ''luna-scope-x25519-v1'')"

definition SCOPE_MLKEM_INFO :: "noble \<Rightarrow> bytes" where
  "SCOPE_MLKEM_INFO N = utf8ToBytes N (lit ''luna-scope-mlkem-v1'')"

definition scopeKeysFromSeed :: "noble \<Rightarrow> bytes \<Rightarrow> (bytes \<times> bytes) result" where
  "scopeKeysFromSeed N seed =
     (if length seed \<noteq> 32 then Inl (Thrown (lit ''Scope seed must be 32 bytes.''))
      else sealPairFrom N (hkdf32 N seed (Some (DERIVE_SALT N)) (SCOPE_X25519_INFO N))
             (hkdf N seed (Some (DERIVE_SALT N)) (SCOPE_MLKEM_INFO N) MLKEM_SEED_LEN))"

section \<open>Sealing to a public key\<close>

definition sealKey :: "noble \<Rightarrow> bytes \<Rightarrow> bytes \<Rightarrow> bytes \<Rightarrow> bytes \<Rightarrow> bytes \<Rightarrow> bytes" where
  "sealKey N sharedX sharedK ephPublic recipientPublic mlkemCt =
     (let info = concatBytes N [SEAL_INFO N, ephPublic, slice recipientPublic 0 X25519_LEN, mlkemCt,
                   sha256 N (drop X25519_LEN recipientPublic)]
      in hkdf32 N (concatBytes N [sharedX, sharedK]) None info)"

definition bad_public :: jerror where
  "bad_public = Thrown (lit ''This recovery key is not valid. Set up the recovery phrase again.'')"

definition checkPublicKey :: "noble \<Rightarrow> bytes \<Rightarrow> unit result" where
  "checkPublicKey N publicKey =
     (if length publicKey \<noteq> SEAL_PUBLIC_LEN then Inl bad_public
      else if x25519_shared N (replicate 32 0x42) (slice publicKey 0 X25519_LEN) = None then Inl bad_public
      else if kem_encapsulate N (drop X25519_LEN publicKey) (replicate 32 0) = None then Inl bad_public
      else Inr ())"

definition aeadEncrypt :: "noble \<Rightarrow> bytes \<Rightarrow> bytes \<Rightarrow> bytes \<Rightarrow> bytes \<Rightarrow> bytes result" where
  "aeadEncrypt N key nonce aad msg = of_lib (xchacha_encrypt N key nonce aad msg)"

definition aeadDecrypt :: "noble \<Rightarrow> bytes \<Rightarrow> bytes \<Rightarrow> bytes \<Rightarrow> bytes \<Rightarrow> bytes result" where
  "aeadDecrypt N key nonce aad body = of_lib (xchacha_decrypt N key nonce aad body)"

definition bad_sealed :: jerror where
  "bad_sealed = Thrown (lit ''This sealed copy is not valid.'')"

definition sealWith :: "noble \<Rightarrow> bytes \<Rightarrow> bytes \<Rightarrow> bytes \<Rightarrow> bytes \<Rightarrow> bytes \<Rightarrow> bytes \<Rightarrow> bytes result" where
  "sealWith N ephSecret m nonce recipientPublic aad msg =
     bind_r (checkPublicKey N recipientPublic) (\<lambda>_.
     bind_r (of_lib (x25519_public N ephSecret)) (\<lambda>ephPublic.
     (case x25519_shared N ephSecret (slice recipientPublic 0 X25519_LEN) of
        None \<Rightarrow> Inl bad_sealed
      | Some sharedX \<Rightarrow>
          bind_r (of_lib (kem_encapsulate N (drop X25519_LEN recipientPublic) m)) (\<lambda>(cipherText, sharedK).
          bind_r (aeadEncrypt N (sealKey N sharedX sharedK ephPublic recipientPublic cipherText) nonce aad msg) (\<lambda>body.
            Inr (concatBytes N [ephPublic, cipherText, nonce, body]))))))"

text \<open>\<open>randomBytes\<close> gives the bytes of the \<open>i\<close>-th call to the random source of the platform.\<close>

definition seal :: "noble \<Rightarrow> (nat \<Rightarrow> nat \<Rightarrow> bytes) \<Rightarrow> bytes \<Rightarrow> bytes \<Rightarrow> bytes \<Rightarrow> bytes result" where
  "seal N randomBytes recipientPublic aad msg =
     sealWith N (randomBytes 0 32) (randomBytes 1 32) (randomBytes 2 NONCE_LEN) recipientPublic aad msg"

definition open_sealed :: "noble \<Rightarrow> bytes \<Rightarrow> bytes \<Rightarrow> bytes \<Rightarrow> bytes result" where
  "open_sealed N secret aad sealed =
     (let head = X25519_LEN + MLKEM_CT_LEN + NONCE_LEN
      in if length sealed < head + TAG_LEN then Inl (Thrown (lit ''This sealed copy is too short to be valid.''))
         else if length secret \<noteq> SEAL_SECRET_LEN then Inl (Thrown (lit ''This recovery key is not valid.''))
         else
           let ephPublic = slice sealed 0 X25519_LEN;
               mlkemCt = slice sealed X25519_LEN (X25519_LEN + MLKEM_CT_LEN);
               nonce = slice sealed (X25519_LEN + MLKEM_CT_LEN) head;
               body = drop head sealed;
               xSecret = slice secret 0 X25519_LEN
           in bind_r (mlkemKeys N (drop X25519_LEN secret)) (\<lambda>(kp, ks).
              bind_r (of_lib (x25519_public N xSecret)) (\<lambda>xp.
              let recipientPublic = concatBytes N [xp, kp]
              in (case x25519_shared N xSecret ephPublic of
                    None \<Rightarrow> Inl bad_sealed
                  | Some sharedX \<Rightarrow>
                      bind_r (of_lib (kem_decapsulate N mlkemCt ks)) (\<lambda>sharedK.
                      rethrow (Thrown (lit ''This sealed copy could not be opened. It was changed, or it was sealed to a different key.''))
                        (aeadDecrypt N (sealKey N sharedX sharedK ephPublic recipientPublic mlkemCt) nonce aad body))))))"

section \<open>Encryption under a shared key\<close>

definition encryptWith :: "noble \<Rightarrow> bytes \<Rightarrow> bytes \<Rightarrow> bytes \<Rightarrow> bytes \<Rightarrow> bytes result" where
  "encryptWith N key nonce aad msg = bind_r (aeadEncrypt N key nonce aad msg) (\<lambda>c. Inr (concatBytes N [nonce, c]))"

definition encrypt :: "noble \<Rightarrow> (nat \<Rightarrow> nat \<Rightarrow> bytes) \<Rightarrow> bytes \<Rightarrow> bytes \<Rightarrow> bytes \<Rightarrow> bytes result" where
  "encrypt N randomBytes key aad msg = encryptWith N key (randomBytes 0 NONCE_LEN) aad msg"

definition decrypt :: "noble \<Rightarrow> bytes \<Rightarrow> bytes \<Rightarrow> bytes \<Rightarrow> bytes result" where
  "decrypt N key aad sealed =
     (if length sealed < NONCE_LEN + TAG_LEN then Inl (Thrown (lit ''This encrypted data is too short to be valid.''))
      else rethrow (Thrown (lit ''This encrypted data could not be opened. It was changed, or the key is wrong.''))
             (aeadDecrypt N key (slice sealed 0 NONCE_LEN) aad (drop NONCE_LEN sealed)))"

section \<open>Signatures\<close>

definition signedBytes :: "noble \<Rightarrow> jstring \<Rightarrow> bytes \<Rightarrow> bytes" where
  "signedBytes N domain msg = concatBytes N [SIG_PREFIX N, utf8ToBytes N domain, [0], msg]"

definition sign :: "noble \<Rightarrow> bytes \<Rightarrow> jstring \<Rightarrow> bytes \<Rightarrow> bytes result" where
  "sign N seed domain msg =
     (let signed = signedBytes N domain msg
      in bind_r (mldsaKeys N seed) (\<lambda>(_, sk).
         bind_r (of_lib (dsa_sign N signed sk)) (\<lambda>mldsa.
         bind_r (of_lib (ed_sign N signed seed)) (\<lambda>ed.
           Inr (concatBytes N [ed, mldsa])))))"

definition verify :: "noble \<Rightarrow> bytes \<Rightarrow> jstring \<Rightarrow> bytes \<Rightarrow> bytes \<Rightarrow> bool" where
  "verify N publicKey domain msg sig =
     (if length publicKey \<noteq> SIG_PUBLIC_LEN \<or> length sig \<noteq> SIG_LEN then False
      else
        let signed = signedBytes N domain msg
        in (case ed_verify N (slice sig 0 ED_SIG_LEN) signed (slice publicKey 0 ED_PUBLIC_LEN) of
              None \<Rightarrow> False
            | Some edOk \<Rightarrow>
                (case dsa_verify N (drop ED_SIG_LEN sig) signed (drop ED_PUBLIC_LEN publicKey) of
                   None \<Rightarrow> False
                 | Some mldsaOk \<Rightarrow> edOk \<and> mldsaOk)))"

definition chunkId :: "noble \<Rightarrow> bytes \<Rightarrow> bytes \<Rightarrow> bytes" where
  "chunkId N dedupKey chunk = hmac N dedupKey chunk"

definition packId :: "noble \<Rightarrow> bytes \<Rightarrow> bytes" where
  "packId N ciphertext = sha256 N ciphertext"

section \<open>The canonical encoding\<close>

definition lengthPrefixed :: "noble \<Rightarrow> bytes \<Rightarrow> bytes" where
  "lengthPrefixed N bs = concatBytes N [be_bytes 4 (length bs), bs]"

definition canonical :: "noble \<Rightarrow> (jstring \<times> bytes) list \<Rightarrow> bytes" where
  "canonical N flds =
     concatBytes N (concat (map (\<lambda>(name, value). [lengthPrefixed N (utf8ToBytes N name), lengthPrefixed N value]) flds))"

section \<open>Recovery phrases\<close>

text \<open>\<open>split(/\s+/)\<close>; \<open>toLowerCase\<close> follows the Unicode tables and is an argument.\<close>

function split_ws :: "jstring \<Rightarrow> jstring list" where
  "split_ws [] = [[]]"
| "split_ws (c # s) =
     (if js_ws c then [] # split_ws (dropWhile js_ws s)
      else (case split_ws s of [] \<Rightarrow> [[c]] | p # ps \<Rightarrow> (c # p) # ps))"
  by pat_completeness auto
termination by (relation "measure length") (auto simp: less_Suc_eq_le length_dropWhile_le)

declare split_ws.simps [js_eval]

definition phrase_words :: "(jstring \<Rightarrow> jstring) \<Rightarrow> jstring \<Rightarrow> jstring list" where
  [js_eval]: "phrase_words toLowerCase ws = map toLowerCase (filter (\<lambda>w. w \<noteq> []) (split_ws ws))"

definition phraseToEntropy :: "noble \<Rightarrow> (jstring \<Rightarrow> jstring) \<Rightarrow> jstring \<Rightarrow> bytes result" where
  "phraseToEntropy N toLowerCase ws =
     (let lst = phrase_words toLowerCase ws;
          invalid = Thrown (lit ''These '' @ num_str (length lst) @ lit '' words don't form a valid recovery phrase. Check each word.'')
      in if length lst \<noteq> 12 \<and> length lst \<noteq> 24
         then Inl (Thrown (lit ''Your recovery phrase has '' @ num_str (length lst) @ lit '' words. It needs 12 or 24.''))
         else (case List.find (\<lambda>w. w \<notin> set (wordlist N)) lst of
                 Some w \<Rightarrow> Inl (Thrown (lit ''That word isn't on the recovery phrase list: '' @ w))
               | None \<Rightarrow>
                   (case mnemonicToEntropy N (join [32] lst) of
                      None \<Rightarrow> Inl invalid
                    | Some e \<Rightarrow> if length e = 16 \<or> length e = 32 then Inr e else Inl invalid)))"

definition entropyToPhrase :: "noble \<Rightarrow> bytes \<Rightarrow> jstring result" where
  "entropyToPhrase N entropy = of_lib (entropyToMnemonic N entropy)"

definition newEntropy :: "(nat \<Rightarrow> nat \<Rightarrow> bytes) \<Rightarrow> nat \<Rightarrow> bytes result" where
  "newEntropy randomBytes ws =
     (if ws \<noteq> 12 \<and> ws \<noteq> 24 then Inl (Thrown (lit ''A recovery phrase has 12 or 24 words.''))
      else Inr (randomBytes 0 (if ws = 24 then 32 else 16)))"

section \<open>What the packages promise\<close>

definition concat_law :: "noble \<Rightarrow> bool" where
  "concat_law N \<longleftrightarrow> (\<forall>ps. concatBytes N ps = concat ps)"

definition hkdf_law :: "noble \<Rightarrow> bool" where
  "hkdf_law N \<longleftrightarrow> (\<forall>ikm salt info l. length (hkdf N ikm salt info l) = l)"

text \<open>Diffie and Hellman: both sides compute the same secret, and an honest public key is not of low order.\<close>

definition x25519_law :: "noble \<Rightarrow> bool" where
  "x25519_law N \<longleftrightarrow>
     (\<forall>s. length s = 32 \<longrightarrow> (\<exists>p. x25519_public N s = Some p \<and> length p = 32)) \<and>
     (\<forall>a b A B. x25519_public N a = Some A \<longrightarrow> x25519_public N b = Some B \<longrightarrow>
        (\<exists>z. x25519_shared N a B = Some z \<and> x25519_shared N b A = Some z))"

definition mlkem_law :: "noble \<Rightarrow> bool" where
  "mlkem_law N \<longleftrightarrow> (\<forall>s. length s = 64 \<longrightarrow> (\<exists>pk sk. kem_keygen N s = Some (pk, sk) \<and> length pk = 1184 \<and>
     (\<forall>m. length m = 32 \<longrightarrow> (\<exists>ct ss. kem_encapsulate N pk m = Some (ct, ss) \<and> length ct = 1088 \<and>
        kem_decapsulate N ct sk = Some ss))))"

definition xchacha_law :: "noble \<Rightarrow> bool" where
  "xchacha_law N \<longleftrightarrow> (\<forall>k n a m. length k = 32 \<longrightarrow> length n = 24 \<longrightarrow>
     (\<exists>c. xchacha_encrypt N k n a m = Some c \<and> length c = length m + 16 \<and> xchacha_decrypt N k n a c = Some m))"

definition signature_law :: "noble \<Rightarrow> bool" where
  "signature_law N \<longleftrightarrow>
     (\<forall>s. length s = 32 \<longrightarrow> (\<exists>p. ed_public N s = Some p \<and> length p = 32 \<and>
        (\<forall>m. \<exists>g. ed_sign N m s = Some g \<and> length g = 64 \<and> ed_verify N g m p = Some True))) \<and>
     (\<forall>s. length s = 32 \<longrightarrow> (\<exists>pk sk. dsa_keygen N s = Some (pk, sk) \<and> length pk = 1952 \<and>
        (\<forall>m. \<exists>g. dsa_sign N m sk = Some g \<and> length g = 3309 \<and> dsa_verify N g m pk = Some True)))"

section \<open>A derived key opens what is sealed to it\<close>

lemma length_clamp [simp]: "length (clamp s) = length s"
  by (simp add: clamp_def Let_def)

lemma x25519_key: "x25519_law N \<Longrightarrow> length s = 32 \<Longrightarrow> \<exists>p. x25519_public N s = Some p \<and> length p = 32"
  by (simp add: x25519_law_def)

lemma kem_key:
  assumes "mlkem_law N" "length s = 64" "kem_keygen N s = Some (kp, ks)" "length m = 32"
  shows "\<exists>ct ss. kem_encapsulate N kp m = Some (ct, ss) \<and> length ct = 1088 \<and> kem_decapsulate N ct ks = Some ss"
proof -
  obtain pk sk where "kem_keygen N s = Some (pk, sk)"
      "\<forall>m. length m = 32 \<longrightarrow> (\<exists>ct ss. kem_encapsulate N pk m = Some (ct, ss) \<and> length ct = 1088 \<and> kem_decapsulate N ct sk = Some ss)"
    using assms(1,2) unfolding mlkem_law_def by blast
  then show ?thesis using assms(3,4) by simp
qed

lemma check_derived_public:
  assumes "x25519_law N" "mlkem_law N" "length a = 32" "x25519_public N a = Some xp" "length s = 64" "kem_keygen N s = Some (kp, ks)"
  shows "checkPublicKey N (xp @ kp) = Inr ()"
proof -
  have l: "length xp = 32" using assms by (auto simp: x25519_law_def)
  have k: "length kp = 1184" using assms by (fastforce simp: mlkem_law_def)
  obtain p where "x25519_public N (replicate 32 0x42) = Some p" using x25519_key [OF assms(1), of "replicate 32 0x42"] by auto
  then obtain z where "x25519_shared N (replicate 32 0x42) xp = Some z" using assms(1,4) unfolding x25519_law_def by blast
  moreover obtain ct where "kem_encapsulate N kp (replicate 32 0) = Some ct"
    using kem_key [OF assms(2,5,6), of "replicate 32 0"] by auto
  ultimately show ?thesis using l k by (simp add: checkPublicKey_def crypto_lens slice_def)
qed

lemma decrypt_encrypted:
  assumes "concat_law N" "xchacha_law N" "length key = 32" "length nonce = 24" "encryptWith N key nonce aad msg = Inr sealed"
  shows "decrypt N key aad sealed = Inr msg"
proof -
  obtain c where c: "xchacha_encrypt N key nonce aad msg = Some c" "length c = length msg + 16" "xchacha_decrypt N key nonce aad c = Some msg"
    using assms(2,3,4) unfolding xchacha_law_def by blast
  then have "sealed = nonce @ c" using assms(1,5) by (simp add: encryptWith_def aeadEncrypt_def concat_law_def)
  then show ?thesis using c assms(4) by (simp add: decrypt_def aeadDecrypt_def crypto_lens slice_def)
qed

lemma open_what_was_sealed:
  assumes c: "concat_law N" and h: "hkdf_law N" and x: "x25519_law N" and kem: "mlkem_law N" and aead: "xchacha_law N"
    and a: "length a = 32" "x25519_public N a = Some xp" and s: "length s = 64" "kem_keygen N s = Some (kp, ks)"
    and r: "length eph = 32" "length m = 32" "length nonce = 24"
  shows "\<exists>sealed. sealWith N eph m nonce (xp @ kp) aad msg = Inr sealed \<and> open_sealed N (a @ s) aad sealed = Inr msg"
proof -
  have cat: "concatBytes N ps = concat ps" for ps using c by (simp add: concat_law_def)
  have l: "length xp = 32" "length kp = 1184" using x a kem s by (fastforce simp: x25519_law_def mlkem_law_def)+
  obtain ep where ep: "x25519_public N eph = Some ep" "length ep = 32" using x r by (auto simp: x25519_law_def)
  obtain z where z: "x25519_shared N eph xp = Some z" "x25519_shared N a ep = Some z"
    using x a(2) ep(1) unfolding x25519_law_def by blast
  obtain ct ss where ct: "kem_encapsulate N kp m = Some (ct, ss)" "length ct = 1088" "kem_decapsulate N ct ks = Some ss"
    using kem_key [OF kem s r(2)] by blast
  define key where "key = sealKey N z ss ep (xp @ kp) ct"
  have "length key = 32" using h by (simp add: key_def sealKey_def hkdf32_def Let_def hkdf_law_def)
  then obtain body where body: "xchacha_encrypt N key nonce aad msg = Some body" "length body = length msg + 16"
      "xchacha_decrypt N key nonce aad body = Some msg"
    using aead r(3) unfolding xchacha_law_def by blast
  have "sealWith N eph m nonce (xp @ kp) aad msg = Inr (ep @ ct @ nonce @ body)"
    using check_derived_public [OF x kem a s] ep z ct body l
    by (simp add: sealWith_def crypto_lens slice_def aeadEncrypt_def cat key_def)
  moreover have "open_sealed N (a @ s) aad (ep @ ct @ nonce @ body) = Inr msg"
    using a s r ep z ct body l
    by (simp add: open_sealed_def crypto_lens slice_def aeadDecrypt_def cat key_def mlkemKeys_def Let_def)
  ultimately show ?thesis by blast
qed

lemma sealPairFrom_parts:
  assumes "concat_law N" "x25519_law N" "mlkem_law N" "length x = 32" "length s = 64"
  obtains xp kp ks where "x25519_public N (clamp x) = Some xp" "kem_keygen N s = Some (kp, ks)"
    "sealPairFrom N x s = Inr (clamp x @ s, xp @ kp)"
proof -
  obtain xp where "x25519_public N (clamp x) = Some xp" using x25519_key [OF assms(2), of "clamp x"] assms(4) by auto
  moreover obtain kp ks where "kem_keygen N s = Some (kp, ks)" using assms by (fastforce simp: mlkem_law_def)
  ultimately show thesis using assms(1) that
    by (simp add: sealPairFrom_def mlkemKeys_def Let_def concat_law_def)
qed

lemma length_hkdf32: "hkdf_law N \<Longrightarrow> length (hkdf32 N ikm salt info) = 32"
  by (simp add: hkdf_law_def hkdf32_def)

lemma signerPublic_ok:
  assumes "concat_law N" "hkdf_law N" "signature_law N" "length seed = 32"
  obtains ed dsa sk where "ed_public N seed = Some ed" "dsa_keygen N (hkdf32 N seed None (MLDSA_SEED_INFO N)) = Some (dsa, sk)"
    "signerPublic N seed = Inr (ed @ dsa)"
proof -
  obtain ed where "ed_public N seed = Some ed" using assms by (fastforce simp: signature_law_def)
  moreover obtain dsa sk where "dsa_keygen N (hkdf32 N seed None (MLDSA_SEED_INFO N)) = Some (dsa, sk)"
    using assms(2,3) length_hkdf32 unfolding signature_law_def by blast
  ultimately show thesis using assms(1) that by (simp add: signerPublic_def mldsaKeys_def concat_law_def)
qed

text \<open>A key pair for sealing: whatever is sealed to the public half opens with the secret half.\<close>

definition seal_pair :: "noble \<Rightarrow> bytes \<Rightarrow> bytes \<Rightarrow> bool" where
  "seal_pair N sec pub \<longleftrightarrow> length sec = SEAL_SECRET_LEN \<and> length pub = SEAL_PUBLIC_LEN \<and>
     (\<forall>randomBytes aad msg. (\<forall>i n. length (randomBytes i n) = n) \<longrightarrow>
        (\<exists>sealed. seal N randomBytes pub aad msg = Inr sealed \<and> open_sealed N sec aad sealed = Inr msg))"

definition seal_laws :: "noble \<Rightarrow> bool" where
  "seal_laws N \<longleftrightarrow> concat_law N \<and> hkdf_law N \<and> x25519_law N \<and> mlkem_law N \<and> xchacha_law N"

lemma sealPairFrom_opens:
  assumes "seal_laws N" "length x = 32" "length s = 64"
  obtains sec pub where "sealPairFrom N x s = Inr (sec, pub)" "seal_pair N sec pub"
proof -
  have laws: "concat_law N" "hkdf_law N" "x25519_law N" "mlkem_law N" "xchacha_law N"
    using assms(1) by (auto simp: seal_laws_def)
  obtain xp kp ks where p: "x25519_public N (clamp x) = Some xp" "kem_keygen N s = Some (kp, ks)"
      "sealPairFrom N x s = Inr (clamp x @ s, xp @ kp)"
    using sealPairFrom_parts [OF laws(1,3,4) assms(2,3)] by blast
  have "length xp = 32" "length kp = 1184"
    using x25519_key [OF laws(3), of "clamp x"] assms(2,3) p(1,2) laws(4) by (auto simp: mlkem_law_def)
  then have "seal_pair N (clamp x @ s) (xp @ kp)"
    using open_what_was_sealed [OF laws _ p(1) assms(3) p(2)] assms(2,3) by (auto simp: seal_pair_def seal_def crypto_lens)
  then show thesis using p(3) that by blast
qed

lemma derived_keys:
  assumes "seal_laws N" "signature_law N" "length entropy = 16 \<or> length entropy = 32"
  obtains k where "derive N entropy lunaId = Inr k" "seal_pair N (sealSecret k) (sealPublic k)"
    "length (selfKey k) = 32" "length (authSecret k) = 32" "signerPublic N (authSecret k) = Inr (authPublic k)"
proof -
  let ?key = "\<lambda>l. hkdf32 N entropy (Some (DERIVE_SALT N)) (deriveInfo N (utf8ToBytes N (lit l)) lunaId)"
  let ?s = "hkdf N entropy (Some (DERIVE_SALT N)) (deriveInfo N (utf8ToBytes N (lit ''mlkem'')) lunaId) MLKEM_SEED_LEN"
  have h: "concat_law N" "hkdf_law N" using assms(1) by (simp_all add: seal_laws_def)
  then have l: "length (?key m) = 32" "length ?s = 64" for m by (simp_all add: length_hkdf32 hkdf_law_def crypto_lens)
  obtain sec pub where p: "sealPairFrom N (?key ''x25519'') ?s = Inr (sec, pub)" "seal_pair N sec pub"
    using sealPairFrom_opens [OF assms(1) l(1,2)] by blast
  obtain ap where "signerPublic N (?key ''auth'') = Inr ap" using signerPublic_ok [OF h assms(2) l(1)] by blast
  then show thesis using that p assms(3) l(1) by (auto simp: derive_def Let_def)
qed

lemma scope_keys:
  assumes "seal_laws N" "length seed = 32"
  obtains sec pub where "scopeKeysFromSeed N seed = Inr (sec, pub)" "seal_pair N sec pub"
proof -
  have "hkdf_law N" using assms(1) by (simp add: seal_laws_def)
  then have "length (hkdf32 N seed (Some (DERIVE_SALT N)) (SCOPE_X25519_INFO N)) = 32"
      "length (hkdf N seed (Some (DERIVE_SALT N)) (SCOPE_MLKEM_INFO N) MLKEM_SEED_LEN) = 64"
    by (simp_all add: length_hkdf32 hkdf_law_def crypto_lens)
  from sealPairFrom_opens [OF assms(1) this] show thesis
    using that assms(2) by (metis scopeKeysFromSeed_def)
qed

text \<open>
  Property C13: a recovery phrase of either length gives keys on every Luna, and what is sealed to its
  public key, with any random bytes, opens with its secret key to the same message.
\<close>

theorem sealed_copy_opens:
  assumes "concat_law N" "hkdf_law N" "x25519_law N" "mlkem_law N" "xchacha_law N" "signature_law N"
    and "length entropy = 16 \<or> length entropy = 32"
    and "\<And>i n. length (randomBytes i n) = n"
  shows "\<exists>k sealed. derive N entropy lunaId = Inr k \<and> seal N randomBytes (sealPublic k) aad msg = Inr sealed \<and>
    open_sealed N (sealSecret k) aad sealed = Inr msg"
proof -
  have "seal_laws N" using assms by (simp add: seal_laws_def)
  then show ?thesis using derived_keys [OF _ assms(6,7)] assms(8) by (metis seal_pair_def)
qed

text \<open>A stand-in for the packages that keeps their laws, for closed examples.\<close>

definition fit :: "nat \<Rightarrow> bytes \<Rightarrow> bytes" where
  "fit n bs = take n (bs @ replicate n 0)"

definition demo_noble :: noble where
  "demo_noble = \<lparr>concatBytes = concat, utf8ToBytes = map ucast, bytesToHex = map ucast,
     hexToBytes = (\<lambda>s. if list_all (\<lambda>c. c < 256) s then Some (map ucast s) else None),
     sha256 = fit 32, hmac = (\<lambda>k m. fit 32 (m @ k)), hkdf = (\<lambda>k s i n. fit n (k @ i)),
     xchacha_encrypt = (\<lambda>k n a m. Some (replicate 16 (hd (k @ [0])) @ m)),
     xchacha_decrypt = (\<lambda>k n a c. if take 16 c = replicate 16 (hd (k @ [0])) then Some (drop 16 c) else None),
     x25519_public = (\<lambda>s. Some (fit 32 s)), x25519_shared = (\<lambda>s p. Some (map2 (XOR) (fit 32 s) (fit 32 p))),
     kem_keygen = (\<lambda>s. Some (fit 1184 s, s)), kem_encapsulate = (\<lambda>p m. Some (fit 1088 m, m)),
     kem_decapsulate = (\<lambda>c s. Some (take 32 c)),
     ed_public = (\<lambda>s. Some (fit 32 s)), ed_sign = (\<lambda>m s. Some (fit 64 (fit 32 s @ m))),
     ed_verify = (\<lambda>g m p. Some (g = fit 64 (p @ m))),
     dsa_keygen = (\<lambda>s. Some (fit 1952 s, fit 1952 s)), dsa_sign = (\<lambda>m s. Some (fit 3309 (s @ m))),
     dsa_verify = (\<lambda>g m p. Some (g = fit 3309 (p @ m))),
     entropyToMnemonic = (\<lambda>e. Some (join [32] (map (\<lambda>b. [97 + ucast b]) (take 12 e)))),
     mnemonicToEntropy = (\<lambda>s. Some (map (\<lambda>w. ucast (hd (w @ [97]) - 97)) (split_on 32 s) @ replicate 4 0)),
     wordlist = map (\<lambda>n. [of_nat (97 + n)]) [0..<26]\<rparr>"

lemma length_fit [simp]: "length (fit n bs) = n"
  by (simp add: fit_def)

lemma fit_id [simp]: "length bs = n \<Longrightarrow> fit n bs = bs"
  by (simp add: fit_def)

lemma take_fit: "length bs = k \<Longrightarrow> k \<le> n \<Longrightarrow> take k (fit n bs) = bs"
  by (simp add: fit_def)

lemma map2_xor_commute: "map2 (XOR) a b = map2 (XOR) b (a :: bytes)"
  by (induction a b rule: list_induct2') (simp_all add: xor.commute)

lemma demo_laws: "concat_law demo_noble" "hkdf_law demo_noble" "x25519_law demo_noble" "mlkem_law demo_noble"
    "xchacha_law demo_noble" "signature_law demo_noble"
  by (simp_all add: concat_law_def hkdf_law_def x25519_law_def mlkem_law_def xchacha_law_def signature_law_def
      demo_noble_def map2_xor_commute take_fit)

lemma demo_seal_laws: "seal_laws demo_noble"
  by (simp add: seal_laws_def demo_laws)

theorem sealed_copy_opens_witness:
  "\<exists>k sealed. derive demo_noble (replicate 16 7) (lit ''luna'') = Inr k \<and>
     seal demo_noble (\<lambda>i n. replicate n 3) (sealPublic k) [1] [2, 3] = Inr sealed \<and>
     open_sealed demo_noble (sealSecret k) [1] sealed = Inr [2, 3]"
  by (rule sealed_copy_opens [OF demo_laws]) simp_all

section \<open>Signatures\<close>

lemma sign_verify:
  assumes "concat_law N" "hkdf_law N" "signature_law N" "length seed = 32"
  shows "\<exists>pub sig. signerPublic N seed = Inr pub \<and> sign N seed domain msg = Inr sig \<and> verify N pub domain msg sig"
proof -
  let ?m = "signedBytes N domain msg" and ?h = "hkdf32 N seed None (MLDSA_SEED_INFO N)"
  have cat: "concatBytes N ps = concat ps" for ps using assms(1) by (simp add: concat_law_def)
  obtain ed g where ed: "ed_public N seed = Some ed" "length ed = 32" "ed_sign N ?m seed = Some g" "length g = 64"
      "ed_verify N g ?m ed = Some True"
    using assms(3,4) unfolding signature_law_def by metis
  have "length ?h = 32" using assms(2) by (rule length_hkdf32)
  then obtain pk sk g' where dsa: "dsa_keygen N ?h = Some (pk, sk)" "length pk = 1952" "dsa_sign N ?m sk = Some g'"
      "length g' = 3309" "dsa_verify N g' ?m pk = Some True"
    using assms(3) unfolding signature_law_def by metis
  have "signerPublic N seed = Inr (ed @ pk)" "sign N seed domain msg = Inr (g @ g')"
    using ed dsa by (simp_all add: signerPublic_def sign_def mldsaKeys_def cat Let_def)
  moreover have "verify N (ed @ pk) domain msg (g @ g')"
    using ed dsa by (simp add: verify_def crypto_lens slice_def Let_def)
  ultimately show ?thesis by blast
qed

text \<open>
  A signature made with the seed of a signer is accepted by \<open>verify\<close> under the public key
  of that signer, for the same domain and message.
\<close>

theorem signature_verifies:
  assumes "concat_law N" "hkdf_law N" "signature_law N" "length seed = 32"
  shows "\<exists>pub sig. signerPublic N seed = Inr pub \<and> sign N seed domain msg = Inr sig \<and> verify N pub domain msg sig"
  by (rule sign_verify [OF assms])

theorem signature_verifies_witness:
  "\<exists>pub sig. signerPublic demo_noble (replicate 32 5) = Inr pub \<and>
     sign demo_noble (replicate 32 5) (lit ''snapshot'') [1] = Inr sig \<and> verify demo_noble pub (lit ''snapshot'') [1] sig"
  by (rule signature_verifies [OF demo_laws(1,2,6)]) simp

text \<open>Both halves are needed: an accepted signature verifies under Ed25519 and under ML-DSA.\<close>

lemma verify_both: "verify N pub domain msg sig \<longleftrightarrow>
    length pub = SIG_PUBLIC_LEN \<and> length sig = SIG_LEN \<and>
    ed_verify N (take ED_SIG_LEN sig) (signedBytes N domain msg) (take ED_PUBLIC_LEN pub) = Some True \<and>
    dsa_verify N (drop ED_SIG_LEN sig) (signedBytes N domain msg) (drop ED_PUBLIC_LEN pub) = Some True"
  by (auto simp: verify_def slice_def Let_def split: option.splits)

text \<open>
  The bytes a signature covers determine the domain and the message, so a signature for one
  purpose never passes for another (domains hold no zero byte).
\<close>

theorem signed_bytes_separate:
  assumes "concat_law N" "0 \<notin> set (utf8ToBytes N d)" "0 \<notin> set (utf8ToBytes N d')"
    and "signedBytes N d m = signedBytes N d' m'"
  shows "utf8ToBytes N d = utf8ToBytes N d' \<and> m = m'"
proof -
  have *: "x = y \<and> r = t" if "x @ 0 # r = y @ 0 # t" "0 \<notin> set x" "0 \<notin> set y" for x y r t :: bytes
    using that by (induction x arbitrary: y) (auto simp: Cons_eq_append_conv)
  have "utf8ToBytes N d @ 0 # m = utf8ToBytes N d' @ 0 # m'"
    using assms(1,4) by (simp add: signedBytes_def concat_law_def)
  then show ?thesis using assms(2,3) by (rule *)
qed

lemma demo_utf8: "utf8ToBytes demo_noble s = map ucast s"
  by (simp add: demo_noble_def)

theorem signed_bytes_separate_witness:
  "signedBytes demo_noble (lit ''snapshot'') [1] \<noteq> signedBytes demo_noble (lit ''private-snapshot'') [1]"
proof
  assume eq: "signedBytes demo_noble (lit ''snapshot'') [1] = signedBytes demo_noble (lit ''private-snapshot'') [1]"
  have "0 \<notin> set (utf8ToBytes demo_noble (lit ''snapshot''))" "0 \<notin> set (utf8ToBytes demo_noble (lit ''private-snapshot''))"
    unfolding demo_utf8 by code_simp+
  from signed_bytes_separate [OF demo_laws(1) this eq]
  have "(map ucast (lit ''snapshot'') :: bytes) = map ucast (lit ''private-snapshot'')" by (simp only: demo_utf8)
  moreover have "(map ucast (lit ''snapshot'') :: bytes) \<noteq> map ucast (lit ''private-snapshot'')" by code_simp
  ultimately show False by simp
qed

section \<open>The canonical encoding is injective\<close>

definition short_fields :: "noble \<Rightarrow> (jstring \<times> bytes) list \<Rightarrow> bool" where
  "short_fields N fs = list_all (\<lambda>(name, value). length (utf8ToBytes N name) < 2 ^ 32 \<and> length value < 2 ^ 32) fs"

definition field_bytes :: "noble \<Rightarrow> (jstring \<times> bytes) list \<Rightarrow> (bytes \<times> bytes) list" where
  "field_bytes N fs = map (map_prod (utf8ToBytes N) id) fs"

lemma lengthPrefixed_split:
  assumes "concat_law N" "length v < 2 ^ 32" "length w < 2 ^ 32" "lengthPrefixed N v @ r = lengthPrefixed N w @ t"
  shows "v = w \<and> r = t"
proof -
  have "be_bytes 4 (length v) @ v @ r = be_bytes 4 (length w) @ w @ t"
    using assms(1,4) by (simp add: lengthPrefixed_def concat_law_def)
  then have "be_bytes 4 (length v) = be_bytes 4 (length w)" "v @ r = w @ t" by simp_all
  then show ?thesis using assms(2,3) by (simp add: be_bytes_eq)
qed

lemma canonical_Nil: "concat_law N \<Longrightarrow> canonical N [] = []"
  by (simp add: canonical_def concat_law_def)

lemma canonical_Cons: "concat_law N \<Longrightarrow>
    canonical N ((n, v) # fs) = lengthPrefixed N (utf8ToBytes N n) @ lengthPrefixed N v @ canonical N fs"
  by (simp add: canonical_def concat_law_def)

lemma lengthPrefixed_nonempty: "concat_law N \<Longrightarrow> lengthPrefixed N v \<noteq> []"
  by (simp add: lengthPrefixed_def concat_law_def)

lemma canonical_inj:
  assumes "concat_law N"
  shows "short_fields N fs \<Longrightarrow> short_fields N gs \<Longrightarrow> canonical N fs = canonical N gs \<Longrightarrow> field_bytes N fs = field_bytes N gs"
proof (induction fs arbitrary: gs)
  case Nil
  then show ?case using assms lengthPrefixed_nonempty
    by (cases gs) (auto simp: canonical_Nil canonical_Cons field_bytes_def)
next
  case (Cons f fs)
  obtain n v where f: "f = (n, v)" by force
  obtain n' v' gs' where gs: "gs = (n', v') # gs'"
    using Cons.prems assms lengthPrefixed_nonempty by (cases gs) (auto simp: f canonical_Nil canonical_Cons)
  have eq: "lengthPrefixed N (utf8ToBytes N n) @ lengthPrefixed N v @ canonical N fs =
      lengthPrefixed N (utf8ToBytes N n') @ lengthPrefixed N v' @ canonical N gs'"
    using Cons.prems(3) assms by (simp add: f gs canonical_Cons)
  have sh: "length (utf8ToBytes N n) < 2 ^ 32" "length v < 2 ^ 32" "length (utf8ToBytes N n') < 2 ^ 32" "length v' < 2 ^ 32"
      "short_fields N fs" "short_fields N gs'"
    using Cons.prems by (simp_all add: f gs short_fields_def)
  have a: "utf8ToBytes N n = utf8ToBytes N n'" "lengthPrefixed N v @ canonical N fs = lengthPrefixed N v' @ canonical N gs'"
    using lengthPrefixed_split [OF assms sh(1,3) eq] by simp_all
  have b: "v = v'" "canonical N fs = canonical N gs'" using lengthPrefixed_split [OF assms sh(2,4) a(2)] by simp_all
  show ?case using Cons.IH [OF sh(5,6) b(2)] a(1) b(1) by (simp add: f gs field_bytes_def)
qed

text \<open>
  Property C23: the canonical encoding is unambiguous: two lists of fields (each under 4 GiB) with the same
  encoding have the same names and the same values in the same order.
\<close>

theorem canonical_unambiguous:
  assumes "concat_law N" "short_fields N fs" "short_fields N gs"
  shows "canonical N fs = canonical N gs \<longleftrightarrow> field_bytes N fs = field_bytes N gs"
proof
  show "field_bytes N fs = field_bytes N gs" if "canonical N fs = canonical N gs"
    using canonical_inj assms that by blast
  show "canonical N fs = canonical N gs" if "field_bytes N fs = field_bytes N gs"
  proof -
    have "canonical N hs = concat (map (\<lambda>(n, v). lengthPrefixed N n @ lengthPrefixed N v) (field_bytes N hs))" for hs
      using assms(1) by (induction hs) (auto simp: canonical_Nil canonical_Cons field_bytes_def)
    then show ?thesis using that by simp
  qed
qed

theorem canonical_unambiguous_witness:
  "canonical demo_noble [(lit ''a'', [1])] \<noteq> canonical demo_noble [(lit ''a'', [1, 0])]"
proof -
  have "short_fields demo_noble [(lit ''a'', [1])]" "short_fields demo_noble [(lit ''a'', [1, 0])]"
    by (simp_all add: short_fields_def demo_noble_def lit_def)
  from canonical_unambiguous [OF demo_laws(1) this] show ?thesis by (simp add: field_bytes_def)
qed

section \<open>Recovery phrases read back\<close>

text \<open>
  What \<open>@scure/bip39\<close> promises of an entropy: its phrase is a list of 12 or 24 words of the list, joined
  by single spaces, and reads back. The English words are lower-case letters.
\<close>

definition bip39_law :: "noble \<Rightarrow> bytes \<Rightarrow> jstring list \<Rightarrow> bool" where
  "bip39_law N e ws \<longleftrightarrow> (length e = 16 \<and> length ws = 12 \<or> length e = 32 \<and> length ws = 24) \<and>
     entropyToMnemonic N e = Some (join [32] ws) \<and> mnemonicToEntropy N (join [32] ws) = Some e \<and>
     list_all (\<lambda>w. w \<in> set (wordlist N) \<and> w \<noteq> [] \<and> list_all (\<lambda>c. 97 \<le> c \<and> c \<le> 122) w) ws"

definition lower_law :: "(jstring \<Rightarrow> jstring) \<Rightarrow> bool" where
  "lower_law toLowerCase \<longleftrightarrow> (\<forall>s. list_all (\<lambda>c. c < 128) s \<longrightarrow> toLowerCase s = lower s)"

text \<open>A text of words, each with the white space typed after it.\<close>

definition spaced :: "(jstring \<times> jstring) list \<Rightarrow> jstring" where
  "spaced wgs = concat (map (\<lambda>(w, g). w @ g) wgs)"

definition gaps_ok :: "(jstring \<times> jstring) list \<Rightarrow> bool" where
  "gaps_ok wgs = (list_all (\<lambda>(w, g). list_all js_ws g) wgs \<and> list_all (\<lambda>(w, g). g \<noteq> []) (butlast wgs))"

lemma lower_letter: "97 \<le> (if 65 \<le> c \<and> c \<le> 90 then c + 32 else c) \<Longrightarrow> (if 65 \<le> c \<and> c \<le> 90 then c + 32 else c) \<le> 122 \<Longrightarrow>
    c < 128 \<and> \<not> js_ws (c :: jchar)"
  by (auto simp: js_ws_def word_le_nat_alt word_less_nat_alt split: if_splits)

lemma typed_word:
  assumes "list_all (\<lambda>c. 97 \<le> c \<and> c \<le> 122) (lower w)"
  shows "list_all (\<lambda>c. c < 128) w" "list_all (\<lambda>c. \<not> js_ws c) w"
  using assms lower_letter by (auto simp: lower_def list_all_iff)

lemma split_ws_plain: "list_all (\<lambda>c. \<not> js_ws c) w \<Longrightarrow> split_ws w = [w]"
  by (induction w) simp_all

lemma split_ws_word:
  "list_all (\<lambda>c. \<not> js_ws c) w \<Longrightarrow> split_ws (w @ r) = (w @ hd (split_ws r)) # tl (split_ws r)"
proof (induction w)
  case Nil
  have "split_ws r \<noteq> []" by (cases r) (auto split: list.splits)
  then show ?case by simp
qed simp

lemma split_ws_gap:
  assumes "g \<noteq> []" "list_all js_ws g"
  shows "split_ws (g @ r) = [] # split_ws (dropWhile js_ws r)"
proof -
  obtain c g' where g: "g = c # g'" using assms(1) by (cases g) auto
  have "dropWhile js_ws (g' @ r) = dropWhile js_ws r" using assms(2) by (simp add: g dropWhile_append list_all_iff)
  then show ?thesis using assms(2) by (simp add: g)
qed

lemma words_spaced:
  "gaps_ok wgs \<Longrightarrow> list_all (\<lambda>(w, _). w \<noteq> [] \<and> list_all (\<lambda>c. \<not> js_ws c) w) wgs \<Longrightarrow>
   filter (\<lambda>w. w \<noteq> []) (split_ws (spaced wgs)) = map fst wgs"
proof (induction wgs)
  case (Cons wg wgs)
  obtain w g where wg: "wg = (w, g)" by force
  have w: "w \<noteq> []" "list_all (\<lambda>c. \<not> js_ws c) w" and g: "list_all js_ws g" using Cons.prems by (simp_all add: wg gaps_ok_def)
  show ?case
  proof (cases wgs)
    case Nil
    show ?thesis
    proof (cases "g = []")
      case True
      then show ?thesis using w Nil by (simp add: wg spaced_def split_ws_plain)
    next
      case False
      have "split_ws (w @ g) = [w, []]" using split_ws_word [OF w(2), of g] split_ws_gap [OF False g, of "[]"] by simp
      then show ?thesis using w Nil by (simp add: wg spaced_def)
    qed
  next
    case more: (Cons wg' wgs')
    obtain c s where s: "spaced wgs = c # s" "\<not> js_ws c"
      using Cons.prems by (cases wg'; cases "fst wg'") (auto simp: more spaced_def)
    have "g \<noteq> []" using Cons.prems by (simp add: more gaps_ok_def wg)
    then have "split_ws (w @ g @ spaced wgs) = w # split_ws (spaced wgs)"
      using split_ws_word [OF w(2)] split_ws_gap [OF _ g, of "spaced wgs"] s by simp
    moreover have "gaps_ok wgs" using Cons.prems by (simp add: more gaps_ok_def)
    ultimately show ?thesis using Cons.IH Cons.prems w by (simp add: wg spaced_def)
  qed
qed (simp add: spaced_def)

lemma words_led:
  "list_all js_ws lead \<Longrightarrow> filter (\<lambda>w. w \<noteq> []) (split_ws (lead @ r)) = filter (\<lambda>w. w \<noteq> []) (split_ws (dropWhile js_ws r))"
proof (cases lead)
  case Nil
  show ?thesis
  proof (cases r)
    case (Cons c s)
    then show ?thesis using Nil by simp
  qed (simp add: Nil)
next
  case (Cons c g)
  moreover assume "list_all js_ws lead"
  ultimately show ?thesis using split_ws_gap [of lead r] by simp
qed

text \<open>
  Property C24: the phrase shown for an entropy reads back to it, however the words are typed: in any
  letter case, with any white space between, before and after them.
\<close>

theorem phrase_reads_back:
  assumes "bip39_law N e ws" "lower_law toLowerCase"
    and "map (lower \<circ> fst) wgs = ws" "gaps_ok wgs" "list_all js_ws lead"
  shows "entropyToPhrase N e = Inr (join [32] ws) \<and> phraseToEntropy N toLowerCase (lead @ spaced wgs) = Inr e"
proof -
  have typed: "lower (fst wg) \<noteq> [] \<and> list_all (\<lambda>c. 97 \<le> c \<and> c \<le> 122) (lower (fst wg))" if "wg \<in> set wgs" for wg
    using assms(1,3) that by (auto simp: bip39_law_def list_all_iff)
  have word: "fst wg \<noteq> []" "list_all (\<lambda>c. \<not> js_ws c) (fst wg)" "list_all (\<lambda>c. c < 128) (fst wg)" if "wg \<in> set wgs" for wg
    using typed [OF that] typed_word by (auto simp: lower_def)
  then have plain: "list_all (\<lambda>(w, _). w \<noteq> [] \<and> list_all (\<lambda>c. \<not> js_ws c) w) wgs"
    unfolding list_all_iff [of _ wgs] by (fastforce simp: case_prod_beta)
  have "wgs \<noteq> []" using assms(1,3) by (auto simp: bip39_law_def)
  then have "dropWhile js_ws (spaced wgs) = spaced wgs" using plain
    by (cases wgs; cases "fst (hd wgs)") (auto simp: spaced_def)
  then have "filter (\<lambda>w. w \<noteq> []) (split_ws (lead @ spaced wgs)) = map fst wgs"
    using words_led [OF assms(5)] words_spaced [OF assms(4) plain] by simp
  moreover have "map toLowerCase (map fst wgs) = ws"
    using assms(2,3) word(3) by (auto simp: lower_law_def)
  ultimately have "phrase_words toLowerCase (lead @ spaced wgs) = ws" by (simp add: phrase_words_def)
  moreover have "List.find (\<lambda>w. w \<notin> set (wordlist N)) ws = None"
    using assms(1) by (auto simp: find_None_iff bip39_law_def list_all_iff)
  ultimately show ?thesis using assms(1)
    by (auto simp: phraseToEntropy_def entropyToPhrase_def bip39_law_def Let_def)
qed

lemma demo_bip39: "entropyToMnemonic demo_noble e = Some (join [32] (map (\<lambda>b. [97 + ucast b]) (take 12 e)))"
    "mnemonicToEntropy demo_noble s = Some (map (\<lambda>w. ucast (hd (w @ [97]) - 97)) (split_on 32 s) @ replicate 4 0)"
    "wordlist demo_noble = map (\<lambda>n. [of_nat (97 + n)]) [0..<26]"
  by (simp_all add: demo_noble_def)

theorem phrase_reads_back_witness:
  "entropyToPhrase demo_noble (replicate 12 1 @ replicate 4 0) = Inr (join [32] (replicate 12 (lit ''b''))) \<and>
   phraseToEntropy demo_noble lower ([32] @ spaced (replicate 12 (lit ''B'', [32, 10]))) = Inr (replicate 12 1 @ replicate 4 0)"
proof (rule phrase_reads_back)
  show "bip39_law demo_noble (replicate 12 1 @ replicate 4 0) (replicate 12 (lit ''b''))"
    unfolding bip39_law_def demo_bip39 by code_simp
  show "lower_law lower" by (simp add: lower_law_def)
  show "map (lower \<circ> fst) (replicate 12 (lit ''B'', [32, 10 :: jchar])) = replicate 12 (lit ''b'')" by code_simp
  show "gaps_ok (replicate 12 (lit ''B'', [32, 10]))" by code_simp
  show "list_all js_ws [32]" by code_simp
qed

end
