(* ===== verification/CloudFormat.thy ===== *)
theory CloudFormat
  imports BackupCrypto JsValues JsSort
begin

text \<open>
  The reader of the cloud backup format (\<open>shared/ui/lib/cloud/cloudFormat.js\<close>): signed snapshot records,
  packs, file lists and files. The writer of packs on the Luna side (\<open>PackBuilder\<close> of \<open>format.rs\<close>) is
  modelled next to it, so that reading can be stated as the inverse of writing. \<open>JSON.parse\<close> after
  \<open>TextDecoder.decode\<close> is the argument \<open>json_of\<close> (\<^const>\<open>None\<close> is its SyntaxError). The cache of opened
  packs has a theory of its own.
\<close>

section \<open>Errors and constants\<close>

definition DAMAGED :: jstring where
  "DAMAGED = lit ''Part of this backup can't be read. It may be damaged.''"

definition CHANGED :: jstring where
  "CHANGED = lit ''A backup file doesn't match its fingerprint, so it was not used. Try again later.''"

definition damaged :: jerror where
  "damaged = Thrown DAMAGED"

definition changed :: jerror where
  "changed = Thrown CHANGED"

definition PACK_KEY_WRAP_AAD :: "noble \<Rightarrow> bytes" where
  "PACK_KEY_WRAP_AAD N = utf8ToBytes N (lit ''luna-pack-key-wrap-v1'')"

definition PACK_INDEX_AAD :: "noble \<Rightarrow> bytes" where
  "PACK_INDEX_AAD N = utf8ToBytes N (lit ''luna-pack-index-v1'')"

definition PACK_BODY_AAD :: "noble \<Rightarrow> bytes" where
  "PACK_BODY_AAD N = utf8ToBytes N (lit ''luna-pack-v1'')"

definition TREE_AAD :: "noble \<Rightarrow> bytes" where
  "TREE_AAD N = utf8ToBytes N (lit ''luna-tree-v1'')"

definition META_AAD :: "noble \<Rightarrow> bytes" where
  "META_AAD N = utf8ToBytes N (lit ''luna-meta-v1'')"

definition PACK_VERSION :: byte where [js_eval]: "PACK_VERSION = 1"
definition KEY_LEN :: nat where [js_eval]: "KEY_LEN = 32"
definition ID_LEN :: nat where [js_eval]: "ID_LEN = 32"
definition INDEX_HEADER_LEN :: nat where [js_eval]: "INDEX_HEADER_LEN = 36"
definition INDEX_ENTRY_LEN :: nat where [js_eval]: "INDEX_ENTRY_LEN = 44"

lemmas pack_lens = KEY_LEN_def ID_LEN_def INDEX_HEADER_LEN_def INDEX_ENTRY_LEN_def

definition MAX_SAFE_INTEGER :: nat where [js_eval]: "MAX_SAFE_INTEGER = 2 ^ 53 - 1"

section \<open>Checked reads\<close>

fun sameBytes :: "bytes \<Rightarrow> bytes \<Rightarrow> bool" where
  "sameBytes [] [] = True"
| "sameBytes (x # xs) (y # ys) = (x = y \<and> sameBytes xs ys)"
| "sameBytes _ _ = False"

lemma sameBytes_iff [simp]: "sameBytes a b \<longleftrightarrow> a = b"
  by (induction a b rule: sameBytes.induct) auto

definition u32At :: "bytes \<Rightarrow> nat \<Rightarrow> nat result" where
  "u32At bs pos = (if pos + 4 > length bs then Inl damaged else Inr (be_nat (slice bs pos (pos + 4))))"

definition u64At :: "bytes \<Rightarrow> nat \<Rightarrow> nat result" where
  "u64At bs pos =
     (if pos + 8 > length bs then Inl damaged
      else let big = be_nat (slice bs pos (pos + 8)) in if big > MAX_SAFE_INTEGER then Inl damaged else Inr big)"

definition sliceChecked :: "bytes \<Rightarrow> nat \<Rightarrow> nat \<Rightarrow> bytes result" where
  "sliceChecked bs start len = (if start + len > length bs then Inl damaged else Inr (slice bs start (start + len)))"

section \<open>Packs\<close>

text \<open>An opened pack: its index by the hexadecimal chunk id, and its plain body.\<close>

record pack =
  scopeId :: bytes
  p_entries :: "jstring \<rightharpoonup> nat \<times> nat"
  p_body :: bytes
  p_disposed :: bool

definition pack_chunk :: "noble \<Rightarrow> pack \<Rightarrow> bytes \<Rightarrow> bytes option result" where
  "pack_chunk N p idBytes =
     (if p_disposed p then Inl damaged
      else Inr (map_option (\<lambda>(offset, len). slice (p_body p) offset (offset + len)) (p_entries p (bytesToHex N idBytes))))"

definition pack_dispose :: "pack \<Rightarrow> pack" where
  "pack_dispose p =
     (if p_disposed p then p
      else p\<lparr>p_disposed := True, p_body := replicate (length (p_body p)) 0, p_entries := Map.empty,
             scopeId := replicate (length (scopeId p)) 0\<rparr>)"

text \<open>The loop over the index; \<open>n\<close> entries are left, the next one is number \<open>i\<close>.\<close>

fun index_loop :: "noble \<Rightarrow> bytes \<Rightarrow> nat \<Rightarrow> nat \<Rightarrow> nat \<Rightarrow> (jstring \<rightharpoonup> nat \<times> nat) \<Rightarrow> (jstring \<rightharpoonup> nat \<times> nat) result" where
  "index_loop N index bodyLen i 0 es = Inr es"
| "index_loop N index bodyLen i (Suc n) es =
     (let p = INDEX_HEADER_LEN + i * INDEX_ENTRY_LEN;
          id = bytesToHex N (slice index p (p + ID_LEN))
      in bind_r (u64At index (p + ID_LEN)) (\<lambda>offset.
         bind_r (u32At index (p + ID_LEN + 8)) (\<lambda>len.
         if offset + len > bodyLen then Inl damaged
         else index_loop N index bodyLen (Suc i) n (es(id \<mapsto> (offset, len))))))"

definition read_index :: "noble \<Rightarrow> bytes \<Rightarrow> bytes \<Rightarrow> pack result" where
  "read_index N index body =
     (if length index < INDEX_HEADER_LEN then Inl damaged
      else bind_r (u32At index ID_LEN) (\<lambda>count.
        if length index \<noteq> INDEX_HEADER_LEN + count * INDEX_ENTRY_LEN then Inl damaged
        else bind_r (index_loop N index (length body) 0 count Map.empty) (\<lambda>es.
          Inr \<lparr>scopeId = slice index 0 ID_LEN, p_entries = es, p_body = body, p_disposed = False\<rparr>)))"

definition openPackParts :: "noble \<Rightarrow> bytes \<Rightarrow> (bytes \<Rightarrow> bytes result) \<Rightarrow> pack result" where
  "openPackParts N bs unwrapKey =
     (if bs = [] \<or> hd bs \<noteq> PACK_VERSION then Inl damaged
      else bind_r (u32At bs 1) (\<lambda>wrappedLen.
           bind_r (sliceChecked bs 5 wrappedLen) (\<lambda>wrapped.
           bind_r (unwrapKey wrapped) (\<lambda>packKey.
           if length packKey \<noteq> KEY_LEN then Inl damaged
           else let pos = 5 + wrappedLen
                in bind_r (u32At bs pos) (\<lambda>indexLen.
                   bind_r (sliceChecked bs (pos + 4) indexLen) (\<lambda>sealedIndex.
                   bind_r (decrypt N packKey (PACK_INDEX_AAD N) sealedIndex) (\<lambda>index.
                   bind_r (decrypt N packKey (PACK_BODY_AAD N) (drop (pos + 4 + indexLen) bs)) (\<lambda>body.
                     read_index N index body))))))))"

definition openPackWith :: "noble \<Rightarrow> bytes \<Rightarrow> jstring \<Rightarrow> (bytes \<Rightarrow> bytes result) \<Rightarrow> pack result" where
  "openPackWith N bs idHex unwrapKey =
     (if bytesToHex N (packId N bs) \<noteq> idHex then Inl changed
      else (case openPackParts N bs unwrapKey of
              Inl MissingKey \<Rightarrow> Inl MissingKey
            | Inl _ \<Rightarrow> Inl damaged
            | Inr p \<Rightarrow> Inr p))"

definition unwrapWithBackupKey :: "noble \<Rightarrow> bytes \<Rightarrow> bytes \<Rightarrow> bytes result" where
  "unwrapWithBackupKey N backupKey wrapped = decrypt N backupKey (PACK_KEY_WRAP_AAD N) wrapped"

definition openPack :: "noble \<Rightarrow> bytes \<Rightarrow> jstring \<Rightarrow> bytes \<Rightarrow> pack result" where
  "openPack N bs idHex backupKey = openPackWith N bs idHex (unwrapWithBackupKey N backupKey)"

fun unwrapWithAnyKey :: "noble \<Rightarrow> bytes list \<Rightarrow> bytes \<Rightarrow> bytes result" where
  "unwrapWithAnyKey N [] wrapped = Inl MissingKey"
| "unwrapWithAnyKey N (key # keys) wrapped =
     (case decrypt N key (PACK_KEY_WRAP_AAD N) wrapped of
        Inr k \<Rightarrow> Inr k
      | Inl _ \<Rightarrow> unwrapWithAnyKey N keys wrapped)"

text \<open>The keys of \<open>makePackReaderForVersions\<close>, by key version, in the order they are tried.\<close>

definition newestFirst :: "(nat \<times> bytes) list \<Rightarrow> bytes list" where
  "newestFirst keysByVersion = map snd (sort_by (\<lambda>a b. int (fst b) - int (fst a)) keysByVersion)"

section \<open>File lists\<close>

record chunk_ref =
  c_id :: jstring
  c_pack :: jstring
  c_offset :: int
  c_len :: int

record tree_entry =
  e_path :: jstring
  e_size :: int
  e_mtime :: int
  e_chunks :: "chunk_ref list"

definition safe_integer :: "json option \<Rightarrow> int option" where
  "safe_integer v =
     (case v of
        Some (JNum (Fin q)) \<Rightarrow> if of_int \<lfloor>q\<rfloor> = q \<and> \<bar>\<lfloor>q\<rfloor>\<bar> \<le> int MAX_SAFE_INTEGER then Some \<lfloor>q\<rfloor> else None
      | _ \<Rightarrow> None)"

definition is_hex64 :: "jstring \<Rightarrow> bool" where
  [js_eval]: "is_hex64 s \<longleftrightarrow> length s = 64 \<and> list_all (\<lambda>c. 48 \<le> c \<and> c \<le> 57 \<or> 97 \<le> c \<and> c \<le> 102) s"

definition text_prop :: "json \<Rightarrow> jstring \<Rightarrow> jstring option" where
  "text_prop v key = (case get_prop v key of Some (JStr s) \<Rightarrow> Some s | _ \<Rightarrow> None)"

text \<open>Reading a property of \<open>null\<close> throws; every error of a reader below is turned into \<open>DAMAGED\<close>.\<close>

definition parse_chunk :: "json \<Rightarrow> chunk_ref result" where
  "parse_chunk c =
     (case (text_prop c (lit ''id''), text_prop c (lit ''pack''), safe_integer (get_prop c (lit ''offset'')),
            safe_integer (get_prop c (lit ''len''))) of
        (Some i, Some p, Some off, Some l) \<Rightarrow>
          if is_hex64 i \<and> is_hex64 p then Inr \<lparr>c_id = i, c_pack = p, c_offset = off, c_len = l\<rparr> else Inl damaged
      | _ \<Rightarrow> Inl damaged)"

definition parseTreeEntry :: "json \<Rightarrow> tree_entry result" where
  "parseTreeEntry e =
     (case (text_prop e (lit ''path''), safe_integer (get_prop e (lit ''size'')), safe_integer (get_prop e (lit ''mtime''))) of
        (Some path, Some sz, Some mtime) \<Rightarrow>
          (case get_prop e (lit ''chunks'') of
             Some (JArr cs) \<Rightarrow>
               bind_r (map_r parse_chunk cs) (\<lambda>chunks.
                 Inr \<lparr>e_path = path, e_size = sz, e_mtime = mtime, e_chunks = chunks\<rparr>)
           | _ \<Rightarrow> Inl damaged)
      | _ \<Rightarrow> Inl damaged)"

definition readRawTreeWith ::
  "noble \<Rightarrow> (bytes \<Rightarrow> json option) \<Rightarrow> bytes \<Rightarrow> jstring \<Rightarrow> bytes \<Rightarrow> (bytes \<Rightarrow> bytes result) \<Rightarrow> (bytes \<Rightarrow> bytes result) \<Rightarrow> json result" where
  "readRawTreeWith N json_of treePackBytes treePackId treeHash unwrapKey openTreeBytes =
     bind_r (openPackWith N treePackBytes treePackId unwrapKey) (\<lambda>pack.
     bind_r (pack_chunk N pack treeHash) (\<lambda>sealed.
     (case sealed of
        None \<Rightarrow> Inl damaged
      | Some s \<Rightarrow>
          if \<not> sameBytes (sha256 N s) treeHash then Inl changed
          else rethrow damaged (bind_r (openTreeBytes s) (\<lambda>plain. of_lib (json_of plain))))))"

definition readTreeWith ::
  "noble \<Rightarrow> (bytes \<Rightarrow> json option) \<Rightarrow> bytes \<Rightarrow> jstring \<Rightarrow> bytes \<Rightarrow> (bytes \<Rightarrow> bytes result) \<Rightarrow> (bytes \<Rightarrow> bytes result) \<Rightarrow> tree_entry list result" where
  "readTreeWith N json_of treePackBytes treePackId treeHash unwrapKey openTreeBytes =
     bind_r (readRawTreeWith N json_of treePackBytes treePackId treeHash unwrapKey openTreeBytes) (\<lambda>tree.
     (case get_prop tree (lit ''entries'') of
        Some (JArr es) \<Rightarrow> rethrow damaged (map_r parseTreeEntry es)
      | _ \<Rightarrow> Inl damaged))"

definition readTree :: "noble \<Rightarrow> (bytes \<Rightarrow> json option) \<Rightarrow> bytes \<Rightarrow> jstring \<Rightarrow> bytes \<Rightarrow> bytes \<Rightarrow> tree_entry list result" where
  "readTree N json_of treePackBytes treePackId treeHash backupKey =
     readTreeWith N json_of treePackBytes treePackId treeHash (unwrapWithBackupKey N backupKey)
       (decrypt N backupKey (TREE_AAD N))"

section \<open>Files\<close>

text \<open>
  \<open>readPack\<close> gives the lease of a pack, here the function that reads a chunk of it. The second part of
  the result is the sequence of leases taken and released.
\<close>

datatype lease_event = Leased jstring | Released jstring

definition check_chunk :: "noble \<Rightarrow> bytes \<Rightarrow> chunk_ref \<Rightarrow> (bytes \<Rightarrow> bytes option result) \<Rightarrow> bytes result" where
  "check_chunk N dedupKey c chunk =
     bind_r (of_lib (hexToBytes N (c_id c))) (\<lambda>id.
     bind_r (chunk id) (\<lambda>found.
     (case found of
        None \<Rightarrow> Inl damaged
      | Some bs \<Rightarrow>
          if int (length bs) \<noteq> c_len c then Inl damaged
          else if bytesToHex N (chunkId N dedupKey bs) \<noteq> c_id c then Inl changed
          else Inr bs)))"

fun read_chunks ::
  "noble \<Rightarrow> (jstring \<Rightarrow> (bytes \<Rightarrow> bytes option result) result) \<Rightarrow> bytes \<Rightarrow> chunk_ref list \<Rightarrow> bytes list \<Rightarrow> bytes list result \<times> lease_event list" where
  "read_chunks N readPack dedupKey [] parts = (Inr parts, [])"
| "read_chunks N readPack dedupKey (c # cs) parts =
     (case readPack (c_pack c) of
        Inl e \<Rightarrow> (Inl e, [])
      | Inr chunk \<Rightarrow>
          let log = [Leased (c_pack c), Released (c_pack c)]
          in (case check_chunk N dedupKey c chunk of
                Inl e \<Rightarrow> (Inl e, log)
              | Inr bs \<Rightarrow>
                  let (r, more) = read_chunks N readPack dedupKey cs (parts @ [bs])
                  in (r, log @ more)))"

definition readFile ::
  "noble \<Rightarrow> tree_entry \<Rightarrow> (jstring \<Rightarrow> (bytes \<Rightarrow> bytes option result) result) \<Rightarrow> bytes \<Rightarrow> bytes result \<times> lease_event list" where
  "readFile N entry readPack dedupKey =
     (let (r, log) = read_chunks N readPack dedupKey (e_chunks entry) []
      in (bind_r r (\<lambda>parts.
            if int (sum_list (map length parts)) \<noteq> e_size entry then Inl damaged else Inr (concat parts)), log))"

section \<open>Snapshot records\<close>

text \<open>
  \<open>BigInt(v)\<close>: an integral number, a truth value, or a text of digits (an array is first joined to a
  text). \<open>setUint32\<close> reads its value as a number and keeps it modulo \<open>2 ^ 32\<close>.
\<close>

definition str_bigint :: "jstring \<Rightarrow> int option" where
  "str_bigint t =
     (let s = trim t; neg = s \<noteq> [] \<and> hd s = 45; body = (if s \<noteq> [] \<and> (hd s = 45 \<or> hd s = 43) then tl s else s)
      in if s = [] then Some 0
         else (case prefixed s of
                 Some b \<Rightarrow> (if drop 2 s \<noteq> [] \<and> list_all (base_digit b) (drop 2 s) then Some (int (digits_value b (drop 2 s))) else None)
               | None \<Rightarrow> (if body \<noteq> [] \<and> list_all js_digit body
                          then Some ((if neg then - 1 else 1) * int (digits_value 10 body)) else None)))"

fun big_int :: "json \<Rightarrow> int option" where
  "big_int JNull = None"
| "big_int (JBool b) = Some (if b then 1 else 0)"
| "big_int (JNum (Fin q)) = (if of_int \<lfloor>q\<rfloor> = q then Some \<lfloor>q\<rfloor> else None)"
| "big_int (JNum _) = None"
| "big_int (JStr s) = str_bigint s"
| "big_int (JObj ps) = None"
| "big_int (JArr []) = Some 0"
| "big_int (JArr [JNull]) = Some 0"
| "big_int (JArr [JBool b]) = None"
| "big_int (JArr [JNum (Fin q)]) = (if of_int \<lfloor>q\<rfloor> = q \<and> \<bar>q\<bar> < 10 ^ 21 then Some \<lfloor>q\<rfloor> else None)"
| "big_int (JArr [JNum _]) = None"
| "big_int (JArr [JStr s]) = str_bigint s"
| "big_int (JArr [JObj ps]) = None"
| "big_int (JArr [JArr vs]) = big_int (JArr vs)"
| "big_int (JArr (v # w # vs)) = None"

definition to_uint32 :: "jnum \<Rightarrow> nat" where
  "to_uint32 n =
     (case n of Fin q \<Rightarrow> nat ((if 0 \<le> q then \<lfloor>q\<rfloor> else - \<lfloor>- q\<rfloor>) mod 2 ^ 32) | _ \<Rightarrow> 0)"

text \<open>\<open>createdAt\<close> and \<open>keyVersion\<close> are kept as the record has them.\<close>

record snapshot =
  s_lunaId :: jstring
  s_protectionId :: jstring
  s_snapshotId :: jstring
  s_createdAt :: "json option"
  s_keyVersion :: "json option"
  s_treePackId :: jstring
  s_treeHash :: bytes
  s_meta :: bytes

definition created_bytes :: "json option \<Rightarrow> bytes result" where
  "created_bytes v = bind_r (of_lib (Option.bind v big_int)) (\<lambda>i. Inr (be_bytes 8 (nat (i mod 2 ^ 64))))"

definition snapshotSignedBytes :: "noble \<Rightarrow> snapshot \<Rightarrow> bytes result" where
  "snapshotSignedBytes N rec =
     bind_r (created_bytes (s_createdAt rec)) (\<lambda>createdAt.
     bind_r (of_lib (hexToBytes N (s_treePackId rec))) (\<lambda>treePackId.
       Inr (canonical N
         [(lit ''luna_id'', utf8ToBytes N (s_lunaId rec)),
          (lit ''protection_id'', utf8ToBytes N (s_protectionId rec)),
          (lit ''snapshot_id'', utf8ToBytes N (s_snapshotId rec)),
          (lit ''created_at'', createdAt),
          (lit ''key_version'', be_bytes 4 (to_uint32 (opt_number (s_keyVersion rec)))),
          (lit ''tree_pack_id'', treePackId),
          (lit ''tree_hash'', s_treeHash rec),
          (lit ''meta'', s_meta rec)])))"

text \<open>\<open>hexToBytes\<close> throws on anything that is not a text.\<close>

definition hex_prop :: "noble \<Rightarrow> json \<Rightarrow> jstring \<Rightarrow> bytes option" where
  "hex_prop N v key = Option.bind (text_prop v key) (hexToBytes N)"

definition snapshot_view :: "noble \<Rightarrow> json \<Rightarrow> jstring \<Rightarrow> snapshot option" where
  "snapshot_view N rec lunaId =
     (if text_prop rec (lit ''luna_id'') \<noteq> Some lunaId then None
      else (case (hex_prop N rec (lit ''tree_pack_id''), hex_prop N rec (lit ''tree_hash'')) of
              (Some treePackId, Some treeHash) \<Rightarrow>
                if length treePackId \<noteq> ID_LEN \<or> length treeHash \<noteq> ID_LEN then None
                else (case (text_prop rec (lit ''protection_id''), text_prop rec (lit ''snapshot_id''), hex_prop N rec (lit ''meta'')) of
                        (Some prot, Some snap, Some meta) \<Rightarrow>
                          Some \<lparr>s_lunaId = lunaId, s_protectionId = prot, s_snapshotId = snap,
                                s_createdAt = get_prop rec (lit ''created_at''), s_keyVersion = get_prop rec (lit ''key_version''),
                                s_treePackId = bytesToHex N treePackId, s_treeHash = treeHash, s_meta = meta\<rparr>
                      | _ \<Rightarrow> None)
            | _ \<Rightarrow> None))"

definition verifySnapshot ::
  "noble \<Rightarrow> (bytes \<Rightarrow> json option) \<Rightarrow> bytes \<Rightarrow> bytes list \<Rightarrow> jstring \<Rightarrow> jstring \<Rightarrow> snapshot option" where
  "verifySnapshot N json_of bs signingPublics lunaId domain =
     (case json_of bs of
        None \<Rightarrow> None
      | Some obj \<Rightarrow>
          (case get_prop obj (lit ''record'') of
             None \<Rightarrow> None
           | Some rec \<Rightarrow>
               (case snapshot_view N rec lunaId of
                  None \<Rightarrow> None
                | Some view \<Rightarrow>
                    (case (snapshotSignedBytes N view, hex_prop N obj (lit ''signature'')) of
                       (Inr msg, Some signature) \<Rightarrow>
                         if list_ex (\<lambda>pub. verify N pub domain msg signature) signingPublics then Some view else None
                     | _ \<Rightarrow> None))))"

record backup_meta =
  m_name :: jstring
  m_sourceDrive :: jstring
  m_sourcePath :: jstring
  m_startedBy :: jstring
  m_startedByName :: jstring

definition meta_text :: "json option \<Rightarrow> jstring" where
  "meta_text v = (case v of Some (JStr s) \<Rightarrow> s | _ \<Rightarrow> [])"

definition decryptMeta :: "noble \<Rightarrow> (bytes \<Rightarrow> json option) \<Rightarrow> bytes \<Rightarrow> bytes \<Rightarrow> backup_meta result" where
  "decryptMeta N json_of meta key =
     rethrow damaged
       (bind_r (decrypt N key (META_AAD N) meta) (\<lambda>plain.
        bind_r (of_lib (json_of plain)) (\<lambda>parsed.
        if parsed = JNull then Inl LibError
        else let field = (\<lambda>k. meta_text (get_prop parsed (lit k)))
             in Inr \<lparr>m_name = field ''name'', m_sourceDrive = field ''source_drive'', m_sourcePath = field ''source_path'',
                     m_startedBy = field ''started_by'', m_startedByName = field ''started_by_name''\<rparr>)))"

section \<open>The writer of packs\<close>

text \<open>
  \<open>PackBuilder\<close> of \<open>format.rs\<close>; \<^const>\<open>None\<close> is a panic. \<open>aead\<close> is the cipher of the Rust crate, the
  pack key and the nonces are what the random source of the system gives.
\<close>

record pack_builder =
  b_scope_id :: bytes
  b_plain :: bytes
  b_entries :: "(bytes \<times> nat \<times> nat) list"

definition builder_new :: "bytes \<Rightarrow> pack_builder" where
  "builder_new scope = \<lparr>b_scope_id = scope, b_plain = [], b_entries = []\<rparr>"

definition builder_add :: "bytes \<times> bytes \<Rightarrow> pack_builder \<Rightarrow> pack_builder option" where
  "builder_add c b =
     (let (chunk_id, plain) = c; offset = length (b_plain b)
      in if length plain < 2 ^ 32
         then Some (b\<lparr>b_plain := b_plain b @ plain, b_entries := b_entries b @ [(chunk_id, offset, length plain)]\<rparr>)
         else None)"

fun builder_add_all :: "(bytes \<times> bytes) list \<Rightarrow> pack_builder \<Rightarrow> pack_builder option" where
  "builder_add_all [] b = Some b"
| "builder_add_all (c # cs) b = Option.bind (builder_add c b) (builder_add_all cs)"

definition push_len :: "nat \<Rightarrow> bytes option" where
  "push_len len = (if len < 2 ^ 32 then Some (be_bytes 4 len) else None)"

definition encode_index :: "bytes \<Rightarrow> (bytes \<times> nat \<times> nat) list \<Rightarrow> bytes option" where
  "encode_index scope_id entries =
     map_option (\<lambda>count. scope_id @ count @ concat (map (\<lambda>(i, off, len). i @ be_bytes 8 off @ be_bytes 4 len) entries))
       (push_len (length entries))"

definition rust_encrypt :: "(bytes \<Rightarrow> bytes \<Rightarrow> bytes \<Rightarrow> bytes \<Rightarrow> bytes) \<Rightarrow> bytes \<Rightarrow> bytes \<Rightarrow> bytes \<Rightarrow> bytes \<Rightarrow> bytes" where
  "rust_encrypt aead key nonce aad msg = nonce @ aead key nonce aad msg"

definition builder_finish ::
  "noble \<Rightarrow> (bytes \<Rightarrow> bytes \<Rightarrow> bytes \<Rightarrow> bytes \<Rightarrow> bytes) \<Rightarrow> bytes \<Rightarrow> bytes \<Rightarrow> bytes \<Rightarrow> (bytes \<Rightarrow> bytes) \<Rightarrow> pack_builder \<Rightarrow> bytes option" where
  "builder_finish N aead pack_key nonce1 nonce2 pack_key_wrap b =
     (let wrapped = pack_key_wrap pack_key
      in Option.bind (encode_index (b_scope_id b) (b_entries b)) (\<lambda>index.
         let sealed_index = rust_encrypt aead pack_key nonce1 (PACK_INDEX_AAD N) index;
             body = rust_encrypt aead pack_key nonce2 (PACK_BODY_AAD N) (b_plain b)
         in Option.bind (push_len (length wrapped)) (\<lambda>wl.
            Option.bind (push_len (length sealed_index)) (\<lambda>il.
              Some ([PACK_VERSION] @ wl @ wrapped @ il @ sealed_index @ body)))))"

section \<open>Reads stay inside the pack\<close>

definition pack_ok :: "pack \<Rightarrow> bool" where
  "pack_ok p \<longleftrightarrow> (\<forall>h off len. p_entries p h = Some (off, len) \<longrightarrow> off + len \<le> length (p_body p))"

lemma index_loop_bounds:
  assumes "index_loop N index bodyLen i n es = Inr es'" "\<And>h off len. es h = Some (off, len) \<Longrightarrow> off + len \<le> bodyLen"
    and "es' h = Some (off, len)"
  shows "off + len \<le> bodyLen"
  using assms
proof (induction n arbitrary: i es)
  case (Suc n)
  obtain k off' len' where b: "off' + len' \<le> bodyLen" and r: "index_loop N index bodyLen (Suc i) n (es(k \<mapsto> (off', len'))) = Inr es'"
    using Suc.prems(1) by (auto simp: Let_def bind_r_Inr_iff not_less split: if_splits)
  show ?case by (rule Suc.IH [OF r _ Suc.prems(3)]) (use b Suc.prems(2) in \<open>auto split: if_splits\<close>)
qed simp

lemma openPackWith_Inr:
  "openPackWith N bs idHex unwrapKey = Inr p \<longleftrightarrow> bytesToHex N (packId N bs) = idHex \<and> openPackParts N bs unwrapKey = Inr p"
  by (auto simp: openPackWith_def split: sum.splits jerror.splits)

lemma read_index_Inr:
  "read_index N index body = Inr p \<Longrightarrow> pack_ok p \<and> \<not> p_disposed p \<and> p_body p = body"
  using index_loop_bounds [of N index "length body" 0 _ Map.empty]
  by (auto simp: read_index_def bind_r_Inr_iff pack_ok_def split: if_splits)

lemma openPackParts_Inr: "openPackParts N bs unwrapKey = Inr p \<Longrightarrow> pack_ok p \<and> \<not> p_disposed p"
  using read_index_Inr by (auto simp: openPackParts_def bind_r_Inr_iff Let_def split: if_splits)

text \<open>
  Property C25: a pack that opens hands out a chunk only as the bytes its index names, and those lie inside
  its body: a chunk is never cut short, whatever the index says.
\<close>

theorem chunk_inside_body:
  assumes "openPackWith N bs idHex unwrapKey = Inr p" "pack_chunk N p cid = Inr (Some c)"
  shows "\<exists>off. p_entries p (bytesToHex N cid) = Some (off, length c) \<and> off + length c \<le> length (p_body p) \<and>
    c = take (length c) (drop off (p_body p))"
proof -
  have ok: "pack_ok p" "\<not> p_disposed p" using assms(1) openPackParts_Inr by (auto simp: openPackWith_Inr)
  then obtain off len where e: "p_entries p (bytesToHex N cid) = Some (off, len)" "c = slice (p_body p) off (off + len)"
    using assms(2) by (auto simp: pack_chunk_def split: if_splits)
  moreover have "off + len \<le> length (p_body p)" using ok(1) e(1) by (auto simp: pack_ok_def)
  ultimately show ?thesis by (auto simp: slice_def)
qed

section \<open>Errors of opening\<close>

definition wrapped_key :: "bytes \<Rightarrow> bytes option" where
  "wrapped_key bs =
     (if bs = [] \<or> hd bs \<noteq> PACK_VERSION \<or> length bs < 5 \<or> length bs < 5 + be_nat (slice bs 1 5) then None
      else Some (slice bs 5 (5 + be_nat (slice bs 1 5))))"

lemma decrypt_not_missing: "decrypt N key aad sealed \<noteq> Inl MissingKey"
  by (auto simp: decrypt_def rethrow_Inl_iff)

lemma damaged_not_missing [simp]: "damaged \<noteq> MissingKey" "MissingKey \<noteq> damaged" "changed \<noteq> MissingKey" "MissingKey \<noteq> changed"
  by (simp_all add: damaged_def changed_def)

lemma changed_not_damaged [simp]: "changed \<noteq> damaged" "damaged \<noteq> changed"
proof -
  have "CHANGED \<noteq> DAMAGED" by code_simp
  then show "changed \<noteq> damaged" "damaged \<noteq> changed" by (auto simp: damaged_def changed_def)
qed

lemma bind_r_Inl_iff: "bind_r m f = Inl e \<longleftrightarrow> m = Inl e \<or> (\<exists>x. m = Inr x \<and> f x = Inl e)"
  by (cases m) auto

lemma u32At_missing [simp]: "u32At bs p \<noteq> Inl MissingKey"
  by (simp add: u32At_def)

lemma u64At_missing [simp]: "u64At bs p \<noteq> Inl MissingKey"
  by (simp add: u64At_def Let_def)

lemma sliceChecked_missing [simp]: "sliceChecked bs a l \<noteq> Inl MissingKey"
  by (simp add: sliceChecked_def)

lemma index_loop_missing: "index_loop N index bodyLen i n es \<noteq> Inl MissingKey"
  by (induction n arbitrary: i es) (auto simp: Let_def bind_r_Inl_iff)

lemma read_index_missing: "read_index N index body \<noteq> Inl MissingKey"
  using index_loop_missing by (auto simp: read_index_def bind_r_Inl_iff)

lemma openPackParts_missing_iff:
  "openPackParts N bs unwrapKey = Inl MissingKey \<longleftrightarrow> (\<exists>w. wrapped_key bs = Some w \<and> unwrapKey w = Inl MissingKey)"
  using read_index_missing decrypt_not_missing
  by (auto simp: openPackParts_def bind_r_Inl_iff Let_def wrapped_key_def u32At_def sliceChecked_def not_less)

lemma openPackWith_range: "openPackWith N bs idHex unwrapKey \<in> {Inl changed, Inl MissingKey, Inl damaged} \<union> range Inr"
  by (auto simp: openPackWith_def split: sum.splits jerror.splits)

lemma any_key_missing_iff:
  "unwrapWithAnyKey N keys w = Inl MissingKey \<longleftrightarrow> list_all (\<lambda>key. \<exists>e. decrypt N key (PACK_KEY_WRAP_AAD N) w = Inl e) keys"
  by (induction keys) (auto split: sum.splits)

lemma openPackWith_missing_iff:
  "openPackWith N bs idHex unwrapKey = Inl MissingKey \<longleftrightarrow>
     bytesToHex N (packId N bs) = idHex \<and> (\<exists>w. wrapped_key bs = Some w \<and> unwrapKey w = Inl MissingKey)"
  using openPackParts_missing_iff [of N bs unwrapKey] by (auto simp: openPackWith_def split: sum.splits jerror.splits)

lemma openPackWith_changed_iff: "openPackWith N bs idHex unwrapKey = Inl changed \<longleftrightarrow> bytesToHex N (packId N bs) \<noteq> idHex"
  by (auto simp: openPackWith_def split: sum.splits jerror.splits)

text \<open>
  Property C26: opening a pack with the keys of all versions fails in one of three ways. \<open>CHANGED\<close> means exactly that
  the bytes do not have the fingerprint; a missing key is reported exactly when the fingerprint is right, the
  header can be read and none of the keys decrypts the wrapped pack key; everything else is \<open>DAMAGED\<close>.
  With a single backup key a key that does not fit is not told apart: it is \<open>DAMAGED\<close> too.
\<close>

theorem open_pack_errors:
  "(openPackWith N bs idHex (unwrapWithAnyKey N keys) = Inl changed \<longleftrightarrow> bytesToHex N (packId N bs) \<noteq> idHex) \<and>
   (openPackWith N bs idHex (unwrapWithAnyKey N keys) = Inl MissingKey \<longleftrightarrow>
      bytesToHex N (packId N bs) = idHex \<and>
      (\<exists>w. wrapped_key bs = Some w \<and> list_all (\<lambda>key. \<exists>e. decrypt N key (PACK_KEY_WRAP_AAD N) w = Inl e) keys)) \<and>
   openPackWith N bs idHex (unwrapWithAnyKey N keys) \<in> {Inl changed, Inl MissingKey, Inl damaged} \<union> range Inr \<and>
   openPack N bs idHex backupKey \<in> {Inl changed, Inl damaged} \<union> range Inr"
proof -
  have "openPack N bs idHex backupKey \<noteq> Inl MissingKey"
    by (simp add: openPack_def openPackWith_missing_iff unwrapWithBackupKey_def decrypt_not_missing)
  then have "openPack N bs idHex backupKey \<in> {Inl changed, Inl damaged} \<union> range Inr"
    using openPackWith_range [of N bs idHex "unwrapWithBackupKey N backupKey"] by (auto simp: openPack_def)
  then show ?thesis
    by (intro conjI openPackWith_changed_iff openPackWith_range) (simp_all add: openPackWith_missing_iff any_key_missing_iff)
qed

section \<open>What Luna writes, the browser reads\<close>

definition cipher_agrees :: "noble \<Rightarrow> (bytes \<Rightarrow> bytes \<Rightarrow> bytes \<Rightarrow> bytes \<Rightarrow> bytes) \<Rightarrow> bool" where
  "cipher_agrees N aead \<longleftrightarrow> (\<forall>k n a m. length k = 32 \<longrightarrow> length n = 24 \<longrightarrow>
     length (aead k n a m) = length m + 16 \<and> xchacha_decrypt N k n a (aead k n a m) = Some m)"

definition hex_law :: "noble \<Rightarrow> bool" where
  "hex_law N \<longleftrightarrow> (\<forall>bs. hexToBytes N (bytesToHex N bs) = Some bs)"

lemma hex_inj: "hex_law N \<Longrightarrow> bytesToHex N a = bytesToHex N b \<longleftrightarrow> a = b"
  by (metis hex_law_def option.inject)

lemma decrypt_rust:
  assumes "cipher_agrees N aead" "length k = 32" "length n = 24"
  shows "decrypt N k a (rust_encrypt aead k n a m) = Inr m"
  using assms by (simp add: cipher_agrees_def decrypt_def rust_encrypt_def crypto_lens slice_def aeadDecrypt_def)

lemma u32At_here: "length xs = p \<Longrightarrow> n < 2 ^ 32 \<Longrightarrow> u32At (xs @ be_bytes 4 n @ ys) p = Inr n"
  by (simp add: u32At_def slice_at be_nat_be_bytes)

lemma u64At_here: "length xs = p \<Longrightarrow> n \<le> MAX_SAFE_INTEGER \<Longrightarrow> u64At (xs @ be_bytes 8 n @ ys) p = Inr n"
  by (simp add: u64At_def slice_at be_nat_be_bytes MAX_SAFE_INTEGER_def Let_def)

lemma sliceChecked_here: "length xs = p \<Longrightarrow> length ys = l \<Longrightarrow> sliceChecked (xs @ ys @ zs) p l = Inr ys"
  by (simp add: sliceChecked_def slice_at)

definition entry_bytes :: "bytes \<times> nat \<times> nat \<Rightarrow> bytes" where
  "entry_bytes e = (case e of (i, off, len) \<Rightarrow> i @ be_bytes 8 off @ be_bytes 4 len)"

definition entries_fit :: "nat \<Rightarrow> (bytes \<times> nat \<times> nat) list \<Rightarrow> bool" where
  "entries_fit n es = list_all (\<lambda>(i, off, len). length i = 32 \<and> len < 2 ^ 32 \<and> off \<le> MAX_SAFE_INTEGER \<and> off + len \<le> n) es"

lemma length_entry_bytes: "entries_fit n es \<Longrightarrow> length (concat (map entry_bytes es)) = length es * 44"
  by (induction es) (auto simp: entries_fit_def entry_bytes_def)

lemma index_loop_reads:
  "length hdr = 36 \<Longrightarrow> entries_fit n (done @ es) \<Longrightarrow>
   index_loop N (hdr @ concat (map entry_bytes (done @ es))) n (length done) (length es) m =
     Inr (m ++ map_of (rev (map (\<lambda>(i, off, len). (bytesToHex N i, (off, len))) es)))"
proof (induction es arbitrary: "done" m)
  case (Cons e es)
  obtain i off len where e: "e = (i, off, len)" by (cases e)
  have fit: "length i = 32" "len < 2 ^ 32" "off \<le> MAX_SAFE_INTEGER" "off + len \<le> n" and df: "entries_fit n done"
    using Cons.prems(2) by (simp_all add: entries_fit_def e)
  let ?pre = "hdr @ concat (map entry_bytes done)" and ?post = "concat (map entry_bytes es)"
  let ?ix = "hdr @ concat (map entry_bytes (done @ e # es))"
  have pre: "length ?pre = 36 + length done * 44" using Cons.prems(1) length_entry_bytes [OF df] by simp
  have ix: "?ix = ?pre @ i @ be_bytes 8 off @ be_bytes 4 len @ ?post" by (simp add: e entry_bytes_def)
  have id: "slice ?ix (36 + length done * 44) (36 + length done * 44 + 32) = i"
    unfolding ix using pre fit(1) by (intro slice_at) simp_all
  have off: "u64At ?ix (36 + length done * 44 + 32) = Inr off"
    unfolding ix using u64At_here [of "?pre @ i" "36 + length done * 44 + 32" off "be_bytes 4 len @ ?post"] pre fit by simp
  have len: "u32At ?ix (36 + length done * 44 + 32 + 8) = Inr len"
    unfolding ix using u32At_here [of "?pre @ i @ be_bytes 8 off" "36 + length done * 44 + 32 + 8" len ?post] pre fit by simp
  have "index_loop N ?ix n (length done) (length (e # es)) m =
      index_loop N (hdr @ concat (map entry_bytes ((done @ [e]) @ es))) n (length (done @ [e])) (length es) (m(bytesToHex N i \<mapsto> (off, len)))"
    using id off len fit(4) by (simp add: pack_lens Let_def)
  also have "\<dots> = Inr (m(bytesToHex N i \<mapsto> (off, len)) ++ map_of (rev (map (\<lambda>(i, off, len). (bytesToHex N i, (off, len))) es)))"
    using Cons.prems by (intro Cons.IH) simp_all
  finally show ?case by (simp add: e)
qed simp

fun layout :: "nat \<Rightarrow> (bytes \<times> bytes) list \<Rightarrow> (bytes \<times> nat \<times> nat) list" where
  "layout off [] = []"
| "layout off ((i, p) # cs) = (i, off, length p) # layout (off + length p) cs"

definition plain_of :: "(bytes \<times> bytes) list \<Rightarrow> bytes" where
  "plain_of cs = concat (map snd cs)"

lemma plain_of_simps [simp]: "plain_of [] = []" "plain_of (c # cs) = snd c @ plain_of cs" "plain_of (xs @ ys) = plain_of xs @ plain_of ys"
  by (simp_all add: plain_of_def)

lemma length_layout [simp]: "length (layout off cs) = length cs"
  by (induction off cs rule: layout.induct) simp_all

lemma layout_append: "layout off (cs @ ds) = layout off cs @ layout (off + length (plain_of cs)) ds"
  by (induction off cs rule: layout.induct) (simp_all add: add.assoc)

lemma builder_add_all_eq:
  "list_all (\<lambda>(i, p). length p < 2 ^ 32) cs \<Longrightarrow>
   builder_add_all cs b = Some (b\<lparr>b_plain := b_plain b @ plain_of cs, b_entries := b_entries b @ layout (length (b_plain b)) cs\<rparr>)"
proof (induction cs arbitrary: b)
  case (Cons c cs)
  obtain i p where c: "c = (i, p)" by force
  have "builder_add c b = Some (b\<lparr>b_plain := b_plain b @ p, b_entries := b_entries b @ [(i, length (b_plain b), length p)]\<rparr>)"
    using Cons.prems by (simp add: c builder_add_def Let_def)
  then show ?case using Cons by (simp add: c)
qed simp

lemma layout_fits:
  "list_all (\<lambda>(i, p). length i = 32 \<and> length p < 2 ^ 32) cs \<Longrightarrow> off + length (plain_of cs) \<le> MAX_SAFE_INTEGER \<Longrightarrow>
   entries_fit (off + length (plain_of cs)) (layout off cs)"
proof (induction off cs rule: layout.induct)
  case (2 off i p cs)
  then have "entries_fit (off + length p + length (plain_of cs)) (layout (off + length p) cs)" by (simp add: add.assoc)
  then show ?case using 2 by (simp add: entries_fit_def add.assoc)
qed (simp add: entries_fit_def)

definition hex_entry :: "noble \<Rightarrow> bytes \<times> nat \<times> nat \<Rightarrow> jstring \<times> nat \<times> nat" where
  "hex_entry N e = (case e of (i, off, len) \<Rightarrow> (bytesToHex N i, (off, len)))"

lemma hex_entry_simp [simp]: "hex_entry N (i, off, len) = (bytesToHex N i, (off, len))"
  by (simp add: hex_entry_def)

lemma layout_lookup:
  assumes "hex_law N"
  shows "map_option (\<lambda>(off, len). slice (plain_of cs) off (off + len)) (map_of (rev (map (hex_entry N) (layout 0 cs))) (bytesToHex N i)) =
    map_of (rev cs) i"
proof (induction cs rule: rev_induct)
  case (snoc c cs)
  obtain j p where c: "c = (j, p)" by force
  let ?m = "map_of (rev (map (hex_entry N) (layout 0 cs)))"
  show ?case
  proof (cases "i = j")
    case True
    then show ?thesis by (simp add: c layout_append slice_def)
  next
    case False
    then have ne: "bytesToHex N i \<noteq> bytesToHex N j" using hex_inj [OF assms] by simp
    have bound: "off + len \<le> length (plain_of ds)" if "map_of (rev (map (hex_entry N) (layout 0 ds))) h = Some (off, len)" for off len h ds
      using that
    proof (induction ds rule: rev_induct)
      case (snoc d ds)
      then show ?case by (cases d) (auto simp: layout_append split: if_splits)
    qed simp
    have "slice (plain_of cs @ p) off (off + len) = slice (plain_of cs) off (off + len)" if "?m h = Some (off, len)" for off len h
      using bound [OF that] by (simp add: slice_def)
    then have "map_option (\<lambda>(off, len). slice (plain_of cs @ p) off (off + len)) (?m (bytesToHex N i)) = map_of (rev cs) i"
      using snoc by (cases "?m (bytesToHex N i)") auto
    then show ?thesis using ne False by (simp add: c layout_append)
  qed
qed simp

lemma read_index_written:
  assumes "length scope = 32" "entries_fit (length body) es" "encode_index scope es = Some index"
  shows "read_index N index body =
    Inr \<lparr>scopeId = scope, p_entries = map_of (rev (map (hex_entry N) es)), p_body = body, p_disposed = False\<rparr>"
proof -
  have n: "length es < 2 ^ 32" and ix: "index = scope @ be_bytes 4 (length es) @ concat (map entry_bytes es)"
    using assms(3) by (auto simp: encode_index_def push_len_def entry_bytes_def [abs_def] split: if_splits)
  have "index_loop N index (length body) 0 (length es) Map.empty = Inr (map_of (rev (map (hex_entry N) es)))"
    using index_loop_reads [of "scope @ be_bytes 4 (length es)" "length body" "[]" es N Map.empty] assms(1,2)
    by (simp add: ix hex_entry_def [abs_def])
  moreover have "u32At index 32 = Inr (length es)" unfolding ix using n assms(1) by (intro u32At_here) simp_all
  ultimately show ?thesis
    using assms(1) length_entry_bytes [OF assms(2)] by (simp add: read_index_def pack_lens ix slice_def)
qed

lemma open_written_parts:
  assumes "cipher_agrees N aead" "length k = 32" "length n1 = 24" "length n2 = 24" "unwrapKey wrapped = Inr k"
    and l: "length wrapped < 2 ^ 32" "length sealed < 2 ^ 32"
    and "sealed = rust_encrypt aead k n1 (PACK_INDEX_AAD N) index"
  shows "openPackParts N ([PACK_VERSION] @ be_bytes 4 (length wrapped) @ wrapped @ be_bytes 4 (length sealed) @ sealed @
      rust_encrypt aead k n2 (PACK_BODY_AAD N) body) unwrapKey = read_index N index body"
proof -
  let ?tail = "rust_encrypt aead k n2 (PACK_BODY_AAD N) body"
  let ?wl = "be_bytes 4 (length wrapped)" and ?il = "be_bytes 4 (length sealed)"
  let ?bs = "[PACK_VERSION] @ ?wl @ wrapped @ ?il @ sealed @ ?tail"
  have a: "u32At ?bs 1 = Inr (length wrapped)" using l by (intro u32At_here) simp_all
  have b: "sliceChecked ?bs 5 (length wrapped) = Inr wrapped"
    using sliceChecked_here [of "[PACK_VERSION] @ ?wl" 5 wrapped "length wrapped" "?il @ sealed @ ?tail"] by simp
  have c: "u32At ?bs (5 + length wrapped) = Inr (length sealed)"
    using u32At_here [of "[PACK_VERSION] @ ?wl @ wrapped" "5 + length wrapped" "length sealed" "sealed @ ?tail"] l by simp
  have d: "sliceChecked ?bs (5 + length wrapped + 4) (length sealed) = Inr sealed"
    using sliceChecked_here [of "[PACK_VERSION] @ ?wl @ wrapped @ ?il" "5 + length wrapped + 4" sealed "length sealed" ?tail] by simp
  have e: "drop (5 + length wrapped + 4 + length sealed) ?bs = ?tail" by (simp add: drop_Cons')
  show ?thesis
    unfolding openPackParts_def Let_def a b c d e bind_r_simps assms(5)
    using decrypt_rust [OF assms(1-3)] decrypt_rust [OF assms(1,2,4)] assms(2,8) by (simp add: pack_lens)
qed

lemma written_pack_opens:
  assumes "cipher_agrees N aead" "hex_law N" "length k = 32" "length n1 = 24" "length n2 = 24"
    and "unwrapKey (wrapKey k) = Inr k" "length (wrapKey k) < 2 ^ 32" "length scope = 32"
    and "list_all (\<lambda>(i, p). length i = 32 \<and> length p < 2 ^ 32) cs"
    and "length cs * 44 + 76 < 2 ^ 32" "length (plain_of cs) \<le> MAX_SAFE_INTEGER"
  shows "\<exists>b bs p. builder_add_all cs (builder_new scope) = Some b \<and> builder_finish N aead k n1 n2 wrapKey b = Some bs \<and>
    openPackWith N bs (bytesToHex N (packId N bs)) unwrapKey = Inr p \<and> scopeId p = scope \<and>
    (\<forall>i. pack_chunk N p i = Inr (map_of (rev cs) i))"
proof -
  let ?b = "\<lparr>b_scope_id = scope, b_plain = plain_of cs, b_entries = layout 0 cs\<rparr>"
  have added: "builder_add_all cs (builder_new scope) = Some ?b"
    using builder_add_all_eq [of cs "builder_new scope"] assms(9) by (auto simp: builder_new_def list_all_iff)
  have fits: "entries_fit (length (plain_of cs)) (layout 0 cs)" using layout_fits [of cs 0] assms(9,11) by simp
  obtain index where ix: "encode_index scope (layout 0 cs) = Some index" "length index = 36 + length cs * 44"
    using assms(8,10) length_entry_bytes [OF fits] by (simp add: encode_index_def push_len_def entry_bytes_def [abs_def])
  define sealed where "sealed = rust_encrypt aead k n1 (PACK_INDEX_AAD N) index"
  have "length sealed = 24 + length index + 16" using assms(1,3,4) by (simp add: sealed_def rust_encrypt_def cipher_agrees_def)
  then have l: "length sealed < 2 ^ 32" using ix(2) assms(10) by simp
  define bs where "bs = [PACK_VERSION] @ be_bytes 4 (length (wrapKey k)) @ wrapKey k @ be_bytes 4 (length sealed) @ sealed @
      rust_encrypt aead k n2 (PACK_BODY_AAD N) (plain_of cs)"
  have finished: "builder_finish N aead k n1 n2 wrapKey ?b = Some bs"
    using ix(1) l assms(7) by (simp add: builder_finish_def push_len_def Let_def bs_def sealed_def)
  let ?p = "\<lparr>scopeId = scope, p_entries = map_of (rev (map (hex_entry N) (layout 0 cs))), p_body = plain_of cs, p_disposed = False\<rparr>"
  have "openPackWith N bs (bytesToHex N (packId N bs)) unwrapKey = Inr ?p"
    using open_written_parts [where unwrapKey = unwrapKey and wrapped = "wrapKey k", OF assms(1,3-7) l sealed_def] read_index_written [OF assms(8) fits ix(1)]
    by (simp only: openPackWith_Inr bs_def)
  moreover have "pack_chunk N ?p i = Inr (map_of (rev cs) i)" for i
    using layout_lookup [OF assms(2)] by (simp add: pack_chunk_def)
  ultimately show ?thesis using added finished by auto
qed

text \<open>
  A pack that Luna builds from any chunks opens in the browser under its own fingerprint: it
  names the scope it was built for, and asking for a chunk gives exactly the bytes that were added
  under that id (the last ones), or nothing for an id that was not added.
\<close>

theorem pack_round_trip:
  assumes "cipher_agrees N aead" "hex_law N" "length k = 32" "length n1 = 24" "length n2 = 24"
    and "unwrapKey (wrapKey k) = Inr k" "length (wrapKey k) < 2 ^ 32" "length scope = 32"
    and "list_all (\<lambda>(i, p). length i = 32 \<and> length p < 2 ^ 32) cs"
    and "length cs * 44 + 76 < 2 ^ 32" "length (plain_of cs) \<le> MAX_SAFE_INTEGER"
  shows "\<exists>b bs p. builder_add_all cs (builder_new scope) = Some b \<and> builder_finish N aead k n1 n2 wrapKey b = Some bs \<and>
    openPackWith N bs (bytesToHex N (packId N bs)) unwrapKey = Inr p \<and> scopeId p = scope \<and>
    (\<forall>i. pack_chunk N p i = Inr (map_of (rev cs) i))"
  by (rule written_pack_opens; fact assms)

definition demo_cipher :: "bytes \<Rightarrow> bytes \<Rightarrow> bytes \<Rightarrow> bytes \<Rightarrow> bytes" where
  "demo_cipher k n a m = replicate 16 (hd (k @ [0])) @ m"

lemma demo_hex: "bytesToHex demo_noble bs = map ucast bs"
    "hexToBytes demo_noble s = (if list_all (\<lambda>c. c < 256) s then Some (map ucast s) else None)"
  by (simp_all add: demo_noble_def)

lemma ucast_byte [simp]: "(ucast (ucast (b :: byte) :: jchar) :: byte) = b"
  by (rule bit_word_eqI) (auto simp: bit_simps)

lemma demo_format_laws: "cipher_agrees demo_noble demo_cipher" "hex_law demo_noble"
proof -
  show "cipher_agrees demo_noble demo_cipher" by (simp add: cipher_agrees_def demo_noble_def demo_cipher_def)
  have "(ucast (b :: byte) :: jchar) < 256" for b
    using unat_byte_less [of b] by (simp add: word_less_nat_alt unsigned_ucast_eq take_bit_nat_eq_self)
  then show "hex_law demo_noble" by (simp add: hex_law_def demo_hex list_all_iff comp_def)
qed

definition demo_chunks :: "(bytes \<times> bytes) list" where
  "demo_chunks = [(replicate 32 5, [7, 8, 9]), (replicate 32 6, [1])]"

lemma demo_chunks_fit: "list_all (\<lambda>(i, p). length i = 32 \<and> length p < 2 ^ 32) demo_chunks" "length demo_chunks * 44 + 76 < 2 ^ 32"
    "length (plain_of demo_chunks) \<le> MAX_SAFE_INTEGER"
  by (simp_all add: demo_chunks_def MAX_SAFE_INTEGER_def)

theorem pack_round_trip_witness:
  "\<exists>b bs p. builder_add_all demo_chunks (builder_new (replicate 32 1)) = Some b \<and>
     builder_finish demo_noble demo_cipher (replicate 32 2) (replicate 24 3) (replicate 24 4) (\<lambda>k. k) b = Some bs \<and>
     openPackWith demo_noble bs (bytesToHex demo_noble (packId demo_noble bs)) Inr = Inr p \<and> scopeId p = replicate 32 1 \<and>
     (\<forall>i. pack_chunk demo_noble p i = Inr (map_of (rev demo_chunks) i))"
  by (rule pack_round_trip [OF demo_format_laws _ _ _ _ _ _ demo_chunks_fit]) simp_all

theorem chunk_inside_body_witness:
  "\<exists>bs p off. openPackWith demo_noble bs (bytesToHex demo_noble (packId demo_noble bs)) Inr = Inr p \<and>
     p_entries p (bytesToHex demo_noble (replicate 32 5)) = Some (off, 3)"
proof -
  have "\<exists>b bs p. builder_add_all demo_chunks (builder_new (replicate 32 1)) = Some b \<and>
     builder_finish demo_noble demo_cipher (replicate 32 2) (replicate 24 3) (replicate 24 4) (\<lambda>k. k) b = Some bs \<and>
     openPackWith demo_noble bs (bytesToHex demo_noble (packId demo_noble bs)) Inr = Inr p \<and> scopeId p = replicate 32 1 \<and>
     (\<forall>i. pack_chunk demo_noble p i = Inr (map_of (rev demo_chunks) i))"
    by (rule written_pack_opens [OF demo_format_laws _ _ _ _ _ _ demo_chunks_fit]) simp_all
  then obtain bs p where p: "openPackWith demo_noble bs (bytesToHex demo_noble (packId demo_noble bs)) Inr = Inr p"
      "pack_chunk demo_noble p (replicate 32 5) = Inr (map_of (rev demo_chunks) (replicate 32 5))" by blast
  have "map_of (rev demo_chunks) (replicate 32 5) = Some [7, 8, 9]"
    by (simp add: demo_chunks_def replicate_eq_replicate)
  then obtain off where "p_entries p (bytesToHex demo_noble (replicate 32 5)) = Some (off, length [7 :: byte, 8, 9])"
    using chunk_inside_body [OF p(1), of "replicate 32 5" "[7, 8, 9]"] p(2) by auto
  then show ?thesis using p(1) by (auto simp: numeral_3_eq_3)
qed

section \<open>Files are checked\<close>

lemma check_chunk_Inr:
  "check_chunk N dedupKey c chunk = Inr bs \<Longrightarrow> int (length bs) = c_len c \<and> bytesToHex N (chunkId N dedupKey bs) = c_id c"
  by (auto simp: check_chunk_def bind_r_Inr_iff split: option.splits if_splits)

lemma read_chunks_Inr:
  "fst (read_chunks N readPack dedupKey cs parts) = Inr all \<longleftrightarrow>
   (\<exists>new. all = parts @ new \<and> list_all2 (\<lambda>c bs. \<exists>chunk. readPack (c_pack c) = Inr chunk \<and> check_chunk N dedupKey c chunk = Inr bs) cs new)"
proof (induction N readPack dedupKey cs parts rule: read_chunks.induct)
  case (2 N readPack dedupKey c cs parts)
  show ?case
  proof (cases "\<exists>chunk bs. readPack (c_pack c) = Inr chunk \<and> check_chunk N dedupKey c chunk = Inr bs")
    case True
    then obtain chunk bs where a: "readPack (c_pack c) = Inr chunk" "check_chunk N dedupKey c chunk = Inr bs" by blast
    then show ?thesis using 2 [OF a(1) refl a(2)] by (auto simp: Let_def case_prod_beta list_all2_Cons1)
  next
    case False
    then show ?thesis by (auto simp: Let_def list_all2_Cons1 split: sum.splits)
  qed
qed auto

lemma file_read_exact:
  "fst (readFile N entry readPack dedupKey) = Inr bs \<longleftrightarrow>
   (\<exists>parts. bs = concat parts \<and> int (length bs) = e_size entry \<and>
      list_all2 (\<lambda>c part. \<exists>chunk i. readPack (c_pack c) = Inr chunk \<and> hexToBytes N (c_id c) = Some i \<and> chunk i = Inr (Some part) \<and>
        int (length part) = c_len c \<and> bytesToHex N (chunkId N dedupKey part) = c_id c) (e_chunks entry) parts)"
proof -
  have "(\<exists>chunk. readPack (c_pack c) = Inr chunk \<and> check_chunk N dedupKey c chunk = Inr part) \<longleftrightarrow>
      (\<exists>chunk i. readPack (c_pack c) = Inr chunk \<and> hexToBytes N (c_id c) = Some i \<and> chunk i = Inr (Some part) \<and>
        int (length part) = c_len c \<and> bytesToHex N (chunkId N dedupKey part) = c_id c)" for c part
    by (auto simp: check_chunk_def bind_r_Inr_iff of_lib_Inr_iff split: option.splits if_splits)
  then show ?thesis
    using read_chunks_Inr [of N readPack dedupKey "e_chunks entry" "[]"]
    by (auto simp: readFile_def Let_def case_prod_beta bind_r_Inr_iff length_concat split: if_splits)
qed

text \<open>
  A file is returned exactly when every chunk of its list was found in its pack, with the
  length and the keyed fingerprint the list gives for it, and the lengths add up to the size of the
  file; the result is then the chunks in the order of the list.
\<close>

theorem file_read_iff:
  "fst (readFile N entry readPack dedupKey) = Inr bs \<longleftrightarrow>
   (\<exists>parts. bs = concat parts \<and> int (length bs) = e_size entry \<and>
      list_all2 (\<lambda>c part. \<exists>chunk i. readPack (c_pack c) = Inr chunk \<and> hexToBytes N (c_id c) = Some i \<and> chunk i = Inr (Some part) \<and>
        int (length part) = c_len c \<and> bytesToHex N (chunkId N dedupKey part) = c_id c) (e_chunks entry) parts)"
  by (rule file_read_exact)

text \<open>
  On every path, errors included, each lease taken while a file is read is released before the
  next one is taken: the log is a sequence of pairs, for the packs of a beginning of the chunk list.
\<close>

theorem leases_released:
  "\<exists>n. snd (readFile N entry readPack dedupKey) = concat (map (\<lambda>c. [Leased (c_pack c), Released (c_pack c)]) (take n (e_chunks entry)))"
proof -
  have "\<exists>n. snd (read_chunks N readPack dedupKey cs parts) = concat (map (\<lambda>c. [Leased (c_pack c), Released (c_pack c)]) (take n cs))" for cs parts
  proof (induction N readPack dedupKey cs parts rule: read_chunks.induct)
    case (2 N readPack dedupKey c cs parts)
    show ?case
    proof (cases "readPack (c_pack c)")
      case (Inl e)
      then show ?thesis by (auto intro: exI [of _ 0])
    next
      case (Inr chunk)
      show ?thesis
      proof (cases "check_chunk N dedupKey c chunk")
        case (Inl e)
        then show ?thesis using Inr by (auto intro!: exI [of _ 1])
      next
        case r: (Inr bs)
        obtain n where "snd (read_chunks N readPack dedupKey cs (parts @ [bs])) =
            concat (map (\<lambda>c. [Leased (c_pack c), Released (c_pack c)]) (take n cs))"
          using 2 [OF Inr refl r] by blast
        then show ?thesis using Inr r by (auto simp: Let_def case_prod_beta intro!: exI [of _ "Suc n"])
      qed
    qed
  qed simp
  then show ?thesis by (simp add: readFile_def Let_def case_prod_beta)
qed

section \<open>A backed-up file comes back\<close>

text \<open>The entry of a file over chunks of one pack. The reader does not look at the offsets, which are 0 here.\<close>

definition file_entry :: "noble \<Rightarrow> bytes \<Rightarrow> jstring \<Rightarrow> jstring \<Rightarrow> int \<Rightarrow> bytes list \<Rightarrow> tree_entry" where
  "file_entry N dedupKey path packHex mtime parts =
     \<lparr>e_path = path, e_size = int (length (concat parts)), e_mtime = mtime,
      e_chunks = map (\<lambda>part. \<lparr>c_id = bytesToHex N (chunkId N dedupKey part), c_pack = packHex, c_offset = 0, c_len = int (length part)\<rparr>) parts\<rparr>"

lemma map_of_rev_unique:
  assumes "(x, y) \<in> set xs" "\<And>z. (x, z) \<in> set xs \<Longrightarrow> z = y"
  shows "map_of (rev xs) x = Some y"
proof -
  have "x \<in> fst ` set (rev xs)" using assms(1) by force
  then obtain z where z: "map_of (rev xs) x = Some z" by (metis map_of_eq_None_iff not_Some_eq)
  then have "(x, z) \<in> set xs" using map_of_SomeD by fastforce
  then show ?thesis using assms(2) z by auto
qed

text \<open>
  Property C6: a file whose chunks Luna put into a pack, beside the chunks of other files, is read back
  by the browser from that pack byte for byte, as long as no two chunks of the pack collide under the
  keyed hash.
\<close>

theorem backed_up_file_restores:
  assumes laws: "cipher_agrees N aead" "hex_law N" "length k = 32" "length n1 = 24" "length n2 = 24"
      "unwrapKey (wrapKey k) = Inr k" "length (wrapKey k) < 2 ^ 32" "length scope = 32"
    and fit: "list_all (\<lambda>c. length (chunkId N dedupKey c) = 32 \<and> length c < 2 ^ 32) chunks"
      "length chunks * 44 + 76 < 2 ^ 32" "length (concat chunks) \<le> MAX_SAFE_INTEGER"
    and inj: "inj_on (chunkId N dedupKey) (set chunks)" and parts: "set parts \<subseteq> set chunks"
  shows "\<exists>b bs p. builder_add_all (map (\<lambda>c. (chunkId N dedupKey c, c)) chunks) (builder_new scope) = Some b \<and>
    builder_finish N aead k n1 n2 wrapKey b = Some bs \<and>
    openPackWith N bs (bytesToHex N (packId N bs)) unwrapKey = Inr p \<and>
    fst (readFile N (file_entry N dedupKey path (bytesToHex N (packId N bs)) mtime parts) (\<lambda>_. Inr (pack_chunk N p)) dedupKey) = Inr (concat parts)"
proof -
  let ?cs = "map (\<lambda>c. (chunkId N dedupKey c, c)) chunks"
  have fits: "list_all (\<lambda>(i, p). length i = 32 \<and> length p < 2 ^ 32) ?cs" "length ?cs * 44 + 76 < 2 ^ 32"
      "length (plain_of ?cs) \<le> MAX_SAFE_INTEGER"
    using fit by (simp_all add: list_all_iff plain_of_def comp_def)
  have "\<exists>b bs p. builder_add_all ?cs (builder_new scope) = Some b \<and> builder_finish N aead k n1 n2 wrapKey b = Some bs \<and>
    openPackWith N bs (bytesToHex N (packId N bs)) unwrapKey = Inr p \<and> scopeId p = scope \<and>
    (\<forall>i. pack_chunk N p i = Inr (map_of (rev ?cs) i))"
    by (rule written_pack_opens; fact laws fits)
  then obtain b bs p where p: "builder_add_all ?cs (builder_new scope) = Some b" "builder_finish N aead k n1 n2 wrapKey b = Some bs"
      "openPackWith N bs (bytesToHex N (packId N bs)) unwrapKey = Inr p" "\<And>i. pack_chunk N p i = Inr (map_of (rev ?cs) i)" by blast
  have found: "map_of (rev ?cs) (chunkId N dedupKey part) = Some part" if "part \<in> set parts" for part
    using that parts inj by (intro map_of_rev_unique) (auto dest: inj_onD)
  have "fst (readFile N (file_entry N dedupKey path (bytesToHex N (packId N bs)) mtime parts) (\<lambda>_. Inr (pack_chunk N p)) dedupKey) = Inr (concat parts)"
    unfolding file_read_exact using laws(2) p(4) found
    by (auto simp: file_entry_def list_all2_map1 list_all2_same hex_law_def intro!: exI [of _ parts])
  then show ?thesis using p by blast
qed

theorem backed_up_file_restores_witness:
  "\<exists>b bs p. builder_add_all (map (\<lambda>c. (chunkId demo_noble [] c, c)) [[1], [2, 3]]) (builder_new (replicate 32 1)) = Some b \<and>
    builder_finish demo_noble demo_cipher (replicate 32 2) (replicate 24 3) (replicate 24 4) (\<lambda>k. k) b = Some bs \<and>
    openPackWith demo_noble bs (bytesToHex demo_noble (packId demo_noble bs)) Inr = Inr p \<and>
    fst (readFile demo_noble (file_entry demo_noble [] (lit ''a.txt'') (bytesToHex demo_noble (packId demo_noble bs)) 0 [[2, 3], [1], [2, 3]])
      (\<lambda>_. Inr (pack_chunk demo_noble p)) []) = Inr (concat [[2, 3], [1], [2, 3]])"
proof (rule backed_up_file_restores [OF demo_format_laws])
  have "chunkId demo_noble [] c = fit 32 c" for c by (simp add: chunkId_def demo_noble_def)
  then show "inj_on (chunkId demo_noble []) (set [[1], [2, 3]])"
    and "list_all (\<lambda>c. length (chunkId demo_noble [] c) = 32 \<and> length c < 2 ^ 32) [[1], [2, 3]]"
    by (simp_all add: fit_def)
qed (simp_all add: MAX_SAFE_INTEGER_def)

section \<open>File lists are checked\<close>

lemma parse_chunk_Inr: "parse_chunk c = Inr r \<Longrightarrow> is_hex64 (c_id r) \<and> is_hex64 (c_pack r)"
  by (auto simp: parse_chunk_def split: option.splits if_splits)

lemma parseTreeEntry_Inr: "parseTreeEntry e = Inr t \<Longrightarrow> list_all (\<lambda>c. is_hex64 (c_id c) \<and> is_hex64 (c_pack c)) (e_chunks t)"
  by (auto simp: parseTreeEntry_def bind_r_Inr_iff split: option.splits json.splits
      intro!: map_r_all [where P = "\<lambda>c. is_hex64 (c_id c) \<and> is_hex64 (c_pack c)"] dest: parse_chunk_Inr)

lemma raw_tree_errors:
  assumes "readRawTreeWith N json_of treePack packHex treeHash unwrapKey openTree = Inl e"
  shows "e \<in> {changed, damaged, MissingKey}"
  using assms openPackWith_range [of N treePack packHex unwrapKey]
  by (auto simp: readRawTreeWith_def bind_r_Inl_iff rethrow_Inl_iff pack_chunk_def split: option.splits if_splits)

lemma entries_cases:
  "(case v of Some (JArr es) \<Rightarrow> rethrow damaged (map_r f es) | _ \<Rightarrow> Inl damaged) = Inl e \<Longrightarrow> e = damaged"
  "(case v of Some (JArr es) \<Rightarrow> rethrow damaged (map_r f es) | _ \<Rightarrow> Inl damaged) = Inr xs \<Longrightarrow> \<exists>es. map_r f es = Inr xs"
  by (cases v; cases "the v"; force simp: rethrow_Inl_iff rethrow_Inr_iff)+

text \<open>
  Reading a file list throws only the three errors the page has words for, and a list that is
  read names every chunk and every pack by 64 lower-case hexadecimal digits, so that both can be put
  into a URL.
\<close>

theorem tree_checked:
  "case readTreeWith N json_of treePack packHex treeHash unwrapKey openTree of
     Inl e \<Rightarrow> e \<in> {changed, damaged, MissingKey}
   | Inr es \<Rightarrow> list_all (\<lambda>t. list_all (\<lambda>c. is_hex64 (c_id c) \<and> is_hex64 (c_pack c)) (e_chunks t)) es"
proof (cases "readTreeWith N json_of treePack packHex treeHash unwrapKey openTree")
  case (Inl e)
  then have "e \<in> {changed, damaged, MissingKey}"
    by (auto simp: readTreeWith_def bind_r_Inl_iff dest: raw_tree_errors entries_cases(1))
  then show ?thesis using Inl by simp
next
  case (Inr es)
  then obtain vs where "map_r parseTreeEntry vs = Inr es"
    by (auto simp: readTreeWith_def bind_r_Inr_iff dest!: entries_cases(2))
  then have "list_all (\<lambda>t. list_all (\<lambda>c. is_hex64 (c_id c) \<and> is_hex64 (c_pack c)) (e_chunks t)) es"
    by (rule map_r_all) (rule parseTreeEntry_Inr)
  then show ?thesis using Inr by simp
qed

section \<open>Snapshots are signed\<close>

lemma verifySnapshot_Some:
  "verifySnapshot N json_of bs pubs lunaId domain = Some v \<longleftrightarrow>
   (\<exists>obj rec msg sig. json_of bs = Some obj \<and> get_prop obj (lit ''record'') = Some rec \<and> snapshot_view N rec lunaId = Some v \<and>
      snapshotSignedBytes N v = Inr msg \<and> hex_prop N obj (lit ''signature'') = Some sig \<and>
      list_ex (\<lambda>pub. verify N pub domain msg sig) pubs)"
  by (auto simp: verifySnapshot_def split: option.splits sum.splits if_splits)

lemma snapshot_view_Some:
  "snapshot_view N rec lunaId = Some v \<Longrightarrow> s_lunaId v = lunaId \<and> length (s_treeHash v) = ID_LEN \<and>
     (\<exists>i. s_treePackId v = bytesToHex N i \<and> length i = ID_LEN)"
  by (auto simp: snapshot_view_def split: option.splits if_splits)

definition snapshot_fields :: "noble \<Rightarrow> snapshot \<Rightarrow> bytes \<Rightarrow> bytes \<Rightarrow> (jstring \<times> bytes) list" where
  "snapshot_fields N v createdAt treePackId =
     [(lit ''luna_id'', utf8ToBytes N (s_lunaId v)), (lit ''protection_id'', utf8ToBytes N (s_protectionId v)),
      (lit ''snapshot_id'', utf8ToBytes N (s_snapshotId v)), (lit ''created_at'', createdAt),
      (lit ''key_version'', be_bytes 4 (to_uint32 (opt_number (s_keyVersion v)))), (lit ''tree_pack_id'', treePackId),
      (lit ''tree_hash'', s_treeHash v), (lit ''meta'', s_meta v)]"

lemma snapshotSignedBytes_Inr:
  "snapshotSignedBytes N v = Inr msg \<longleftrightarrow>
   (\<exists>i t. Option.bind (s_createdAt v) big_int = Some i \<and> hexToBytes N (s_treePackId v) = Some t \<and>
      msg = canonical N (snapshot_fields N v (be_bytes 8 (nat (i mod 2 ^ 64))) t))"
  by (auto simp: snapshotSignedBytes_def created_bytes_def snapshot_fields_def bind_r_Inr_iff of_lib_Inr_iff)

text \<open>Every field of a view is short enough for its length prefix.\<close>

definition snapshot_short :: "noble \<Rightarrow> snapshot \<Rightarrow> bool" where
  "snapshot_short N v \<longleftrightarrow> (\<forall>c t. length c = 8 \<longrightarrow> hexToBytes N (s_treePackId v) = Some t \<longrightarrow> short_fields N (snapshot_fields N v c t))"

lemma to_uint32_less: "to_uint32 n < 2 ^ 32"
  by (cases n) (simp_all add: to_uint32_def nat_less_iff)

text \<open>
  The signature covers the whole snapshot: two views with the same signed bytes agree on the
  Luna, the protection, the snapshot, the tree pack, the tree hash and the sealed details, and their
  times and key versions agree modulo the widths the signature has for them.
\<close>

theorem snapshot_signature_binds:
  assumes "concat_law N" "snapshot_short N v" "snapshot_short N w"
    and "snapshotSignedBytes N v = Inr msg" "snapshotSignedBytes N w = Inr msg"
  shows "utf8ToBytes N (s_lunaId v) = utf8ToBytes N (s_lunaId w) \<and>
    utf8ToBytes N (s_protectionId v) = utf8ToBytes N (s_protectionId w) \<and>
    utf8ToBytes N (s_snapshotId v) = utf8ToBytes N (s_snapshotId w) \<and>
    hexToBytes N (s_treePackId v) = hexToBytes N (s_treePackId w) \<and>
    s_treeHash v = s_treeHash w \<and> s_meta v = s_meta w \<and>
    to_uint32 (opt_number (s_keyVersion v)) = to_uint32 (opt_number (s_keyVersion w)) \<and>
    (\<exists>i j. Option.bind (s_createdAt v) big_int = Some i \<and> Option.bind (s_createdAt w) big_int = Some j \<and> i mod 2 ^ 64 = j mod 2 ^ 64)"
proof -
  obtain i t where v: "Option.bind (s_createdAt v) big_int = Some i" "hexToBytes N (s_treePackId v) = Some t"
      "msg = canonical N (snapshot_fields N v (be_bytes 8 (nat (i mod 2 ^ 64))) t)"
    using assms(4) by (auto simp: snapshotSignedBytes_Inr)
  obtain j u where w: "Option.bind (s_createdAt w) big_int = Some j" "hexToBytes N (s_treePackId w) = Some u"
      "msg = canonical N (snapshot_fields N w (be_bytes 8 (nat (j mod 2 ^ 64))) u)"
    using assms(5) by (auto simp: snapshotSignedBytes_Inr)
  have sh: "short_fields N (snapshot_fields N v (be_bytes 8 (nat (i mod 2 ^ 64))) t)"
      "short_fields N (snapshot_fields N w (be_bytes 8 (nat (j mod 2 ^ 64))) u)"
    using assms(2,3) v w by (simp_all add: snapshot_short_def)
  have eq: "field_bytes N (snapshot_fields N v (be_bytes 8 (nat (i mod 2 ^ 64))) t) =
      field_bytes N (snapshot_fields N w (be_bytes 8 (nat (j mod 2 ^ 64))) u)"
    by (rule canonical_inj [OF assms(1) sh trans [OF v(3) [symmetric] w(3)]])
  have "be_bytes 8 (nat (i mod 2 ^ 64)) = be_bytes 8 (nat (j mod 2 ^ 64))" using eq by (simp add: field_bytes_def snapshot_fields_def)
  then have "nat (i mod 2 ^ 64) = nat (j mod 2 ^ 64)" by (subst (asm) be8_eq) (simp_all add: nat_less_iff)
  then have time: "i mod 2 ^ 64 = j mod 2 ^ 64" by (subst (asm) eq_nat_nat_iff) simp_all
  have "be_bytes 4 (to_uint32 (opt_number (s_keyVersion v))) = be_bytes 4 (to_uint32 (opt_number (s_keyVersion w)))"
    using eq by (simp add: field_bytes_def snapshot_fields_def)
  then have "to_uint32 (opt_number (s_keyVersion v)) = to_uint32 (opt_number (s_keyVersion w))"
    by (simp only: be4_eq to_uint32_less)
  then show ?thesis using eq v w time by (auto simp: field_bytes_def snapshot_fields_def)
qed

definition demo_view :: "rat \<Rightarrow> snapshot" where
  "demo_view k = \<lparr>s_lunaId = lit ''l'', s_protectionId = lit ''p'', s_snapshotId = lit ''s'', s_createdAt = Some (JNum (Fin 5)),
     s_keyVersion = Some (JNum (Fin k)), s_treePackId = replicate 32 7, s_treeHash = replicate 32 1, s_meta = [9]\<rparr>"

lemma demo_view_short: "snapshot_short demo_noble (demo_view k)"
  by (simp add: snapshot_short_def short_fields_def snapshot_fields_def demo_view_def demo_utf8 lit_def demo_hex list_all_iff)

lemma to_uint32_wrap: "to_uint32 (Fin (of_nat k + 2 ^ 32)) = to_uint32 (Fin (of_nat k))"
proof -
  have "\<lfloor>(of_nat k + 2 ^ 32 :: rat)\<rfloor> = int k + 2 ^ 32" by (simp add: floor_eq_iff)
  moreover have "(int k + 2 ^ 32) mod 2 ^ 32 = int k mod 2 ^ 32" by (rule mod_add_self2)
  ultimately show ?thesis by (simp add: to_uint32_def)
qed

lemma signed_bytes_keyVersion:
  "to_uint32 (opt_number kv) = to_uint32 (opt_number (s_keyVersion v)) \<Longrightarrow>
   snapshotSignedBytes N (v\<lparr>s_keyVersion := kv\<rparr>) = snapshotSignedBytes N v"
  by (simp add: snapshotSignedBytes_def)

theorem snapshot_signature_binds_witness:
  "to_uint32 (opt_number (s_keyVersion (demo_view (of_nat 1)))) = to_uint32 (opt_number (s_keyVersion (demo_view (of_nat 1 + 2 ^ 32))))"
proof -
  have "snapshotSignedBytes demo_noble (demo_view (of_nat 1)) = snapshotSignedBytes demo_noble (demo_view (of_nat 1 + 2 ^ 32))"
    using signed_bytes_keyVersion [of "Some (JNum (Fin (of_nat 1 + 2 ^ 32)))" "demo_view (of_nat 1)"] to_uint32_wrap [of 1]
    by (simp add: demo_view_def opt_number_def)
  moreover obtain msg where "snapshotSignedBytes demo_noble (demo_view (of_nat 1)) = Inr msg"
    by (auto simp: snapshotSignedBytes_Inr demo_view_def demo_hex list_all_iff)
  ultimately show ?thesis
    using snapshot_signature_binds [OF demo_laws(1) demo_view_short demo_view_short, of "of_nat 1" msg "of_nat 1 + 2 ^ 32"] by simp
qed

definition demo_record :: "rat \<Rightarrow> jobject" where
  "demo_record k = [(lit ''luna_id'', JStr (lit ''l'')), (lit ''protection_id'', JStr (lit ''p'')), (lit ''snapshot_id'', JStr (lit ''s'')),
     (lit ''created_at'', JNum (Fin 5)), (lit ''key_version'', JNum (Fin k)), (lit ''tree_pack_id'', JStr (replicate 32 7)),
     (lit ''tree_hash'', JStr (replicate 32 1)), (lit ''meta'', JStr [9])]"

lemma demo_hex_back: "hexToBytes demo_noble (map ucast bs) = Some bs"
  using demo_format_laws(2) by (simp add: hex_law_def demo_hex(1))

lemma demo_record_view: "snapshot_view demo_noble (JObj (demo_record k)) (lit ''l'') = Some (demo_view k)"
proof -
  have "hexToBytes demo_noble (replicate 32 7) = Some (replicate 32 7)" "hexToBytes demo_noble (replicate 32 1) = Some (replicate 32 1)"
      "hexToBytes demo_noble [9] = Some [9]"
    by (simp_all add: demo_hex list_all_iff)
  then show ?thesis
    by (simp add: snapshot_view_def demo_record_def demo_view_def hex_prop_def text_prop_def get_prop_def lit_def pack_lens demo_hex(1))
qed

section \<open>The time of a snapshot is not bound\<close>

lemma digit_char: "k < 10 \<Longrightarrow> js_digit (of_nat (48 + k)) \<and> unat (of_nat (48 + k) :: jchar) - 48 = k"
  by (simp add: js_digit_def word_le_nat_alt unat_of_nat del: of_nat_add)

lemma num_str_digits: "list_all js_digit (num_str n)"
proof (induction n rule: num_str.induct)
  case (1 n)
  show ?case using 1 digit_char [of n] digit_char [of "n mod 10"] by (subst num_str.simps) (simp del: of_nat_add)
qed

lemma digits_value_num_str: "digits_value 10 (num_str n) = n"
proof (induction n rule: num_str.induct)
  case (1 n)
  show ?case
  proof (cases "n < 10")
    case True
    then show ?thesis using digit_char [of n] by (subst num_str.simps) (simp add: digits_value_def del: of_nat_add)
  next
    case False
    then have "digits_value 10 (num_str n) = 10 * digits_value 10 (num_str (n div 10)) + n mod 10"
      using digit_char [of "n mod 10"] by (subst num_str.simps) (simp add: digits_value_def del: of_nat_add)
    then show ?thesis using 1 False by simp
  qed
qed

lemma digit_not_ws: "js_digit c \<Longrightarrow> \<not> js_ws c \<and> c \<noteq> 45 \<and> c \<noteq> 43"
  by (auto simp: js_digit_def js_ws_def word_le_nat_alt)

lemma trim_digits: "list_all js_digit s \<Longrightarrow> trim s = s"
proof -
  assume "list_all js_digit s"
  then have "s = [] \<or> \<not> js_ws (hd s)" "s = [] \<or> \<not> js_ws (last s)"
    using digit_not_ws hd_in_set last_in_set by (auto simp: list_all_iff)
  then show ?thesis by (simp add: trim_def trim_start_id trim_end_id)
qed

lemma prefixed_digits:
  assumes "list_all js_digit s"
  shows "prefixed s = None"
proof -
  have "lower t = t" if "list_all js_digit t" for t
    using that by (induction t) (auto simp: lower_def js_digit_def word_le_nat_alt)
  moreover have t: "list_all js_digit (take 2 s)" using assms by (auto simp: list_all_iff dest: in_set_takeD)
  ultimately have eq: "lower (take 2 s) = take 2 s" by blast
  have "\<not> list_all js_digit (lit ''0x'')" "\<not> list_all js_digit (lit ''0o'')" "\<not> list_all js_digit (lit ''0b'')" by code_simp+
  then show ?thesis using t by (auto simp: prefixed_def eq Let_def)
qed

lemma str_bigint_digits:
  assumes "list_all js_digit s" "s \<noteq> []"
  shows "str_bigint s = Some (int (digits_value 10 s))"
proof -
  have "hd s \<noteq> 45" "hd s \<noteq> 43" using assms digit_not_ws by (cases s; auto)+
  then show ?thesis using assms trim_digits [OF assms(1)] prefixed_digits [OF assms(1)] by (simp add: str_bigint_def)
qed

lemma str_number_digits:
  assumes "list_all js_digit s" "s \<noteq> []"
  shows "str_number s = to_double (of_nat (digits_value 10 s))"
proof -
  have hd: "hd s \<noteq> dash" "hd s \<noteq> 43" "s \<noteq> lit ''Infinity''"
    using assms digit_not_ws by (cases s; auto simp: js_digit_def lit_def)+
  have "takeWhile js_digit s = s" "dropWhile js_digit s = []"
    using assms(1) by (auto simp: takeWhile_eq_all_conv dropWhile_eq_Nil_conv list_all_iff)
  then have "decimal s = to_double (of_nat (digits_value 10 s))" using assms(2)
    unfolding decimal_def Let_def by (simp only: exponent_def) simp
  then show ?thesis using assms hd trim_digits [OF assms(1)] prefixed_digits [OF assms(1)] by (simp add: str_number_def)
qed

lemma signed_bytes_createdAt:
  assumes "Option.bind w big_int = Some j" "Option.bind (s_createdAt v) big_int = Some i" "j mod 2 ^ 64 = i mod 2 ^ 64"
  shows "snapshotSignedBytes N (v\<lparr>s_createdAt := w\<rparr>) = snapshotSignedBytes N v"
  using assms by (simp add: snapshotSignedBytes_def created_bytes_def)

lemma view_createdAt:
  "snapshot_view N (JObj (obj_set (lit ''created_at'') w rs)) lunaId =
   map_option (\<lambda>v. v\<lparr>s_createdAt := Some w\<rparr>) (snapshot_view N (JObj rs) lunaId)"
proof -
  have ne: "lit k \<noteq> lit ''created_at''"
    if "k \<in> {''luna_id'', ''tree_pack_id'', ''tree_hash'', ''protection_id'', ''snapshot_id'', ''meta'', ''key_version''}" for k
    using that by (auto simp: lit_def)
  show ?thesis
    by (simp add: snapshot_view_def hex_prop_def text_prop_def get_prop_def map_of_obj_set ne split: option.split)
qed

text \<open>
  Property C28: the time of a verified snapshot is not the signed one. A record that verifies still verifies after
  its time is replaced by the text of the time plus \<open>2 ^ 64\<close>: \<open>BigInt\<close> reads the text, the signed bytes hold
  the time modulo \<open>2 ^ 64\<close>, and the view keeps the text, which counts as a time in the far future wherever
  versions are put in order. So an old snapshot can be passed off as the latest.
\<close>

theorem snapshot_time_not_bound:
  fixes c :: nat
  defines "later \<equiv> JStr (num_str (c + 2 ^ 64))"
  assumes "json_of bs = Some (JObj ps)" "map_of ps (lit ''record'') = Some (JObj rs)"
    and "verifySnapshot N json_of bs pubs lunaId domain = Some v" "s_createdAt v = Some (JNum (Fin (of_nat c)))"
    and "json_of bs' = Some (JObj (obj_set (lit ''record'') (JObj (obj_set (lit ''created_at'') later rs)) ps))"
  shows "verifySnapshot N json_of bs' pubs lunaId domain = Some (v\<lparr>s_createdAt := Some later\<rparr>) \<and>
    js_number later = to_double (of_nat (c + 2 ^ 64))"
proof -
  have v: "snapshot_view N (JObj rs) lunaId = Some v"
    and sig: "\<exists>msg sig. snapshotSignedBytes N v = Inr msg \<and> hex_prop N (JObj ps) (lit ''signature'') = Some sig \<and>
        list_ex (\<lambda>pub. verify N pub domain msg sig) pubs"
    using assms(2-4) by (auto simp: verifySnapshot_Some get_prop_def)
  have "big_int later = Some (int (c + 2 ^ 64))" "js_number later = to_double (of_nat (c + 2 ^ 64))"
    using str_bigint_digits [OF num_str_digits num_str_nonempty, of "c + 2 ^ 64"] str_number_digits [OF num_str_digits num_str_nonempty, of "c + 2 ^ 64"]
    by (simp_all only: later_def big_int.simps js_number.simps digits_value_num_str)
  moreover have "int (c + 2 ^ 64) mod 2 ^ 64 = int c mod 2 ^ 64" using mod_add_self2 [of "int c" "2 ^ 64"] by simp
  ultimately have "snapshotSignedBytes N (v\<lparr>s_createdAt := Some later\<rparr>) = snapshotSignedBytes N v" and num: "js_number later = to_double (of_nat (c + 2 ^ 64))"
    using assms(5) signed_bytes_createdAt [of "Some later" "int (c + 2 ^ 64)" v "int c" N] by simp_all
  moreover have "lit ''signature'' \<noteq> lit ''record''" by (simp add: lit_def)
  then have "hex_prop N (JObj (obj_set (lit ''record'') w ps)) (lit ''signature'') = hex_prop N (JObj ps) (lit ''signature'')" for w
    by (simp add: hex_prop_def text_prop_def get_prop_def map_of_obj_set)
  ultimately have "verifySnapshot N json_of bs' pubs lunaId domain = Some (v\<lparr>s_createdAt := Some later\<rparr>)"
    using sig v assms(6) unfolding verifySnapshot_Some by (auto simp: get_prop_def map_of_obj_set view_createdAt)
  then show ?thesis using num by blast
qed

theorem snapshot_time_not_bound_witness:
  "\<exists>json_of pub. verifySnapshot demo_noble json_of [1] [pub] (lit ''l'') (lit ''snapshot'') =
     Some ((demo_view 1)\<lparr>s_createdAt := Some (JStr (num_str (5 + 2 ^ 64)))\<rparr>)"
proof -
  obtain msg where msg: "snapshotSignedBytes demo_noble (demo_view 1) = Inr msg"
    by (auto simp: snapshotSignedBytes_Inr demo_view_def demo_hex list_all_iff)
  obtain pub sig where sig: "verify demo_noble pub (lit ''snapshot'') msg sig"
    using sign_verify [OF demo_laws(1,2,6), of "replicate 32 5"] by fastforce
  define ps where "ps = [(lit ''record'', JObj (demo_record 1)), (lit ''signature'', JStr (map ucast sig))]"
  define json_of where "json_of = (\<lambda>b. Some (JObj (if b = [0 :: byte] then ps
      else obj_set (lit ''record'') (JObj (obj_set (lit ''created_at'') (JStr (num_str (5 + 2 ^ 64))) (demo_record 1))) ps)))"
  have "lit ''signature'' \<noteq> lit ''record''" by (simp add: lit_def)
  then have "verifySnapshot demo_noble json_of [0] [pub] (lit ''l'') (lit ''snapshot'') = Some (demo_view 1)"
    using demo_record_view msg sig
    by (auto simp: verifySnapshot_Some json_of_def ps_def get_prop_def hex_prop_def text_prop_def demo_hex_back)
  then have "verifySnapshot demo_noble json_of [1] [pub] (lit ''l'') (lit ''snapshot'') =
      Some ((demo_view 1)\<lparr>s_createdAt := Some (JStr (num_str (5 + 2 ^ 64)))\<rparr>) \<and> js_number (JStr (num_str (5 + 2 ^ 64))) = to_double (of_nat (5 + 2 ^ 64))"
    by (intro snapshot_time_not_bound [where bs = "[0]" and ps = ps and rs = "demo_record 1"])
      (simp_all add: json_of_def ps_def demo_view_def)
  then show ?thesis by blast
qed

end
