(* ===== verification/PackCache.thy ===== *)
theory PackCache
  imports CloudFormat
begin

text \<open>
  The cache of opened packs (\<open>makePackReaderWith\<close> of \<open>cloudFormat.js\<close>) as a system of events. An entry is
  an object at an address; a call of the reader runs up to its \<open>await\<close> in one step, and every reaction to
  a promise (the opening settles, a caller resumes, a failed entry leaves the cache, a pack is disposed of)
  is an event of its own, so that the theorems hold for every order in which the engine runs them.
\<close>

section \<open>State\<close>

datatype open_state = Opening | Opened | OpenFailed

record cache_entry =
  en_id :: jstring
  en_opening :: open_state
  en_leases :: int
  en_evicted :: bool
  en_disposeStarted :: bool
  en_disposed :: bool
  en_packDisposed :: bool

text \<open>
  \<open>r_cache\<close> is the map in insertion order, \<open>r_entries\<close> the set of entries, \<open>r_waiting\<close> the calls that
  wait for an opening, \<open>r_leases\<close> the leases handed out with their \<open>released\<close> flag, and \<open>r_disposal\<close> the
  entries that the promise of \<open>dispose\<close> waits for.
\<close>

record pack_reader =
  r_keep :: nat
  r_heap :: "nat \<Rightarrow> cache_entry"
  r_next :: nat
  r_cache :: "(jstring \<times> nat) list"
  r_entries :: "nat list"
  r_disposed :: bool
  r_disposal :: "nat list option"
  r_waiting :: "nat list"
  r_leases :: "(nat \<times> bool) list"

definition upd_entry :: "nat \<Rightarrow> (cache_entry \<Rightarrow> cache_entry) \<Rightarrow> pack_reader \<Rightarrow> pack_reader" where
  "upd_entry a f s = s\<lparr>r_heap := (r_heap s)(a := f (r_heap s a))\<rparr>"

section \<open>Operations\<close>

definition disposeWhenUnused :: "nat \<Rightarrow> pack_reader \<Rightarrow> pack_reader" where
  "disposeWhenUnused a s =
     (let e = r_heap s a
      in if \<not> en_evicted e \<or> en_leases e \<noteq> 0 \<or> en_disposeStarted e then s
         else upd_entry a (\<lambda>e. e\<lparr>en_disposeStarted := True\<rparr>) s)"

definition evictOldest :: "pack_reader \<Rightarrow> pack_reader" where
  "evictOldest s =
     (case r_cache s of
        [] \<Rightarrow> s
      | (i, a) # rest \<Rightarrow> disposeWhenUnused a (upd_entry a (\<lambda>e. e\<lparr>en_evicted := True\<rparr>) (s\<lparr>r_cache := rest\<rparr>)))"

lemma evictOldest_cache: "r_cache (evictOldest s) = tl (r_cache s)" "r_keep (evictOldest s) = r_keep s"
  by (simp_all add: evictOldest_def disposeWhenUnused_def upd_entry_def Let_def split: list.split prod.split)

function evict_loop :: "pack_reader \<Rightarrow> pack_reader" where
  "evict_loop s = (if r_keep s < length (r_cache s) then evict_loop (evictOldest s) else s)"
  by pat_completeness auto
termination by (relation "measure (\<lambda>s. length (r_cache s))") (auto simp: evictOldest_cache)

declare evict_loop.simps [simp del]

definition new_entry :: "jstring \<Rightarrow> cache_entry" where
  "new_entry i = \<lparr>en_id = i, en_opening = Opening, en_leases = 0, en_evicted = False, en_disposeStarted = False,
     en_disposed = False, en_packDisposed = False\<rparr>"

text \<open>The entry a call uses: a cached one moves to the end of the map, a new one is opened and added.\<close>

definition take_entry :: "jstring \<Rightarrow> pack_reader \<Rightarrow> nat \<times> pack_reader" where
  "take_entry idHex s =
     (case map_of (r_cache s) idHex of
        Some a \<Rightarrow> (a, s\<lparr>r_cache := filter (\<lambda>(i, _). i \<noteq> idHex) (r_cache s) @ [(idHex, a)]\<rparr>)
      | None \<Rightarrow>
          let a = r_next s
          in (a, s\<lparr>r_heap := (r_heap s)(a := new_entry idHex), r_next := Suc a, r_cache := r_cache s @ [(idHex, a)],
                   r_entries := r_entries s @ [a]\<rparr>))"

text \<open>A call up to its \<open>await\<close>; on a disposed reader it throws and changes nothing.\<close>

definition reader_call :: "jstring \<Rightarrow> pack_reader \<Rightarrow> pack_reader" where
  "reader_call idHex s =
     (if r_disposed s then s
      else let (a, s1) = take_entry idHex s;
               s2 = upd_entry a (\<lambda>e. e\<lparr>en_leases := en_leases e + 1\<rparr>) s1;
               s3 = evict_loop s2
           in s3\<lparr>r_waiting := a # r_waiting s3\<rparr>)"

definition drop_lease :: "nat \<Rightarrow> pack_reader \<Rightarrow> pack_reader" where
  "drop_lease a s = disposeWhenUnused a (upd_entry a (\<lambda>e. e\<lparr>en_leases := en_leases e - 1\<rparr>) s)"

text \<open>A caller goes on after its \<open>await\<close>: it gets a lease, or the error.\<close>

definition reader_resume :: "nat \<Rightarrow> pack_reader \<Rightarrow> pack_reader" where
  "reader_resume a s =
     (let s1 = s\<lparr>r_waiting := remove1 a (r_waiting s)\<rparr>
      in if en_opening (r_heap s a) = Opened then s1\<lparr>r_leases := r_leases s1 @ [(a, False)]\<rparr> else drop_lease a s1)"

definition lease_release :: "nat \<Rightarrow> pack_reader \<Rightarrow> pack_reader" where
  "lease_release l s =
     (case r_leases s ! l of
        (a, released) \<Rightarrow> if released then s else drop_lease a (s\<lparr>r_leases := (r_leases s)[l := (a, True)]\<rparr>))"

text \<open>What \<open>chunk\<close> of a lease does: it throws when the lease was released or its pack disposed of.\<close>

definition lease_reads :: "nat \<Rightarrow> pack_reader \<Rightarrow> bool" where
  "lease_reads l s = (case r_leases s ! l of (a, released) \<Rightarrow> \<not> released \<and> \<not> en_packDisposed (r_heap s a))"

definition evict_pending :: "nat \<Rightarrow> pack_reader \<Rightarrow> pack_reader" where
  "evict_pending a s = disposeWhenUnused a (upd_entry a (\<lambda>e. e\<lparr>en_evicted := True\<rparr>) s)"

definition reader_dispose :: "pack_reader \<Rightarrow> pack_reader" where
  "reader_dispose s =
     (if r_disposal s \<noteq> None then s
      else let pending = r_entries s
           in (fold evict_pending pending (s\<lparr>r_disposed := True, r_cache := []\<rparr>))\<lparr>r_disposal := Some pending\<rparr>)"

text \<open>The reactions: the opening settles, a failed entry leaves the cache, a pack is disposed of.\<close>

definition opening_settles :: "open_state \<Rightarrow> nat \<Rightarrow> pack_reader \<Rightarrow> pack_reader" where
  "opening_settles r a s = upd_entry a (\<lambda>e. e\<lparr>en_opening := r\<rparr>) s"

definition uncache_failed :: "nat \<Rightarrow> pack_reader \<Rightarrow> pack_reader" where
  "uncache_failed a s =
     (let i = en_id (r_heap s a)
      in if map_of (r_cache s) i = Some a then s\<lparr>r_cache := filter (\<lambda>(j, _). j \<noteq> i) (r_cache s)\<rparr> else s)"

definition dispose_runs :: "nat \<Rightarrow> pack_reader \<Rightarrow> pack_reader" where
  "dispose_runs a s =
     (let s1 = (if en_opening (r_heap s a) = Opened then upd_entry a (\<lambda>e. e\<lparr>en_packDisposed := True\<rparr>) s else s)
      in upd_entry a (\<lambda>e. e\<lparr>en_disposed := True\<rparr>) (s1\<lparr>r_entries := removeAll a (r_entries s1)\<rparr>))"

section \<open>The system\<close>

datatype reader_event = Call jstring | Settle open_state nat | Uncache nat | Resume nat | Release nat | Dispose | DisposeRun nat

definition reader_step :: "reader_event \<Rightarrow> pack_reader \<Rightarrow> pack_reader option" where
  "reader_step ev s =
     (case ev of
        Call i \<Rightarrow> Some (reader_call i s)
      | Settle r a \<Rightarrow>
          if a < r_next s \<and> en_opening (r_heap s a) = Opening \<and> r \<noteq> Opening then Some (opening_settles r a s) else None
      | Uncache a \<Rightarrow> if a < r_next s \<and> en_opening (r_heap s a) = OpenFailed then Some (uncache_failed a s) else None
      | Resume a \<Rightarrow> if a \<in> set (r_waiting s) \<and> en_opening (r_heap s a) \<noteq> Opening then Some (reader_resume a s) else None
      | Release l \<Rightarrow> if l < length (r_leases s) then Some (lease_release l s) else None
      | Dispose \<Rightarrow> Some (reader_dispose s)
      | DisposeRun a \<Rightarrow>
          if a < r_next s \<and> en_disposeStarted (r_heap s a) \<and> en_opening (r_heap s a) \<noteq> Opening \<and> \<not> en_disposed (r_heap s a) then Some (dispose_runs a s) else None)"

definition reader_start :: "pack_reader \<Rightarrow> bool" where
  "reader_start s \<longleftrightarrow> r_next s = 0 \<and> r_cache s = [] \<and> r_entries s = [] \<and> \<not> r_disposed s \<and> r_disposal s = None \<and>
     r_waiting s = [] \<and> r_leases s = []"

inductive reader_reachable :: "pack_reader \<Rightarrow> bool" where
  start: "reader_start s \<Longrightarrow> reader_reachable s"
| step: "reader_reachable s \<Longrightarrow> reader_step ev s = Some t \<Longrightarrow> reader_reachable t"

section \<open>The invariant\<close>

text \<open>How many calls and unreleased leases use an entry.\<close>

definition users :: "pack_reader \<Rightarrow> nat \<Rightarrow> nat" where
  "users s a = count_list (r_waiting s) a + length (filter (\<lambda>(b, released). b = a \<and> \<not> released) (r_leases s))"

text \<open>An entry with \<open>n\<close> users that is in the cache or not.\<close>

definition entry_ok :: "cache_entry \<Rightarrow> nat \<Rightarrow> bool \<Rightarrow> bool" where
  "entry_ok e n cached \<longleftrightarrow> en_leases e = int n \<and> (en_disposeStarted e \<longleftrightarrow> en_evicted e \<and> n = 0) \<and>
     (en_packDisposed e \<longrightarrow> en_disposeStarted e) \<and> (en_disposed e \<longrightarrow> en_disposeStarted e) \<and>
     (cached \<longrightarrow> \<not> en_evicted e) \<and> (\<not> en_evicted e \<and> en_opening e \<noteq> OpenFailed \<longrightarrow> cached)"

definition cached :: "pack_reader \<Rightarrow> nat \<Rightarrow> bool" where
  "cached s a \<longleftrightarrow> (en_id (r_heap s a), a) \<in> set (r_cache s)"

definition entries_ok :: "(nat \<Rightarrow> nat) \<Rightarrow> pack_reader \<Rightarrow> bool" where
  "entries_ok u s \<longleftrightarrow> (\<forall>a<r_next s. entry_ok (r_heap s a) (u a) (cached s a))"

definition cache_ok :: "pack_reader \<Rightarrow> bool" where
  "cache_ok s \<longleftrightarrow> distinct (map fst (r_cache s)) \<and> (\<forall>(i, a)\<in>set (r_cache s). a < r_next s \<and> en_id (r_heap s a) = i)"

definition set_ok :: "pack_reader \<Rightarrow> bool" where
  "set_ok s \<longleftrightarrow> set (r_entries s) \<subseteq> {..<r_next s} \<and> (\<forall>a<r_next s. a \<in> set (r_entries s) \<or> en_disposed (r_heap s a)) \<and>
     (r_disposed s \<longleftrightarrow> r_disposal s \<noteq> None) \<and> (\<forall>ps. r_disposal s = Some ps \<longrightarrow> set ps \<subseteq> {..<r_next s}) \<and>
     (r_disposed s \<longrightarrow> r_cache s = [] \<and> (\<forall>a<r_next s. en_evicted (r_heap s a)))"

definition reader_wf :: "(nat \<Rightarrow> nat) \<Rightarrow> pack_reader \<Rightarrow> bool" where
  "reader_wf u s \<longleftrightarrow> entries_ok u s \<and> cache_ok s \<and> set_ok s"

definition uses_ok :: "pack_reader \<Rightarrow> bool" where
  "uses_ok s \<longleftrightarrow> set (r_waiting s) \<subseteq> {..<r_next s} \<and>
     (\<forall>(a, _)\<in>set (r_leases s). a < r_next s \<and> en_opening (r_heap s a) = Opened)"

definition reader_inv :: "pack_reader \<Rightarrow> bool" where
  "reader_inv s \<longleftrightarrow> reader_wf (users s) s \<and> uses_ok s \<and> length (r_cache s) \<le> r_keep s"

lemmas reader_defs = reader_wf_def entries_ok_def cache_ok_def set_ok_def cached_def

subsection \<open>Frames\<close>

lemma upd_entry_simps [simp]:
  "r_keep (upd_entry a f s) = r_keep s" "r_next (upd_entry a f s) = r_next s" "r_cache (upd_entry a f s) = r_cache s"
  "r_entries (upd_entry a f s) = r_entries s" "r_disposed (upd_entry a f s) = r_disposed s" "r_disposal (upd_entry a f s) = r_disposal s"
  "r_waiting (upd_entry a f s) = r_waiting s" "r_leases (upd_entry a f s) = r_leases s"
  "r_heap (upd_entry a f s) = (r_heap s)(a := f (r_heap s a))"
  by (simp_all add: upd_entry_def)

lemma disposeWhenUnused_simps [simp]:
  "r_keep (disposeWhenUnused a s) = r_keep s" "r_next (disposeWhenUnused a s) = r_next s" "r_cache (disposeWhenUnused a s) = r_cache s"
  "r_entries (disposeWhenUnused a s) = r_entries s" "r_disposed (disposeWhenUnused a s) = r_disposed s"
  "r_disposal (disposeWhenUnused a s) = r_disposal s" "r_waiting (disposeWhenUnused a s) = r_waiting s"
  "r_leases (disposeWhenUnused a s) = r_leases s"
  "r_heap (disposeWhenUnused a s) = (r_heap s)(a := (r_heap s a)\<lparr>en_disposeStarted :=
     en_disposeStarted (r_heap s a) \<or> en_evicted (r_heap s a) \<and> en_leases (r_heap s a) = 0\<rparr>)"
  by (auto simp: disposeWhenUnused_def Let_def fun_eq_iff)

lemma evictOldest_frame [simp]:
  "r_next (evictOldest s) = r_next s" "r_entries (evictOldest s) = r_entries s" "r_disposed (evictOldest s) = r_disposed s"
  "r_disposal (evictOldest s) = r_disposal s" "r_waiting (evictOldest s) = r_waiting s" "r_leases (evictOldest s) = r_leases s"
  "en_opening (r_heap (evictOldest s) a) = en_opening (r_heap s a)"
  by (simp_all add: evictOldest_def split: list.split prod.split)

lemma evict_loop_induct:
  assumes "P s" "\<And>t. P t \<Longrightarrow> r_cache t \<noteq> [] \<Longrightarrow> P (evictOldest t)"
  shows "P (evict_loop s)"
  using assms(1)
proof (induction s rule: evict_loop.induct)
  case (1 s)
  then show ?case using assms(2) [of s] by (subst evict_loop.simps) fastforce
qed

lemma evict_loop_frame [simp]:
  "r_keep (evict_loop s) = r_keep s" "r_next (evict_loop s) = r_next s" "r_disposed (evict_loop s) = r_disposed s"
  "r_waiting (evict_loop s) = r_waiting s" "r_leases (evict_loop s) = r_leases s"
  "en_opening (r_heap (evict_loop s) a) = en_opening (r_heap s a)"
proof -
  have "r_keep (evict_loop s) = r_keep s \<and> r_next (evict_loop s) = r_next s \<and> r_disposed (evict_loop s) = r_disposed s \<and>
      r_waiting (evict_loop s) = r_waiting s \<and> r_leases (evict_loop s) = r_leases s \<and>
      en_opening (r_heap (evict_loop s) a) = en_opening (r_heap s a)"
    by (rule evict_loop_induct) (simp_all add: evictOldest_cache)
  then show "r_keep (evict_loop s) = r_keep s" "r_next (evict_loop s) = r_next s" "r_disposed (evict_loop s) = r_disposed s"
      "r_waiting (evict_loop s) = r_waiting s" "r_leases (evict_loop s) = r_leases s"
      "en_opening (r_heap (evict_loop s) a) = en_opening (r_heap s a)"
    by simp_all
qed

lemma evict_loop_bounded: "length (r_cache (evict_loop s)) \<le> r_keep s"
proof (induction s rule: evict_loop.induct)
  case (1 s)
  then show ?case by (subst evict_loop.simps) (auto simp: evictOldest_cache)
qed

subsection \<open>Eviction\<close>

lemma cached_tl:
  assumes "cache_ok s" "r_cache s = (i, a) # rest"
  shows "(en_id (r_heap s b), b) \<in> set rest \<longleftrightarrow> cached s b \<and> b \<noteq> a"
  using assms by (force simp: cache_ok_def cached_def)

lemma evictOldest_wf:
  assumes "reader_wf u s" "r_cache s \<noteq> []"
  shows "reader_wf u (evictOldest s)"
proof -
  obtain i a rest where c: "r_cache s = (i, a) # rest" using assms(2) by (cases "r_cache s") auto
  have co: "cache_ok s" and so: "set_ok s" and e: "\<And>b. b < r_next s \<Longrightarrow> entry_ok (r_heap s b) (u b) (cached s b)"
    using assms(1) by (auto simp: reader_wf_def entries_ok_def)
  have a: "a < r_next s" "en_id (r_heap s a) = i" using co c by (auto simp: cache_ok_def)
  let ?t = "evictOldest s"
  have h: "r_heap ?t b = (if b = a then (r_heap s a)\<lparr>en_evicted := True, en_disposeStarted := en_disposeStarted (r_heap s a) \<or> en_leases (r_heap s a) = 0\<rparr>
      else r_heap s b)" for b
    by (simp add: evictOldest_def c)
  have cd: "cached ?t b \<longleftrightarrow> cached s b \<and> b \<noteq> a" for b
    using cached_tl [OF co c, of b] by (simp add: cached_def evictOldest_cache c h)
  have "cached s a" using a c by (simp add: cached_def)
  then have "entry_ok (r_heap ?t b) (u b) (cached ?t b)" if "b < r_next s" for b
    using e [OF that] by (cases "b = a") (auto simp: h cd entry_ok_def)
  then have "entries_ok u ?t" by (simp add: entries_ok_def)
  moreover have "cache_ok ?t" using co c by (auto simp: cache_ok_def evictOldest_cache h)
  moreover have "set_ok ?t" using so c by (auto simp: set_ok_def h evictOldest_cache)
  ultimately show ?thesis by (simp add: reader_wf_def)
qed

lemma evict_loop_wf: "reader_wf u s \<Longrightarrow> reader_wf u (evict_loop s)"
  by (rule evict_loop_induct [where P = "reader_wf u"]) (simp_all add: evictOldest_wf)

subsection \<open>Updates of one entry\<close>

lemma upd_upd [simp]: "upd_entry a g (upd_entry a f s) = upd_entry a (\<lambda>e. g (f e)) s"
  by (simp add: upd_entry_def)

lemma disposeWhenUnused_upd:
  "disposeWhenUnused a s = upd_entry a (\<lambda>e. e\<lparr>en_disposeStarted := en_disposeStarted e \<or> en_evicted e \<and> en_leases e = 0\<rparr>) s"
  by (auto simp: disposeWhenUnused_def upd_entry_def Let_def fun_eq_iff)

lemma upd_wf:
  assumes "reader_wf u s" "a < r_next s" "entry_ok (f (r_heap s a)) n (cached s a)"
    and "en_id (f (r_heap s a)) = en_id (r_heap s a)"
    and "en_disposed (r_heap s a) \<Longrightarrow> en_disposed (f (r_heap s a))" "en_evicted (r_heap s a) \<Longrightarrow> en_evicted (f (r_heap s a))"
  shows "reader_wf (u(a := n)) (upd_entry a f s)"
proof -
  have "cached (upd_entry a f s) b = cached s b" for b using assms(4) by (simp add: cached_def)
  then have "entries_ok (u(a := n)) (upd_entry a f s)" using assms(1-3) by (simp add: reader_wf_def entries_ok_def)
  moreover have "cache_ok (upd_entry a f s)" using assms(1,4) by (auto simp: reader_wf_def cache_ok_def)
  moreover have "set_ok (upd_entry a f s)" using assms(1,5,6) by (auto simp: reader_wf_def set_ok_def)
  ultimately show ?thesis by (simp add: reader_wf_def)
qed

lemma wf_entry: "reader_wf u s \<Longrightarrow> a < r_next s \<Longrightarrow> entry_ok (r_heap s a) (u a) (cached s a)"
  by (simp add: reader_wf_def entries_ok_def)

lemma lease_up_wf:
  assumes "reader_wf u s" "a < r_next s" "cached s a"
  shows "reader_wf (u(a := Suc (u a))) (upd_entry a (\<lambda>e. e\<lparr>en_leases := en_leases e + 1\<rparr>) s)"
  using wf_entry [OF assms(1,2)] assms(3) by (intro upd_wf assms) (auto simp: entry_ok_def)

lemma drop_lease_wf:
  assumes "reader_wf u s" "a < r_next s" "0 < u a"
  shows "reader_wf (u(a := u a - 1)) (drop_lease a s)"
  using wf_entry [OF assms(1,2)] assms(3) unfolding drop_lease_def disposeWhenUnused_upd upd_upd
  by (intro upd_wf assms) (auto simp: entry_ok_def)

lemma wf_frame:
  assumes "reader_wf u s" "r_heap t = r_heap s" "r_next t = r_next s" "r_cache t = r_cache s" "r_entries t = r_entries s"
    "r_disposed t = r_disposed s" "r_disposal t = r_disposal s"
  shows "reader_wf u t"
  using assms by (simp add: reader_wf_def entries_ok_def cache_ok_def set_ok_def cached_def)

subsection \<open>Calls\<close>

lemma take_entry_wf:
  assumes "reader_wf u s" "\<not> r_disposed s" "u (r_next s) = 0" "take_entry i s = (a, t)"
  shows "reader_wf u t \<and> a < r_next t \<and> cached t a \<and> r_next s \<le> r_next t \<and> r_waiting t = r_waiting s \<and> r_leases t = r_leases s \<and>
    r_keep t = r_keep s \<and> \<not> r_disposed t \<and> (\<forall>b<r_next s. en_opening (r_heap t b) = en_opening (r_heap s b))"
proof (cases "map_of (r_cache s) i")
  case (Some b)
  then have t: "a = b" "t = s\<lparr>r_cache := filter (\<lambda>(j, _). j \<noteq> i) (r_cache s) @ [(i, a)]\<rparr>" using assms(4) by (auto simp: take_entry_def)
  have co: "cache_ok s" and so: "set_ok s" and eo: "entries_ok u s" using assms(1) by (simp_all add: reader_wf_def)
  have mem: "(i, a) \<in> set (r_cache s)" using Some t(1) by (simp add: map_of_SomeD)
  then have same: "set (r_cache t) = set (r_cache s)" using co by (auto simp: t(2) cache_ok_def dest: eq_key_imp_eq_value)
  have "distinct (map fst (r_cache t))" using co by (auto simp: t(2) cache_ok_def distinct_map_filter)
  then have "cache_ok t" using co same by (simp add: cache_ok_def t(2))
  moreover have "entries_ok u t" using eo same by (simp add: entries_ok_def cached_def t(2))
  moreover have "set_ok t" using so assms(2) by (simp add: set_ok_def t(2))
  moreover have "a < r_next s" "cached t a" using co mem same by (auto simp: cache_ok_def cached_def t(2))
  ultimately show ?thesis using assms(2) by (simp add: reader_wf_def t(2))
next
  case None
  then have a: "a = r_next s" and t: "t = s\<lparr>r_heap := (r_heap s)(a := new_entry i), r_next := Suc a, r_cache := r_cache s @ [(i, a)], r_entries := r_entries s @ [a]\<rparr>"
    using assms(4) by (auto simp: take_entry_def Let_def)
  have co: "cache_ok s" and so: "set_ok s" and eo: "entries_ok u s" using assms(1) by (simp_all add: reader_wf_def)
  have "i \<notin> fst ` set (r_cache s)" using None by (simp add: map_of_eq_None_iff)
  then have "cache_ok t" using co by (auto simp: cache_ok_def t a new_entry_def)
  moreover have "cached t b \<longleftrightarrow> (if b = a then True else cached s b)" for b
    by (auto simp: cached_def t a new_entry_def)
  then have "entries_ok u t" using eo assms(3) by (auto simp: entries_ok_def t a less_Suc_eq entry_ok_def new_entry_def)
  moreover have "set_ok t" using so assms(2) by (auto simp: set_ok_def t a less_Suc_eq)
  ultimately show ?thesis using assms(2) by (simp add: reader_wf_def t a cached_def new_entry_def)
qed

lemma users_fresh: "uses_ok s \<Longrightarrow> r_next s \<le> a \<Longrightarrow> users s a = 0"
  by (auto simp: users_def uses_ok_def count_list_0_iff filter_empty_conv)

lemma call_inv:
  assumes "reader_inv s"
  shows "reader_inv (reader_call i s)"
proof (cases "r_disposed s")
  case False
  obtain a t where t: "take_entry i s = (a, t)" by force
  have wf: "reader_wf (users s) s" and us: "uses_ok s" using assms by (simp_all add: reader_inv_def)
  note te = take_entry_wf [OF wf False users_fresh [OF us order_refl] t]
  let ?t2 = "upd_entry a (\<lambda>e. e\<lparr>en_leases := en_leases e + 1\<rparr>) t"
  let ?t3 = "evict_loop ?t2"
  have "reader_wf ((users s)(a := Suc (users s a))) ?t3" using lease_up_wf te by (auto intro: evict_loop_wf)
  moreover have "users (?t3\<lparr>r_waiting := a # r_waiting ?t3\<rparr>) = (users s)(a := Suc (users s a))"
    using te by (auto simp: users_def fun_eq_iff)
  moreover have "uses_ok (?t3\<lparr>r_waiting := a # r_waiting ?t3\<rparr>)" using us te by (fastforce simp: uses_ok_def)
  moreover have "length (r_cache ?t3) \<le> r_keep ?t3" using evict_loop_bounded [of ?t2] by simp
  ultimately show ?thesis using False
    by (auto simp: reader_inv_def reader_call_def t Let_def intro: wf_frame)
qed (use assms in \<open>simp add: reader_call_def\<close>)

subsection \<open>Callers and leases\<close>

lemma drop_lease_frame [simp]:
  "r_keep (drop_lease a s) = r_keep s" "r_next (drop_lease a s) = r_next s" "r_cache (drop_lease a s) = r_cache s"
  "r_waiting (drop_lease a s) = r_waiting s" "r_leases (drop_lease a s) = r_leases s"
  "en_opening (r_heap (drop_lease a s) b) = en_opening (r_heap s b)"
  by (simp_all add: drop_lease_def)

lemma users_waiting: "users (s\<lparr>r_waiting := w\<rparr>) a = count_list w a + length (filter (\<lambda>(b, r). b = a \<and> \<not> r) (r_leases s))"
  by (simp add: users_def)

lemma count_list_remove1: "count_list (remove1 x xs) y = count_list xs y - (if x = y then 1 else 0)"
  by (induction xs) (auto simp: count_list_0_iff)

lemma count_list_pos: "x \<in> set xs \<Longrightarrow> 0 < count_list xs x"
  by (induction xs) auto

lemma resume_inv:
  assumes "reader_inv s" "a \<in> set (r_waiting s)" "en_opening (r_heap s a) \<noteq> Opening"
  shows "reader_inv (reader_resume a s)"
proof -
  have wf: "reader_wf (users s) s" and us: "uses_ok s" and len: "length (r_cache s) \<le> r_keep s" using assms(1) by (simp_all add: reader_inv_def)
  have a: "a < r_next s" "0 < count_list (r_waiting s) a" using us assms(2) count_list_pos by (auto simp: uses_ok_def)
  let ?s1 = "s\<lparr>r_waiting := remove1 a (r_waiting s)\<rparr>"
  have rem: "set (remove1 a (r_waiting s)) \<subseteq> {..<r_next s}" using us set_remove1_subset [of a "r_waiting s"] by (auto simp: uses_ok_def)
  show ?thesis
  proof (cases "en_opening (r_heap s a) = Opened")
    case True
    let ?t = "?s1\<lparr>r_leases := r_leases s @ [(a, False)]\<rparr>"
    have "users ?t = users s" using a(2) by (auto simp: users_def fun_eq_iff count_list_remove1)
    then have "reader_wf (users ?t) ?t" using wf by (auto intro: wf_frame)
    moreover have "uses_ok ?t" using us rem a(1) True by (auto simp: uses_ok_def)
    ultimately show ?thesis using True len by (simp add: reader_inv_def reader_resume_def Let_def)
  next
    case False
    have u: "users s a > 0" using a(2) by (simp add: users_def)
    have "reader_wf (users s) ?s1" using wf by (auto intro: wf_frame)
    then have "reader_wf ((users s)(a := users s a - 1)) (drop_lease a ?s1)" using drop_lease_wf a(1) u by simp
    moreover have "users (drop_lease a ?s1) = (users s)(a := users s a - 1)"
      using a(2) by (auto simp: users_def fun_eq_iff count_list_remove1)
    moreover have "uses_ok (drop_lease a ?s1)" using us rem by (auto simp: uses_ok_def)
    ultimately show ?thesis using False len by (simp add: reader_inv_def reader_resume_def Let_def)
  qed
qed

lemma filter_length_update:
  assumes "l < length xs" "P (xs ! l)" "\<not> P y"
  shows "length (filter P (xs[l := y])) = length (filter P xs) - 1"
proof -
  have "xs = take l xs @ xs ! l # drop (Suc l) xs" using assms(1) by (simp add: id_take_nth_drop)
  moreover have "xs[l := y] = take l xs @ y # drop (Suc l) xs" using assms(1) by (simp add: upd_conv_take_nth_drop)
  ultimately have "length (filter P xs) = length (filter P (take l xs @ xs ! l # drop (Suc l) xs))"
      "length (filter P (xs[l := y])) = length (filter P (take l xs @ y # drop (Suc l) xs))" by metis+
  then show ?thesis using assms(2,3) by simp
qed

lemma filter_length_update_other:
  assumes "l < length xs" "\<not> P (xs ! l)" "\<not> P y"
  shows "length (filter P (xs[l := y])) = length (filter P xs)"
proof -
  have "filter P (xs[l := y]) = filter P (take l xs @ y # drop (Suc l) xs)" using assms(1) by (simp add: upd_conv_take_nth_drop)
  also have "\<dots> = filter P (take l xs @ xs ! l # drop (Suc l) xs)" using assms(2,3) by simp
  also have "\<dots> = filter P xs" using id_take_nth_drop [OF assms(1)] by simp
  finally show ?thesis by simp
qed

lemma release_inv:
  assumes "reader_inv s" "l < length (r_leases s)"
  shows "reader_inv (lease_release l s)"
proof -
  obtain a r where l: "r_leases s ! l = (a, r)" by force
  show ?thesis
  proof (cases r)
    case False
    have wf: "reader_wf (users s) s" and us: "uses_ok s" and len: "length (r_cache s) \<le> r_keep s" using assms(1) by (simp_all add: reader_inv_def)
    have mem: "(a, False) \<in> set (r_leases s)" using l assms(2) False nth_mem by metis
    let ?s1 = "s\<lparr>r_leases := (r_leases s)[l := (a, True)]\<rparr>"
    have a: "a < r_next s" using us mem by (auto simp: uses_ok_def)
    have "filter (\<lambda>(b, r). b = a \<and> \<not> r) (r_leases s) \<noteq> []" using mem by (auto simp: filter_empty_conv)
    then have u: "0 < users s a" by (simp add: users_def)
    have "reader_wf (users s) ?s1" using wf by (auto intro: wf_frame)
    then have "reader_wf ((users s)(a := users s a - 1)) (drop_lease a ?s1)" using drop_lease_wf a u by simp
    moreover have "users (drop_lease a ?s1) b = ((users s)(a := users s a - 1)) b" for b
    proof (cases "b = a")
      case True
      have "length (filter (\<lambda>(b, r). b = a \<and> \<not> r) (r_leases s)) > 0" using mem by (auto simp: filter_empty_conv)
      then show ?thesis using filter_length_update [of l "r_leases s" "\<lambda>(b, r). b = a \<and> \<not> r" "(a, True)"] assms(2) l False True
        by (simp add: users_def del: length_greater_0_conv)
    next
      case neq: False
      then show ?thesis using filter_length_update_other [of l "r_leases s" "\<lambda>(c, r). c = b \<and> \<not> r" "(a, True)"] assms(2) l
        by (simp add: users_def)
    qed
    then have "users (drop_lease a ?s1) = (users s)(a := users s a - 1)" by (rule ext)
    moreover have "set ((r_leases s)[l := (a, True)]) \<subseteq> insert (a, True) (set (r_leases s))" by (rule set_update_subset_insert)
    then have "uses_ok (drop_lease a ?s1)" using us mem by (fastforce simp: uses_ok_def)
    ultimately show ?thesis using False len l by (simp add: reader_inv_def lease_release_def)
  qed (use assms l in \<open>simp add: lease_release_def\<close>)
qed

subsection \<open>Reactions\<close>

lemma users_frame: "r_waiting t = r_waiting s \<Longrightarrow> r_leases t = r_leases s \<Longrightarrow> users t = users s"
  by (simp add: users_def fun_eq_iff)

lemma settle_inv:
  assumes "reader_inv s" "a < r_next s" "en_opening (r_heap s a) = Opening" "r \<noteq> Opening"
  shows "reader_inv (opening_settles r a s)"
proof -
  have wf: "reader_wf (users s) s" using assms(1) by (simp add: reader_inv_def)
  have "reader_wf ((users s)(a := users s a)) (opening_settles r a s)"
    using wf_entry [OF wf assms(2)] assms(3,4) unfolding opening_settles_def
    by (intro upd_wf wf assms(2)) (auto simp: entry_ok_def)
  moreover have "users (opening_settles r a s) = users s" by (rule users_frame) (simp_all add: opening_settles_def)
  moreover have "uses_ok (opening_settles r a s)"
    using assms(1,3) by (fastforce simp: reader_inv_def uses_ok_def opening_settles_def)
  ultimately show ?thesis using assms(1) by (simp add: reader_inv_def opening_settles_def)
qed

lemma uncache_inv:
  assumes "reader_inv s" "a < r_next s" "en_opening (r_heap s a) = OpenFailed"
  shows "reader_inv (uncache_failed a s)"
proof (cases "map_of (r_cache s) (en_id (r_heap s a)) = Some a")
  case True
  let ?i = "en_id (r_heap s a)"
  let ?t = "s\<lparr>r_cache := filter (\<lambda>(j, _). j \<noteq> ?i) (r_cache s)\<rparr>"
  have co: "cache_ok s" and so: "set_ok s" and eo: "entries_ok (users s) s" using assms(1) by (simp_all add: reader_inv_def reader_wf_def)
  have "(?i, a) \<in> set (r_cache s)" using True by (rule map_of_SomeD)
  then have "cached ?t b \<longleftrightarrow> cached s b \<and> b \<noteq> a" for b
    using co by (auto simp: cached_def cache_ok_def dest: eq_key_imp_eq_value)
  then have "entry_ok (r_heap ?t b) (users s b) (cached ?t b)" if "b < r_next s" for b
    using eo assms(3) that by (cases "b = a") (auto simp: entries_ok_def entry_ok_def)
  then have "entries_ok (users s) ?t" by (simp add: entries_ok_def)
  moreover have "cache_ok ?t" using co by (auto simp: cache_ok_def distinct_map_filter)
  moreover have "set_ok ?t" using so by (auto simp: set_ok_def)
  moreover have "users ?t = users s" by (rule users_frame) simp_all
  moreover have "length (r_cache ?t) \<le> r_keep s" using assms(1) by (auto simp: reader_inv_def intro: le_trans [OF length_filter_le])
  ultimately show ?thesis using assms(1) True by (simp add: reader_inv_def reader_wf_def uncache_failed_def uses_ok_def)
qed (use assms in \<open>simp add: uncache_failed_def\<close>)

lemma wf_forget:
  assumes "reader_wf u s" "en_disposed (r_heap s a)"
  shows "reader_wf u (s\<lparr>r_entries := removeAll a (r_entries s)\<rparr>)"
  using assms by (auto simp: reader_wf_def entries_ok_def cache_ok_def set_ok_def cached_def)

lemma dispose_run_inv:
  assumes "reader_inv s" "a < r_next s" "en_disposeStarted (r_heap s a)"
  shows "reader_inv (dispose_runs a s)"
proof -
  let ?f = "\<lambda>e. e\<lparr>en_packDisposed := en_opening e = Opened \<or> en_packDisposed e, en_disposed := True\<rparr>"
  have eq: "dispose_runs a s = (upd_entry a ?f s)\<lparr>r_entries := removeAll a (r_entries (upd_entry a ?f s))\<rparr>"
    by (simp add: dispose_runs_def upd_entry_def Let_def)
  have wf: "reader_wf (users s) s" using assms(1) by (simp add: reader_inv_def)
  have "reader_wf ((users s)(a := users s a)) (upd_entry a ?f s)"
    using wf_entry [OF wf assms(2)] assms(3) by (intro upd_wf wf assms(2)) (auto simp: entry_ok_def)
  then have "reader_wf (users s) (dispose_runs a s)" unfolding eq by (intro wf_forget) simp_all
  moreover have "users (dispose_runs a s) = users s" by (rule users_frame) (simp_all add: eq)
  moreover have "uses_ok (dispose_runs a s)" using assms(1) by (auto simp: reader_inv_def uses_ok_def eq)
  ultimately show ?thesis using assms(1) by (simp add: reader_inv_def eq)
qed

subsection \<open>Disposing of the reader\<close>

definition evicted_entry :: "cache_entry \<Rightarrow> cache_entry" where
  "evicted_entry e = e\<lparr>en_evicted := True, en_disposeStarted := en_disposeStarted e \<or> en_leases e = 0\<rparr>"

lemma evict_pending_upd: "evict_pending a s = upd_entry a evicted_entry s"
  by (simp add: evict_pending_def disposeWhenUnused_upd evicted_entry_def upd_entry_def)

lemma fold_evict_pending:
  "fold evict_pending as s = s\<lparr>r_heap := (\<lambda>b. if b \<in> set as then evicted_entry (r_heap s b) else r_heap s b)\<rparr>"
proof (induction as arbitrary: s)
  case (Cons a as)
  have "evicted_entry (evicted_entry e) = evicted_entry e" for e by (cases e) (simp add: evicted_entry_def)
  then show ?case by (simp only: fold_simps Cons.IH) (auto simp: evict_pending_upd upd_entry_def fun_eq_iff cong: if_cong)
qed simp

lemma dispose_inv:
  assumes "reader_inv s"
  shows "reader_inv (reader_dispose s)"
proof (cases "r_disposal s")
  case None
  let ?t = "s\<lparr>r_disposed := True, r_cache := [], r_disposal := Some (r_entries s),
      r_heap := (\<lambda>b. if b \<in> set (r_entries s) then evicted_entry (r_heap s b) else r_heap s b)\<rparr>"
  have eq: "reader_dispose s = ?t" using None by (simp add: reader_dispose_def fold_evict_pending Let_def cong: if_cong)
  have eo: "\<And>b. b < r_next s \<Longrightarrow> entry_ok (r_heap s b) (users s b) (cached s b)" and so: "set_ok s"
    using assms by (simp_all add: reader_inv_def reader_wf_def entries_ok_def)
  have gone: "en_evicted (r_heap s b)" if "b < r_next s" "b \<notin> set (r_entries s)" for b
    using so eo [OF that(1)] that by (auto simp: set_ok_def entry_ok_def)
  have "entry_ok (r_heap ?t b) (users s b) (cached ?t b)" if "b < r_next s" for b
    using eo [OF that] gone [OF that] by (auto simp: entry_ok_def evicted_entry_def cached_def)
  then have "entries_ok (users s) ?t" by (simp add: entries_ok_def)
  moreover have "cache_ok ?t" by (simp add: cache_ok_def)
  moreover have "set_ok ?t" using so gone by (auto simp: set_ok_def evicted_entry_def)
  moreover have "users ?t = users s" by (rule users_frame) simp_all
  moreover have "uses_ok ?t" using assms by (auto simp: reader_inv_def uses_ok_def evicted_entry_def)
  ultimately show ?thesis by (simp add: reader_inv_def reader_wf_def eq)
qed (use assms in \<open>simp add: reader_dispose_def\<close>)

subsection \<open>Reachable readers\<close>

lemma start_inv: "reader_start s \<Longrightarrow> reader_inv s"
  by (simp add: reader_start_def reader_inv_def reader_defs uses_ok_def)

lemma reader_step_inv: "reader_inv s \<Longrightarrow> reader_step ev s = Some t \<Longrightarrow> reader_inv t"
  by (cases ev) (auto simp: reader_step_def call_inv settle_inv uncache_inv resume_inv release_inv dispose_inv dispose_run_inv
      split: if_splits)

interpretation reader_sys: invariant_system reader_start reader_step reader_reachable reader_inv
proof unfold_locales
  show "reader_reachable s" if "reader_start s" for s using that by (rule start)
  show "reader_reachable t" if "reader_reachable s" "reader_step e s = Some t" for s e t using that by (rule step)
  show "P s" if "reader_reachable s" "\<And>s. reader_start s \<Longrightarrow> P s"
    "\<And>s e t. reader_reachable s \<Longrightarrow> P s \<Longrightarrow> reader_step e s = Some t \<Longrightarrow> P t" for P s
    using that(1)
  proof induction
    case (step s ev t)
    show ?case using step(1,3,2) by (rule that(3))
  qed (rule that(2))
  show "reader_inv s" if "reader_start s" for s using that by (rule start_inv)
  show "reader_inv t" if "reader_inv s" "reader_step e s = Some t" for s e t using that by (rule reader_step_inv)
qed

section \<open>What the cache promises\<close>

lemma reachable_entry:
  assumes "reader_reachable s" "a < r_next s"
  shows "entry_ok (r_heap s a) (users s a) (cached s a)"
  using reader_sys.reachable_inv [OF assms(1)] assms(2) wf_entry by (simp add: reader_inv_def)

lemma held_lease_used:
  assumes "reader_inv s" "(a, False) \<in> set (r_leases s)"
  shows "a < r_next s" "0 < users s a"
proof -
  show "a < r_next s" using assms by (auto simp: reader_inv_def uses_ok_def)
  have "filter (\<lambda>(b, r). b = a \<and> \<not> r) (r_leases s) \<noteq> []" using assms(2) by (auto simp: filter_empty_conv)
  then show "0 < users s a" by (simp add: users_def)
qed

text \<open>
  Property C29: a lease can be read from until it is released: whatever else was called, evicted, failed or
  disposed of meanwhile, in whatever order, its pack has not been wiped.
\<close>

theorem held_lease_reads:
  assumes "reader_reachable s" "l < length (r_leases s)" "\<not> snd (r_leases s ! l)"
  shows "lease_reads l s"
proof -
  obtain a where a: "r_leases s ! l = (a, False)" using assms(3) by (cases "r_leases s ! l") auto
  then have "(a, False) \<in> set (r_leases s)" using assms(2) nth_mem by metis
  then have "a < r_next s" "0 < users s a" using held_lease_used reader_sys.reachable_inv [OF assms(1)] by blast+
  then show ?thesis using reachable_entry [OF assms(1), of a] a by (auto simp: entry_ok_def lease_reads_def)
qed

definition demo_reader :: pack_reader where
  "demo_reader = \<lparr>r_keep = 1, r_heap = (\<lambda>_. new_entry []), r_next = 0, r_cache = [], r_entries = [], r_disposed = False,
     r_disposal = None, r_waiting = [], r_leases = []\<rparr>"

text \<open>Two packs are opened one after the other in a cache for one, and the reader is disposed of.\<close>

definition demo_leased :: pack_reader where
  "demo_leased = reader_dispose (reader_call (lit ''b'') (reader_resume 0 (opening_settles Opened 0 (reader_call (lit ''a'') demo_reader))))"

lemma evict_loop_step:
  "r_cache s = c # cs \<Longrightarrow> r_keep s < length (r_cache s) \<Longrightarrow> evict_loop s = evict_loop (evictOldest s)"
  "length (r_cache s) \<le> r_keep s \<Longrightarrow> evict_loop s = s"
  by (simp_all add: evict_loop.simps [of s])

lemma demo_called: "reader_call (lit ''a'') demo_reader =
    demo_reader\<lparr>r_heap := (\<lambda>_. new_entry [])(0 := (new_entry (lit ''a''))\<lparr>en_leases := 1\<rparr>), r_next := 1, r_cache := [(lit ''a'', 0)],
      r_entries := [0], r_waiting := [0]\<rparr>"
  by (simp add: reader_call_def take_entry_def demo_reader_def upd_entry_def evict_loop_step new_entry_def)

lemma demo_resumed_reachable:
  "reader_reachable (reader_resume 0 (opening_settles Opened 0 (reader_call (lit ''a'') demo_reader)))"
proof -
  let ?s1 = "reader_call (lit ''a'') demo_reader" and ?settle = "opening_settles Opened 0"
  have r0: "reader_reachable demo_reader" by (rule start) (simp add: demo_reader_def reader_start_def)
  have r1: "reader_reachable ?s1" by (rule step [OF r0, of "Call (lit ''a'')"]) (simp add: reader_step_def)
  have r2: "reader_reachable (?settle ?s1)"
    by (rule step [OF r1, of "Settle Opened 0"]) (simp add: reader_step_def demo_called new_entry_def)
  show ?thesis
    by (rule step [OF r2, of "Resume 0"]) (simp add: reader_step_def demo_called opening_settles_def)
qed

lemma demo_leased_reachable: "reader_reachable demo_leased"
proof -
  have r4: "reader_reachable (reader_call (lit ''b'') (reader_resume 0 (opening_settles Opened 0 (reader_call (lit ''a'') demo_reader))))"
    by (rule step [OF demo_resumed_reachable, of "Call (lit ''b'')"]) (simp add: reader_step_def)
  show ?thesis unfolding demo_leased_def by (rule step [OF r4, of Dispose]) (simp add: reader_step_def)
qed

lemma take_entry_leases: "r_leases (snd (take_entry i s)) = r_leases s"
  by (simp add: take_entry_def Let_def split: option.split)

lemma reader_call_leases [simp]: "r_leases (reader_call i s) = r_leases s"
  using take_entry_leases [of i s] by (simp add: reader_call_def Let_def case_prod_beta)

lemma reader_dispose_leases [simp]: "r_leases (reader_dispose s) = r_leases s"
  by (simp add: reader_dispose_def fold_evict_pending Let_def)

lemma demo_leased_leases: "r_leases demo_leased = [(0, False)]"
  by (simp add: demo_leased_def demo_called reader_resume_def opening_settles_def demo_reader_def)

theorem held_lease_reads_witness: "lease_reads 0 demo_leased"
  by (rule held_lease_reads [OF demo_leased_reachable]) (simp_all add: demo_leased_leases)

definition open_packs :: "pack_reader \<Rightarrow> nat set" where
  "open_packs s = {a. a < r_next s \<and> en_opening (r_heap s a) = Opened \<and> \<not> en_disposeStarted (r_heap s a)}"

definition lease_count :: "pack_reader \<Rightarrow> nat" where
  "lease_count s = length (filter (\<lambda>(_, released). \<not> released) (r_leases s))"

lemma used_entries: "{a. 0 < users s a} \<subseteq> set (r_waiting s) \<union> fst ` set (filter (\<lambda>(_, released). \<not> released) (r_leases s))"
proof
  fix a
  assume "a \<in> {a. 0 < users s a}"
  then have "count_list (r_waiting s) a \<noteq> 0 \<or> filter (\<lambda>(b, released). b = a \<and> \<not> released) (r_leases s) \<noteq> []" by (auto simp: users_def)
  then show "a \<in> set (r_waiting s) \<union> fst ` set (filter (\<lambda>(_, released). \<not> released) (r_leases s))"
    by (force simp: count_list_0_iff filter_empty_conv)
qed

text \<open>
  Property C30: the cache holds at most \<open>keep\<close> packs, and at most that many packs more than there are callers
  and unreleased leases are open without being given up for disposal.
\<close>

theorem open_packs_bounded:
  assumes "reader_reachable s"
  shows "length (r_cache s) \<le> r_keep s \<and> card (open_packs s) \<le> r_keep s + length (r_waiting s) + lease_count s"
proof -
  have len: "length (r_cache s) \<le> r_keep s" using reader_sys.reachable_inv [OF assms] by (simp add: reader_inv_def)
  let ?held = "filter (\<lambda>(_, released). \<not> released) (r_leases s)"
  have "a \<in> snd ` set (r_cache s) \<union> {a. 0 < users s a}" if "a \<in> open_packs s" for a
    using reachable_entry [OF assms, of a] that by (force simp: open_packs_def entry_ok_def cached_def)
  then have "open_packs s \<subseteq> set (map snd (r_cache s) @ r_waiting s @ map fst ?held)" using used_entries [of s] by auto
  then have "card (open_packs s) \<le> length (map snd (r_cache s) @ r_waiting s @ map fst ?held)"
    by (meson List.finite_set card_length card_mono le_trans)
  then show ?thesis using len by (simp add: lease_count_def)
qed

theorem open_packs_bounded_witness:
  "length (r_cache demo_leased) \<le> r_keep demo_leased \<and>
   card (open_packs demo_leased) \<le> r_keep demo_leased + length (r_waiting demo_leased) + lease_count demo_leased"
  by (rule open_packs_bounded [OF demo_leased_reachable])

section \<open>Disposal ends\<close>

fun run_reader :: "reader_event list \<Rightarrow> pack_reader \<Rightarrow> pack_reader option" where
  "run_reader [] s = Some s"
| "run_reader (ev # evs) s = Option.bind (reader_step ev s) (run_reader evs)"

lemma dispose_runs_frame:
  "r_next (dispose_runs a s) = r_next s" "en_opening (r_heap (dispose_runs a s) b) = en_opening (r_heap s b)"
  "en_disposeStarted (r_heap (dispose_runs a s) b) = en_disposeStarted (r_heap s b)"
  "en_disposed (r_heap (dispose_runs a s) b) = (b = a \<or> en_disposed (r_heap s b))"
  by (simp_all add: dispose_runs_def Let_def)

lemma dispose_each:
  "\<forall>a\<in>set as. a < r_next s \<and> en_disposeStarted (r_heap s a) \<and> en_opening (r_heap s a) \<noteq> Opening \<Longrightarrow>
   \<exists>evs t. run_reader evs s = Some t \<and> set evs \<subseteq> DisposeRun ` set as \<and> (\<forall>a\<in>set as. en_disposed (r_heap t a)) \<and>
     (\<forall>b. en_disposed (r_heap s b) \<longrightarrow> en_disposed (r_heap t b))"
proof (induction as arbitrary: s)
  case Nil
  show ?case by (rule exI [of _ "[]"]) simp
next
  case (Cons a as)
  define s1 where "s1 = (if en_disposed (r_heap s a) then s else dispose_runs a s)"
  define pre where "pre = (if en_disposed (r_heap s a) then [] else [DisposeRun a])"
  have "\<forall>b\<in>set as. b < r_next s1 \<and> en_disposeStarted (r_heap s1 b) \<and> en_opening (r_heap s1 b) \<noteq> Opening"
    using Cons.prems by (simp add: s1_def dispose_runs_frame)
  then obtain evs t where t: "run_reader evs s1 = Some t" "set evs \<subseteq> DisposeRun ` set as" "\<forall>b\<in>set as. en_disposed (r_heap t b)"
      "\<forall>b. en_disposed (r_heap s1 b) \<longrightarrow> en_disposed (r_heap t b)"
    using Cons.IH by blast
  have "run_reader (pre @ evs) s = Some t" using t(1) Cons.prems by (cases "en_disposed (r_heap s a)") (simp_all add: pre_def s1_def reader_step_def)
  moreover have "set (pre @ evs) \<subseteq> DisposeRun ` set (a # as)" using t(2) by (auto simp: pre_def)
  moreover have "en_disposed (r_heap s1 a)" "\<forall>b. en_disposed (r_heap s b) \<longrightarrow> en_disposed (r_heap s1 b)"
    by (simp_all add: s1_def dispose_runs_frame)
  ultimately show ?case using t by (intro exI [of _ "pre @ evs"] exI [of _ t]) auto
qed

text \<open>
  Property C31: the promise of \<open>dispose\<close> resolves: once every call has been answered, every lease is released
  and the openings have settled, the disposal of every pack it waits for has been started, and running
  those reactions marks all of them as disposed of, with nothing else to wait for.
\<close>

theorem dispose_resolves:
  assumes "reader_reachable s" "r_disposal s = Some pending"
    and "r_waiting s = []" "lease_count s = 0" "\<And>a. a < r_next s \<Longrightarrow> en_opening (r_heap s a) \<noteq> Opening"
  shows "\<exists>evs t. run_reader evs s = Some t \<and> set evs \<subseteq> DisposeRun ` set pending \<and> (\<forall>a\<in>set pending. en_disposed (r_heap t a))"
proof -
  have so: "set_ok s" using reader_sys.reachable_inv [OF assms(1)] by (simp add: reader_inv_def reader_wf_def)
  have none: "filter (\<lambda>(_, released). \<not> released) (r_leases s) = []" using assms(4) by (simp add: lease_count_def)
  have "{a. 0 < users s a} \<subseteq> {}" using used_entries [of s] unfolding assms(3) none by simp
  then have u: "users s a = 0" for a by auto
  have "a < r_next s \<and> en_disposeStarted (r_heap s a) \<and> en_opening (r_heap s a) \<noteq> Opening" if "a \<in> set pending" for a
  proof -
    have a: "a < r_next s" "en_evicted (r_heap s a)" using so assms(2) that by (auto simp: set_ok_def)
    then show ?thesis using reachable_entry [OF assms(1) a(1)] u assms(5) by (simp add: entry_ok_def)
  qed
  then have "\<forall>a\<in>set pending. a < r_next s \<and> en_disposeStarted (r_heap s a) \<and> en_opening (r_heap s a) \<noteq> Opening" by blast
  from dispose_each [OF this] show ?thesis by blast
qed

definition demo_released :: pack_reader where
  "demo_released = lease_release 0 (reader_dispose (reader_resume 0 (opening_settles Opened 0 (reader_call (lit ''a'') demo_reader))))"

lemma demo_released_reachable: "reader_reachable demo_released"
proof -
  let ?s3 = "reader_resume 0 (opening_settles Opened 0 (reader_call (lit ''a'') demo_reader))"
  have "reader_reachable (reader_dispose ?s3)" by (rule step [OF demo_resumed_reachable, of Dispose]) (simp add: reader_step_def)
  then show ?thesis unfolding demo_released_def
    by (rule step [of _ "Release 0"]) (simp add: reader_step_def demo_called reader_resume_def opening_settles_def demo_reader_def)
qed

lemma demo_released_parts:
  "r_disposal demo_released = Some [0]" "r_waiting demo_released = []" "lease_count demo_released = 0" "r_next demo_released = 1"
  "en_opening (r_heap demo_released 0) = Opened"
  unfolding demo_released_def demo_called
  by (simp_all add: lease_release_def drop_lease_def reader_dispose_def fold_evict_pending Let_def
      reader_resume_def opening_settles_def demo_reader_def lease_count_def evicted_entry_def)

theorem dispose_resolves_witness:
  "\<exists>evs t. run_reader evs demo_released = Some t \<and> set evs \<subseteq> DisposeRun ` set [0] \<and> (\<forall>a\<in>set [0]. en_disposed (r_heap t a))"
  by (rule dispose_resolves [OF demo_released_reachable]) (simp_all add: demo_released_parts)

end
