(* ===== verification/CloudPrivate.thy ===== *)
theory CloudPrivate
  imports CloudFormat
begin

text \<open>
  Private backup items (\<open>shared/ui/lib/cloud/cloudPrivate.js\<close>): scope records, the keys sealed in them, and
  the snapshots of a scope. Every error of a helper is turned into \<open>DAMAGED\<close> or skips the record.
\<close>

section \<open>Constants\<close>

definition SCOPE_RECORD_DOMAIN :: jstring where "SCOPE_RECORD_DOMAIN = lit ''private-scope''"
definition PRIVATE_SNAPSHOT_DOMAIN :: jstring where "PRIVATE_SNAPSHOT_DOMAIN = lit ''private-snapshot''"
definition PRIVATE_OPEN_DOMAIN :: jstring where "PRIVATE_OPEN_DOMAIN = lit ''private-open''"
definition PACK_KEY_PURPOSE :: jstring where "PACK_KEY_PURPOSE = lit ''luna-private-pack-key-v1''"
definition SCOPE_SECRET_PURPOSE :: jstring where "SCOPE_SECRET_PURPOSE = lit ''luna-private-scope-secret-v1''"
definition TREE_PURPOSE :: jstring where "TREE_PURPOSE = lit ''luna-private-tree-v1''"
definition META_PURPOSE :: jstring where "META_PURPOSE = lit ''luna-private-meta-v1''"
definition DEDUP_PURPOSE :: jstring where "DEDUP_PURPOSE = lit ''luna-private-dedup-v1''"
definition SCOPE_PURPOSE :: jstring where "SCOPE_PURPOSE = lit ''luna-scope-v1''"

section \<open>Sealed parts of a scope\<close>

definition privateAad :: "noble \<Rightarrow> jstring \<Rightarrow> jstring \<Rightarrow> jstring \<Rightarrow> bytes" where
  "privateAad N purpose lunaId scope =
     canonical N [(lit ''purpose'', utf8ToBytes N purpose), (lit ''luna_id'', utf8ToBytes N lunaId), (lit ''scope'', utf8ToBytes N scope)]"

definition scopeOf :: "noble \<Rightarrow> bytes \<Rightarrow> jstring" where
  "scopeOf N dedupKey = bytesToHex N (slice (chunkId N dedupKey (utf8ToBytes N SCOPE_PURPOSE)) 0 16)"

definition privateUnwrap :: "noble \<Rightarrow> bytes \<Rightarrow> jstring \<Rightarrow> jstring \<Rightarrow> bytes \<Rightarrow> bytes result" where
  "privateUnwrap N secret lunaId scope wrapped = open_sealed N secret (privateAad N PACK_KEY_PURPOSE lunaId scope) wrapped"

definition openPrivateTreeBytes :: "noble \<Rightarrow> bytes \<Rightarrow> jstring \<Rightarrow> jstring \<Rightarrow> bytes \<Rightarrow> bytes result" where
  "openPrivateTreeBytes N secret lunaId scope sealed =
     rethrow damaged (open_sealed N secret (privateAad N TREE_PURPOSE lunaId scope) sealed)"

definition openPrivateMeta :: "noble \<Rightarrow> (bytes \<Rightarrow> json option) \<Rightarrow> bytes \<Rightarrow> bytes \<Rightarrow> jstring \<Rightarrow> jstring \<Rightarrow> backup_meta result" where
  "openPrivateMeta N json_of sealed secret lunaId scope =
     bind_r (rethrow damaged
       (bind_r (open_sealed N secret (privateAad N META_PURPOSE lunaId scope) sealed) (\<lambda>plain. of_lib (json_of plain)))) (\<lambda>parsed.
     (case (text_prop parsed (lit ''name''), text_prop parsed (lit ''source_drive''), text_prop parsed (lit ''source_path''),
            text_prop parsed (lit ''started_by''), text_prop parsed (lit ''started_by_name'')) of
        (Some n, Some d, Some p, Some b, Some bn) \<Rightarrow>
          Inr \<lparr>m_name = n, m_sourceDrive = d, m_sourcePath = p, m_startedBy = b, m_startedByName = bn\<rparr>
      | _ \<Rightarrow> Inl damaged))"

definition open_exact :: "noble \<Rightarrow> jstring \<Rightarrow> nat \<Rightarrow> bytes \<Rightarrow> bytes \<Rightarrow> jstring \<Rightarrow> jstring \<Rightarrow> bytes result" where
  "open_exact N purpose len sealed secret lunaId scope =
     bind_r (rethrow damaged (open_sealed N secret (privateAad N purpose lunaId scope) sealed)) (\<lambda>plain.
       if length plain \<noteq> len then Inl damaged else Inr plain)"

definition openScopeSecret :: "noble \<Rightarrow> bytes \<Rightarrow> bytes \<Rightarrow> jstring \<Rightarrow> jstring \<Rightarrow> bytes result" where
  "openScopeSecret N sealed ownerSealSecret lunaId scope = open_exact N SCOPE_SECRET_PURPOSE SEAL_SECRET_LEN sealed ownerSealSecret lunaId scope"

definition sealScopeSecret :: "noble \<Rightarrow> (nat \<Rightarrow> nat \<Rightarrow> bytes) \<Rightarrow> bytes \<Rightarrow> bytes \<Rightarrow> jstring \<Rightarrow> jstring \<Rightarrow> bytes result" where
  "sealScopeSecret N randomBytes scopeSecret ownerSealPublic lunaId scope =
     seal N randomBytes ownerSealPublic (privateAad N SCOPE_SECRET_PURPOSE lunaId scope) scopeSecret"

definition openPrivateDedup :: "noble \<Rightarrow> bytes \<Rightarrow> bytes \<Rightarrow> jstring \<Rightarrow> jstring \<Rightarrow> bytes result" where
  "openPrivateDedup N sealed secret lunaId scope = open_exact N DEDUP_PURPOSE KEY_LEN sealed secret lunaId scope"

section \<open>Scope records\<close>

record scope_record =
  r_lunaId :: jstring
  r_scope :: jstring
  r_userId :: jstring
  r_sealPublic :: bytes
  r_authPublic :: bytes
  r_createdAt :: int
  r_scopePublic :: bytes
  r_sealedScopeSecret :: bytes
  r_sealedDedup :: bytes

definition scope_fields :: "noble \<Rightarrow> scope_record \<Rightarrow> (jstring \<times> bytes) list" where
  "scope_fields N r =
     [(lit ''luna_id'', utf8ToBytes N (r_lunaId r)), (lit ''scope'', utf8ToBytes N (r_scope r)), (lit ''user_id'', utf8ToBytes N (r_userId r)),
      (lit ''seal_public'', r_sealPublic r), (lit ''auth_public'', r_authPublic r),
      (lit ''created_at'', be_bytes 8 (nat (r_createdAt r mod 2 ^ 64))), (lit ''scope_public'', r_scopePublic r),
      (lit ''sealed_scope_secret'', r_sealedScopeSecret r), (lit ''sealed_dedup'', r_sealedDedup r)]"

definition scope_view :: "noble \<Rightarrow> json \<Rightarrow> jstring \<Rightarrow> scope_record option" where
  "scope_view N rec lunaId =
     (if text_prop rec (lit ''luna_id'') \<noteq> Some lunaId then None
      else (case (text_prop rec (lit ''scope''), text_prop rec (lit ''user_id''), safe_integer (get_prop rec (lit ''created_at''))) of
              (Some scope, Some uid, Some created) \<Rightarrow>
                (case (hex_prop N rec (lit ''seal_public''), hex_prop N rec (lit ''auth_public''), hex_prop N rec (lit ''scope_public''),
                       hex_prop N rec (lit ''sealed_scope_secret''), hex_prop N rec (lit ''sealed_dedup'')) of
                   (Some sp, Some ap, Some cp, Some ss, Some sd) \<Rightarrow>
                     if length sp \<noteq> SEAL_PUBLIC_LEN \<or> length ap \<noteq> SIG_PUBLIC_LEN \<or> length cp \<noteq> SEAL_PUBLIC_LEN then None
                     else Some \<lparr>r_lunaId = lunaId, r_scope = scope, r_userId = uid, r_sealPublic = sp, r_authPublic = ap,
                                r_createdAt = created, r_scopePublic = cp, r_sealedScopeSecret = ss, r_sealedDedup = sd\<rparr>
                 | _ \<Rightarrow> None)
            | _ \<Rightarrow> None))"

definition verifyScopeRecord :: "noble \<Rightarrow> (bytes \<Rightarrow> json option) \<Rightarrow> bytes \<Rightarrow> bytes list \<Rightarrow> jstring \<Rightarrow> scope_record option" where
  "verifyScopeRecord N json_of bs signingPublics lunaId =
     (case json_of bs of
        None \<Rightarrow> None
      | Some obj \<Rightarrow>
          (case get_prop obj (lit ''record'') of
             None \<Rightarrow> None
           | Some rec \<Rightarrow>
               (case (scope_view N rec lunaId, hex_prop N obj (lit ''signature'')) of
                  (Some view, Some sig) \<Rightarrow>
                    if length sig \<noteq> SIG_LEN then None
                    else if list_ex (\<lambda>pub. verify N pub SCOPE_RECORD_DOMAIN (canonical N (scope_fields N view)) sig) signingPublics
                    then Some view else None
                | _ \<Rightarrow> None)))"

definition privateOpenMessage :: "noble \<Rightarrow> jstring \<Rightarrow> jstring \<Rightarrow> bytes \<Rightarrow> bytes" where
  "privateOpenMessage N lunaId scope challenge =
     canonical N [(lit ''luna_id'', utf8ToBytes N lunaId), (lit ''scope'', utf8ToBytes N scope), (lit ''challenge'', challenge)]"

definition signPrivateOpen :: "noble \<Rightarrow> bytes \<Rightarrow> jstring \<Rightarrow> jstring \<Rightarrow> bytes \<Rightarrow> bytes result" where
  "signPrivateOpen N secret lunaId scope challenge =
     sign N secret PRIVATE_OPEN_DOMAIN (privateOpenMessage N lunaId scope challenge)"

section \<open>The scopes of a phrase\<close>

type_synonym cloud_record = "jstring \<times> bytes"

record private_scope =
  v_scope :: jstring
  v_userId :: jstring
  v_createdAt :: int
  v_dedupKey :: bytes
  v_sealSecret :: bytes

text \<open>The first signing key that verifies the record.\<close>

fun first_verified :: "(bytes \<Rightarrow> 'a option) \<Rightarrow> bytes list \<Rightarrow> 'a option" where
  "first_verified f [] = None"
| "first_verified f (pub # pubs) = (case f pub of Some r \<Rightarrow> Some r | None \<Rightarrow> first_verified f pubs)"

definition open_scope :: "noble \<Rightarrow> (bytes \<Rightarrow> json option) \<Rightarrow> jstring \<Rightarrow> user_keys \<Rightarrow> bytes list \<Rightarrow> cloud_record \<Rightarrow> private_scope option" where
  "open_scope N json_of lunaId k signingPublics r =
     (case first_verified (\<lambda>pub. verifyScopeRecord N json_of (snd r) [pub] lunaId) signingPublics of
        None \<Rightarrow> None
      | Some rec \<Rightarrow>
          if fst r \<noteq> r_scope rec \<or> \<not> sameBytes (r_sealPublic rec) (sealPublic k) then None
          else (case bind_r (openScopeSecret N (r_sealedScopeSecret rec) (sealSecret k) lunaId (r_scope rec)) (\<lambda>secret.
                     bind_r (openPrivateDedup N (r_sealedDedup rec) secret lunaId (r_scope rec)) (\<lambda>dedup. Inr (secret, dedup))) of
                  Inl _ \<Rightarrow> None
                | Inr (secret, dedup) \<Rightarrow>
                    if scopeOf N dedup \<noteq> r_scope rec then None
                    else Some \<lparr>v_scope = r_scope rec, v_userId = r_userId rec, v_createdAt = r_createdAt rec,
                               v_dedupKey = dedup, v_sealSecret = secret\<rparr>))"

definition findMyPrivateScopes ::
  "noble \<Rightarrow> (bytes \<Rightarrow> json option) \<Rightarrow> jstring \<Rightarrow> bytes \<Rightarrow> cloud_record list \<Rightarrow> bytes list \<Rightarrow> private_scope list result" where
  "findMyPrivateScopes N json_of lunaId entropy pscopes signingPublics =
     bind_r (derive N entropy lunaId) (\<lambda>k.
       Inr (sort_by (\<lambda>a b. v_createdAt b - v_createdAt a)
              (List.map_filter (open_scope N json_of lunaId k signingPublics) pscopes)))"

section \<open>Private snapshots\<close>

record private_snapshot =
  p_snap :: snapshot
  p_meta :: backup_meta

text \<open>The sign of \<open>b.createdAt - a.createdAt\<close>; a difference that is not a number counts as 0.\<close>

definition newer_first :: "json option \<Rightarrow> json option \<Rightarrow> int" where
  "newer_first a b =
     (case (opt_number b, opt_number a) of
        (Fin x, Fin y) \<Rightarrow> (if y < x then 1 else if x < y then - 1 else 0)
      | (NaN, _) \<Rightarrow> 0
      | (_, NaN) \<Rightarrow> 0
      | (PosInf, PosInf) \<Rightarrow> 0
      | (NegInf, NegInf) \<Rightarrow> 0
      | (PosInf, _) \<Rightarrow> 1
      | (NegInf, _) \<Rightarrow> - 1
      | (_, PosInf) \<Rightarrow> - 1
      | (_, NegInf) \<Rightarrow> 1)"

definition read_snapshot ::
  "noble \<Rightarrow> (bytes \<Rightarrow> json option) \<Rightarrow> jstring \<Rightarrow> bytes \<Rightarrow> jstring \<Rightarrow> bytes list \<Rightarrow> cloud_record \<Rightarrow> private_snapshot option" where
  "read_snapshot N json_of lunaId secret scope signingPublics r =
     (if \<not> starts_with (fst r) (scope @ [dot]) then None
      else (case verifySnapshot N json_of (snd r) signingPublics lunaId PRIVATE_SNAPSHOT_DOMAIN of
              None \<Rightarrow> None
            | Some snap \<Rightarrow>
                if fst r \<noteq> scope @ [dot] @ s_snapshotId snap then None
                else map_option (\<lambda>meta. \<lparr>p_snap = snap, p_meta = meta\<rparr>)
                       (opt_of (openPrivateMeta N json_of (s_meta snap) secret lunaId scope))))"

definition readPrivateSnapshots ::
  "noble \<Rightarrow> (bytes \<Rightarrow> json option) \<Rightarrow> jstring \<Rightarrow> bytes \<Rightarrow> jstring \<Rightarrow> cloud_record list \<Rightarrow> bytes list \<Rightarrow> private_snapshot list" where
  "readPrivateSnapshots N json_of lunaId secret scope psnapshots signingPublics =
     sort_by (\<lambda>a b. newer_first (s_createdAt (p_snap a)) (s_createdAt (p_snap b)))
       (List.map_filter (read_snapshot N json_of lunaId secret scope signingPublics) psnapshots)"

section \<open>What a verified record says\<close>

lemma verifyScopeRecord_Some:
  "verifyScopeRecord N json_of bs pubs lunaId = Some v \<longleftrightarrow>
   (\<exists>obj rec sig. json_of bs = Some obj \<and> get_prop obj (lit ''record'') = Some rec \<and> scope_view N rec lunaId = Some v \<and>
      hex_prop N obj (lit ''signature'') = Some sig \<and> length sig = SIG_LEN \<and>
      (\<exists>pub\<in>set pubs. verify N pub SCOPE_RECORD_DOMAIN (canonical N (scope_fields N v)) sig))"
  by (auto simp: verifyScopeRecord_def list_ex_iff split: option.splits)

lemma first_verified_Some: "first_verified f pubs = Some v \<Longrightarrow> \<exists>pub\<in>set pubs. f pub = Some v"
  by (induction pubs) (auto split: option.splits)

lemma first_verified_same:
  assumes "pub \<in> set pubs" "f pub = Some v" "\<And>q w. f q = Some w \<Longrightarrow> w = v"
  shows "first_verified f pubs = Some v"
  using assms(1)
proof (induction pubs)
  case (Cons q qs)
  then show ?case using assms(2) assms(3) [of q] by (cases "f q") auto
qed simp

lemma open_exact_Inr: "open_exact N purpose len sealed secret lunaId scope = Inr plain \<longleftrightarrow>
    open_sealed N secret (privateAad N purpose lunaId scope) sealed = Inr plain \<and> length plain = len"
  by (auto simp: open_exact_def result_iffs)

lemma open_scope_Some:
  "open_scope N json_of lunaId k pubs r = Some v \<longleftrightarrow>
   (\<exists>rec. first_verified (\<lambda>pub. verifyScopeRecord N json_of (snd r) [pub] lunaId) pubs = Some rec \<and>
      fst r = r_scope rec \<and> r_sealPublic rec = sealPublic k \<and>
      openScopeSecret N (r_sealedScopeSecret rec) (sealSecret k) lunaId (r_scope rec) = Inr (v_sealSecret v) \<and>
      openPrivateDedup N (r_sealedDedup rec) (v_sealSecret v) lunaId (r_scope rec) = Inr (v_dedupKey v) \<and>
      scopeOf N (v_dedupKey v) = r_scope rec \<and>
      v = \<lparr>v_scope = r_scope rec, v_userId = r_userId rec, v_createdAt = r_createdAt rec,
           v_dedupKey = v_dedupKey v, v_sealSecret = v_sealSecret v\<rparr>)"
  by (auto simp: open_scope_def result_iffs split: option.splits sum.splits if_splits)

section \<open>The record a Luna writes\<close>

text \<open>\<open>SignedScope::to_bytes\<close> of \<open>private.rs\<close> writes this object; its byte fields are in hexadecimal.\<close>

definition scope_json :: "noble \<Rightarrow> scope_record \<Rightarrow> bytes \<Rightarrow> json" where
  "scope_json N r sig =
     JObj [(lit ''record'', JObj
              [(lit ''luna_id'', JStr (r_lunaId r)), (lit ''scope'', JStr (r_scope r)), (lit ''user_id'', JStr (r_userId r)),
               (lit ''seal_public'', JStr (bytesToHex N (r_sealPublic r))), (lit ''auth_public'', JStr (bytesToHex N (r_authPublic r))),
               (lit ''created_at'', JNum (Fin (of_int (r_createdAt r)))),
               (lit ''scope_public'', JStr (bytesToHex N (r_scopePublic r))),
               (lit ''sealed_scope_secret'', JStr (bytesToHex N (r_sealedScopeSecret r))),
               (lit ''sealed_dedup'', JStr (bytesToHex N (r_sealedDedup r)))]),
           (lit ''signature'', JStr (bytesToHex N sig))]"

definition scope_record_ok :: "scope_record \<Rightarrow> bool" where
  "scope_record_ok r \<longleftrightarrow> length (r_sealPublic r) = SEAL_PUBLIC_LEN \<and> length (r_authPublic r) = SIG_PUBLIC_LEN \<and>
     length (r_scopePublic r) = SEAL_PUBLIC_LEN \<and> \<bar>r_createdAt r\<bar> \<le> int MAX_SAFE_INTEGER"

lemma scope_view_json:
  assumes "hex_law N" "scope_record_ok r"
  obtains rec where "get_prop (scope_json N r sig) (lit ''record'') = Some rec" "scope_view N rec (r_lunaId r) = Some r"
    "hex_prop N (scope_json N r sig) (lit ''signature'') = Some sig"
  using assms that
  by (simp add: scope_json_def get_prop_def scope_view_def text_prop_def hex_prop_def safe_integer_def lit_def hex_law_def scope_record_ok_def)

lemma verify_scope_json:
  assumes "hex_law N" "scope_record_ok r" "length sig = SIG_LEN" "json_of bs = Some (scope_json N r sig)"
  shows "verifyScopeRecord N json_of bs pubs (r_lunaId r) = Some v \<longleftrightarrow>
    v = r \<and> (\<exists>pub\<in>set pubs. verify N pub SCOPE_RECORD_DOMAIN (canonical N (scope_fields N r)) sig)"
  by (rule scope_view_json [OF assms(1,2), of sig]) (auto simp: verifyScopeRecord_Some assms(3,4))

lemma verify_sig_len: "verify N pub domain msg sig \<Longrightarrow> length sig = SIG_LEN"
  by (simp add: verify_both)

lemma seal_pair_opens:
  assumes "seal_pair N sec pub" "\<And>i n. length (rnd i n) = n" "seal N rnd pub aad msg = Inr sealed"
  shows "open_sealed N sec aad sealed = Inr msg"
proof -
  have "\<exists>c. seal N rnd pub aad msg = Inr c \<and> open_sealed N sec aad c = Inr msg"
    using assms(1,2) unfolding seal_pair_def by blast
  then show ?thesis using assms(3) by auto
qed

lemma seal_pair_seals:
  assumes "seal_pair N sec pub"
  shows "\<exists>sealed. seal N (\<lambda>i n. replicate n b) pub aad msg = Inr sealed"
proof -
  have "\<exists>sealed. seal N rnd pub aad msg = Inr sealed" if "\<forall>i n. length (rnd i n) = n" for rnd
    using assms that unfolding seal_pair_def by blast
  from this [of "\<lambda>i n. replicate n b"] show ?thesis by simp
qed

lemma own_scope_opens:
  assumes "seal_laws N" "signature_law N" "hex_law N" and "length entropy = 16 \<or> length entropy = 32"
    and k: "derive N entropy lunaId = Inr k"
    and sec: "scopeKeysFromSeed N seed = Inr (secret, pub)"
    and rnd: "\<And>i n. length (rnd1 i n) = n" "\<And>i n. length (rnd2 i n) = n" and "length dedup = KEY_LEN"
    and s1: "sealScopeSecret N rnd1 secret (sealPublic k) lunaId (scopeOf N dedup) = Inr ss"
    and s2: "seal N rnd2 pub (privateAad N DEDUP_PURPOSE lunaId (scopeOf N dedup)) dedup = Inr sd"
    and r: "r = \<lparr>r_lunaId = lunaId, r_scope = scopeOf N dedup, r_userId = user, r_sealPublic = sealPublic k, r_authPublic = authPublic k,
                r_createdAt = created, r_scopePublic = pub, r_sealedScopeSecret = ss, r_sealedDedup = sd\<rparr>"
    and time: "\<bar>created\<bar> \<le> int MAX_SAFE_INTEGER"
    and sig: "verify N luna SCOPE_RECORD_DOMAIN (canonical N (scope_fields N r)) sig" "luna \<in> set signingPublics"
    and bs: "json_of bs = Some (scope_json N r sig)"
  shows "open_scope N json_of lunaId k signingPublics (scopeOf N dedup, bs) =
    Some \<lparr>v_scope = scopeOf N dedup, v_userId = user, v_createdAt = created, v_dedupKey = dedup, v_sealSecret = secret\<rparr>"
proof -
  obtain k' where k': "derive N entropy lunaId = Inr k'" "seal_pair N (sealSecret k') (sealPublic k')"
      "length (authSecret k') = 32" "signerPublic N (authSecret k') = Inr (authPublic k')"
    using derived_keys [OF assms(1,2,4)] by metis
  have own: "seal_pair N (sealSecret k) (sealPublic k)" using k k' by simp
  have "length seed = 32" using sec by (auto simp: scopeKeysFromSeed_def split: if_splits)
  then have scp: "seal_pair N secret pub" using scope_keys [OF assms(1)] sec by (metis Inr_inject prod.inject)
  have ap: "length (authPublic k) = SIG_PUBLIC_LEN"
    using sign_verify [OF _ _ assms(2) k'(3)] assms(1) k k'(1,4) by (auto simp: seal_laws_def verify_both)
  have ok: "scope_record_ok r" using own scp ap time r by (simp add: scope_record_ok_def seal_pair_def)
  have o1: "openScopeSecret N ss (sealSecret k) lunaId (scopeOf N dedup) = Inr secret"
    using seal_pair_opens [OF own rnd(1)] s1 scp by (simp add: openScopeSecret_def open_exact_Inr sealScopeSecret_def seal_pair_def)
  have o2: "openPrivateDedup N sd secret lunaId (scopeOf N dedup) = Inr dedup"
    using seal_pair_opens [OF scp rnd(2) s2] assms(9) by (simp add: openPrivateDedup_def open_exact_Inr)
  have ver: "verifyScopeRecord N json_of bs pubs lunaId = Some v \<longleftrightarrow>
      v = r \<and> (\<exists>pub\<in>set pubs. verify N pub SCOPE_RECORD_DOMAIN (canonical N (scope_fields N r)) sig)" for pubs v
    using verify_scope_json [where json_of = json_of and bs = bs, OF assms(3) ok verify_sig_len [OF sig(1)] bs] r by simp
  have "first_verified (\<lambda>pub. verifyScopeRecord N json_of bs [pub] lunaId) signingPublics = Some r"
    using ver sig r by (intro first_verified_same [of luna]) auto
  then show ?thesis using o1 o2 r by (simp add: open_scope_Some)
qed

text \<open>
  Property C7: the recovery phrase finds its private scope again. A record that names the phrase's key,
  carries the scope's secret sealed to it and the fingerprint key sealed to the scope's own key, and is signed
  by one of the signing keys of the Luna, is found with both keys, wherever it stands among other records.
\<close>

theorem private_scope_found:
  assumes "seal_laws N" "signature_law N" "hex_law N" and "length entropy = 16 \<or> length entropy = 32"
    and k: "derive N entropy lunaId = Inr k"
    and sec: "scopeKeysFromSeed N seed = Inr (secret, pub)"
    and rnd: "\<And>i n. length (rnd1 i n) = n" "\<And>i n. length (rnd2 i n) = n" and "length dedup = KEY_LEN"
    and s1: "sealScopeSecret N rnd1 secret (sealPublic k) lunaId (scopeOf N dedup) = Inr ss"
    and s2: "seal N rnd2 pub (privateAad N DEDUP_PURPOSE lunaId (scopeOf N dedup)) dedup = Inr sd"
    and r: "r = \<lparr>r_lunaId = lunaId, r_scope = scopeOf N dedup, r_userId = user, r_sealPublic = sealPublic k, r_authPublic = authPublic k,
                r_createdAt = created, r_scopePublic = pub, r_sealedScopeSecret = ss, r_sealedDedup = sd\<rparr>"
    and time: "\<bar>created\<bar> \<le> int MAX_SAFE_INTEGER"
    and sig: "verify N luna SCOPE_RECORD_DOMAIN (canonical N (scope_fields N r)) sig" "luna \<in> set signingPublics"
    and bs: "json_of bs = Some (scope_json N r sig)" "(scopeOf N dedup, bs) \<in> set pscopes"
  shows "\<exists>found. findMyPrivateScopes N json_of lunaId entropy pscopes signingPublics = Inr found \<and>
    \<lparr>v_scope = scopeOf N dedup, v_userId = user, v_createdAt = created, v_dedupKey = dedup, v_sealSecret = secret\<rparr> \<in> set found"
proof -
  have "open_scope N json_of lunaId k signingPublics (scopeOf N dedup, bs) =
      Some \<lparr>v_scope = scopeOf N dedup, v_userId = user, v_createdAt = created, v_dedupKey = dedup, v_sealSecret = secret\<rparr>"
    by (rule own_scope_opens; fact assms)
  then show ?thesis using bs(2) k by (auto simp: findMyPrivateScopes_def List.map_filter_def intro!: rev_image_eqI)
qed

lemma private_scope_demo:
  obtains k secret pub ss sd luna sig where
    "derive demo_noble (replicate 16 7) (lit ''l'') = Inr k" "scopeKeysFromSeed demo_noble (replicate 32 1) = Inr (secret, pub)"
    "sealScopeSecret demo_noble (\<lambda>i n. replicate n 3) secret (sealPublic k) (lit ''l'') (scopeOf demo_noble (replicate 32 9)) = Inr ss"
    "seal demo_noble (\<lambda>i n. replicate n 4) pub (privateAad demo_noble DEDUP_PURPOSE (lit ''l'') (scopeOf demo_noble (replicate 32 9))) (replicate 32 9) = Inr sd"
    "verify demo_noble luna SCOPE_RECORD_DOMAIN (canonical demo_noble (scope_fields demo_noble
       \<lparr>r_lunaId = lit ''l'', r_scope = scopeOf demo_noble (replicate 32 9), r_userId = lit ''u'', r_sealPublic = sealPublic k,
        r_authPublic = authPublic k, r_createdAt = 5, r_scopePublic = pub, r_sealedScopeSecret = ss, r_sealedDedup = sd\<rparr>)) sig"
proof -
  obtain k where k: "derive demo_noble (replicate 16 7) (lit ''l'') = Inr k" "seal_pair demo_noble (sealSecret k) (sealPublic k)"
    using derived_keys [OF demo_seal_laws demo_laws(6), of "replicate 16 7" "lit ''l''"] by auto
  obtain secret pub where p: "scopeKeysFromSeed demo_noble (replicate 32 1) = Inr (secret, pub)" "seal_pair demo_noble secret pub"
    using scope_keys [OF demo_seal_laws, of "replicate 32 1"] by auto
  obtain ss where ss: "sealScopeSecret demo_noble (\<lambda>i n. replicate n 3) secret (sealPublic k) (lit ''l'') (scopeOf demo_noble (replicate 32 9)) = Inr ss"
    using seal_pair_seals [OF k(2)] unfolding sealScopeSecret_def by blast
  obtain sd where sd: "seal demo_noble (\<lambda>i n. replicate n 4) pub (privateAad demo_noble DEDUP_PURPOSE (lit ''l'')
      (scopeOf demo_noble (replicate 32 9))) (replicate 32 9) = Inr sd"
    using seal_pair_seals [OF p(2)] by blast
  show thesis using that [OF k(1) p(1) ss sd] sign_verify [OF demo_laws(1,2,6), of "replicate 32 5"] by force
qed

theorem private_scope_found_witness:
  "\<exists>json_of bs luna found v. findMyPrivateScopes demo_noble json_of (lit ''l'') (replicate 16 7)
     [(lit ''x'', []), (scopeOf demo_noble (replicate 32 9), bs)] [luna] = Inr found \<and> v \<in> set found \<and>
     v_dedupKey v = replicate 32 9 \<and> v_createdAt v = 5"
proof -
  obtain k secret pub ss sd luna sig where d:
    "derive demo_noble (replicate 16 7) (lit ''l'') = Inr k" "scopeKeysFromSeed demo_noble (replicate 32 1) = Inr (secret, pub)"
    "sealScopeSecret demo_noble (\<lambda>i n. replicate n 3) secret (sealPublic k) (lit ''l'') (scopeOf demo_noble (replicate 32 9)) = Inr ss"
    "seal demo_noble (\<lambda>i n. replicate n 4) pub (privateAad demo_noble DEDUP_PURPOSE (lit ''l'') (scopeOf demo_noble (replicate 32 9))) (replicate 32 9) = Inr sd"
    "verify demo_noble luna SCOPE_RECORD_DOMAIN (canonical demo_noble (scope_fields demo_noble
       \<lparr>r_lunaId = lit ''l'', r_scope = scopeOf demo_noble (replicate 32 9), r_userId = lit ''u'', r_sealPublic = sealPublic k,
        r_authPublic = authPublic k, r_createdAt = 5, r_scopePublic = pub, r_sealedScopeSecret = ss, r_sealedDedup = sd\<rparr>)) sig"
    by (rule private_scope_demo)
  let ?json = "\<lambda>bs. Some (scope_json demo_noble \<lparr>r_lunaId = lit ''l'', r_scope = scopeOf demo_noble (replicate 32 9), r_userId = lit ''u'',
      r_sealPublic = sealPublic k, r_authPublic = authPublic k, r_createdAt = 5, r_scopePublic = pub, r_sealedScopeSecret = ss,
      r_sealedDedup = sd\<rparr> sig)"
  have "\<exists>found. findMyPrivateScopes demo_noble ?json (lit ''l'') (replicate 16 7)
      [(lit ''x'', []), (scopeOf demo_noble (replicate 32 9), [1])] [luna] = Inr found \<and>
      \<lparr>v_scope = scopeOf demo_noble (replicate 32 9), v_userId = lit ''u'', v_createdAt = 5, v_dedupKey = replicate 32 9, v_sealSecret = secret\<rparr> \<in> set found"
    by (rule private_scope_found [OF demo_seal_laws demo_laws(6) demo_format_laws(2) _ d(1,2) _ _ _ d(3,4) refl _ d(5), where bs = "[1]"])
      (simp_all add: KEY_LEN_def MAX_SAFE_INTEGER_def)
  then show ?thesis by force
qed

section \<open>Only its own scopes, newest first\<close>

text \<open>
  Property C8: a scope is found only when a signing key of the Luna signed its record, the record is stored
  under the scope's own name and names the phrase's key, the sealed secret opens with that key, the
  fingerprint key opens with the scope's secret, and the scope is named after it. The newest comes first.
\<close>

theorem private_scopes_sound:
  assumes "findMyPrivateScopes N json_of lunaId entropy pscopes signingPublics = Inr found"
  shows "sorted_wrt (\<lambda>a b. v_createdAt b \<le> v_createdAt a) found \<and>
    (\<exists>k. derive N entropy lunaId = Inr k \<and>
      (\<forall>v \<in> set found. v_scope v = scopeOf N (v_dedupKey v) \<and> length (v_dedupKey v) = KEY_LEN \<and> length (v_sealSecret v) = SEAL_SECRET_LEN \<and>
        (\<exists>bs rec pub. (v_scope v, bs) \<in> set pscopes \<and> pub \<in> set signingPublics \<and>
           verifyScopeRecord N json_of bs [pub] lunaId = Some rec \<and> r_sealPublic rec = sealPublic k \<and>
           r_scope rec = v_scope v \<and> r_userId rec = v_userId v \<and> r_createdAt rec = v_createdAt v \<and>
           openScopeSecret N (r_sealedScopeSecret rec) (sealSecret k) lunaId (v_scope v) = Inr (v_sealSecret v) \<and>
           openPrivateDedup N (r_sealedDedup rec) (v_sealSecret v) lunaId (v_scope v) = Inr (v_dedupKey v))))"
proof (intro conjI)
  obtain k where k: "derive N entropy lunaId = Inr k"
      "found = sort_by (\<lambda>a b. v_createdAt b - v_createdAt a) (List.map_filter (open_scope N json_of lunaId k signingPublics) pscopes)"
    using assms by (auto simp: findMyPrivateScopes_def result_iffs)
  have "consistent (\<lambda>a b. v_createdAt b - v_createdAt a)" by (fastforce simp: consistent_def)
  then show "sorted_wrt (\<lambda>a b. v_createdAt b \<le> v_createdAt a) found"
    using sort_by_sorted [of "\<lambda>a b. v_createdAt b - v_createdAt a"] k(2) by simp
  have mem: "\<exists>bs. (v_scope v, bs) \<in> set pscopes \<and> open_scope N json_of lunaId k signingPublics (v_scope v, bs) = Some v"
    if v: "v \<in> set found" for v
  proof -
    obtain name bs where r: "(name, bs) \<in> set pscopes" "open_scope N json_of lunaId k signingPublics (name, bs) = Some v"
      using v k(2) by (force simp: List.map_filter_def)
    then have "name = v_scope v" unfolding open_scope_Some by (metis fst_conv private_scope.select_convs(1))
    then show ?thesis using r by blast
  qed
  let ?own = "\<lambda>k v. v_scope v = scopeOf N (v_dedupKey v) \<and> length (v_dedupKey v) = KEY_LEN \<and> length (v_sealSecret v) = SEAL_SECRET_LEN \<and>
        (\<exists>bs rec pub. (v_scope v, bs) \<in> set pscopes \<and> pub \<in> set signingPublics \<and>
           verifyScopeRecord N json_of bs [pub] lunaId = Some rec \<and> r_sealPublic rec = sealPublic k \<and>
           r_scope rec = v_scope v \<and> r_userId rec = v_userId v \<and> r_createdAt rec = v_createdAt v \<and>
           openScopeSecret N (r_sealedScopeSecret rec) (sealSecret k) lunaId (v_scope v) = Inr (v_sealSecret v) \<and>
           openPrivateDedup N (r_sealedDedup rec) (v_sealSecret v) lunaId (v_scope v) = Inr (v_dedupKey v))"
  have "?own k v" if v: "v \<in> set found" for v
  proof -
    obtain bs rec where r: "(v_scope v, bs) \<in> set pscopes"
        "first_verified (\<lambda>pub. verifyScopeRecord N json_of bs [pub] lunaId) signingPublics = Some rec"
        "r_sealPublic rec = sealPublic k" "r_scope rec = v_scope v" "scopeOf N (v_dedupKey v) = v_scope v"
        "openScopeSecret N (r_sealedScopeSecret rec) (sealSecret k) lunaId (v_scope v) = Inr (v_sealSecret v)"
        "openPrivateDedup N (r_sealedDedup rec) (v_sealSecret v) lunaId (v_scope v) = Inr (v_dedupKey v)"
        "v = \<lparr>v_scope = r_scope rec, v_userId = r_userId rec, v_createdAt = r_createdAt rec, v_dedupKey = v_dedupKey v, v_sealSecret = v_sealSecret v\<rparr>"
      using mem [OF v] unfolding open_scope_Some fst_conv snd_conv by metis
    have "r_userId rec = v_userId v" "r_createdAt rec = v_createdAt v"
      by (simp_all add: arg_cong [OF r(8), of v_userId] arg_cong [OF r(8), of v_createdAt])
    then show ?thesis using r first_verified_Some [OF r(2)] by (auto simp: openScopeSecret_def openPrivateDedup_def open_exact_Inr)
  qed
  then show "\<exists>k. derive N entropy lunaId = Inr k \<and> (\<forall>v \<in> set found. ?own k v)" using k(1) by blast
qed

theorem private_scopes_sound_witness:
  "\<exists>json_of bs luna found v. findMyPrivateScopes demo_noble json_of (lit ''l'') (replicate 16 7)
     [(scopeOf demo_noble (replicate 32 9), bs)] [luna] = Inr found \<and> v \<in> set found \<and> v_scope v = scopeOf demo_noble (v_dedupKey v)"
proof -
  obtain k secret pub ss sd luna sig where d:
    "derive demo_noble (replicate 16 7) (lit ''l'') = Inr k" "scopeKeysFromSeed demo_noble (replicate 32 1) = Inr (secret, pub)"
    "sealScopeSecret demo_noble (\<lambda>i n. replicate n 3) secret (sealPublic k) (lit ''l'') (scopeOf demo_noble (replicate 32 9)) = Inr ss"
    "seal demo_noble (\<lambda>i n. replicate n 4) pub (privateAad demo_noble DEDUP_PURPOSE (lit ''l'') (scopeOf demo_noble (replicate 32 9))) (replicate 32 9) = Inr sd"
    "verify demo_noble luna SCOPE_RECORD_DOMAIN (canonical demo_noble (scope_fields demo_noble
       \<lparr>r_lunaId = lit ''l'', r_scope = scopeOf demo_noble (replicate 32 9), r_userId = lit ''u'', r_sealPublic = sealPublic k,
        r_authPublic = authPublic k, r_createdAt = 5, r_scopePublic = pub, r_sealedScopeSecret = ss, r_sealedDedup = sd\<rparr>)) sig"
    by (rule private_scope_demo)
  let ?json = "\<lambda>bs. Some (scope_json demo_noble \<lparr>r_lunaId = lit ''l'', r_scope = scopeOf demo_noble (replicate 32 9), r_userId = lit ''u'',
      r_sealPublic = sealPublic k, r_authPublic = authPublic k, r_createdAt = 5, r_scopePublic = pub, r_sealedScopeSecret = ss,
      r_sealedDedup = sd\<rparr> sig)"
  let ?v = "\<lparr>v_scope = scopeOf demo_noble (replicate 32 9), v_userId = lit ''u'', v_createdAt = 5, v_dedupKey = replicate 32 9, v_sealSecret = secret\<rparr>"
  have "open_scope demo_noble ?json (lit ''l'') k [luna] (scopeOf demo_noble (replicate 32 9), [1]) = Some ?v"
    by (rule own_scope_opens [OF demo_seal_laws demo_laws(6) demo_format_laws(2) _ d(1,2) _ _ _ d(3,4) refl _ d(5)])
      (simp_all add: KEY_LEN_def MAX_SAFE_INTEGER_def)
  then have f: "findMyPrivateScopes demo_noble ?json (lit ''l'') (replicate 16 7) [(scopeOf demo_noble (replicate 32 9), [1])] [luna] = Inr [?v]"
    using d(1) by (simp add: findMyPrivateScopes_def List.map_filter_def)
  then have "v_scope ?v = scopeOf demo_noble (v_dedupKey ?v)" using private_scopes_sound [OF f] by (metis list.set_intros(1))
  then show ?thesis using f list.set_intros(1) by (intro exI conjI)
qed

text \<open>The signature covers the whole record: the time too, since it is a safe integer.\<close>

lemma safe_mod_eq:
  assumes "\<bar>i\<bar> \<le> int MAX_SAFE_INTEGER" "\<bar>j\<bar> \<le> int MAX_SAFE_INTEGER" "i mod 2 ^ 64 = j mod 2 ^ 64"
  shows "i = j"
proof -
  have "(i - j) mod 2 ^ 64 = 0" using assms(3) by (simp add: mod_eq_dvd_iff)
  then obtain q where q: "i - j = 2 ^ 64 * q" by (auto simp: mod_eq_0_iff_dvd elim: dvdE)
  have "\<bar>i - j\<bar> < 2 ^ 64" using assms(1,2) by (simp add: MAX_SAFE_INTEGER_def)
  then have "q = 0" using q by (simp add: abs_mult)
  then show ?thesis using q by simp
qed

text \<open>
  A signature of a scope record fixes the whole record. Two records with the same signed bytes
  agree on every key and sealed part and on the time, and their texts are the same in UTF-8.
\<close>

theorem scope_signature_binds:
  assumes "concat_law N" "short_fields N (scope_fields N r)" "short_fields N (scope_fields N q)"
    and "scope_record_ok r" "scope_record_ok q"
    and "canonical N (scope_fields N r) = canonical N (scope_fields N q)"
  shows "r_sealPublic r = r_sealPublic q \<and> r_authPublic r = r_authPublic q \<and> r_scopePublic r = r_scopePublic q \<and>
    r_createdAt r = r_createdAt q \<and> r_sealedScopeSecret r = r_sealedScopeSecret q \<and> r_sealedDedup r = r_sealedDedup q \<and>
    utf8ToBytes N (r_lunaId r) = utf8ToBytes N (r_lunaId q) \<and> utf8ToBytes N (r_scope r) = utf8ToBytes N (r_scope q) \<and>
    utf8ToBytes N (r_userId r) = utf8ToBytes N (r_userId q)"
proof -
  have eq: "field_bytes N (scope_fields N r) = field_bytes N (scope_fields N q)"
    by (rule canonical_inj [OF assms(1-3,6)])
  then have "be_bytes 8 (nat (r_createdAt r mod 2 ^ 64)) = be_bytes 8 (nat (r_createdAt q mod 2 ^ 64))"
    by (simp add: field_bytes_def scope_fields_def)
  then have "nat (r_createdAt r mod 2 ^ 64) = nat (r_createdAt q mod 2 ^ 64)" by (subst (asm) be8_eq) (simp_all add: nat_less_iff)
  then have "r_createdAt r mod 2 ^ 64 = r_createdAt q mod 2 ^ 64" by (subst (asm) eq_nat_nat_iff) simp_all
  then have "r_createdAt r = r_createdAt q" using safe_mod_eq assms(4,5) by (simp add: scope_record_ok_def)
  then show ?thesis using eq by (simp add: field_bytes_def scope_fields_def)
qed

definition demo_scope :: "int \<Rightarrow> scope_record" where
  "demo_scope t = \<lparr>r_lunaId = [], r_scope = [], r_userId = [], r_sealPublic = replicate 1216 1, r_authPublic = replicate 1984 2,
     r_createdAt = t, r_scopePublic = replicate 1216 3, r_sealedScopeSecret = [], r_sealedDedup = []\<rparr>"

theorem scope_signature_binds_witness:
  "canonical demo_noble (scope_fields demo_noble (demo_scope 5)) \<noteq> canonical demo_noble (scope_fields demo_noble (demo_scope 6))"
proof -
  have "short_fields demo_noble (scope_fields demo_noble (demo_scope t))" for t
    by (simp add: short_fields_def scope_fields_def demo_scope_def demo_utf8 lit_def)
  moreover have "scope_record_ok (demo_scope 5)" "scope_record_ok (demo_scope 6)"
    by (simp_all add: scope_record_ok_def demo_scope_def crypto_lens MAX_SAFE_INTEGER_def)
  ultimately show ?thesis using scope_signature_binds [OF demo_laws(1), of "demo_scope 5" "demo_scope 6"] by (auto simp: demo_scope_def)
qed

end
