(* ===== verification/ZipFile.thy ===== *)
theory ZipFile
  imports Bytes Paths
begin

unbundle bit_operations_syntax

text \<open>
  The store-only ZIP writer of Luna Connect (\<open>luna/connect/web/src/lib/zip.js\<close>): the CRC-32 with its
  table, the sz check, and the archive as bytes. The local calendar of the browser is the argument
  \<open>clock\<close>. A reader that follows the central directory, as the format asks for, is defined next to it.
\<close>

section \<open>Text encoding\<close>

text \<open>\<open>TextEncoder.encode\<close>: UTF-8 of the scalar values; a lone surrogate becomes U+FFFD.\<close>

fun scalar_values :: "jstring \<Rightarrow> nat list" where
  "scalar_values [] = []"
| "scalar_values [c] = [if 0xD800 \<le> unat c \<and> unat c < 0xE000 then 0xFFFD else unat c]"
| "scalar_values (c # d # cs) =
     (let u = unat c; v = unat d
      in if 0xD800 \<le> u \<and> u < 0xDC00 \<and> 0xDC00 \<le> v \<and> v < 0xE000
         then ((u - 0xD800) * 0x400 + (v - 0xDC00) + 0x10000) # scalar_values cs
         else (if 0xD800 \<le> u \<and> u < 0xE000 then 0xFFFD else u) # scalar_values (d # cs))"

declare scalar_values.simps [js_eval]

definition text_encode :: "jstring \<Rightarrow> bytes" where
  [js_eval]: "text_encode s = map of_nat (concat (map utf8 (scalar_values s)))"

section \<open>Constants\<close>

definition ZIP_MAX_BYTES :: nat where [js_eval]: "ZIP_MAX_BYTES = 0xffffffff"
definition ZIP_MAX_FILES :: nat where [js_eval]: "ZIP_MAX_FILES = 65535"

definition ZIP_TOO_BIG :: jstring where
  "ZIP_TOO_BIG = lit ''This folder is too big to download as one zip (over 4 GB or 65,535 files). Open it and download smaller folders or single files.''"

definition LOCAL_SIG :: nat where [js_eval]: "LOCAL_SIG = 0x04034b50"
definition CENTRAL_SIG :: nat where [js_eval]: "CENTRAL_SIG = 0x02014b50"
definition END_SIG :: nat where [js_eval]: "END_SIG = 0x06054b50"
definition UTF8_FLAG :: nat where [js_eval]: "UTF8_FLAG = 0x0800"
definition VERSION :: nat where [js_eval]: "VERSION = 20"

lemmas zip_consts = ZIP_MAX_BYTES_def ZIP_MAX_FILES_def LOCAL_SIG_def CENTRAL_SIG_def END_SIG_def

section \<open>CRC-32\<close>

type_synonym u32 = "32 word"

definition crc_bit :: "u32 \<Rightarrow> u32" where
  [js_eval]: "crc_bit c = (if c AND 1 \<noteq> 0 then 0xedb88320 XOR drop_bit 1 c else drop_bit 1 c)"

definition CRC_TABLE :: "u32 list" where
  "CRC_TABLE = map (\<lambda>n. (crc_bit ^^ 8) (of_nat n)) [0..<256]"

definition crc_byte :: "u32 \<Rightarrow> byte \<Rightarrow> u32" where
  "crc_byte c b = CRC_TABLE ! unat ((c XOR ucast b) AND 0xff) XOR drop_bit 8 c"

definition crc32 :: "bytes \<Rightarrow> u32 \<Rightarrow> u32" where
  "crc32 bs previous = foldl crc_byte (previous XOR 0xffffffff) bs XOR 0xffffffff"

section \<open>Size check\<close>

definition entry_size :: "jstring \<times> int \<Rightarrow> int" where
  "entry_size f = (case f of (path, sz) \<Rightarrow> let nameBytes = int (length (text_encode path)) in sz + (30 + nameBytes) + (46 + nameBytes))"

fun fits_loop :: "(jstring \<times> int) list \<Rightarrow> int \<Rightarrow> unit result" where
  "fits_loop [] tot = Inr ()"
| "fits_loop (f # fs) tot =
     (let t = tot + entry_size f in if t > int ZIP_MAX_BYTES then Inl (Thrown ZIP_TOO_BIG) else fits_loop fs t)"

definition checkZipFits :: "(jstring \<times> int) list \<Rightarrow> unit result" where
  "checkZipFits files = (if length files > ZIP_MAX_FILES then Inl (Thrown ZIP_TOO_BIG) else fits_loop files 22)"

section \<open>The archive\<close>

record zip_file =
  z_path :: jstring
  z_data :: bytes
  z_mtime :: int

record local_time =
  l_year :: int
  l_month :: nat
  l_day :: nat
  l_hours :: nat
  l_minutes :: nat
  l_seconds :: nat

definition dosTimeDate :: "(int \<Rightarrow> local_time) \<Rightarrow> int \<Rightarrow> nat \<times> nat" where
  "dosTimeDate clock mtime =
     (let date = clock mtime
      in if l_year date < 1980 then (0, push_bit 9 0 OR push_bit 5 1 OR 1)
         else (push_bit 11 (l_hours date) OR push_bit 5 (l_minutes date) OR drop_bit 1 (l_seconds date),
               push_bit 9 (nat (l_year date - 1980)) OR push_bit 5 (l_month date + 1) OR l_day date))"

definition local_header :: "nat \<Rightarrow> nat \<Rightarrow> u32 \<Rightarrow> nat \<Rightarrow> nat \<Rightarrow> bytes" where
  "local_header time date crc sz nameLen =
     le_bytes 4 LOCAL_SIG @ le_bytes 2 VERSION @ le_bytes 2 UTF8_FLAG @ le_bytes 2 0 @ le_bytes 2 time @ le_bytes 2 date @
     le_bytes 4 (unat crc) @ le_bytes 4 sz @ le_bytes 4 sz @ le_bytes 2 nameLen @ le_bytes 2 0"

definition central_header :: "nat \<Rightarrow> nat \<Rightarrow> u32 \<Rightarrow> nat \<Rightarrow> nat \<Rightarrow> nat \<Rightarrow> bytes" where
  "central_header time date crc sz nameLen offset =
     le_bytes 4 CENTRAL_SIG @ le_bytes 2 VERSION @ le_bytes 2 VERSION @ le_bytes 2 UTF8_FLAG @ le_bytes 2 0 @ le_bytes 2 time @
     le_bytes 2 date @ le_bytes 4 (unat crc) @ le_bytes 4 sz @ le_bytes 4 sz @ le_bytes 2 nameLen @ le_bytes 2 0 @
     le_bytes 2 0 @ le_bytes 2 0 @ le_bytes 2 0 @ le_bytes 4 0 @ le_bytes 4 offset"

definition end_record :: "nat \<Rightarrow> nat \<Rightarrow> nat \<Rightarrow> bytes" where
  "end_record count centralSize offset =
     le_bytes 4 END_SIG @ le_bytes 2 0 @ le_bytes 2 0 @ le_bytes 2 count @ le_bytes 2 count @ le_bytes 4 centralSize @
     le_bytes 4 offset @ le_bytes 2 0"

text \<open>The loop over the files: the local parts, the central directory and the offset so far.\<close>

definition zip_step :: "(int \<Rightarrow> local_time) \<Rightarrow> zip_file \<Rightarrow> bytes \<times> bytes \<times> nat \<Rightarrow> bytes \<times> bytes \<times> nat" where
  "zip_step clock file st =
     (let (parts, central, offset) = st;
          name = text_encode (z_path file); sz = length (z_data file); crc = crc32 (z_data file) 0;
          (time, date) = dosTimeDate clock (z_mtime file);
          header = local_header time date crc sz (length name)
      in (parts @ header @ name @ z_data file,
          central @ central_header time date crc sz (length name) offset @ name,
          offset + length header + length name + sz))"

definition buildZip :: "(int \<Rightarrow> local_time) \<Rightarrow> zip_file list \<Rightarrow> bytes result" where
  "buildZip clock files =
     bind_r (checkZipFits (map (\<lambda>f. (z_path f, int (length (z_data f)))) files)) (\<lambda>_.
       let (parts, central, offset) = fold (zip_step clock) files ([], [], 0)
       in Inr (parts @ central @ end_record (length files) (length central) offset))"

section \<open>A reader of the format\<close>

text \<open>
  The end record says how many entries the central directory has and where it starts; each entry gives
  its sizes, its name and the place of its local header, after which the stored bytes follow.
\<close>

definition field :: "nat \<Rightarrow> bytes \<Rightarrow> nat \<Rightarrow> nat" where
  "field k z p = le_nat (slice z p (p + k))"

definition read_local :: "bytes \<Rightarrow> nat \<Rightarrow> nat \<Rightarrow> bytes option" where
  "read_local z off sz =
     (if length z < off + 30 \<or> field 4 z off \<noteq> LOCAL_SIG then None
      else let p = off + 30 + field 2 z (off + 26) + field 2 z (off + 28)
           in if length z < p + sz then None else Some (slice z p (p + sz)))"

fun read_central :: "bytes \<Rightarrow> nat \<Rightarrow> nat \<Rightarrow> (bytes \<times> bytes \<times> nat) list option" where
  "read_central z 0 p = Some []"
| "read_central z (Suc n) p =
     (if length z < p + 46 \<or> field 4 z p \<noteq> CENTRAL_SIG then None
      else let nl = field 2 z (p + 28); name = slice z (p + 46) (p + 46 + nl)
           in (case read_local z (field 4 z (p + 42)) (field 4 z (p + 24)) of
                 None \<Rightarrow> None
               | Some data \<Rightarrow>
                   map_option ((#) (name, data, field 4 z (p + 16)))
                     (read_central z n (p + 46 + nl + field 2 z (p + 30) + field 2 z (p + 32)))))"

definition unzip :: "bytes \<Rightarrow> (bytes \<times> bytes \<times> nat) list option" where
  "unzip z =
     (let e = length z - 22
      in if length z < 22 \<or> field 4 z e \<noteq> END_SIG then None else read_central z (field 2 z (e + 10)) (field 4 z (e + 16)))"

section \<open>The table is the bitwise CRC\<close>

definition crc_reference :: "bytes \<Rightarrow> u32 \<Rightarrow> u32" where
  "crc_reference bs previous =
     foldl (\<lambda>c b. (crc_bit ^^ 8) (c XOR ucast b)) (previous XOR 0xffffffff) bs XOR 0xffffffff"

lemma and_one_iff: "c AND 1 \<noteq> (0 :: u32) \<longleftrightarrow> bit c 0"
  by (simp add: and_one_eq odd_iff_mod_2_eq_one bit_0)

lemma crc_bit_xor: "crc_bit (x XOR y) = crc_bit x XOR crc_bit y"
  by (auto simp: crc_bit_def and_one_iff bit_xor_iff drop_bit_xor xor.assoc xor.commute xor.left_commute)

lemma crc_bits_xor: "(crc_bit ^^ n) (x XOR y) = (crc_bit ^^ n) x XOR (crc_bit ^^ n) y"
  by (induction n) (simp_all add: crc_bit_xor)

lemma crc_bits_shift: "(\<And>k. k < n \<Longrightarrow> \<not> bit x k) \<Longrightarrow> (crc_bit ^^ n) x = drop_bit n (x :: u32)"
proof (induction n)
  case (Suc n)
  then have "\<not> bit (drop_bit n x) 0" by (simp add: bit_drop_bit_eq)
  then show ?case using Suc by (simp add: crc_bit_def and_one_iff drop_bit_drop_bit)
qed simp

lemma low_high: "d = (d AND 0xff) XOR (d AND NOT 0xff)" for d :: u32
  by (rule bit_word_eqI) (auto simp: bit_simps)

lemma bit_ff: "bit (0xff :: u32) k \<longleftrightarrow> k < 8"
proof -
  have m: "(0xff :: u32) = mask 8" by (simp add: mask_eq_exp_minus_1)
  show ?thesis unfolding m by (auto simp: bit_mask_iff)
qed

lemma bit_byte: "bit (ucast (b :: byte) :: u32) k \<longleftrightarrow> k < 8 \<and> bit b k"
  using bit_imp_le_length [of b k] by (auto simp: bit_ucast_iff)

lemma table_nth: "unat d < 256 \<Longrightarrow> CRC_TABLE ! unat d = (crc_bit ^^ 8) d"
  by (simp add: CRC_TABLE_def)

lemma low_byte_less: "unat (d AND 0xff) < 256" for d :: u32
proof -
  have "d AND 0xff = take_bit 8 d" by (simp add: take_bit_eq_mask mask_eq_exp_minus_1)
  then show ?thesis using take_bit_nat_less_exp [of 8 "unat d"] by (simp add: unsigned_take_bit_eq)
qed

lemma crc_byte_bits: "crc_byte c b = (crc_bit ^^ 8) (c XOR ucast b)"
proof -
  let ?d = "c XOR ucast b"
  have "(crc_bit ^^ 8) ?d = (crc_bit ^^ 8) (?d AND 0xff) XOR (crc_bit ^^ 8) (?d AND NOT 0xff)"
    by (subst (1) low_high [of ?d]) (rule crc_bits_xor)
  also have "(crc_bit ^^ 8) (?d AND 0xff) = CRC_TABLE ! unat (?d AND 0xff)"
    by (rule table_nth [OF low_byte_less, symmetric])
  also have "(crc_bit ^^ 8) (?d AND NOT 0xff) = drop_bit 8 (?d AND NOT 0xff)"
    by (rule crc_bits_shift) (simp only: bit_and_iff bit_not_iff bit_ff simp_thms)
  also have "drop_bit 8 (?d AND NOT 0xff) = drop_bit 8 c"
    by (rule bit_word_eqI) (auto simp only: bit_drop_bit_eq bit_and_iff bit_not_iff bit_ff bit_xor_iff bit_byte comp_apply dest: bit_imp_possible_bit)
  finally show ?thesis by (simp add: crc_byte_def)
qed

text \<open>
  Property C32: the table-driven CRC-32 is the bitwise one, and it can be continued: the checksum of two
  pieces is the checksum of the second started with the one of the first.
\<close>

theorem crc32_is_bitwise:
  "crc32 bs previous = crc_reference bs previous \<and> crc32 (xs @ ys) p = crc32 ys (crc32 xs p)"
proof -
  have "crc_byte = (\<lambda>c b. (crc_bit ^^ 8) (c XOR ucast b))" by (intro ext crc_byte_bits)
  then show ?thesis by (simp add: crc32_def crc_reference_def xor.assoc)
qed

section \<open>The archive can be read\<close>

definition local_part :: "(int \<Rightarrow> local_time) \<Rightarrow> zip_file \<Rightarrow> bytes" where
  "local_part clock f =
     (let (time, date) = dosTimeDate clock (z_mtime f); name = text_encode (z_path f)
      in local_header time date (crc32 (z_data f) 0) (length (z_data f)) (length name) @ name @ z_data f)"

definition central_part :: "(int \<Rightarrow> local_time) \<Rightarrow> nat \<Rightarrow> zip_file \<Rightarrow> bytes" where
  "central_part clock off f =
     (let (time, date) = dosTimeDate clock (z_mtime f); name = text_encode (z_path f)
      in central_header time date (crc32 (z_data f) 0) (length (z_data f)) (length name) off @ name)"

fun central_parts :: "(int \<Rightarrow> local_time) \<Rightarrow> nat \<Rightarrow> zip_file list \<Rightarrow> bytes" where
  "central_parts clock off [] = []"
| "central_parts clock off (f # fs) = central_part clock off f @ central_parts clock (off + length (local_part clock f)) fs"

definition local_parts :: "(int \<Rightarrow> local_time) \<Rightarrow> zip_file list \<Rightarrow> bytes" where
  "local_parts clock fs = concat (map (local_part clock) fs)"

lemma header_lengths [simp]: "length (local_header t d c s n) = 30" "length (central_header t d c s n off) = 46"
    "length (end_record a b c') = 22"
  by (simp_all add: local_header_def central_header_def end_record_def)

lemma length_local_part: "length (local_part clock f) = 30 + length (text_encode (z_path f)) + length (z_data f)"
  by (simp add: local_part_def case_prod_beta Let_def)

lemma length_central_part: "length (central_part clock off f) = 46 + length (text_encode (z_path f))"
  by (simp add: central_part_def case_prod_beta Let_def)

lemma zip_fold:
  "fold (zip_step clock) fs (P, C, off) = (P @ local_parts clock fs, C @ central_parts clock off fs, off + length (local_parts clock fs))"
proof (induction fs arbitrary: P C off)
  case (Cons f fs)
  have "zip_step clock f (P, C, off) = (P @ local_part clock f, C @ central_part clock off f, off + length (local_part clock f))"
    by (simp add: zip_step_def local_part_def central_part_def case_prod_beta Let_def)
  then show ?case by (simp add: Cons local_parts_def)
qed (simp add: local_parts_def)

definition archive :: "(int \<Rightarrow> local_time) \<Rightarrow> zip_file list \<Rightarrow> bytes" where
  "archive clock fs = local_parts clock fs @ central_parts clock 0 fs @
     end_record (length fs) (length (central_parts clock 0 fs)) (length (local_parts clock fs))"

definition zip_entries :: "zip_file list \<Rightarrow> (jstring \<times> int) list" where
  "zip_entries fs = map (\<lambda>f. (z_path f, int (length (z_data f)))) fs"

definition zip_length :: "zip_file list \<Rightarrow> nat" where
  "zip_length fs = 22 + sum_list (map (\<lambda>f. length (z_data f) + 76 + 2 * length (text_encode (z_path f))) fs)"

lemma buildZip_eq: "buildZip clock fs = bind_r (checkZipFits (zip_entries fs)) (\<lambda>_. Inr (archive clock fs))"
  by (simp add: buildZip_def zip_fold archive_def zip_entries_def)

lemma length_central_parts: "length (central_parts clock off fs) = sum_list (map (\<lambda>f. 46 + length (text_encode (z_path f))) fs)"
  by (induction fs arbitrary: off) (simp_all add: length_central_part)

lemma length_local_parts: "length (local_parts clock fs) = sum_list (map (\<lambda>f. 30 + length (text_encode (z_path f)) + length (z_data f)) fs)"
  by (induction fs) (simp_all add: local_parts_def length_local_part)

lemma fits_loop_eq:
  "t \<le> int ZIP_MAX_BYTES \<Longrightarrow> list_all (\<lambda>(_, sz). 0 \<le> sz) es \<Longrightarrow>
   fits_loop es t = (if int ZIP_MAX_BYTES < t + sum_list (map entry_size es) then Inl (Thrown ZIP_TOO_BIG) else Inr ())"
proof (induction es arbitrary: t)
  case (Cons e es)
  have "0 \<le> sum_list (map entry_size es)" using Cons.prems(2)
    by (intro sum_list_nonneg) (auto simp: entry_size_def list_all_iff Let_def)
  then show ?case using Cons by (auto simp: Let_def add.assoc)
qed simp

text \<open>A set of files that passes the check is exactly one whose archive has at most \<open>2 ^ 32 - 1\<close> bytes.\<close>

lemma archive_length: "length (archive clock fs) = zip_length fs"
  by (induction fs) (simp_all add: archive_def length_central_part length_central_parts length_local_parts zip_length_def)

lemma zip_length_entries: "int (zip_length fs) = 22 + sum_list (map entry_size (zip_entries fs))"
  by (induction fs) (simp_all add: zip_length_def zip_entries_def entry_size_def)

lemma field_at: "length xs = p \<Longrightarrow> n < 256 ^ k \<Longrightarrow> field k (xs @ le_bytes k n @ ys) p = n"
  by (simp add: field_def slice_at le_nat_le_bytes)

lemma unat_u32_less: "unat (c :: u32) < 4294967296"
  using unsigned_less [of c, where 'a = nat] by simp

lemma central_fields:
  assumes "length A = p" "z = A @ central_part clock off f @ B" "off < 2 ^ 32" "length (z_data f) < 2 ^ 32"
  shows "field 4 z p = CENTRAL_SIG" "field 4 z (p + 16) = unat (crc32 (z_data f) 0)" "field 4 z (p + 24) = length (z_data f)"
    "field 2 z (p + 28) = length (text_encode (z_path f)) mod 65536" "field 2 z (p + 30) = 0" "field 2 z (p + 32) = 0" "field 4 z (p + 42) = off"
proof -
  obtain time date where td: "dosTimeDate clock (z_mtime f) = (time, date)" by force
  have z: "z = A @ central_header time date (crc32 (z_data f) 0) (length (z_data f)) (length (text_encode (z_path f))) off @ text_encode (z_path f) @ B"
    using assms(2) by (simp add: central_part_def td Let_def)
  show "field 4 z p = CENTRAL_SIG" "field 4 z (p + 16) = unat (crc32 (z_data f) 0)" "field 4 z (p + 24) = length (z_data f)"
    "field 2 z (p + 28) = length (text_encode (z_path f)) mod 65536" "field 2 z (p + 30) = 0" "field 2 z (p + 32) = 0" "field 4 z (p + 42) = off"
    using assms(1,3,4) unat_u32_less [of "crc32 (z_data f) 0"]
    by (simp_all add: z central_header_def field_def slice_def le_nat_le_bytes zip_consts)
qed

lemma local_fields:
  assumes "length A = p" "z = A @ local_part clock f @ B"
  shows "field 4 z p = LOCAL_SIG" "field 2 z (p + 26) = length (text_encode (z_path f)) mod 65536" "field 2 z (p + 28) = 0"
proof -
  obtain time date where td: "dosTimeDate clock (z_mtime f) = (time, date)" by force
  have z: "z = A @ local_header time date (crc32 (z_data f) 0) (length (z_data f)) (length (text_encode (z_path f))) @ text_encode (z_path f) @ z_data f @ B"
    using assms(2) by (simp add: local_part_def td Let_def)
  show "field 4 z p = LOCAL_SIG" "field 2 z (p + 26) = length (text_encode (z_path f)) mod 65536" "field 2 z (p + 28) = 0"
    using assms(1) by (simp_all add: z local_header_def field_def slice_def le_nat_le_bytes zip_consts)
qed

lemma end_fields:
  assumes "z = A @ end_record count csize off" "count < 65536" "off < 2 ^ 32"
  shows "field 4 z (length z - 22) = END_SIG" "field 2 z (length z - 22 + 10) = count" "field 4 z (length z - 22 + 16) = off" "22 \<le> length z"
  using assms(2,3) by (simp_all add: assms(1) end_record_def field_def slice_def le_nat_le_bytes zip_consts)

lemma read_local_here:
  assumes "length A = p" "z = A @ local_part clock f @ B" "length (text_encode (z_path f)) < 65536"
  shows "read_local z p (length (z_data f)) = Some (z_data f)"
proof -
  let ?n = "text_encode (z_path f)"
  obtain hdr where h: "local_part clock f = hdr @ ?n @ z_data f" "length hdr = 30"
    by (simp add: local_part_def case_prod_beta Let_def)
  have "slice z (p + 30 + length ?n) (p + 30 + length ?n + length (z_data f)) = z_data f"
    using assms(1) h by (simp add: assms(2) slice_def)
  moreover have "p + 30 + length ?n + length (z_data f) \<le> length z" using assms(1) h by (simp add: assms(2))
  ultimately show ?thesis using local_fields [OF assms(1,2)] assms(3) by (simp add: read_local_def Let_def)
qed

lemma slice_central_name:
  assumes "length A = p" "z = A @ central_part clock off f @ B"
  shows "slice z (p + 46) (p + 46 + length (text_encode (z_path f))) = text_encode (z_path f)"
proof -
  obtain hdr where h: "central_part clock off f = hdr @ text_encode (z_path f)" "length hdr = 46"
    by (simp add: central_part_def case_prod_beta Let_def)
  show ?thesis using assms(1) h by (simp add: assms(2) slice_def)
qed

definition zip_entry :: "zip_file \<Rightarrow> bytes \<times> bytes \<times> nat" where
  "zip_entry f = (text_encode (z_path f), z_data f, unat (crc32 (z_data f) 0))"

lemma read_central_reads:
  assumes "z = L @ local_parts clock fs @ M @ central_parts clock (length L) fs @ E" "length z < 2 ^ 32"
    and "list_all (\<lambda>f. length (text_encode (z_path f)) < 65536) fs"
  shows "read_central z (length fs) (length (L @ local_parts clock fs @ M)) = Some (map zip_entry fs)"
  using assms
proof (induction fs arbitrary: L M)
  case (Cons f fs)
  let ?n = "text_encode (z_path f)" and ?p = "length (L @ local_parts clock (f # fs) @ M)"
  have off: "length L < 2 ^ 32" and sz: "length (z_data f) < 2 ^ 32"
    using Cons.prems(1,2) by (simp_all add: local_parts_def length_local_part)
  let ?A = "L @ local_parts clock (f # fs) @ M"
  let ?B = "central_parts clock (length L + length (local_part clock f)) fs @ E"
  have zc: "z = ?A @ central_part clock (length L) f @ ?B" using Cons.prems(1) by simp
  have zl: "z = L @ local_part clock f @ (local_parts clock fs @ M @ central_parts clock (length L) (f # fs) @ E)"
    using Cons.prems(1) by (simp add: local_parts_def)
  note fields = central_fields [OF refl zc off sz]
  have nl: "length ?n < 65536" using Cons.prems(3) by simp
  have more: "?p + 46 \<le> length z" by (simp add: zc length_central_part)
  have "read_central z (length fs) (length ((L @ local_part clock f) @ local_parts clock fs @ (M @ central_part clock (length L) f))) = Some (map zip_entry fs)"
    using Cons.prems by (intro Cons.IH) (simp_all add: local_parts_def)
  then have rest: "read_central z (length fs) (?p + 46 + length ?n) = Some (map zip_entry fs)"
    by (simp add: local_parts_def length_central_part algebra_simps)
  show ?case
    using fields nl more rest read_local_here [OF refl zl nl] slice_central_name [OF refl zc]
    by (simp add: zip_entry_def Let_def)
qed simp

lemma checkZipFits_eq:
  "checkZipFits (zip_entries fs) = (if ZIP_MAX_FILES < length fs \<or> ZIP_MAX_BYTES < zip_length fs then Inl (Thrown ZIP_TOO_BIG) else Inr ())"
proof -
  have "fits_loop (zip_entries fs) 22 = (if int ZIP_MAX_BYTES < int (zip_length fs) then Inl (Thrown ZIP_TOO_BIG) else Inr ())"
    unfolding zip_length_entries by (rule fits_loop_eq) (auto simp: ZIP_MAX_BYTES_def zip_entries_def list_all_iff)
  then show ?thesis by (simp add: checkZipFits_def zip_entries_def)
qed

lemma fits_length:
  assumes "checkZipFits (zip_entries fs) = Inr ()"
  shows "length fs \<le> ZIP_MAX_FILES" "length (archive clock fs) \<le> ZIP_MAX_BYTES"
  using assms by (auto simp: checkZipFits_eq archive_length split: if_splits)

lemma unzip_archive:
  assumes "checkZipFits (zip_entries fs) = Inr ()" "list_all (\<lambda>f. length (text_encode (z_path f)) < 65536) fs"
  shows "unzip (archive clock fs) = Some (map zip_entry fs)"
proof -
  let ?z = "archive clock fs" and ?C = "central_parts clock 0 fs" and ?L = "local_parts clock fs"
  have len: "length fs < 65536" "length ?z < 2 ^ 32" using fits_length(1) [OF assms(1)] fits_length(2) [OF assms(1), of clock] by (simp_all add: zip_consts)
  have z: "?z = (?L @ ?C) @ end_record (length fs) (length ?C) (length ?L)" by (simp add: archive_def)
  have "length ?L < 2 ^ 32" using len(2) by (simp add: archive_def)
  note e = end_fields [OF z len(1) this]
  have "read_central ?z (length fs) (length ([] @ ?L @ [])) = Some (map zip_entry fs)"
    by (rule read_central_reads [OF _ len(2) assms(2)]) (simp add: archive_def)
  then show ?thesis using e by (simp add: unzip_def Let_def)
qed

text \<open>
  Property C33: when the files pass the size check and no name is longer than a name field can say, the zip
  is written, it is at most \<open>2 ^ 32 - 1\<close> bytes long, and a reader that follows its directory finds every
  file in order: its name in UTF-8, its bytes and its checksum.
\<close>

theorem zip_round_trip:
  assumes "checkZipFits (zip_entries fs) = Inr ()" "list_all (\<lambda>f. length (text_encode (z_path f)) < 65536) fs"
  shows "\<exists>z. buildZip clock fs = Inr z \<and> length z \<le> ZIP_MAX_BYTES \<and>
    unzip z = Some (map (\<lambda>f. (text_encode (z_path f), z_data f, unat (crc32 (z_data f) 0))) fs)"
  using assms fits_length unzip_archive by (simp add: buildZip_eq zip_entry_def [abs_def])

definition demo_zip :: "zip_file list" where
  "demo_zip = [\<lparr>z_path = lit ''a'', z_data = [1, 2], z_mtime = 0\<rparr>, \<lparr>z_path = lit ''b'', z_data = [], z_mtime = 0\<rparr>]"

definition demo_clock :: "int \<Rightarrow> local_time" where
  "demo_clock t = \<lparr>l_year = 2026, l_month = 1, l_day = 2, l_hours = 3, l_minutes = 4, l_seconds = 5\<rparr>"

lemma demo_names: "text_encode (lit ''a'') = [97]" "text_encode (lit ''b'') = [98]"
  by (simp_all add: text_encode_def lit_def utf8_def)

theorem zip_round_trip_witness:
  "\<exists>z. buildZip demo_clock demo_zip = Inr z \<and> length z \<le> ZIP_MAX_BYTES \<and>
    unzip z = Some (map (\<lambda>f. (text_encode (z_path f), z_data f, unat (crc32 (z_data f) 0))) demo_zip)"
  by (rule zip_round_trip) (simp_all add: demo_zip_def demo_names checkZipFits_eq zip_length_def zip_consts)

text \<open>
  The download is refused exactly when there are more files than a directory can count or when
  the archive would be longer than \<open>2 ^ 32 - 1\<close> bytes; otherwise it is written, with that length.
\<close>

theorem zip_refused_iff:
  "case buildZip clock fs of
     Inl e \<Rightarrow> e = Thrown ZIP_TOO_BIG \<and> (ZIP_MAX_FILES < length fs \<or> ZIP_MAX_BYTES < zip_length fs)
   | Inr z \<Rightarrow> length fs \<le> ZIP_MAX_FILES \<and> length z = zip_length fs \<and> length z \<le> ZIP_MAX_BYTES"
  by (auto simp: buildZip_eq checkZipFits_eq archive_length)

text \<open>
  Property C36: a file name of more than 65535 bytes passes the size check but is not written so that it can be
  read: the name field keeps its length modulo 65536, and a reader gets another name.
\<close>

theorem long_name_lost:
  assumes "checkZipFits (zip_entries [f]) = Inr ()" "65536 \<le> length (text_encode (z_path f))"
  shows "\<exists>z. buildZip clock [f] = Inr z \<and> (\<forall>es. unzip z = Some es \<longrightarrow> text_encode (z_path f) \<notin> fst ` set es)"
proof -
  let ?z = "archive clock [f]" and ?C = "central_part clock 0 f" and ?L = "local_part clock f"
  have len: "length ?z < 2 ^ 32" using fits_length(2) [OF assms(1), of clock] by (simp add: zip_consts)
  have zc: "?z = ?L @ ?C @ end_record 1 (length ?C) (length ?L)" by (simp add: archive_def local_parts_def)
  have "length ?L < 2 ^ 32" "length (z_data f) < 2 ^ 32" using len by (simp_all add: zc length_local_part)
  note e = end_fields [of ?z "?L @ ?C" 1 "length ?C" "length ?L"] and c = central_fields [OF refl zc _ this(2)]
  have "length name = length (text_encode (z_path f)) mod 65536" if "unzip ?z = Some es" "name \<in> fst ` set es" for es name
  proof -
    let ?n = "length (text_encode (z_path f)) mod 65536"
    have "read_central ?z (Suc 0) (length ?L) = Some es" using that(1) e zc \<open>length ?L < 2 ^ 32\<close> by (simp add: unzip_def Let_def)
    then have "name = slice ?z (length ?L + 46) (length ?L + 46 + ?n)" using that(2) c
      by (auto simp: Let_def split: if_splits option.splits)
    moreover have "?n \<le> length (text_encode (z_path f))" by simp
    ultimately show ?thesis by (simp add: length_slice zc length_central_part)
  qed
  moreover have "length (text_encode (z_path f)) mod 65536 < length (text_encode (z_path f))"
    using assms(2) mod_less_divisor [of 65536 "length (text_encode (z_path f))"] by linarith
  ultimately show ?thesis using assms(1) by (fastforce simp: buildZip_eq)
qed

lemma scalar_values_ascii: "list_all (\<lambda>c. unat c < 128) s \<Longrightarrow> scalar_values s = map unat s"
  by (induction s rule: scalar_values.induct) (simp_all add: Let_def)

lemma length_encode_ascii: "list_all (\<lambda>c. unat c < 128) s \<Longrightarrow> length (text_encode s) = length s"
proof -
  assume a: "list_all (\<lambda>c. unat c < 128) s"
  have "concat (map utf8 (map unat s)) = map unat s" using a by (induction s) (simp_all add: utf8_def)
  then show ?thesis using scalar_values_ascii [OF a] by (simp add: text_encode_def)
qed

definition long_named :: zip_file where
  "long_named = \<lparr>z_path = replicate 65536 97, z_data = [], z_mtime = 0\<rparr>"

lemma long_named_length: "length (text_encode (z_path long_named)) = 65536"
  using length_encode_ascii [of "replicate 65536 97"] by (simp add: long_named_def list_all_iff)

theorem long_name_lost_witness:
  "\<exists>z. buildZip demo_clock [long_named] = Inr z \<and> (\<forall>es. unzip z = Some es \<longrightarrow> text_encode (z_path long_named) \<notin> fst ` set es)"
proof (rule long_name_lost)
  have "length (z_data long_named) = 0" by (simp add: long_named_def)
  then show "checkZipFits (zip_entries [long_named]) = Inr ()"
    using long_named_length by (simp add: checkZipFits_eq zip_length_def zip_consts)
qed (simp add: long_named_length)

end
