(* ===== verification/CloudTree.thy ===== *)
theory CloudTree
  imports CloudPrivate ZipFile
begin

text \<open>
  Browsing and downloading a cloud backup on Luna Connect: the folder lists of \<open>cloudTree.js\<close> over the flat
  list of files, and the download of a file or a folder of \<open>cloudDownload.js\<close>. \<open>localeCompare\<close> and the
  printing of a date are arguments.
\<close>

section \<open>Folders of a flat list\<close>

definition parentFolder :: "jstring \<Rightarrow> jstring" where
  [js_eval]: "parentFolder path = (case last_index_of slash path of None \<Rightarrow> [] | Some idx \<Rightarrow> take idx path)"

definition baseName :: "jstring \<Rightarrow> jstring" where
  [js_eval]: "baseName path = (case last_index_of slash path of None \<Rightarrow> path | Some idx \<Rightarrow> drop (Suc idx) path)"

record folder_row =
  d_name :: jstring
  d_path :: jstring
  d_size :: int
  d_files :: nat

definition folder_prefix :: "jstring \<Rightarrow> jstring" where
  [js_eval]: "folder_prefix folder = (if folder \<noteq> [] then folder @ [slash] else [])"

text \<open>One entry of the loop of \<open>listFolder\<close>; the map of folders keeps its insertion order.\<close>

fun add_to_dir :: "jstring \<Rightarrow> jstring \<Rightarrow> int \<Rightarrow> folder_row list \<Rightarrow> folder_row list" where
  "add_to_dir prefix name sz [] = [\<lparr>d_name = name, d_path = prefix @ name, d_size = sz, d_files = 1\<rparr>]"
| "add_to_dir prefix name sz (d # ds) =
     (if d_name d = name then d\<lparr>d_size := d_size d + sz, d_files := d_files d + 1\<rparr> # ds else d # add_to_dir prefix name sz ds)"

definition list_step :: "jstring \<Rightarrow> tree_entry \<Rightarrow> folder_row list \<times> (tree_entry \<times> jstring) list \<Rightarrow> folder_row list \<times> (tree_entry \<times> jstring) list" where
  "list_step prefix entry st =
     (let (dirs, files) = st; rest = drop (length prefix) (e_path entry)
      in if \<not> starts_with (e_path entry) prefix then st
         else if rest = [] then st
         else (case index_of slash rest of
                 None \<Rightarrow> (dirs, files @ [(entry, rest)])
               | Some k \<Rightarrow> (add_to_dir prefix (take k rest) (e_size entry) dirs, files)))"

definition listFolder :: "(jstring \<Rightarrow> jstring \<Rightarrow> int) \<Rightarrow> tree_entry list \<Rightarrow> jstring \<Rightarrow> folder_row list \<times> (tree_entry \<times> jstring) list" where
  "listFolder compare entries folder =
     (let (dirs, files) = fold (list_step (folder_prefix folder)) entries ([], [])
      in (sort_by (\<lambda>a b. compare (d_name a) (d_name b)) dirs, sort_by (\<lambda>a b. compare (snd a) (snd b)) files))"

definition filesUnder :: "tree_entry list \<Rightarrow> jstring \<Rightarrow> tree_entry list" where
  "filesUnder entries folder =
     (if folder = [] then entries else filter (\<lambda>entry. starts_with (e_path entry) (folder @ [slash])) entries)"

section \<open>Sizes and labels\<close>

fun size_unit :: "nat \<Rightarrow> nat \<Rightarrow> nat \<Rightarrow> nat" where
  "size_unit n 0 unit = unit"
| "size_unit n (Suc left) unit =
     (if js_fl (99995 / 100) \<le> js_div (of_nat n) (1000 ^ unit) then size_unit n left (Suc unit) else unit)"

definition SIZE_UNITS :: "jstring list" where
  "SIZE_UNITS = [lit ''B'', lit ''KB'', lit ''MB'', lit ''GB'']"

text \<open>\<open>String(Math.round(value * 10) / 10)\<close>: a whole number of tenths.\<close>

definition tenths_text :: "nat \<Rightarrow> jstring" where
  "tenths_text t = (if t mod 10 = 0 then num_str (t div 10) else num_str (t div 10) @ [dot] @ num_str (t mod 10))"

definition formatSize :: "int \<Rightarrow> jstring" where
  "formatSize bs =
     (let n = nat bs
      in if n < 1000 then num_str n @ lit '' B''
         else let unit = size_unit n (length SIZE_UNITS - 2) 1;
                  value = js_div (of_nat n) (1000 ^ unit);
                  txt = (if value < 10 then tenths_text (nat (js_round (js_mul value 10))) else num_str (nat (js_round value)))
              in txt @ [32] @ SIZE_UNITS ! unit)"

definition versionLabel :: "(int \<Rightarrow> jstring) \<Rightarrow> int \<Rightarrow> nat \<Rightarrow> jstring" where
  "versionLabel formatWhen createdAt index =
     (let when = formatWhen createdAt in if index = 0 then lit ''Latest '' @ [0xB7] @ lit '' '' @ when else when)"

section \<open>Downloads\<close>

definition isSafeZipPath :: "jstring \<Rightarrow> bool" where
  [js_eval]: "isSafeZipPath path \<longleftrightarrow> \<not> starts_with path [slash] \<and> 92 \<notin> set path \<and> lit ''..'' \<notin> set (split_on slash path)"

definition relative_path :: "jstring \<Rightarrow> jstring \<Rightarrow> jstring" where
  [js_eval]: "relative_path folder path = (if folder \<noteq> [] then drop (length folder + 1) path else path)"

text \<open>A file saved by the browser: its name and its bytes.\<close>

type_synonym saved = "jstring \<times> bytes"

type_synonym read_pack = "jstring \<Rightarrow> (bytes \<Rightarrow> bytes option result) result"

text \<open>
  A pack reader gives a lease of the opened pack, here the function that reads a chunk of it. Which packs the
  reader keeps open, the leases and \<open>dispose\<close>, which the downloads await at their end, are the subject of
  \<open>PackCache\<close>: there a lease that is held reads the pack it was given for, so that what a download
  reads does not depend on them, and the promise of \<open>dispose\<close> resolves.
\<close>

definition pack_source :: "noble \<Rightarrow> (jstring \<Rightarrow> bytes result) \<Rightarrow> (bytes \<Rightarrow> bytes result) \<Rightarrow> read_pack" where
  "pack_source N getPack unwrapKey idHex =
     bind_r (getPack idHex) (\<lambda>bs. bind_r (openPackWith N bs idHex unwrapKey) (\<lambda>p. Inr (pack_chunk N p)))"

text \<open>
  A backup: a private one has its own source, scope and keys; a shared one has a key and a fingerprint key
  for every key version the phrase can open.
\<close>

record private_part =
  q_lunaId :: jstring
  q_getPack :: "jstring \<Rightarrow> bytes result"
  q_sealSecret :: bytes
  q_scope :: jstring
  q_dedupKey :: bytes

record cloud_backup =
  b_name :: jstring
  b_private :: "private_part option"
  b_keys :: "(nat \<times> bytes \<times> bytes) list"

definition readerFor :: "noble \<Rightarrow> (jstring \<Rightarrow> bytes result) \<Rightarrow> cloud_backup \<Rightarrow> nat \<Rightarrow> (read_pack \<times> bytes) result" where
  "readerFor N getPack backup keyVersion =
     (case b_private backup of
        Some p \<Rightarrow> Inr (pack_source N (q_getPack p) (privateUnwrap N (q_sealSecret p) (q_lunaId p) (q_scope p)), q_dedupKey p)
      | None \<Rightarrow>
          (case map_of (b_keys backup) keyVersion of
             None \<Rightarrow> Inl MissingKey
           | Some (key, dedupKey) \<Rightarrow>
               Inr (pack_source N getPack (unwrapWithAnyKey N (newestFirst (map (\<lambda>(v, k, d). (v, k)) (b_keys backup)))), dedupKey)))"

definition downloadFile :: "noble \<Rightarrow> (jstring \<Rightarrow> bytes result) \<Rightarrow> cloud_backup \<Rightarrow> nat \<Rightarrow> tree_entry \<Rightarrow> saved result" where
  "downloadFile N getPack backup keyVersion entry =
     bind_r (readerFor N getPack backup keyVersion) (\<lambda>(readPack, dedupKey).
     bind_r (fst (readFile N entry readPack dedupKey)) (\<lambda>blob. Inr (baseName (e_path entry), blob)))"

definition packOf :: "tree_entry \<Rightarrow> jstring" where
  "packOf entry = (case e_chunks entry of [] \<Rightarrow> [] | c # _ \<Rightarrow> c_pack c)"

definition pack_order :: "(jstring \<Rightarrow> jstring \<Rightarrow> int) \<Rightarrow> tree_entry \<Rightarrow> tree_entry \<Rightarrow> int" where
  "pack_order compare a b =
     (if compare (packOf a) (packOf b) \<noteq> 0 then compare (packOf a) (packOf b) else compare (e_path a) (e_path b))"

text \<open>The files are read in the order of their packs; the first error ends the download.\<close>

fun read_all :: "noble \<Rightarrow> read_pack \<Rightarrow> bytes \<Rightarrow> tree_entry list \<Rightarrow> (jstring \<rightharpoonup> bytes) \<Rightarrow> (jstring \<rightharpoonup> bytes) result" where
  "read_all N readPack dedupKey [] m = Inr m"
| "read_all N readPack dedupKey (e # es) m =
     bind_r (fst (readFile N e readPack dedupKey)) (\<lambda>blob. read_all N readPack dedupKey es (m(e_path e \<mapsto> blob)))"

definition zip_name :: "jstring \<Rightarrow> jstring \<Rightarrow> jstring" where
  "zip_name backupName folder = (if folder \<noteq> [] then baseName folder else backupName) @ lit ''.zip''"

definition safe_under :: "tree_entry list \<Rightarrow> jstring \<Rightarrow> tree_entry list" where
  "safe_under entries folder = filter (\<lambda>e. isSafeZipPath (relative_path folder (e_path e))) (filesUnder entries folder)"

definition download_sizes :: "tree_entry list \<Rightarrow> jstring \<Rightarrow> (jstring \<times> int) list" where
  "download_sizes chosen folder = map (\<lambda>e. (relative_path folder (e_path e), e_size e)) chosen"

definition zip_files :: "tree_entry list \<Rightarrow> jstring \<Rightarrow> (jstring \<rightharpoonup> bytes) \<Rightarrow> zip_file list" where
  "zip_files chosen folder dataByPath =
     map (\<lambda>e. \<lparr>z_path = relative_path folder (e_path e), z_data = the (dataByPath (e_path e)), z_mtime = e_mtime e\<rparr>) chosen"

definition downloadFolder ::
  "noble \<Rightarrow> (int \<Rightarrow> local_time) \<Rightarrow> (jstring \<Rightarrow> jstring \<Rightarrow> int) \<Rightarrow> (jstring \<Rightarrow> bytes result) \<Rightarrow> cloud_backup \<Rightarrow> nat \<Rightarrow>
   tree_entry list \<Rightarrow> jstring \<Rightarrow> saved result" where
  "downloadFolder N clock compare getPack backup keyVersion entries folder =
     (let chosen = safe_under entries folder
      in bind_r (checkZipFits (download_sizes chosen folder)) (\<lambda>_.
         bind_r (readerFor N getPack backup keyVersion) (\<lambda>(readPack, dedupKey).
         bind_r (read_all N readPack dedupKey (sort_by (pack_order compare) chosen) Map.empty) (\<lambda>dataByPath.
         bind_r (buildZip clock (zip_files chosen folder dataByPath)) (\<lambda>zip.
           Inr (zip_name (b_name backup) folder, zip))))))"

section \<open>The listing of a folder\<close>

lemma index_of_Some: "index_of c s = Some k \<longleftrightarrow> k < length s \<and> s ! k = c \<and> c \<notin> set (take k s)"
proof (induction s arbitrary: k)
  case (Cons x xs)
  then show ?case by (cases k) auto
qed simp

lemma index_of_None: "index_of c s = None \<longleftrightarrow> c \<notin> set s"
  by (induction s) auto

text \<open>The child of a folder that an entry belongs to: the folder it lies in, or the entry itself.\<close>

definition dir_of :: "jstring \<Rightarrow> tree_entry \<Rightarrow> jstring option" where
  "dir_of prefix e =
     (if starts_with (e_path e) prefix
      then map_option (\<lambda>k. take k (drop (length prefix) (e_path e))) (index_of slash (drop (length prefix) (e_path e))) else None)"

definition is_file_in :: "jstring \<Rightarrow> tree_entry \<Rightarrow> bool" where
  "is_file_in prefix e \<longleftrightarrow> (\<exists>name. name \<noteq> [] \<and> slash \<notin> set name \<and> e_path e = prefix @ name)"

lemma dir_of_Some: "dir_of prefix e = Some n \<longleftrightarrow> slash \<notin> set n \<and> starts_with (e_path e) (prefix @ n @ [slash])"
proof
  assume "dir_of prefix e = Some n"
  then obtain k where k: "starts_with (e_path e) prefix" "index_of slash (drop (length prefix) (e_path e)) = Some k"
      "n = take k (drop (length prefix) (e_path e))"
    by (auto simp: dir_of_def split: if_splits)
  then obtain t where t: "e_path e = prefix @ t" by (auto simp: starts_with_iff)
  then have "k < length t" "t ! k = slash" "slash \<notin> set (take k t)" "n = take k t" using k(2,3) by (auto simp: index_of_Some)
  then show "slash \<notin> set n \<and> starts_with (e_path e) (prefix @ n @ [slash])"
    using t id_take_nth_drop [of k t] by (auto simp: starts_with_iff)
next
  assume "slash \<notin> set n \<and> starts_with (e_path e) (prefix @ n @ [slash])"
  then obtain t where "slash \<notin> set n" "e_path e = prefix @ n @ slash # t" by (auto simp: starts_with_iff)
  moreover from this have "index_of slash (n @ slash # t) = Some (length n)" by (simp add: index_of_Some)
  ultimately show "dir_of prefix e = Some n" by (simp add: dir_of_def)
qed

lemma is_file_in_iff:
  "is_file_in prefix e \<longleftrightarrow> starts_with (e_path e) prefix \<and> drop (length prefix) (e_path e) \<noteq> [] \<and>
     index_of slash (drop (length prefix) (e_path e)) = None"
  by (auto simp: is_file_in_def index_of_None starts_with_iff)

lemma list_step_eq:
  "list_step prefix e (dirs, files) =
     ((case dir_of prefix e of None \<Rightarrow> dirs | Some n \<Rightarrow> add_to_dir prefix n (e_size e) dirs),
      (if is_file_in prefix e then files @ [(e, drop (length prefix) (e_path e))] else files))"
  by (auto simp: list_step_def Let_def dir_of_def is_file_in_iff split: option.split)

text \<open>What the rows of the folders say after some entries.\<close>

definition rows_ok :: "jstring \<Rightarrow> tree_entry list \<Rightarrow> folder_row list \<Rightarrow> bool" where
  "rows_ok prefix es dirs \<longleftrightarrow> distinct (map d_name dirs) \<and> d_name ` set dirs = {n. \<exists>e\<in>set es. dir_of prefix e = Some n} \<and>
     (\<forall>d\<in>set dirs. d_path d = prefix @ d_name d \<and>
        d_files d = length (filter (\<lambda>e. dir_of prefix e = Some (d_name d)) es) \<and>
        d_size d = sum_list (map e_size (filter (\<lambda>e. dir_of prefix e = Some (d_name d)) es)))"

lemma add_to_dir_new: "name \<notin> d_name ` set dirs \<Longrightarrow>
    add_to_dir prefix name sz dirs = dirs @ [\<lparr>d_name = name, d_path = prefix @ name, d_size = sz, d_files = 1\<rparr>]"
  by (induction dirs) auto

definition bump :: "jstring \<Rightarrow> int \<Rightarrow> folder_row \<Rightarrow> folder_row" where
  "bump name sz d = (if d_name d = name then d\<lparr>d_size := d_size d + sz, d_files := d_files d + 1\<rparr> else d)"

lemma bump_simps [simp]: "d_name (bump n sz d) = d_name d" "d_path (bump n sz d) = d_path d"
    "d_files (bump n sz d) = d_files d + (if d_name d = n then 1 else 0)" "d_size (bump n sz d) = d_size d + (if d_name d = n then sz else 0)"
    "d_name \<circ> bump n sz = d_name"
  by (auto simp: bump_def)

lemma add_to_dir_old: "distinct (map d_name dirs) \<Longrightarrow> name \<in> d_name ` set dirs \<Longrightarrow> add_to_dir prefix name sz dirs = map (bump name sz) dirs"
proof (induction dirs)
  case (Cons d dirs)
  have "map (bump name sz) dirs = dirs" if "d_name d = name"
    using Cons.prems(1) that by (intro map_idI) (auto simp: bump_def image_iff)
  then show ?case using Cons by (cases "d_name d = name") (simp_all add: bump_def [of name sz d])
qed simp

lemma rows_ok_add:
  assumes "rows_ok prefix es dirs" "dir_of prefix e = Some n"
  shows "rows_ok prefix (es @ [e]) (add_to_dir prefix n (e_size e) dirs)"
proof (cases "n \<in> d_name ` set dirs")
  case True
  have add: "add_to_dir prefix n (e_size e) dirs = map (bump n (e_size e)) dirs"
    using assms(1) True by (intro add_to_dir_old) (simp_all add: rows_ok_def)
  have "d_name ` set dirs = {n. \<exists>e\<in>set (es @ [e]). dir_of prefix e = Some n}"
    using assms True by (auto simp: rows_ok_def)
  then show ?thesis using assms by (simp add: add rows_ok_def image_image)
next
  case False
  then have none: "filter (\<lambda>e. dir_of prefix e = Some n) es = []" using assms(1) by (auto simp: rows_ok_def filter_empty_conv)
  have "d_name d \<noteq> n" if "d \<in> set dirs" for d using False that by auto
  then show ?thesis using assms False none by (auto simp: rows_ok_def add_to_dir_new)
qed

lemma listing_folds:
  "\<exists>dirs. fold (list_step prefix) es ([], []) =
     (dirs, map (\<lambda>e. (e, drop (length prefix) (e_path e))) (filter (is_file_in prefix) es)) \<and> rows_ok prefix es dirs"
proof (induction es rule: rev_induct)
  case Nil
  then show ?case by (simp add: rows_ok_def)
next
  case (snoc e es)
  then obtain dirs where d: "fold (list_step prefix) es ([], []) =
      (dirs, map (\<lambda>e. (e, drop (length prefix) (e_path e))) (filter (is_file_in prefix) es))" "rows_ok prefix es dirs" by blast
  have "rows_ok prefix (es @ [e]) dirs" if "dir_of prefix e = None" using d(2) that by (auto simp: rows_ok_def)
  then show ?case using d rows_ok_add [OF d(2)] by (cases "dir_of prefix e") (auto simp: list_step_eq)
qed

text \<open>
  Property C35: a folder's listing is exact. It has one row for each name that some path continues with a
  slash, with the number and the total size of all files whose paths go on below it (a download of that
  folder starts from the same files and leaves out those with unsafe paths); and it has every file
  that lies directly in the folder, under its name.
\<close>

theorem folder_listing_exact:
  assumes "listFolder compare entries folder = (dirs, files)" "p = folder_prefix folder"
  shows "distinct (map d_name dirs) \<and>
    d_name ` set dirs = {n. slash \<notin> set n \<and> (\<exists>e\<in>set entries. starts_with (e_path e) (p @ n @ [slash]))} \<and>
    (\<forall>d\<in>set dirs. d_path d = p @ d_name d \<and>
       d_files d = length (filter (\<lambda>e. starts_with (e_path e) (d_path d @ [slash])) entries) \<and>
       d_size d = sum_list (map e_size (filter (\<lambda>e. starts_with (e_path e) (d_path d @ [slash])) entries))) \<and>
    mset files = mset (map (\<lambda>e. (e, baseName (e_path e))) (filter (is_file_in p) entries))"
proof -
  obtain dirs' where d: "fold (list_step p) entries ([], []) =
      (dirs', map (\<lambda>e. (e, drop (length p) (e_path e))) (filter (is_file_in p) entries))" "rows_ok p entries dirs'"
    using listing_folds by blast
  then have eq: "dirs = sort_by (\<lambda>a b. compare (d_name a) (d_name b)) dirs'"
      "mset files = mset (map (\<lambda>e. (e, drop (length p) (e_path e))) (filter (is_file_in p) entries))"
    using assms by (auto simp: listFolder_def Let_def)
  have "mset (map d_name dirs) = mset (map d_name dirs')" by (simp add: eq)
  then have "distinct (map d_name dirs) = distinct (map d_name dirs')" by (metis mset_eq_imp_distinct_iff)
  moreover have "d_name ` set dirs = {n. slash \<notin> set n \<and> (\<exists>e\<in>set entries. starts_with (e_path e) (p @ n @ [slash]))}"
    using d(2) by (auto simp: eq(1) rows_ok_def dir_of_Some)
  moreover have "d_path d = p @ d_name d \<and> d_files d = length (filter (\<lambda>e. starts_with (e_path e) (d_path d @ [slash])) entries) \<and>
       d_size d = sum_list (map e_size (filter (\<lambda>e. starts_with (e_path e) (d_path d @ [slash])) entries))"
    if "d \<in> set dirs" for d
  proof -
    have r: "d_path d = p @ d_name d" "slash \<notin> set (d_name d)" using that d(2) eq(1) by (auto simp: rows_ok_def dir_of_Some)
    then have "(\<lambda>e. dir_of p e = Some (d_name d)) = (\<lambda>e. starts_with (e_path e) (d_path d @ [slash]))" by (auto simp: dir_of_Some)
    then show ?thesis using that d(2) eq(1) r(1) by (simp add: rows_ok_def)
  qed
  moreover have "baseName (e_path e) = drop (length p) (e_path e)" if "is_file_in p e" for e
    using that last_index_of_append_notin [of slash _ folder]
    by (auto simp: is_file_in_def baseName_def assms(2) folder_prefix_def)
  then have "map (\<lambda>e. (e, drop (length p) (e_path e))) (filter (is_file_in p) entries) =
      map (\<lambda>e. (e, baseName (e_path e))) (filter (is_file_in p) entries)" by simp
  then have "mset files = mset (map (\<lambda>e. (e, baseName (e_path e))) (filter (is_file_in p) entries))" using eq(2) by metis
  ultimately show ?thesis using d(2) unfolding rows_ok_def by blast
qed

definition demo_entries :: "tree_entry list" where
  "demo_entries = map (\<lambda>(p, n). \<lparr>e_path = p, e_size = n, e_mtime = 0, e_chunks = []\<rparr>)
     [(lit ''a/x'', 3), (lit ''b'', 1), (lit ''a/c/y'', 4), (lit ''ab/z'', 5)]"

theorem folder_listing_exact_witness:
  "\<exists>dirs files. listFolder (\<lambda>_ _. 0) demo_entries [] = (dirs, files) \<and> d_name ` set dirs = {lit ''a'', lit ''ab''} \<and>
     (\<exists>d\<in>set dirs. d_name d = lit ''a'' \<and> d_files d = 2 \<and> d_size d = 7)"
proof -
  obtain dirs files where l: "listFolder (\<lambda>_ _. 0) demo_entries [] = (dirs, files)" by (cases "listFolder (\<lambda>_ _. 0) demo_entries []")
  then have d: "d_name ` set dirs = {lit ''a'', lit ''ab''}"
    by (auto simp: listFolder_def demo_entries_def list_step_def folder_prefix_def starts_with_def lit_def Let_def)
  then obtain r where r: "r \<in> set dirs" "d_name r = lit ''a''" by (metis imageE insertI1)
  have "folder_prefix [] = []" by (simp add: folder_prefix_def)
  from folder_listing_exact [OF l this [symmetric]] r(1)
  have "d_path r = d_name r" "d_files r = length (filter (\<lambda>e. starts_with (e_path e) (d_path r @ [slash])) demo_entries)"
      "d_size r = sum_list (map e_size (filter (\<lambda>e. starts_with (e_path e) (d_path r @ [slash])) demo_entries))"
    by simp_all
  then have "d_files r = 2" "d_size r = 7" using r(2) by (simp_all add: demo_entries_def starts_with_def lit_def)
  then show ?thesis using l d r by blast
qed

section \<open>Downloading a folder\<close>

fun stored :: "(tree_entry \<Rightarrow> bytes) \<Rightarrow> tree_entry list \<Rightarrow> (jstring \<rightharpoonup> bytes) \<Rightarrow> (jstring \<rightharpoonup> bytes)" where
  "stored content [] m = m"
| "stored content (e # es) m = stored content es (m(e_path e \<mapsto> content e))"

lemma read_all_Inr:
  "(\<And>e. e \<in> set es \<Longrightarrow> fst (readFile N e readPack dedupKey) = Inr (content e)) \<Longrightarrow>
   read_all N readPack dedupKey es m = Inr (stored content es m)"
  by (induction es arbitrary: m) auto

lemma stored_notin: "x \<notin> e_path ` set es \<Longrightarrow> stored content es m x = m x"
  by (induction es arbitrary: m) auto

lemma stored_in: "distinct (map e_path es) \<Longrightarrow> e \<in> set es \<Longrightarrow> stored content es m (e_path e) = Some (content e)"
proof (induction es arbitrary: m)
  case (Cons x es)
  then show ?case by (cases "e = x") (auto simp: stored_notin)
qed simp

lemma read_all_lookup:
  assumes "distinct (map e_path es)" "\<And>e. e \<in> set es \<Longrightarrow> fst (readFile N e readPack dedupKey) = Inr (content e)"
  obtains m where "read_all N readPack dedupKey (sort_by f es) Map.empty = Inr m" "\<And>e. e \<in> set es \<Longrightarrow> m (e_path e) = Some (content e)"
proof (rule that)
  have "mset (map e_path (sort_by f es)) = mset (map e_path es)" by simp
  then have d: "distinct (map e_path (sort_by f es))" using assms(1) by (metis mset_eq_imp_distinct_iff)
  show "read_all N readPack dedupKey (sort_by f es) Map.empty = Inr (stored content (sort_by f es) Map.empty)"
    using assms(2) by (intro read_all_Inr) simp
  show "stored content (sort_by f es) Map.empty (e_path e) = Some (content e)" if "e \<in> set es" for e
    using stored_in [OF d] that by simp
qed

lemma read_size: "fst (readFile N e readPack dedupKey) = Inr bs \<Longrightarrow> e_size e = int (length bs)"
  by (auto simp: file_read_exact)

text \<open>
  Property C34: a folder that passes the size check, whose files can all be read, is saved as a zip in which a
  reader finds every file below the folder that has a safe path: its name relative to the folder, its bytes and
  its checksum, in the order of the backup. Nothing else is in it. The paths of these files are distinct
  (the bytes are kept by path until the zip is written), and no name has 65536 bytes or more.
\<close>

theorem folder_downloads:
  assumes "readerFor N getPack backup keyVersion = Inr (readPack, dedupKey)"
    and "files = safe_under entries folder" "distinct (map e_path files)"
    and "checkZipFits (download_sizes files folder) = Inr ()"
    and "\<And>e. e \<in> set files \<Longrightarrow> fst (readFile N e readPack dedupKey) = Inr (content e)"
    and "\<And>e. e \<in> set files \<Longrightarrow> length (text_encode (relative_path folder (e_path e))) < 65536"
  shows "\<exists>zip. downloadFolder N clock compare getPack backup keyVersion entries folder = Inr (zip_name (b_name backup) folder, zip) \<and>
    unzip zip = Some (map (\<lambda>e. (text_encode (relative_path folder (e_path e)), content e, unat (crc32 (content e) 0))) files)"
proof -
  obtain m where m: "read_all N readPack dedupKey (sort_by (pack_order compare) files) Map.empty = Inr m"
      "\<And>e. e \<in> set files \<Longrightarrow> m (e_path e) = Some (content e)"
    using read_all_lookup [OF assms(3,5)] by blast
  let ?zs = "zip_files files folder m"
  have zs: "?zs = map (\<lambda>e. \<lparr>z_path = relative_path folder (e_path e), z_data = content e, z_mtime = e_mtime e\<rparr>) files"
    using m(2) by (simp add: zip_files_def)
  have "zip_entries ?zs = download_sizes files folder"
    using assms(5) read_size by (fastforce simp: zs zip_entries_def download_sizes_def)
  then have fits: "checkZipFits (zip_entries ?zs) = Inr ()" using assms(4) by simp
  have "unzip (archive clock ?zs) = Some (map zip_entry ?zs)"
    using assms(6) by (intro unzip_archive [OF fits]) (simp add: zs list_all_iff)
  then have "unzip (archive clock ?zs) =
      Some (map (\<lambda>e. (text_encode (relative_path folder (e_path e)), content e, unat (crc32 (content e) 0))) files)"
    by (simp add: zs zip_entry_def)
  then show ?thesis using assms(1,4) m(1) fits unfolding assms(2) by (simp add: downloadFolder_def Let_def buildZip_eq)
qed

definition demo_backup :: cloud_backup where
  "demo_backup = \<lparr>b_name = lit ''Home'', b_private = None, b_keys = [(1, replicate 32 1, replicate 32 2)]\<rparr>"

text \<open>A pack under the key of the backup, with two chunks, and files over them.\<close>

lemma demo_folder_pack:
  obtains bs where "\<And>path parts. set parts \<subseteq> {[1], [2, 3]} \<Longrightarrow>
    fst (readFile demo_noble (file_entry demo_noble (replicate 32 2) path (bytesToHex demo_noble (packId demo_noble bs)) 0 parts)
      (pack_source demo_noble (\<lambda>_. Inr bs) (unwrapWithAnyKey demo_noble [replicate 32 1])) (replicate 32 2)) = Inr (concat parts)"
proof -
  let ?id = "chunkId demo_noble (replicate 32 2)"
  let ?cs = "map (\<lambda>c. (?id c, c)) [[1], [2, 3]]"
  obtain w where w: "encryptWith demo_noble (replicate 32 1) (replicate 24 0) (PACK_KEY_WRAP_AAD demo_noble) (replicate 32 9) = Inr w"
      "length w < 4294967296"
    by (simp add: encryptWith_def aeadEncrypt_def demo_noble_def)
  then have un: "unwrapWithAnyKey demo_noble [replicate 32 1] w = Inr (replicate 32 9)"
    using decrypt_encrypted [OF demo_laws(1,5) _ _ w(1)] by simp
  have i: "?id c = fit 32 (c @ replicate 32 2)" for c by (simp add: chunkId_def demo_noble_def)
  have "\<exists>b bs p. builder_add_all ?cs (builder_new (replicate 32 1)) = Some b \<and>
      builder_finish demo_noble demo_cipher (replicate 32 9) (replicate 24 3) (replicate 24 4) (\<lambda>_. w) b = Some bs \<and>
      openPackWith demo_noble bs (bytesToHex demo_noble (packId demo_noble bs)) (unwrapWithAnyKey demo_noble [replicate 32 1]) = Inr p \<and>
      scopeId p = replicate 32 1 \<and> (\<forall>i. pack_chunk demo_noble p i = Inr (map_of (rev ?cs) i))"
    by (rule written_pack_opens [OF demo_format_laws]) (simp_all add: un w i fit_def plain_of_def MAX_SAFE_INTEGER_def del: unwrapWithAnyKey.simps)
  then obtain bs p where p: "openPackWith demo_noble bs (bytesToHex demo_noble (packId demo_noble bs)) (unwrapWithAnyKey demo_noble [replicate 32 1]) = Inr p"
      "\<And>i. pack_chunk demo_noble p i = Inr (map_of (rev ?cs) i)" by blast
  have found: "pack_chunk demo_noble p (?id part) = Inr (Some part)" if "part \<in> {[1], [2, 3]}" for part
    unfolding p(2) using that by (auto simp: i fit_def)
  have "fst (readFile demo_noble (file_entry demo_noble (replicate 32 2) path (bytesToHex demo_noble (packId demo_noble bs)) 0 parts)
      (pack_source demo_noble (\<lambda>_. Inr bs) (unwrapWithAnyKey demo_noble [replicate 32 1])) (replicate 32 2)) = Inr (concat parts)"
    if "set parts \<subseteq> {[1], [2, 3]}" for path parts
  proof -
    have "\<forall>part\<in>set parts. pack_chunk demo_noble p (?id part) = Inr (Some part)" using that found by blast
    then show ?thesis unfolding file_read_exact using demo_format_laws(2) p(1)
      by (auto simp: file_entry_def list_all2_map1 list_all2_same hex_law_def pack_source_def intro!: exI [of _ parts])
  qed
  then show thesis using that by blast
qed

theorem folder_downloads_witness:
  "\<exists>bs packHex zip. downloadFolder demo_noble demo_clock (\<lambda>_ _. 0) (\<lambda>_. Inr bs) demo_backup 1
      [file_entry demo_noble (replicate 32 2) (lit ''f/a'') packHex 0 [[1], [2, 3]],
       file_entry demo_noble (replicate 32 2) (lit ''g/c'') packHex 0 [[1]],
       file_entry demo_noble (replicate 32 2) (lit ''f/b'') packHex 0 [[2, 3]],
       file_entry demo_noble (replicate 32 2) (lit ''f/../x'') packHex 0 []] (lit ''f'') = Inr (lit ''f.zip'', zip) \<and>
    unzip zip = Some [([97], [1, 2, 3], unat (crc32 [1, 2, 3] 0)), ([98], [2, 3], unat (crc32 [2, 3] 0))]"
proof -
  obtain bs where bs: "\<And>path parts. set parts \<subseteq> {[1], [2, 3]} \<Longrightarrow>
    fst (readFile demo_noble (file_entry demo_noble (replicate 32 2) path (bytesToHex demo_noble (packId demo_noble bs)) 0 parts)
      (pack_source demo_noble (\<lambda>_. Inr bs) (unwrapWithAnyKey demo_noble [replicate 32 1])) (replicate 32 2)) = Inr (concat parts)"
    by (rule demo_folder_pack) blast
  let ?e = "\<lambda>path. file_entry demo_noble (replicate 32 2) path (bytesToHex demo_noble (packId demo_noble bs)) 0"
  let ?es = "[?e (lit ''f/a'') [[1], [2, 3]], ?e (lit ''g/c'') [[1]], ?e (lit ''f/b'') [[2, 3]], ?e (lit ''f/../x'') []]"
  let ?c = "\<lambda>e. if e_path e = lit ''f/a'' then [1, 2, 3] else [2, 3]"
  have r: "readerFor demo_noble (\<lambda>_. Inr bs) demo_backup 1 =
      Inr (pack_source demo_noble (\<lambda>_. Inr bs) (unwrapWithAnyKey demo_noble [replicate 32 1]), replicate 32 2)"
    by (simp add: readerFor_def demo_backup_def newestFirst_def)
  have path: "e_path (?e p parts) = p" "e_size (?e p parts) = int (length (concat parts))" for p parts by (simp_all add: file_entry_def)
  have f: "safe_under ?es (lit ''f'') = [?e (lit ''f/a'') [[1], [2, 3]], ?e (lit ''f/b'') [[2, 3]]]"
    by (simp add: safe_under_def filesUnder_def starts_with_def isSafeZipPath_def relative_path_def path lit_def)
  have rel: "relative_path (lit ''f'') (lit ''f/a'') = lit ''a''" "relative_path (lit ''f'') (lit ''f/b'') = lit ''b''"
    by (simp_all add: relative_path_def lit_def)
  have ne: "lit ''f/b'' \<noteq> lit ''f/a''" by (simp add: lit_def)
  have "\<exists>zip. downloadFolder demo_noble demo_clock (\<lambda>_ _. 0) (\<lambda>_. Inr bs) demo_backup 1 ?es (lit ''f'') =
      Inr (zip_name (b_name demo_backup) (lit ''f''), zip) \<and>
      unzip zip = Some (map (\<lambda>e. (text_encode (relative_path (lit ''f'') (e_path e)), ?c e, unat (crc32 (?c e) 0))) [?e (lit ''f/a'') [[1], [2, 3]], ?e (lit ''f/b'') [[2, 3]]])"
    by (rule folder_downloads [OF r f [symmetric]])
      (use ne in \<open>auto simp: path rel demo_names bs download_sizes_def checkZipFits_def entry_size_def zip_consts\<close>)
  moreover have "zip_name (b_name demo_backup) (lit ''f'') = lit ''f.zip''" by (simp add: zip_name_def baseName_def lit_def)
  ultimately show ?thesis using ne by (simp add: path rel demo_names) blast
qed

section \<open>No file leaves the folder it is unpacked into\<close>

text \<open>
  Where a program that unpacks the archive writes an entry: both separators split the name, an empty part or a
  dot stays, two dots go up.
\<close>

definition enter :: "jstring \<Rightarrow> jstring list \<Rightarrow> jstring list" where
  "enter part dir = (if part = [] \<or> part = [dot] then dir else if part = [dot, dot] then butlast dir else dir @ [part])"

definition unpack_to :: "jstring list \<Rightarrow> jstring \<Rightarrow> jstring list" where
  "unpack_to into name = fold enter (concat (map (split_on 92) (split_on slash name))) into"

lemma fold_enter_inside: "[dot, dot] \<notin> set parts \<Longrightarrow> \<exists>below. fold enter parts into = into @ below"
proof (induction parts arbitrary: into)
  case (Cons part parts)
  then have parts: "[dot, dot] \<notin> set parts" by simp
  obtain a b where "fold enter parts into = into @ a" "fold enter parts (into @ [part]) = (into @ [part]) @ b"
    using Cons.IH [OF parts, of into] Cons.IH [OF parts, of "into @ [part]"] by blast
  moreover have "enter part into = into \<or> enter part into = into @ [part]" using Cons.prems by (auto simp: enter_def)
  ultimately show ?case by auto
qed simp

lemma split_on_subset: "x \<in> set (split_on d s) \<Longrightarrow> set x \<subseteq> set s"
  by (induction s arbitrary: x) (fastforce split: list.splits if_splits)+

lemma safe_parts: "isSafeZipPath name \<Longrightarrow> concat (map (split_on 92) (split_on slash name)) = split_on slash name"
proof -
  assume "isSafeZipPath name"
  then have "92 \<notin> set part" if "part \<in> set (split_on slash name)" for part
    using that split_on_subset by (fastforce simp: isSafeZipPath_def)
  then have "map (split_on 92) (split_on slash name) = map (\<lambda>part. [part]) (split_on slash name)" by (simp add: split_on_plain)
  then show ?thesis by (simp only: concat_map_singleton) simp
qed

text \<open>
  Whatever paths a backup has, a program that unpacks a downloaded folder writes each of its files
  below the folder it unpacks into.
\<close>

theorem unpacked_inside:
  assumes "e \<in> set (safe_under entries folder)"
  shows "\<exists>below. unpack_to into (relative_path folder (e_path e)) = into @ below"
proof -
  have safe: "isSafeZipPath (relative_path folder (e_path e))" using assms by (simp add: safe_under_def)
  then have "[dot, dot] \<notin> set (split_on slash (relative_path folder (e_path e)))" by (simp add: isSafeZipPath_def lit_def)
  then show ?thesis using fold_enter_inside safe_parts [OF safe] by (simp add: unpack_to_def)
qed

theorem unpacked_inside_witness:
  "\<exists>below. unpack_to [lit ''tmp''] (relative_path (lit ''f'') (lit ''f/a/b'')) = [lit ''tmp''] @ below"
proof -
  have "\<lparr>e_path = lit ''f/a/b'', e_size = 0, e_mtime = 0, e_chunks = []\<rparr> \<in>
      set (safe_under [\<lparr>e_path = lit ''f/a/b'', e_size = 0, e_mtime = 0, e_chunks = []\<rparr>] (lit ''f''))"
    by (simp add: safe_under_def filesUnder_def starts_with_def isSafeZipPath_def relative_path_def lit_def)
  from unpacked_inside [OF this, of "[lit ''tmp'']"] show ?thesis by simp
qed

section \<open>The text of a size\<close>

lemma value_near_1000:
  assumes "999501 \<le> n" "n \<le> 999949"
  defines "v \<equiv> js_div (of_nat n) 1000"
  shows "1999 / 2 \<le> v" "v < js_fl (99995 / 100)" "v < 1000"
proof -
  have n: "(999501 :: rat) / 1000 \<le> of_nat n / 1000" "of_nat n / 1000 \<le> (999949 :: rat) / 1000" using assms by simp_all
  have v: "999501 / 1000 - 999501 / 1000 / 2 ^ 53 \<le> v" "v \<le> 999949 / 1000 + 999949 / 1000 / 2 ^ 53"
    using js_fl_bounds [OF _ n] by (simp_all add: v_def js_div_def)
  have l: "99995 / 100 - 99995 / 100 / 2 ^ 53 \<le> js_fl (99995 / 100)"
    using js_fl_bounds(1) [of "99995 / 100" "99995 / 100" "99995 / 100"] by simp
  have "(1999 :: rat) / 2 \<le> 999501 / 1000 - 999501 / 1000 / 2 ^ 53" by simp
  then show "1999 / 2 \<le> v" using v(1) by (rule order_trans)
  have "(999949 :: rat) / 1000 + 999949 / 1000 / 2 ^ 53 < 99995 / 100 - 99995 / 100 / 2 ^ 53" by simp
  then show "v < js_fl (99995 / 100)" using v(2) l by linarith
  have "(999949 :: rat) / 1000 + 999949 / 1000 / 2 ^ 53 < 1000" by simp
  then show "v < 1000" using v(2) by linarith
qed

text \<open>
  A size from 999501 to 999949 bytes is shown as 1000 KB: it is below the limit of 999.95, but
  a number of 10 or more is rounded to a whole number.
\<close>

theorem size_shows_1000_KB:
  assumes "999501 \<le> n" "n \<le> 999949"
  shows "formatSize n = lit ''1000 KB''"
proof -
  define v where "v = js_div (of_nat (nat n)) 1000"
  have n: "999501 \<le> nat n" "nat n \<le> 999949" using assms by simp_all
  note v = value_near_1000 [OF n, folded v_def]
  have u: "size_unit (nat n) 2 1 = 1" using v(2) unfolding numeral_2_eq_2 by (simp add: v_def [symmetric])
  have r: "js_round v = 1000" using v(1,3) unfolding js_round_def by (intro floor_unique) simp_all
  have t: "\<not> v < 10" using v(1) by simp
  have k: "num_str 1000 = lit ''1000''" by (simp add: num_str.simps lit_def)
  have len: "length SIZE_UNITS - 2 = 2" by (simp add: SIZE_UNITS_def)
  have big: "\<not> nat n < 1000" using n(1) by simp
  have "formatSize n = num_str (nat (js_round v)) @ [32] @ SIZE_UNITS ! 1"
    unfolding formatSize_def Let_def len u power_one_right v_def [symmetric] if_not_P [OF big] if_not_P [OF t] ..
  then show ?thesis unfolding r by (simp add: k SIZE_UNITS_def lit_def)
qed

theorem size_shows_1000_KB_witness: "formatSize 999600 = lit ''1000 KB''"
  by (rule size_shows_1000_KB) simp_all

end
