(* ===== verification/CloudKeys.thy ===== *)
theory CloudKeys
  imports CloudPrivate JsText
begin

text \<open>
  The backup keys a recovery phrase opens on a Luna (\<open>shared/ui/lib/cloud/cloudKeys.js\<close>): record names, the
  signing keys kept for the phrase, signed lists of readers, signed and sealed copies of a key. Record
  bytes are read by the argument \<open>json_of\<close> (decoding and \<open>JSON.parse\<close>); \<open>stringify\<close> is \<open>JSON.stringify\<close>.
\<close>

section \<open>Versions\<close>

text \<open>\<open>Math.max\<close> of two numbers.\<close>

definition max_version :: "jnum \<Rightarrow> jnum \<Rightarrow> jnum" where
  [js_eval]: "max_version a b = (case (a, b) of (Fin x, Fin y) \<Rightarrow> Fin (max x y) | (Fin _, w) \<Rightarrow> w | (w, _) \<Rightarrow> w)"

section \<open>Record names\<close>

definition NO_BACKUPS :: jstring where
  "NO_BACKUPS = lit ''This recovery phrase doesn'' @ [39] @ lit ''t open any backups on this Luna. Check each word.''"

definition SIGNING_MISMATCH :: jstring where
  "SIGNING_MISMATCH = lit ''Luna'' @ [39] @ lit ''s backup signing key doesn'' @ [39] @
     lit ''t match the one saved with your recovery phrase, so nothing was sent.''"

definition is_hex :: "jstring \<Rightarrow> bool" where
  [js_eval]: "is_hex s \<longleftrightarrow> list_all (\<lambda>c. 48 \<le> c \<and> c \<le> 57 \<or> 97 \<le> c \<and> c \<le> 102) s"

definition is_uuid :: "jstring \<Rightarrow> bool" where
  [js_eval]: "is_uuid s \<longleftrightarrow> (case split_on dash s of
     [a, b, c, d, e] \<Rightarrow> list_all is_hex [a, b, c, d, e] \<and> map length [a, b, c, d, e] = [8, 4, 4, 4, 12] | _ \<Rightarrow> False)"

definition version_of :: "jstring \<Rightarrow> jnum option" where
  [js_eval]: "version_of s =
     (if s \<noteq> [] \<and> list_all js_digit s \<and> (hd s \<noteq> 48 \<or> s = [48]) then Some (to_double (of_nat (digits_value 10 s))) else None)"

definition userRecordPart :: "noble \<Rightarrow> jstring \<Rightarrow> jstring" where
  "userRecordPart N userId = bytesToHex N (slice (sha256 N (utf8ToBytes N userId)) 0 16)"

definition parseKeyName :: "jstring \<Rightarrow> (jstring \<times> jnum \<times> jstring) option" where
  [js_eval]: "parseKeyName name =
     (case split_on dot name of
        [p, v, part] \<Rightarrow>
          if is_uuid p \<and> is_hex part \<and> length part = 32 then map_option (\<lambda>ver. (p, ver, part)) (version_of v) else None
      | _ \<Rightarrow> None)"

definition parseRecipientsName :: "jstring \<Rightarrow> (jstring \<times> jnum) option" where
  [js_eval]: "parseRecipientsName name =
     (case split_on dot name of
        [p, v] \<Rightarrow> if is_uuid p then map_option (\<lambda>ver. (p, ver)) (version_of v) else None
      | _ \<Rightarrow> None)"

section \<open>Records of one person\<close>

definition selfSealedAad :: "noble \<Rightarrow> jstring \<Rightarrow> jstring \<Rightarrow> bytes" where
  "selfSealedAad N lunaId userId =
     canonical N [(lit ''luna_id'', utf8ToBytes N lunaId), (lit ''user_id'', utf8ToBytes N userId),
                  (lit ''purpose'', utf8ToBytes N (lit ''signing-public''))]"

definition keyCopyAad :: "noble \<Rightarrow> jstring \<Rightarrow> jstring \<Rightarrow> jnum \<Rightarrow> jstring \<Rightarrow> bytes" where
  "keyCopyAad N lunaId protectionId version userId =
     canonical N [(lit ''luna_id'', utf8ToBytes N lunaId), (lit ''protection_id'', utf8ToBytes N protectionId),
                  (lit ''version'', utf8ToBytes N (num_text version)), (lit ''user_id'', utf8ToBytes N userId)]"

definition openSelfRecord :: "noble \<Rightarrow> bytes \<Rightarrow> jstring \<Rightarrow> jstring \<Rightarrow> bytes \<Rightarrow> bytes option" where
  "openSelfRecord N self_key lunaId userId bs =
     (case decrypt N self_key (selfSealedAad N lunaId userId) bs of
        Inl _ \<Rightarrow> None
      | Inr publicKey \<Rightarrow> if length publicKey = SIG_PUBLIC_LEN then Some publicKey else None)"

definition texts_of :: "json list \<Rightarrow> jstring list option" where
  "texts_of vs = (if list_all (\<lambda>v. case v of JStr _ \<Rightarrow> True | _ \<Rightarrow> False) vs
     then Some (map (\<lambda>v. case v of JStr s \<Rightarrow> s | _ \<Rightarrow> []) vs) else None)"

definition recipients_message :: "noble \<Rightarrow> (json \<Rightarrow> jstring) \<Rightarrow> jstring \<Rightarrow> jstring \<Rightarrow> jnum \<Rightarrow> json list \<Rightarrow> bytes" where
  "recipients_message N stringify lunaId protectionId version users =
     canonical N [(lit ''luna_id'', utf8ToBytes N lunaId), (lit ''protection_id'', utf8ToBytes N protectionId),
                  (lit ''version'', utf8ToBytes N (num_text version)), (lit ''users'', utf8ToBytes N (stringify (JArr users)))]"

definition verifyRecipients ::
  "noble \<Rightarrow> (bytes \<Rightarrow> json option) \<Rightarrow> (json \<Rightarrow> jstring) \<Rightarrow> bytes \<Rightarrow> bytes \<Rightarrow> jstring \<Rightarrow> jstring \<Rightarrow> jnum \<Rightarrow> jstring list option" where
  "verifyRecipients N json_of stringify bs signingPublic lunaId protectionId version =
     (case json_of bs of
        None \<Rightarrow> None
      | Some parsed \<Rightarrow>
          (case get_prop parsed (lit ''users'') of
             Some (JArr vs) \<Rightarrow>
               (case (texts_of vs, hex_prop N parsed (lit ''signature'')) of
                  (Some users, Some sig) \<Rightarrow>
                    if length sig \<noteq> SIG_LEN then None
                    else if verify N signingPublic (lit ''recipients'') (recipients_message N stringify lunaId protectionId version vs) sig
                    then Some users else None
                | _ \<Rightarrow> None)
           | _ \<Rightarrow> None))"

definition key_copy_message :: "noble \<Rightarrow> bytes \<Rightarrow> bytes \<Rightarrow> bytes" where
  "key_copy_message N aad sealed = canonical N [(lit ''aad'', aad), (lit ''sealed'', sealed)]"

definition openKeyCopy ::
  "noble \<Rightarrow> bytes \<Rightarrow> bytes \<Rightarrow> bytes \<Rightarrow> jstring \<Rightarrow> jstring \<Rightarrow> jnum \<Rightarrow> jstring \<Rightarrow> (bytes \<times> bytes) option" where
  "openKeyCopy N record secret signingPublic lunaId protectionId version userId =
     (if length record \<le> SIG_LEN then None
      else let sealed = slice record 0 (length record - SIG_LEN);
               sig = drop (length record - SIG_LEN) record;
               aad = keyCopyAad N lunaId protectionId version userId
           in if \<not> verify N signingPublic (lit ''key-copy'') (key_copy_message N aad sealed) sig then None
              else (case open_sealed N secret aad sealed of
                      Inl _ \<Rightarrow> None
                    | Inr plain \<Rightarrow>
                        if length plain \<noteq> 2 * KEY_LEN then None else Some (slice plain 0 KEY_LEN, drop KEY_LEN plain)))"

section \<open>Everything a phrase opens\<close>

record found_key =
  f_protectionId :: jstring
  f_version :: jnum
  f_key :: bytes
  f_dedupKey :: bytes
  f_userId :: jstring

record my_keys =
  mk_signingPublics :: "bytes list"
  mk_userIds :: "jstring list"
  mk_keys :: "found_key list"
  mk_latestVersion :: "jstring \<rightharpoonup> jnum"
  mk_privateScopes :: "private_scope list"

definition add_new :: "'a list \<Rightarrow> 'a \<Rightarrow> 'a list" where
  [js_eval]: "add_new xs x = (if x \<in> set xs then xs else xs @ [x])"

definition listed_users :: "(bytes \<Rightarrow> json option) \<Rightarrow> cloud_record \<Rightarrow> jstring list" where
  "listed_users json_of r =
     (case json_of (snd r) of
        None \<Rightarrow> []
      | Some obj \<Rightarrow>
          (case get_prop obj (lit ''users'') of
             Some (JArr vs) \<Rightarrow> List.map_filter (\<lambda>v. case v of JStr s \<Rightarrow> Some s | _ \<Rightarrow> None) vs
           | _ \<Rightarrow> []))"

definition scope_user :: "(bytes \<Rightarrow> json option) \<Rightarrow> cloud_record \<Rightarrow> jstring list" where
  "scope_user json_of r =
     (case json_of (snd r) of
        None \<Rightarrow> []
      | Some obj \<Rightarrow>
          (case get_prop obj (lit ''record'') of
             None \<Rightarrow> []
           | Some rec \<Rightarrow> (case text_prop rec (lit ''user_id'') of Some s \<Rightarrow> [s] | None \<Rightarrow> [])))"

definition candidates :: "(bytes \<Rightarrow> json option) \<Rightarrow> cloud_record list \<Rightarrow> cloud_record list \<Rightarrow> jstring list" where
  "candidates json_of recipients pscopes =
     foldl add_new [] (concat (map (listed_users json_of) recipients) @ concat (map (scope_user json_of) pscopes))"

text \<open>A map built from a list of records: the last record of a name counts.\<close>

definition by_name :: "cloud_record list \<Rightarrow> jstring \<rightharpoonup> bytes" where
  "by_name rs = map_of (rev rs)"

definition signing_step :: "noble \<Rightarrow> bytes \<Rightarrow> jstring \<Rightarrow> (jstring \<rightharpoonup> bytes) \<Rightarrow> bytes list \<Rightarrow> jstring \<Rightarrow> bytes list" where
  "signing_step N self_key lunaId selfByName pubs uid =
     (case selfByName (userRecordPart N uid) of
        None \<Rightarrow> pubs
      | Some bs \<Rightarrow>
          (case openSelfRecord N self_key lunaId uid bs of
             None \<Rightarrow> pubs
           | Some pub \<Rightarrow> if list_ex (\<lambda>p. sameBytes p pub) pubs then pubs else pubs @ [pub]))"

definition expect_signing :: "bytes option \<Rightarrow> bytes list \<Rightarrow> bytes list result" where
  "expect_signing expected pubs =
     (case expected of
        Some e \<Rightarrow>
          if pubs \<noteq> [] then
            (let kept = filter (\<lambda>p. sameBytes p e) pubs in if kept = [] then Inl (Thrown SIGNING_MISMATCH) else Inr kept)
          else Inr pubs
      | None \<Rightarrow> Inr pubs)"

text \<open>The first reader of a list whose copy of the key opens.\<close>

fun open_for :: "noble \<Rightarrow> bytes \<Rightarrow> bytes list \<Rightarrow> jstring \<Rightarrow> (jstring \<rightharpoonup> bytes) \<Rightarrow> jstring \<Rightarrow> jnum \<Rightarrow> jstring list \<Rightarrow> found_key option" where
  "open_for N secret pubs lunaId keyByName protectionId version [] = None"
| "open_for N secret pubs lunaId keyByName protectionId version (uid # uids) =
     (case Option.bind (keyByName (protectionId @ [dot] @ num_text version @ [dot] @ userRecordPart N uid))
             (\<lambda>bs. first_verified (\<lambda>pub. openKeyCopy N bs secret pub lunaId protectionId version uid) pubs) of
        Some (key, dedup) \<Rightarrow>
          Some \<lparr>f_protectionId = protectionId, f_version = version, f_key = key, f_dedupKey = dedup, f_userId = uid\<rparr>
      | None \<Rightarrow> open_for N secret pubs lunaId keyByName protectionId version uids)"

definition recipients_step ::
  "noble \<Rightarrow> (bytes \<Rightarrow> json option) \<Rightarrow> (json \<Rightarrow> jstring) \<Rightarrow> bytes \<Rightarrow> bytes list \<Rightarrow> jstring \<Rightarrow> (jstring \<rightharpoonup> bytes) \<Rightarrow>
   (jstring \<rightharpoonup> jnum) \<times> found_key list \<times> jstring list \<Rightarrow> cloud_record \<Rightarrow> (jstring \<rightharpoonup> jnum) \<times> found_key list \<times> jstring list" where
  "recipients_step N json_of stringify secret pubs lunaId keyByName st r =
     (case parseRecipientsName (fst r) of
        None \<Rightarrow> st
      | Some (protectionId, version) \<Rightarrow>
          (case first_verified (\<lambda>pub. verifyRecipients N json_of stringify (snd r) pub lunaId protectionId version) pubs of
             None \<Rightarrow> st
           | Some users \<Rightarrow>
               let (latest, found, ids) = st;
                   newest = max_version (case latest protectionId of Some v \<Rightarrow> v | None \<Rightarrow> Fin 0) version;
                   latest' = latest(protectionId \<mapsto> newest)
               in (case open_for N secret pubs lunaId keyByName protectionId version users of
                     None \<Rightarrow> (latest', found, ids)
                   | Some k \<Rightarrow> (latest', found @ [k], add_new ids (f_userId k)))))"

definition findMyKeys ::
  "noble \<Rightarrow> (bytes \<Rightarrow> json option) \<Rightarrow> (json \<Rightarrow> jstring) \<Rightarrow> jstring \<Rightarrow> bytes \<Rightarrow> cloud_record list \<Rightarrow> cloud_record list \<Rightarrow> cloud_record list \<Rightarrow>
   cloud_record list \<Rightarrow> bytes option \<Rightarrow> my_keys result" where
  "findMyKeys N json_of stringify lunaId entropy self recipients keys pscopes expected =
     bind_r (derive N entropy lunaId) (\<lambda>k.
     bind_r (expect_signing expected
       (foldl (signing_step N (selfKey k) lunaId (by_name self)) [] (candidates json_of recipients pscopes))) (\<lambda>pubs.
     let (latest, found, ids) =
           foldl (recipients_step N json_of stringify (sealSecret k) pubs lunaId (by_name keys)) (Map.empty, [], []) recipients
     in bind_r (findMyPrivateScopes N json_of lunaId entropy pscopes pubs) (\<lambda>scopes.
          if found = [] \<and> scopes = [] then Inl (Thrown NO_BACKUPS)
          else Inr \<lparr>mk_signingPublics = pubs, mk_userIds = ids, mk_keys = found, mk_latestVersion = latest, mk_privateScopes = scopes\<rparr>)))"

section \<open>Nothing opens without a signing key\<close>

lemma no_keys_without_signer:
  "foldl (recipients_step N json_of stringify secret [] lunaId keyByName) st recipients = st"
  by (induction recipients arbitrary: st) (auto simp: recipients_step_def split: option.splits)

lemma no_scopes_without_signer:
  "findMyPrivateScopes N json_of lunaId entropy pscopes [] = bind_r (derive N entropy lunaId) (\<lambda>_. Inr [])"
proof -
  have "open_scope N json_of lunaId k [] = (\<lambda>_. None)" for k by (rule ext) (simp add: open_scope_def)
  then show ?thesis by (simp add: findMyPrivateScopes_def List.map_filter_def)
qed

lemma no_signer_fold:
  assumes "\<And>uid bs. uid \<in> set uids \<Longrightarrow> by_name self (userRecordPart N uid) = Some bs \<Longrightarrow> openSelfRecord N sk lunaId uid bs = None"
  shows "foldl (signing_step N sk lunaId (by_name self)) pubs uids = pubs"
  using assms
proof (induction uids arbitrary: pubs)
  case (Cons uid uids)
  have "signing_step N sk lunaId (by_name self) pubs uid = pubs" using Cons.prems(1) [of uid] by (auto simp: signing_step_def split: option.split)
  then show ?case using Cons by simp
qed simp

text \<open>
  Property C27: when no self record of the people named in the records opens with the phrase, nothing opens: the
  search ends with the message that the phrase opens no backups, also for a phrase that owns private
  scopes on this Luna.
\<close>

theorem no_signing_key_no_scopes:
  assumes "derive N entropy lunaId = Inr k"
    and "\<And>uid bs. uid \<in> set (candidates json_of recipients pscopes) \<Longrightarrow> by_name self (userRecordPart N uid) = Some bs \<Longrightarrow>
      openSelfRecord N (selfKey k) lunaId uid bs = None"
  shows "findMyKeys N json_of stringify lunaId entropy self recipients keys pscopes expected = Inl (Thrown NO_BACKUPS)"
proof -
  have "foldl (signing_step N (selfKey k) lunaId (by_name self)) [] (candidates json_of recipients pscopes) = []"
    using assms(2) by (rule no_signer_fold)
  then show ?thesis
    using assms(1) by (simp add: findMyKeys_def expect_signing_def no_keys_without_signer no_scopes_without_signer split: option.split)
qed

section \<open>A published key copy opens\<close>

lemma openKeyCopy_Some:
  "openKeyCopy N record secret pub lunaId pid version uid = Some (key, dedup) \<longleftrightarrow>
   (\<exists>sealed sig. record = sealed @ sig \<and> sealed \<noteq> [] \<and>
      verify N pub (lit ''key-copy'') (key_copy_message N (keyCopyAad N lunaId pid version uid) sealed) sig \<and>
      open_sealed N secret (keyCopyAad N lunaId pid version uid) sealed = Inr (key @ dedup) \<and> length key = KEY_LEN \<and> length dedup = KEY_LEN)"
proof
  assume o: "openKeyCopy N record secret pub lunaId pid version uid = Some (key, dedup)"
  let ?sealed = "slice record 0 (length record - SIG_LEN)" and ?sig = "drop (length record - SIG_LEN) record"
  obtain plain where p: "SIG_LEN < length record" "verify N pub (lit ''key-copy'') (key_copy_message N (keyCopyAad N lunaId pid version uid) ?sealed) ?sig"
      "open_sealed N secret (keyCopyAad N lunaId pid version uid) ?sealed = Inr plain" "length plain = 2 * KEY_LEN"
      "key = slice plain 0 KEY_LEN" "dedup = drop KEY_LEN plain"
    using o by (auto simp: openKeyCopy_def Let_def not_le split: if_splits sum.splits)
  have "record = ?sealed @ ?sig" "?sealed \<noteq> []" using p(1) by (auto simp: slice_def)
  moreover have "plain = key @ dedup" "length key = KEY_LEN" "length dedup = KEY_LEN" using p(4,5,6) by (auto simp: slice_def)
  ultimately show "\<exists>sealed sig. record = sealed @ sig \<and> sealed \<noteq> [] \<and>
      verify N pub (lit ''key-copy'') (key_copy_message N (keyCopyAad N lunaId pid version uid) sealed) sig \<and>
      open_sealed N secret (keyCopyAad N lunaId pid version uid) sealed = Inr (key @ dedup) \<and> length key = KEY_LEN \<and> length dedup = KEY_LEN"
    using p(2,3) by metis
next
  assume "\<exists>sealed sig. record = sealed @ sig \<and> sealed \<noteq> [] \<and>
      verify N pub (lit ''key-copy'') (key_copy_message N (keyCopyAad N lunaId pid version uid) sealed) sig \<and>
      open_sealed N secret (keyCopyAad N lunaId pid version uid) sealed = Inr (key @ dedup) \<and> length key = KEY_LEN \<and> length dedup = KEY_LEN"
  then obtain sealed sig where s: "record = sealed @ sig" "sealed \<noteq> []" "length sig = SIG_LEN"
      "verify N pub (lit ''key-copy'') (key_copy_message N (keyCopyAad N lunaId pid version uid) sealed) sig"
      "open_sealed N secret (keyCopyAad N lunaId pid version uid) sealed = Inr (key @ dedup)" "length key = KEY_LEN" "length dedup = KEY_LEN"
    using verify_sig_len by blast
  then have "slice record 0 (length record - SIG_LEN) = sealed" "drop (length record - SIG_LEN) record = sig" "\<not> length record \<le> SIG_LEN"
    by (auto simp: slice_def)
  then show "openKeyCopy N record secret pub lunaId pid version uid = Some (key, dedup)"
    using s by (simp add: openKeyCopy_def Let_def slice_def)
qed

section \<open>Only what was signed for the phrase\<close>

lemma foldl_inv:
  assumes "P a" "\<And>a x. P a \<Longrightarrow> x \<in> set xs \<Longrightarrow> P (f a x)"
  shows "P (foldl f a xs)"
  using assms by (induction xs arbitrary: a) auto

lemma max_version_idem: "max_version (max_version w v) v = max_version w v"
  by (cases w; cases v) (auto simp: max_version_def)

lemma max_version_keeps: "max_version w v = w \<Longrightarrow> max_version (max_version w u) v = max_version w u"
  by (cases w; cases v; cases u) (auto simp: max_version_def)

definition own_signer :: "noble \<Rightarrow> user_keys \<Rightarrow> jstring \<Rightarrow> cloud_record list \<Rightarrow> bytes \<Rightarrow> bool" where
  "own_signer N k lunaId self pub \<longleftrightarrow>
     (\<exists>uid bs. by_name self (userRecordPart N uid) = Some bs \<and> openSelfRecord N (selfKey k) lunaId uid bs = Some pub)"

definition signed_key ::
  "noble \<Rightarrow> (bytes \<Rightarrow> json option) \<Rightarrow> (json \<Rightarrow> jstring) \<Rightarrow> user_keys \<Rightarrow> jstring \<Rightarrow> bytes list \<Rightarrow> cloud_record list \<Rightarrow> cloud_record list \<Rightarrow>
   found_key \<Rightarrow> bool" where
  "signed_key N json_of stringify k lunaId pubs recipients keys f \<longleftrightarrow>
     (\<exists>name bs users rec. (name, bs) \<in> set recipients \<and> parseRecipientsName name = Some (f_protectionId f, f_version f) \<and>
        (\<exists>pub\<in>set pubs. verifyRecipients N json_of stringify bs pub lunaId (f_protectionId f) (f_version f) = Some users) \<and>
        f_userId f \<in> set users \<and>
        by_name keys (f_protectionId f @ [dot] @ num_text (f_version f) @ [dot] @ userRecordPart N (f_userId f)) = Some rec \<and>
        (\<exists>pub\<in>set pubs. openKeyCopy N rec (sealSecret k) pub lunaId (f_protectionId f) (f_version f) (f_userId f) = Some (f_key f, f_dedupKey f)))"

lemma signing_fold:
  "list_all (own_signer N k lunaId self) (foldl (signing_step N (selfKey k) lunaId (by_name self)) [] uids)"
  by (rule foldl_inv) (auto simp: signing_step_def own_signer_def list_all_iff split: option.splits)

lemma open_for_Some:
  "open_for N secret pubs lunaId keyByName pid version uids = Some f \<Longrightarrow>
   f_protectionId f = pid \<and> f_version f = version \<and> f_userId f \<in> set uids \<and>
   (\<exists>rec. keyByName (pid @ [dot] @ num_text version @ [dot] @ userRecordPart N (f_userId f)) = Some rec \<and>
      (\<exists>pub\<in>set pubs. openKeyCopy N rec secret pub lunaId pid version (f_userId f) = Some (f_key f, f_dedupKey f)))"
proof (induction N secret pubs lunaId keyByName pid version uids rule: open_for.induct)
  case (2 N secret pubs lunaId keyByName pid version uid uids)
  let ?o = "Option.bind (keyByName (pid @ [dot] @ num_text version @ [dot] @ userRecordPart N uid))
      (\<lambda>bs. first_verified (\<lambda>pub. openKeyCopy N bs secret pub lunaId pid version uid) pubs)"
  show ?case
  proof (cases ?o)
    case None
    then show ?thesis using 2 by auto
  next
    case (Some kd)
    obtain key dedup where kd: "kd = (key, dedup)" by force
    obtain rec where "keyByName (pid @ [dot] @ num_text version @ [dot] @ userRecordPart N uid) = Some rec"
        "first_verified (\<lambda>pub. openKeyCopy N rec secret pub lunaId pid version uid) pubs = Some (key, dedup)"
      using Some kd by (auto simp: bind_eq_Some_conv)
    moreover have "f = \<lparr>f_protectionId = pid, f_version = version, f_key = key, f_dedupKey = dedup, f_userId = uid\<rparr>"
      using 2(2) Some kd by simp
    ultimately show ?thesis by (auto dest: first_verified_Some)
  qed
qed simp

definition keys_ok ::
  "noble \<Rightarrow> (bytes \<Rightarrow> json option) \<Rightarrow> (json \<Rightarrow> jstring) \<Rightarrow> user_keys \<Rightarrow> jstring \<Rightarrow> bytes list \<Rightarrow> cloud_record list \<Rightarrow> cloud_record list \<Rightarrow>
   (jstring \<rightharpoonup> jnum) \<times> found_key list \<times> jstring list \<Rightarrow> bool" where
  "keys_ok N json_of stringify k lunaId pubs recipients keys st \<longleftrightarrow>
     (case st of (latest, found, ids) \<Rightarrow>
        distinct ids \<and> set ids = f_userId ` set found \<and>
        (\<forall>f\<in>set found. signed_key N json_of stringify k lunaId pubs recipients keys f \<and>
           (\<exists>w. latest (f_protectionId f) = Some w \<and> max_version w (f_version f) = w)))"

lemma keys_ok_step:
  assumes "keys_ok N json_of stringify k lunaId pubs recipients keys st" "r \<in> set recipients"
  shows "keys_ok N json_of stringify k lunaId pubs recipients keys
    (recipients_step N json_of stringify (sealSecret k) pubs lunaId (by_name keys) st r)"
proof (cases "parseRecipientsName (fst r)")
  case None
  then show ?thesis using assms(1) by (simp add: recipients_step_def)
next
  case (Some pv)
  obtain pid version latest found ids where pv: "pv = (pid, version)" and st: "st = (latest, found, ids)" by (metis surj_pair)
  show ?thesis
  proof (cases "first_verified (\<lambda>pub. verifyRecipients N json_of stringify (snd r) pub lunaId pid version) pubs")
    case None
    then show ?thesis using assms(1) Some pv by (simp add: recipients_step_def)
  next
    case users: (Some users)
    let ?old = "case latest pid of Some v \<Rightarrow> v | None \<Rightarrow> Fin 0"
    let ?l = "latest(pid \<mapsto> max_version ?old version)"
    have up: "\<exists>w. ?l (f_protectionId f) = Some w \<and> max_version w (f_version f) = w" if "f \<in> set found" for f
      using assms(1) that max_version_keeps unfolding keys_ok_def st by (cases "f_protectionId f = pid") (fastforce, fastforce)
    show ?thesis
    proof (cases "open_for N (sealSecret k) pubs lunaId (by_name keys) pid version users")
      case None
      then show ?thesis using assms(1) Some pv users up by (simp add: recipients_step_def st keys_ok_def Let_def)
    next
      case f: (Some f)
      note o = open_for_Some [OF f]
      have "signed_key N json_of stringify k lunaId pubs recipients keys f"
        using o Some pv users assms(2) first_verified_Some [OF users] unfolding signed_key_def by (metis prod.collapse)
      moreover have "?l (f_protectionId f) = Some (max_version ?old version)" "max_version (max_version ?old version) (f_version f) = max_version ?old version"
        using o max_version_idem by auto
      ultimately show ?thesis
        using assms(1) Some pv users f up by (auto simp: recipients_step_def st keys_ok_def Let_def add_new_def)
    qed
  qed
qed

lemma found_keys_ok:
  assumes "findMyKeys N json_of stringify lunaId entropy self recipients keys pscopes expected = Inr r"
  obtains k where "derive N entropy lunaId = Inr k"
    "\<And>pub. pub \<in> set (mk_signingPublics r) \<Longrightarrow> own_signer N k lunaId self pub \<and> expected \<in> {None, Some pub}"
    "keys_ok N json_of stringify k lunaId (mk_signingPublics r) recipients keys (mk_latestVersion r, mk_keys r, mk_userIds r)"
proof -
  obtain k pubs where k: "derive N entropy lunaId = Inr k" "expect_signing expected
      (foldl (signing_step N (selfKey k) lunaId (by_name self)) [] (candidates json_of recipients pscopes)) = Inr pubs"
    using assms by (auto simp: findMyKeys_def result_iffs)
  let ?st = "foldl (recipients_step N json_of stringify (sealSecret k) pubs lunaId (by_name keys)) (Map.empty, [], []) recipients"
  have ok: "keys_ok N json_of stringify k lunaId pubs recipients keys ?st"
    by (rule foldl_inv) (simp_all add: keys_ok_def [of _ _ _ _ _ _ _ _ "(Map.empty, [], [])"] keys_ok_step)
  obtain latest found ids where st: "?st = (latest, found, ids)" by (metis surj_pair)
  have r: "mk_signingPublics r = pubs" "mk_keys r = found" "mk_latestVersion r = latest" "mk_userIds r = ids"
    using assms k by (auto simp: findMyKeys_def st result_iffs split: if_splits)
  have "own_signer N k lunaId self pub \<and> expected \<in> {None, Some pub}" if "pub \<in> set pubs" for pub
    using that k(2) signing_fold [of N k lunaId self "candidates json_of recipients pscopes"]
    by (auto simp: expect_signing_def list_all_iff Let_def split: option.splits if_splits)
  then show thesis using that [OF k(1)] ok unfolding st r by blast
qed

text \<open>
  Property C10: whatever the storage holds, a key is found only when the phrase's own self record names the signing
  key, that key (one the caller expected, if any) signed a list of readers of this backup and version
  with the person in it and signed the sealed copy for that person, and the copy opens with the
  phrase. The latest version reported for its backup is not older than the key.
\<close>

theorem my_keys_sound:
  assumes "findMyKeys N json_of stringify lunaId entropy self recipients keys pscopes expected = Inr r"
  shows "\<exists>k. derive N entropy lunaId = Inr k \<and>
    (\<forall>pub\<in>set (mk_signingPublics r). own_signer N k lunaId self pub \<and> expected \<in> {None, Some pub}) \<and>
    (\<forall>f\<in>set (mk_keys r). signed_key N json_of stringify k lunaId (mk_signingPublics r) recipients keys f \<and>
       (\<exists>w. mk_latestVersion r (f_protectionId f) = Some w \<and> max_version w (f_version f) = w)) \<and>
    distinct (mk_userIds r) \<and> set (mk_userIds r) = f_userId ` set (mk_keys r)"
proof -
  obtain k where "derive N entropy lunaId = Inr k"
      "\<And>pub. pub \<in> set (mk_signingPublics r) \<Longrightarrow> own_signer N k lunaId self pub \<and> expected \<in> {None, Some pub}"
      "keys_ok N json_of stringify k lunaId (mk_signingPublics r) recipients keys (mk_latestVersion r, mk_keys r, mk_userIds r)"
    using found_keys_ok [OF assms] by blast
  then show ?thesis by (auto simp: keys_ok_def)
qed

section \<open>The phrase finds its keys\<close>

lemma expect_keeps:
  assumes "pub \<in> set ps" "expected \<in> {None, Some pub}"
  shows "\<exists>pubs. expect_signing expected ps = Inr pubs \<and> pub \<in> set pubs"
proof (cases expected)
  case None
  then show ?thesis using assms(1) by (simp add: expect_signing_def)
next
  case (Some e)
  then have "pub \<in> set (filter (\<lambda>p. sameBytes p e) ps)" "ps \<noteq> []" using assms by auto
  then show ?thesis using Some by (auto simp: expect_signing_def Let_def filter_empty_conv)
qed

lemma set_add_new: "set (foldl add_new xs ys) = set xs \<union> set ys"
  by (induction ys arbitrary: xs) (auto simp: add_new_def)

lemma set_candidates: "set (candidates json_of recipients pscopes) =
    (\<Union>r\<in>set recipients. set (listed_users json_of r)) \<union> (\<Union>r\<in>set pscopes. set (scope_user json_of r))"
  by (simp add: candidates_def set_add_new)

lemma foldl_grows:
  assumes "\<And>a x. g a \<subseteq> g (f a x)"
  shows "g a \<subseteq> g (foldl f a xs)"
proof (induction xs arbitrary: a)
  case (Cons x xs)
  then show ?case using assms [of a x] by (metis foldl_Cons order_trans)
qed simp

lemma foldl_reaches:
  assumes "\<And>a x. g a \<subseteq> g (f a x)" "x \<in> set xs" "\<And>a. y \<in> g (f a x)"
  shows "y \<in> g (foldl f a xs)"
proof -
  obtain ys zs where "xs = ys @ x # zs" using assms(2) by (meson split_list)
  then show ?thesis using assms(3) foldl_grows [of g f, OF assms(1)] by auto
qed

lemma signing_found:
  assumes "uid \<in> set uids" "sb (userRecordPart N uid) = Some bs" "openSelfRecord N sk lunaId uid bs = Some pub"
  shows "pub \<in> set (foldl (signing_step N sk lunaId sb) pubs uids)"
proof (rule foldl_reaches [where g = set, OF _ assms(1)])
  show "set a \<subseteq> set (signing_step N sk lunaId sb a x)" for a x by (auto simp: signing_step_def split: option.splits)
  show "pub \<in> set (signing_step N sk lunaId sb a uid)" for a using assms(2,3) by (auto simp: signing_step_def list_ex_iff)
qed

lemma key_listed:
  assumes "r \<in> set rs" "parseRecipientsName (fst r) = Some (pid, v)"
    and "first_verified (\<lambda>pub. verifyRecipients N json_of stringify (snd r) pub lunaId pid v) pubs = Some users"
    and "open_for N secret pubs lunaId kb pid v users = Some f"
  shows "f \<in> set (fst (snd (foldl (recipients_step N json_of stringify secret pubs lunaId kb) st rs)))"
proof (rule foldl_reaches [where g = "\<lambda>st. set (fst (snd st))", OF _ assms(1)])
  show "set (fst (snd a)) \<subseteq> set (fst (snd (recipients_step N json_of stringify secret pubs lunaId kb a x)))" for a x
    by (cases a) (auto simp: recipients_step_def Let_def split: option.splits)
  show "f \<in> set (fst (snd (recipients_step N json_of stringify secret pubs lunaId kb a r)))" for a
    using assms(2-4) by (cases a) (simp add: recipients_step_def Let_def)
qed

lemma open_for_only:
  assumes "uid \<in> set uids" "kb (pid @ [dot] @ num_text v @ [dot] @ userRecordPart N uid) = Some rec"
    and "first_verified (\<lambda>pub. openKeyCopy N rec secret pub lunaId pid v uid) pubs = Some (key, dedup)"
    and "\<And>u rec p. u \<in> set uids \<Longrightarrow> u \<noteq> uid \<Longrightarrow> kb (pid @ [dot] @ num_text v @ [dot] @ userRecordPart N u) = Some rec \<Longrightarrow>
      openKeyCopy N rec secret p lunaId pid v u = None"
  shows "open_for N secret pubs lunaId kb pid v uids =
    Some \<lparr>f_protectionId = pid, f_version = v, f_key = key, f_dedupKey = dedup, f_userId = uid\<rparr>"
  using assms(1,4)
proof (induction uids)
  case (Cons u us)
  show ?case
  proof (cases "u = uid")
    case True
    then show ?thesis using assms(2,3) by simp
  next
    case False
    have "first_verified (\<lambda>pub. openKeyCopy N rec' secret pub lunaId pid v u) pubs = None"
      if r: "kb (pid @ [dot] @ num_text v @ [dot] @ userRecordPart N u) = Some rec'" for rec'
    proof (rule ccontr)
      assume "first_verified (\<lambda>pub. openKeyCopy N rec' secret pub lunaId pid v u) pubs \<noteq> None"
      then obtain w p where "openKeyCopy N rec' secret p lunaId pid v u = Some w" by (meson first_verified_Some not_None_eq)
      moreover have "openKeyCopy N rec' secret p lunaId pid v u = None"
        by (rule Cons.prems(2) [OF _ False r]) simp
      ultimately show False by simp
    qed
    then have none: "Option.bind (kb (pid @ [dot] @ num_text v @ [dot] @ userRecordPart N u))
        (\<lambda>bs. first_verified (\<lambda>pub. openKeyCopy N bs secret pub lunaId pid v u) pubs) = None"
      by (cases "kb (pid @ [dot] @ num_text v @ [dot] @ userRecordPart N u)") simp_all
    have "open_for N secret pubs lunaId kb pid v us =
        Some \<lparr>f_protectionId = pid, f_version = v, f_key = key, f_dedupKey = dedup, f_userId = uid\<rparr>"
      using Cons.prems False by (intro Cons.IH) auto
    then show ?thesis using none by simp
  qed
qed simp

text \<open>\<open>publish_key\<close> of \<open>keys.rs\<close> writes a list of readers as this object.\<close>

definition recipients_json :: "noble \<Rightarrow> jstring list \<Rightarrow> bytes \<Rightarrow> json" where
  "recipients_json N users sig = JObj [(lit ''users'', JArr (map JStr users)), (lit ''signature'', JStr (bytesToHex N sig))]"

lemma texts_of_map: "texts_of (map JStr users) = Some users"
  by (simp add: texts_of_def list_all_iff comp_def)

lemma recipients_json_read:
  assumes "hex_law N" "json_of bs = Some (recipients_json N users sig)" "length sig = SIG_LEN"
  shows "listed_users json_of (name, bs) = users"
    and "verifyRecipients N json_of stringify bs pub lunaId pid v =
      (if verify N pub (lit ''recipients'') (recipients_message N stringify lunaId pid v (map JStr users)) sig then Some users else None)"
proof -
  have p: "get_prop (recipients_json N users sig) (lit ''users'') = Some (JArr (map JStr users))"
      "hex_prop N (recipients_json N users sig) (lit ''signature'') = Some sig"
    using assms(1) by (simp_all add: recipients_json_def get_prop_def hex_prop_def text_prop_def hex_law_def lit_def)
  then show "listed_users json_of (name, bs) = users"
    using assms(2) by (simp add: listed_users_def List.map_filter_def comp_def)
  show "verifyRecipients N json_of stringify bs pub lunaId pid v =
      (if verify N pub (lit ''recipients'') (recipients_message N stringify lunaId pid v (map JStr users)) sig then Some users else None)"
    using assms(2,3) p by (simp add: verifyRecipients_def texts_of_map)
qed

lemma key_found:
  assumes "seal_laws N" "signature_law N" "hex_law N" "length entropy = 16 \<or> length entropy = 32" "derive N entropy lunaId = Inr k"
    and luna: "length seed = 32" "signerPublic N seed = Inr pub" "expected \<in> {None, Some pub}"
    and self: "length nonce = 24" "encryptWith N (selfKey k) nonce (selfSealedAad N lunaId uid) pub = Inr own"
      "by_name self (userRecordPart N uid) = Some own"
    and list: "(name, bs) \<in> set recipients" "parseRecipientsName name = Some (pid, v)" "uid \<in> set users"
      "sign N seed (lit ''recipients'') (recipients_message N stringify lunaId pid v (map JStr users)) = Inr rsig"
      "json_of bs = Some (recipients_json N users rsig)"
    and copy: "\<And>i n. length (rnd i n) = n" "length key = KEY_LEN" "length dedup = KEY_LEN"
      "seal N rnd (sealPublic k) (keyCopyAad N lunaId pid v uid) (key @ dedup) = Inr sealed"
      "sign N seed (lit ''key-copy'') (key_copy_message N (keyCopyAad N lunaId pid v uid) sealed) = Inr sig"
      "by_name keys (pid @ [dot] @ num_text v @ [dot] @ userRecordPart N uid) = Some (sealed @ sig)"
    and others: "\<And>u rec p. u \<in> set users \<Longrightarrow> u \<noteq> uid \<Longrightarrow>
      by_name keys (pid @ [dot] @ num_text v @ [dot] @ userRecordPart N u) = Some rec \<Longrightarrow>
      openKeyCopy N rec (sealSecret k) p lunaId pid v u = None"
  shows "\<exists>r. findMyKeys N json_of stringify lunaId entropy self recipients keys pscopes expected = Inr r \<and>
    \<lparr>f_protectionId = pid, f_version = v, f_key = key, f_dedupKey = dedup, f_userId = uid\<rparr> \<in> set (mk_keys r) \<and>
    pub \<in> set (mk_signingPublics r)"
proof -
  have laws: "concat_law N" "hkdf_law N" "xchacha_law N" using assms(1) by (simp_all add: seal_laws_def)
  have ks: "seal_pair N (sealSecret k) (sealPublic k)" "length (selfKey k) = 32"
    using derived_keys [OF assms(1,2,4), of lunaId] assms(5) by force+
  have ver: "verify N pub d m g" if "sign N seed d m = Inr g" for d m g
    using sign_verify [OF laws(1,2) assms(2) luna(1), of d m] luna(2) that by auto
  then have "length pub = SIG_PUBLIC_LEN" using copy(5) by (auto simp: verify_both)
  then have mine: "openSelfRecord N (selfKey k) lunaId uid own = Some pub"
    using decrypt_encrypted [OF laws(1,3) ks(2) self(1,2)] by (simp add: openSelfRecord_def)
  note read = recipients_json_read [where json_of = json_of and bs = bs, OF assms(3) list(5) verify_sig_len [OF ver [OF list(4)]]]
  have "uid \<in> set (candidates json_of recipients pscopes)"
    using list(1,3) read(1) [of name] by (auto simp: set_candidates)
  from signing_found [where sb = "by_name self" and bs = own and pubs = "[]", OF this self(3) mine]
  obtain pubs where pubs: "pub \<in> set pubs" "expect_signing expected
      (foldl (signing_step N (selfKey k) lunaId (by_name self)) [] (candidates json_of recipients pscopes)) = Inr pubs"
    using expect_keeps [OF _ luna(3)] by metis
  have users: "first_verified (\<lambda>p. verifyRecipients N json_of stringify (snd (name, bs)) p lunaId pid v) pubs = Some users"
    by (rule first_verified_same [OF pubs(1)]) (simp_all add: read(2) ver [OF list(4)] split: if_splits)
  have open_copy: "openKeyCopy N (sealed @ sig) (sealSecret k) p lunaId pid v uid = Some w \<Longrightarrow> w = (key, dedup)" for p w
  proof -
    assume o: "openKeyCopy N (sealed @ sig) (sealSecret k) p lunaId pid v uid = Some w"
    then obtain c g where "sealed @ sig = c @ g" "length g = SIG_LEN" "open_sealed N (sealSecret k) (keyCopyAad N lunaId pid v uid) c = Inr (fst w @ snd w)"
        "length (fst w) = KEY_LEN"
      by (cases w) (auto simp: openKeyCopy_Some dest: verify_sig_len)
    moreover have "length sig = SIG_LEN" using ver [OF copy(5)] by (rule verify_sig_len)
    ultimately show "w = (key, dedup)"
      using seal_pair_opens [OF ks(1) copy(1,4)] copy(2) by (auto simp: prod_eq_iff)
  qed
  have "sealed \<noteq> []" using seal_pair_opens [OF ks(1) copy(1,4)] by (auto simp: open_sealed_def crypto_lens)
  then have "openKeyCopy N (sealed @ sig) (sealSecret k) pub lunaId pid v uid = Some (key, dedup)"
    using seal_pair_opens [OF ks(1) copy(1,4)] ver [OF copy(5)] copy(2,3) by (auto simp: openKeyCopy_Some)
  then have kd: "first_verified (\<lambda>p. openKeyCopy N (sealed @ sig) (sealSecret k) p lunaId pid v uid) pubs = Some (key, dedup)"
    by (rule first_verified_same [where f = "\<lambda>p. openKeyCopy N (sealed @ sig) (sealSecret k) p lunaId pid v uid", OF pubs(1)])
      (rule open_copy)
  let ?st = "foldl (recipients_step N json_of stringify (sealSecret k) pubs lunaId (by_name keys)) (Map.empty, [], []) recipients"
  let ?f = "\<lparr>f_protectionId = pid, f_version = v, f_key = key, f_dedupKey = dedup, f_userId = uid\<rparr>"
  have "open_for N (sealSecret k) pubs lunaId (by_name keys) pid v users = Some ?f"
    by (rule open_for_only [where kb = "by_name keys", OF list(3) copy(6) kd others])
  then have found: "?f \<in> set (fst (snd ?st))"
    using key_listed [OF list(1)] list(2) users by simp
  obtain scopes where "findMyPrivateScopes N json_of lunaId entropy pscopes pubs = Inr scopes"
    using assms(5) by (simp add: findMyPrivateScopes_def)
  then show ?thesis using found assms(5) pubs by (cases ?st) (auto simp: findMyKeys_def)
qed

text \<open>
  What Luna has stored for a reader of a version of a backup: the self record with its signing key, a signed
  list of readers, and the signed copy of both keys sealed to the reader.
\<close>

definition published ::
  "noble \<Rightarrow> (bytes \<Rightarrow> json option) \<Rightarrow> (json \<Rightarrow> jstring) \<Rightarrow> jstring \<Rightarrow> user_keys \<Rightarrow> bytes \<Rightarrow> cloud_record list \<Rightarrow> cloud_record list \<Rightarrow>
   cloud_record list \<Rightarrow> jstring list \<Rightarrow> found_key \<Rightarrow> bool" where
  "published N json_of stringify lunaId k seed self recipients keys users f \<longleftrightarrow>
     length seed = 32 \<and> length (f_key f) = KEY_LEN \<and> length (f_dedupKey f) = KEY_LEN \<and> f_userId f \<in> set users \<and>
     (\<exists>pub nonce own. signerPublic N seed = Inr pub \<and> length nonce = 24 \<and>
        encryptWith N (selfKey k) nonce (selfSealedAad N lunaId (f_userId f)) pub = Inr own \<and>
        by_name self (userRecordPart N (f_userId f)) = Some own) \<and>
     (\<exists>name bs sig. (name, bs) \<in> set recipients \<and> parseRecipientsName name = Some (f_protectionId f, f_version f) \<and>
        sign N seed (lit ''recipients'') (recipients_message N stringify lunaId (f_protectionId f) (f_version f) (map JStr users)) = Inr sig \<and>
        json_of bs = Some (recipients_json N users sig)) \<and>
     (\<exists>rnd sealed sig. (\<forall>i n. length (rnd i n) = n) \<and>
        seal N rnd (sealPublic k) (keyCopyAad N lunaId (f_protectionId f) (f_version f) (f_userId f)) (f_key f @ f_dedupKey f) = Inr sealed \<and>
        sign N seed (lit ''key-copy'')
          (key_copy_message N (keyCopyAad N lunaId (f_protectionId f) (f_version f) (f_userId f)) sealed) = Inr sig \<and>
        by_name keys (f_protectionId f @ [dot] @ num_text (f_version f) @ [dot] @ userRecordPart N (f_userId f)) = Some (sealed @ sig))"

lemma published_found:
  assumes "seal_laws N" "signature_law N" "hex_law N" "length entropy = 16 \<or> length entropy = 32" "derive N entropy lunaId = Inr k"
    and "published N json_of stringify lunaId k seed self recipients keys users f"
    and "\<And>u rec p. u \<in> set users \<Longrightarrow> u \<noteq> f_userId f \<Longrightarrow>
      by_name keys (f_protectionId f @ [dot] @ num_text (f_version f) @ [dot] @ userRecordPart N u) = Some rec \<Longrightarrow>
      openKeyCopy N rec (sealSecret k) p lunaId (f_protectionId f) (f_version f) u = None"
    and "\<And>pub. signerPublic N seed = Inr pub \<Longrightarrow> expected \<in> {None, Some pub}"
  shows "\<exists>r. findMyKeys N json_of stringify lunaId entropy self recipients keys pscopes expected = Inr r \<and> f \<in> set (mk_keys r) \<and>
    signerPublic N seed \<in> Inr ` set (mk_signingPublics r)"
proof -
  note pb = assms(6) [unfolded published_def]
  have p: "length seed = 32" "length (f_key f) = KEY_LEN" "length (f_dedupKey f) = KEY_LEN" "f_userId f \<in> set users" using pb by blast+
  obtain pub nonce own where s: "signerPublic N seed = Inr pub" "length nonce = 24"
      "encryptWith N (selfKey k) nonce (selfSealedAad N lunaId (f_userId f)) pub = Inr own"
      "by_name self (userRecordPart N (f_userId f)) = Some own"
    using pb by blast
  obtain name bs rsig where l: "(name, bs) \<in> set recipients" "parseRecipientsName name = Some (f_protectionId f, f_version f)"
      "sign N seed (lit ''recipients'') (recipients_message N stringify lunaId (f_protectionId f) (f_version f) (map JStr users)) = Inr rsig"
      "json_of bs = Some (recipients_json N users rsig)"
    using pb by blast
  obtain rnd sealed sig where c: "\<And>i n. length (rnd i n) = n"
      "seal N rnd (sealPublic k) (keyCopyAad N lunaId (f_protectionId f) (f_version f) (f_userId f)) (f_key f @ f_dedupKey f) = Inr sealed"
      "sign N seed (lit ''key-copy'')
          (key_copy_message N (keyCopyAad N lunaId (f_protectionId f) (f_version f) (f_userId f)) sealed) = Inr sig"
      "by_name keys (f_protectionId f @ [dot] @ num_text (f_version f) @ [dot] @ userRecordPart N (f_userId f)) = Some (sealed @ sig)"
    using pb by blast
  have eq: "\<lparr>f_protectionId = f_protectionId f, f_version = f_version f, f_key = f_key f, f_dedupKey = f_dedupKey f, f_userId = f_userId f\<rparr> = f" by simp
  have "\<exists>r. findMyKeys N json_of stringify lunaId entropy self recipients keys pscopes expected = Inr r \<and>
    \<lparr>f_protectionId = f_protectionId f, f_version = f_version f, f_key = f_key f, f_dedupKey = f_dedupKey f, f_userId = f_userId f\<rparr> \<in> set (mk_keys r) \<and>
    pub \<in> set (mk_signingPublics r)"
    by (rule key_found; fact assms(1-5,7) p s l c assms(8) [OF s(1)])
  then show ?thesis unfolding eq s(1) by blast
qed

text \<open>
  Property C9: a reader's recovery phrase finds the key of a backup: when the phrase's self record holds the signing
  key of the Luna, that key signed a list of readers with the person in it, and the key was sealed to the
  phrase and the copy signed, then the key and the fingerprint key of that version are found, wherever
  the records stand, as long as no other reader's copy opens with the same phrase.
\<close>

theorem my_key_found:
  assumes "seal_laws N" "signature_law N" "hex_law N" "length entropy = 16 \<or> length entropy = 32" "derive N entropy lunaId = Inr k"
    and "published N json_of stringify lunaId k seed self recipients keys users f"
    and "\<And>u rec p. u \<in> set users \<Longrightarrow> u \<noteq> f_userId f \<Longrightarrow>
      by_name keys (f_protectionId f @ [dot] @ num_text (f_version f) @ [dot] @ userRecordPart N u) = Some rec \<Longrightarrow>
      openKeyCopy N rec (sealSecret k) p lunaId (f_protectionId f) (f_version f) u = None"
    and "\<And>pub. signerPublic N seed = Inr pub \<Longrightarrow> expected \<in> {None, Some pub}"
  shows "\<exists>r. findMyKeys N json_of stringify lunaId entropy self recipients keys pscopes expected = Inr r \<and> f \<in> set (mk_keys r)"
proof -
  have "\<exists>r. findMyKeys N json_of stringify lunaId entropy self recipients keys pscopes expected = Inr r \<and> f \<in> set (mk_keys r) \<and>
      signerPublic N seed \<in> Inr ` set (mk_signingPublics r)"
    by (rule published_found; fact assms)
  then show ?thesis by blast
qed

lemma demo_published:
  assumes "length e = 16"
  obtains k users_json name keys self f where
    "derive demo_noble e (lit ''l'') = Inr k" "f_key f = replicate 32 1" "f_version f = Fin 1"
    "\<forall>json_of. json_of [] = Some users_json \<longrightarrow>
      published demo_noble json_of (\<lambda>_. []) (lit ''l'') k (replicate 32 5) self [(name, [])] keys [f_userId f] f"
proof -
  let ?pid = "lit ''01234567-89ab-cdef-0123-456789abcdef''" and ?l = "lit ''l''" and ?u = "lit ''u''"
  let ?name = "?pid @ lit ''.1''" and ?v = "Fin 1"
  obtain k where k: "derive demo_noble e ?l = Inr k" "seal_pair demo_noble (sealSecret k) (sealPublic k)" "length (selfKey k) = 32"
    using derived_keys [OF demo_seal_laws demo_laws(6), of e ?l] assms by auto
  obtain pub where pub: "signerPublic demo_noble (replicate 32 5) = Inr pub"
    using sign_verify [OF demo_laws(1,2,6), of "replicate 32 5"] by auto
  have sg: "\<exists>g. sign demo_noble (replicate 32 5) d m = Inr g" for d m
    using sign_verify [OF demo_laws(1,2,6), of "replicate 32 5" d m] by auto
  obtain own where own: "encryptWith demo_noble (selfKey k) (replicate 24 0) (selfSealedAad demo_noble ?l ?u) pub = Inr own"
    by (simp add: encryptWith_def aeadEncrypt_def demo_noble_def)
  obtain rsig where rsig: "sign demo_noble (replicate 32 5) (lit ''recipients'') (recipients_message demo_noble (\<lambda>_. []) ?l ?pid ?v (map JStr [?u])) = Inr rsig"
    using sg by blast
  obtain sealed where sealed: "seal demo_noble (\<lambda>i n. replicate n 3) (sealPublic k) (keyCopyAad demo_noble ?l ?pid ?v ?u) (replicate 32 1 @ replicate 32 2) = Inr sealed"
    using seal_pair_seals [OF k(2)] by blast
  obtain sig where sig: "sign demo_noble (replicate 32 5) (lit ''key-copy'') (key_copy_message demo_noble (keyCopyAad demo_noble ?l ?pid ?v ?u) sealed) = Inr sig"
    using sg by blast
  have name: "parseRecipientsName ?name = Some (?pid, ?v)"
    by (simp add: parseRecipientsName_def is_uuid_def is_hex_def version_of_def lit_def digits_value_def js_digit_def to_double_def js_fl_def ilog2_def
        round_even_def)
  show thesis
  proof (rule that [OF k(1) _ _ allI [OF impI]])
    fix json_of :: "bytes \<Rightarrow> json option"
    assume json: "json_of [] = Some (recipients_json demo_noble [?u] rsig)"
    show "published demo_noble json_of (\<lambda>_. []) ?l k (replicate 32 5)
       [(userRecordPart demo_noble ?u, own)] [(?name, [])] [(?pid @ [dot] @ num_text ?v @ [dot] @ userRecordPart demo_noble ?u, sealed @ sig)]
       [f_userId \<lparr>f_protectionId = ?pid, f_version = ?v, f_key = replicate 32 1, f_dedupKey = replicate 32 2, f_userId = ?u\<rparr>]
       \<lparr>f_protectionId = ?pid, f_version = ?v, f_key = replicate 32 1, f_dedupKey = replicate 32 2, f_userId = ?u\<rparr>"
      unfolding published_def found_key.select_convs
    proof (intro conjI)
      have l: "length (replicate 24 (0 :: byte)) = 24" "by_name [(userRecordPart demo_noble ?u, own)] (userRecordPart demo_noble ?u) = Some own"
        by (simp_all add: by_name_def)
      show "\<exists>pub nonce own'. signerPublic demo_noble (replicate 32 5) = Inr pub \<and> length nonce = 24 \<and>
          encryptWith demo_noble (selfKey k) nonce (selfSealedAad demo_noble ?l ?u) pub = Inr own' \<and>
          by_name [(userRecordPart demo_noble ?u, own)] (userRecordPart demo_noble ?u) = Some own'"
        using pub l own by blast
      show "\<exists>rnd sealed' sig'. (\<forall>i n. length (rnd i n) = n) \<and>
          seal demo_noble rnd (sealPublic k) (keyCopyAad demo_noble ?l ?pid ?v ?u) (replicate 32 1 @ replicate 32 2) = Inr sealed' \<and>
          sign demo_noble (replicate 32 5) (lit ''key-copy'') (key_copy_message demo_noble (keyCopyAad demo_noble ?l ?pid ?v ?u) sealed') = Inr sig' \<and>
          by_name [(?pid @ [dot] @ num_text ?v @ [dot] @ userRecordPart demo_noble ?u, sealed @ sig)]
            (?pid @ [dot] @ num_text ?v @ [dot] @ userRecordPart demo_noble ?u) = Some (sealed' @ sig')"
        by (rule exI [of _ "\<lambda>i n. replicate n 3"], rule exI [of _ sealed], rule exI [of _ sig]) (simp add: sealed sig by_name_def)
    qed (insert rsig name json, auto simp: KEY_LEN_def)
  qed simp_all
qed

lemma demo_published_16:
  obtains k users_json name keys self f where "derive demo_noble (replicate 16 7) (lit ''l'') = Inr k"
    "published demo_noble (\<lambda>_. Some users_json) (\<lambda>_. []) (lit ''l'') k (replicate 32 5) self [(name, [])] keys [f_userId f] f"
proof -
  obtain k users_json name keys self and f :: found_key where d: "derive demo_noble (replicate 16 7) (lit ''l'') = Inr k"
      "f_key f = replicate 32 1" "f_version f = Fin 1" "\<forall>json_of. json_of [] = Some users_json \<longrightarrow>
        published demo_noble json_of (\<lambda>_. []) (lit ''l'') k (replicate 32 5) self [(name, [])] keys [f_userId f] f"
    by (rule demo_published [of "replicate 16 7"]) (simp, blast)
  from d(4) have "published demo_noble (\<lambda>_. Some users_json) (\<lambda>_. []) (lit ''l'') k (replicate 32 5) self [(name, [])] keys [f_userId f] f"
    by (elim allE [of _ "\<lambda>_. Some users_json"] impE) simp
  then show thesis by (rule that [OF d(1)])
qed

theorem my_key_found_witness:
  "\<exists>json_of self recipients keys r f. findMyKeys demo_noble json_of (\<lambda>_. []) (lit ''l'') (replicate 16 7) self recipients keys [] None = Inr r \<and>
     f \<in> set (mk_keys r)"
proof -
  obtain k users_json name keys self f where d: "derive demo_noble (replicate 16 7) (lit ''l'') = Inr k" and
      p: "published demo_noble (\<lambda>_. Some users_json) (\<lambda>_. []) (lit ''l'') k (replicate 32 5) self [(name, [])] keys [f_userId f] f"
    by (rule demo_published_16)
  have "\<exists>r. findMyKeys demo_noble (\<lambda>_. Some users_json) (\<lambda>_. []) (lit ''l'') (replicate 16 7) self [(name, [])] keys [] None = Inr r \<and> f \<in> set (mk_keys r)"
    by (rule my_key_found [OF demo_seal_laws demo_laws(6) demo_format_laws(2) _ d p]) simp_all
  then show ?thesis by blast
qed

theorem my_keys_sound_witness:
  "\<exists>json_of self recipients keys r. findMyKeys demo_noble json_of (\<lambda>_. []) (lit ''l'') (replicate 16 7) self recipients keys [] None = Inr r \<and>
     mk_keys r \<noteq> [] \<and> set (mk_userIds r) = f_userId ` set (mk_keys r)"
proof -
  obtain k users_json name keys self f where d: "derive demo_noble (replicate 16 7) (lit ''l'') = Inr k" and
      p: "published demo_noble (\<lambda>_. Some users_json) (\<lambda>_. []) (lit ''l'') k (replicate 32 5) self [(name, [])] keys [f_userId f] f"
    by (rule demo_published_16)
  have "\<exists>r. findMyKeys demo_noble (\<lambda>_. Some users_json) (\<lambda>_. []) (lit ''l'') (replicate 16 7) self [(name, [])] keys [] None = Inr r \<and> f \<in> set (mk_keys r) \<and>
      signerPublic demo_noble (replicate 32 5) \<in> Inr ` set (mk_signingPublics r)"
    by (rule published_found [OF demo_seal_laws demo_laws(6) demo_format_laws(2) _ d p]) simp_all
  then obtain r where r: "findMyKeys demo_noble (\<lambda>_. Some users_json) (\<lambda>_. []) (lit ''l'') (replicate 16 7) self [(name, [])] keys [] None = Inr r" "f \<in> set (mk_keys r)"
    by blast
  then have "mk_keys r \<noteq> []" by auto
  moreover have "set (mk_userIds r) = f_userId ` set (mk_keys r)" using my_keys_sound [OF r(1)] by blast
  ultimately show ?thesis using r(1) by blast
qed

text \<open>
  A phrase that owns a private scope, which the signing key of the Luna would open, and the self record of
  its owner, cut short.
\<close>

theorem no_signing_key_no_scopes_witness:
  "\<exists>json_of scope luna v. candidates json_of [] [(scope, [1])] = [lit ''u''] \<and>
     findMyPrivateScopes demo_noble json_of (lit ''l'') (replicate 16 7) [(scope, [1])] [luna] = Inr [v] \<and>
     findMyKeys demo_noble json_of (\<lambda>_. []) (lit ''l'') (replicate 16 7) [(userRecordPart demo_noble (lit ''u''), [0])] [] []
       [(scope, [1])] None = Inl (Thrown NO_BACKUPS)"
proof -
  obtain k secret pub ss sd luna sig where d:
    "derive demo_noble (replicate 16 7) (lit ''l'') = Inr k" "scopeKeysFromSeed demo_noble (replicate 32 1) = Inr (secret, pub)"
    "sealScopeSecret demo_noble (\<lambda>i n. replicate n 3) secret (sealPublic k) (lit ''l'') (scopeOf demo_noble (replicate 32 9)) = Inr ss"
    "seal demo_noble (\<lambda>i n. replicate n 4) pub (privateAad demo_noble DEDUP_PURPOSE (lit ''l'') (scopeOf demo_noble (replicate 32 9))) (replicate 32 9) = Inr sd"
    "verify demo_noble luna SCOPE_RECORD_DOMAIN (canonical demo_noble (scope_fields demo_noble
       \<lparr>r_lunaId = lit ''l'', r_scope = scopeOf demo_noble (replicate 32 9), r_userId = lit ''u'', r_sealPublic = sealPublic k,
        r_authPublic = authPublic k, r_createdAt = 5, r_scopePublic = pub, r_sealedScopeSecret = ss, r_sealedDedup = sd\<rparr>)) sig"
    by (rule private_scope_demo)
  let ?r = "\<lparr>r_lunaId = lit ''l'', r_scope = scopeOf demo_noble (replicate 32 9), r_userId = lit ''u'',
      r_sealPublic = sealPublic k, r_authPublic = authPublic k, r_createdAt = 5, r_scopePublic = pub, r_sealedScopeSecret = ss,
      r_sealedDedup = sd\<rparr>"
  let ?json = "\<lambda>bs :: bytes. Some (scope_json demo_noble ?r sig)" and ?ps = "[(scopeOf demo_noble (replicate 32 9), [1])]"
  have "open_scope demo_noble ?json (lit ''l'') k [luna] (scopeOf demo_noble (replicate 32 9), [1]) \<noteq> None"
    by (subst own_scope_opens [OF demo_seal_laws demo_laws(6) demo_format_laws(2) _ d(1,2) _ _ _ d(3,4) refl _ d(5)])
      (simp_all add: KEY_LEN_def MAX_SAFE_INTEGER_def)
  then have f: "\<exists>v. findMyPrivateScopes demo_noble ?json (lit ''l'') (replicate 16 7) ?ps [luna] = Inr [v]"
    using d(1) by (auto simp: findMyPrivateScopes_def List.map_filter_def)
  have c: "candidates ?json [] ?ps = [lit ''u'']"
    by (simp add: candidates_def scope_user_def scope_json_def get_prop_def text_prop_def add_new_def lit_def)
  have "openSelfRecord demo_noble (selfKey k) (lit ''l'') uid [0] = None" for uid
    by (simp add: openSelfRecord_def decrypt_def NONCE_LEN_def TAG_LEN_def)
  then have "findMyKeys demo_noble ?json (\<lambda>_. []) (lit ''l'') (replicate 16 7) [(userRecordPart demo_noble (lit ''u''), [0])] [] [] ?ps None
      = Inl (Thrown NO_BACKUPS)"
    by (intro no_signing_key_no_scopes [OF d(1)]) (auto simp: by_name_def split: if_splits)
  then show ?thesis using f c by blast
qed

end
