(* ===== verification/CloudUnlock.thy ===== *)
theory CloudUnlock
  imports CloudKeys
begin

text \<open>
  Opening everything a phrase opens on Luna Connect: \<open>luna/connect/web/src/lib/cloudUnlock.js\<close> and
  \<open>privateUnlock.js\<close>. The storage service is the record \<open>source\<close> of its answers; \<open>compare\<close> is
  \<open>localeCompare\<close>.
\<close>

section \<open>Comparing values\<close>

text \<open>The comparison \<open>v > w\<close> of values out of \<open>JSON.parse\<close>.\<close>

definition primitive :: "json option \<Rightarrow> json option" where
  "primitive v = (case v of Some (JArr vs) \<Rightarrow> Some (JStr (js_text (JArr vs))) | Some (JObj ps) \<Rightarrow> Some (JStr (js_text (JObj ps))) | w \<Rightarrow> w)"

fun text_less :: "jstring \<Rightarrow> jstring \<Rightarrow> bool" where
  "text_less [] t = (t \<noteq> [])"
| "text_less (c # cs) [] = False"
| "text_less (c # cs) (d # ds) = (c < d \<or> c = d \<and> text_less cs ds)"

definition num_less :: "jnum \<Rightarrow> jnum \<Rightarrow> bool" where
  "num_less a b =
     (case (a, b) of
        (Fin x, Fin y) \<Rightarrow> x < y
      | (NaN, _) \<Rightarrow> False
      | (_, NaN) \<Rightarrow> False
      | (NegInf, w) \<Rightarrow> w \<noteq> NegInf
      | (_, PosInf) \<Rightarrow> a \<noteq> PosInf
      | _ \<Rightarrow> False)"

definition js_greater :: "json option \<Rightarrow> json option \<Rightarrow> bool" where
  "js_greater a b =
     (case (primitive a, primitive b) of
        (Some (JStr s), Some (JStr t)) \<Rightarrow> text_less t s
      | (v, w) \<Rightarrow> num_less (opt_number w) (opt_number v))"

section \<open>Backups\<close>

record cloud_version =
  w_snapshotId :: jstring
  w_createdAt :: "json option"
  w_keyVersion :: "json option"
  w_treePackId :: jstring
  w_treeHash :: bytes
  w_meta :: bytes

record private_keys =
  pk_scope :: jstring
  pk_sealSecret :: bytes
  pk_dedupKey :: bytes
  pk_token :: jstring

record unlocked =
  u_protectionId :: jstring
  u_name :: jstring
  u_sourcePath :: jstring
  u_startedBy :: jstring
  u_startedByName :: jstring
  u_versions :: "cloud_version list"
  u_keys :: "jstring \<rightharpoonup> bytes \<times> bytes"
  u_private :: "private_keys option"

text \<open>
  The answers of the service. An error says whether its status was 403. The first list answer holds the
  records of the five kinds, or the error of the request that failed first; the challenge is that of
  the \<open>i\<close>-th request.
\<close>

type_synonym 'a answer = "(bool \<times> jerror) + 'a"

record source =
  sv_lunaId :: jstring
  sv_records :: "(cloud_record list \<times> cloud_record list \<times> cloud_record list \<times> cloud_record list \<times> cloud_record list) result"
  sv_getPack :: "jstring \<Rightarrow> bytes result"
  sv_challenge :: "nat \<Rightarrow> jstring answer"
  sv_open :: "jstring \<Rightarrow> jstring \<Rightarrow> jstring \<Rightarrow> jstring answer"
  sv_private_records :: "jstring \<Rightarrow> cloud_record list result"
  sv_private_pack :: "jstring \<Rightarrow> jstring \<Rightarrow> bytes result"

text \<open>A map of lists in the order of insertion.\<close>

fun group_add :: "'k \<Rightarrow> 'v \<Rightarrow> ('k \<times> 'v list) list \<Rightarrow> ('k \<times> 'v list) list" where
  "group_add k v [] = [(k, [v])]"
| "group_add k v ((k', vs) # gs) = (if k' = k then (k', vs @ [v]) # gs else (k', vs) # group_add k v gs)"

section \<open>Private scopes\<close>

definition OPEN_FAILED :: jstring where
  "OPEN_FAILED = lit ''Could not open your private items. Try again.''"

definition or_failed :: "'a answer \<Rightarrow> 'a result" where
  "or_failed a = (case a of Inl (forbidden, e) \<Rightarrow> Inl (if forbidden then e else Thrown OPEN_FAILED) | Inr x \<Rightarrow> Inr x)"

definition private_version :: "private_snapshot \<Rightarrow> cloud_version" where
  "private_version s =
     \<lparr>w_snapshotId = s_snapshotId (p_snap s), w_createdAt = s_createdAt (p_snap s), w_keyVersion = Some (JNum (Fin 0)),
      w_treePackId = s_treePackId (p_snap s), w_treeHash = s_treeHash (p_snap s), w_meta = s_meta (p_snap s)\<rparr>"

definition private_backup :: "private_keys \<Rightarrow> jstring \<times> private_snapshot list \<Rightarrow> unlocked" where
  "private_backup pk g =
     (let meta = p_meta (hd (snd g))
      in \<lparr>u_protectionId = fst g, u_name = m_name meta, u_sourcePath = m_sourcePath meta, u_startedBy = m_startedBy meta,
          u_startedByName = m_startedByName meta, u_versions = map private_version (snd g), u_keys = Map.empty, u_private = Some pk\<rparr>)"

definition openPrivateScope ::
  "noble \<Rightarrow> (bytes \<Rightarrow> json option) \<Rightarrow> source \<Rightarrow> bytes \<Rightarrow> jstring \<Rightarrow> nat \<Rightarrow> private_scope \<Rightarrow> bytes list \<Rightarrow> unlocked list result" where
  "openPrivateScope N json_of src entropy lunaId i scopeInfo signingPublics =
     bind_r (derive N entropy lunaId) (\<lambda>k.
     bind_r (or_failed (sv_challenge src i)) (\<lambda>challenge.
     bind_r (rethrow (Thrown OPEN_FAILED) (bind_r (of_lib (hexToBytes N challenge)) (signPrivateOpen N (authSecret k) lunaId (v_scope scopeInfo)))) (\<lambda>signature.
     bind_r (or_failed (sv_open src (v_scope scopeInfo) challenge (bytesToHex N signature))) (\<lambda>token.
     bind_r (sv_private_records src token) (\<lambda>psnapshots.
     let snaps = readPrivateSnapshots N json_of lunaId (v_sealSecret scopeInfo) (v_scope scopeInfo) psnapshots signingPublics;
         groups = foldl (\<lambda>gs s. group_add (s_protectionId (p_snap s)) s gs) [] snaps;
         pk = \<lparr>pk_scope = v_scope scopeInfo, pk_sealSecret = v_sealSecret scopeInfo, pk_dedupKey = v_dedupKey scopeInfo, pk_token = token\<rparr>
     in Inr (map (private_backup pk) groups))))))"

fun unlockPrivate ::
  "noble \<Rightarrow> (bytes \<Rightarrow> json option) \<Rightarrow> source \<Rightarrow> bytes \<Rightarrow> jstring \<Rightarrow> nat \<Rightarrow> private_scope list \<Rightarrow> bytes list \<Rightarrow> unlocked list result" where
  "unlockPrivate N json_of src entropy lunaId i [] signingPublics = Inr []"
| "unlockPrivate N json_of src entropy lunaId i (s # ss) signingPublics =
     bind_r (openPrivateScope N json_of src entropy lunaId i s signingPublics) (\<lambda>bs.
     bind_r (unlockPrivate N json_of src entropy lunaId (Suc i) ss signingPublics) (\<lambda>more. Inr (bs @ more)))"

section \<open>Shared backups\<close>

definition key_label :: "jstring \<Rightarrow> jstring \<Rightarrow> jstring" where
  "key_label protectionId version = protectionId @ [58] @ version"

definition keyFor :: "found_key list \<Rightarrow> jstring \<rightharpoonup> bytes \<times> bytes" where
  "keyFor keys = map_of (rev (map (\<lambda>k. (key_label (f_protectionId k) (num_text (f_version k)), (f_key k, f_dedupKey k))) keys))"

definition readable_version ::
  "noble \<Rightarrow> (bytes \<Rightarrow> json option) \<Rightarrow> jstring \<Rightarrow> my_keys \<Rightarrow> cloud_record \<Rightarrow> (jstring \<times> cloud_version \<times> backup_meta) option" where
  "readable_version N json_of lunaId mine r =
     (case verifySnapshot N json_of (snd r) (mk_signingPublics mine) lunaId (lit ''snapshot'') of
        None \<Rightarrow> None
      | Some view \<Rightarrow>
          (case keyFor (mk_keys mine) (key_label (s_protectionId view) (opt_text (s_keyVersion view))) of
             None \<Rightarrow> None
           | Some (key, _) \<Rightarrow>
               (case decryptMeta N json_of (s_meta view) key of
                  Inl _ \<Rightarrow> None
                | Inr meta \<Rightarrow>
                    Some (s_protectionId view,
                      \<lparr>w_snapshotId = s_snapshotId view, w_createdAt = s_createdAt view, w_keyVersion = s_keyVersion view,
                       w_treePackId = s_treePackId view, w_treeHash = s_treeHash view, w_meta = s_meta view\<rparr>, meta))))"

definition keysByVersion :: "found_key list \<Rightarrow> jstring \<Rightarrow> jstring \<rightharpoonup> bytes \<times> bytes" where
  "keysByVersion keys protectionId =
     map_of (rev (map (\<lambda>k. (num_text (f_version k), (f_key k, f_dedupKey k))) (filter (\<lambda>k. f_protectionId k = protectionId) keys)))"

text \<open>The metas of a group are a map by snapshot id: the last one of an id counts.\<close>

definition shared_backup :: "found_key list \<Rightarrow> jstring \<times> (cloud_version \<times> backup_meta) list \<Rightarrow> unlocked option" where
  "shared_backup keys g =
     (let versions = sort_by (\<lambda>a b. newer_first (w_createdAt a) (w_createdAt b)) (map fst (snd g));
          metas = map_of (rev (map (\<lambda>(w, m). (w_snapshotId w, m)) (snd g)))
      in map_option (\<lambda>newest.
           \<lparr>u_protectionId = fst g, u_name = m_name newest, u_sourcePath = m_sourcePath newest, u_startedBy = m_startedBy newest,
            u_startedByName = m_startedByName newest, u_versions = versions, u_keys = keysByVersion keys (fst g), u_private = None\<rparr>)
         (metas (w_snapshotId (hd versions))))"

definition holds_latest :: "my_keys \<Rightarrow> unlocked \<Rightarrow> bool" where
  "holds_latest mine b =
     (case mk_latestVersion mine (u_protectionId b) of
        None \<Rightarrow> False
      | Some latest \<Rightarrow> keyFor (mk_keys mine) (key_label (u_protectionId b) (num_text latest)) \<noteq> None)"

definition shared_backups :: "noble \<Rightarrow> (bytes \<Rightarrow> json option) \<Rightarrow> jstring \<Rightarrow> my_keys \<Rightarrow> bool \<Rightarrow> cloud_record list \<Rightarrow> unlocked list" where
  "shared_backups N json_of lunaId mine requireLatest snapshots =
     (let groups = foldl (\<lambda>gs (p, w, m). group_add p (w, m) gs) [] (List.map_filter (readable_version N json_of lunaId mine) snapshots);
          shared = List.map_filter (shared_backup (mk_keys mine)) groups
      in if requireLatest then filter (holds_latest mine) shared else shared)"

definition private_owners :: "noble \<Rightarrow> (bytes \<Rightarrow> json option) \<Rightarrow> jstring \<Rightarrow> bytes list \<Rightarrow> cloud_record list \<Rightarrow> jstring list" where
  "private_owners N json_of lunaId signingPublics pscopes =
     foldl add_new [] (List.map_filter (\<lambda>r. map_option r_userId (verifyScopeRecord N json_of (snd r) signingPublics lunaId)) pscopes)"

definition unlockBackups ::
  "noble \<Rightarrow> (bytes \<Rightarrow> json option) \<Rightarrow> (json \<Rightarrow> jstring) \<Rightarrow> (jstring \<Rightarrow> jstring) \<Rightarrow> (jstring \<Rightarrow> jstring \<Rightarrow> int) \<Rightarrow> source \<Rightarrow> jstring \<Rightarrow> bool \<Rightarrow>
   (jstring list \<times> unlocked list \<times> jstring list) result" where
  "unlockBackups N json_of stringify toLowerCase compare src typed requireLatest =
     bind_r (phraseToEntropy N toLowerCase typed) (\<lambda>entropy.
     bind_r (sv_records src) (\<lambda>(self, recipients, keys, snapshots, pscopes).
     bind_r (findMyKeys N json_of stringify (sv_lunaId src) entropy self recipients keys pscopes None) (\<lambda>mine.
     let shared = shared_backups N json_of (sv_lunaId src) mine requireLatest snapshots
     in bind_r (unlockPrivate N json_of src entropy (sv_lunaId src) 0 (mk_privateScopes mine) (mk_signingPublics mine)) (\<lambda>privateBackups.
        let owners = private_owners N json_of (sv_lunaId src) (mk_signingPublics mine) pscopes;
            backups = shared @ privateBackups
        in if backups = [] \<and> owners = [] then Inl (Thrown NO_BACKUPS)
           else Inr (mk_userIds mine, sort_by (\<lambda>a b. compare (u_name a) (u_name b)) backups, owners)))))"

section \<open>Groups by who started a backup\<close>

datatype private_row = Mine | Other | NoRow

record starter_group =
  g_startedBy :: jstring
  g_name :: jstring
  g_backups :: "unlocked list"
  g_privateRow :: private_row

definition add_owner :: "(jstring \<times> unlocked list) list \<Rightarrow> jstring \<Rightarrow> (jstring \<times> unlocked list) list" where
  "add_owner gs uid = (if uid \<in> fst ` set gs then gs else gs @ [(uid, [])])"

definition newest_of :: "unlocked \<Rightarrow> unlocked list \<Rightarrow> unlocked" where
  "newest_of = foldl (\<lambda>a b. if js_greater (w_createdAt (hd (u_versions b))) (w_createdAt (hd (u_versions a))) then b else a)"

definition starter_row :: "jstring list \<Rightarrow> jstring \<times> unlocked list \<Rightarrow> starter_group" where
  "starter_row privateOwners g =
     (let row = (if list_ex (\<lambda>b. u_private b \<noteq> None) (snd g) then Mine else if fst g \<in> set privateOwners then Other else NoRow)
      in \<lparr>g_startedBy = fst g,
          g_name = (case snd g of
                      [] \<Rightarrow> lit ''Another person on this Luna''
                    | b # bs \<Rightarrow> (let n = u_startedByName (newest_of b bs) in if n \<noteq> [] then n else lit ''Someone no longer on this Luna'')),
          g_backups = snd g, g_privateRow = row\<rparr>)"

definition groupByStarter :: "(jstring \<Rightarrow> jstring \<Rightarrow> int) \<Rightarrow> unlocked list \<Rightarrow> jstring list \<Rightarrow> starter_group list" where
  "groupByStarter compare backups privateOwners =
     (let groups = foldl add_owner (foldl (\<lambda>gs b. group_add (u_startedBy b) b gs) [] backups) privateOwners
      in sort_by (\<lambda>a b. compare (g_name a) (g_name b)) (map (starter_row privateOwners) groups))"

section \<open>The file list of a version\<close>

text \<open>A missing entry of \<open>keys\<close> makes the access to its \<open>key\<close> throw.\<close>

definition loadTree :: "noble \<Rightarrow> (bytes \<Rightarrow> json option) \<Rightarrow> source \<Rightarrow> unlocked \<Rightarrow> cloud_version \<Rightarrow> tree_entry list result" where
  "loadTree N json_of src backup version =
     (case u_private backup of
        Some p \<Rightarrow>
          bind_r (sv_private_pack src (pk_token p) (w_treePackId version)) (\<lambda>treePack.
            readTreeWith N json_of treePack (w_treePackId version) (w_treeHash version)
              (privateUnwrap N (pk_sealSecret p) (sv_lunaId src) (pk_scope p))
              (openPrivateTreeBytes N (pk_sealSecret p) (sv_lunaId src) (pk_scope p)))
      | None \<Rightarrow>
          bind_r (sv_getPack src (w_treePackId version)) (\<lambda>treePack.
            (case u_keys backup (opt_text (w_keyVersion version)) of
               None \<Rightarrow> Inl LibError
             | Some (key, _) \<Rightarrow> readTree N json_of treePack (w_treePackId version) (w_treeHash version) key)))"

section \<open>Groups keep everything\<close>

lemma group_add_keys: "fst ` set (group_add k v gs) = insert k (fst ` set gs)"
  by (induction k v gs rule: group_add.induct) (simp_all add: insert_commute)

lemma group_add_distinct: "distinct (map fst gs) \<Longrightarrow> distinct (map fst (group_add k v gs))"
proof (induction gs)
  case (Cons g gs)
  have "set (map fst (group_add k v gs)) = insert k (set (map fst gs))" using group_add_keys [of k v gs] by simp
  then show ?case using Cons by (cases g) auto
qed simp

lemma group_add_mem: "(p, xs) \<in> set (group_add k v gs) \<Longrightarrow> x \<in> set xs \<Longrightarrow> (p = k \<and> x = v) \<or> (\<exists>ys. (p, ys) \<in> set gs \<and> x \<in> set ys)"
proof (induction k v gs rule: group_add.induct)
  case (2 k v k' vs gs)
  then show ?case by (cases "k' = k") auto
qed auto

lemma group_add_nonempty: "list_all (\<lambda>g. snd g \<noteq> []) gs \<Longrightarrow> list_all (\<lambda>g. snd g \<noteq> []) (group_add k v gs)"
  by (induction k v gs rule: group_add.induct) simp_all

lemma group_add_mset: "mset (concat (map snd (group_add k v gs))) = add_mset v (mset (concat (map snd gs)))"
  by (induction gs) auto

definition grouped :: "('a \<Rightarrow> 'k) \<Rightarrow> ('a \<Rightarrow> 'v) \<Rightarrow> 'a list \<Rightarrow> ('k \<times> 'v list) list" where
  "grouped key val xs = foldl (\<lambda>gs x. group_add (key x) (val x) gs) [] xs"

lemma grouped_snoc: "grouped key val (xs @ [x]) = group_add (key x) (val x) (grouped key val xs)"
  by (simp add: grouped_def)

lemma grouped_facts:
  shows "distinct (map fst (grouped key val xs))" "fst ` set (grouped key val xs) = key ` set xs" "list_all (\<lambda>g. snd g \<noteq> []) (grouped key val xs)"
    "mset (concat (map snd (grouped key val xs))) = mset (map val xs)"
proof (induction xs rule: rev_induct)
  case Nil
  { case 1 then show ?case by (simp add: grouped_def) }
  { case 2 then show ?case by (simp add: grouped_def) }
  { case 3 then show ?case by (simp add: grouped_def) }
  { case 4 then show ?case by (simp add: grouped_def) }
next
  case (snoc x xs)
  { case 1 then show ?case using snoc(1) by (simp only: grouped_snoc group_add_distinct) }
  { case 2 then show ?case using snoc(2) by (simp add: grouped_snoc group_add_keys) }
  { case 3 then show ?case using snoc(3) by (simp only: grouped_snoc group_add_nonempty) }
  { case 4 then show ?case using snoc(4) by (simp add: grouped_snoc group_add_mset) }
qed

lemma grouped_mem: "(p, vs) \<in> set (grouped key val xs) \<Longrightarrow> v \<in> set vs \<Longrightarrow> \<exists>x\<in>set xs. key x = p \<and> val x = v"
proof (induction xs arbitrary: vs rule: rev_induct)
  case (snoc x xs)
  then show ?case using group_add_mem [of p vs "key x" "val x" "grouped key val xs" v] by (auto simp: grouped_snoc)
qed (simp add: grouped_def)

lemma mset_concat_map: "mset (concat (map h xs)) = sum_mset (image_mset (\<lambda>x. mset (h x)) (mset xs))"
  by (induction xs) simp_all

lemma add_owner_fold:
  shows "distinct (map fst gs) \<Longrightarrow> distinct (map fst (foldl add_owner gs us))"
    and "fst ` set (foldl add_owner gs us) = fst ` set gs \<union> set us"
    and "concat (map snd (foldl add_owner gs us)) = concat (map snd gs)"
  by (induction us arbitrary: gs) (auto simp: add_owner_def)

lemma add_owner_mem: "(p, vs) \<in> set (foldl add_owner gs us) \<Longrightarrow> vs \<noteq> [] \<Longrightarrow> (p, vs) \<in> set gs"
proof (induction us arbitrary: gs)
  case (Cons u us)
  then have "(p, vs) \<in> set (add_owner gs u)" by simp
  then show ?case using Cons.prems(2) by (auto simp: add_owner_def split: if_splits)
qed simp

text \<open>
  Grouping by who started a backup loses nothing and mixes nobody. Every backup is in exactly one
  group, that of its starter; every owner of a private scope has a group, with or without backups;
  a group shows the row for own private items exactly when it has a private backup that was opened.
\<close>

theorem starter_groups_partition:
  assumes "groups = groupByStarter compare backups owners"
  shows "mset (concat (map g_backups groups)) = mset backups \<and> distinct (map g_startedBy groups) \<and>
    g_startedBy ` set groups = u_startedBy ` set backups \<union> set owners \<and>
    (\<forall>g\<in>set groups. (\<forall>b\<in>set (g_backups g). u_startedBy b = g_startedBy g) \<and>
       (g_privateRow g = Mine \<longleftrightarrow> (\<exists>b\<in>set (g_backups g). u_private b \<noteq> None)))"
proof -
  let ?g0 = "grouped u_startedBy (\<lambda>b. b) backups"
  let ?gs = "foldl add_owner ?g0 owners"
  have groups: "mset groups = mset (map (starter_row owners) ?gs)" by (simp add: assms groupByStarter_def grouped_def)
  then have set: "set groups = starter_row owners ` set ?gs" by (metis set_map set_mset_mset)
  have row: "g_backups (starter_row owners g) = snd g" "g_startedBy (starter_row owners g) = fst g"
      "g_privateRow (starter_row owners g) = Mine \<longleftrightarrow> (\<exists>b\<in>set (snd g). u_private b \<noteq> None)" for g
    by (auto simp: starter_row_def Let_def list_ex_iff)
  have "mset (map g_startedBy groups) = image_mset g_startedBy (mset groups)" by simp
  also have "\<dots> = mset (map fst ?gs)" unfolding groups by (simp add: row image_mset.compositionality comp_def)
  finally have "distinct (map g_startedBy groups) = distinct (map fst ?gs)" by (rule mset_eq_imp_distinct_iff)
  moreover have "mset (concat (map g_backups groups)) = mset (concat (map snd ?gs))"
    unfolding mset_concat_map groups by (simp add: row image_mset.compositionality comp_def)
  moreover have "u_startedBy b = g_startedBy g" if gb: "g \<in> set groups" "b \<in> set (g_backups g)" for g b
  proof -
    obtain q where q: "q \<in> set ?gs" "g = starter_row owners q" using gb(1) unfolding set by (rule imageE)
    have b: "b \<in> set (snd q)" using gb(2) unfolding q(2) row .
    then have ne: "snd q \<noteq> []" by (metis emptyE empty_set)
    have "(fst q, snd q) \<in> set ?gs" using q(1) unfolding prod.collapse .
    from grouped_mem [OF add_owner_mem [OF this ne] b] obtain x where "u_startedBy x = fst q" "x = b" by blast
    then show ?thesis unfolding q(2) row by simp
  qed
  ultimately show ?thesis
    using add_owner_fold(1) [of ?g0 owners] grouped_facts [of u_startedBy "\<lambda>b. b" backups] set
    by (auto simp: add_owner_fold(2,3) row image_image)
qed

definition demo_unlocked :: "jstring \<Rightarrow> jstring \<Rightarrow> unlocked" where
  "demo_unlocked by name = \<lparr>u_protectionId = [], u_name = name, u_sourcePath = [], u_startedBy = by, u_startedByName = by,
     u_versions = [\<lparr>w_snapshotId = [], w_createdAt = Some (JNum (Fin 1)), w_keyVersion = None, w_treePackId = [], w_treeHash = [], w_meta = []\<rparr>],
     u_keys = Map.empty, u_private = None\<rparr>"

theorem starter_groups_partition_witness:
  "\<exists>groups. groups = groupByStarter (\<lambda>_ _. 0) [demo_unlocked (lit ''a'') (lit ''x''), demo_unlocked (lit ''b'') (lit ''y'')] [lit ''c''] \<and>
     g_startedBy ` set groups = {lit ''a'', lit ''b'', lit ''c''}"
  using starter_groups_partition [OF refl, of "\<lambda>_ _. 0" "[demo_unlocked (lit ''a'') (lit ''x''), demo_unlocked (lit ''b'') (lit ''y'')]" "[lit ''c'']"]
  by (auto simp: demo_unlocked_def)

section \<open>Every version of a shared backup has its key\<close>

lemma digit_not_colon: "list_all js_digit s \<Longrightarrow> 58 \<notin> set s"
  by (auto simp: list_all_iff js_digit_def)

lemma set_take_drop: "58 \<notin> set s \<Longrightarrow> 58 \<notin> set (take n s) \<and> 58 \<notin> set (drop n s)"
  by (meson in_set_dropD in_set_takeD)

lemma num_text_no_colon: "58 \<notin> set (num_text v)"
proof -
  have n: "58 \<notin> set (num_str n)" for n using num_str_digits digit_not_colon by blast
  then have "58 \<notin> set (point_text (num_str n) k e)" for n k e using set_take_drop [OF n] by (auto simp: point_text_def lit_def)
  then have "58 \<notin> set (positive_text q)" for q using n by (auto simp: positive_text_def Let_def case_prod_beta)
  then show ?thesis by (auto simp: num_text_def lit_def split: jnum.split)
qed

lemma uuid_no_colon: "is_uuid p \<Longrightarrow> 58 \<notin> set p"
proof -
  assume u: "is_uuid p"
  then have "58 \<notin> set x" if "x \<in> set (split_on dash p)" for x
    using that by (auto simp: is_uuid_def is_hex_def list_all_iff split: list.splits)
  moreover have "(\<And>x. x \<in> set xs \<Longrightarrow> 58 \<notin> set x) \<Longrightarrow> 58 \<notin> set (join [dash] xs)" for xs
    by (induction xs rule: induct_list012) auto
  ultimately have "58 \<notin> set (join [dash] (split_on dash p))" by blast
  then show ?thesis by (simp add: join_split_on)
qed

lemma parsed_no_colon: "parseRecipientsName name = Some (p, v) \<Longrightarrow> 58 \<notin> set p"
  by (auto simp: parseRecipientsName_def uuid_no_colon split: list.splits if_splits)

lemma key_label_eq:
  assumes "58 \<notin> set p" "58 \<notin> set t"
  shows "key_label p t = key_label q u \<longleftrightarrow> p = q \<and> t = u"
proof
  assume eq: "key_label p t = key_label q u"
  have "58 \<notin> set q"
  proof
    assume "58 \<in> set q"
    then have "2 \<le> count_list (key_label q u) 58" by (auto simp: key_label_def count_list_append in_set_conv_decomp)
    moreover have "count_list (key_label p t) 58 = 1" using assms by (simp add: key_label_def count_list_append count_list_0_iff)
    ultimately show False using eq by simp
  qed
  then show "p = q \<and> t = u" using eq assms by (auto simp: key_label_def append_eq_append_conv2 Cons_eq_append_conv append_eq_Cons_conv)
qed simp

lemma map_of_label:
  assumes "\<And>k. k \<in> set ks \<Longrightarrow> f k = y \<longleftrightarrow> P k \<and> g k = z"
  shows "map_of (map (\<lambda>k. (f k, h k)) ks) y = map_of (map (\<lambda>k. (g k, h k)) (filter P ks)) z"
  using assms
proof (induction ks)
  case (Cons k ks)
  then have "f k = y \<longleftrightarrow> P k \<and> g k = z" "map_of (map (\<lambda>k. (f k, h k)) ks) y = map_of (map (\<lambda>k. (g k, h k)) (filter P ks)) z" by simp_all
  then show ?case by auto
qed simp

lemma keyFor_keysByVersion:
  assumes "\<And>k. k \<in> set keys \<Longrightarrow> 58 \<notin> set (f_protectionId k)"
  shows "keyFor keys (key_label p t) = keysByVersion keys p t"
proof -
  have "key_label (f_protectionId k) (num_text (f_version k)) = key_label p t \<longleftrightarrow> f_protectionId k = p \<and> num_text (f_version k) = t"
    if "k \<in> set (rev keys)" for k
    using key_label_eq assms that num_text_no_colon by simp
  from map_of_label [where f = "\<lambda>k. key_label (f_protectionId k) (num_text (f_version k))" and P = "\<lambda>k. f_protectionId k = p"
      and g = "\<lambda>k. num_text (f_version k)" and h = "\<lambda>k. (f_key k, f_dedupKey k)" and ks = "rev keys" and y = "key_label p t" and z = t, OF this]
  show ?thesis by (simp add: keyFor_def keysByVersion_def rev_map rev_filter)
qed

lemma shared_backup_version:
  assumes "b \<in> set (shared_backups N json_of lunaId mine rl snapshots)" "w \<in> set (u_versions b)"
  obtains r m where "readable_version N json_of lunaId mine r = Some (u_protectionId b, w, m)" "u_keys b = keysByVersion (mk_keys mine) (u_protectionId b)"
proof -
  let ?xs = "List.map_filter (readable_version N json_of lunaId mine) snapshots"
  have "foldl (\<lambda>gs (p, w, m). group_add p (w, m) gs) [] ?xs = grouped fst snd ?xs"
    unfolding grouped_def by (rule arg_cong [where f = "\<lambda>f. foldl f [] ?xs"]) (auto simp: fun_eq_iff)
  then obtain g where g: "g \<in> set (grouped fst snd ?xs)" "shared_backup (mk_keys mine) g = Some b"
    using assms(1) by (auto simp: shared_backups_def List.map_filter_def Let_def split: if_splits)
  then have b: "u_protectionId b = fst g" "u_keys b = keysByVersion (mk_keys mine) (fst g)"
      "u_versions b = sort_by (\<lambda>a b. newer_first (w_createdAt a) (w_createdAt b)) (map fst (snd g))"
    by (auto simp: shared_backup_def Let_def)
  obtain m where "(w, m) \<in> set (snd g)" using assms(2) by (auto simp: b(3))
  then have "\<exists>x\<in>set ?xs. fst x = fst g \<and> snd x = (w, m)" using g(1) grouped_mem [of "fst g" "snd g" fst snd ?xs] by simp
  then obtain x where "x \<in> set ?xs" "fst x = fst g" "snd x = (w, m)" by blast
  then show thesis using that b by (force simp: List.map_filter_def)
qed

lemma private_backups_marked: "unlockPrivate N json_of src entropy lunaId i ss pubs = Inr bs \<Longrightarrow> list_all (\<lambda>b. u_private b \<noteq> None) bs"
proof (induction N json_of src entropy lunaId i ss pubs arbitrary: bs rule: unlockPrivate.induct)
  case (2 N json_of src entropy lunaId i s ss pubs)
  then obtain as cs where "openPrivateScope N json_of src entropy lunaId i s pubs = Inr as" "bs = as @ cs"
      "unlockPrivate N json_of src entropy lunaId (Suc i) ss pubs = Inr cs"
    by (auto simp: result_iffs)
  moreover from this(1) have "list_all (\<lambda>b. u_private b \<noteq> None) as"
    by (auto simp: openPrivateScope_def result_iffs Let_def list_all_iff private_backup_def)
  ultimately show ?case using 2 by auto
qed simp

lemma unlocked_shared:
  assumes "unlockBackups N json_of stringify toLowerCase compare src typed rl = Inr (ids, backups, owners)" "b \<in> set backups" "u_private b = None"
  obtains mine self recipients keys snapshots pscopes entropy where
    "phraseToEntropy N toLowerCase typed = Inr entropy" "sv_records src = Inr (self, recipients, keys, snapshots, pscopes)"
    "findMyKeys N json_of stringify (sv_lunaId src) entropy self recipients keys pscopes None = Inr mine"
    "b \<in> set (shared_backups N json_of (sv_lunaId src) mine rl snapshots)"
    "\<And>p t. keyFor (mk_keys mine) (key_label p t) = keysByVersion (mk_keys mine) p t"
proof -
  obtain entropy self recipients keys snapshots pscopes mine priv where
    e: "phraseToEntropy N toLowerCase typed = Inr entropy" "sv_records src = Inr (self, recipients, keys, snapshots, pscopes)" and
    u: "findMyKeys N json_of stringify (sv_lunaId src) entropy self recipients keys pscopes None = Inr mine"
      "unlockPrivate N json_of src entropy (sv_lunaId src) 0 (mk_privateScopes mine) (mk_signingPublics mine) = Inr priv"
      "set backups = set (shared_backups N json_of (sv_lunaId src) mine rl snapshots) \<union> set priv"
    using assms(1) by (auto simp: unlockBackups_def result_iffs Let_def case_prod_beta split: if_splits)
  have "b \<in> set (shared_backups N json_of (sv_lunaId src) mine rl snapshots)"
    using assms(2,3) u(3) private_backups_marked [OF u(2)] by (auto simp: list_all_iff)
  moreover have "58 \<notin> set (f_protectionId k)" if kk: "k \<in> set (mk_keys mine)" for k
  proof -
    obtain ks where "keys_ok N json_of stringify ks (sv_lunaId src) (mk_signingPublics mine) recipients keys (mk_latestVersion mine, mk_keys mine, mk_userIds mine)"
      using found_keys_ok [OF u(1)] by blast
    then have "\<exists>name. parseRecipientsName name = Some (f_protectionId k, f_version k)" using kk by (auto simp: keys_ok_def signed_key_def)
    then show ?thesis using parsed_no_colon by blast
  qed
  ultimately show thesis using that e u(1) keyFor_keysByVersion by blast
qed

text \<open>
  Property C12: every version of a shared backup that was unlocked can be opened: the backup holds the key of that
  version, the details of the version decrypt with it, and loading its file list asks for the
  tree pack and reads it with that key.
\<close>

theorem unlocked_version_opens:
  assumes "unlockBackups N json_of stringify toLowerCase compare src typed requireLatest = Inr (ids, backups, owners)"
    and "b \<in> set backups" "u_private b = None" "w \<in> set (u_versions b)"
  shows "\<exists>key dedup meta. u_keys b (opt_text (w_keyVersion w)) = Some (key, dedup) \<and> decryptMeta N json_of (w_meta w) key = Inr meta \<and>
    loadTree N json_of src b w =
      bind_r (sv_getPack src (w_treePackId w)) (\<lambda>tree. readTree N json_of tree (w_treePackId w) (w_treeHash w) key)"
proof -
  obtain mine snapshots where m: "b \<in> set (shared_backups N json_of (sv_lunaId src) mine requireLatest snapshots)"
      "\<And>p t. keyFor (mk_keys mine) (key_label p t) = keysByVersion (mk_keys mine) p t"
    using unlocked_shared [OF assms(1-3)] by metis
  obtain r m where r: "readable_version N json_of (sv_lunaId src) mine r = Some (u_protectionId b, w, m)"
      "u_keys b = keysByVersion (mk_keys mine) (u_protectionId b)"
    using shared_backup_version [OF m(1) assms(4)] by blast
  then obtain key dedup where "keyFor (mk_keys mine) (key_label (u_protectionId b) (opt_text (w_keyVersion w))) = Some (key, dedup)"
      "decryptMeta N json_of (w_meta w) key = Inr m"
    by (auto simp: readable_version_def split: option.splits sum.splits)
  then show ?thesis using m(2) r(2) assms(3) by (auto simp: loadTree_def)
qed

text \<open>
  Through a share link (\<open>requireLatest\<close>) a shared backup is shown only when the phrase opens the newest
  key version that a signed list of readers has for it.
\<close>

theorem share_link_holds_latest:
  assumes "unlockBackups N json_of stringify toLowerCase compare src typed True = Inr (ids, backups, owners)"
    and "b \<in> set backups" "u_private b = None"
  shows "\<exists>entropy self recipients keys snapshots pscopes mine latest.
    phraseToEntropy N toLowerCase typed = Inr entropy \<and> sv_records src = Inr (self, recipients, keys, snapshots, pscopes) \<and>
    findMyKeys N json_of stringify (sv_lunaId src) entropy self recipients keys pscopes None = Inr mine \<and>
    mk_latestVersion mine (u_protectionId b) = Some latest \<and> u_keys b (num_text latest) \<noteq> None"
proof -
  obtain mine self recipients keys snapshots pscopes entropy where e:
      "phraseToEntropy N toLowerCase typed = Inr entropy" "sv_records src = Inr (self, recipients, keys, snapshots, pscopes)" and m:
      "findMyKeys N json_of stringify (sv_lunaId src) entropy self recipients keys pscopes None = Inr mine"
      "b \<in> set (shared_backups N json_of (sv_lunaId src) mine True snapshots)"
      "\<And>p t. keyFor (mk_keys mine) (key_label p t) = keysByVersion (mk_keys mine) p t"
    using unlocked_shared [OF assms] by metis
  have "holds_latest mine b" "u_keys b = keysByVersion (mk_keys mine) (u_protectionId b)"
    using m(2) by (auto simp: shared_backups_def List.map_filter_def Let_def shared_backup_def)
  then obtain latest where "mk_latestVersion mine (u_protectionId b) = Some latest" "u_keys b (num_text latest) \<noteq> None"
    using m(3) by (auto simp: holds_latest_def split: option.splits)
  then show ?thesis using e m(1) by blast
qed


section \<open>Every readable snapshot is shown\<close>

lemma shared_backup_total:
  assumes "snd g \<noteq> []"
  obtains b where "shared_backup keys g = Some b" "u_protectionId b = fst g" "set (u_versions b) = fst ` set (snd g)" "u_private b = None"
proof -
  let ?vs = "sort_by (\<lambda>a b. newer_first (w_createdAt a) (w_createdAt b)) (map fst (snd g))"
  have "?vs \<noteq> []" using assms by (metis length_0_conv length_map length_sort_by)
  then have "hd ?vs \<in> set ?vs" by (rule hd_in_set)
  then obtain m where "(hd ?vs, m) \<in> set (snd g)" by auto
  then have "w_snapshotId (hd ?vs) \<in> fst ` set (rev (map (\<lambda>(w, m). (w_snapshotId w, m)) (snd g)))" by force
  then have "map_of (rev (map (\<lambda>(w, m). (w_snapshotId w, m)) (snd g))) (w_snapshotId (hd ?vs)) \<noteq> None"
    unfolding map_of_eq_None_iff by blast
  then show thesis using that by (fastforce simp: shared_backup_def Let_def)
qed

lemma grouped_has:
  assumes "x \<in> set xs"
  shows "\<exists>vs. (key x, vs) \<in> set (grouped key val xs) \<and> val x \<in> set vs"
  using assms
proof (induction xs rule: rev_induct)
  case (snoc y ys)
  have add: "\<exists>vs. (k, vs) \<in> set (group_add k v gs) \<and> v \<in> set vs" for k v gs by (induction k v gs rule: group_add.induct) auto
  have keep: "\<exists>vs. (p, vs) \<in> set (group_add k v gs) \<and> a \<in> set vs" if "(p, us) \<in> set gs" "a \<in> set us" for p us a k v gs
    using that by (induction k v gs rule: group_add.induct) fastforce+
  show ?case using snoc add keep unfolding grouped_snoc by (metis in_set_conv_decomp insertE list.simps(15) rotate1.simps(2) set_rotate1)
qed simp

lemma readable_shown:
  assumes "phraseToEntropy N toLowerCase typed = Inr entropy" "sv_records src = Inr (self, recipients, keys, snapshots, pscopes)"
    and "findMyKeys N json_of stringify (sv_lunaId src) entropy self recipients keys pscopes None = Inr mine"
    and "unlockPrivate N json_of src entropy (sv_lunaId src) 0 (mk_privateScopes mine) (mk_signingPublics mine) = Inr priv"
    and "r \<in> set snapshots" "readable_version N json_of (sv_lunaId src) mine r = Some (p, w, m)"
    and "requireLatest \<Longrightarrow> \<exists>latest. mk_latestVersion mine p = Some latest \<and> keyFor (mk_keys mine) (key_label p (num_text latest)) \<noteq> None"
  shows "\<exists>backups owners b. unlockBackups N json_of stringify toLowerCase compare src typed requireLatest = Inr (mk_userIds mine, backups, owners) \<and>
    b \<in> set backups \<and> u_private b = None \<and> u_protectionId b = p \<and> w \<in> set (u_versions b)"
proof -
  let ?xs = "List.map_filter (readable_version N json_of (sv_lunaId src) mine) snapshots"
  let ?shared = "shared_backups N json_of (sv_lunaId src) mine requireLatest snapshots"
  have "(p, w, m) \<in> set ?xs" using assms(5,6) by (force simp: List.map_filter_def)
  from grouped_has [OF this, of fst snd] obtain g where g: "g \<in> set (grouped fst snd ?xs)" "fst g = p" "(w, m) \<in> set (snd g)" by auto
  then have "snd g \<noteq> []" by auto
  then obtain b where b: "shared_backup (mk_keys mine) g = Some b" "u_protectionId b = fst g" "set (u_versions b) = fst ` set (snd g)" "u_private b = None"
    by (rule shared_backup_total)
  have "foldl (\<lambda>gs (p, w, m). group_add p (w, m) gs) [] ?xs = grouped fst snd ?xs"
    unfolding grouped_def by (rule arg_cong [where f = "\<lambda>f. foldl f [] ?xs"]) (auto simp: fun_eq_iff)
  moreover have "requireLatest \<Longrightarrow> holds_latest mine b" using assms(7) b(2) g(2) by (auto simp: holds_latest_def)
  ultimately have "b \<in> set ?shared" using g(1) b(1) by (force simp: shared_backups_def List.map_filter_def Let_def)
  moreover from this have "?shared \<noteq> []" by auto
  moreover have "w \<in> set (u_versions b)" using b(3) g(3) by force
  ultimately show ?thesis using assms(1-4) b(2,4) g(2) by (auto simp: unlockBackups_def Let_def)
qed

text \<open>
  Property C11: nothing readable is hidden. A snapshot whose signature verifies and whose details open with a key the
  phrase found is among the versions of its backup in what unlocking returns, whatever else the storage
  holds, unless the private scopes of the phrase fail to open. Where the newest key is required, as for a
  share link, that holds of the backups of whose newest version the phrase holds the key.
\<close>

theorem readable_snapshot_shown:
  assumes "phraseToEntropy N toLowerCase typed = Inr entropy" "sv_records src = Inr (self, recipients, keys, snapshots, pscopes)"
    and "findMyKeys N json_of stringify (sv_lunaId src) entropy self recipients keys pscopes None = Inr mine"
    and "unlockPrivate N json_of src entropy (sv_lunaId src) 0 (mk_privateScopes mine) (mk_signingPublics mine) = Inr priv"
    and "r \<in> set snapshots" "readable_version N json_of (sv_lunaId src) mine r = Some (p, w, m)"
    and "requireLatest \<Longrightarrow> \<exists>latest. mk_latestVersion mine p = Some latest \<and> keyFor (mk_keys mine) (key_label p (num_text latest)) \<noteq> None"
  shows "\<exists>backups owners b. unlockBackups N json_of stringify toLowerCase compare src typed requireLatest = Inr (mk_userIds mine, backups, owners) \<and>
    b \<in> set backups \<and> u_private b = None \<and> u_protectionId b = p \<and> w \<in> set (u_versions b)"
  by (rule readable_shown; fact assms)

section \<open>An example that is unlocked\<close>

lemma demo_typed: "phraseToEntropy demo_noble lower (join [32] (replicate 12 (lit ''b''))) = Inr (replicate 12 1 @ replicate 4 0)"
  unfolding phraseToEntropy_def Let_def demo_bip39 by code_simp

lemma single_list_keys:
  assumes "findMyKeys N json_of stringify lunaId entropy self [r] keys [] None = Inr mine" "f \<in> set (mk_keys mine)"
  shows "mk_keys mine = [f]" "mk_privateScopes mine = []"
    "f_version f = Fin 1 \<Longrightarrow> mk_latestVersion mine (f_protectionId f) = Some (Fin 1)"
proof -
  let ?one = "\<lambda>st :: (jstring \<rightharpoonup> jnum) \<times> found_key list \<times> jstring list.
    \<forall>f\<in>set (fst (snd st)). f_version f = Fin 1 \<longrightarrow> fst st (f_protectionId f) = Some (Fin 1)"
  have "?one (recipients_step N json_of stringify secret pubs lunaId kb (Map.empty, [], []) r)" for secret pubs kb
    by (auto simp: recipients_step_def max_version_def Let_def dest!: open_for_Some split: option.split)
  then show "f_version f = Fin 1 \<Longrightarrow> mk_latestVersion mine (f_protectionId f) = Some (Fin 1)"
    using assms by (auto simp: findMyKeys_def result_iffs case_prod_beta split: if_splits)
  have "length (fst (snd (recipients_step N json_of stringify secret pubs lunaId kb (Map.empty, [], []) r))) \<le> 1" for secret pubs kb
    by (auto simp: recipients_step_def Let_def split: option.split)
  then have "length (mk_keys mine) \<le> 1" "mk_privateScopes mine = []"
    using assms(1) by (auto simp: findMyKeys_def findMyPrivateScopes_def result_iffs case_prod_beta List.map_filter_def split: if_splits)
  then show "mk_keys mine = [f]" "mk_privateScopes mine = []" using assms(2) by (cases "mk_keys mine"; auto)+
qed

definition demo_fields :: "jstring \<Rightarrow> bytes \<Rightarrow> jobject" where
  "demo_fields p meta = obj_set (lit ''protection_id'') (JStr p) (obj_set (lit ''meta'') (JStr (map ucast meta)) (demo_record 1))"

lemma demo_fields_view:
  "snapshot_view demo_noble (JObj (demo_fields p meta)) (lit ''l'') = Some ((demo_view 1)\<lparr>s_protectionId := p, s_meta := meta\<rparr>)"
proof -
  have h: "hexToBytes demo_noble (replicate 32 7) = Some (replicate 32 7)" "hexToBytes demo_noble (replicate 32 1) = Some (replicate 32 1)"
    by (simp_all add: demo_hex list_all_iff)
  show ?thesis
    by (simp add: snapshot_view_def demo_fields_def demo_record_def demo_view_def hex_prop_def text_prop_def get_prop_def lit_def pack_lens demo_hex(1)
        map_of_obj_set demo_hex_back h)
qed

lemma demo_meta:
  "\<exists>meta. \<forall>json_of. json_of [1] = Some (JObj []) \<longrightarrow> (\<exists>m. decryptMeta demo_noble json_of meta (replicate 32 1) = Inr m)"
proof -
  obtain meta where "encryptWith demo_noble (replicate 32 1) (replicate 24 0) (META_AAD demo_noble) [1] = Inr meta"
    by (simp add: encryptWith_def aeadEncrypt_def demo_noble_def)
  then have "decrypt demo_noble (replicate 32 1) (META_AAD demo_noble) meta = Inr [1]"
    by (rule decrypt_encrypted [OF demo_laws(1,5), rotated 2]) simp_all
  then have "\<exists>m. decryptMeta demo_noble json_of meta (replicate 32 1) = Inr m" if "json_of [1] = Some (JObj [])" for json_of
    using that by (simp add: decryptMeta_def Let_def)
  then show ?thesis by blast
qed

definition demo_source :: "cloud_record list \<Rightarrow> cloud_record list \<Rightarrow> cloud_record list \<Rightarrow> cloud_record list \<Rightarrow> source" where
  "demo_source self recipients keys snapshots =
     \<lparr>sv_lunaId = lit ''l'', sv_records = Inr (self, recipients, keys, snapshots, []), sv_getPack = (\<lambda>_. Inl LibError),
      sv_challenge = (\<lambda>_. Inl (False, LibError)), sv_open = (\<lambda>_ _ _. Inl (False, LibError)),
      sv_private_records = (\<lambda>_. Inl LibError), sv_private_pack = (\<lambda>_ _. Inl LibError)\<rparr>"

lemma demo_readable:
  obtains json_of self recipients keys r mine p w m where
    "findMyKeys demo_noble json_of (\<lambda>_. []) (lit ''l'') (replicate 12 1 @ replicate 4 0) self recipients keys [] None = Inr mine"
    "mk_privateScopes mine = []" "readable_version demo_noble json_of (lit ''l'') mine r = Some (p, w, m)"
    "\<exists>latest. mk_latestVersion mine p = Some latest \<and> keyFor (mk_keys mine) (key_label p (num_text latest)) \<noteq> None"
proof -
  obtain k uj name keys self and f :: found_key where d: "derive demo_noble (replicate 12 1 @ replicate 4 0) (lit ''l'') = Inr k"
      "f_key f = replicate 32 1" "f_version f = Fin 1" "\<forall>json_of. json_of [] = Some uj \<longrightarrow>
        published demo_noble json_of (\<lambda>_. []) (lit ''l'') k (replicate 32 5) self [(name, [])] keys [f_userId f] f"
    by (rule demo_published [of "replicate 12 1 @ replicate 4 0"]) (simp, blast)
  obtain meta where meta: "\<forall>json_of. json_of [1] = Some (JObj []) \<longrightarrow> (\<exists>m. decryptMeta demo_noble json_of meta (replicate 32 1) = Inr m)"
    using demo_meta by blast
  let ?v = "(demo_view 1)\<lparr>s_protectionId := f_protectionId f, s_meta := meta\<rparr>"
  obtain msg where msg: "snapshotSignedBytes demo_noble ?v = Inr msg"
    by (auto simp: snapshotSignedBytes_Inr demo_view_def demo_hex list_all_iff)
  obtain pub sig where sig: "signerPublic demo_noble (replicate 32 5) = Inr pub" "verify demo_noble pub (lit ''snapshot'') msg sig"
    using sign_verify [OF demo_laws(1,2,6), of "replicate 32 5"] by fastforce
  define json_of where "json_of = (\<lambda>b :: bytes. Some (if b = [] then uj else if b = [1] then JObj []
      else JObj [(lit ''record'', JObj (demo_fields (f_protectionId f) meta)), (lit ''signature'', JStr (map ucast sig))]))"
  have j: "json_of [] = Some uj" "json_of [1] = Some (JObj [])"
      "json_of [2] = Some (JObj [(lit ''record'', JObj (demo_fields (f_protectionId f) meta)), (lit ''signature'', JStr (map ucast sig))])"
    by (simp_all add: json_of_def)
  have pb: "published demo_noble json_of (\<lambda>_. []) (lit ''l'') k (replicate 32 5) self [(name, [])] keys [f_userId f] f" using d(4) j(1) by blast
  have "\<exists>r. findMyKeys demo_noble json_of (\<lambda>_. []) (lit ''l'') (replicate 12 1 @ replicate 4 0) self [(name, [])] keys [] None = Inr r \<and>
      f \<in> set (mk_keys r) \<and> signerPublic demo_noble (replicate 32 5) \<in> Inr ` set (mk_signingPublics r)"
    by (rule published_found [OF demo_seal_laws demo_laws(6) demo_format_laws(2) _ d(1) pb]) simp_all
  then obtain mine where mine: "findMyKeys demo_noble json_of (\<lambda>_. []) (lit ''l'') (replicate 12 1 @ replicate 4 0) self [(name, [])] keys [] None = Inr mine"
      "f \<in> set (mk_keys mine)" "pub \<in> set (mk_signingPublics mine)"
    unfolding sig(1) by blast
  have "lit ''signature'' \<noteq> lit ''record''" by (simp add: lit_def)
  then have "verifySnapshot demo_noble json_of [2] (mk_signingPublics mine) (lit ''l'') (lit ''snapshot'') = Some ?v"
    using demo_fields_view msg sig(2) mine(3)
    by (auto simp: verifySnapshot_Some j(3) get_prop_def hex_prop_def text_prop_def demo_hex_back list_ex_iff)
  moreover obtain m where "decryptMeta demo_noble json_of meta (replicate 32 1) = Inr m" using meta j(2) by blast
  ultimately obtain w m where "readable_version demo_noble json_of (lit ''l'') mine ([], [2]) = Some (f_protectionId f, w, m)"
    using d(2,3) by (auto simp: readable_version_def keyFor_def single_list_keys(1) [OF mine(1,2)] demo_view_def opt_text_def)
  moreover have "mk_latestVersion mine (f_protectionId f) = Some (Fin 1)"
      "keyFor (mk_keys mine) (key_label (f_protectionId f) (num_text (Fin 1))) \<noteq> None"
    using single_list_keys(3) [OF mine(1,2) d(3)] d(3) by (simp_all add: keyFor_def single_list_keys(1) [OF mine(1,2)])
  ultimately show thesis using that [OF mine(1) single_list_keys(2) [OF mine(1,2)]] by blast
qed

lemma demo_unlock:
  obtains json_of src ids backups owners b w where "unlockBackups demo_noble json_of (\<lambda>_. []) lower (\<lambda>_ _. 0) src
      (join [32] (replicate 12 (lit ''b''))) True = Inr (ids, backups, owners)" "b \<in> set backups" "u_private b = None" "w \<in> set (u_versions b)"
proof -
  obtain json_of self recipients keys r mine p w m where d:
    "findMyKeys demo_noble json_of (\<lambda>_. []) (lit ''l'') (replicate 12 1 @ replicate 4 0) self recipients keys [] None = Inr mine"
    "mk_privateScopes mine = []" "readable_version demo_noble json_of (lit ''l'') mine r = Some (p, w, m)"
    "\<exists>latest. mk_latestVersion mine p = Some latest \<and> keyFor (mk_keys mine) (key_label p (num_text latest)) \<noteq> None"
    by (rule demo_readable)
  have "\<exists>backups owners b. unlockBackups demo_noble json_of (\<lambda>_. []) lower (\<lambda>_ _. 0) (demo_source self recipients keys [r])
      (join [32] (replicate 12 (lit ''b''))) True = Inr (mk_userIds mine, backups, owners) \<and>
      b \<in> set backups \<and> u_private b = None \<and> u_protectionId b = p \<and> w \<in> set (u_versions b)"
    by (rule readable_shown [where r = r and snapshots = "[r]", OF demo_typed]) (use d in \<open>simp_all add: demo_source_def\<close>)
  then show thesis using that by blast
qed

theorem readable_snapshot_shown_witness:
  "\<exists>json_of src ids backups owners b. unlockBackups demo_noble json_of (\<lambda>_. []) lower (\<lambda>_ _. 0) src (join [32] (replicate 12 (lit ''b''))) True =
     Inr (ids, backups, owners) \<and> b \<in> set backups \<and> u_private b = None \<and> u_versions b \<noteq> []"
proof -
  obtain json_of self recipients keys r mine p w m where d:
    "findMyKeys demo_noble json_of (\<lambda>_. []) (lit ''l'') (replicate 12 1 @ replicate 4 0) self recipients keys [] None = Inr mine"
    "mk_privateScopes mine = []" "readable_version demo_noble json_of (lit ''l'') mine r = Some (p, w, m)"
    "\<exists>latest. mk_latestVersion mine p = Some latest \<and> keyFor (mk_keys mine) (key_label p (num_text latest)) \<noteq> None"
    by (rule demo_readable)
  have "\<exists>backups owners b. unlockBackups demo_noble json_of (\<lambda>_. []) lower (\<lambda>_ _. 0) (demo_source self recipients keys [r])
      (join [32] (replicate 12 (lit ''b''))) True = Inr (mk_userIds mine, backups, owners) \<and>
      b \<in> set backups \<and> u_private b = None \<and> u_protectionId b = p \<and> w \<in> set (u_versions b)"
    by (rule readable_snapshot_shown [where r = r and snapshots = "[r]", OF demo_typed]) (use d in \<open>simp_all add: demo_source_def\<close>)
  then show ?thesis by (metis empty_iff list.set(1))
qed

theorem unlocked_version_opens_witness:
  "\<exists>json_of src ids backups owners b w key dedup. unlockBackups demo_noble json_of (\<lambda>_. []) lower (\<lambda>_ _. 0) src
     (join [32] (replicate 12 (lit ''b''))) True = Inr (ids, backups, owners) \<and> b \<in> set backups \<and> w \<in> set (u_versions b) \<and>
     u_keys b (opt_text (w_keyVersion w)) = Some (key, dedup)"
proof -
  obtain json_of src ids backups owners b w where d: "unlockBackups demo_noble json_of (\<lambda>_. []) lower (\<lambda>_ _. 0) src
      (join [32] (replicate 12 (lit ''b''))) True = Inr (ids, backups, owners)" "b \<in> set backups" "u_private b = None" "w \<in> set (u_versions b)"
    by (rule demo_unlock)
  from unlocked_version_opens [OF d] d show ?thesis by blast
qed

end
