(* ===== verification/Base64.thy ===== *)
theory Base64
  imports Bytes
begin

text \<open>
  \<open>toBase64\<close> and \<open>fromBase64\<close> of \<open>luna/web/src/lib/cloudPhrase.js\<close> over the browser's \<open>btoa\<close> and \<open>atob\<close>,
  and that what is encoded decodes to the same bytes.
\<close>

section \<open>Base64 (btoa and atob)\<close>

definition BASE64_CHARS :: jstring where
  "BASE64_CHARS = lit ''ABCDEFGHIJKLMNOPQRSTUVWXYZabcdefghijklmnopqrstuvwxyz0123456789+/''"

definition b64_char :: "nat \<Rightarrow> jchar" where
  "b64_char n = BASE64_CHARS ! (n mod 64)"

definition b64_value :: "jchar \<Rightarrow> nat option" where
  "b64_value c = index_of c BASE64_CHARS"

fun btoa_text :: "nat list \<Rightarrow> jstring" where
  "btoa_text [] = []"
| "btoa_text [a] = [b64_char (a div 4), b64_char (a mod 4 * 16), 61, 61]"
| "btoa_text [a, b] = [b64_char (a div 4), b64_char (a mod 4 * 16 + b div 16), b64_char (b mod 16 * 4), 61]"
| "btoa_text (a # b # c # rest) =
     [b64_char (a div 4), b64_char (a mod 4 * 16 + b div 16), b64_char (b mod 16 * 4 + c div 64), b64_char (c mod 64)] @ btoa_text rest"

definition toBase64 :: "bytes \<Rightarrow> jstring" where
  "toBase64 bytes = btoa_text (map unat bytes)"

text \<open>
  The forgiving decoding of the HTML standard: ASCII white space is dropped, then at most two signs
  \<open>=\<close> when the length is a multiple of four; a remainder of one character or a foreign character throws.
\<close>

definition ascii_ws :: "jchar \<Rightarrow> bool" where
  "ascii_ws c \<longleftrightarrow> c \<in> {9, 10, 12, 13, 32}"

definition drop_padding :: "jstring \<Rightarrow> jstring" where
  "drop_padding s =
     (if length s mod 4 \<noteq> 0 then s
      else if ends_with s [61, 61] then take (length s - 2) s
      else if ends_with s [61] then take (length s - 1) s else s)"

fun decode_groups :: "nat list \<Rightarrow> nat list option" where
  "decode_groups [] = Some []"
| "decode_groups [s] = None"
| "decode_groups [s, t] = Some [s * 4 + t div 16]"
| "decode_groups [s, t, u] = Some [s * 4 + t div 16, t mod 16 * 16 + u div 4]"
| "decode_groups (s # t # u # v # rest) =
     map_option (\<lambda>bs. [s * 4 + t div 16, t mod 16 * 16 + u div 4, u mod 4 * 64 + v] @ bs) (decode_groups rest)"

fun all_values :: "('a \<Rightarrow> 'b option) \<Rightarrow> 'a list \<Rightarrow> 'b list option" where
  "all_values f [] = Some []"
| "all_values f (x # xs) = (case f x of None \<Rightarrow> None | Some y \<Rightarrow> map_option (\<lambda>ys. y # ys) (all_values f xs))"

definition atob :: "jstring \<Rightarrow> nat list option" where
  "atob data = Option.bind (all_values b64_value (drop_padding (filter (\<lambda>c. \<not> ascii_ws c) data))) decode_groups"

definition fromBase64 :: "jstring \<Rightarrow> bytes result" where
  "fromBase64 data = of_lib (map_option (map of_nat) (atob data))"

section \<open>Base64 reads back\<close>

lemma BASE64_CHARS_facts: "distinct BASE64_CHARS" "length BASE64_CHARS = 64" "list_all (\<lambda>c. \<not> ascii_ws c \<and> c \<noteq> 61) BASE64_CHARS"
  by code_simp+

lemma index_of_nth: "distinct xs \<Longrightarrow> n < length xs \<Longrightarrow> index_of (xs ! n) xs = Some n"
proof (induction xs arbitrary: n)
  case (Cons x xs)
  then show ?case by (cases n) auto
qed simp

lemma b64_value_char: "b64_value (b64_char n) = Some (n mod 64)"
  unfolding b64_value_def b64_char_def by (rule index_of_nth) (simp_all add: BASE64_CHARS_facts)

lemma b64_char_plain: "\<not> ascii_ws (b64_char n)" "b64_char n \<noteq> 61"
proof -
  have "b64_char n \<in> set BASE64_CHARS" unfolding b64_char_def by (rule nth_mem) (simp add: BASE64_CHARS_facts)
  then show "\<not> ascii_ws (b64_char n)" "b64_char n \<noteq> 61" using BASE64_CHARS_facts(3) by (auto simp: list_all_iff)
qed

text \<open>The characters of an encoding without its padding, and how many padding signs follow.\<close>

fun btoa_body :: "nat list \<Rightarrow> nat list" where
  "btoa_body [] = []"
| "btoa_body [a] = [a div 4, a mod 4 * 16]"
| "btoa_body [a, b] = [a div 4, a mod 4 * 16 + b div 16, b mod 16 * 4]"
| "btoa_body (a # b # c # rest) = [a div 4, a mod 4 * 16 + b div 16, b mod 16 * 4 + c div 64, c mod 64] @ btoa_body rest"

definition padding :: "'a list \<Rightarrow> nat" where
  "padding bs = (3 - length bs mod 3) mod 3"

lemma btoa_parts: "btoa_text bs = map b64_char (btoa_body bs) @ replicate (padding bs) 61"
  by (induction bs rule: btoa_text.induct) (simp_all add: padding_def numeral_2_eq_2)

lemma length_btoa_body: "length (btoa_body bs) + padding bs = 4 * ((length bs + 2) div 3)"
proof (induction bs rule: btoa_text.induct)
  case (4 a b c rest)
  moreover have "(length rest + 3 + 2) div 3 = Suc ((length rest + 2) div 3)" by presburger
  ultimately show ?case by (simp add: padding_def)
qed (simp_all add: padding_def)

lemma sextets:
  fixes a b c :: nat
  shows "a < 256 \<Longrightarrow> a div 4 < 64" "b < 256 \<Longrightarrow> a mod 4 * 16 + b div 16 < 64" "c < 256 \<Longrightarrow> b mod 16 * 4 + c div 64 < 64"
    "a mod 4 * 16 < 64" "b mod 16 * 4 < 64"
proof -
  have m: "a mod 4 < 4" "b mod 16 < 16" by simp_all
  show "a < 256 \<Longrightarrow> a div 4 < 64" by simp
  show "b < 256 \<Longrightarrow> a mod 4 * 16 + b div 16 < 64"
  proof -
    assume "b < 256"
    then have "b div 16 < 16" by simp
    then show ?thesis using m(1) by linarith
  qed
  show "c < 256 \<Longrightarrow> b mod 16 * 4 + c div 64 < 64"
  proof -
    assume "c < 256"
    then have "c div 64 < 4" by simp
    then show ?thesis using m(2) by linarith
  qed
  show "a mod 4 * 16 < 64" "b mod 16 * 4 < 64" using m by linarith+
qed

lemma joined:
  fixes a b c :: nat
  shows "b < 256 \<Longrightarrow> a div 4 * 4 + (a mod 4 * 16 + b div 16) div 16 = a"
    "b < 256 \<Longrightarrow> c < 256 \<Longrightarrow> (a mod 4 * 16 + b div 16) mod 16 * 16 + (b mod 16 * 4 + c div 64) div 4 = b"
    "b < 256 \<Longrightarrow> (a mod 4 * 16 + b div 16) mod 16 * 16 + (b mod 16 * 4) div 4 = b"
    "c < 256 \<Longrightarrow> (b mod 16 * 4 + c div 64) mod 4 * 64 + c mod 64 = c"
    "a div 4 * 4 + (a mod 4 * 16) div 16 = a"
proof -
  have q: "b < 256 \<Longrightarrow> b div 16 < 16" "c < 256 \<Longrightarrow> c div 64 < 4" by simp_all
  show "b < 256 \<Longrightarrow> a div 4 * 4 + (a mod 4 * 16 + b div 16) div 16 = a" using q(1) by (simp add: div_mult_mod_eq)
  show "b < 256 \<Longrightarrow> c < 256 \<Longrightarrow> (a mod 4 * 16 + b div 16) mod 16 * 16 + (b mod 16 * 4 + c div 64) div 4 = b"
    using q by (simp add: mod_mult_self3 div_mult_mod_eq)
  show "b < 256 \<Longrightarrow> (a mod 4 * 16 + b div 16) mod 16 * 16 + (b mod 16 * 4) div 4 = b" using q(1) by (simp add: div_mult_mod_eq)
  show "c < 256 \<Longrightarrow> (b mod 16 * 4 + c div 64) mod 4 * 64 + c mod 64 = c" using q(2) by (simp add: div_mult_mod_eq)
  show "a div 4 * 4 + (a mod 4 * 16) div 16 = a" by simp
qed

lemma decode_btoa_body: "list_all (\<lambda>b. b < 256) bs \<Longrightarrow> decode_groups (map (\<lambda>n. n mod 64) (btoa_body bs)) = Some bs"
  by (induction bs rule: btoa_text.induct) (simp_all only: btoa_body.simps list.map append.simps list.pred_inject decode_groups.simps
      mod_less [OF sextets(1)] mod_less [OF sextets(2)] mod_less [OF sextets(3)] mod_less [OF sextets(4)] mod_less [OF sextets(5)]
      mod_mod_trivial joined option.map)

lemma all_values_map: "(\<And>x. f (g x) = Some (h x)) \<Longrightarrow> all_values f (map g xs) = Some (map h xs)"
  by (induction xs) simp_all

lemma drop_padding_btoa:
  "drop_padding (map b64_char (btoa_body bs) @ replicate (padding bs) 61) = map b64_char (btoa_body bs)"
proof -
  have len: "length (map b64_char (btoa_body bs) @ replicate (padding bs) 61) mod 4 = 0" using length_btoa_body [of bs] by simp
  have "map b64_char (btoa_body bs) = [] \<or> last (map b64_char (btoa_body bs)) \<noteq> 61" using b64_char_plain(2) by (cases "btoa_body bs = []") (auto simp: last_map)
  then have no: "\<not> ends_with (map b64_char (btoa_body bs)) [61]" "\<not> ends_with (map b64_char (btoa_body bs)) [61, 61]"
      "\<not> ends_with (map b64_char (btoa_body bs) @ [61]) [61, 61]"
    by (auto simp: ends_with_iff append_eq_append_conv2 Cons_eq_append_conv append_eq_Cons_conv)
  consider "padding bs = 0" | "padding bs = 1" | "padding bs = 2" unfolding padding_def by linarith
  then show ?thesis
  proof cases
    case 1
    then show ?thesis using len no(1,2) by (simp add: drop_padding_def)
  next
    case 2
    then show ?thesis using len no(3) by (simp add: drop_padding_def ends_with_iff)
  next
    case 3
    then show ?thesis using len by (simp add: drop_padding_def ends_with_iff numeral_2_eq_2)
  qed
qed

lemma atob_btoa:
  assumes "list_all (\<lambda>b. b < 256) bs"
  shows "atob (btoa_text bs) = Some bs"
proof -
  have plain: "\<not> ascii_ws 61" by (simp add: ascii_ws_def)
  have "filter (\<lambda>c. \<not> ascii_ws c) (btoa_text bs) = map b64_char (btoa_body bs) @ replicate (padding bs) 61"
    by (simp add: btoa_parts b64_char_plain(1) plain filter_map comp_def)
  moreover have "all_values b64_value (map b64_char (btoa_body bs)) = Some (map (\<lambda>n. n mod 64) (btoa_body bs))"
    by (rule all_values_map) (rule b64_value_char)
  ultimately show ?thesis using decode_btoa_body [OF assms] by (simp add: atob_def drop_padding_btoa)
qed

lemma fromBase64_toBase64 [simp]: "fromBase64 (toBase64 bs) = Inr bs"
proof -
  have "list_all (\<lambda>b. b < 256) (map unat bs)" by (simp add: list_all_iff unat_byte_less)
  then show ?thesis by (simp add: fromBase64_def toBase64_def atob_btoa comp_def)
qed

end
