(* ===== verification/CloudPhrase.thy ===== *)
theory CloudPhrase
  imports CloudUnlock OpErrors Base64
begin

text \<open>
  The recovery phrase of the web app: \<open>luna/web/src/lib/cloudPhrase.js\<close>, with the file that
  \<open>PhraseWriteDown.jsx\<close> offers for download. The answers of Luna are arguments; the random bytes of
  a call are an argument as well.
\<close>

section \<open>Failed requests and thrown errors\<close>

text \<open>
  A request ends with an answer or throws; \<open>lib\<close> is the error a library or the browser throws,
  which has no status. The laws of \<open>outcome\<close> follow \<open>await\<close>: the first error ends the function.
\<close>

type_synonym 'a outcome = "thrown + 'a"

definition plain_error :: "jstring \<Rightarrow> thrown" where
  "plain_error m = \<lparr>e_api = False, e_abort = False, e_status = None, e_code = None, e_message = m, e_existing_kind = None,
     e_completeOnly = False, e_uploadId = None\<rparr>"

definition lift_r :: "thrown \<Rightarrow> 'a result \<Rightarrow> 'a outcome" where
  "lift_r lib m = (case m of Inr x \<Rightarrow> Inr x | Inl (Thrown t) \<Rightarrow> Inl (plain_error t) | Inl _ \<Rightarrow> Inl lib)"

definition bind_o :: "'a outcome \<Rightarrow> ('a \<Rightarrow> 'b outcome) \<Rightarrow> 'b outcome" where
  "bind_o m f = (case m of Inl e \<Rightarrow> Inl e | Inr x \<Rightarrow> f x)"

lemma outcome_simps [simp]: "bind_o (Inl e) f = Inl e" "bind_o (Inr x) f = f x" "lift_r lib (Inr y) = Inr y"
  by (simp_all add: bind_o_def lift_r_def)

lemma bind_o_Inr_iff: "bind_o m f = Inr y \<longleftrightarrow> (\<exists>x. m = Inr x \<and> f x = Inr y)"
  by (cases m) simp_all

lemma lift_r_Inr_iff: "lift_r lib m = Inr x \<longleftrightarrow> m = Inr x"
  by (auto simp: lift_r_def split: sum.splits jerror.splits)

lemmas outcome_iffs = bind_o_Inr_iff lift_r_Inr_iff

section \<open>Constants and the status\<close>

definition CHECK_DOMAIN :: jstring where "CHECK_DOMAIN = lit ''phrase-check''"
definition REPLACE_DOMAIN :: jstring where "REPLACE_DOMAIN = lit ''phrase-replace''"

definition LOCKED_OUT_MESSAGE :: jstring where
  "LOCKED_OUT_MESSAGE = lit ''Too many wrong tries. Wait a few minutes, then try again.''"

definition RESEAL_CHECK_FAILED :: jstring where
  "RESEAL_CHECK_FAILED = lit ''Your phrase was not changed. Luna could not safely move your private backups to the new phrase. Your old phrase still works.''"

definition json_true :: "json option \<Rightarrow> bool" where
  "json_true v = (case v of None \<Rightarrow> False | Some JNull \<Rightarrow> False | Some (JBool b) \<Rightarrow> b | Some (JNum n) \<Rightarrow> n \<noteq> Fin 0 \<and> n \<noteq> NaN
     | Some (JStr s) \<Rightarrow> s \<noteq> [] | Some _ \<Rightarrow> True)"

text \<open>\<open>Number(v) || 0\<close>, and the properties a spread copies.\<close>

definition number_or_0 :: "json option \<Rightarrow> json" where
  "number_or_0 v = (let n = opt_number v in JNum (if n = NaN then Fin 0 else n))"

definition own_props :: "json \<Rightarrow> jobject" where
  "own_props v = (case v of JObj ps \<Rightarrow> ps | JArr vs \<Rightarrow> map (\<lambda>i. (num_str i, vs ! i)) [0..<length vs] | _ \<Rightarrow> [])"

definition obj_put :: "(jstring \<times> json) list \<Rightarrow> jobject \<Rightarrow> jobject" where
  "obj_put kvs ps = foldl (\<lambda>o' (k, v). obj_set k v o') ps kvs"

definition normalizePhraseStatus :: "json \<Rightarrow> json" where
  "normalizePhraseStatus r =
     (let g = (\<lambda>k. get_prop r (lit k));
          copies = (case g ''old_phrase_copies'' of Some c \<Rightarrow> c | None \<Rightarrow> JNull);
          count = opt_number (get_prop copies (lit ''count''));
          or_null = (\<lambda>v. case v of Some w \<Rightarrow> w | None \<Rightarrow> JNull)
      in JObj (obj_put
           [(lit ''set'', JBool (json_true (g ''set''))),
            (lit ''set_at'', number_or_0 (g ''set_at'')),
            (lit ''check_due'', JBool (json_true (g ''check_due''))),
            (lit ''last_checked_at'', number_or_0 (g ''last_checked_at'')),
            (lit ''phrase_words'', if g ''phrase_words'' \<in> {Some (JNum (Fin 12)), Some (JNum (Fin 24))} then the (g ''phrase_words'') else JNum (Fin 0)),
            (lit ''luna_id'', or_null (g ''luna_id'')),
            (lit ''signing_public'', or_null (g ''signing_public'')),
            (lit ''resealing'', JBool (json_true (g ''resealing''))),
            (lit ''old_phrase_copies'', JObj
               [(lit ''count'', JNum (case count of Fin q \<Rightarrow> if 0 < q then Fin q else Fin 0 | _ \<Rightarrow> Fin 0)),
                (lit ''removed_at'', number_or_0 (get_prop copies (lit ''removed_at'')))])]
           (own_props r)))"

section \<open>Signing a challenge\<close>

text \<open>\<open>challenge\<close> is the answer to \<open>requestChallenge\<close>.\<close>

definition signFreshChallenge :: "noble \<Rightarrow> thrown \<Rightarrow> jstring outcome \<Rightarrow> bytes \<Rightarrow> jstring \<Rightarrow> jstring \<Rightarrow> jstring outcome" where
  "signFreshChallenge N lib challenge entropy lunaId domain =
     bind_o (lift_r lib (derive N entropy lunaId)) (\<lambda>keys.
     bind_o challenge (\<lambda>c.
       lift_r lib (bind_r (fromBase64 c) (\<lambda>msg. bind_r (sign N (authSecret keys) domain msg) (\<lambda>s. Inr (toBase64 s))))))"

fun compareBytes :: "bytes \<Rightarrow> bytes \<Rightarrow> int" where
  "compareBytes (a # as) (b # bs) = (if a \<noteq> b then int (unat a) - int (unat b) else compareBytes as bs)"
| "compareBytes [] bs = - int (length bs)"
| "compareBytes as [] = int (length as)"

definition rescoped_item :: "noble \<Rightarrow> jstring \<times> jstring \<Rightarrow> (bytes \<times> bytes) result" where
  "rescoped_item N e = bind_r (fromBase64 (snd e)) (\<lambda>sealed. Inr (utf8ToBytes N (fst e), sealed))"

definition rescoped_fields :: "(bytes \<times> bytes) list \<Rightarrow> (jstring \<times> bytes) list" where
  "rescoped_fields items = concat (map (\<lambda>(scope, sealed). [(lit ''scope'', scope), (lit ''sealed_scope_secret'', sealed)]) items)"

definition rescopedHash :: "noble \<Rightarrow> (jstring \<times> jstring) list \<Rightarrow> bytes result" where
  "rescopedHash N rescoped =
     bind_r (map_r (rescoped_item N) rescoped) (\<lambda>items.
       Inr (packId N (canonical N (rescoped_fields (sort_by (\<lambda>a b. compareBytes (fst a) (fst b)) items)))))"

record phrase_body =
  pb_seal_public :: jstring
  pb_auth_public :: jstring
  pb_self_sealed :: jstring
  pb_words :: nat

datatype phrase_proof = OldSignature jstring | Password jstring

record replace_body = phrase_body +
  rb_exposed :: bool
  rb_rescoped :: "(jstring \<times> jstring) list option"
  rb_proof :: phrase_proof

definition replaceMessage :: "noble \<Rightarrow> bytes \<Rightarrow> phrase_body \<Rightarrow> bool \<Rightarrow> (jstring \<times> jstring) list option \<Rightarrow> bytes result" where
  "replaceMessage N challenge body exposed rescoped =
     bind_r (fromBase64 (pb_seal_public body)) (\<lambda>sealPublic'.
     bind_r (fromBase64 (pb_auth_public body)) (\<lambda>authPublic'.
     bind_r (fromBase64 (pb_self_sealed body)) (\<lambda>selfSealed.
     bind_r (rescopedHash N (case rescoped of Some r \<Rightarrow> r | None \<Rightarrow> [])) (\<lambda>hash.
       Inr (canonical N
         [(lit ''challenge'', challenge), (lit ''seal_public'', sealPublic'), (lit ''auth_public'', authPublic'),
          (lit ''self_sealed_hash'', packId N selfSealed), (lit ''exposed'', [if exposed then 1 else 0]),
          (lit ''rescoped_hash'', hash)])))))"

definition signReplacement ::
  "noble \<Rightarrow> thrown \<Rightarrow> jstring outcome \<Rightarrow> bytes \<Rightarrow> jstring \<Rightarrow> phrase_body \<Rightarrow> bool \<Rightarrow> (jstring \<times> jstring) list option \<Rightarrow> jstring outcome" where
  "signReplacement N lib challenge entropy lunaId body exposed rescoped =
     bind_o (lift_r lib (derive N entropy lunaId)) (\<lambda>keys.
     bind_o challenge (\<lambda>c.
       lift_r lib (bind_r (fromBase64 c) (\<lambda>ch. bind_r (replaceMessage N ch body exposed rescoped) (\<lambda>msg.
         bind_r (sign N (authSecret keys) REPLACE_DOMAIN msg) (\<lambda>s. Inr (toBase64 s)))))))"

text \<open>\<open>check\<close> is what Luna answers to a signature.\<close>

definition checkPhraseWords ::
  "noble \<Rightarrow> thrown \<Rightarrow> (jstring \<Rightarrow> jstring) \<Rightarrow> jstring outcome \<Rightarrow> (jstring \<Rightarrow> unit outcome) \<Rightarrow> jstring \<Rightarrow> jstring \<Rightarrow> bytes option outcome" where
  "checkPhraseWords N lib toLowerCase challenge check phrase lunaId =
     bind_o (lift_r lib (phraseToEntropy N toLowerCase phrase)) (\<lambda>entropy.
     (case bind_o (signFreshChallenge N lib challenge entropy lunaId CHECK_DOMAIN) check of
        Inr _ \<Rightarrow> Inr (Some entropy)
      | Inl err \<Rightarrow>
          if e_status err = Some 403 then Inr None
          else if e_status err = Some 429 then Inl (plain_error LOCKED_OUT_MESSAGE)
          else Inl (plain_error (apiErrorMessage (Some err) (lit ''Could not check your phrase. Try again.'')))))"

section \<open>Moving private scopes to a new phrase\<close>

definition entry_secret :: "noble \<Rightarrow> bytes \<Rightarrow> jstring \<Rightarrow> json \<Rightarrow> (jstring \<times> bytes) result" where
  "entry_secret N oldSealSecret lunaId entry =
     bind_r (fromBase64 (opt_text (get_prop entry (lit ''sealed_scope_secret'')))) (\<lambda>sealed.
     bind_r (of_lib (text_prop entry (lit ''scope''))) (\<lambda>scope.
     bind_r (openScopeSecret N sealed oldSealSecret lunaId scope) (\<lambda>secret. Inr (scope, secret))))"

text \<open>Luna names a scope by a text. \<open>rnd i\<close> are the random bytes of the \<open>i\<close>-th entry of the list.\<close>

fun reseal_loop ::
  "noble \<Rightarrow> (nat \<Rightarrow> nat \<Rightarrow> nat \<Rightarrow> bytes) \<Rightarrow> bytes \<Rightarrow> jstring \<Rightarrow> bytes \<Rightarrow> bytes \<Rightarrow> nat \<Rightarrow> json list \<Rightarrow> (jstring \<times> jstring) list result" where
  "reseal_loop N rnd oldSealSecret lunaId newSealPublic newSealSecret i [] = Inr []"
| "reseal_loop N rnd oldSealSecret lunaId newSealPublic newSealSecret i (entry # es) =
     (case entry_secret N oldSealSecret lunaId entry of
        Inl _ \<Rightarrow> reseal_loop N rnd oldSealSecret lunaId newSealPublic newSealSecret (Suc i) es
      | Inr (scope, scopeSecret) \<Rightarrow>
          bind_r (sealScopeSecret N (rnd i) scopeSecret newSealPublic lunaId scope) (\<lambda>sealed.
          if openScopeSecret N sealed newSealSecret lunaId scope \<noteq> Inr scopeSecret then Inl (Thrown RESEAL_CHECK_FAILED)
          else bind_r (reseal_loop N rnd oldSealSecret lunaId newSealPublic newSealSecret (Suc i) es) (\<lambda>out.
                 Inr ((scope, toBase64 sealed) # out))))"

definition scopes_unreadable :: thrown where
  "scopes_unreadable = plain_error (lit ''Could not read your private backups. Try again.'')"

definition resealScopes ::
  "noble \<Rightarrow> thrown \<Rightarrow> (nat \<Rightarrow> nat \<Rightarrow> nat \<Rightarrow> bytes) \<Rightarrow> json outcome \<Rightarrow> bytes \<Rightarrow> jstring \<Rightarrow> bytes \<Rightarrow> bytes \<Rightarrow> (jstring \<times> jstring) list outcome" where
  "resealScopes N lib rnd reply oldEntropy lunaId newSealPublic newSealSecret =
     (case reply of
        Inl _ \<Rightarrow> Inl scopes_unreadable
      | Inr r \<Rightarrow>
          (case get_prop r (lit ''scopes'') of
             Some (JArr entries) \<Rightarrow>
               lift_r lib (bind_r (derive N oldEntropy lunaId) (\<lambda>keys.
                 reseal_loop N rnd (sealSecret keys) lunaId newSealPublic newSealSecret 0 entries))
           | _ \<Rightarrow> Inl scopes_unreadable))"

section \<open>Saving a phrase\<close>

definition signing_aad :: "noble \<Rightarrow> jstring \<Rightarrow> jstring \<Rightarrow> bytes" where
  "signing_aad N lunaId userId = canonical N
     [(lit ''luna_id'', utf8ToBytes N lunaId), (lit ''user_id'', utf8ToBytes N userId), (lit ''purpose'', utf8ToBytes N (lit ''signing-public''))]"

text \<open>The signing key is its base64 text (\<^const>\<open>Inl\<close>) or its bytes.\<close>

definition buildPhraseBody :: "noble \<Rightarrow> (nat \<Rightarrow> nat \<Rightarrow> bytes) \<Rightarrow> bytes \<Rightarrow> jstring \<Rightarrow> jstring \<Rightarrow> jstring + bytes \<Rightarrow> phrase_body result" where
  "buildPhraseBody N rnd entropy lunaId userId signingPublic =
     bind_r (case signingPublic of Inl t \<Rightarrow> fromBase64 t | Inr bs \<Rightarrow> Inr bs) (\<lambda>signingBytes.
     if length signingBytes \<noteq> SIG_PUBLIC_LEN then Inl (Thrown (lit ''Luna's signing key is missing. Reload the page and try again.''))
     else bind_r (derive N entropy lunaId) (\<lambda>keys.
       bind_r (encrypt N rnd (selfKey keys) (signing_aad N lunaId userId) signingBytes) (\<lambda>sealed.
         Inr \<lparr>pb_seal_public = toBase64 (sealPublic keys), pb_auth_public = toBase64 (authPublic keys), pb_self_sealed = toBase64 sealed,
              pb_words = (if length entropy = 32 then 24 else 12)\<rparr>)))"

datatype proof_kind = WithOldPhrase bytes | WithPassword jstring

text \<open>\<open>scopes\<close> and \<open>challenge\<close> are the answers of Luna, \<open>rnd0\<close> and \<open>rnd\<close> the random bytes of the calls.\<close>

definition buildReplaceBody ::
  "noble \<Rightarrow> thrown \<Rightarrow> (jstring \<Rightarrow> jstring) \<Rightarrow> (nat \<Rightarrow> nat \<Rightarrow> bytes) \<Rightarrow> (nat \<Rightarrow> nat \<Rightarrow> nat \<Rightarrow> bytes) \<Rightarrow> json outcome \<Rightarrow> jstring outcome \<Rightarrow>
   proof_kind \<Rightarrow> bool \<Rightarrow> jstring \<Rightarrow> jstring \<Rightarrow> jstring \<Rightarrow> jstring \<Rightarrow> replace_body outcome" where
  "buildReplaceBody N lib toLowerCase rnd0 rnd scopes challenge prf exposed newPhrase lunaId userId signingPublic =
     bind_o (lift_r lib (phraseToEntropy N toLowerCase newPhrase)) (\<lambda>newEntropy'.
     bind_o (lift_r lib (buildPhraseBody N rnd0 newEntropy' lunaId userId (Inl signingPublic))) (\<lambda>body.
     (case prf of
        WithOldPhrase oldEntropy \<Rightarrow>
          bind_o (lift_r lib (derive N newEntropy' lunaId)) (\<lambda>newKeys.
          bind_o (resealScopes N lib rnd scopes oldEntropy lunaId (sealPublic newKeys) (sealSecret newKeys)) (\<lambda>rescoped.
          bind_o (signReplacement N lib challenge oldEntropy lunaId body exposed (Some rescoped)) (\<lambda>signature.
            Inr (phrase_body.extend body \<lparr>rb_exposed = exposed, rb_rescoped = Some rescoped, rb_proof = OldSignature signature\<rparr>))))
      | WithPassword password \<Rightarrow>
          Inr (phrase_body.extend body \<lparr>rb_exposed = exposed, rb_rescoped = None, rb_proof = Password password\<rparr>))))"

definition replacePhrase :: "(replace_body \<Rightarrow> 'a outcome) \<Rightarrow> replace_body outcome \<Rightarrow> 'a outcome" where
  "replacePhrase savePhrase body = bind_o body savePhrase"

definition replaceErrorMessage :: "failure \<Rightarrow> bool \<Rightarrow> jstring" where
  "replaceErrorMessage err password =
     (if Option.bind err e_status = Some 429 then LOCKED_OUT_MESSAGE
      else if Option.bind err e_status = Some 403 then
        (if password then lit ''That is not your Luna password. Try again.''
         else lit ''Luna did not accept your old phrase. Start again from Change phrase.'')
      else apiErrorMessage err (lit ''Could not save your new phrase. Try again.''))"

section \<open>Typed and pasted words\<close>

text \<open>\<open>split(/\r?\n/)\<close>.\<close>

fun text_lines :: "jstring \<Rightarrow> jstring list" where
  "text_lines [] = [[]]"
| "text_lines (c # s) =
     (if c = 10 then [] # text_lines s
      else if c = 13 \<and> s \<noteq> [] \<and> hd s = 10 then [] # text_lines (tl s)
      else (case text_lines s of [] \<Rightarrow> [[c]] | l # ls \<Rightarrow> (c # l) # ls))"

text \<open>\<open>/^\s*#?\d+\s*[.):]/\<close>; no two neighbouring parts of it share a character.\<close>

definition opt_hash :: "jstring \<Rightarrow> jstring" where
  "opt_hash s = (case s of c # t \<Rightarrow> if c = 35 then t else s | [] \<Rightarrow> [])"

definition list_mark :: "jchar \<Rightarrow> bool" where
  "list_mark c \<longleftrightarrow> c = 46 \<or> c = 41 \<or> c = 58"

definition is_numbered :: "jstring \<Rightarrow> bool" where
  "is_numbered line =
     (let s = opt_hash (dropWhile js_ws line);
          t = dropWhile js_ws (dropWhile js_digit s)
      in takeWhile js_digit s \<noteq> [] \<and> t \<noteq> [] \<and> list_mark (hd t))"

text \<open>\<open>split(/[\s,]+/)\<close>, then what the two replacements leave of a token.\<close>

fun split_tokens :: "jstring \<Rightarrow> jstring list" where
  "split_tokens [] = [[]]"
| "split_tokens (c # s) =
     (if js_ws c \<or> c = comma then
        (if s \<noteq> [] \<and> (js_ws (hd s) \<or> hd s = comma) then split_tokens s else [] # split_tokens s)
      else (case split_tokens s of [] \<Rightarrow> [[c]] | p # ps \<Rightarrow> (c # p) # ps))"

definition drop_number :: "jstring \<Rightarrow> jstring" where
  "drop_number token =
     (let s = opt_hash token
      in if takeWhile js_digit s \<noteq> [] then dropWhile list_mark (dropWhile js_digit s) else token)"

definition az :: "jchar \<Rightarrow> bool" where
  "az c \<longleftrightarrow> 97 \<le> c \<and> c \<le> 122"

definition strip_az :: "jstring \<Rightarrow> jstring" where
  "strip_az s = rev (dropWhile (\<lambda>c. \<not> az c) (rev (dropWhile (\<lambda>c. \<not> az c) s)))"

definition splitPhraseText :: "(jstring \<Rightarrow> jstring) \<Rightarrow> jstring \<Rightarrow> jstring list" where
  "splitPhraseText toLowerCase text =
     (let ls = text_lines text;
          numbered = filter is_numbered ls;
          source = (if 2 \<le> length numbered then join [10] numbered else join [10] ls)
      in filter (\<lambda>w. w \<noteq> []) (map (\<lambda>token. strip_az (drop_number token)) (split_tokens (toLowerCase source))))"

definition WORD_SET :: "noble \<Rightarrow> jstring set" where
  "WORD_SET N = set (wordlist N)"

definition blankWords :: "jstring list" where
  "blankWords = replicate 24 []"

datatype box_state = EmptyBox | TypingBox | ValidBox | InvalidBox

definition boxState :: "noble \<Rightarrow> jstring \<Rightarrow> bool \<Rightarrow> box_state" where
  "boxState N value focused =
     (if value = [] then EmptyBox
      else if value \<in> WORD_SET N then ValidBox
      else if focused \<and> list_ex (\<lambda>w. starts_with w value) (wordlist N) then TypingBox
      else InvalidBox)"

definition notOnListLine :: "nat list \<Rightarrow> jstring" where
  "notOnListLine positions =
     (if length positions = 1
      then lit ''Word '' @ num_str (hd positions) @ lit '' isn't on the recovery phrase list. Check the spelling.''
      else lit ''Words '' @ join (lit '', '') (map num_str (butlast positions)) @ lit '' and '' @
           (if positions = [] then lit ''undefined'' else num_str (last positions)) @
           lit '' aren't on the recovery phrase list. Check the spelling.'')"

text \<open>The text of the file that \<open>downloadWords\<close> of \<open>PhraseWriteDown.jsx\<close> saves.\<close>

definition downloadWords :: "jstring list \<Rightarrow> jstring" where
  "downloadWords ws =
     lit ''Luna recovery phrase'' @ [10, 10] @
     join [10] (map (\<lambda>i. num_str (Suc i) @ lit ''. '' @ ws ! i) [0..<length ws]) @ [10, 10] @
     lit ''Keep these '' @ num_str (length ws) @ lit '' words somewhere safe. Anyone with them can open your cloud backups.'' @ [10]"

section \<open>A new phrase opens what the old one opened\<close>

lemma opened_secret_len: "openScopeSecret N sealed sec lunaId scope = Inr s \<Longrightarrow> length s = SEAL_SECRET_LEN"
  by (simp add: openScopeSecret_def open_exact_Inr)

lemma resealed_opens:
  assumes "seal_pair N sec pub" "\<And>i n. length (rnd i n) = n" "length s = SEAL_SECRET_LEN"
  shows "\<exists>sealed. sealScopeSecret N rnd s pub lunaId scope = Inr sealed \<and> openScopeSecret N sealed sec lunaId scope = Inr s"
proof -
  obtain sealed where "seal N rnd pub (privateAad N SCOPE_SECRET_PURPOSE lunaId scope) s = Inr sealed"
      "open_sealed N sec (privateAad N SCOPE_SECRET_PURPOSE lunaId scope) sealed = Inr s"
    using assms(1,2) unfolding seal_pair_def by blast
  then show ?thesis using assms(3) by (simp add: sealScopeSecret_def openScopeSecret_def open_exact_Inr)
qed

lemma entry_secret_len: "entry_secret N sec lunaId e = Inr (scope, s) \<Longrightarrow> length s = SEAL_SECRET_LEN"
  by (auto simp: entry_secret_def result_iffs dest: opened_secret_len)

text \<open>What the old phrase opens, in the order of the list, and what a phrase gets from a re-sealed list.\<close>

definition opened_scopes :: "noble \<Rightarrow> bytes \<Rightarrow> jstring \<Rightarrow> json list \<Rightarrow> (jstring \<times> bytes) list" where
  "opened_scopes N sec lunaId entries = List.map_filter (\<lambda>e. opt_of (entry_secret N sec lunaId e)) entries"

definition read_rescoped :: "noble \<Rightarrow> bytes \<Rightarrow> jstring \<Rightarrow> (jstring \<times> jstring) list \<Rightarrow> (jstring \<times> bytes) list result" where
  "read_rescoped N sec lunaId out =
     map_r (\<lambda>(scope, t). bind_r (fromBase64 t) (\<lambda>sealed. bind_r (openScopeSecret N sealed sec lunaId scope) (\<lambda>s. Inr (scope, s)))) out"

lemma reseal_loop_opens:
  assumes "seal_pair N sec pub" "\<And>i j n. length (rnd i j n) = n"
  shows "\<exists>out. reseal_loop N rnd old lunaId pub sec i es = Inr out \<and> read_rescoped N sec lunaId out = Inr (opened_scopes N old lunaId es)"
proof (induction es arbitrary: i)
  case Nil
  show ?case by (simp add: read_rescoped_def opened_scopes_def List.map_filter_def)
next
  case (Cons e es)
  obtain out where out: "reseal_loop N rnd old lunaId pub sec (Suc i) es = Inr out" "read_rescoped N sec lunaId out = Inr (opened_scopes N old lunaId es)"
    using Cons.IH by blast
  show ?case
  proof (cases "entry_secret N old lunaId e")
    case (Inl err)
    then show ?thesis using out by (simp add: opened_scopes_def map_filter_simps)
  next
    case (Inr x)
    obtain scope s where x: "x = (scope, s)" by (cases x)
    then obtain sealed where "sealScopeSecret N (rnd i) s pub lunaId scope = Inr sealed" "openScopeSecret N sealed sec lunaId scope = Inr s"
      using resealed_opens [where rnd = "rnd i", OF assms(1,2)] entry_secret_len Inr by blast
    then show ?thesis using out Inr x by (simp add: opened_scopes_def map_filter_simps read_rescoped_def)
  qed
qed

text \<open>
  Property C14: changing the recovery phrase loses no private scope. Whatever list Luna sends, every scope the old
  phrase opens is sealed again, in the order of the list, nothing else is sent, and the new phrase gets
  exactly the same secrets out of what is sent; the self-check never refuses.
\<close>

theorem resealed_scopes_open:
  assumes "seal_laws N" "signature_law N" "length oldEntropy = 16 \<or> length oldEntropy = 32" "length newEntropy' = 16 \<or> length newEntropy' = 32"
    and "\<And>i j n. length (rnd i j n) = n" "derive N newEntropy' lunaId = Inr new"
    and "get_prop reply (lit ''scopes'') = Some (JArr entries)"
  shows "\<exists>old out. derive N oldEntropy lunaId = Inr old \<and>
    resealScopes N lib rnd (Inr reply) oldEntropy lunaId (sealPublic new) (sealSecret new) = Inr out \<and>
    read_rescoped N (sealSecret new) lunaId out = Inr (opened_scopes N (sealSecret old) lunaId entries)"
proof -
  obtain old where old: "derive N oldEntropy lunaId = Inr old" using derived_keys [OF assms(1-3)] by metis
  have pair: "seal_pair N (sealSecret new) (sealPublic new)"
    using derived_keys [OF assms(1,2,4), of lunaId] assms(6) by force
  from reseal_loop_opens [where rnd = rnd and lunaId = lunaId and old = "sealSecret old" and i = 0 and es = entries, OF pair assms(5)]
  show ?thesis using old assms(7) by (auto simp: resealScopes_def)
qed

section \<open>What a saved phrase proves\<close>

lemma signing_aad_self: "signing_aad N lunaId userId = selfSealedAad N lunaId userId"
  by (simp add: signing_aad_def selfSealedAad_def)

lemma phrase_body_builds:
  assumes "seal_laws N" "signature_law N" "length entropy = 16 \<or> length entropy = 32" "\<And>i n. length (rnd i n) = n" "length pub = SIG_PUBLIC_LEN"
  obtains k body own where "derive N entropy lunaId = Inr k" "buildPhraseBody N rnd entropy lunaId userId (Inl (toBase64 pub)) = Inr body"
    "fromBase64 (pb_self_sealed body) = Inr own" "openSelfRecord N (selfKey k) lunaId userId own = Some pub"
    "fromBase64 (pb_seal_public body) = Inr (sealPublic k)" "fromBase64 (pb_auth_public body) = Inr (authPublic k)"
proof -
  have laws: "concat_law N" "xchacha_law N" using assms(1) by (simp_all add: seal_laws_def)
  obtain k where k: "derive N entropy lunaId = Inr k" "length (selfKey k) = 32" using derived_keys [OF assms(1-3)] by metis
  have nonce: "length (rnd 0 NONCE_LEN) = 24" using assms(4) by (simp add: NONCE_LEN_def)
  obtain c where "xchacha_encrypt N (selfKey k) (rnd 0 NONCE_LEN) (signing_aad N lunaId userId) pub = Some c"
    using laws(2) k(2) nonce unfolding xchacha_law_def by blast
  then have own: "encryptWith N (selfKey k) (rnd 0 NONCE_LEN) (signing_aad N lunaId userId) pub = Inr (concatBytes N [rnd 0 NONCE_LEN, c])"
    by (simp add: encryptWith_def aeadEncrypt_def)
  then have "decrypt N (selfKey k) (selfSealedAad N lunaId userId) (concatBytes N [rnd 0 NONCE_LEN, c]) = Inr pub"
    using decrypt_encrypted [OF laws k(2) nonce own] by (simp add: signing_aad_self)
  then show thesis using that k own assms(5) by (simp add: buildPhraseBody_def encrypt_def openSelfRecord_def)
qed

text \<open>
  What is saved for a phrase names Luna's signing key to that phrase: the self record decodes, and the
  search of a phrase for its keys reads the signing key out of it; a key of another length is refused.
\<close>

theorem saved_phrase_names_signer:
  assumes "seal_laws N" "signature_law N" "length entropy = 16 \<or> length entropy = 32" "\<And>i n. length (rnd i n) = n"
  shows "(if length pub = SIG_PUBLIC_LEN
     then \<exists>k body own. derive N entropy lunaId = Inr k \<and> buildPhraseBody N rnd entropy lunaId userId (Inl (toBase64 pub)) = Inr body \<and>
       fromBase64 (pb_self_sealed body) = Inr own \<and> openSelfRecord N (selfKey k) lunaId userId own = Some pub \<and>
       fromBase64 (pb_seal_public body) = Inr (sealPublic k) \<and> fromBase64 (pb_auth_public body) = Inr (authPublic k)
     else buildPhraseBody N rnd entropy lunaId userId (Inl (toBase64 pub)) =
       Inl (Thrown (lit ''Luna's signing key is missing. Reload the page and try again.'')))"
proof (cases "length pub = SIG_PUBLIC_LEN")
  case True
  obtain k body own where "derive N entropy lunaId = Inr k" "buildPhraseBody N rnd entropy lunaId userId (Inl (toBase64 pub)) = Inr body"
    "fromBase64 (pb_self_sealed body) = Inr own" "openSelfRecord N (selfKey k) lunaId userId own = Some pub"
    "fromBase64 (pb_seal_public body) = Inr (sealPublic k)" "fromBase64 (pb_auth_public body) = Inr (authPublic k)"
    by (rule phrase_body_builds [OF assms True])
  then show ?thesis using True by auto
qed (simp add: buildPhraseBody_def)

theorem saved_phrase_names_signer_witness:
  "\<exists>k body own. derive demo_noble (replicate 16 7) (lit ''l'') = Inr k \<and>
     buildPhraseBody demo_noble (\<lambda>i n. replicate n 3) (replicate 16 7) (lit ''l'') (lit ''u'') (Inl (toBase64 (replicate 1984 9))) = Inr body \<and>
     fromBase64 (pb_self_sealed body) = Inr own \<and> openSelfRecord demo_noble (selfKey k) (lit ''l'') (lit ''u'') own = Some (replicate 1984 9)"
proof -
  have "length (replicate 1984 (9 :: byte)) = SIG_PUBLIC_LEN" by (simp add: crypto_lens)
  then show ?thesis
    using saved_phrase_names_signer [OF demo_seal_laws demo_laws(6), of "replicate 16 7" "\<lambda>i n. replicate n 3" "replicate 1984 9" "lit ''l''" "lit ''u''"]
    by (simp only: if_True length_replicate simp_thms) blast
qed

text \<open>
  A replacement with the old phrase is signed by it over the values that are sent: the signature of a
  body that is built verifies under the old phrase's key, for the challenge and the body's own values.
\<close>

theorem replacement_signed:
  assumes "seal_laws N" "signature_law N" "length oldEntropy = 16 \<or> length oldEntropy = 32"
    and "buildReplaceBody N lib toLowerCase rnd0 rnd scopes (Inr challenge) (WithOldPhrase oldEntropy) exposed newPhrase lunaId userId signingPublic = Inr body"
  shows "\<exists>old ch msg sig text. derive N oldEntropy lunaId = Inr old \<and> fromBase64 challenge = Inr ch \<and>
    replaceMessage N ch (phrase_body.truncate body) (rb_exposed body) (rb_rescoped body) = Inr msg \<and>
    rb_proof body = OldSignature text \<and> fromBase64 text = Inr sig \<and> verify N (authPublic old) REPLACE_DOMAIN msg sig"
proof -
  obtain pb rescoped sig where b: "signReplacement N lib (Inr challenge) oldEntropy lunaId pb exposed (Some rescoped) = Inr sig"
      "body = phrase_body.extend pb \<lparr>rb_exposed = exposed, rb_rescoped = Some rescoped, rb_proof = OldSignature sig\<rparr>"
    using assms(4) by (auto simp: buildReplaceBody_def outcome_iffs)
  obtain old where old: "derive N oldEntropy lunaId = Inr old" "length (authSecret old) = 32" "signerPublic N (authSecret old) = Inr (authPublic old)"
    using derived_keys [OF assms(1-3)] by metis
  then obtain ch msg s where s: "fromBase64 challenge = Inr ch" "replaceMessage N ch pb exposed (Some rescoped) = Inr msg"
      "sign N (authSecret old) REPLACE_DOMAIN msg = Inr s" "sig = toBase64 s"
    using b(1) by (auto simp: signReplacement_def outcome_iffs result_iffs)
  have "concat_law N" "hkdf_law N" using assms(1) by (simp_all add: seal_laws_def)
  from sign_verify [OF this assms(2) old(2), of REPLACE_DOMAIN msg]
  have "verify N (authPublic old) REPLACE_DOMAIN msg s" using old(3) s(3) by auto
  moreover have eqs: "phrase_body.truncate body = pb" "rb_exposed body = exposed" "rb_rescoped body = Some rescoped" "rb_proof body = OldSignature sig"
    by (simp_all add: b(2) phrase_body.defs)
  moreover have "fromBase64 sig = Inr s" using s(4) by simp
  ultimately show ?thesis using old(1) s(1,2) unfolding eqs by blast
qed

lemma rescopedHash_ok:
  assumes "read_rescoped N sec lunaId out = Inr xs"
  shows "\<exists>h. rescopedHash N out = Inr h"
proof -
  have "\<exists>items. map_r (rescoped_item N) out = Inr items" using assms
  proof (induction out arbitrary: xs)
    case (Cons e out)
    obtain scope t where e: "e = (scope, t)" by (cases e)
    obtain sealed ys where "fromBase64 t = Inr sealed" "read_rescoped N sec lunaId out = Inr ys"
      using Cons.prems by (auto simp: e read_rescoped_def result_iffs)
    then show ?case using Cons.IH by (auto simp: e rescoped_item_def)
  qed simp
  then show ?thesis by (auto simp: rescopedHash_def)
qed

text \<open>A replacement is built whenever Luna answers.\<close>

lemma replacement_builds:
  assumes "seal_laws N" "signature_law N" "length oldEntropy = 16 \<or> length oldEntropy = 32"
    and rnd: "\<And>i n. length (rnd0 i n) = n" "\<And>i j n. length (rnd i j n) = n" and pub: "length pub = SIG_PUBLIC_LEN"
    and new: "phraseToEntropy N toLowerCase newPhrase = Inr newEntropy'" "length newEntropy' = 16 \<or> length newEntropy' = 32"
    and scopes: "get_prop reply (lit ''scopes'') = Some (JArr entries)" and ch: "fromBase64 challenge = Inr ch"
  shows "\<exists>body. buildReplaceBody N lib toLowerCase rnd0 rnd (Inr reply) (Inr challenge) (WithOldPhrase oldEntropy) exposed newPhrase lunaId userId
      (toBase64 pub) = Inr body"
proof -
  obtain k body own where k: "derive N newEntropy' lunaId = Inr k" and b: "buildPhraseBody N rnd0 newEntropy' lunaId userId (Inl (toBase64 pub)) = Inr body"
    "fromBase64 (pb_self_sealed body) = Inr own" "fromBase64 (pb_seal_public body) = Inr (sealPublic k)" "fromBase64 (pb_auth_public body) = Inr (authPublic k)"
    by (rule phrase_body_builds [OF assms(1,2) new(2) rnd(1) pub])
  obtain old where old: "derive N oldEntropy lunaId = Inr old" "length (authSecret old) = 32" using derived_keys [OF assms(1-3)] by metis
  have pair: "seal_pair N (sealSecret k) (sealPublic k)" using derived_keys [OF assms(1,2) new(2), of lunaId] k by force
  obtain out where out: "reseal_loop N rnd (sealSecret old) lunaId (sealPublic k) (sealSecret k) 0 entries = Inr out"
      "read_rescoped N (sealSecret k) lunaId out = Inr (opened_scopes N (sealSecret old) lunaId entries)"
    using reseal_loop_opens [where rnd = rnd and old = "sealSecret old" and i = 0 and es = entries, OF pair rnd(2)] by blast
  then obtain h where h: "rescopedHash N out = Inr h" using rescopedHash_ok by blast
  have "concat_law N" "hkdf_law N" using assms(1) by (simp_all add: seal_laws_def)
  moreover obtain msg where "replaceMessage N ch body exposed (Some out) = Inr msg" using b(2-4) h by (simp add: replaceMessage_def)
  moreover obtain s where "sign N (authSecret old) REPLACE_DOMAIN msg = Inr s"
    using sign_verify [OF calculation(1,2) assms(2) old(2), of REPLACE_DOMAIN msg] by blast
  ultimately have "signReplacement N lib (Inr challenge) oldEntropy lunaId body exposed (Some out) = Inr (toBase64 s)"
    using old(1) ch by (simp add: signReplacement_def)
  then show ?thesis using new(1) b(1) k out(1) scopes old(1) by (simp add: buildReplaceBody_def resealScopes_def)
qed

theorem resealed_scopes_open_witness:
  "\<exists>old new reply out. derive demo_noble (replicate 16 7) (lit ''l'') = Inr old \<and> derive demo_noble (replicate 32 8) (lit ''l'') = Inr new \<and>
     resealScopes demo_noble (plain_error []) (\<lambda>_ i n. replicate n 3) (Inr reply) (replicate 16 7) (lit ''l'') (sealPublic new) (sealSecret new) = Inr out \<and>
     read_rescoped demo_noble (sealSecret new) (lit ''l'') out = Inr [(lit ''s'', replicate SEAL_SECRET_LEN 5)]"
proof -
  let ?l = "lit ''l''" and ?s = "replicate SEAL_SECRET_LEN (5 :: byte)"
  obtain old where old: "derive demo_noble (replicate 16 7) ?l = Inr old" "seal_pair demo_noble (sealSecret old) (sealPublic old)"
    using derived_keys [OF demo_seal_laws demo_laws(6), of "replicate 16 7" ?l] by auto
  obtain new where new: "derive demo_noble (replicate 32 8) ?l = Inr new"
    using derived_keys [OF demo_seal_laws demo_laws(6), of "replicate 32 8" ?l] by auto
  obtain sealed where sealed: "openScopeSecret demo_noble sealed (sealSecret old) ?l (lit ''s'') = Inr ?s"
    using resealed_opens [where rnd = "\<lambda>i n. replicate n 3" and s = ?s, OF old(2)] by fastforce
  define entry where "entry = JObj [(lit ''scope'', JStr (lit ''s'')), (lit ''sealed_scope_secret'', JStr (toBase64 sealed))]"
  have "entry_secret demo_noble (sealSecret old) ?l entry = Inr (lit ''s'', ?s)"
    using sealed by (simp add: entry_secret_def entry_def get_prop_def text_prop_def opt_text_def lit_def)
  then have o: "opened_scopes demo_noble (sealSecret old) ?l [entry] = [(lit ''s'', ?s)]" by (simp add: opened_scopes_def map_filter_simps)
  have "get_prop (JObj [(lit ''scopes'', JArr [entry])]) (lit ''scopes'') = Some (JArr [entry])" by (simp add: get_prop_def)
  from resealed_scopes_open [OF demo_seal_laws demo_laws(6) _ _ _ new this, of "replicate 16 7" "\<lambda>_ i n. replicate n 3" "plain_error []"]
  show ?thesis using old(1) new o by auto
qed

theorem replacement_signed_witness:
  "\<exists>old body sig text. derive demo_noble (replicate 16 7) (lit ''l'') = Inr old \<and>
     buildReplaceBody demo_noble (plain_error []) lower (\<lambda>i n. replicate n 3) (\<lambda>_ i n. replicate n 3) (Inr (JObj [(lit ''scopes'', JArr [])]))
       (Inr (toBase64 [1, 2])) (WithOldPhrase (replicate 16 7)) True (join [32] (replicate 12 (lit ''b''))) (lit ''l'') (lit ''u'')
       (toBase64 (replicate SIG_PUBLIC_LEN 9)) = Inr body \<and>
     rb_proof body = OldSignature text \<and> fromBase64 text = Inr sig"
proof -
  have "\<exists>body. buildReplaceBody demo_noble (plain_error []) lower (\<lambda>i n. replicate n 3) (\<lambda>_ i n. replicate n 3) (Inr (JObj [(lit ''scopes'', JArr [])]))
       (Inr (toBase64 [1, 2])) (WithOldPhrase (replicate 16 7)) True (join [32] (replicate 12 (lit ''b''))) (lit ''l'') (lit ''u'')
       (toBase64 (replicate SIG_PUBLIC_LEN 9)) = Inr body"
    by (rule replacement_builds [where entries = "[]" and ch = "[1, 2]" and newEntropy' = "replicate 12 1 @ replicate 4 0",
          OF demo_seal_laws demo_laws(6) _ _ _ _ demo_typed]) (simp_all add: get_prop_def)
  then show ?thesis using replacement_signed [OF demo_seal_laws demo_laws(6), of "replicate 16 7"] by (metis length_replicate)
qed

section \<open>A saved phrase file is read back\<close>

lemma text_lines_line: "10 \<notin> set l \<Longrightarrow> 13 \<notin> set l \<Longrightarrow> text_lines (l @ 10 # s) = l # text_lines s"
  by (induction l) auto

lemma text_lines_last: "10 \<notin> set l \<Longrightarrow> 13 \<notin> set l \<Longrightarrow> text_lines l = [l]"
  by (induction l) auto

lemma text_lines_join:
  assumes "list_all (\<lambda>l. 10 \<notin> set l \<and> 13 \<notin> set l) ls" "ls \<noteq> []"
  shows "text_lines (join [10] ls) = ls"
  using assms
proof (induction ls rule: induct_list012)
  case (3 l l' ls)
  then show ?case by (simp add: text_lines_line)
qed (simp_all add: text_lines_last)

definition token_sep :: "jchar \<Rightarrow> bool" where
  "token_sep c \<longleftrightarrow> js_ws c \<or> c = comma"

lemma split_tokens_last: "list_all (\<lambda>c. \<not> token_sep c) t \<Longrightarrow> split_tokens t = [t]"
  by (induction t) (auto simp: token_sep_def)

lemma split_tokens_sep:
  assumes "list_all (\<lambda>c. \<not> token_sep c) t" "token_sep c" "s \<noteq> []" "\<not> token_sep (hd s)"
  shows "split_tokens (t @ c # s) = t # split_tokens s"
  using assms by (induction t) (auto simp: token_sep_def)

lemma az_facts: "az c \<Longrightarrow> \<not> token_sep c \<and> \<not> js_digit c \<and> c \<noteq> 35 \<and> c < 128 \<and> c \<noteq> 10 \<and> c \<noteq> 13 \<and> \<not> (65 \<le> c \<and> c \<le> 90)"
  by (auto simp: az_def token_sep_def js_ws_def js_digit_def word_le_nat_alt word_less_nat_alt)

lemma digit_facts: "js_digit c \<Longrightarrow> \<not> token_sep c \<and> \<not> js_ws c \<and> c \<noteq> 35 \<and> c < 128 \<and> c \<noteq> 10 \<and> c \<noteq> 13 \<and> \<not> (65 \<le> c \<and> c \<le> 90)"
  by (auto simp: token_sep_def js_ws_def js_digit_def word_le_nat_alt word_less_nat_alt)

lemma mark_facts: "\<not> token_sep 46" "\<not> js_digit 46" "\<not> js_ws 46" "list_mark 46" "token_sep 32" "token_sep 10" "js_ws 32"
  by (simp_all add: token_sep_def js_ws_def js_digit_def list_mark_def)

definition numbered_line :: "jstring \<times> jstring \<Rightarrow> jstring" where
  "numbered_line p = fst p @ [46, 32] @ snd p"

definition line_ok :: "jstring \<times> jstring \<Rightarrow> bool" where
  "line_ok p \<longleftrightarrow> fst p \<noteq> [] \<and> list_all js_digit (fst p) \<and> snd p \<noteq> [] \<and> list_all az (snd p)"

lemma numbered_line_is: "line_ok p \<Longrightarrow> is_numbered (numbered_line p)"
proof -
  assume p: "line_ok p"
  then obtain d ds where d: "fst p = d # ds" "js_digit d" "list_all js_digit ds" by (cases "fst p") (auto simp: line_ok_def)
  then have "dropWhile js_ws (numbered_line p) = numbered_line p" "opt_hash (numbered_line p) = numbered_line p"
    using digit_facts [of d] by (auto simp: numbered_line_def opt_hash_def)
  moreover have "dropWhile js_digit (numbered_line p) = [46, 32] @ snd p"
    using p mark_facts(2) by (simp add: numbered_line_def line_ok_def dropWhile_append2 list_all_iff)
  ultimately show ?thesis using d mark_facts by (simp add: is_numbered_def Let_def) (simp add: numbered_line_def d)
qed

lemma number_dropped: "line_ok p \<Longrightarrow> strip_az (drop_number (fst p @ [46])) = []"
proof -
  assume p: "line_ok p"
  then obtain d ds where d: "fst p = d # ds" "js_digit d" by (cases "fst p") (auto simp: line_ok_def)
  then have "opt_hash (fst p @ [46]) = fst p @ [46]" using digit_facts [of d] by (simp add: opt_hash_def)
  moreover have "dropWhile js_digit (fst p @ [46]) = [46]" using p mark_facts(2) by (simp add: line_ok_def dropWhile_append2 list_all_iff)
  moreover have "takeWhile js_digit (fst p @ [46]) \<noteq> []" using d by simp
  ultimately show ?thesis using mark_facts(4) by (simp add: drop_number_def strip_az_def)
qed

lemma word_kept: "w \<noteq> [] \<Longrightarrow> list_all az w \<Longrightarrow> strip_az (drop_number w) = w"
proof -
  assume w: "w \<noteq> []" "list_all az w"
  then have h: "az (hd w)" "az (last w)" by (simp_all add: list_all_iff)
  then have "opt_hash w = w" "takeWhile js_digit w = []" using az_facts [of "hd w"] w(1) by (cases w; simp add: opt_hash_def)+
  then have "drop_number w = w" by (simp add: drop_number_def)
  moreover have "dropWhile (\<lambda>c. \<not> az c) w = w" "dropWhile (\<lambda>c. \<not> az c) (rev w) = rev w"
    using w(1) h by (simp_all add: dropWhile_eq_self_iff hd_rev)
  ultimately show ?thesis by (simp add: strip_az_def)
qed

lemma tokens_of_lines:
  assumes "list_all line_ok ps" "ps \<noteq> []"
  shows "split_tokens (join [10] (map numbered_line ps)) = concat (map (\<lambda>p. [fst p @ [46], snd p]) ps)"
  using assms
proof (induction ps rule: induct_list012)
  case (2 p)
  then have "list_all (\<lambda>c. \<not> token_sep c) (fst p @ [46])" "list_all (\<lambda>c. \<not> token_sep c) (snd p)" "snd p \<noteq> []" "\<not> token_sep (hd (snd p))"
    using digit_facts az_facts mark_facts(1) by (auto simp: line_ok_def list_all_iff)
  then show ?case using split_tokens_sep [of "fst p @ [46]" 32 "snd p"] mark_facts(5) by (simp add: numbered_line_def split_tokens_last)
next
  case (3 p q ps)
  let ?rest = "join [10] (map numbered_line (q # ps))"
  have p: "list_all (\<lambda>c. \<not> token_sep c) (fst p @ [46])" "list_all (\<lambda>c. \<not> token_sep c) (snd p)" "snd p \<noteq> []" "\<not> token_sep (hd (snd p))"
    using 3(3) digit_facts az_facts mark_facts(1) by (auto simp: line_ok_def list_all_iff)
  obtain d ds where "fst q = d # ds" "js_digit d" using 3(3) by (cases "fst q") (auto simp: line_ok_def)
  then have r: "?rest \<noteq> []" "\<not> token_sep (hd ?rest)" using digit_facts by (cases ps; simp add: numbered_line_def)+
  have "split_tokens (numbered_line p @ 10 # ?rest) = [fst p @ [46], snd p] @ split_tokens ?rest"
    using split_tokens_sep [of "fst p @ [46]" 32 "snd p @ 10 # ?rest"] split_tokens_sep [of "snd p" 10 ?rest] p r mark_facts(5,6)
    by (simp add: numbered_line_def)
  then show ?case using 3 by simp
qed simp

lemma join_app: "xs \<noteq> [] \<Longrightarrow> ys \<noteq> [] \<Longrightarrow> join sep (xs @ ys) = join sep xs @ sep @ join sep ys"
proof (induction xs rule: induct_list012)
  case (2 x)
  then show ?case by (cases ys) simp_all
qed simp_all

lemma join_chars: "(\<And>l. l \<in> set ls \<Longrightarrow> list_all P l) \<Longrightarrow> list_all P sep \<Longrightarrow> list_all P (join sep ls)"
  by (induction ls rule: induct_list012) simp_all

lemma lower_lines:
  assumes "lower_law toLowerCase" "list_all line_ok ps"
  shows "toLowerCase (join [10] (map numbered_line ps)) = join [10] (map numbered_line ps)"
proof -
  let ?P = "\<lambda>c. c < 128 \<and> \<not> (65 \<le> c \<and> c \<le> 90)"
  have "list_all ?P (numbered_line p)" if "line_ok p" for p
    using that digit_facts az_facts by (auto simp: numbered_line_def line_ok_def list_all_iff)
  then have P: "list_all ?P (join [10] (map numbered_line ps))" using assms(2) by (intro join_chars) (auto simp: list_all_iff)
  then have "lower (join [10] (map numbered_line ps)) = join [10] (map numbered_line ps)"
    unfolding lower_def by (intro map_idI) (auto simp: list_all_iff)
  moreover have "list_all (\<lambda>c. c < 128) (join [10] (map numbered_line ps))" using P by (auto simp: list_all_iff)
  ultimately show ?thesis using assms(1) by (simp add: lower_law_def)
qed

lemma other_lines:
  "\<not> is_numbered (lit ''Luna recovery phrase'')" "\<not> is_numbered []" "\<not> is_numbered (lit ''Keep these '' @ s)"
  by (simp_all add: is_numbered_def Let_def opt_hash_def lit_def js_ws_def js_digit_def word_le_nat_alt)

lemma word_lines_read:
  assumes "lower_law toLowerCase" "list_all line_ok ps" "2 \<le> length ps" "filter is_numbered ls = map numbered_line ps"
    and "list_all (\<lambda>l. 10 \<notin> set l \<and> 13 \<notin> set l) ls"
  shows "splitPhraseText toLowerCase (join [10] ls) = map snd ps"
proof -
  have "ls \<noteq> []" "ps \<noteq> []" using assms(3,4) by auto
  then have "splitPhraseText toLowerCase (join [10] ls) =
      filter (\<lambda>w. w \<noteq> []) (map (\<lambda>t. strip_az (drop_number t)) (concat (map (\<lambda>p. [fst p @ [46], snd p]) ps)))"
    using assms lower_lines [OF assms(1,2)] by (simp add: splitPhraseText_def text_lines_join tokens_of_lines)
  also have "\<dots> = map snd ps" using assms(2) by (induction ps) (auto simp: number_dropped word_kept line_ok_def)
  finally show ?thesis .
qed

text \<open>
  The file that is offered for download can be pasted back: only its numbered lines count, and the words
  that come out are the words of the phrase, in order, for a phrase of either length.
\<close>

theorem phrase_file_reads_back:
  assumes "bip39_law N e ws" "lower_law toLowerCase"
  shows "splitPhraseText toLowerCase (downloadWords ws) = ws"
proof -
  define ps where "ps = map (\<lambda>i. (num_str (Suc i), ws ! i)) [0..<length ws]"
  let ?keep = "lit ''Keep these '' @ num_str (length ws) @ lit '' words somewhere safe. Anyone with them can open your cloud backups.''"
  let ?ls = "[lit ''Luna recovery phrase'', []] @ map numbered_line ps @ [[], ?keep, []]"
  have len: "2 \<le> length ps" using assms(1) by (auto simp: ps_def bip39_law_def)
  have ok: "list_all line_ok ps"
    using assms(1) by (auto simp: ps_def line_ok_def list_all_iff bip39_law_def az_def num_str_digits [unfolded list_all_iff])
  have "map numbered_line ps = map (\<lambda>i. num_str (Suc i) @ lit ''. '' @ ws ! i) [0..<length ws]"
    by (simp add: ps_def numbered_line_def lit_def)
  moreover have "map numbered_line ps \<noteq> []" using len by auto
  ultimately have dl: "downloadWords ws = join [10] ?ls"
    by (simp add: downloadWords_def join_Cons join_app)
  have f: "filter is_numbered ?ls = map numbered_line ps"
    using ok other_lines numbered_line_is by (auto simp: list_all_iff filter_id_conv)
  have "10 \<notin> set (numbered_line p) \<and> 13 \<notin> set (numbered_line p)" if "line_ok p" for p
    using that digit_facts az_facts by (auto simp: numbered_line_def line_ok_def list_all_iff)
  moreover have "10 \<notin> set ?keep \<and> 13 \<notin> set ?keep" using num_str_digits [of "length ws"] digit_facts by (auto simp: lit_def list_all_iff)
  ultimately have "list_all (\<lambda>l. 10 \<notin> set l \<and> 13 \<notin> set l) ?ls" using ok by (auto simp: list_all_iff lit_def)
  from word_lines_read [OF assms(2) ok len f this] show ?thesis unfolding dl by (simp add: ps_def comp_def map_nth)
qed

theorem phrase_file_reads_back_witness:
  "splitPhraseText lower (downloadWords (replicate 12 (lit ''b''))) = replicate 12 (lit ''b'')"
proof (rule phrase_file_reads_back)
  show "bip39_law demo_noble (replicate 12 1 @ replicate 4 0) (replicate 12 (lit ''b''))" unfolding bip39_law_def demo_bip39 by code_simp
  show "lower_law lower" by (simp add: lower_law_def)
qed

section \<open>What the signature of a replacement covers\<close>

lemma compareBytes_0: "compareBytes a b = 0 \<longleftrightarrow> a = b"
proof (induction a b rule: compareBytes.induct)
  case (1 a as b bs)
  have "a \<noteq> b \<Longrightarrow> int (unat a) - int (unat b) \<noteq> 0" by (simp add: word_uint_eq_iff)
  then show ?case using 1 by auto
qed auto

lemma compareBytes_total: "compareBytes a b \<le> 0 \<or> compareBytes b a \<le> 0"
  by (induction a b rule: compareBytes.induct) auto

lemma compareBytes_trans: "compareBytes a b \<le> 0 \<Longrightarrow> compareBytes b c \<le> 0 \<Longrightarrow> compareBytes a c \<le> 0"
proof (induction a b arbitrary: c rule: compareBytes.induct)
  case (1 x xs y ys)
  show ?case
  proof (cases c)
    case (Cons z zs)
    then show ?thesis using 1 by (auto simp: word_uint_eq_iff split: if_splits)
  qed (use 1 in simp)
next
  case (2 bs)
  then show ?case by simp
next
  case (3 v va)
  then show ?case by simp
qed

lemma compareBytes_anti: "compareBytes a b \<le> 0 \<Longrightarrow> compareBytes b a \<le> 0 \<Longrightarrow> a = b"
proof (induction a b rule: compareBytes.induct)
  case (1 a as b bs)
  then show ?case by (auto simp: word_uint_eq_iff split: if_splits)
next
  case (2 bs)
  then show ?case by (cases bs) auto
qed auto

lemma compare_consistent: "consistent (\<lambda>x y. compareBytes (fst x) (fst y))"
  unfolding consistent_def using compareBytes_total compareBytes_trans by blast

text \<open>A sort by a key that tells the elements apart does not depend on the order they come in.\<close>

lemma sorted_key_unique:
  assumes "sorted_wrt (\<lambda>x y. compareBytes (fst x) (fst y) \<le> 0) xs" "sorted_wrt (\<lambda>x y. compareBytes (fst x) (fst y) \<le> 0) ys"
    and "mset xs = mset ys" "distinct (map fst xs)"
  shows "xs = ys"
  using assms
proof (induction xs arbitrary: ys)
  case (Cons x xs)
  then obtain y ys' where ys: "ys = y # ys'" by (cases ys) auto
  have mem: "x \<in> set ys" "y \<in> set (x # xs)" using Cons.prems(3) ys by (metis list.set_intros(1) set_mset_mset)+
  have "x = y"
  proof (rule ccontr)
    assume "x \<noteq> y"
    then have "y \<in> set xs" "x \<in> set ys'" using mem ys by auto
    then have "fst x = fst y" using Cons.prems(1,2) ys by (intro compareBytes_anti) auto
    then show False using \<open>y \<in> set xs\<close> Cons.prems(4) by (metis distinct.simps(2) imageI list.set_map list.simps(9))
  qed
  then show ?case using Cons ys by auto
qed simp

text \<open>
  The hash of the re-sealed scopes does not depend on the order of the list, as long as no scope is in it
  twice: the browser and Luna, which sort it, agree.
\<close>

theorem rescoped_hash_order:
  assumes "map_r (rescoped_item N) rescoped = Inr items" "distinct (map fst items)" "mset rescoped' = mset rescoped"
  shows "rescopedHash N rescoped' = rescopedHash N rescoped"
proof -
  have total: "\<exists>y. rescoped_item N e = Inr y" if "e \<in> set rescoped" for e
    using assms(1) that by (auto simp: map_r_Inr_iff list_all2_conv_all_nth in_set_conv_nth)
  define g where "g = (\<lambda>e. projr (rescoped_item N e))"
  have all: "map_r (rescoped_item N) es = Inr (map g es)" if "set es \<subseteq> set rescoped" for es
    using that total by (induction es) (force simp: g_def)+
  have "set rescoped' = set rescoped" using assms(3) by (metis set_mset_mset)
  then have m: "map_r (rescoped_item N) rescoped' = Inr (map g rescoped')" "items = map g rescoped"
    using all [of rescoped'] all [of rescoped] assms(1) by simp_all
  let ?c = "\<lambda>a b. compareBytes (fst a) (fst b)"
  have eq: "mset (map g rescoped') = mset (map g rescoped)" using assms(3) by simp
  have "distinct (map fst (sort_by ?c (map g rescoped')))"
  proof -
    have "mset (map fst (sort_by ?c (map g rescoped'))) = mset (map fst items)" by (simp add: m(2) assms(3) image_mset.compositionality comp_def)
    from mset_eq_imp_distinct_iff [OF this] show ?thesis using assms(2) by blast
  qed
  then have "sort_by ?c (map g rescoped') = sort_by ?c (map g rescoped)"
    using sort_by_sorted [OF compare_consistent, of "map g rescoped'"] sort_by_sorted [OF compare_consistent, of "map g rescoped"] eq
    by (intro sorted_key_unique) simp_all
  then show ?thesis using m assms(1) by (simp add: rescopedHash_def)
qed

theorem rescoped_hash_order_witness:
  "rescopedHash demo_noble [(lit ''b'', toBase64 [2]), (lit ''a'', toBase64 [1])] = rescopedHash demo_noble [(lit ''a'', toBase64 [1]), (lit ''b'', toBase64 [2])]"
  by (rule rescoped_hash_order [where items = "[([97], [1]), ([98], [2])]"])
    (simp_all add: rescoped_item_def demo_noble_def lit_def)

text \<open>
  Two replacements with the same message have the same challenge, keys, answer and hashes; the number of
  words is not part of it.
\<close>

lemma replace_message_binds:
  assumes "concat_law N" "replaceMessage N ch body exposed rescoped = Inr msg" "replaceMessage N ch' body' exposed' rescoped' = Inr msg"
    and "\<And>t. length (utf8ToBytes N t) \<le> 3 * length t" "length ch < 2 ^ 32" "length ch' < 2 ^ 32" "\<And>bs. length (packId N bs) < 2 ^ 32"
    and "\<And>t b. t \<in> {pb_seal_public body, pb_seal_public body', pb_auth_public body, pb_auth_public body'} \<Longrightarrow> fromBase64 t = Inr b \<Longrightarrow> length b < 2 ^ 32"
  shows "ch = ch' \<and> fromBase64 (pb_seal_public body) = fromBase64 (pb_seal_public body') \<and>
    fromBase64 (pb_auth_public body) = fromBase64 (pb_auth_public body') \<and> exposed = exposed'"
proof -
  obtain s a c h where l: "fromBase64 (pb_seal_public body) = Inr s" "fromBase64 (pb_auth_public body) = Inr a"
      "msg = canonical N [(lit ''challenge'', ch), (lit ''seal_public'', s), (lit ''auth_public'', a),
        (lit ''self_sealed_hash'', packId N c), (lit ''exposed'', [if exposed then 1 else 0]), (lit ''rescoped_hash'', packId N h)]"
    using assms(2) by (auto simp: replaceMessage_def rescopedHash_def result_iffs)
  obtain s' a' c' h' where r: "fromBase64 (pb_seal_public body') = Inr s'" "fromBase64 (pb_auth_public body') = Inr a'"
      "msg = canonical N [(lit ''challenge'', ch'), (lit ''seal_public'', s'), (lit ''auth_public'', a'),
        (lit ''self_sealed_hash'', packId N c'), (lit ''exposed'', [if exposed' then 1 else 0]), (lit ''rescoped_hash'', packId N h')]"
    using assms(3) by (auto simp: replaceMessage_def rescopedHash_def result_iffs)
  have n: "length (utf8ToBytes N (lit n)) < 2 ^ 32" if "length n \<le> 100" for n using assms(4) [of "lit n"] that by (simp add: lit_def)
  have b: "length s < 2 ^ 32" "length a < 2 ^ 32" "length s' < 2 ^ 32" "length a' < 2 ^ 32" using assms(8) l r by blast+
  have "short_fields N [(lit ''challenge'', ch), (lit ''seal_public'', s), (lit ''auth_public'', a),
        (lit ''self_sealed_hash'', packId N c), (lit ''exposed'', [if exposed then 1 else 0]), (lit ''rescoped_hash'', packId N h)]"
      "short_fields N [(lit ''challenge'', ch'), (lit ''seal_public'', s'), (lit ''auth_public'', a'),
        (lit ''self_sealed_hash'', packId N c'), (lit ''exposed'', [if exposed' then 1 else 0]), (lit ''rescoped_hash'', packId N h')]"
    using n assms(5-7) b by (simp_all add: short_fields_def)
  from canonical_inj [OF assms(1) this] l(3) r(3) show ?thesis using l r by (simp add: field_bytes_def split: if_splits)
qed

end
