(* ===== verification/Spec2Isabelle.thy ===== *)
theory Spec2Isabelle
  imports TabLive OpSelectors ShareTree FormDocument TableModel DropWalk BackupRows RecentItems PackCache CloudTree CloudPhrase
begin

text \<open>
  Verification of the browser-side logic of LibreServ: the web app of Luna (\<open>luna/web\<close>), the restore
  pages of Luna Connect (\<open>luna/connect/web\<close>) and the library they share (\<open>shared/ui\<close>).

  \<^bold>\<open>The program and its parts.\<close> Luna is a home server; its web app shows drives, shares and forms, and
  runs file operations (uploads, copies, moves, deletions) from one store per browser tab. Luna
  keeps encrypted backups in a cloud; Luna Connect opens them in the browser from a recovery phrase.
  The servers are written in Rust and Go and are outside of this development, as are the React
  pages; what is modelled is the JavaScript under \<open>lib/\<close> that decides what happens.

  \<^enum> The store of file operations (\<open>luna/web/src/lib/fileOps\<close>). \<open>store.js\<close> holds the operations
    and their items, publishes immutable snapshots, and settles an operation when its items have
    ended; \<open>uploadRunner.js\<close>, \<open>jobRunner.js\<close> and \<open>requestRunner.js\<close> drive the items and call back
    into the store; \<open>errors.js\<close>, \<open>copy.js\<close> and \<open>selectors.js\<close> turn states into what is shown.
  \<^enum> The documents and lists of the web app: paths, access rules, the tree of shares, delimited
    text, forms with their answers, Markdown tables, dropped folders, backup rows, recent items.
  \<^enum> Cloud backups: the cryptography (\<open>backupCrypto.js\<close>), the format of packs, trees and snapshots
    (\<open>cloudFormat.js\<close>), private scopes (\<open>cloudPrivate.js\<close>), the keys of a phrase (\<open>cloudKeys.js\<close>), unlocking
    (\<open>cloudUnlock.js\<close>, \<open>privateUnlock.js\<close>), the phrase in the web app (\<open>cloudPhrase.js\<close>), the cache of opened
    packs, the zip writer (\<open>zip.js\<close>), and browsing and downloading (\<open>cloudTree.js\<close>, \<open>cloudDownload.js\<close>).

  \<^bold>\<open>Shared theories.\<close>

  \<^item> \<open>JsPrelude\<close>: UTF-16 strings, doubles as rationals rounded to 53 bits, the collections \<open>js_eval\<close>
    and \<open>js_string\<close>; \<open>JsValues\<close>: parsed JSON and conversions; \<open>JsText\<close>: numbers and values as text;
    \<open>JsSort\<close>: the stable sort; \<open>Bytes\<close>: byte arrays, integer fields of a \<open>DataView\<close>, results with errors;
    \<open>Base64\<close>: \<open>btoa\<close> and \<open>atob\<close>, which are inverse on bytes.
  \<^item> \<open>Interfaces\<close>: the contracts as locales. \<open>pump_loop\<close> (a loop that starts queued work while a slot is
    free) is interpreted on the upload pool and on the job queue; \<open>codec\<close> on the share text, the CSV
    export and the 32-bit fields; \<open>event_system\<close> and its extension \<open>invariant_system\<close> on the whole tab
    (twice: safety and progress), on the table editor and on the cache of packs.

  \<^bold>\<open>The store of file operations.\<close>

  \<^item> \<open>Paths\<close> models \<open>paths.js\<close>; \<open>OpTypes\<close> the records of an item and an operation with \<open>makeItem\<close>,
    \<open>makeOp\<close> and \<open>recompute\<close>; \<open>OpErrors\<close> \<open>errors.js\<close>; \<open>OpCopy\<close> \<open>copy.js\<close>; \<open>OpSelectors\<close>
    \<open>selectors.js\<close> and the lines of the dock.
  \<^item> \<open>OpStore\<close> models the core of \<open>store.js\<close>: objects live in heaps keyed by references, a published
    state is a list of snapshots, timers are part of the state. Settling gives the state the items
    call for (\<open>settle_sound\<close>), a change is published at once as long as the caches are right
    (\<open>patchItem_publishes\<close>), a success is
    announced once and only when it is one (\<open>settle_toast_sound\<close>), progress is throttled
    (\<open>emit_throttle\<close>).
  \<^item> \<open>UploadRunner\<close>, \<open>JobRunner\<close>, \<open>RequestRunner\<close> model the runners, one definition per function and
    per continuation of an awaited promise; \<open>TabSystem\<close> composes them into one tab whose events are
    the actions of the person, the timers, and the answers of Luna and the browser, in any order.
  \<^item> \<open>UploadPool\<close>, \<open>JobPool\<close>, \<open>RequestQueue\<close> hold the lemmas of each runner; \<open>TabInv\<close> and \<open>TabSafety\<close> the
    invariant of the tab and its preservation by every event; \<open>TabLive\<close> the results: at most three
    uploads at a time; at most four jobs, or as many as the tab picked up from an earlier load if those
    were more; one loop per operation, no file sent twice, no file waiting while a slot is free, and
    two flaws of the job runner.

  \<^bold>\<open>Documents and lists.\<close>

  \<^item> \<open>Access\<close> (\<open>access.js\<close>), \<open>ShareTree\<close> (\<open>shareTree.js\<close>): capability sets as 32-bit words, coverage of
    grants, the virtual root of a member; \<open>Delimited\<close> (\<open>delimited.js\<close>), \<open>FormDocument\<close>
    (\<open>formDocument.js\<close>): when a saved form reopens to itself, when the table parser reads an export back
    (\<open>csv_export_misread\<close> is an export that its guess of the delimiter misreads).
  \<^item> \<open>TableModel\<close> (\<open>markdownTableModel.js\<close>): print and parse are inverse up to the normal form, and a
    table stays rectangular under every operation; \<open>DropWalk\<close> (\<open>collectUploadFiles.js\<close>): the walk of a
    dropped tree finds every file and falls silent when it is aborted.
  \<^item> \<open>BackupRows\<close> (\<open>backupRows.js\<close>), \<open>RecentItems\<close> (\<open>recentItems.js\<close>): after any history of visits
    the stored list has the ten places visited last.

  \<^bold>\<open>Cloud backups.\<close>

  \<^item> \<open>BackupCrypto\<close> models \<open>backupCrypto.js\<close> over the record \<open>noble\<close> of the primitives of the packages
    it imports. Their documented laws (Diffie and Hellman agree, decapsulation gives back the secret,
    decryption gives back the message, a signature verifies) are the hypotheses \<open>concat_law\<close>,
    \<open>hkdf_law\<close>, \<open>x25519_law\<close>, \<open>mlkem_law\<close>, \<open>xchacha_law\<close>, \<open>signature_law\<close>, \<open>bip39_law\<close>; the concrete
    \<open>demo_noble\<close> meets all of them. What is sealed to a derived key opens, signatures of different
    domains differ, the canonical bytes are unambiguous, a printed phrase is read back.
  \<^item> \<open>CloudFormat\<close> models \<open>cloudFormat.js\<close>, and the pack writer of \<open>format.rs\<close> as the other side of the
    round trip: what Luna packs, the browser restores; every chunk lies inside its pack; which error
    a bad pack or tree gives; what a snapshot signature binds and what it does not.
  \<^item> \<open>PackCache\<close> models \<open>makePackReaderWith\<close> as an event system with leases: a held lease reads, the open
    packs are bounded, disposal resolves.
  \<^item> \<open>CloudPrivate\<close> models \<open>cloudPrivate.js\<close>: a phrase finds its own scopes, and only signed ones.
  \<^item> \<open>CloudKeys\<close> models \<open>cloudKeys.js\<close>: a reader finds the key that was sealed to the phrase, and only keys that
    the signing key of the own self record vouches for; \<open>CloudUnlock\<close> models \<open>cloudUnlock.js\<close> and
    \<open>privateUnlock.js\<close>: every readable snapshot is shown, and every version shown can be opened.
  \<^item> \<open>CloudPhrase\<close> models \<open>cloudPhrase.js\<close>: a changed phrase opens the private scopes the old one opened,
    a saved phrase names the signing key of Luna, a replacement is signed over the values it sends,
    and the downloaded file is read back.
  \<^item> \<open>ZipFile\<close> models \<open>zip.js\<close> and a reference reader of zip archives; \<open>CloudTree\<close> models \<open>cloudTree.js\<close>
    and \<open>cloudDownload.js\<close>: a listing is exact, a downloaded folder holds its files, no file of it
    is unpacked outside of the target.

  \<^bold>\<open>Bounds and termination.\<close> No definition uses fuel. Loops are structural recursions, or functions with a
  measure: the pumps take an entry off their queue at each pass, the request loop settles an item at
  each pass, the eviction loop of the cache shortens it. A dropped folder is a finite tree (of
  batches, as the browser hands them over). Sizes, counters and times are natural numbers or
  integers where the source's doubles hold them exactly; rounding is modelled where it is visible
  (\<open>js_fl\<close>: percentages, size texts); bytes, code units, capability sets and checksums are words, and
  the fields of binary formats keep their widths.

  \<^bold>\<open>Not modelled.\<close>

  \<^item> Rendering, the DOM, React hooks and the query cache: the pages and components (JSX) hold markup
    and effects; the decisions they call are in \<open>lib/\<close>.
  \<^item> The daemons and services (Rust, Go) and the frontends of Sol, which are separate programs; the
    answers of a service are events or arguments here.
  \<^item> Third-party code: the editors, the Markdown parser, the collator, \<open>JSON\<close>, the cryptographic
    primitives. They are arguments with named hypotheses.
  \<^item> Clearing key bytes after use, which changes no value a function returns.
  \<^item> Restoring a private backup to a new Luna (\<open>cloudRestore.js\<close>, \<open>privateRestore.js\<close>).
\<close>

end
